(* ===== verification/Prelude.thy ===== *)
theory Prelude
  imports Main
begin

text \<open>
  The prelude of the development: Python exceptions as values, the result type every
  fallible operation returns, the sequencing of guards that a dataclass's
  \<open>__post_init__\<close> performs, and the few string predicates of Python the
  validators call.

  Strings are lists of characters.  The predicates \<open>isupper\<close>, \<open>isalpha\<close>,
  \<open>islower\<close> and \<open>isalnum\<close> are those of Python on ASCII; a character of code 128
  and above counts as neither cased nor alphabetic (the tables of Unicode are not modelled).

  An exception carries the fixed part of its message, which is enough to tell the branches
  of one routine apart; interpolated values are not rendered.
\<close>

named_theorems decimal_simps \<open>exactness and order facts of decimal arithmetic\<close>
named_theorems validator_defs \<open>definitions of the checks made when a value is built\<close>

section \<open>Exceptions and results\<close>

text \<open>The hierarchy of the IG client's errors.\<close>

datatype ig_failure = IGAuthError | IGSessionExpired | IGRateLimited | IGOrderRejected | IGRequestInvalid | IGConnectionError

datatype exn =
    ValueError string
  | TypeError string
  | KeyError string
  | IndexError string
  | RuntimeError string
  | NotImplementedError string
  | InvalidOperation
  | DivisionByZero
  | UnknownBucket string
  | PriceRuleUnavailable string
  | IBShapeError string
  | InstrumentNotResolvable string
  | InstrumentAmbiguous nat
  | CredentialsMissing string "string list"
  | AssertionError string
  | FileNotFoundError string
  | AttributeError string
  | UnboundLocalError string
  | IGError ig_failure "string option" "int option"
  | TransportError
  | IBConnectionError string
  | IBMarketDataError string
  | UnknownBroker string string
  | TimeoutError
  | ZeroDivisionError string

type_synonym 'a res = "exn + 'a"

definition bindR :: "'a res \<Rightarrow> ('a \<Rightarrow> 'b res) \<Rightarrow> 'b res" where
  "bindR r f = (case r of Inl e \<Rightarrow> Inl e | Inr x \<Rightarrow> f x)"

lemma bindR_simps [simp]:
  "bindR (Inl e) f = Inl e"
  "bindR (Inr x) f = f x"
  by (simp_all add: bindR_def)

lemma bindR_eq_Inr [simp]: "bindR r f = Inr y \<longleftrightarrow> (\<exists>x. r = Inr x \<and> f x = Inr y)"
  by (cases r) auto

lemma bindR_eq_Inl: "bindR r f = Inl e \<longleftrightarrow> r = Inl e \<or> (\<exists>x. r = Inr x \<and> f x = Inl e)"
  by (cases r) auto

definition is_ok :: "'a res \<Rightarrow> bool" where
  "is_ok r = (case r of Inl _ \<Rightarrow> False | Inr _ \<Rightarrow> True)"

lemma is_ok_simps [simp]: "is_ok (Inl e) = False" "is_ok (Inr x) = True"
  by (simp_all add: is_ok_def)

lemma is_ok_iff: "is_ok r \<longleftrightarrow> (\<exists>x. r = Inr x)"
  by (cases r) auto

text \<open>Python's \<open>for x in xs: out.append(f(x))\<close> where \<open>f\<close> may raise.\<close>

fun mapR :: "('a \<Rightarrow> 'b res) \<Rightarrow> 'a list \<Rightarrow> 'b list res" where
  "mapR f [] = Inr []"
| "mapR f (x # xs) = bindR (f x) (\<lambda>y. bindR (mapR f xs) (\<lambda>ys. Inr (y # ys)))"

lemma mapR_eq_Inr: "mapR f xs = Inr ys \<longleftrightarrow> list_all2 (\<lambda>x y. f x = Inr y) xs ys"
  by (induction xs arbitrary: ys) (auto simp: list_all2_Cons1)

section \<open>Guards in sequence\<close>

text \<open>
  A validator is a list of pairs: the condition under which the code raises, and what it
  raises.  The first condition that holds decides, as in a sequence of
  \<open>if bad: raise ...\<close> statements.
\<close>

fun checks :: "(bool \<times> exn) list \<Rightarrow> unit res" where
  "checks [] = Inr ()"
| "checks ((bad, e) # cs) = (if bad then Inl e else checks cs)"

definition validated :: "('a \<Rightarrow> (bool \<times> exn) list) \<Rightarrow> 'a \<Rightarrow> 'a res" where
  "validated chk x = (case checks (chk x) of Inl e \<Rightarrow> Inl e | Inr _ \<Rightarrow> Inr x)"

lemma checks_ok_iff: "checks cs = Inr () \<longleftrightarrow> (\<forall>(b, e) \<in> set cs. \<not> b)"
  by (induction cs rule: checks.induct) auto

lemma checks_append [simp]:
  "checks (xs @ ys) = (case checks xs of Inl e \<Rightarrow> Inl e | Inr _ \<Rightarrow> checks ys)"
  by (induction xs rule: checks.induct) auto

lemma validated_eq_Inr: "validated chk x = Inr y \<longleftrightarrow> y = x \<and> checks (chk x) = Inr ()"
  by (auto simp: validated_def split: sum.splits)

lemma validated_ok: "checks (chk x) = Inr () \<Longrightarrow> validated chk x = Inr x"
  by (simp add: validated_eq_Inr)

section \<open>Python string predicates\<close>

definition c_upper :: "char \<Rightarrow> bool" where
  "c_upper c = (65 \<le> (of_char c :: nat) \<and> (of_char c :: nat) \<le> 90)"

definition c_lower :: "char \<Rightarrow> bool" where
  "c_lower c = (97 \<le> (of_char c :: nat) \<and> (of_char c :: nat) \<le> 122)"

definition c_digit :: "char \<Rightarrow> bool" where
  "c_digit c = (48 \<le> (of_char c :: nat) \<and> (of_char c :: nat) \<le> 57)"

definition c_alpha :: "char \<Rightarrow> bool" where
  "c_alpha c = (c_upper c \<or> c_lower c)"

definition c_space :: "char \<Rightarrow> bool" where
  "c_space c = (let n = (of_char c :: nat) in 9 \<le> n \<and> n \<le> 13 \<or> 28 \<le> n \<and> n \<le> 32)"

definition py_isascii :: "string \<Rightarrow> bool" where
  "py_isascii s = list_all (\<lambda>c. (of_char c :: nat) < 128) s"

definition py_isupper :: "string \<Rightarrow> bool" where
  "py_isupper s = (list_ex c_upper s \<and> list_all (\<lambda>c. \<not> c_lower c) s)"

definition py_islower :: "string \<Rightarrow> bool" where
  "py_islower s = (list_ex c_lower s \<and> list_all (\<lambda>c. \<not> c_upper c) s)"

definition py_isalpha :: "string \<Rightarrow> bool" where
  "py_isalpha s = (s \<noteq> [] \<and> list_all c_alpha s)"

definition py_strip :: "string \<Rightarrow> string" where
  "py_strip s = rev (dropWhile c_space (rev (dropWhile c_space s)))"

lemmas py_string_defs =
  py_isascii_def py_isupper_def py_islower_def py_isalpha_def py_strip_def
  c_upper_def c_lower_def c_digit_def c_alpha_def c_space_def

lemma py_strip_Nil [simp]: "py_strip [] = []"
  by (simp add: py_strip_def)

section \<open>Rendering integers\<close>

function show_digits :: "int \<Rightarrow> string" where
  "show_digits n = (if n < 10 then [char_of (48 + nat n)] else show_digits (n div 10) @ [char_of (48 + nat (n mod 10))])"
  by pat_completeness auto
termination
  by (relation "measure nat") auto

declare show_digits.simps [simp del]

definition show_int :: "int \<Rightarrow> string" where
  "show_int n = (if n < 0 then CHR ''-'' # show_digits (- n) else show_digits n)"

definition zero_pad :: "nat \<Rightarrow> int \<Rightarrow> string" where
  "zero_pad w n = (let s = show_digits n in replicate (w - length s) CHR ''0'' @ s)"

lemma show_digits_not_Nil [simp]: "show_digits n \<noteq> []"
  by (subst show_digits.simps) simp

lemma zero_pad_not_Nil [simp]: "zero_pad w n \<noteq> []"
  by (simp add: zero_pad_def Let_def)

section \<open>Mutation and exceptions\<close>

text \<open>
  A method that mutates its object and may raise: what it changed before raising stays changed.
\<close>

type_synonym ('s, 'a) sx = "'s \<Rightarrow> 'a res \<times> 's"

definition retS :: "'a \<Rightarrow> ('s, 'a) sx" where
  "retS x s = (Inr x, s)"

definition raiseS :: "exn \<Rightarrow> ('s, 'a) sx" where
  "raiseS e s = (Inl e, s)"

definition bindS :: "('s, 'a) sx \<Rightarrow> ('a \<Rightarrow> ('s, 'b) sx) \<Rightarrow> ('s, 'b) sx" where
  "bindS m f s = (case m s of (Inl e, s') \<Rightarrow> (Inl e, s') | (Inr x, s') \<Rightarrow> f x s')"

definition modS :: "('s \<Rightarrow> 's) \<Rightarrow> ('s, unit) sx" where
  "modS f s = (Inr (), f s)"

definition getS :: "('s \<Rightarrow> 'a) \<Rightarrow> ('s, 'a) sx" where
  "getS f s = (Inr (f s), s)"

definition liftS :: "'a res \<Rightarrow> ('s, 'a) sx" where
  "liftS r s = (r, s)"

lemma sx_simps [simp]:
  "retS x s = (Inr x, s)" "raiseS e s = (Inl e, s)" "modS f s = (Inr (), f s)" "getS g s = (Inr (g s), s)"
  "liftS r s = (r, s)" "bindS (retS x) k s = k x s" "bindS (raiseS e) k s = (Inl e, s)" "bindS (modS f) h s = h () (f s)"
  "bindS (getS g) k s = k (g s) s" "bindS (liftS (Inr x)) k s = k x s" "bindS (liftS (Inl e)) k s = (Inl e, s)"
  by (simp_all add: retS_def raiseS_def modS_def getS_def liftS_def bindS_def)

lemma bindS_eq: "m s = (Inr x, s') \<Longrightarrow> bindS m f s = f x s'"
  "m s = (Inl e, s') \<Longrightarrow> bindS m f s = (Inl e, s')"
  by (simp_all add: bindS_def)

end
