(* ===== verification/Decimals.thy ===== *)
theory Decimals
  imports Prelude Complex_Main
begin

text \<open>
  Python's \<open>decimal.Decimal\<close> in the default context (precision 28,
  \<open>ROUND_HALF_EVEN\<close>), as far as the program uses it: a finite decimal is a coefficient
  and an exponent; addition, subtraction, multiplication, division, unary minus and
  \<open>abs\<close> round to 28 digits; comparison is exact; \<open>quantize\<close> rescales and raises
  \<open>InvalidOperation\<close> when the result needs more than 28 digits; \<open>to_integral_value\<close>
  rounds to an integer.  Signed zeros, infinities, NaNs and the exponent limits
  (plus or minus 999999) are outside the model.
\<close>

section \<open>Digits and rounding of integer quotients\<close>

function ndigits :: "int \<Rightarrow> nat" where
  "ndigits n = (if n < 10 then 1 else Suc (ndigits (n div 10)))"
  by pat_completeness auto
termination
  by (relation "measure nat") auto

declare ndigits.simps [simp del]

datatype rounding = ROUND_HALF_EVEN | ROUND_HALF_UP | ROUND_FLOOR | ROUND_CEILING | ROUND_DOWN

text \<open>\<open>round_div m n d\<close> is the integer that mode \<open>m\<close> chooses for \<open>n / d\<close>, for \<open>0 < d\<close>.\<close>

definition round_half_even :: "int \<Rightarrow> int \<Rightarrow> int" where
  "round_half_even n d =
     (let q = n div d; r = n mod d
      in if 2 * r < d then q else if d < 2 * r then q + 1 else if even q then q else q + 1)"

fun round_div :: "rounding \<Rightarrow> int \<Rightarrow> int \<Rightarrow> int" where
  "round_div ROUND_HALF_EVEN n d = round_half_even n d"
| "round_div ROUND_HALF_UP n d = sgn n * ((2 * \<bar>n\<bar> + d) div (2 * d))"
| "round_div ROUND_FLOOR n d = n div d"
| "round_div ROUND_CEILING n d = - ((- n) div d)"
| "round_div ROUND_DOWN n d = sgn n * (\<bar>n\<bar> div d)"

lemma ndigits_pos [simp]: "0 < ndigits n"
  by (subst ndigits.simps) simp

lemma ndigits_upper: "n < 10 ^ ndigits n"
proof (induction n rule: ndigits.induct)
  case (1 n)
  show ?case
  proof (cases "n < 10")
    case True
    then show ?thesis by (simp add: ndigits.simps [of n])
  next
    case False
    with "1" have "n div 10 < 10 ^ ndigits (n div 10)" by simp
    then have "n < 10 * 10 ^ ndigits (n div 10)" by linarith
    with False show ?thesis by (simp add: ndigits.simps [of n])
  qed
qed

lemma ndigits_lower: "0 < n \<Longrightarrow> 10 ^ (ndigits n - 1) \<le> n"
proof (induction n rule: ndigits.induct)
  case (1 n)
  show ?case
  proof (cases "n < 10")
    case True
    with "1.prems" show ?thesis by (simp add: ndigits.simps [of n])
  next
    case False
    then have pos: "0 < n div 10" by (simp add: pos_imp_zdiv_pos_iff)
    with False "1.IH" have IH: "10 ^ (ndigits (n div 10) - 1) \<le> n div 10" by simp
    have "(10::int) ^ ndigits (n div 10) = 10 * 10 ^ (ndigits (n div 10) - 1)"
      by (metis Suc_diff_1 ndigits_pos power_Suc)
    with IH have "10 ^ ndigits (n div 10) \<le> 10 * (n div 10)" by simp
    also have "\<dots> \<le> n" by simp
    finally show ?thesis using False by (simp add: ndigits.simps [of n])
  qed
qed

lemma ndigits_le_iff: "0 < k \<Longrightarrow> ndigits n \<le> k \<longleftrightarrow> n < 10 ^ k"
proof
  assume "0 < k" "ndigits n \<le> k"
  then have "(10::int) ^ ndigits n \<le> 10 ^ k" by (simp add: power_increasing)
  with ndigits_upper [of n] show "n < 10 ^ k" by linarith
next
  assume k: "0 < k" "n < 10 ^ k"
  show "ndigits n \<le> k"
  proof (cases "0 < n")
    case False
    with k show ?thesis by (simp add: ndigits.simps)
  next
    case True
    then have "10 ^ (ndigits n - 1) < (10::int) ^ k" using ndigits_lower k by (meson le_less_trans)
    then have "ndigits n - 1 < k" by simp
    then show ?thesis by simp
  qed
qed

lemma div_mod_rat: "0 < d \<Longrightarrow> (of_int n :: rat) / of_int d = of_int (n div d) + of_int (n mod d) / of_int d"
proof -
  assume d: "0 < d"
  have "of_int n = (of_int (n div d * d + n mod d) :: rat)" by simp
  also have "\<dots> = of_int (n div d) * of_int d + of_int (n mod d)" by (simp only: of_int_add of_int_mult)
  finally show ?thesis using d by (simp add: add_divide_distrib)
qed

text \<open>Every mode stays within one unit of the quotient, and the half modes within one half.\<close>

lemma half_even_error:
  assumes d: "0 < d"
  shows "2 * \<bar>round_half_even n d * d - n\<bar> \<le> d"
proof -
  have n: "n = n div d * d + n mod d" by simp
  have r: "0 \<le> n mod d" "n mod d < d" using d by simp_all
  consider "round_half_even n d = n div d" "2 * (n mod d) \<le> d"
    | "round_half_even n d = n div d + 1" "d \<le> 2 * (n mod d)"
    by (force simp: round_half_even_def Let_def split: if_splits)
  then show ?thesis
  proof cases
    case 1
    then have "round_half_even n d * d - n = - (n mod d)" using n by (metis add_diff_cancel_left' minus_diff_eq)
    with 1 r show ?thesis by simp
  next
    case 2
    then have "round_half_even n d * d = n div d * d + d" by (simp add: algebra_simps)
    with n have "round_half_even n d * d - n = d - n mod d" by linarith
    with 2 r show ?thesis by simp
  qed
qed

lemma half_even_cases: "round_half_even n d = n div d \<or> round_half_even n d = n div d + 1 \<and> n mod d \<noteq> 0" if "0 < d"
  using that by (auto simp: round_half_even_def Let_def)

lemma half_even_exact [simp]: "0 < d \<Longrightarrow> n mod d = 0 \<Longrightarrow> round_half_even n d = n div d"
  by (simp add: round_half_even_def Let_def)

lemma half_even_lower: "0 < d \<Longrightarrow> k * d \<le> n \<Longrightarrow> k \<le> round_half_even n d"
proof -
  assume d: "0 < d" and "k * d \<le> n"
  then have "k \<le> n div d" using zdiv_mono1 [of "k * d" n d] by simp
  with half_even_cases [OF d, of n] show ?thesis by auto
qed

lemma half_even_upper: "0 < d \<Longrightarrow> n \<le> k * d \<Longrightarrow> round_half_even n d \<le> k"
proof -
  assume d: "0 < d" and le: "n \<le> k * d"
  show ?thesis
  proof (cases "n mod d = 0")
    case True
    have "n div d \<le> k * d div d" using le d by (rule zdiv_mono1)
    with True d show ?thesis by simp
  next
    case False
    have "n \<noteq> k * d" using False by auto
    with le have "n < k * d" by simp
    have "n div d < k"
    proof (rule ccontr)
      assume "\<not> n div d < k"
      then have "k * d \<le> n div d * d" using d by simp
      also have "\<dots> \<le> n" using d by (metis add_le_same_cancel1 div_mult_mod_eq le_add_same_cancel1 pos_mod_sign)
      finally show False using \<open>n < k * d\<close> by simp
    qed
    with half_even_cases [OF d, of n] show ?thesis by auto
  qed
qed

section \<open>Decimals and their value\<close>

datatype decimal = Dec (coef: int) (expo: int)

abbreviation p10 :: "int \<Rightarrow> rat" where
  "p10 e \<equiv> 10 powi e"

definition dval :: "decimal \<Rightarrow> rat" where
  "dval d = of_int (coef d) * p10 (expo d)"

lemma dval_Dec [simp]: "dval (Dec c e) = of_int c * p10 e"
  by (simp add: dval_def)

lemma p10_pos [simp]: "0 < p10 e"
  by (simp add: power_int_def)

lemma p10_nonneg [simp]: "0 \<le> p10 e"
  using p10_pos [of e] by linarith

lemma p10_not_le_0 [simp]: "\<not> p10 e \<le> 0"
  using p10_pos [of e] by linarith

lemma p10_not_less_0 [simp]: "\<not> p10 e < 0"
  using p10_pos [of e] by linarith

lemma p10_nz [simp]: "p10 e \<noteq> 0"
  using p10_pos [of e] by linarith

lemma p10_add: "p10 (a + b) = p10 a * p10 b"
  by (simp add: power_int_add)

lemma p10_int: "p10 (int n) = of_int (10 ^ n)"
  by (simp add: power_int_def)

lemma p10_split: "e \<le> x \<Longrightarrow> p10 x = of_int (10 ^ nat (x - e)) * p10 e"
proof -
  assume "e \<le> x"
  then have "x = int (nat (x - e)) + e" by simp
  then have "p10 x = p10 (int (nat (x - e))) * p10 e" by (metis p10_add)
  then show ?thesis by (simp only: p10_int)
qed

lemma p10_mono: "a \<le> b \<Longrightarrow> p10 a \<le> p10 b"
  by (simp add: power_int_increasing)

text \<open>Comparison is exact: both coefficients are brought to the smaller exponent.\<close>

definition aligned :: "int \<Rightarrow> decimal \<Rightarrow> int" where
  "aligned e d = coef d * 10 ^ nat (expo d - e)"

lemma dval_aligned: "e \<le> expo d \<Longrightarrow> dval d = of_int (aligned e d) * p10 e"
  by (simp add: dval_def aligned_def p10_split [of e "expo d"])

instantiation decimal :: preorder
begin

definition less_eq_decimal :: "decimal \<Rightarrow> decimal \<Rightarrow> bool" where
  "a \<le> b \<longleftrightarrow> (let e = min (expo a) (expo b) in aligned e a \<le> aligned e b)"

definition less_decimal :: "decimal \<Rightarrow> decimal \<Rightarrow> bool" where
  "a < b \<longleftrightarrow> (let e = min (expo a) (expo b) in aligned e a < aligned e b)"

instance
proof -
  have le: "a \<le> b \<longleftrightarrow> dval a \<le> dval b" for a b :: decimal
    by (simp add: less_eq_decimal_def Let_def dval_aligned [of "min (expo a) (expo b)"])
  have lt: "a < b \<longleftrightarrow> dval a < dval b" for a b :: decimal
    by (simp add: less_decimal_def Let_def dval_aligned [of "min (expo a) (expo b)"])
  show "OFCLASS(decimal, preorder_class)"
    by standard (auto simp: le lt)
qed

end

lemma dec_le_iff [decimal_simps]: "a \<le> b \<longleftrightarrow> dval a \<le> dval b"
  by (simp add: less_eq_decimal_def Let_def dval_aligned [of "min (expo a) (expo b)"])

lemma dec_less_iff [decimal_simps]: "a < b \<longleftrightarrow> dval a < dval b"
  by (simp add: less_decimal_def Let_def dval_aligned [of "min (expo a) (expo b)"])

text \<open>Python's \<open>==\<close> on decimals compares values, not representations.\<close>

definition dec_eq :: "decimal \<Rightarrow> decimal \<Rightarrow> bool" where
  "dec_eq a b = (let e = min (expo a) (expo b) in aligned e a = aligned e b)"

lemma dec_eq_iff [decimal_simps]: "dec_eq a b \<longleftrightarrow> dval a = dval b"
  by (simp add: dec_eq_def Let_def dval_aligned [of "min (expo a) (expo b)"])

abbreviation dzero :: decimal where "dzero \<equiv> Dec 0 0"

abbreviation dint :: "int \<Rightarrow> decimal" where "dint n \<equiv> Dec n 0"

lemma dval_dint [simp]: "dval (dint n) = of_int n"
  by simp

section \<open>Rounding to the context\<close>

text \<open>
  \<open>dround n d e\<close> is \<open>(n / d) * 10 ^ e\<close> rounded half-even to 28 significant
  digits, for \<open>0 < d\<close> and a quotient that is exact or has 28 integer digits.
\<close>

definition dround :: "int \<Rightarrow> int \<Rightarrow> int \<Rightarrow> decimal" where
  "dround n d e =
     (let k = ndigits (\<bar>n\<bar> div d) - 28;
          c = round_half_even n (d * 10 ^ k)
      in if 10 ^ 28 \<le> \<bar>c\<bar> then Dec (c div 10) (e + int k + 1) else Dec c (e + int k))"

definition repr28 :: "rat \<Rightarrow> bool" where
  "repr28 r \<longleftrightarrow> (\<exists>c e. \<bar>c\<bar> < 10 ^ 28 \<and> r = of_int c * p10 e)"

text \<open>
  What a rounded result promises: it is representable, no representable number lies strictly
  between it and the exact value, and its relative error is at most half a unit in the 28th
  digit.
\<close>

definition rounded :: "rat \<Rightarrow> rat \<Rightarrow> bool" where
  "rounded x r \<longleftrightarrow> repr28 r \<and> (\<forall>y. repr28 y \<longrightarrow> y \<le> x \<longrightarrow> y \<le> r) \<and>
     (\<forall>y. repr28 y \<longrightarrow> x \<le> y \<longrightarrow> r \<le> y) \<and> 2 * 10 ^ 27 * \<bar>r - x\<bar> \<le> \<bar>x\<bar>"

lemma rounded_lower: "rounded x r \<Longrightarrow> repr28 y \<Longrightarrow> y \<le> x \<Longrightarrow> y \<le> r"
  by (simp add: rounded_def)

lemma rounded_upper: "rounded x r \<Longrightarrow> repr28 y \<Longrightarrow> x \<le> y \<Longrightarrow> r \<le> y"
  by (simp add: rounded_def)

lemma rounded_exact: "rounded x r \<Longrightarrow> repr28 x \<Longrightarrow> r = x"
  by (meson order_refl antisym rounded_lower rounded_upper)

lemma rounded_error: "rounded x r \<Longrightarrow> 2 * 10 ^ 27 * \<bar>r - x\<bar> \<le> \<bar>x\<bar>"
  by (simp add: rounded_def)

lemma rounded_pos_iff: "rounded x r \<Longrightarrow> 0 < r \<longleftrightarrow> 0 < x"
  using rounded_error [of x r] by (auto simp: abs_if split: if_splits)

lemma rounded_neg_iff: "rounded x r \<Longrightarrow> r < 0 \<longleftrightarrow> x < 0"
  using rounded_error [of x r] by (auto simp: abs_if split: if_splits)

lemma rounded_zero_iff: "rounded x r \<Longrightarrow> r = 0 \<longleftrightarrow> x = 0"
  using rounded_pos_iff [of x r] rounded_neg_iff [of x r] by auto

lemma repr28_Dec [intro]: "\<bar>c\<bar> < 10 ^ 28 \<Longrightarrow> repr28 (of_int c * p10 e)"
  by (auto simp: repr28_def)

lemma repr28_of_int: "\<bar>n\<bar> < 10 ^ 28 \<Longrightarrow> repr28 (of_int n)"
  using repr28_Dec [of n 0] by simp

lemma repr28_0 [simp]: "repr28 0"
  using repr28_of_int [of 0] by simp

lemma repr28_1 [simp]: "repr28 1"
  using repr28_of_int [of 1] by simp

lemma repr28_uminus [simp]: "repr28 (- r) \<longleftrightarrow> repr28 r"
proof -
  have "repr28 (- r)" if "repr28 r" for r
  proof -
    from that obtain c e where c: "\<bar>c\<bar> < 10 ^ 28" "r = of_int c * p10 e" by (auto simp: repr28_def)
    then have "- r = of_int (- c) * p10 e" by simp
    with c show ?thesis unfolding repr28_def by (metis abs_minus_cancel)
  qed
  from this [of r] this [of "- r"] show ?thesis by auto
qed

lemma repr28_abs [simp]: "repr28 \<bar>r\<bar> \<longleftrightarrow> repr28 r"
  by (simp add: abs_if)

lemma repr28_mult_p10: "repr28 r \<Longrightarrow> repr28 (r * p10 k)"
  unfolding repr28_def by (metis mult.assoc p10_add)

text \<open>
  The kernel of the rounding argument: \<open>n / m\<close> with at least 28 integer digits, rounded
  to an integer, lies on the right side of every representable number.
\<close>

lemma half_even_repr_lower:
  assumes m: "0 < m" and big: "10 ^ 27 * m \<le> \<bar>n\<bar>"
    and y: "repr28 y" and le: "y \<le> of_int n / of_int m * p10 g"
  shows "y \<le> of_int (round_half_even n m) * p10 g"
proof -
  let ?r = "round_half_even n m"
  have mr: "(0::rat) < of_int m" using m by simp
  from y obtain cy ey where cy: "\<bar>cy\<bar> < 10 ^ 28" "y = of_int cy * p10 ey" by (auto simp: repr28_def)
  show ?thesis
  proof (cases "g \<le> ey")
    case True
    define j where "j = cy * 10 ^ nat (ey - g)"
    have yj: "y = of_int j * p10 g" using cy(2) p10_split [OF True] by (simp add: j_def)
    with le have "of_int j * p10 g \<le> of_int n / of_int m * p10 g" by simp
    then have "(of_int j :: rat) \<le> of_int n / of_int m" by (rule mult_right_le_imp_le) simp
    then have "(of_int (j * m) :: rat) \<le> of_int n" using mr by (simp add: pos_le_divide_eq)
    then have "j * m \<le> n" by (simp only: of_int_le_iff)
    then have "j \<le> ?r" by (rule half_even_lower [OF m])
    then show ?thesis by (simp add: yj)
  next
    case False
    have small: "\<bar>y\<bar> < 10 ^ 27 * p10 g"
    proof -
      have c: "(of_int \<bar>cy\<bar> :: rat) < 10 ^ 28" using cy(1) by (metis of_int_less_iff of_int_numeral of_int_power)
      have "\<bar>y\<bar> = of_int \<bar>cy\<bar> * p10 ey" by (simp add: cy(2) abs_mult)
      also have "\<dots> < 10 ^ 28 * p10 ey" using c by simp
      also have "\<dots> = 10 ^ 27 * p10 (ey + 1)" by (simp add: p10_add)
      also have "\<dots> \<le> 10 ^ 27 * p10 g" using False by (simp add: p10_mono)
      finally show ?thesis .
    qed
    show ?thesis
    proof (cases "0 \<le> n")
      case True
      with big have "10 ^ 27 * m \<le> n" by simp
      then have "10 ^ 27 \<le> ?r" by (rule half_even_lower [OF m])
      then have "(10 ^ 27 :: rat) \<le> of_int ?r" by (metis of_int_le_iff of_int_numeral of_int_power)
      then have "10 ^ 27 * p10 g \<le> of_int ?r * p10 g" by (simp add: mult_right_mono)
      with small show ?thesis by linarith
    next
      case False
      with big have "10 ^ 27 * m \<le> - n" by simp
      then have "(of_int (10 ^ 27 * m) :: rat) \<le> of_int (- n)" by (simp only: of_int_le_iff)
      then have "(of_int n :: rat) / of_int m \<le> - (10 ^ 27)" using mr by (simp add: pos_divide_le_eq)
      then have "of_int n / of_int m * p10 g \<le> - (10 ^ 27) * p10 g" by (rule mult_right_mono) simp
      with le small show ?thesis by linarith
    qed
  qed
qed

lemma half_even_uminus: "0 < d \<Longrightarrow> round_half_even (- n) d = - round_half_even n d"
proof -
  assume d: "0 < d"
  show ?thesis
  proof (cases "n mod d = 0")
    case True
    then have "d dvd n" by presburger
    then show ?thesis using d True by (simp add: div_minus_minus dvd_neg_div)
  next
    case False
    have "(- n) div d = - (n div d) - 1" "(- n) mod d = d - n mod d"
      using False d by (simp_all add: zdiv_zminus1_eq_if zmod_zminus1_eq_if)
    with False show ?thesis by (auto simp: round_half_even_def Let_def)
  qed
qed

lemma half_even_repr_upper:
  assumes m: "0 < m" and big: "10 ^ 27 * m \<le> \<bar>n\<bar>"
    and y: "repr28 y" and le: "of_int n / of_int m * p10 g \<le> y"
  shows "of_int (round_half_even n m) * p10 g \<le> y"
proof -
  have "- y \<le> of_int (round_half_even (- n) m) * p10 g"
    by (rule half_even_repr_lower [OF m]) (use big y le in simp_all)
  then show ?thesis by (simp add: half_even_uminus [OF m])
qed

definition enough_digits :: "int \<Rightarrow> int \<Rightarrow> bool" where
  "enough_digits n d \<longleftrightarrow> d dvd n \<or> 10 ^ 27 \<le> \<bar>n\<bar> div d"

lemma div_less_mult: "0 < d \<Longrightarrow> n div d < q \<Longrightarrow> n < q * (d::int)"
  by (metis int_div_less_self le_less_trans mult.commute not_less zdiv_mono1 nonzero_mult_div_cancel_right less_irrefl)

lemma le_div_mult: "0 < d \<Longrightarrow> q \<le> n div d \<Longrightarrow> q * d \<le> (n::int)"
  using div_less_mult [of d] by (metis add.commute div_mult_mod_eq le_add_same_cancel2 mult_right_mono order.trans order_less_imp_le pos_mod_sign)

lemma dval_dround:
  assumes d: "0 < d" and k: "k = ndigits (\<bar>n\<bar> div d) - 28"
  shows "dval (dround n d e) = of_int (round_half_even n (d * 10 ^ k)) * p10 (e + int k)"
    and "\<bar>coef (dround n d e)\<bar> < 10 ^ 28"
proof -
  let ?c = "round_half_even n (d * 10 ^ k)"
  have "ndigits (\<bar>n\<bar> div d) \<le> 28 + k" using k by linarith
  then have "\<bar>n\<bar> div d < 10 ^ (28 + k)"
    by (subst (asm) ndigits_le_iff) simp_all
  then have "\<bar>n\<bar> < 10 ^ (28 + k) * d" by (rule div_less_mult [OF d])
  then have "\<bar>n\<bar> \<le> 10 ^ 28 * (d * 10 ^ k)" by (simp add: power_add mult_ac less_imp_le)
  then have "?c \<le> 10 ^ 28" "- (10 ^ 28) \<le> ?c"
    using d by (auto intro!: half_even_upper half_even_lower)
  then have c28: "\<bar>?c\<bar> \<le> 10 ^ 28" by simp
  have "?c = 10 ^ 28 \<or> ?c = - (10 ^ 28)" if "10 ^ 28 \<le> \<bar>?c\<bar>" using that c28 by linarith
  then show "dval (dround n d e) = of_int ?c * p10 (e + int k)"
    by (fastforce simp: dround_def Let_def p10_add simp flip: k)
  show "\<bar>coef (dround n d e)\<bar> < 10 ^ 28"
  proof (cases "10 ^ 28 \<le> \<bar>?c\<bar>")
    case True
    then have "?c = 10 ^ 28 \<or> ?c = - (10 ^ 28)" using c28 by linarith
    with True show ?thesis by (auto simp: dround_def Let_def simp flip: k)
  next
    case False
    then show ?thesis by (simp add: dround_def Let_def flip: k)
  qed
qed

lemma rounded_self: "repr28 x \<Longrightarrow> rounded x x"
  by (simp add: rounded_def)

lemma half_even_rounded:
  assumes m: "0 < m" and big: "10 ^ 27 * m \<le> \<bar>n\<bar>"
    and r: "repr28 (of_int (round_half_even n m) * p10 g)"
  shows "rounded (of_int n / of_int m * p10 g) (of_int (round_half_even n m) * p10 g)"
proof -
  let ?c = "round_half_even n m"
  have mr: "(0::rat) < of_int m" using m by simp
  have "2 * 10 ^ 27 * \<bar>?c * m - n\<bar> \<le> 10 ^ 27 * m" using half_even_error [OF m, of n] by simp
  with big have "2 * 10 ^ 27 * \<bar>?c * m - n\<bar> \<le> \<bar>n\<bar>" by linarith
  then have "(of_int (2 * 10 ^ 27 * \<bar>?c * m - n\<bar>) :: rat) \<le> of_int \<bar>n\<bar>" by (simp only: of_int_le_iff)
  then have e: "2 * 10 ^ 27 * \<bar>of_int ?c * of_int m - (of_int n :: rat)\<bar> \<le> \<bar>of_int n\<bar>" by simp
  have "2 * 10 ^ 27 * \<bar>of_int ?c - of_int n / of_int m :: rat\<bar> \<le> \<bar>of_int n / of_int m\<bar>"
  proof -
    have eq: "of_int ?c - of_int n / of_int m = (of_int ?c * of_int m - (of_int n :: rat)) / of_int m"
      using mr by (simp add: diff_divide_distrib)
    show ?thesis unfolding eq using e mr by (simp add: abs_divide divide_right_mono)
  qed
  then have "2 * 10 ^ 27 * \<bar>of_int ?c - of_int n / of_int m :: rat\<bar> * p10 g \<le> \<bar>of_int n / of_int m\<bar> * p10 g"
    by (rule mult_right_mono) simp
  moreover have "\<bar>of_int ?c * p10 g - of_int n / of_int m * p10 g\<bar> = \<bar>of_int ?c - of_int n / of_int m\<bar> * p10 g"
    by (simp only: abs_mult abs_of_pos [OF p10_pos] flip: left_diff_distrib)
  moreover have "\<bar>of_int n / of_int m * p10 g\<bar> = \<bar>of_int n / of_int m\<bar> * p10 g"
    by (simp only: abs_mult abs_of_pos [OF p10_pos])
  ultimately have err: "2 * 10 ^ 27 * \<bar>of_int ?c * p10 g - of_int n / of_int m * p10 g\<bar>
      \<le> \<bar>of_int n / of_int m * p10 g\<bar>"
    by (simp only: mult.assoc)
  show ?thesis
    unfolding rounded_def using r err half_even_repr_lower [OF m big] half_even_repr_upper [OF m big] by blast
qed

lemma dround_rounded:
  assumes d: "0 < d" and enough: "enough_digits n d"
  shows "rounded (of_int n / of_int d * p10 e) (dval (dround n d e))"
proof -
  define k where "k = ndigits (\<bar>n\<bar> div d) - 28"
  let ?m = "d * 10 ^ k" and ?g = "e + int k"
  note dv = dval_dround [OF d k_def, of e]
  have m: "0 < ?m" using d by simp
  have x: "of_int n / of_int d * p10 e = of_int n / of_int ?m * p10 ?g"
    using d by (simp add: p10_add p10_int)
  have r: "repr28 (of_int (round_half_even n ?m) * p10 ?g)"
    using dv by (metis dval_def repr28_Dec)
  show ?thesis
  proof (cases "k = 0 \<and> d dvd n")
    case True
    then have "round_half_even n ?m = n div d" using d by simp
    moreover have "(of_int n :: rat) / of_int d = of_int (n div d)" using True d by (simp add: of_int_div)
    ultimately show ?thesis using True r dv by (simp add: rounded_self)
  next
    case False
    have "10 ^ 27 \<le> \<bar>n\<bar> div ?m"
    proof (cases "k = 0")
      case True
      with False enough show ?thesis by (simp add: enough_digits_def)
    next
      case k: False
      let ?q = "\<bar>n\<bar> div d"
      have nd: "ndigits ?q = 28 + k" using k k_def by simp
      have "0 < ?q" using nd by (cases "?q < 10") (simp_all add: ndigits.simps [of ?q])
      with nd have "10 ^ (28 + k - 1) \<le> ?q" using ndigits_lower [of ?q] by simp
      then have "10 ^ (27 + k) \<le> \<bar>n\<bar> div d" by simp
      then have "10 ^ 27 * 10 ^ k \<le> \<bar>n\<bar> div d" by (simp add: power_add)
      then have "10 ^ 27 * 10 ^ k div 10 ^ k \<le> \<bar>n\<bar> div d div 10 ^ k" by (rule zdiv_mono1) simp
      then have "10 ^ 27 \<le> \<bar>n\<bar> div d div 10 ^ k" by simp
      then show ?thesis using d by (simp add: zdiv_zmult2_eq)
    qed
    then have "10 ^ 27 * ?m \<le> \<bar>n\<bar>" by (rule le_div_mult [OF m])
    then have "rounded (of_int n / of_int ?m * p10 ?g) (of_int (round_half_even n ?m) * p10 ?g)"
      by (rule half_even_rounded [OF m _ r])
    then show ?thesis unfolding x dv(1) .
  qed
qed

section \<open>Arithmetic in the context\<close>

definition dfix :: "decimal \<Rightarrow> decimal" where
  "dfix d = dround (coef d) 1 (expo d)"

definition dadd :: "decimal \<Rightarrow> decimal \<Rightarrow> decimal" where
  "dadd a b = (let e = min (expo a) (expo b) in dfix (Dec (aligned e a + aligned e b) e))"

definition dneg_exact :: "decimal \<Rightarrow> decimal" where
  "dneg_exact a = Dec (- coef a) (expo a)"

definition dsub :: "decimal \<Rightarrow> decimal \<Rightarrow> decimal" where
  "dsub a b = dadd a (dneg_exact b)"

definition dneg :: "decimal \<Rightarrow> decimal" where
  "dneg a = dfix (dneg_exact a)"

definition dabs :: "decimal \<Rightarrow> decimal" where
  "dabs a = dfix (Dec \<bar>coef a\<bar> (expo a))"

definition dmul :: "decimal \<Rightarrow> decimal \<Rightarrow> decimal" where
  "dmul a b = dfix (Dec (coef a * coef b) (expo a + expo b))"

text \<open>
  An exact quotient gives up trailing zeros until its exponent is the difference of the
  operands' exponents.
\<close>

fun dstrip :: "nat \<Rightarrow> decimal \<Rightarrow> decimal" where
  "dstrip 0 d = d"
| "dstrip (Suc k) d = (if coef d mod 10 = 0 then dstrip k (Dec (coef d div 10) (expo d + 1)) else d)"

definition ddiv :: "decimal \<Rightarrow> decimal \<Rightarrow> decimal res" where
  "ddiv a b =
     (if coef b = 0 then Inl (if coef a = 0 then InvalidOperation else DivisionByZero)
      else let s = ndigits \<bar>coef b\<bar> + 29 - ndigits \<bar>coef a\<bar>;
               n = sgn (coef b) * coef a * 10 ^ s;
               d = \<bar>coef b\<bar>;
               e = expo a - expo b - int s
           in if n mod d = 0 then Inr (dfix (dstrip s (Dec (n div d) e)))
              else Inr (dround n d e))"

lemma dfix_rounded: "rounded (dval d) (dval (dfix d))"
  using dround_rounded [of 1 "coef d" "expo d"]
  by (simp add: dfix_def dval_def enough_digits_def)

lemma dval_neg_exact [simp]: "dval (dneg_exact a) = - dval a"
  by (simp add: dneg_exact_def dval_def)

lemma dadd_rounded: "rounded (dval a + dval b) (dval (dadd a b))"
proof -
  let ?e = "min (expo a) (expo b)"
  have "dval a + dval b = dval (Dec (aligned ?e a + aligned ?e b) ?e)"
    using dval_aligned [of ?e a] dval_aligned [of ?e b] by (simp add: distrib_right)
  then show ?thesis
    using dfix_rounded [of "Dec (aligned ?e a + aligned ?e b) ?e"] by (simp add: dadd_def Let_def)
qed

lemma dsub_rounded: "rounded (dval a - dval b) (dval (dsub a b))"
  using dadd_rounded [of a "dneg_exact b"] by (simp add: dsub_def)

lemma dneg_rounded: "rounded (- dval a) (dval (dneg a))"
  using dfix_rounded [of "dneg_exact a"] by (simp add: dneg_def)

lemma dabs_rounded: "rounded \<bar>dval a\<bar> (dval (dabs a))"
  using dfix_rounded [of "Dec \<bar>coef a\<bar> (expo a)"] by (simp add: dabs_def dval_def abs_mult)

lemma dmul_rounded: "rounded (dval a * dval b) (dval (dmul a b))"
  using dfix_rounded [of "Dec (coef a * coef b) (expo a + expo b)"]
  by (simp add: dmul_def dval_def p10_add mult_ac)

lemma dval_dstrip [simp]: "dval (dstrip k d) = dval d"
proof (induction k d rule: dstrip.induct)
  case (2 k d)
  show ?case
  proof (cases "coef d mod 10 = 0")
    case True
    then have "coef d = coef d div 10 * 10" by presburger
    then have "dval d = dval (Dec (coef d div 10 * 10) (expo d))" by (metis decimal.collapse)
    also have "\<dots> = dval (Dec (coef d div 10) (expo d + 1))" by (simp add: p10_add)
    finally show ?thesis using 2 True by simp
  qed simp
qed simp

lemma ddiv_zero: "dval b = 0 \<Longrightarrow> ddiv a b = Inl (if dval a = 0 then InvalidOperation else DivisionByZero)"
  by (simp add: ddiv_def dval_def)

lemma ndigits_shift:
  assumes a: "a \<noteq> 0" and b: "b \<noteq> 0" and s: "s = ndigits \<bar>b\<bar> + 29 - ndigits \<bar>a\<bar>"
  shows "10 ^ 27 \<le> \<bar>a\<bar> * 10 ^ s div \<bar>b :: int\<bar>"
proof -
  let ?la = "ndigits \<bar>a\<bar>" and ?lb = "ndigits \<bar>b\<bar>"
  have "10 ^ (?la - 1) \<le> \<bar>a\<bar>" using a by (intro ndigits_lower) simp
  then have "10 ^ (?la - 1) * 10 ^ s \<le> \<bar>a\<bar> * 10 ^ s" by (rule mult_right_mono) simp
  then have lo: "10 ^ (?la - 1 + s) \<le> \<bar>a\<bar> * 10 ^ s" by (simp add: power_add)
  have "\<bar>b\<bar> < 10 ^ ?lb" by (rule ndigits_upper)
  then have "\<bar>b\<bar> \<le> 10 ^ ?lb" by simp
  then have "10 ^ 27 * \<bar>b\<bar> \<le> 10 ^ 27 * 10 ^ ?lb" by simp
  also have "\<dots> = 10 ^ (27 + ?lb)" by (simp only: power_add)
  also have "\<dots> \<le> 10 ^ (?la - 1 + s)"
    using s ndigits_pos [of "\<bar>a\<bar>"] by (intro power_increasing) linarith+
  also note lo
  finally have "10 ^ 27 * \<bar>b\<bar> div \<bar>b\<bar> \<le> \<bar>a\<bar> * 10 ^ s div \<bar>b\<bar>" using b by (intro zdiv_mono1) simp_all
  then show ?thesis using b by simp
qed

lemma ddiv_rounded:
  assumes b: "dval b \<noteq> 0"
  shows "\<exists>q. ddiv a b = Inr q \<and> rounded (dval a / dval b) (dval q)"
proof -
  define s where "s = ndigits \<bar>coef b\<bar> + 29 - ndigits \<bar>coef a\<bar>"
  let ?n = "sgn (coef b) * coef a * 10 ^ s" and ?d = "\<bar>coef b\<bar>" and ?e = "expo a - expo b - int s"
  have cb: "coef b \<noteq> 0" using b by (auto simp: dval_def)
  then have d: "0 < ?d" by simp
  have sg: "(of_int (sgn (coef b)) :: rat) / \<bar>of_int (coef b)\<bar> = 1 / of_int (coef b)"
    using cb by (cases "0 < coef b") (simp_all add: divide_simps)
  have pe: "p10 (expo a) = p10 ?e * p10 (expo b) * of_int (10 ^ s)"
    by (simp only: p10_int [symmetric] p10_add [symmetric]) simp
  have "of_int ?n / of_int ?d * p10 ?e = of_int (sgn (coef b)) / \<bar>of_int (coef b)\<bar> * of_int (coef a) * (p10 ?e * of_int (10 ^ s))"
    by simp
  also have "\<dots> = dval a / dval b"
    unfolding sg dval_def pe by (simp add: divide_simps)
  finally have x: "of_int ?n / of_int ?d * p10 ?e = dval a / dval b" .
  have ab: "\<bar>?n\<bar> = \<bar>coef a\<bar> * 10 ^ s" using cb by (simp add: abs_mult abs_sgn_eq)
  have en: "enough_digits ?n ?d"
    unfolding enough_digits_def ab using ndigits_shift [of "coef a" "coef b" s] cb s_def
    by (cases "coef a = 0") auto
  show ?thesis
  proof (cases "?n mod ?d = 0")
    case True
    then have dv: "?d dvd ?n" by presburger
    let ?q = "dfix (dstrip s (Dec (?n div ?d) ?e))"
    have "ddiv a b = Inr ?q" using cb True by (simp add: ddiv_def Let_def flip: s_def)
    moreover have "dval (Dec (?n div ?d) ?e) = of_int ?n / of_int ?d * p10 ?e"
      using dv by (simp only: dval_Dec of_int_div)
    then have "rounded (dval a / dval b) (dval ?q)"
      using dfix_rounded [of "dstrip s (Dec (?n div ?d) ?e)"] by (simp only: dval_dstrip x)
    ultimately show ?thesis by blast
  next
    case False
    then have "ddiv a b = Inr (dround ?n ?d ?e)" using cb by (simp add: ddiv_def Let_def flip: s_def)
    with dround_rounded [OF d en, of ?e] x show ?thesis by auto
  qed
qed

section \<open>Rescaling: quantize and to-integral\<close>

definition rescale :: "rounding \<Rightarrow> decimal \<Rightarrow> int \<Rightarrow> int" where
  "rescale m a y =
     (if y \<le> expo a then coef a * 10 ^ nat (expo a - y)
      else round_div m (coef a) (10 ^ nat (y - expo a)))"

definition dquantize :: "rounding \<Rightarrow> decimal \<Rightarrow> decimal \<Rightarrow> decimal res" where
  "dquantize m a p =
     (let q = rescale m a (expo p)
      in if 28 < ndigits \<bar>q\<bar> then Inl InvalidOperation else Inr (Dec q (expo p)))"

definition dto_integral :: "rounding \<Rightarrow> decimal \<Rightarrow> decimal" where
  "dto_integral m a = (if 0 \<le> expo a then a else Dec (round_div m (coef a) (10 ^ nat (- expo a))) 0)"

lemma rat_div_bounds:
  assumes "0 < d"
  shows "of_int (n div d) \<le> (of_int n :: rat) / of_int d" "(of_int n :: rat) / of_int d < of_int (n div d) + 1"
proof -
  have "(0::rat) \<le> of_int (n mod d) / of_int d" "of_int (n mod d) / of_int d < (1::rat)"
    using assms by (simp_all add: pos_divide_less_eq)
  then show "of_int (n div d) \<le> (of_int n :: rat) / of_int d" "(of_int n :: rat) / of_int d < of_int (n div d) + 1"
    using div_mod_rat [OF assms, of n] by linarith+
qed

lemma round_floor_bounds:
  "0 < d \<Longrightarrow> of_int (round_div ROUND_FLOOR n d) \<le> (of_int n :: rat) / of_int d"
  "0 < d \<Longrightarrow> (of_int n :: rat) / of_int d < of_int (round_div ROUND_FLOOR n d) + 1"
  using rat_div_bounds [of d n] by simp_all

lemma round_ceiling_bounds:
  "0 < d \<Longrightarrow> (of_int n :: rat) / of_int d \<le> of_int (round_div ROUND_CEILING n d)"
  "0 < d \<Longrightarrow> of_int (round_div ROUND_CEILING n d) < (of_int n :: rat) / of_int d + 1"
  using rat_div_bounds [of d "- n"] by simp_all

lemma sgn_mult_rat: "(of_int n :: rat) / of_int d = of_int (sgn n) * (of_int \<bar>n\<bar> / of_int d)"
  by (cases n "0::int" rule: linorder_cases) simp_all

lemma round_down_bounds:
  assumes d: "0 < d"
  shows "\<bar>of_int (round_div ROUND_DOWN n d)\<bar> \<le> \<bar>(of_int n :: rat) / of_int d\<bar>"
    and "\<bar>(of_int n :: rat) / of_int d - of_int (round_div ROUND_DOWN n d)\<bar> < 1"
    and "0 \<le> n \<Longrightarrow> 0 \<le> round_div ROUND_DOWN n d" and "n \<le> 0 \<Longrightarrow> round_div ROUND_DOWN n d \<le> 0"
proof -
  note b = rat_div_bounds [OF d, of "\<bar>n\<bar>"]
  have q: "0 \<le> \<bar>n\<bar> div d" using d by (simp add: pos_imp_zdiv_nonneg_iff)
  then have q': "(0::rat) \<le> of_int (\<bar>n\<bar> div d)" by simp
  show "0 \<le> n \<Longrightarrow> 0 \<le> round_div ROUND_DOWN n d" "n \<le> 0 \<Longrightarrow> round_div ROUND_DOWN n d \<le> 0"
    using q by (cases n "0::int" rule: linorder_cases; simp)+
  show "\<bar>of_int (round_div ROUND_DOWN n d)\<bar> \<le> \<bar>(of_int n :: rat) / of_int d\<bar>"
    using b q' d by (cases n "0::int" rule: linorder_cases) (simp_all add: abs_mult)
  show "\<bar>(of_int n :: rat) / of_int d - of_int (round_div ROUND_DOWN n d)\<bar> < 1"
    using b q' d by (cases n "0::int" rule: linorder_cases) simp_all
qed

lemma round_half_up_bounds:
  assumes d: "0 < d"
  shows "\<bar>of_int (round_div ROUND_HALF_UP n d) - (of_int n :: rat) / of_int d\<bar> \<le> 1 / 2"
proof -
  let ?h = "(2 * \<bar>n\<bar> + d) div (2 * d)"
  have "(of_int (2 * \<bar>n\<bar> + d) :: rat) / of_int (2 * d) = of_int \<bar>n\<bar> / of_int d + 1 / 2"
    using d by (simp add: divide_simps)
  then have h: "of_int ?h \<le> (of_int \<bar>n\<bar> :: rat) / of_int d + 1 / 2" "(of_int \<bar>n\<bar> :: rat) / of_int d + 1 / 2 < of_int ?h + 1"
    using rat_div_bounds [of "2 * d" "2 * \<bar>n\<bar> + d"] d by simp_all
  then have le: "\<bar>of_int ?h - (of_int \<bar>n\<bar> :: rat) / of_int d\<bar> \<le> 1 / 2" by linarith
  have "of_int (round_div ROUND_HALF_UP n d) - (of_int n :: rat) / of_int d
      = of_int (sgn n) * (of_int ?h - of_int \<bar>n\<bar> / of_int d)"
    unfolding sgn_mult_rat [of n d] by (simp add: algebra_simps)
  then have "\<bar>of_int (round_div ROUND_HALF_UP n d) - (of_int n :: rat) / of_int d\<bar>
      = \<bar>of_int (sgn n)\<bar> * \<bar>of_int ?h - (of_int \<bar>n\<bar> :: rat) / of_int d\<bar>"
    by (simp only: abs_mult)
  also have "\<dots> \<le> 1 * \<bar>of_int ?h - (of_int \<bar>n\<bar> :: rat) / of_int d\<bar>"
    by (rule mult_right_mono) (cases n "0::int" rule: linorder_cases; simp)+
  also have "\<dots> \<le> 1 / 2" using le by (simp only: mult_1)
  finally show ?thesis .
qed

lemma round_half_even_bounds:
  assumes d: "0 < d"
  shows "\<bar>of_int (round_half_even n d) - (of_int n :: rat) / of_int d\<bar> \<le> 1 / 2"
proof -
  have "(of_int (2 * \<bar>round_half_even n d * d - n\<bar>) :: rat) \<le> of_int d"
    using half_even_error [OF d, of n] by (simp only: of_int_le_iff)
  then have "2 * \<bar>of_int (round_half_even n d) * of_int d - (of_int n :: rat)\<bar> \<le> of_int d" by simp
  moreover have "of_int (round_half_even n d) - (of_int n :: rat) / of_int d
      = (of_int (round_half_even n d) * of_int d - of_int n) / of_int d"
    using d by (simp add: diff_divide_distrib)
  ultimately show ?thesis using d by (simp add: abs_divide divide_simps)
qed

lemma round_div_exact: "0 < d \<Longrightarrow> d dvd n \<Longrightarrow> round_div m n d = n div d"
proof -
  assume d: "0 < d" and "d dvd n"
  then obtain k where k: "n = d * k" by (auto elim: dvdE)
  have "(2 * (d * \<bar>k\<bar>) + d) div (2 * d) = \<bar>k\<bar>"
  proof (rule int_div_pos_eq)
    show "2 * (d * \<bar>k\<bar>) + d = 2 * d * \<bar>k\<bar> + d" by simp
  qed (use d in simp_all)
  moreover have "- (d * k) div d = - k" using d by (metis mult_minus_right nonzero_mult_div_cancel_left less_irrefl)
  ultimately show ?thesis using d k by (cases m) (simp_all add: abs_mult sgn_mult mult_sgn_abs)
qed

text \<open>
  The value of a rescaled coefficient in units of the target exponent; every mode returns
  the exact multiple when there is one.
\<close>

lemma rescale_cases:
  obtains n d where "0 < d" "rescale m a y = round_div m n d" "dval a / p10 y = of_int n / of_int d"
    "0 \<le> n \<longleftrightarrow> 0 \<le> dval a" "n \<le> 0 \<longleftrightarrow> dval a \<le> 0"
proof -
  have sg: "0 \<le> dval a \<longleftrightarrow> 0 \<le> coef a" "dval a \<le> 0 \<longleftrightarrow> coef a \<le> 0"
    by (auto simp: dval_def zero_le_mult_iff mult_le_0_iff)
  show ?thesis
  proof (cases "y \<le> expo a")
    case True
    let ?n = "coef a * 10 ^ nat (expo a - y)"
    have "dval a = of_int ?n * p10 y" by (simp add: dval_def p10_split [OF True])
    then have "dval a / p10 y = of_int ?n / of_int 1" by simp
    moreover have "\<not> 10 ^ nat (expo a - y) \<le> (0::int)" by (simp add: not_le)
    then have "0 \<le> ?n \<longleftrightarrow> 0 \<le> dval a" "?n \<le> 0 \<longleftrightarrow> dval a \<le> 0"
      by (auto simp: sg zero_le_mult_iff mult_le_0_iff)
    moreover have "rescale m a y = round_div m ?n 1" using True by (simp add: rescale_def round_div_exact)
    ultimately show ?thesis by (intro that [of 1 ?n]) simp_all
  next
    case False
    let ?d = "10 ^ nat (y - expo a) :: int"
    have "p10 y = of_int ?d * p10 (expo a)" using p10_split [of "expo a" y] False by simp
    then have "dval a / p10 y = of_int (coef a) / of_int ?d" by (simp add: dval_def)
    then show ?thesis using that [of ?d "coef a"] False by (simp add: rescale_def sg)
  qed
qed

lemma dquantize_Inr: "dquantize m a p = Inr r \<longleftrightarrow> r = Dec (rescale m a (expo p)) (expo p) \<and> \<bar>rescale m a (expo p)\<bar> < 10 ^ 28"
proof -
  have "28 < ndigits \<bar>q\<bar> \<longleftrightarrow> \<not> \<bar>q\<bar> < 10 ^ 28" for q :: int
    using ndigits_le_iff [of 28 "\<bar>q\<bar>"] by linarith
  then show ?thesis by (auto simp: dquantize_def Let_def)
qed

lemma dquantize_ok: "\<bar>rescale m a (expo p)\<bar> < 10 ^ 28 \<Longrightarrow> dquantize m a p = Inr (Dec (rescale m a (expo p)) (expo p))"
  by (simp add: dquantize_Inr)

lemma rescale_exact:
  assumes "dval a = of_int k * p10 y"
  shows "rescale m a y = k"
proof -
  obtain n d where nd: "0 < d" "rescale m a y = round_div m n d" "dval a / p10 y = of_int n / of_int d"
    by (rule rescale_cases [of m a y])
  have "of_int k = (of_int n / of_int d :: rat)" using nd(3) assms by simp
  then have "(of_int (k * d) :: rat) = of_int n" using nd(1) by (simp add: divide_simps)
  then have "n = k * d" by (simp only: of_int_eq_iff)
  then show ?thesis using nd by (simp add: round_div_exact)
qed

lemma rescale_down:
  shows "\<bar>of_int (rescale ROUND_DOWN a y)\<bar> \<le> \<bar>dval a / p10 y\<bar>"
    and "\<bar>dval a / p10 y - of_int (rescale ROUND_DOWN a y)\<bar> < 1"
    and "0 \<le> dval a \<Longrightarrow> 0 \<le> rescale ROUND_DOWN a y"
    and "dval a \<le> 0 \<Longrightarrow> rescale ROUND_DOWN a y \<le> 0"
proof -
  obtain n d where "0 < d" "rescale ROUND_DOWN a y = round_div ROUND_DOWN n d" "dval a / p10 y = of_int n / of_int d"
    "0 \<le> n \<longleftrightarrow> 0 \<le> dval a" "n \<le> 0 \<longleftrightarrow> dval a \<le> 0"
    by (rule rescale_cases [of ROUND_DOWN a y])
  with round_down_bounds [of d n]
  show "\<bar>of_int (rescale ROUND_DOWN a y)\<bar> \<le> \<bar>dval a / p10 y\<bar>"
    "\<bar>dval a / p10 y - of_int (rescale ROUND_DOWN a y)\<bar> < 1"
    "0 \<le> dval a \<Longrightarrow> 0 \<le> rescale ROUND_DOWN a y"
    "dval a \<le> 0 \<Longrightarrow> rescale ROUND_DOWN a y \<le> 0" by simp_all
qed

lemma dto_integral_rescale: "dval (dto_integral m a) = of_int (rescale m a 0)"
  by (simp add: dto_integral_def rescale_def dval_def p10_split [of 0 "expo a"])

text \<open>Signs and exactness, for the simplifier.\<close>

lemma dadd_sign [decimal_simps]:
  "dval (dadd a b) = 0 \<longleftrightarrow> dval a + dval b = 0"
  "0 < dval (dadd a b) \<longleftrightarrow> 0 < dval a + dval b"
  "dval (dadd a b) < 0 \<longleftrightarrow> dval a + dval b < 0"
  by (rule rounded_zero_iff rounded_pos_iff rounded_neg_iff, rule dadd_rounded)+

lemma dsub_sign [decimal_simps]:
  "dval (dsub a b) = 0 \<longleftrightarrow> dval a - dval b = 0"
  "0 < dval (dsub a b) \<longleftrightarrow> 0 < dval a - dval b"
  "dval (dsub a b) < 0 \<longleftrightarrow> dval a - dval b < 0"
  by (rule rounded_zero_iff rounded_pos_iff rounded_neg_iff, rule dsub_rounded)+

lemma dneg_sign [decimal_simps]:
  "dval (dneg a) = 0 \<longleftrightarrow> dval a = 0" "0 < dval (dneg a) \<longleftrightarrow> dval a < 0" "dval (dneg a) < 0 \<longleftrightarrow> 0 < dval a"
  using rounded_zero_iff [OF dneg_rounded] rounded_pos_iff [OF dneg_rounded] rounded_neg_iff [OF dneg_rounded]
  by simp_all

lemma dabs_sign [decimal_simps]:
  "dval (dabs a) = 0 \<longleftrightarrow> dval a = 0" "0 < dval (dabs a) \<longleftrightarrow> dval a \<noteq> 0" "\<not> dval (dabs a) < 0"
  using rounded_zero_iff [OF dabs_rounded, of a] rounded_pos_iff [OF dabs_rounded, of a] rounded_neg_iff [OF dabs_rounded, of a]
  by simp_all

lemma dmul_sign [decimal_simps]:
  "dval (dmul a b) = 0 \<longleftrightarrow> dval a = 0 \<or> dval b = 0"
  "0 < dval (dmul a b) \<longleftrightarrow> 0 < dval a * dval b"
  "dval (dmul a b) < 0 \<longleftrightarrow> dval a * dval b < 0"
  using rounded_zero_iff [OF dmul_rounded, of a b] rounded_pos_iff [OF dmul_rounded, of a b]
    rounded_neg_iff [OF dmul_rounded, of a b] by simp_all

lemma dadd_exact: "repr28 (dval a + dval b) \<Longrightarrow> dval (dadd a b) = dval a + dval b"
  by (rule rounded_exact [OF dadd_rounded])

lemma dsub_exact: "repr28 (dval a - dval b) \<Longrightarrow> dval (dsub a b) = dval a - dval b"
  by (rule rounded_exact [OF dsub_rounded])

lemma dmul_exact: "repr28 (dval a * dval b) \<Longrightarrow> dval (dmul a b) = dval a * dval b"
  by (rule rounded_exact [OF dmul_rounded])

lemma dneg_exact_repr: "repr28 (dval a) \<Longrightarrow> dval (dneg a) = - dval a"
  using rounded_exact [OF dneg_rounded, of a] by simp

lemma dabs_exact_repr: "repr28 (dval a) \<Longrightarrow> dval (dabs a) = \<bar>dval a\<bar>"
  using rounded_exact [OF dabs_rounded, of a] by simp

lemma repr28_dadd [simp]: "repr28 (dval (dadd a b))"
  using dadd_rounded [of a b] by (simp add: rounded_def)

lemma repr28_dsub [simp]: "repr28 (dval (dsub a b))"
  using dsub_rounded [of a b] by (simp add: rounded_def)

lemma repr28_dmul [simp]: "repr28 (dval (dmul a b))"
  using dmul_rounded [of a b] by (simp add: rounded_def)

lemma ddiv_pos: "0 < dval b \<Longrightarrow> \<exists>q. ddiv a b = Inr q \<and> rounded (dval a / dval b) (dval q)"
  by (rule ddiv_rounded) simp

lemma ddiv_Inr_rounded: "ddiv a b = Inr q \<Longrightarrow> rounded (dval a / dval b) (dval q)"
  using ddiv_rounded [of b a] ddiv_zero [of b a] by (cases "dval b = 0") auto

end
