(* ===== verification/PyTime.thy ===== *)
theory PyTime
  imports Prelude
begin

text \<open>
  Python's \<open>datetime\<close> as the program uses it: a wall-clock reading in microseconds and an
  optional offset from UTC (None for a naive value).  Ordering and subtraction of aware values
  compare instants; mixing a naive and an aware value raises \<open>TypeError\<close>.  A
  \<open>timedelta\<close> is an integer number of microseconds.  The range limits of \<open>datetime\<close>
  (years 1 to 9999) are not modelled.
\<close>

datatype datetime = Datetime (wall_us: int) (utc_off: "int option")

definition dt_instant :: "datetime \<Rightarrow> int" where
  "dt_instant d = wall_us d - (case utc_off d of None \<Rightarrow> 0 | Some k \<Rightarrow> k)"

instantiation datetime :: preorder
begin

definition less_eq_datetime :: "datetime \<Rightarrow> datetime \<Rightarrow> bool" where
  "a \<le> b \<longleftrightarrow> dt_instant a \<le> dt_instant b"

definition less_datetime :: "datetime \<Rightarrow> datetime \<Rightarrow> bool" where
  "a < b \<longleftrightarrow> dt_instant a < dt_instant b"

instance
  by standard (auto simp: less_eq_datetime_def less_datetime_def)

end

definition same_awareness :: "datetime \<Rightarrow> datetime \<Rightarrow> bool" where
  "same_awareness a b \<longleftrightarrow> (utc_off a = None) = (utc_off b = None)"

text \<open>\<open>a - b\<close> in microseconds.\<close>

definition dt_sub :: "datetime \<Rightarrow> datetime \<Rightarrow> int res" where
  "dt_sub a b =
     (if same_awareness a b then Inr (dt_instant a - dt_instant b)
      else Inl (TypeError ''can't subtract offset-naive and offset-aware datetimes''))"

definition dt_less :: "datetime \<Rightarrow> datetime \<Rightarrow> bool res" where
  "dt_less a b =
     (if same_awareness a b then Inr (a < b)
      else Inl (TypeError ''can't compare offset-naive and offset-aware datetimes''))"

definition dt_add_us :: "datetime \<Rightarrow> int \<Rightarrow> datetime" where
  "dt_add_us d k = Datetime (wall_us d + k) (utc_off d)"

definition is_utc :: "datetime \<Rightarrow> bool" where
  "is_utc d \<longleftrightarrow> utc_off d = Some 0"

definition utc :: "int \<Rightarrow> datetime" where
  "utc us = Datetime us (Some 0)"

lemma utc_simps [simp]:
  "is_utc (utc t)" "dt_instant (utc t) = t" "wall_us (utc t) = t" "utc_off (utc t) = Some 0"
  by (simp_all add: is_utc_def utc_def dt_instant_def)

lemma is_utc_aware [simp]: "is_utc a \<Longrightarrow> is_utc b \<Longrightarrow> same_awareness a b"
  by (simp add: is_utc_def same_awareness_def)

lemma dt_sub_utc [simp]: "is_utc a \<Longrightarrow> is_utc b \<Longrightarrow> dt_sub a b = Inr (dt_instant a - dt_instant b)"
  by (simp add: dt_sub_def)

lemma dt_less_utc [simp]: "is_utc a \<Longrightarrow> is_utc b \<Longrightarrow> dt_less a b = Inr (a < b)"
  by (simp add: dt_less_def)

lemma dt_add_us_simps [simp]:
  "dt_instant (dt_add_us d k) = dt_instant d + k" "is_utc (dt_add_us d k) = is_utc d"
  "utc_off (dt_add_us d k) = utc_off d"
  by (simp_all add: dt_add_us_def dt_instant_def is_utc_def)

section \<open>isoformat\<close>

text \<open>The proleptic Gregorian date of a day counted from 1970-01-01, and Python's \<open>isoformat()\<close>.\<close>

definition civil_from_days :: "int \<Rightarrow> int \<times> int \<times> int" where
  "civil_from_days day =
     (let z = day + 719468; era = z div 146097; doe = z mod 146097;
          yoe = (doe - doe div 1460 + doe div 36524 - doe div 146096) div 365;
          doy = doe - (365 * yoe + yoe div 4 - yoe div 100);
          mp = (5 * doy + 2) div 153;
          m = (if mp < 10 then mp + 3 else mp - 9)
      in (yoe + era * 400 + (if m \<le> 2 then 1 else 0), m, doy - (153 * mp + 2) div 5 + 1))"

definition show_hms :: "int \<Rightarrow> string" where
  "show_hms us =
     (let s = us div 1000000; f = us mod 1000000
      in zero_pad 2 (s div 3600) @ '':'' @ zero_pad 2 (s mod 3600 div 60) @ '':'' @ zero_pad 2 (s mod 60)
         @ (if f = 0 then [] else ''.'' @ zero_pad 6 f))"

definition show_offset :: "int \<Rightarrow> string" where
  "show_offset off =
     (let us = \<bar>off\<bar>; s = us div 1000000; f = us mod 1000000
      in (if off < 0 then ''-'' else ''+'') @ zero_pad 2 (s div 3600) @ '':'' @ zero_pad 2 (s mod 3600 div 60)
         @ (if s mod 60 = 0 \<and> f = 0 then [] else '':'' @ zero_pad 2 (s mod 60))
         @ (if f = 0 then [] else ''.'' @ zero_pad 6 f))"

definition isoformat :: "datetime \<Rightarrow> string" where
  "isoformat d =
     (let day_us = 86400000000; (y, m, dd) = civil_from_days (wall_us d div day_us)
      in zero_pad 4 y @ ''-'' @ zero_pad 2 m @ ''-'' @ zero_pad 2 dd @ ''T''
         @ show_hms (wall_us d mod day_us)
         @ (case utc_off d of None \<Rightarrow> [] | Some off \<Rightarrow> show_offset off))"

end
