(* ===== verification/DomainTypes.thy ===== *)
theory DomainTypes
  imports Decimals PyTime
begin

text \<open>
  \<open>src/blive/domain/types.py\<close>: the enums, the frozen dataclasses and the checks their
  \<open>__post_init__\<close> makes.  Each class is a record; building one (\<open>mk_...\<close>) runs the
  checks in the code's order and returns the first error or the record.  A UUID is a natural
  number; a \<open>Mapping\<close> the code only iterates is an association list in insertion order.
\<close>

section \<open>Enums\<close>

type_synonym uuid = nat

datatype OrderSide = BUY | SELL

datatype OrderType = MKT | LMT | MOC | LOC | STP | STP_LMT | ADAPTIVE_MKT

datatype TimeInForce = DAY | GTC | IOC | FOK | OPG

datatype OrderState =
    INITIALIZED | SUBMIT_PENDING | SUBMITTED | ACCEPTED | PARTIALLY_FILLED
  | FILLED | CANCELED | REJECTED | EXPIRED

definition TERMINAL_ORDER_STATES :: "OrderState set" where
  "TERMINAL_ORDER_STATES = {FILLED, CANCELED, REJECTED, EXPIRED}"

datatype OrderEventKind =
    EV_SUBMITTED | EV_ACCEPTED | EV_PARTIAL_FILL | EV_FILLED | EV_CANCELED | EV_REJECTED | EV_EXPIRED

datatype AssetClass = EQUITY | ETF | INDEX | FX | FUTURE | OPTION

datatype Severity = LOW | MEDIUM | HIGH | CRITICAL

text \<open>The states form a finite type, so that quantifiers over them evaluate.\<close>

instantiation OrderState :: enum
begin

definition enum_OrderState :: "OrderState list" where
  "enum_OrderState =
     [INITIALIZED, SUBMIT_PENDING, SUBMITTED, ACCEPTED, PARTIALLY_FILLED, FILLED, CANCELED, REJECTED, EXPIRED]"

definition enum_all_OrderState :: "(OrderState \<Rightarrow> bool) \<Rightarrow> bool" where
  "enum_all_OrderState P = list_all P enum_class.enum"

definition enum_ex_OrderState :: "(OrderState \<Rightarrow> bool) \<Rightarrow> bool" where
  "enum_ex_OrderState P = list_ex P enum_class.enum"

instance
proof
  show UN: "(UNIV :: OrderState set) = set enum_class.enum"
    unfolding enum_OrderState_def using OrderState.exhaust by auto
  show "distinct (enum_class.enum :: OrderState list)" by (simp add: enum_OrderState_def)
  show "enum_class.enum_all P \<longleftrightarrow> Ball UNIV P" for P :: "OrderState \<Rightarrow> bool"
    by (simp add: enum_all_OrderState_def list_all_iff UN)
  show "enum_class.enum_ex P \<longleftrightarrow> Bex UNIV P" for P :: "OrderState \<Rightarrow> bool"
    by (simp add: enum_ex_OrderState_def list_ex_iff UN)
qed

end

section \<open>Validators\<close>

definition require_utc :: "datetime \<Rightarrow> string \<Rightarrow> bool \<times> exn" where
  "require_utc value field_name = (\<not> is_utc value, ValueError (field_name @ '' must be timezone-aware UTC''))"

definition iso_currency :: "string \<Rightarrow> bool" where
  "iso_currency v \<longleftrightarrow> length v = 3 \<and> py_isascii v \<and> py_isupper v \<and> py_isalpha v"

definition require_iso_currency :: "string \<Rightarrow> string \<Rightarrow> bool \<times> exn" where
  "require_iso_currency value field_name =
     (\<not> iso_currency value, ValueError (field_name @ '' must be a 3-letter uppercase ISO 4217 code''))"

lemmas [validator_defs] = require_utc_def require_iso_currency_def

section \<open>Instrument\<close>

record Instrument =
  i_symbol :: string
  i_venue :: string
  i_currency :: string
  i_asset_class :: AssetClass
  i_multiplier :: decimal
  i_tradability :: string

definition TRADABILITY_VALUES :: "string list" where
  "TRADABILITY_VALUES = [''spot'', ''cfd'', ''spread_bet'']"

definition Instrument_checks :: "Instrument \<Rightarrow> (bool \<times> exn) list" where
  "Instrument_checks i =
     [(i_symbol i = [] \<or> i_symbol i \<noteq> py_strip (i_symbol i) \<or> CHR '' '' \<in> set (i_symbol i),
         ValueError ''Instrument.symbol must be non-empty and whitespace-free''),
      (i_venue i = [] \<or> \<not> py_isupper (i_venue i), ValueError ''Instrument.venue must be uppercase non-empty''),
      require_iso_currency (i_currency i) ''Instrument.currency'',
      (i_multiplier i \<le> dzero, ValueError ''Instrument.multiplier must be positive''),
      (i_tradability i \<notin> set TRADABILITY_VALUES, ValueError ''Instrument.tradability'')]"

definition mk_Instrument :: "Instrument \<Rightarrow> Instrument res" where
  "mk_Instrument = validated Instrument_checks"

text \<open>Dataclass equality compares the fields, and the multiplier by value.\<close>

definition inst_eq :: "Instrument \<Rightarrow> Instrument \<Rightarrow> bool" where
  "inst_eq a b \<longleftrightarrow> i_symbol a = i_symbol b \<and> i_venue a = i_venue b \<and> i_currency a = i_currency b \<and>
     i_asset_class a = i_asset_class b \<and> dec_eq (i_multiplier a) (i_multiplier b) \<and>
     i_tradability a = i_tradability b"

section \<open>Bar and Trade\<close>

record Bar =
  b_instrument :: Instrument
  b_open_time :: datetime
  b_close_time :: datetime
  b_open :: decimal
  b_high :: decimal
  b_low :: decimal
  b_close :: decimal
  b_volume :: decimal
  b_vwap :: "decimal option"

definition Bar_checks :: "Bar \<Rightarrow> (bool \<times> exn) list" where
  "Bar_checks b =
     [require_utc (b_open_time b) ''Bar.open_time_utc'',
      require_utc (b_close_time b) ''Bar.close_time_utc'',
      (b_close_time b \<le> b_open_time b, ValueError ''Bar.close_time_utc must be > open_time_utc''),
      (b_open b \<le> dzero \<or> b_close b \<le> dzero, ValueError ''Bar prices must be strictly positive''),
      (\<not> (b_low b \<le> b_open b \<and> b_open b \<le> b_high b \<and> b_low b \<le> b_close b \<and> b_close b \<le> b_high b),
         ValueError ''Bar OHLC ordering invariant violated''),
      (b_volume b < dzero, ValueError ''Bar.volume must be non-negative''),
      (case b_vwap b of None \<Rightarrow> False | Some v \<Rightarrow> \<not> (b_low b \<le> v \<and> v \<le> b_high b),
         ValueError ''Bar.vwap, when set, must lie in [low, high]'')]"

definition mk_Bar :: "Bar \<Rightarrow> Bar res" where
  "mk_Bar = validated Bar_checks"

record Trade =
  t_instrument :: Instrument
  t_time :: datetime
  t_price :: decimal
  t_quantity :: decimal
  t_aggressor :: string

definition Trade_checks :: "Trade \<Rightarrow> (bool \<times> exn) list" where
  "Trade_checks t =
     [require_utc (t_time t) ''Trade.time_utc'',
      (t_price t \<le> dzero \<or> t_quantity t \<le> dzero, ValueError ''Trade.price and quantity must be strictly positive''),
      (t_aggressor t \<notin> {''BUY'', ''SELL'', ''UNKNOWN''}, ValueError ''Trade.aggressor must be BUY/SELL/UNKNOWN'')]"

definition mk_Trade :: "Trade \<Rightarrow> Trade res" where
  "mk_Trade = validated Trade_checks"

section \<open>Order\<close>

record Order =
  o_id :: uuid
  o_strategy :: string
  o_instrument :: Instrument
  o_side :: OrderSide
  o_quantity :: decimal
  o_type :: OrderType
  o_tif :: TimeInForce
  o_limit :: "decimal option"
  o_stop :: "decimal option"
  o_parent :: "uuid option"
  o_tags :: "(string \<times> string) list"
  o_created :: datetime

definition needs_limit :: "OrderType \<Rightarrow> bool" where
  "needs_limit t \<longleftrightarrow> t \<in> {LMT, STP_LMT}"

definition needs_stop :: "OrderType \<Rightarrow> bool" where
  "needs_stop t \<longleftrightarrow> t \<in> {STP, STP_LMT}"

definition none_or_nonpos :: "decimal option \<Rightarrow> bool" where
  "none_or_nonpos p \<longleftrightarrow> (case p of None \<Rightarrow> True | Some v \<Rightarrow> v \<le> dzero)"

definition Order_checks :: "Order \<Rightarrow> (bool \<times> exn) list" where
  "Order_checks r =
     [(o_strategy r = [], ValueError ''Order.strategy_id must be non-empty''),
      (o_quantity r \<le> dzero, ValueError ''Order.quantity must be strictly positive''),
      (needs_limit (o_type r) \<and> none_or_nonpos (o_limit r), ValueError ''Order.limit_price required and positive''),
      (\<not> needs_limit (o_type r) \<and> o_limit r \<noteq> None, ValueError ''Order.limit_price must be None''),
      (needs_stop (o_type r) \<and> none_or_nonpos (o_stop r), ValueError ''Order.stop_price required and positive''),
      (\<not> needs_stop (o_type r) \<and> o_stop r \<noteq> None, ValueError ''Order.stop_price must be None''),
      require_utc (o_created r) ''Order.created_at'',
      (list_ex (\<lambda>(k, _). k = []) (o_tags r), ValueError ''Order.tags keys must be non-empty'')]"

definition mk_Order :: "Order \<Rightarrow> Order res" where
  "mk_Order = validated Order_checks"

section \<open>Fill and Position\<close>

record Fill =
  f_order :: uuid
  f_venue_order :: string
  f_exec :: string
  f_instrument :: Instrument
  f_side :: OrderSide
  f_quantity :: decimal
  f_price :: decimal
  f_commission :: decimal
  f_currency :: string
  f_time :: datetime

definition Fill_checks :: "Fill \<Rightarrow> (bool \<times> exn) list" where
  "Fill_checks f =
     [(f_exec f = [], ValueError ''Fill.venue_exec_id must be non-empty (idempotency key)''),
      (f_quantity f \<le> dzero \<or> f_price f \<le> dzero, ValueError ''Fill.quantity and price must be strictly positive''),
      (f_commission f < dzero, ValueError ''Fill.commission must be non-negative''),
      require_iso_currency (f_currency f) ''Fill.currency'',
      require_utc (f_time f) ''Fill.time_utc'']"

definition mk_Fill :: "Fill \<Rightarrow> Fill res" where
  "mk_Fill = validated Fill_checks"

record Position =
  p_instrument :: Instrument
  p_strategy :: string
  p_quantity :: decimal
  p_avg_cost :: decimal
  p_currency :: string
  p_opened :: "datetime option"
  p_updated :: datetime

definition Position_checks :: "Position \<Rightarrow> (bool \<times> exn) list" where
  "Position_checks p =
     [(p_strategy p = [], ValueError ''Position.strategy_id must be non-empty''),
      require_iso_currency (p_currency p) ''Position.currency'',
      (p_currency p \<noteq> i_currency (p_instrument p), ValueError ''Position.currency must match instrument.currency'')]
     @ (if dec_eq (p_quantity p) dzero
        then [(p_opened p \<noteq> None, ValueError ''Position.opened_at must be None when quantity == 0'')]
        else (case p_opened p of
                None \<Rightarrow> [(True, ValueError ''Position.opened_at required when quantity != 0'')]
              | Some opened \<Rightarrow>
                  [require_utc opened ''Position.opened_at'',
                   (p_avg_cost p \<le> dzero, ValueError ''Position.avg_cost must be positive when quantity != 0'')]))
     @ [require_utc (p_updated p) ''Position.updated_at'']"

definition mk_Position :: "Position \<Rightarrow> Position res" where
  "mk_Position = validated Position_checks"

section \<open>AccountSnapshot and OrderUpdate\<close>

record AccountSnapshot =
  a_equity :: decimal
  a_cash :: "(string \<times> decimal) list"
  a_buying_power :: decimal
  a_gross :: decimal
  a_net :: decimal
  a_leverage :: decimal
  a_margin :: decimal
  a_base :: string
  a_taken :: datetime

definition AccountSnapshot_checks :: "AccountSnapshot \<Rightarrow> (bool \<times> exn) list" where
  "AccountSnapshot_checks a =
     [require_iso_currency (a_base a) ''AccountSnapshot.base_currency'']
     @ map (\<lambda>(ccy, _). require_iso_currency ccy ''AccountSnapshot.cash_by_ccy key'') (a_cash a)
     @ [(a_buying_power a < dzero, ValueError ''AccountSnapshot.buying_power must be non-negative''),
        (a_gross a < dzero, ValueError ''AccountSnapshot.gross_exposure must be non-negative''),
        (a_margin a < dzero, ValueError ''AccountSnapshot.margin_used must be non-negative''),
        (a_leverage a < dzero, ValueError ''AccountSnapshot.leverage must be non-negative''),
        require_utc (a_taken a) ''AccountSnapshot.taken_at'']"

definition mk_AccountSnapshot :: "AccountSnapshot \<Rightarrow> AccountSnapshot res" where
  "mk_AccountSnapshot = validated AccountSnapshot_checks"

record OrderUpdate =
  u_quantity :: "decimal option"
  u_limit :: "decimal option"
  u_stop :: "decimal option"

definition some_nonpos :: "decimal option \<Rightarrow> bool" where
  "some_nonpos p \<longleftrightarrow> (case p of None \<Rightarrow> False | Some v \<Rightarrow> v \<le> dzero)"

definition OrderUpdate_checks :: "OrderUpdate \<Rightarrow> (bool \<times> exn) list" where
  "OrderUpdate_checks u =
     [(u_quantity u = None \<and> u_limit u = None \<and> u_stop u = None, ValueError ''OrderUpdate must change at least one field''),
      (some_nonpos (u_quantity u), ValueError ''OrderUpdate.quantity, when set, must be strictly positive''),
      (some_nonpos (u_limit u), ValueError ''OrderUpdate.limit_price, when set, must be strictly positive''),
      (some_nonpos (u_stop u), ValueError ''OrderUpdate.stop_price, when set, must be strictly positive'')]"

definition mk_OrderUpdate :: "OrderUpdate \<Rightarrow> OrderUpdate res" where
  "mk_OrderUpdate = validated OrderUpdate_checks"

lemmas [validator_defs] =
  Instrument_checks_def Bar_checks_def Trade_checks_def Order_checks_def Fill_checks_def
  Position_checks_def AccountSnapshot_checks_def OrderUpdate_checks_def
  mk_Instrument_def mk_Bar_def mk_Trade_def mk_Order_def mk_Fill_def mk_Position_def
  mk_AccountSnapshot_def mk_OrderUpdate_def validated_eq_Inr

section \<open>Properties\<close>

text \<open>A positive price is given exactly when the order type asks for one.\<close>

definition price_discipline :: "bool \<Rightarrow> decimal option \<Rightarrow> bool" where
  "price_discipline needed p \<longleftrightarrow> (case p of None \<Rightarrow> \<not> needed | Some v \<Rightarrow> needed \<and> 0 < dval v)"

text \<open>Building an \<open>Order\<close> succeeds exactly on the orders the broker can route: a named strategy, a
  positive quantity, a positive limit price for LMT and STP_LMT and none for the other types, a positive stop
  price for STP and STP_LMT and none for the others, a UTC creation time and no empty tag key; the order built is
  the one asked for.\<close>

theorem order_construction:
  "mk_Order r = Inr q \<longleftrightarrow> q = r \<and> o_strategy r \<noteq> [] \<and> 0 < dval (o_quantity r) \<and>
     price_discipline (o_type r \<in> {LMT, STP_LMT}) (o_limit r) \<and> price_discipline (o_type r \<in> {STP, STP_LMT}) (o_stop r) \<and>
     is_utc (o_created r) \<and> [] \<notin> fst ` set (o_tags r)"
proof -
  have l: "price_discipline b p \<longleftrightarrow> \<not> (b \<and> none_or_nonpos p) \<and> \<not> (\<not> b \<and> p \<noteq> None)" for b p
    by (cases p) (auto simp: price_discipline_def none_or_nonpos_def decimal_simps)
  have t: "list_ex (\<lambda>(k, _). k = []) ts \<longleftrightarrow> [] \<in> fst ` set ts" for ts :: "(string \<times> string) list"
    by (induction ts) auto
  have "mk_Order r = Inr q \<longleftrightarrow> q = r \<and> (\<forall>(b, e) \<in> set (Order_checks r). \<not> b)"
    by (simp add: mk_Order_def validated_eq_Inr checks_ok_iff)
  also have "\<dots> \<longleftrightarrow> q = r \<and> o_strategy r \<noteq> [] \<and> \<not> o_quantity r \<le> dzero \<and>
      price_discipline (needs_limit (o_type r)) (o_limit r) \<and> price_discipline (needs_stop (o_type r)) (o_stop r) \<and>
      is_utc (o_created r) \<and> [] \<notin> fst ` set (o_tags r)"
    unfolding l t [symmetric] by (simp add: Order_checks_def require_utc_def)
  finally show ?thesis by (simp add: needs_limit_def needs_stop_def decimal_simps not_le)
qed

end
