(* ===== verification/DomainEvents.thy ===== *)
theory DomainEvents
  imports DomainTypes
begin

text \<open>
  \<open>src/blive/domain/events.py\<close>: the event dataclasses with their checks, and the union
  \<open>DomainEvent\<close>.  The free text of \<open>RiskBreach.detail\<close> is kept as the data it
  interpolates (\<open>breach_detail\<close>); every message the code formats starts with a fixed text,
  so the check that the detail is non-empty only concerns the plain-text constructor.
\<close>

record OrderEvent =
  e_order :: uuid
  e_venue_order :: "string option"
  e_kind :: OrderEventKind
  e_reason :: "string option"
  e_time :: datetime
  e_fill :: "Fill option"

definition falsy :: "string option \<Rightarrow> bool" where
  "falsy s \<longleftrightarrow> s = None \<or> s = Some []"

definition needs_fill :: "OrderEventKind \<Rightarrow> bool" where
  "needs_fill k \<longleftrightarrow> k \<in> {EV_PARTIAL_FILL, EV_FILLED}"

definition OrderEvent_checks :: "OrderEvent \<Rightarrow> (bool \<times> exn) list" where
  "OrderEvent_checks e =
     [require_utc (e_time e) ''OrderEvent.time_utc'',
      (e_kind e = EV_REJECTED \<and> falsy (e_reason e), ValueError ''OrderEvent.reason required for REJECTED''),
      (e_kind e = EV_CANCELED \<and> falsy (e_reason e), ValueError ''OrderEvent.reason required for CANCELED''),
      (needs_fill (e_kind e) \<and> e_fill e = None, ValueError ''OrderEvent.fill required''),
      (\<not> needs_fill (e_kind e) \<and> e_fill e \<noteq> None, ValueError ''OrderEvent.fill must be None'')]"

definition mk_OrderEvent :: "OrderEvent \<Rightarrow> OrderEvent res" where
  "mk_OrderEvent = validated OrderEvent_checks"

record ConnectionStatus =
  c_connected :: bool
  c_detail :: string
  c_time :: datetime

definition ConnectionStatus_checks :: "ConnectionStatus \<Rightarrow> (bool \<times> exn) list" where
  "ConnectionStatus_checks c =
     [(c_detail c = [], ValueError ''ConnectionStatus.detail must be non-empty''),
      require_utc (c_time c) ''ConnectionStatus.time_utc'']"

definition mk_ConnectionStatus :: "ConnectionStatus \<Rightarrow> ConnectionStatus res" where
  "mk_ConnectionStatus = validated ConnectionStatus_checks"

datatype RiskBreachSeverity = BLOCK | SCALE | WARN

datatype RiskCheckCode = RC_08 | RC_09 | RC_10 | RC_12 | RC_13

datatype breach_detail =
    PlainText string
  | KillSwitchArmed string
  | NoBar string
  | StaleBar string int int
  | MarketClosed string string
  | PriceSanity decimal string decimal decimal decimal
  | ArtefactMissing string string
  | ArtefactTooOld string int int
  | ArtefactAgeing string int int

record RiskBreach =
  r_strategy :: string
  r_check :: RiskCheckCode
  r_severity :: RiskBreachSeverity
  r_detail :: breach_detail
  r_time :: datetime

definition RiskBreach_checks :: "RiskBreach \<Rightarrow> (bool \<times> exn) list" where
  "RiskBreach_checks b =
     [(r_strategy b = [], ValueError ''RiskBreach.strategy_id must be non-empty''),
      (r_detail b = PlainText [], ValueError ''RiskBreach.detail must be non-empty''),
      require_utc (r_time b) ''RiskBreach.time_utc'']"

definition mk_RiskBreach :: "RiskBreach \<Rightarrow> RiskBreach res" where
  "mk_RiskBreach = validated RiskBreach_checks"

fun alert_severity :: "RiskBreach \<Rightarrow> Severity" where
  "alert_severity b =
     (if r_severity b = BLOCK then HIGH else if r_severity b = SCALE then MEDIUM else LOW)"

record AccountUpdate =
  au_snapshot :: AccountSnapshot
  au_time :: datetime

definition AccountUpdate_checks :: "AccountUpdate \<Rightarrow> (bool \<times> exn) list" where
  "AccountUpdate_checks u =
     [require_utc (au_time u) ''AccountUpdate.time_utc'',
      (au_time u < a_taken (au_snapshot u), ValueError ''AccountUpdate.time_utc must be >= snapshot.taken_at'')]"

definition mk_AccountUpdate :: "AccountUpdate \<Rightarrow> AccountUpdate res" where
  "mk_AccountUpdate = validated AccountUpdate_checks"

record ArtefactFreshnessWarning =
  w_strategy :: string
  w_model :: string
  w_path :: string
  w_age_days :: decimal
  w_warning_days :: int
  w_hard_days :: int
  w_time :: datetime

definition ArtefactFreshnessWarning_checks :: "ArtefactFreshnessWarning \<Rightarrow> (bool \<times> exn) list" where
  "ArtefactFreshnessWarning_checks w =
     [(w_strategy w = [], ValueError ''ArtefactFreshnessWarning.strategy_id must be non-empty''),
      (w_model w = [], ValueError ''ArtefactFreshnessWarning.model_name must be non-empty''),
      (w_path w = [], ValueError ''ArtefactFreshnessWarning.path must be non-empty''),
      (w_age_days w \<le> dzero, ValueError ''ArtefactFreshnessWarning.age_days must be > 0''),
      (w_warning_days w < 1, ValueError ''ArtefactFreshnessWarning.warning_threshold_days must be >= 1''),
      (w_hard_days w \<le> w_warning_days w, ValueError ''ArtefactFreshnessWarning.hard_threshold_days must be > warning_threshold_days''),
      require_utc (w_time w) ''ArtefactFreshnessWarning.time_utc'']"

definition mk_ArtefactFreshnessWarning :: "ArtefactFreshnessWarning \<Rightarrow> ArtefactFreshnessWarning res" where
  "mk_ArtefactFreshnessWarning = validated ArtefactFreshnessWarning_checks"

datatype DomainEvent =
    DE_Order OrderEvent
  | DE_Connection ConnectionStatus
  | DE_Breach RiskBreach
  | DE_Account AccountUpdate
  | DE_Freshness ArtefactFreshnessWarning

datatype BrokerEvent =
    BE_Order OrderEvent
  | BE_Connection ConnectionStatus
  | BE_Account AccountUpdate

lemmas [validator_defs] =
  OrderEvent_checks_def ConnectionStatus_checks_def RiskBreach_checks_def AccountUpdate_checks_def
  ArtefactFreshnessWarning_checks_def mk_OrderEvent_def mk_ConnectionStatus_def mk_RiskBreach_def
  mk_AccountUpdate_def mk_ArtefactFreshnessWarning_def

end
