(* ===== verification/Positions.thy ===== *)
theory Positions
  imports DomainEvents
begin

text \<open>
  \<open>src/blive/domain/positions.py\<close>: \<open>apply_fill\<close>, the position arithmetic.  The lemmas
  show that it succeeds on every valid position and fill of one instrument and strategy, what each
  of its five cases returns, that quantities add up exactly while they fit the 28 digits of the
  context, and that an averaged cost stays between the two prices it averages.
\<close>

section \<open>The code\<close>

definition signed_qty :: "Fill \<Rightarrow> decimal" where
  "signed_qty fill = (if f_side fill = BUY then f_quantity fill else dneg (f_quantity fill))"

definition same_side :: "decimal \<Rightarrow> decimal \<Rightarrow> bool" where
  "same_side a b \<longleftrightarrow> (dzero < a \<and> dzero < b) \<or> (a < dzero \<and> b < dzero)"

definition apply_fill :: "Position option \<Rightarrow> Fill \<Rightarrow> string \<Rightarrow> datetime \<Rightarrow> Position res" where
  "apply_fill position fill strategy_id now =
     (let sq = signed_qty fill;
          opening = mk_Position \<lparr>p_instrument = f_instrument fill, p_strategy = strategy_id,
            p_quantity = sq, p_avg_cost = f_price fill, p_currency = i_currency (f_instrument fill),
            p_opened = Some (f_time fill), p_updated = now\<rparr>
      in case position of
           None \<Rightarrow> opening
         | Some pos \<Rightarrow>
             if dec_eq (p_quantity pos) dzero then opening
             else if p_strategy pos \<noteq> strategy_id then Inl (ValueError ''strategy_id mismatch'')
             else if \<not> inst_eq (p_instrument pos) (f_instrument fill) then Inl (ValueError ''instrument mismatch'')
             else
               let new_qty = dadd (p_quantity pos) sq
               in if same_side (p_quantity pos) sq then
                    (let notional_existing = dmul (p_quantity pos) (p_avg_cost pos);
                         notional_added = dmul sq (f_price fill)
                     in bindR (ddiv (dadd notional_existing notional_added) new_qty) (\<lambda>new_avg.
                        mk_Position \<lparr>p_instrument = p_instrument pos, p_strategy = p_strategy pos,
                          p_quantity = new_qty, p_avg_cost = dabs new_avg, p_currency = p_currency pos,
                          p_opened = p_opened pos, p_updated = now\<rparr>))
                  else if dec_eq new_qty dzero then
                    mk_Position \<lparr>p_instrument = p_instrument pos, p_strategy = p_strategy pos,
                      p_quantity = dzero, p_avg_cost = dzero, p_currency = p_currency pos,
                      p_opened = None, p_updated = now\<rparr>
                  else if (dzero < p_quantity pos) \<noteq> (dzero < new_qty) then
                    mk_Position \<lparr>p_instrument = p_instrument pos, p_strategy = p_strategy pos,
                      p_quantity = new_qty, p_avg_cost = f_price fill, p_currency = p_currency pos,
                      p_opened = Some (f_time fill), p_updated = now\<rparr>
                  else
                    mk_Position \<lparr>p_instrument = p_instrument pos, p_strategy = p_strategy pos,
                      p_quantity = new_qty, p_avg_cost = p_avg_cost pos, p_currency = p_currency pos,
                      p_opened = p_opened pos, p_updated = now\<rparr>)"

text \<open>Folding the fills of one instrument into a position, as the pipelines do.\<close>

fun apply_fills :: "Position option \<Rightarrow> (Fill \<times> datetime) list \<Rightarrow> string \<Rightarrow> Position option res" where
  "apply_fills pos [] sid = Inr pos"
| "apply_fills pos ((f, now) # fs) sid =
     (case apply_fill pos f sid now of Inl e \<Rightarrow> Inl e | Inr p \<Rightarrow> apply_fills (Some p) fs sid)"

section \<open>Validity\<close>

definition Position_ok :: "Position \<Rightarrow> bool" where
  "Position_ok p \<longleftrightarrow> checks (Position_checks p) = Inr ()"

definition Fill_ok :: "Fill \<Rightarrow> bool" where
  "Fill_ok f \<longleftrightarrow> checks (Fill_checks f) = Inr ()"

definition Instrument_ok :: "Instrument \<Rightarrow> bool" where
  "Instrument_ok i \<longleftrightarrow> checks (Instrument_checks i) = Inr ()"

definition pos_qty :: "Position option \<Rightarrow> rat" where
  "pos_qty p = (case p of None \<Rightarrow> 0 | Some q \<Rightarrow> dval (p_quantity q))"

definition fill_qty :: "Fill \<Rightarrow> rat" where
  "fill_qty f = (if f_side f = BUY then dval (f_quantity f) else - dval (f_quantity f))"

text \<open>The fill may be applied to the position: same strategy and instrument, unless flat.\<close>

definition matches :: "Position option \<Rightarrow> Fill \<Rightarrow> string \<Rightarrow> bool" where
  "matches p f sid \<longleftrightarrow> (case p of None \<Rightarrow> True | Some q \<Rightarrow>
     dval (p_quantity q) = 0 \<or> p_strategy q = sid \<and> inst_eq (p_instrument q) (f_instrument f))"

lemma mk_Position_Inr: "mk_Position p = Inr q \<longleftrightarrow> q = p \<and> Position_ok p"
  by (simp add: mk_Position_def validated_eq_Inr Position_ok_def)

lemma Position_ok_iff:
  "Position_ok p \<longleftrightarrow> p_strategy p \<noteq> [] \<and> iso_currency (p_currency p) \<and> p_currency p = i_currency (p_instrument p) \<and>
     is_utc (p_updated p) \<and>
     (if dval (p_quantity p) = 0 then p_opened p = None
      else (\<exists>t. p_opened p = Some t \<and> is_utc t) \<and> 0 < dval (p_avg_cost p))"
  by (cases "p_opened p")
    (auto simp: Position_ok_def Position_checks_def require_utc_def require_iso_currency_def decimal_simps
      split: if_splits)

lemma Fill_ok_iff:
  "Fill_ok f \<longleftrightarrow> f_exec f \<noteq> [] \<and> 0 < dval (f_quantity f) \<and> 0 < dval (f_price f) \<and> 0 \<le> dval (f_commission f) \<and>
     iso_currency (f_currency f) \<and> is_utc (f_time f)"
  by (auto simp: Fill_ok_def Fill_checks_def require_utc_def require_iso_currency_def decimal_simps split: if_splits)

lemma Instrument_ok_currency: "Instrument_ok i \<Longrightarrow> iso_currency (i_currency i)"
  by (auto simp: Instrument_ok_def Instrument_checks_def require_iso_currency_def split: if_splits)

lemma signed_qty_sign:
  "Fill_ok f \<Longrightarrow> 0 < dval (signed_qty f) \<longleftrightarrow> f_side f = BUY"
  "Fill_ok f \<Longrightarrow> dval (signed_qty f) < 0 \<longleftrightarrow> f_side f = SELL"
  "Fill_ok f \<Longrightarrow> dval (signed_qty f) \<noteq> 0"
  using OrderSide.exhaust [of "f_side f"]
  by (auto simp: signed_qty_def Fill_ok_iff decimal_simps)

lemma signed_qty_exact: "repr28 (dval (f_quantity f)) \<Longrightarrow> dval (signed_qty f) = fill_qty f"
  by (simp add: signed_qty_def fill_qty_def dneg_exact_repr)

section \<open>The five cases\<close>

lemma apply_fill_open:
  assumes "Fill_ok f" "Instrument_ok (f_instrument f)" "sid \<noteq> []" "is_utc now" "pos_qty p = 0"
  shows "apply_fill p f sid now = Inr \<lparr>p_instrument = f_instrument f, p_strategy = sid,
    p_quantity = signed_qty f, p_avg_cost = f_price f, p_currency = i_currency (f_instrument f),
    p_opened = Some (f_time f), p_updated = now\<rparr>"
  using assms signed_qty_sign(3) [OF assms(1)] Instrument_ok_currency [OF assms(2)]
  by (auto simp: apply_fill_def Let_def pos_qty_def decimal_simps mk_Position_Inr Position_ok_iff Fill_ok_iff
      split: option.splits)

lemma apply_fill_add:
  assumes p: "Position_ok p" and f: "Fill_ok f" and m: "p_strategy p = sid" "inst_eq (p_instrument p) (f_instrument f)"
    and now: "is_utc now" and same: "0 < dval (p_quantity p) \<and> f_side f = BUY \<or> dval (p_quantity p) < 0 \<and> f_side f = SELL"
  shows "\<exists>avg. ddiv (dadd (dmul (p_quantity p) (p_avg_cost p)) (dmul (signed_qty f) (f_price f)))
        (dadd (p_quantity p) (signed_qty f)) = Inr avg \<and> 0 < dval avg \<and>
      apply_fill (Some p) f sid now = Inr (p\<lparr>p_quantity := dadd (p_quantity p) (signed_qty f),
        p_avg_cost := dabs avg, p_updated := now\<rparr>)"
proof -
  let ?q = "dadd (p_quantity p) (signed_qty f)"
  let ?n = "dadd (dmul (p_quantity p) (p_avg_cost p)) (dmul (signed_qty f) (f_price f))"
  note sgn = signed_qty_sign [OF f]
  have fp: "0 < dval (f_price f)" using f by (simp add: Fill_ok_iff)
  have nz: "dval (p_quantity p) \<noteq> 0" using same by auto
  then have ap: "0 < dval (p_avg_cost p)" using p by (simp add: Position_ok_iff)
  have "(0 < dval ?q \<and> 0 < dval ?n) \<or> (dval ?q < 0 \<and> dval ?n < 0)"
    using same sgn fp ap
    by (auto simp: decimal_simps zero_less_mult_iff mult_less_0_iff intro!: add_pos_pos add_neg_neg)
  then have pos: "0 < dval ?n / dval ?q" and q0: "dval ?q \<noteq> 0" by (auto simp: zero_less_divide_iff)
  obtain avg where avg: "ddiv ?n ?q = Inr avg" "rounded (dval ?n / dval ?q) (dval avg)"
    using ddiv_rounded [OF q0, of ?n] by blast
  have apos: "0 < dval avg" using rounded_pos_iff [OF avg(2)] pos by simp
  have ss: "same_side (p_quantity p) (signed_qty f)"
    using same sgn by (auto simp: same_side_def decimal_simps)
  have "Position_ok (p\<lparr>p_quantity := ?q, p_avg_cost := dabs avg, p_updated := now\<rparr>)"
    using p q0 nz apos now by (auto simp: Position_ok_iff decimal_simps)
  then have "apply_fill (Some p) f sid now = Inr (p\<lparr>p_quantity := ?q, p_avg_cost := dabs avg, p_updated := now\<rparr>)"
    using m nz ss avg(1) by (cases p) (simp add: apply_fill_def Let_def decimal_simps mk_Position_Inr)
  with avg(1) apos show ?thesis by blast
qed

lemma apply_fill_opposite:
  assumes p: "Position_ok p" and f: "Fill_ok f" and m: "p_strategy p = sid" "inst_eq (p_instrument p) (f_instrument f)"
    and now: "is_utc now" and opp: "0 < dval (p_quantity p) \<and> f_side f = SELL \<or> dval (p_quantity p) < 0 \<and> f_side f = BUY"
  shows "apply_fill (Some p) f sid now =
     (let q = dadd (p_quantity p) (signed_qty f)
      in Inr (if dval q = 0 then p\<lparr>p_quantity := dzero, p_avg_cost := dzero, p_opened := None, p_updated := now\<rparr>
              else if (0 < dval (p_quantity p)) \<noteq> (0 < dval q)
              then p\<lparr>p_quantity := q, p_avg_cost := f_price f, p_opened := Some (f_time f), p_updated := now\<rparr>
              else p\<lparr>p_quantity := q, p_updated := now\<rparr>))"
proof -
  note sgn = signed_qty_sign [OF f]
  have nz: "dval (p_quantity p) \<noteq> 0" using opp by auto
  have ns: "\<not> same_side (p_quantity p) (signed_qty f)"
    using opp sgn by (auto simp: same_side_def decimal_simps)
  have ft: "is_utc (f_time f)" "0 < dval (f_price f)" using f by (simp_all add: Fill_ok_iff)
  show ?thesis
    using p m nz ns now ft
    by (auto simp: apply_fill_def Let_def decimal_simps mk_Position_Inr Position_ok_iff)
qed

lemma apply_fill_ok:
  assumes p: "\<forall>q. p = Some q \<longrightarrow> Position_ok q" and f: "Fill_ok f" "Instrument_ok (f_instrument f)"
    and m: "matches p f sid" and s: "sid \<noteq> []" and now: "is_utc now"
  shows "\<exists>q. apply_fill p f sid now = Inr q \<and> Position_ok q"
proof -
  have "is_ok (apply_fill p f sid now)"
  proof (cases "pos_qty p = 0")
    case True
    then show ?thesis using apply_fill_open [OF f s now] by simp
  next
    case False
    then obtain q where q: "p = Some q" "dval (p_quantity q) \<noteq> 0" by (auto simp: pos_qty_def split: option.splits)
    with p m have qm: "Position_ok q" "p_strategy q = sid" "inst_eq (p_instrument q) (f_instrument f)"
      by (auto simp: matches_def)
    show ?thesis
    proof (cases "0 < dval (p_quantity q) \<and> f_side f = BUY \<or> dval (p_quantity q) < 0 \<and> f_side f = SELL")
      case True
      with apply_fill_add [OF qm(1) f(1) qm(2,3) now] q show ?thesis by auto
    next
      case False
      then have "0 < dval (p_quantity q) \<and> f_side f = SELL \<or> dval (p_quantity q) < 0 \<and> f_side f = BUY"
        using q OrderSide.exhaust [of "f_side f"] by force
      then show ?thesis using apply_fill_opposite [OF qm(1) f(1) qm(2,3) now] q by (simp add: Let_def)
    qed
  qed
  moreover have "apply_fill p f sid now = Inr q \<Longrightarrow> Position_ok q" for q
    by (auto simp: apply_fill_def Let_def mk_Position_Inr split: option.splits if_splits)
  ultimately show ?thesis by (auto simp: is_ok_iff)
qed

lemma apply_fill_quantity:
  assumes p: "\<forall>q. p = Some q \<longrightarrow> Position_ok q" and f: "Fill_ok f" "Instrument_ok (f_instrument f)"
    and m: "matches p f sid" and s: "sid \<noteq> []" and now: "is_utc now"
    and r: "repr28 (dval (f_quantity f))" "repr28 (pos_qty p + fill_qty f)"
    and res: "apply_fill p f sid now = Inr q'"
  shows "dval (p_quantity q') = pos_qty p + fill_qty f"
proof (cases "pos_qty p = 0")
  case True
  then show ?thesis using apply_fill_open [OF f s now True] res signed_qty_exact [OF r(1)] by auto
next
  case False
  then obtain q where q: "p = Some q" "dval (p_quantity q) \<noteq> 0" by (auto simp: pos_qty_def split: option.splits)
  with p m have qm: "Position_ok q" "p_strategy q = sid" "inst_eq (p_instrument q) (f_instrument f)"
    by (auto simp: matches_def)
  have pq: "pos_qty p = dval (p_quantity q)" by (simp add: q pos_qty_def)
  have "dval (dadd (p_quantity q) (signed_qty f)) = pos_qty p + fill_qty f"
    using r(2) dadd_exact [of "p_quantity q" "signed_qty f"] by (simp add: pq signed_qty_exact [OF r(1)])
  then show ?thesis
    using res apply_fill_add [OF qm(1) f(1) qm(2,3) now] apply_fill_opposite [OF qm(1) f(1) qm(2,3) now]
      q OrderSide.exhaust [of "f_side f"] by (force simp: Let_def split: if_splits)
qed

section \<open>Sequences of fills\<close>

text \<open>
  Every fill of the sequence is valid and of instrument \<open>i\<close>; the running total stays within
  the precision of the context.
\<close>

definition fill_for :: "Instrument \<Rightarrow> Fill \<times> datetime \<Rightarrow> bool" where
  "fill_for i x \<longleftrightarrow> Fill_ok (fst x) \<and> f_instrument (fst x) = i \<and> is_utc (snd x) \<and> repr28 (dval (f_quantity (fst x)))"

fun totals_repr :: "rat \<Rightarrow> Fill list \<Rightarrow> bool" where
  "totals_repr t [] = True"
| "totals_repr t (f # fs) = (repr28 (t + fill_qty f) \<and> totals_repr (t + fill_qty f) fs)"

definition held :: "Instrument \<Rightarrow> string \<Rightarrow> Position option \<Rightarrow> bool" where
  "held i sid p \<longleftrightarrow> (\<forall>q. p = Some q \<longrightarrow> Position_ok q \<and> p_strategy q = sid \<and> p_instrument q = i)"

lemma inst_eq_refl [simp]: "inst_eq i i"
  by (simp add: inst_eq_def dec_eq_iff)

lemma apply_fill_held:
  assumes "held i sid p" "fill_for i (f, now)" "Instrument_ok i" "sid \<noteq> []"
  obtains q where "apply_fill p f sid now = Inr q" "held i sid (Some q)"
proof -
  have f: "Fill_ok f" "f_instrument f = i" "is_utc now" using assms(2) by (simp_all add: fill_for_def)
  have ok: "\<forall>q. p = Some q \<longrightarrow> Position_ok q" and m: "matches p f sid"
    using assms(1) f(2) by (auto simp: held_def matches_def split: option.splits)
  obtain q where q: "apply_fill p f sid now = Inr q" "Position_ok q"
    using apply_fill_ok [OF ok f(1) _ m assms(4) f(3)] assms(3) f(2) by auto
  moreover have "p_strategy q = sid \<and> p_instrument q = i"
    using q(1) assms(1) f(2)
    by (auto simp: apply_fill_def Let_def mk_Position_Inr held_def split: option.splits if_splits)
  ultimately show ?thesis by (intro that) (auto simp: held_def)
qed

lemma apply_fills_total:
  assumes "held i sid p" "list_all (fill_for i) fs" "Instrument_ok i" "sid \<noteq> []"
    and "totals_repr (pos_qty p) (map fst fs)"
  shows "\<exists>q. apply_fills p fs sid = Inr q \<and> held i sid q \<and> pos_qty q = pos_qty p + (\<Sum>x\<leftarrow>fs. fill_qty (fst x))"
  using assms
proof (induction p fs sid rule: apply_fills.induct)
  case (2 p f now fs sid)
  then obtain q where q: "apply_fill p f sid now = Inr q" "held i sid (Some q)"
    by (auto elim: apply_fill_held)
  have f: "Fill_ok f" "f_instrument f = i" "is_utc now" "repr28 (dval (f_quantity f))"
    using "2.prems"(2) by (simp_all add: fill_for_def)
  have ok: "\<forall>q. p = Some q \<longrightarrow> Position_ok q" and m: "matches p f sid"
    using "2.prems"(1) f(2) by (auto simp: held_def matches_def split: option.splits)
  have "dval (p_quantity q) = pos_qty p + fill_qty f"
    using "2.prems"(3-5) f by (intro apply_fill_quantity [OF ok f(1) _ m _ f(3,4) _ q(1)]) simp_all
  then have pq: "pos_qty (Some q) = pos_qty p + fill_qty f" by (simp add: pos_qty_def)
  with "2.IH" [OF q(1)] q(2) "2.prems" show ?case by (auto simp: q(1) add.assoc)
qed simp

section \<open>Properties\<close>

text \<open>A concrete instrument, fills and positions for the witnesses.\<close>

definition ex_instrument :: Instrument where
  "ex_instrument = \<lparr>i_symbol = ''SPY'', i_venue = ''ARCA'', i_currency = ''USD'', i_asset_class = ETF,
     i_multiplier = dint 1, i_tradability = ''spot''\<rparr>"

definition ex_fill :: "OrderSide \<Rightarrow> decimal \<Rightarrow> decimal \<Rightarrow> Fill" where
  "ex_fill side qty price = \<lparr>f_order = 1, f_venue_order = ''V1'', f_exec = ''E1'', f_instrument = ex_instrument,
     f_side = side, f_quantity = qty, f_price = price, f_commission = dint 1, f_currency = ''USD'', f_time = utc 5\<rparr>"

definition ex_position :: "decimal \<Rightarrow> decimal \<Rightarrow> Position" where
  "ex_position qty cost = \<lparr>p_instrument = ex_instrument, p_strategy = ''s'', p_quantity = qty, p_avg_cost = cost,
     p_currency = ''USD'', p_opened = Some (utc 1), p_updated = utc 2\<rparr>"

lemma ex_ok [simp]:
  "Instrument_ok ex_instrument"
  "Fill_ok (ex_fill side qty price) \<longleftrightarrow> 0 < dval qty \<and> 0 < dval price"
  "Position_ok (ex_position qty cost) \<longleftrightarrow> dval qty \<noteq> 0 \<and> 0 < dval cost"
  "f_instrument (ex_fill side qty price) = ex_instrument" "f_side (ex_fill side qty price) = side"
  "f_quantity (ex_fill side qty price) = qty" "f_price (ex_fill side qty price) = price"
  "f_time (ex_fill side qty price) = utc 5"
  "p_quantity (ex_position qty cost) = qty" "p_avg_cost (ex_position qty cost) = cost"
  "p_strategy (ex_position qty cost) = ''s''" "p_instrument (ex_position qty cost) = ex_instrument"
proof -
  show "Instrument_ok ex_instrument"
    by (simp add: Instrument_ok_def Instrument_checks_def ex_instrument_def decimal_simps TRADABILITY_VALUES_def
        require_iso_currency_def iso_currency_def py_string_defs)
  have c: "iso_currency ''USD''" by (simp add: iso_currency_def py_string_defs)
  then show "Fill_ok (ex_fill side qty price) \<longleftrightarrow> 0 < dval qty \<and> 0 < dval price"
    and "Position_ok (ex_position qty cost) \<longleftrightarrow> dval qty \<noteq> 0 \<and> 0 < dval cost"
    by (simp_all add: Fill_ok_iff Position_ok_iff ex_fill_def ex_position_def ex_instrument_def)
qed (simp_all add: ex_fill_def ex_position_def)

text \<open>C39: \<open>apply_fill\<close> never raises on a valid position (or none) and a valid fill of the same
  strategy and instrument, and the position it returns satisfies every check of \<open>Position\<close>:
  in particular it is flat exactly when \<open>opened_at\<close> is None, and otherwise its cost is positive.\<close>

theorem apply_fill_valid:
  assumes "\<forall>q. p = Some q \<longrightarrow> Position_ok q" "Fill_ok f" "Instrument_ok (f_instrument f)" "matches p f sid"
    "sid \<noteq> []" "is_utc now"
  shows "\<exists>q. apply_fill p f sid now = Inr q \<and> Position_ok q \<and> (dval (p_quantity q) = 0 \<longleftrightarrow> p_opened q = None) \<and>
    (dval (p_quantity q) = 0 \<or> 0 < dval (p_avg_cost q))"
  using apply_fill_ok [OF assms] by (fastforce simp: Position_ok_iff)

theorem apply_fill_valid_witness:
  "\<exists>q. apply_fill (Some (ex_position (dint 10) (dint 100))) (ex_fill SELL (dint 15) (dint 90)) ''s'' (utc 6) = Inr q \<and> Position_ok q"
  using apply_fill_valid [of "Some (ex_position (dint 10) (dint 100))" "ex_fill SELL (dint 15) (dint 90)" "''s''" "utc 6"]
  by (auto simp: matches_def inst_eq_def decimal_simps)

text \<open>C16: the quantities of a sequence of fills add up: starting from a position (or none) of one
  instrument and strategy, folding valid fills never raises, and the final quantity is the initial one
  plus the signed quantities of the fills, as long as every running total fits 28 digits.\<close>

theorem fills_add_up:
  assumes "held i sid p" "list_all (fill_for i) fs" "Instrument_ok i" "sid \<noteq> []" "totals_repr (pos_qty p) (map fst fs)"
  shows "\<exists>q. apply_fills p fs sid = Inr q \<and> held i sid q \<and> pos_qty q = pos_qty p + (\<Sum>x\<leftarrow>fs. fill_qty (fst x))"
  by (rule apply_fills_total [OF assms])

theorem fills_add_up_witness:
  "\<exists>q. apply_fills None [(ex_fill BUY (dint 10) (dint 100), utc 6), (ex_fill SELL (dint 4) (dint 90), utc 7),
      (ex_fill SELL (dint 9) (dint 80), utc 8)] ''s'' = Inr q \<and> pos_qty q = - 3"
proof -
  have r: "repr28 (of_int n)" if "\<bar>n\<bar> < 10 ^ 28" for n by (rule repr28_of_int [OF that])
  show ?thesis
    using fills_add_up [of ex_instrument "''s''" None "[(ex_fill BUY (dint 10) (dint 100), utc 6),
        (ex_fill SELL (dint 4) (dint 90), utc 7), (ex_fill SELL (dint 9) (dint 80), utc 8)]"]
      r [of 10] r [of 4] r [of 9] r [of 6] r [of "-3"]
    by (auto simp: held_def fill_for_def fill_qty_def pos_qty_def)
qed

lemma weighted_between:
  fixes a b x y :: rat
  assumes "0 \<le> a" "0 \<le> b" "a + b = 1"
  shows "min x y \<le> a * x + b * y \<and> a * x + b * y \<le> max x y"
proof
  have "min x y = (a + b) * min x y" using assms(3) by simp
  also have "\<dots> = a * min x y + b * min x y" by (rule distrib_right)
  also have "\<dots> \<le> a * x + b * y" using assms by (intro add_mono mult_left_mono) auto
  finally show "min x y \<le> a * x + b * y" .
  have "a * x + b * y \<le> a * max x y + b * max x y" using assms by (intro add_mono mult_left_mono) auto
  also have "\<dots> = (a + b) * max x y" by (rule distrib_right [symmetric])
  finally show "a * x + b * y \<le> max x y" using assms(3) by simp
qed

text \<open>Adding to a position on its own side keeps its opening time and sets the cost to a value
  between the old cost and the price of the fill, when the two notionals and their sum are exact in 28
  digits.\<close>

theorem added_cost_between:
  assumes p: "Position_ok p" and f: "Fill_ok f" and m: "p_strategy p = sid" "inst_eq (p_instrument p) (f_instrument f)"
    and now: "is_utc now"
    and same: "0 < dval (p_quantity p) \<and> f_side f = BUY \<or> dval (p_quantity p) < 0 \<and> f_side f = SELL"
    and ex: "repr28 (dval (f_quantity f))" "repr28 (dval (p_avg_cost p))" "repr28 (dval (f_price f))"
      "repr28 (dval (p_quantity p) * dval (p_avg_cost p))" "repr28 (fill_qty f * dval (f_price f))"
      "repr28 (dval (p_quantity p) + fill_qty f)"
      "repr28 (dval (p_quantity p) * dval (p_avg_cost p) + fill_qty f * dval (f_price f))"
  shows "\<exists>q. apply_fill (Some p) f sid now = Inr q \<and> p_opened q = p_opened p \<and>
    min (dval (p_avg_cost p)) (dval (f_price f)) \<le> dval (p_avg_cost q) \<and>
    dval (p_avg_cost q) \<le> max (dval (p_avg_cost p)) (dval (f_price f))"
proof -
  let ?Q = "dval (p_quantity p)" and ?C = "dval (p_avg_cost p)" and ?S = "fill_qty f" and ?P = "dval (f_price f)"
  have sq: "dval (signed_qty f) = ?S" by (rule signed_qty_exact [OF ex(1)])
  obtain avg where avg: "ddiv (dadd (dmul (p_quantity p) (p_avg_cost p)) (dmul (signed_qty f) (f_price f)))
        (dadd (p_quantity p) (signed_qty f)) = Inr avg" "0 < dval avg"
      "apply_fill (Some p) f sid now = Inr (p\<lparr>p_quantity := dadd (p_quantity p) (signed_qty f),
        p_avg_cost := dabs avg, p_updated := now\<rparr>)"
    using apply_fill_add [OF p f m now same] by blast
  have "dval (dmul (p_quantity p) (p_avg_cost p)) = ?Q * ?C" "dval (dmul (signed_qty f) (f_price f)) = ?S * ?P"
    using ex sq by (simp_all add: dmul_exact)
  then have r: "rounded ((?Q * ?C + ?S * ?P) / (?Q + ?S)) (dval avg)"
    using ddiv_Inr_rounded [OF avg(1)] ex sq by (simp add: dadd_exact)
  have f0: "0 < dval (f_quantity f)" using f by (simp add: Fill_ok_iff)
  have sgn: "(0 < ?Q \<and> 0 < ?S) \<or> (?Q < 0 \<and> ?S < 0)" using same f0 by (auto simp: fill_qty_def)
  then have qs: "?Q + ?S \<noteq> 0" by auto
  have w: "(?Q * ?C + ?S * ?P) / (?Q + ?S) = (?Q / (?Q + ?S)) * ?C + (?S / (?Q + ?S)) * ?P"
    by (simp add: add_divide_distrib)
  have wt: "0 \<le> ?Q / (?Q + ?S)" "0 \<le> ?S / (?Q + ?S)" "?Q / (?Q + ?S) + ?S / (?Q + ?S) = 1"
    using sgn qs by (auto simp: zero_le_divide_iff simp flip: add_divide_distrib)
  let ?m = "min ?C ?P" and ?M = "max ?C ?P"
  have lo: "?m \<le> (?Q * ?C + ?S * ?P) / (?Q + ?S)" and hi: "(?Q * ?C + ?S * ?P) / (?Q + ?S) \<le> ?M"
    unfolding w using weighted_between [OF wt] by blast+
  have rm: "repr28 ?m" "repr28 ?M" using ex by (simp_all add: min_def max_def)
  have "?m \<le> dval avg" "dval avg \<le> ?M" using rounded_lower [OF r rm(1) lo] rounded_upper [OF r rm(2) hi] by simp_all
  moreover have "dval (dabs avg) = dval avg"
    using r avg(2) by (simp add: dabs_exact_repr rounded_def)
  ultimately show ?thesis using avg(3) by simp
qed

theorem added_cost_between_witness:
  "\<exists>q. apply_fill (Some (ex_position (dint 10) (dint 100))) (ex_fill BUY (dint 5) (dint 130)) ''s'' (utc 6) = Inr q \<and>
    100 \<le> dval (p_avg_cost q) \<and> dval (p_avg_cost q) \<le> 130"
proof -
  have r: "repr28 (of_int n)" if "\<bar>n\<bar> < 10 ^ 28" for n by (rule repr28_of_int [OF that])
  show ?thesis
    using added_cost_between [of "ex_position (dint 10) (dint 100)" "ex_fill BUY (dint 5) (dint 130)" "''s''" "utc 6"]
      r [of 5] r [of 100] r [of 130] r [of 1000] r [of 650] r [of 15] r [of 1650]
    by (auto simp: fill_qty_def)
qed

text \<open>A fill against a position: with the new quantity (their sum) zero the position becomes flat
  with cost zero and no opening time; when the sign is kept, cost and opening time are kept; when the sign
  flips, the position is a new one at the fill's price and time.\<close>

theorem opposite_fill:
  assumes "Position_ok p" "Fill_ok f" "p_strategy p = sid" "inst_eq (p_instrument p) (f_instrument f)" "is_utc now"
    and "0 < dval (p_quantity p) \<and> f_side f = SELL \<or> dval (p_quantity p) < 0 \<and> f_side f = BUY"
    and "repr28 (dval (f_quantity f))" "repr28 (dval (p_quantity p) + fill_qty f)"
  shows "\<exists>q. apply_fill (Some p) f sid now = Inr q \<and> dval (p_quantity q) = dval (p_quantity p) + fill_qty f \<and>
    (p_avg_cost q, p_opened q) =
      (if dval (p_quantity p) + fill_qty f = 0 then (dzero, None)
       else if (0 < dval (p_quantity p)) = (0 < dval (p_quantity p) + fill_qty f) then (p_avg_cost p, p_opened p)
       else (f_price f, Some (f_time f)))"
proof -
  have "dval (dadd (p_quantity p) (signed_qty f)) = dval (p_quantity p) + fill_qty f"
    using assms(8) by (simp add: dadd_exact signed_qty_exact [OF assms(7)])
  with apply_fill_opposite [OF assms(1-6)] show ?thesis by (auto simp: Let_def)
qed

theorem opposite_fill_witness:
  "\<exists>q. apply_fill (Some (ex_position (dint 10) (dint 100))) (ex_fill SELL (dint 15) (dint 90)) ''s'' (utc 6) = Inr q \<and>
    dval (p_quantity q) = - 5 \<and> (p_avg_cost q, p_opened q) = (dint 90, Some (utc 5))"
proof -
  have r: "repr28 (of_int n)" if "\<bar>n\<bar> < 10 ^ 28" for n by (rule repr28_of_int [OF that])
  show ?thesis
    using opposite_fill [of "ex_position (dint 10) (dint 100)" "ex_fill SELL (dint 15) (dint 90)" "''s''" "utc 6"]
      r [of 15] r [of "-5"]
    by (auto simp: fill_qty_def)
qed

end
