(* ===== verification/Sizer.thy ===== *)
theory Sizer
  imports Positions
begin

text \<open>
  \<open>src/blive/sizing/sizer.py\<close>: \<open>quantize_share_qty\<close> and \<open>size_orders\<close>.  The
  callbacks \<open>instrument_resolver\<close> and \<open>price_lookup\<close> are fields of the input and may
  raise; \<open>uuid4\<close> is a supply \<open>uuids\<close> of identifiers, one per order.
\<close>

section \<open>The code\<close>

record SizerInput =
  s_targets :: "(string \<times> decimal) list"
  s_equity :: decimal
  s_nav_slice :: decimal
  s_positions :: "string \<rightharpoonup> Position"
  s_resolver :: "string \<Rightarrow> Instrument res"
  s_price :: "Instrument \<Rightarrow> decimal res"
  s_strategy :: string
  s_now :: datetime

definition quantize_share_qty :: "decimal \<Rightarrow> decimal \<Rightarrow> decimal res" where
  "quantize_share_qty raw precision =
     (if precision \<le> dzero then Inl (ValueError ''precision must be positive'')
      else if dec_eq raw dzero then Inr dzero
      else if dzero < raw then dquantize ROUND_DOWN raw precision
      else bindR (dquantize ROUND_DOWN (dneg raw) precision)
             (\<lambda>q. dquantize ROUND_HALF_EVEN (dneg q) precision))"

text \<open>The target quantity of one key: exactly zero on exit, else capital times weight over price.\<close>

definition desired_signed_qty :: "decimal \<Rightarrow> decimal \<Rightarrow> decimal \<Rightarrow> decimal res" where
  "desired_signed_qty effective_capital target_weight price =
     (if dec_eq target_weight dzero then Inr dzero
      else ddiv (dmul effective_capital target_weight) price)"

definition current_qty :: "SizerInput \<Rightarrow> string \<Rightarrow> decimal" where
  "current_qty inp key = (case s_positions inp key of None \<Rightarrow> dzero | Some p \<Rightarrow> p_quantity p)"

definition sized_order :: "SizerInput \<Rightarrow> Instrument \<Rightarrow> decimal \<Rightarrow> uuid \<Rightarrow> Order res" where
  "sized_order inp instrument rounded_qty new_id =
     mk_Order \<lparr>o_id = new_id, o_strategy = s_strategy inp, o_instrument = instrument,
       o_side = (if dzero < rounded_qty then BUY else SELL), o_quantity = dabs rounded_qty,
       o_type = MKT, o_tif = DAY, o_limit = None, o_stop = None, o_parent = None,
       o_tags = [(''rebalance_at'', isoformat (s_now inp))], o_created = s_now inp\<rparr>"

text \<open>One pass of the loop body: no order, or one.\<close>

definition size_one :: "SizerInput \<Rightarrow> decimal \<Rightarrow> string \<times> decimal \<Rightarrow> uuid \<Rightarrow> Order option res" where
  "size_one inp effective_capital kw new_id =
     (case kw of (key, target_weight) \<Rightarrow>
        if \<not> (dint (-1) \<le> target_weight \<and> target_weight \<le> dint 1)
        then Inl (ValueError ''target_weight must be in [-1, 1]'')
        else
          bindR (s_resolver inp key) (\<lambda>instrument.
          bindR (s_price inp instrument) (\<lambda>price.
            if price \<le> dzero then Inl (ValueError ''price must be > 0'')
            else
              bindR (desired_signed_qty effective_capital target_weight price) (\<lambda>desired.
              bindR (quantize_share_qty (dsub desired (current_qty inp key)) (dint 1)) (\<lambda>rounded_qty.
                if dec_eq rounded_qty dzero then Inr None
                else bindR (sized_order inp instrument rounded_qty new_id) (\<lambda>order. Inr (Some order)))))))"

fun size_loop :: "SizerInput \<Rightarrow> decimal \<Rightarrow> (nat \<Rightarrow> uuid) \<Rightarrow> nat \<Rightarrow> (string \<times> decimal) list \<Rightarrow> Order list res" where
  "size_loop inp cap uuids n [] = Inr []"
| "size_loop inp cap uuids n (kw # kws) =
     bindR (size_one inp cap kw (uuids n)) (\<lambda>oo.
       case oo of
         None \<Rightarrow> size_loop inp cap uuids n kws
       | Some order \<Rightarrow> bindR (size_loop inp cap uuids (Suc n) kws) (\<lambda>os. Inr (order # os)))"

definition size_orders :: "SizerInput \<Rightarrow> (nat \<Rightarrow> uuid) \<Rightarrow> Order list res" where
  "size_orders inp uuids =
     (if s_nav_slice inp \<le> dzero then Inl (ValueError ''nav_slice must be > 0'')
      else if s_equity inp \<le> dzero then Inl (ValueError ''equity must be > 0'')
      else size_loop inp (dmul (s_equity inp) (s_nav_slice inp)) uuids 0 (s_targets inp))"

section \<open>Rounding to whole shares\<close>

lemma rescale_neg_unit: "rescale m (Dec n 0) 0 = n"
  by (simp add: rescale_def)

lemma dabs_coef_bound:
  assumes "\<bar>n\<bar> < 10 ^ 28"
  shows "dneg (Dec n 0) = Dec (- n) 0" "dabs (Dec n 0) = Dec \<bar>n\<bar> 0"
proof -
  have nd: "ndigits \<bar>n\<bar> - 28 = 0" using ndigits_le_iff [of 28 "\<bar>n\<bar>"] assms by simp
  have "round_half_even k 1 = k" for k by (simp add: round_half_even_def)
  with nd assms show "dneg (Dec n 0) = Dec (- n) 0" "dabs (Dec n 0) = Dec \<bar>n\<bar> 0"
    by (simp_all add: dneg_def dabs_def dfix_def dneg_exact_def dround_def Let_def)
qed

lemma rescale_down_bounded:
  assumes "\<bar>dval a\<bar> < 10 ^ 28"
  shows "\<bar>rescale ROUND_DOWN a 0\<bar> < 10 ^ 28"
proof -
  have "\<bar>of_int (rescale ROUND_DOWN a 0)\<bar> < (10 ^ 28 :: rat)"
    using rescale_down(1) [of a 0] assms by simp
  then have "(of_int \<bar>rescale ROUND_DOWN a 0\<bar> :: rat) < of_int (10 ^ 28)" by simp
  then show ?thesis by (simp only: of_int_less_iff)
qed

text \<open>
  On a representable input, the result is the input truncated toward zero to an integer; it
  is defined whenever the input is below ten to the 28.
\<close>

lemma quantize_share_qty_cases:
  assumes r: "repr28 (dval raw)"
  shows "quantize_share_qty raw (dint 1) =
    (let n = (if 0 \<le> dval raw then rescale ROUND_DOWN raw 0 else - rescale ROUND_DOWN (dneg raw) 0)
     in if \<bar>n\<bar> < 10 ^ 28 then Inr (dint n) else Inl InvalidOperation)"
proof -
  have e: "dquantize m a (dint 1) = (if \<bar>rescale m a 0\<bar> < 10 ^ 28 then Inr (dint (rescale m a 0)) else Inl InvalidOperation)" for m a
    using ndigits_le_iff [of 28 "\<bar>rescale m a 0\<bar>"] by (auto simp: dquantize_def Let_def)
  show ?thesis
  proof (cases "dval raw" "0 :: rat" rule: linorder_cases)
    case equal
    then have "rescale ROUND_DOWN raw 0 = 0" using rescale_exact [of raw 0 0] by simp
    with equal show ?thesis by (simp add: quantize_share_qty_def decimal_simps)
  next
    case less
    then show ?thesis
      by (simp add: quantize_share_qty_def decimal_simps e dabs_coef_bound rescale_neg_unit bindR_def)
  qed (simp add: quantize_share_qty_def decimal_simps e)
qed

lemma quantize_share_qty_spec:
  assumes r: "repr28 (dval raw)" and q: "quantize_share_qty raw (dint 1) = Inr q"
  obtains n where "q = dint n" "\<bar>n\<bar> < 10 ^ 28"
    "\<bar>of_int n\<bar> \<le> \<bar>dval raw\<bar>" "\<bar>dval raw - of_int n\<bar> < 1"
    "0 \<le> dval raw \<Longrightarrow> 0 \<le> n" "dval raw \<le> 0 \<Longrightarrow> n \<le> 0"
proof (cases "0 \<le> dval raw")
  case True
  with q quantize_share_qty_cases [OF r] rescale_down [of raw 0] show ?thesis
    by (intro that [of "rescale ROUND_DOWN raw 0"]) (auto simp: Let_def split: if_splits)
next
  case False
  have nv: "dval (dneg raw) = - dval raw" by (rule dneg_exact_repr [OF r])
  let ?n = "rescale ROUND_DOWN (dneg raw) 0"
  have a: "\<bar>of_int ?n\<bar> \<le> \<bar>dval raw\<bar>" "\<bar>- dval raw - of_int ?n\<bar> < 1" "0 \<le> ?n"
    using rescale_down [of "dneg raw" 0] nv False by simp_all
  have "\<bar>dval raw - of_int (- ?n)\<bar> < 1" using a(2) by (simp add: abs_if split: if_splits)
  moreover note a(1,3)
  moreover have "q = dint (- ?n)" "\<bar>- ?n\<bar> < 10 ^ 28"
    using q quantize_share_qty_cases [OF r] False by (auto simp: Let_def split: if_splits)
  ultimately show ?thesis using False by (intro that [of "- ?n"]) simp_all
qed

lemma quantize_share_qty_total:
  assumes r: "repr28 (dval raw)" and b: "\<bar>dval raw\<bar> < 10 ^ 28"
  shows "\<exists>q. quantize_share_qty raw (dint 1) = Inr q"
  using rescale_down_bounded [OF b] rescale_down_bounded [of "dneg raw"] dneg_exact_repr [OF r] b
  by (simp add: quantize_share_qty_cases [OF r] Let_def)

text \<open>The signed quantity an order stands for, and the number of shares a pass leaves unordered.\<close>

definition order_qty :: "Order \<Rightarrow> rat" where
  "order_qty r = (if o_side r = BUY then dval (o_quantity r) else - dval (o_quantity r))"

definition opt_order_qty :: "Order option \<Rightarrow> rat" where
  "opt_order_qty r = (case r of None \<Rightarrow> 0 | Some q \<Rightarrow> order_qty q)"

definition Order_ok :: "Order \<Rightarrow> bool" where
  "Order_ok r \<longleftrightarrow> checks (Order_checks r) = Inr ()"

lemma mk_Order_Inr: "mk_Order r = Inr q \<longleftrightarrow> q = r \<and> Order_ok r"
  by (simp add: mk_Order_def validated_eq_Inr Order_ok_def)

definition sized_order_shape :: "SizerInput \<Rightarrow> Order \<Rightarrow> bool" where
  "sized_order_shape inp r \<longleftrightarrow> Order_ok r \<and> o_type r = MKT \<and> o_tif r = DAY \<and> o_strategy r = s_strategy inp \<and>
     o_created r = s_now inp \<and> (\<exists>n. o_quantity r = dint n \<and> 1 \<le> n)"

lemma sized_order_ok:
  assumes n: "n \<noteq> 0" "\<bar>n\<bar> < 10 ^ 28" and s: "s_strategy inp \<noteq> []" and now: "is_utc (s_now inp)"
  shows "\<exists>r. sized_order inp i (dint n) u = Inr r \<and> sized_order_shape inp r \<and> o_instrument r = i \<and>
    o_id r = u \<and> order_qty r = of_int n"
proof -
  let ?r = "\<lparr>o_id = u, o_strategy = s_strategy inp, o_instrument = i,
       o_side = (if dzero < dint n then BUY else SELL), o_quantity = dabs (dint n),
       o_type = MKT, o_tif = DAY, o_limit = None, o_stop = None, o_parent = None,
       o_tags = [(''rebalance_at'', isoformat (s_now inp))], o_created = s_now inp\<rparr>"
  have ok: "Order_ok ?r"
    using n s now by (simp add: Order_ok_def Order_checks_def needs_limit_def needs_stop_def require_utc_def
        dabs_coef_bound decimal_simps)
  moreover have "order_qty ?r = of_int n"
    using n by (simp add: order_qty_def dabs_coef_bound decimal_simps)
  moreover have "sized_order_shape inp ?r"
    using ok n by (simp add: sized_order_shape_def dabs_coef_bound)
  ultimately show ?thesis by (simp add: sized_order_def mk_Order_Inr)
qed

lemma size_one_Inr:
  assumes "size_one inp cap (key, w) u = Inr oo"
  obtains i pr d n where "s_resolver inp key = Inr i" "s_price inp i = Inr pr" "0 < dval pr"
    "desired_signed_qty cap w pr = Inr d" "quantize_share_qty (dsub d (current_qty inp key)) (dint 1) = Inr n"
    "dval n = 0 \<and> oo = None \<or> dval n \<noteq> 0 \<and> (\<exists>r. sized_order inp i n u = Inr r \<and> oo = Some r)"
    "- 1 \<le> dval w" "dval w \<le> 1"
  using assms by (auto simp: size_one_def decimal_simps not_le split: if_splits)

text \<open>A pass leaves less than one share between the wanted delta and the order it emits.\<close>

lemma size_one_residual:
  assumes one: "size_one inp cap (key, w) u = Inr oo"
    and s: "s_strategy inp \<noteq> []" and now: "is_utc (s_now inp)"
  shows "\<exists>i pr d. s_resolver inp key = Inr i \<and> s_price inp i = Inr pr \<and> desired_signed_qty cap w pr = Inr d \<and>
    \<bar>dval (dsub d (current_qty inp key)) - opt_order_qty oo\<bar> < 1 \<and>
    \<bar>opt_order_qty oo\<bar> \<le> \<bar>dval (dsub d (current_qty inp key))\<bar> \<and>
    (case oo of None \<Rightarrow> True | Some r \<Rightarrow> sized_order_shape inp r \<and> o_instrument r = i \<and> o_id r = u)"
proof -
  obtain i pr d q where h: "s_resolver inp key = Inr i" "s_price inp i = Inr pr"
    "desired_signed_qty cap w pr = Inr d" "quantize_share_qty (dsub d (current_qty inp key)) (dint 1) = Inr q"
    "dval q = 0 \<and> oo = None \<or> dval q \<noteq> 0 \<and> (\<exists>r. sized_order inp i q u = Inr r \<and> oo = Some r)"
    by (rule size_one_Inr [OF one])
  let ?delta = "dsub d (current_qty inp key)"
  obtain n where n: "q = dint n" "\<bar>n\<bar> < 10 ^ 28" "\<bar>of_int n\<bar> \<le> \<bar>dval ?delta\<bar>" "\<bar>dval ?delta - of_int n\<bar> < 1"
    by (rule quantize_share_qty_spec [OF repr28_dsub h(4)])
  show ?thesis
  proof (cases "n = 0")
    case True
    with h n show ?thesis by (auto simp: opt_order_qty_def)
  next
    case False
    with sized_order_ok [OF False n(2) s now, of i u] h n show ?thesis by (auto simp: opt_order_qty_def)
  qed
qed

section \<open>The loop over the targets\<close>

text \<open>Every target gets one pass, and every order comes from one.\<close>

lemma size_loop_Cons:
  "size_loop inp cap uuids n (kw # kws) = Inr os \<longleftrightarrow>
    size_one inp cap kw (uuids n) = Inr None \<and> size_loop inp cap uuids n kws = Inr os \<or>
    (\<exists>r os'. size_one inp cap kw (uuids n) = Inr (Some r) \<and> size_loop inp cap uuids (Suc n) kws = Inr os' \<and> os = r # os')"
  by (auto split: option.splits)

declare size_loop.simps(2) [simp del]

lemma size_loop_passes:
  "size_loop inp cap uuids n kws = Inr os \<Longrightarrow> kw \<in> set kws \<Longrightarrow>
    \<exists>k oo. size_one inp cap kw (uuids k) = Inr oo \<and> (\<forall>r. oo = Some r \<longrightarrow> r \<in> set os)"
proof (induction kws arbitrary: n os)
  case (Cons kw' kws)
  from Cons.prems(1) consider
      "size_one inp cap kw' (uuids n) = Inr None" "size_loop inp cap uuids n kws = Inr os"
    | r os' where "size_one inp cap kw' (uuids n) = Inr (Some r)" "size_loop inp cap uuids (Suc n) kws = Inr os'" "os = r # os'"
    by (auto simp: size_loop_Cons)
  then show ?case
  proof cases
    case 1
    with Cons show ?thesis by (cases "kw = kw'") auto
  next
    case 2
    show ?thesis
    proof (cases "kw = kw'")
      case True
      with 2 show ?thesis by auto
    next
      case False
      with Cons.IH [OF 2(2)] Cons.prems(2) 2(3) show ?thesis by auto
    qed
  qed
qed simp

lemma size_loop_orders:
  "size_loop inp cap uuids n kws = Inr os \<Longrightarrow> r \<in> set os \<Longrightarrow>
    \<exists>kw k. kw \<in> set kws \<and> n \<le> k \<and> size_one inp cap kw (uuids k) = Inr (Some r)"
proof (induction kws arbitrary: n os)
  case (Cons kw' kws)
  from Cons.prems(1) consider
      "size_one inp cap kw' (uuids n) = Inr None" "size_loop inp cap uuids n kws = Inr os"
    | r' os' where "size_one inp cap kw' (uuids n) = Inr (Some r')" "size_loop inp cap uuids (Suc n) kws = Inr os'" "os = r' # os'"
    by (auto simp: size_loop_Cons)
  then show ?case
  proof cases
    case 1
    with Cons show ?thesis by fastforce
  next
    case 2
    show ?thesis
    proof (cases "r = r'")
      case True
      with 2(1) show ?thesis by (metis list.set_intros(1) order_refl)
    next
      case False
      with Cons.IH [OF 2(2)] Cons.prems(2) 2(3) show ?thesis by (auto dest: Suc_leD)
    qed
  qed
qed simp

lemma size_loop_length: "size_loop inp cap uuids n kws = Inr os \<Longrightarrow> length os \<le> length kws"
  by (induction kws arbitrary: n os) (fastforce simp: size_loop_Cons)+

lemma size_loop_total:
  "(\<And>kw k. kw \<in> set kws \<Longrightarrow> is_ok (size_one inp cap kw (uuids k))) \<Longrightarrow> is_ok (size_loop inp cap uuids n kws)"
proof (induction kws arbitrary: n)
  case (Cons kw kws)
  then obtain oo where oo: "size_one inp cap kw (uuids n) = Inr oo" using is_ok_iff by (metis list.set_intros(1))
  have "is_ok (size_loop inp cap uuids m kws)" for m using Cons by simp
  then have "\<exists>os. size_loop inp cap uuids m kws = Inr os" for m by (simp add: is_ok_iff)
  with oo show ?case unfolding is_ok_iff size_loop_Cons by (cases oo) blast+
qed simp

text \<open>A target the sizer can size: known instrument, positive price, a delta below ten to the 28.\<close>

definition sizable :: "SizerInput \<Rightarrow> decimal \<Rightarrow> string \<times> decimal \<Rightarrow> bool" where
  "sizable inp cap kw \<longleftrightarrow> (case kw of (key, w) \<Rightarrow>
     - 1 \<le> dval w \<and> dval w \<le> 1 \<and>
     (case s_resolver inp key of Inl _ \<Rightarrow> False | Inr i \<Rightarrow>
       (case s_price inp i of Inl _ \<Rightarrow> False | Inr pr \<Rightarrow> 0 < dval pr \<and>
         (case desired_signed_qty cap w pr of Inl _ \<Rightarrow> False | Inr d \<Rightarrow>
           \<bar>dval (dsub d (current_qty inp key))\<bar> < 10 ^ 28))))"

lemma size_one_total:
  assumes z: "sizable inp cap kw" and s: "s_strategy inp \<noteq> []" and now: "is_utc (s_now inp)"
  shows "is_ok (size_one inp cap kw u)"
proof -
  obtain key w where kw: "kw = (key, w)" by (cases kw)
  with z obtain i pr d where h: "- 1 \<le> dval w" "dval w \<le> 1" "s_resolver inp key = Inr i" "s_price inp i = Inr pr"
    "0 < dval pr" "desired_signed_qty cap w pr = Inr d" "\<bar>dval (dsub d (current_qty inp key))\<bar> < 10 ^ 28"
    by (auto simp: sizable_def split: sum.splits)
  let ?delta = "dsub d (current_qty inp key)"
  obtain q where q: "quantize_share_qty ?delta (dint 1) = Inr q"
    using quantize_share_qty_total [OF repr28_dsub h(7)] by blast
  obtain n where n: "q = dint n" "\<bar>n\<bar> < 10 ^ 28" by (rule quantize_share_qty_spec [OF repr28_dsub q])
  show ?thesis
    using h q n sized_order_ok [OF _ n(2) s now, of i u]
    by (cases "n = 0") (auto simp: size_one_def kw decimal_simps)
qed

lemma size_orders_total:
  assumes "0 < dval (s_nav_slice inp)" "0 < dval (s_equity inp)" "s_strategy inp \<noteq> []" "is_utc (s_now inp)"
    and "list_all (sizable inp (dmul (s_equity inp) (s_nav_slice inp))) (s_targets inp)"
  shows "is_ok (size_orders inp uuids)"
  using assms size_loop_total [of "s_targets inp" inp "dmul (s_equity inp) (s_nav_slice inp)" uuids 0]
  by (simp add: size_orders_def decimal_simps list_all_iff size_one_total)

text \<open>The exit rule: a zero weight on a whole-share holding orders exactly that holding away.\<close>

lemma size_one_exit:
  assumes one: "size_one inp cap (key, w) u = Inr oo" and w: "dval w = 0"
    and p: "s_positions inp key = Some p" and n: "dval (p_quantity p) = of_int n" "\<bar>n\<bar> < 10 ^ 28" "n \<noteq> 0"
    and s: "s_strategy inp \<noteq> []" and now: "is_utc (s_now inp)"
  shows "\<exists>r i. oo = Some r \<and> s_resolver inp key = Inr i \<and> o_instrument r = i \<and> order_qty r = - of_int n \<and>
    sized_order_shape inp r"
proof -
  obtain i pr d where h: "s_resolver inp key = Inr i" "desired_signed_qty cap w pr = Inr d"
    "\<bar>dval (dsub d (current_qty inp key)) - opt_order_qty oo\<bar> < 1"
    "case oo of None \<Rightarrow> True | Some r \<Rightarrow> sized_order_shape inp r \<and> o_instrument r = i \<and> o_id r = u"
    using size_one_residual [OF one s now] by blast
  have d: "d = dzero" using h(2) w by (simp add: desired_signed_qty_def decimal_simps)
  have "dval (dsub d (current_qty inp key)) = - of_int n"
    using dsub_exact [of d "current_qty inp key"] repr28_of_int [of "- n"] n(1,2)
    by (simp add: d current_qty_def p)
  with h(3) have close: "\<bar>- of_int n - opt_order_qty oo\<bar> < (1 :: rat)" by simp
  show ?thesis
  proof (cases oo)
    case None
    with close have "\<bar>of_int n :: rat\<bar> < 1" by (simp add: opt_order_qty_def)
    then have "\<bar>n\<bar> < 1" by (metis of_int_abs of_int_less_1_iff)
    with n(3) show ?thesis by simp
  next
    case (Some r)
    with h(4) obtain k where k: "o_quantity r = dint k" by (auto simp: sized_order_shape_def)
    define j where "j = (if o_side r = BUY then k else - k)"
    have j: "order_qty r = of_int j" by (simp add: order_qty_def j_def k)
    with close Some have "\<bar>of_int (- n - j) :: rat\<bar> < 1" by (simp add: opt_order_qty_def)
    then have "\<bar>- n - j\<bar> < 1" by (metis of_int_abs of_int_less_1_iff)
    with j have "order_qty r = - of_int n" by simp
    with Some h show ?thesis by auto
  qed
qed

section \<open>Properties\<close>

lemma size_orders_Inr:
  assumes "size_orders inp uuids = Inr os"
  shows "size_loop inp (dmul (s_equity inp) (s_nav_slice inp)) uuids 0 (s_targets inp) = Inr os"
    "0 < dval (s_equity inp)" "0 < dval (s_nav_slice inp)"
  using assms by (auto simp: size_orders_def decimal_simps split: if_splits)

definition ex_sizer :: "(string \<times> decimal) list \<Rightarrow> (string \<rightharpoonup> Position) \<Rightarrow> SizerInput" where
  "ex_sizer targets positions = \<lparr>s_targets = targets, s_equity = dint 100000, s_nav_slice = Dec 1 (-1),
     s_positions = positions, s_resolver = (\<lambda>key. Inr ex_instrument), s_price = (\<lambda>i. Inr (dint 30)),
     s_strategy = ''s'', s_now = utc 7\<rparr>"

lemma ex_sizer_fields [simp]:
  "s_targets (ex_sizer ts ps) = ts" "s_positions (ex_sizer ts ps) = ps" "s_strategy (ex_sizer ts ps) = ''s''"
  "s_now (ex_sizer ts ps) = utc 7" "s_equity (ex_sizer ts ps) = dint 100000" "s_nav_slice (ex_sizer ts ps) = Dec 1 (-1)"
  "s_resolver (ex_sizer ts ps) key = Inr ex_instrument" "s_price (ex_sizer ts ps) i = Inr (dint 30)"
  by (simp_all add: ex_sizer_def)

lemma ex_capital: "dmul (dint 100000) (Dec 1 (-1)) = Dec 100000 (-1)"
  by code_simp

lemma ex_desired: "desired_signed_qty (Dec 100000 (-1)) (dint 1) (dint 30) = Inr (Dec 3333333333333333333333333333 (-25))"
  "desired_signed_qty (Dec 100000 (-1)) dzero (dint 30) = Inr dzero"
  by code_simp+

lemma ex_sizable:
  "sizable (ex_sizer ts (\<lambda>_. None)) (Dec 100000 (-1)) (key, dint 1)"
  "sizable (ex_sizer ts (\<lambda>_. Some (ex_position (dint 10) (dint 25)))) (Dec 100000 (-1)) (key, dzero)"
proof -
  have "dsub (Dec 3333333333333333333333333333 (-25)) dzero = Dec 3333333333333333333333333333 (-25)"
    "dsub dzero (dint 10) = dint (-10)" by code_simp+
  then show "sizable (ex_sizer ts (\<lambda>_. None)) (Dec 100000 (-1)) (key, dint 1)"
    "sizable (ex_sizer ts (\<lambda>_. Some (ex_position (dint 10) (dint 25)))) (Dec 100000 (-1)) (key, dzero)"
    by (simp_all add: sizable_def ex_desired current_qty_def power_int_def power_divide)
qed

lemma ex_sized:
  obtains os where "size_orders (ex_sizer [(''SPY'', dint 1), (''QQQ'', dint 1)] (\<lambda>_. None)) (\<lambda>n. n) = Inr os"
proof -
  have "is_ok (size_orders (ex_sizer [(''SPY'', dint 1), (''QQQ'', dint 1)] (\<lambda>_. None)) (\<lambda>n. n))"
    by (rule size_orders_total) (simp_all add: ex_capital ex_sizable power_int_def)
  then show thesis using that by (auto simp: is_ok_iff)
qed

text \<open>For every target the sizer leaves less than one share unordered: the order emitted for the
  key (or none, counted as zero) differs by less than one from the delta between the desired and the held
  quantity, and never overshoots it.\<close>

theorem sized_within_one_share:
  assumes os: "size_orders inp uuids = Inr os" and key: "(key, w) \<in> set (s_targets inp)"
    and s: "s_strategy inp \<noteq> []" and now: "is_utc (s_now inp)"
  shows "\<exists>i pr d oo. s_resolver inp key = Inr i \<and> s_price inp i = Inr pr \<and>
    desired_signed_qty (dmul (s_equity inp) (s_nav_slice inp)) w pr = Inr d \<and>
    (oo = None \<or> (\<exists>r \<in> set os. oo = Some r \<and> o_instrument r = i)) \<and>
    \<bar>dval (dsub d (current_qty inp key)) - opt_order_qty oo\<bar> < 1 \<and>
    \<bar>opt_order_qty oo\<bar> \<le> \<bar>dval (dsub d (current_qty inp key))\<bar>"
proof -
  obtain k oo where one: "size_one inp (dmul (s_equity inp) (s_nav_slice inp)) (key, w) (uuids k) = Inr oo"
      "\<forall>r. oo = Some r \<longrightarrow> r \<in> set os"
    using size_loop_passes [OF size_orders_Inr(1) [OF os] key] by blast
  from size_one_residual [OF one(1) s now] obtain i pr d where "s_resolver inp key = Inr i" "s_price inp i = Inr pr"
      "desired_signed_qty (dmul (s_equity inp) (s_nav_slice inp)) w pr = Inr d"
      "\<bar>dval (dsub d (current_qty inp key)) - opt_order_qty oo\<bar> < 1"
      "\<bar>opt_order_qty oo\<bar> \<le> \<bar>dval (dsub d (current_qty inp key))\<bar>"
      "case oo of None \<Rightarrow> True | Some r \<Rightarrow> sized_order_shape inp r \<and> o_instrument r = i \<and> o_id r = uuids k"
    by blast
  with one(2) show ?thesis by (cases oo) auto
qed

theorem sized_within_one_share_witness:
  "\<exists>os oo. size_orders (ex_sizer [(''SPY'', dint 1), (''QQQ'', dint 1)] (\<lambda>_. None)) (\<lambda>n. n) = Inr os \<and>
    (oo = None \<or> (\<exists>r \<in> set os. oo = Some r)) \<and>
    \<bar>dval (Dec 3333333333333333333333333333 (-25)) - opt_order_qty oo\<bar> < 1"
proof -
  obtain os where os: "size_orders (ex_sizer [(''SPY'', dint 1), (''QQQ'', dint 1)] (\<lambda>_. None)) (\<lambda>n. n) = Inr os"
    by (rule ex_sized)
  have "dsub (Dec 3333333333333333333333333333 (-25)) dzero = Dec 3333333333333333333333333333 (-25)" by code_simp
  with sized_within_one_share [OF os, of "''SPY''" "dint 1"] obtain oo where
      "oo = None \<or> (\<exists>r \<in> set os. oo = Some r)" "\<bar>dval (Dec 3333333333333333333333333333 (-25)) - opt_order_qty oo\<bar> < 1"
    by (auto simp: ex_capital ex_desired current_qty_def)
  with os show ?thesis by blast
qed

text \<open>Every order the sizer emits comes from one of the targets, is a valid \<open>Order\<close>, a MKT
  DAY order for a whole positive number of shares, created at the rebalance time for the strategy; and there
  is at most one order per target.\<close>

theorem sized_orders_shape:
  assumes os: "size_orders inp uuids = Inr os" and s: "s_strategy inp \<noteq> []" and now: "is_utc (s_now inp)"
  shows "list_all (sized_order_shape inp) os \<and> length os \<le> length (s_targets inp)"
proof
  show "length os \<le> length (s_targets inp)" by (rule size_loop_length [OF size_orders_Inr(1) [OF os]])
  have "sized_order_shape inp r" if r: "r \<in> set os" for r
  proof -
    obtain key w k where "size_one inp (dmul (s_equity inp) (s_nav_slice inp)) (key, w) (uuids k) = Inr (Some r)"
      using size_loop_orders [OF size_orders_Inr(1) [OF os] r] by (metis surj_pair)
    with size_one_residual [OF this s now] show ?thesis by auto
  qed
  then show "list_all (sized_order_shape inp) os" by (simp add: list_all_iff)
qed

theorem sized_orders_shape_witness:
  "\<exists>os. size_orders (ex_sizer [(''SPY'', dint 1), (''QQQ'', dint 1)] (\<lambda>_. None)) (\<lambda>n. n) = Inr os \<and> length os \<le> 2"
proof -
  obtain os where os: "size_orders (ex_sizer [(''SPY'', dint 1), (''QQQ'', dint 1)] (\<lambda>_. None)) (\<lambda>n. n) = Inr os"
    by (rule ex_sized)
  show ?thesis using sized_orders_shape [OF os] os by auto
qed

text \<open>The sizer returns a list of orders, and raises nothing, whenever capital is positive, the
  strategy is named, the time is UTC and every target is sizable: its weight within [-1, 1], its key
  resolved, its price positive and its delta below ten to the 28.\<close>

theorem size_orders_succeeds:
  assumes "0 < dval (s_nav_slice inp)" "0 < dval (s_equity inp)" "s_strategy inp \<noteq> []" "is_utc (s_now inp)"
    and "list_all (sizable inp (dmul (s_equity inp) (s_nav_slice inp))) (s_targets inp)"
  shows "is_ok (size_orders inp uuids)"
  by (rule size_orders_total [OF assms])

theorem size_orders_succeeds_witness:
  "is_ok (size_orders (ex_sizer [(''SPY'', dint 1)] (\<lambda>_. None)) (\<lambda>n. n))"
  by (rule size_orders_succeeds) (simp_all add: ex_capital ex_sizable power_int_def)

text \<open>A complete fill of an order.\<close>

definition fills_order :: "Order \<Rightarrow> Fill \<Rightarrow> bool" where
  "fills_order r f \<longleftrightarrow> Fill_ok f \<and> f_side f = o_side r \<and> dec_eq (f_quantity f) (o_quantity r)"

lemma fills_order_qty: "fills_order r f \<Longrightarrow> fill_qty f = order_qty r"
  by (simp add: fills_order_def fill_qty_def order_qty_def decimal_simps)

text \<open>C17: exit means flat: for a target of weight zero on a holding of a whole number of shares the sizer
  orders exactly the opposite quantity, and a complete fill of that order, applied to the held position,
  gives a flat position.\<close>

theorem exit_flattens:
  assumes os: "size_orders inp uuids = Inr os" and key: "(key, w) \<in> set (s_targets inp)" and w: "dval w = 0"
    and p: "s_positions inp key = Some p" "Position_ok p" "p_strategy p = s_strategy inp"
    and n: "dval (p_quantity p) = of_int n" "\<bar>n\<bar> < 10 ^ 28" "n \<noteq> 0"
    and now: "is_utc (s_now inp)"
  shows "\<exists>r \<in> set os. s_resolver inp key = Inr (o_instrument r) \<and> order_qty r = - of_int n \<and>
    (\<forall>f. fills_order r f \<and> inst_eq (p_instrument p) (f_instrument f) \<longrightarrow>
       (\<exists>q. apply_fill (Some p) f (s_strategy inp) (f_time f) = Inr q \<and> dval (p_quantity q) = 0 \<and> p_opened q = None))"
proof -
  have s: "s_strategy inp \<noteq> []" using p(2,3) by (auto simp: Position_ok_iff)
  obtain k oo where one: "size_one inp (dmul (s_equity inp) (s_nav_slice inp)) (key, w) (uuids k) = Inr oo"
      "\<forall>r. oo = Some r \<longrightarrow> r \<in> set os"
    using size_loop_passes [OF size_orders_Inr(1) [OF os] key] by blast
  obtain r i where r: "oo = Some r" "s_resolver inp key = Inr i" "o_instrument r = i" "order_qty r = - of_int n"
    using size_one_exit [OF one(1) w p(1) n s now] by blast
  have "\<exists>q. apply_fill (Some p) f (s_strategy inp) (f_time f) = Inr q \<and> dval (p_quantity q) = 0 \<and> p_opened q = None"
    if f: "fills_order r f" "inst_eq (p_instrument p) (f_instrument f)" for f
  proof -
    have ok: "Fill_ok f" using f(1) by (simp add: fills_order_def)
    have fq: "fill_qty f = - of_int n" using fills_order_qty [OF f(1)] r(4) by simp
    have f0: "0 < dval (f_quantity f)" "is_utc (f_time f)" using ok by (simp_all add: Fill_ok_iff)
    have "\<bar>dval (f_quantity f)\<bar> = \<bar>of_int n\<bar>" using fq by (auto simp: fill_qty_def split: if_splits)
    then have "repr28 (dval (f_quantity f))" using repr28_of_int [OF n(2)] by (metis repr28_abs)
    then have z: "dval (dadd (p_quantity p) (signed_qty f)) = 0"
      using n(1) fq by (simp add: decimal_simps signed_qty_exact)
    have opp: "0 < dval (p_quantity p) \<and> f_side f = SELL \<or> dval (p_quantity p) < 0 \<and> f_side f = BUY"
    proof (cases "f_side f")
      case BUY
      then have "(of_int n :: rat) < 0" using fq f0(1) by (simp add: fill_qty_def)
      with BUY n(1) show ?thesis by simp
    next
      case SELL
      then have "(0 :: rat) < of_int n" using fq f0(1) by (simp add: fill_qty_def)
      with SELL n(1) show ?thesis by simp
    qed
    show ?thesis by (simp add: apply_fill_opposite [OF p(2) ok p(3) f(2) f0(2) opp] z)
  qed
  with one(2) r show ?thesis by blast
qed

theorem exit_flattens_witness:
  "\<exists>os. size_orders (ex_sizer [(''SPY'', dzero)] (\<lambda>_. Some (ex_position (dint 10) (dint 25)))) (\<lambda>n. n) = Inr os \<and>
    (\<exists>r \<in> set os. order_qty r = - 10 \<and> o_instrument r = ex_instrument)"
proof -
  let ?i = "ex_sizer [(''SPY'', dzero)] (\<lambda>_. Some (ex_position (dint 10) (dint 25)))"
  have "is_ok (size_orders ?i (\<lambda>n. n))"
    by (rule size_orders_total) (simp_all add: ex_capital ex_sizable power_int_def)
  then obtain os where os: "size_orders ?i (\<lambda>n. n) = Inr os" by (auto simp: is_ok_iff)
  show ?thesis
    using exit_flattens [OF os, of "''SPY''" dzero "ex_position (dint 10) (dint 25)" 10] os by auto
qed
text \<open>The exit rule does not flatten a fractional holding: orders are for whole shares, so with a weight
  of zero on a holding that is not a whole number the order emitted (or none) never equals the holding.\<close>

theorem fractional_exit_residue:
  assumes one: "size_one inp cap (key, w) u = Inr oo" and w: "dval w = 0" and p: "s_positions inp key = Some p"
    and frac: "dval (p_quantity p) \<notin> \<int>" and s: "s_strategy inp \<noteq> []" and now: "is_utc (s_now inp)"
  shows "dval (p_quantity p) + opt_order_qty oo \<noteq> 0"
proof -
  obtain i where "case oo of None \<Rightarrow> True | Some r \<Rightarrow> sized_order_shape inp r \<and> o_instrument r = i \<and> o_id r = u"
    using size_one_residual [OF one s now] by blast
  then have "opt_order_qty oo \<in> \<int>"
    by (cases oo) (auto simp: opt_order_qty_def order_qty_def sized_order_shape_def)
  then have "- opt_order_qty oo \<in> \<int>" by simp
  with frac show ?thesis by (metis add_eq_0_iff2)
qed

theorem fractional_exit_residue_witness:
  "\<exists>oo. size_one (ex_sizer [] (\<lambda>_. Some (ex_position (Dec 105 (-1)) (dint 25)))) (dint 10) (''SPY'', dzero) 1 = Inr oo \<and>
    dval (Dec 105 (-1)) + opt_order_qty oo \<noteq> 0"
proof -
  let ?i = "ex_sizer [] (\<lambda>_. Some (ex_position (Dec 105 (-1)) (dint 25)))"
  have d: "dsub dzero (Dec 105 (-1)) = Dec (-105) (-1)" by code_simp
  have "sizable ?i (dint 10) (''SPY'', dzero)"
    by (simp add: sizable_def desired_signed_qty_def decimal_simps current_qty_def d power_int_def)
  then obtain oo where oo: "size_one ?i (dint 10) (''SPY'', dzero) 1 = Inr oo"
    using size_one_total [of ?i "dint 10" "(''SPY'', dzero)" 1] by (auto simp: is_ok_iff)
  have "dval (Dec 105 (-1)) = 21 / (2 :: rat)" by (simp add: power_int_def)
  moreover have "21 / (2 :: rat) \<notin> \<int>"
  proof
    assume "21 / (2 :: rat) \<in> \<int>"
    then obtain k where "21 / (2 :: rat) = of_int k" by (auto elim: Ints_cases)
    then have "(of_int 21 :: rat) = of_int (2 * k)" by simp
    then have "21 = 2 * k" by (simp only: of_int_eq_iff)
    then show False by presburger
  qed
  ultimately have "dval (Dec 105 (-1)) \<notin> \<int>" by simp
  with fractional_exit_residue [OF oo, of "ex_position (Dec 105 (-1)) (dint 25)"] oo show ?thesis by auto
qed

end
