(* ===== verification/RiskChecks.thy ===== *)
theory RiskChecks
  imports Sizer
begin

text \<open>
  \<open>src/blive/risk/checks.py\<close>: the kill-switch latch and \<open>RiskEngine.approve\<close> with its
  four internal checks.  The file system the artefact check reads is a function \<open>fs\<close> from
  paths to the modification time in microseconds (None when the path is not a file).  Ages are
  compared in microseconds: the code's floats (seconds divided by 86400.0) order ages the same way
  as long as they are below about 30 years.
\<close>

section \<open>Kill switch\<close>

record KillSwitch =
  ks_armed :: bool
  ks_reason :: string

definition fresh_kill_switch :: KillSwitch where
  "fresh_kill_switch = \<lparr>ks_armed = False, ks_reason = []\<rparr>"

definition arm :: "KillSwitch \<Rightarrow> string \<Rightarrow> KillSwitch res" where
  "arm k reason =
     (if reason = [] then Inl (ValueError ''KillSwitch.arm requires a non-empty reason'')
      else Inr (k\<lparr>ks_armed := True, ks_reason := reason\<rparr>))"

definition clear :: "KillSwitch \<Rightarrow> KillSwitch" where
  "clear k = k\<lparr>ks_armed := False, ks_reason := []\<rparr>"

section \<open>Configuration and inputs\<close>

record RiskEngineConfig =
  rc_staleness_intraday :: int
  rc_staleness_daily :: int
  rc_outside_rth :: bool
  rc_artefact_max_days :: int
  rc_artefact_warn_days :: int
  rc_is_intraday :: bool
  rc_price_pct :: decimal

definition default_config :: RiskEngineConfig where
  "default_config = \<lparr>rc_staleness_intraday = 300, rc_staleness_daily = 86400, rc_outside_rth = False,
     rc_artefact_max_days = 30, rc_artefact_warn_days = 21, rc_is_intraday = False,
     rc_price_pct = Dec 5 (-1)\<rparr>"

record RiskInputs =
  ri_last_bar :: "Bar option"
  ri_market_open :: bool
  ri_artefacts :: "(string \<times> string) list"
  ri_reference :: "decimal option"

record RiskEngine =
  re_config :: RiskEngineConfig
  re_kill :: KillSwitch
  re_strategy :: string

definition breach :: "RiskEngine \<Rightarrow> RiskCheckCode \<Rightarrow> RiskBreachSeverity \<Rightarrow> breach_detail \<Rightarrow> datetime \<Rightarrow> RiskBreach res" where
  "breach eng code sev det now =
     mk_RiskBreach \<lparr>r_strategy = re_strategy eng, r_check = code, r_severity = sev, r_detail = det, r_time = now\<rparr>"

section \<open>The checks\<close>

definition check_stale_data :: "RiskEngine \<Rightarrow> Bar option \<Rightarrow> Instrument \<Rightarrow> datetime \<Rightarrow> RiskBreach option res" where
  "check_stale_data eng last_bar instrument now =
     (case last_bar of
        None \<Rightarrow> bindR (breach eng RC_08 BLOCK (NoBar (i_symbol instrument)) now) (\<lambda>b. Inr (Some b))
      | Some bar \<Rightarrow>
          let threshold_sec = (if rc_is_intraday (re_config eng) then rc_staleness_intraday (re_config eng)
                               else rc_staleness_daily (re_config eng))
          in bindR (dt_sub now (b_close_time bar)) (\<lambda>delta.
               if threshold_sec * 1000000 < delta
               then bindR (breach eng RC_08 BLOCK (StaleBar (i_symbol instrument) (delta div 1000000) threshold_sec) now)
                      (\<lambda>b. Inr (Some b))
               else Inr None))"

definition check_price_sanity :: "RiskEngine \<Rightarrow> Order \<Rightarrow> decimal option \<Rightarrow> datetime \<Rightarrow> RiskBreach option res" where
  "check_price_sanity eng order reference_price now =
     (case reference_price of
        None \<Rightarrow> Inr None
      | Some ref \<Rightarrow>
          if ref \<le> dzero then Inr None
          else if o_type order \<in> {MKT, ADAPTIVE_MKT} then Inr None
          else (case o_limit order of
                  None \<Rightarrow> Inr None
                | Some order_price \<Rightarrow>
                    bindR (ddiv (dabs (dsub order_price ref)) ref) (\<lambda>deviation.
                      if rc_price_pct (re_config eng) < deviation
                      then bindR (breach eng RC_10 BLOCK
                             (PriceSanity order_price (i_symbol (o_instrument order)) deviation ref
                                (rc_price_pct (re_config eng))) now)
                             (\<lambda>b. Inr (Some b))
                      else Inr None)))"

text \<open>The scan over the artefacts: the first missing file, or the age and name of the oldest.\<close>

fun scan_artefacts :: "(string \<Rightarrow> int option) \<Rightarrow> datetime \<Rightarrow> int \<Rightarrow> string \<Rightarrow> (string \<times> string) list
    \<Rightarrow> (string \<times> string) + (int \<times> string)" where
  "scan_artefacts fs now oldest name [] = Inr (oldest, name)"
| "scan_artefacts fs now oldest name ((n, path) # rest) =
     (case fs path of
        None \<Rightarrow> Inl (n, path)
      | Some mtime \<Rightarrow>
          let age = dt_instant now - mtime
          in if oldest < age then scan_artefacts fs now age n rest else scan_artefacts fs now oldest name rest)"

definition day_us :: int where "day_us = 86400000000"

definition check_artefact_freshness :: "(string \<Rightarrow> int option) \<Rightarrow> RiskEngine \<Rightarrow> (string \<times> string) list \<Rightarrow> datetime
    \<Rightarrow> (RiskBreach option \<times> RiskBreach option) res" where
  "check_artefact_freshness fs eng artefact_paths now =
     (if artefact_paths = [] then Inr (None, None)
      else case scan_artefacts fs now 0 [] artefact_paths of
        Inl (name, path) \<Rightarrow>
          bindR (breach eng RC_12 BLOCK (ArtefactMissing name path) now) (\<lambda>b. Inr (Some b, None))
      | Inr (oldest, name) \<Rightarrow>
          if rc_artefact_max_days (re_config eng) * day_us \<le> oldest
          then bindR (breach eng RC_12 BLOCK (ArtefactTooOld name oldest (rc_artefact_max_days (re_config eng))) now)
                 (\<lambda>b. Inr (Some b, None))
          else if rc_artefact_warn_days (re_config eng) * day_us \<le> oldest
          then bindR (breach eng RC_12 WARN (ArtefactAgeing name oldest (rc_artefact_warn_days (re_config eng))) now)
                 (\<lambda>b. Inr (None, Some b))
          else Inr (None, None))"

definition approve :: "(string \<Rightarrow> int option) \<Rightarrow> RiskEngine \<Rightarrow> Order \<Rightarrow> RiskInputs \<Rightarrow> datetime
    \<Rightarrow> (Order option \<times> RiskBreach list) res" where
  "approve fs eng order inputs now =
     (if ks_armed (re_kill eng)
      then bindR (breach eng RC_13 BLOCK (KillSwitchArmed (ks_reason (re_kill eng))) now) (\<lambda>b. Inr (None, [b]))
      else
        bindR (check_stale_data eng (ri_last_bar inputs) (o_instrument order) now) (\<lambda>stale.
        case stale of
          Some b \<Rightarrow> Inr (None, [b])
        | None \<Rightarrow>
            if \<not> ri_market_open inputs \<and> \<not> rc_outside_rth (re_config eng)
            then bindR (breach eng RC_09 BLOCK
                   (MarketClosed (i_symbol (o_instrument order)) (i_venue (o_instrument order))) now)
                   (\<lambda>b. Inr (None, [b]))
            else
              bindR (check_artefact_freshness fs eng (ri_artefacts inputs) now) (\<lambda>(block, warn).
              let breaches = (case warn of None \<Rightarrow> [] | Some w \<Rightarrow> [w])
              in case block of
                   Some b \<Rightarrow> Inr (None, breaches @ [b])
                 | None \<Rightarrow>
                     bindR (check_price_sanity eng order (ri_reference inputs) now) (\<lambda>price.
                     case price of
                       Some b \<Rightarrow> Inr (None, breaches @ [b])
                     | None \<Rightarrow> Inr (Some order, breaches)))))"

section \<open>What an approval means\<close>

definition engine_ok :: "RiskEngine \<Rightarrow> datetime \<Rightarrow> bool" where
  "engine_ok eng now \<longleftrightarrow> re_strategy eng \<noteq> [] \<and> is_utc now"

lemma breach_ok:
  assumes "engine_ok eng now" "det \<noteq> PlainText []"
  shows "breach eng code sev det now =
    Inr \<lparr>r_strategy = re_strategy eng, r_check = code, r_severity = sev, r_detail = det, r_time = now\<rparr>"
  using assms by (simp add: breach_def mk_RiskBreach_def validated_def RiskBreach_checks_def require_utc_def engine_ok_def)

lemma breach_Inr: "breach eng code sev det now = Inr b \<Longrightarrow> r_severity b = sev \<and> r_check b = code"
  by (auto simp: breach_def mk_RiskBreach_def validated_eq_Inr)

text \<open>The conditions of the checks, in the code's terms.\<close>

definition staleness_threshold :: "RiskEngineConfig \<Rightarrow> int" where
  "staleness_threshold c = (if rc_is_intraday c then rc_staleness_intraday c else rc_staleness_daily c)"

definition data_fresh :: "RiskEngine \<Rightarrow> Bar option \<Rightarrow> datetime \<Rightarrow> bool" where
  "data_fresh eng bar now \<longleftrightarrow> (case bar of None \<Rightarrow> False
     | Some b \<Rightarrow> dt_instant now - dt_instant (b_close_time b) \<le> staleness_threshold (re_config eng) * 1000000)"

definition market_ok :: "RiskEngine \<Rightarrow> RiskInputs \<Rightarrow> bool" where
  "market_ok eng inputs \<longleftrightarrow> ri_market_open inputs \<or> rc_outside_rth (re_config eng)"

definition artefacts_fresh :: "(string \<Rightarrow> int option) \<Rightarrow> int \<Rightarrow> (string \<times> string) list \<Rightarrow> datetime \<Rightarrow> bool" where
  "artefacts_fresh fs days paths now \<longleftrightarrow>
     (\<forall>(n, p) \<in> set paths. \<exists>m. fs p = Some m \<and> dt_instant now - m < days * day_us)"

definition price_deviation :: "Order \<Rightarrow> decimal option \<Rightarrow> decimal option" where
  "price_deviation order reference = (case reference of None \<Rightarrow> None
     | Some ref \<Rightarrow> if ref \<le> dzero \<or> o_type order \<in> {MKT, ADAPTIVE_MKT} then None
        else (case o_limit order of None \<Rightarrow> None
          | Some p \<Rightarrow> (case ddiv (dabs (dsub p ref)) ref of Inl _ \<Rightarrow> None | Inr d \<Rightarrow> Some d)))"

definition price_sane :: "RiskEngine \<Rightarrow> Order \<Rightarrow> decimal option \<Rightarrow> bool" where
  "price_sane eng order reference \<longleftrightarrow> (case price_deviation order reference of None \<Rightarrow> True
     | Some d \<Rightarrow> \<not> rc_price_pct (re_config eng) < d)"

definition bar_utc :: "RiskInputs \<Rightarrow> bool" where
  "bar_utc inputs \<longleftrightarrow> (\<forall>b. ri_last_bar inputs = Some b \<longrightarrow> is_utc (b_close_time b))"

lemma scan_artefacts_missing:
  "(\<exists>np. scan_artefacts fs now old name paths = Inl np) \<longleftrightarrow> (\<exists>(n, p) \<in> set paths. fs p = None)"
  by (induction fs now old name paths rule: scan_artefacts.induct) (auto simp: Let_def split: option.splits)

lemma scan_artefacts_oldest:
  "scan_artefacts fs now old name paths = Inr (age, nm) \<Longrightarrow>
    age < bound \<longleftrightarrow> old < bound \<and> (\<forall>(n, p) \<in> set paths. \<exists>m. fs p = Some m \<and> dt_instant now - m < bound)"
proof (induction fs now old name paths rule: scan_artefacts.induct)
  case (2 fs now oldest name n path rest)
  then obtain m where m: "fs path = Some m" by (auto split: option.splits)
  show ?case
  proof (cases "oldest < dt_instant now - m")
    case True
    with "2.IH"(1) [OF m refl True] "2.prems" m show ?thesis by auto
  next
    case False
    with "2.IH"(2) [OF m refl False] "2.prems" m show ?thesis by auto
  qed
qed auto

definition artefacts_ok :: "(string \<Rightarrow> int option) \<Rightarrow> RiskEngine \<Rightarrow> RiskInputs \<Rightarrow> datetime \<Rightarrow> bool" where
  "artefacts_ok fs eng inputs now \<longleftrightarrow> ri_artefacts inputs = [] \<or>
     0 < rc_artefact_max_days (re_config eng) \<and>
     artefacts_fresh fs (rc_artefact_max_days (re_config eng)) (ri_artefacts inputs) now"

lemma check_artefact_cases:
  assumes ok: "engine_ok eng now"
  obtains block warn where
    "check_artefact_freshness fs eng paths now = Inr (block, warn)"
    "block = None \<longleftrightarrow> paths = [] \<or> 0 < rc_artefact_max_days (re_config eng) \<and>
       artefacts_fresh fs (rc_artefact_max_days (re_config eng)) paths now"
    "\<And>b. block = Some b \<Longrightarrow> warn = None \<and> r_severity b = BLOCK \<and> r_check b = RC_12"
    "\<And>b. warn = Some b \<Longrightarrow> r_severity b = WARN \<and> r_check b = RC_12"
proof (cases "paths = []")
  case True
  then show ?thesis by (intro that [of None None]) (simp_all add: check_artefact_freshness_def)
next
  case False
  let ?max = "rc_artefact_max_days (re_config eng)" and ?warn = "rc_artefact_warn_days (re_config eng)"
  let ?b = "\<lambda>sev det. \<lparr>r_strategy = re_strategy eng, r_check = RC_12, r_severity = sev, r_detail = det, r_time = now\<rparr>"
  note br = breach_ok [OF ok]
  show ?thesis
  proof (cases "scan_artefacts fs now 0 [] paths")
    case (Inl np)
    obtain n p where np: "np = (n, p)" by (cases np)
    have "\<exists>np. scan_artefacts fs now 0 [] paths = Inl np" using Inl by blast
    then have "\<not> artefacts_fresh fs ?max paths now"
      unfolding scan_artefacts_missing artefacts_fresh_def by fastforce
    with False Inl np br show ?thesis
      by (intro that [of "Some (?b BLOCK (ArtefactMissing n p))" None])
        (auto simp: check_artefact_freshness_def)
  next
    case (Inr an)
    obtain age nm where an: "an = (age, nm)" by (cases an)
    have fr: "age < ?max * day_us \<longleftrightarrow> 0 < ?max \<and> artefacts_fresh fs ?max paths now"
      using scan_artefacts_oldest [OF Inr [unfolded an], of "?max * day_us"]
      by (simp add: artefacts_fresh_def day_us_def)
    consider "?max * day_us \<le> age" | "age < ?max * day_us" "?warn * day_us \<le> age"
      | "age < ?max * day_us" "age < ?warn * day_us" by linarith
    then show ?thesis
    proof cases
      case 1
      with False Inr an br fr show ?thesis
        by (intro that [of "Some (?b BLOCK (ArtefactTooOld nm age ?max))" None])
          (auto simp: check_artefact_freshness_def)
    next
      case 2
      with False Inr an br fr show ?thesis
        by (intro that [of None "Some (?b WARN (ArtefactAgeing nm age ?warn))"])
          (auto simp: check_artefact_freshness_def)
    next
      case 3
      with False Inr an fr show ?thesis
        by (intro that [of None None]) (simp_all add: check_artefact_freshness_def)
    qed
  qed
qed

lemma check_stale_cases:
  assumes ok: "engine_ok eng now" and u: "\<forall>b. bar = Some b \<longrightarrow> is_utc (b_close_time b)"
  obtains r where "check_stale_data eng bar i now = Inr r" "r = None \<longleftrightarrow> data_fresh eng bar now"
    "\<And>b. r = Some b \<Longrightarrow> r_severity b = BLOCK \<and> r_check b = RC_08"
proof (cases bar)
  case None
  then show ?thesis using breach_ok [OF ok]
    by (intro that) (auto simp: check_stale_data_def data_fresh_def)
next
  case (Some b)
  then have d: "dt_sub now (b_close_time b) = Inr (dt_instant now - dt_instant (b_close_time b))"
    using ok u by (simp add: engine_ok_def)
  show ?thesis
  proof (cases "data_fresh eng bar now")
    case True
    with Some d show ?thesis
      by (intro that [of None]) (simp_all add: check_stale_data_def data_fresh_def staleness_threshold_def Let_def split: if_splits)
  next
    case False
    with Some d breach_ok [OF ok] show ?thesis
      by (intro that) (auto simp: check_stale_data_def data_fresh_def staleness_threshold_def Let_def split: if_splits)
  qed
qed

lemma check_price_cases:
  assumes ok: "engine_ok eng now"
  obtains r where "check_price_sanity eng order ref now = Inr r" "r = None \<longleftrightarrow> price_sane eng order ref"
    "\<And>b. r = Some b \<Longrightarrow> r_severity b = BLOCK \<and> r_check b = RC_10"
proof (cases "price_deviation order ref")
  case None
  then have "check_price_sanity eng order ref now = Inr None"
  proof (cases ref)
    case (Some v)
    show ?thesis
    proof (cases "0 < dval v")
      case True
      have "ddiv a v \<noteq> Inl e" for a e using ddiv_pos [OF True, of a] by auto
      with None Some show ?thesis
        by (auto simp: check_price_sanity_def price_deviation_def split: option.splits if_splits sum.splits)
    next
      case False
      with Some show ?thesis by (simp add: check_price_sanity_def decimal_simps)
    qed
  qed (simp add: check_price_sanity_def)
  with None show ?thesis by (intro that [of None]) (auto simp: price_sane_def)
next
  case (Some d)
  then obtain v p where v: "ref = Some v" "o_limit order = Some p" "\<not> v \<le> dzero" "o_type order \<notin> {MKT, ADAPTIVE_MKT}"
    "ddiv (dabs (dsub p v)) v = Inr d"
    by (auto simp: price_deviation_def split: option.splits if_splits sum.splits)
  let ?pct = "rc_price_pct (re_config eng)"
  let ?b = "\<lparr>r_strategy = re_strategy eng, r_check = RC_10, r_severity = BLOCK,
     r_detail = PriceSanity p (i_symbol (o_instrument order)) d v ?pct, r_time = now\<rparr>"
  have "check_price_sanity eng order ref now = Inr (if ?pct < d then Some ?b else None)"
    using v breach_ok [OF ok] by (simp add: check_price_sanity_def)
  then show ?thesis using Some
    by (intro that [of "if ?pct < d then Some ?b else None"]) (auto simp: price_sane_def split: if_splits)
qed

text \<open>The price check looks at the limit price alone, whatever the stop price is: a stop order (STP), which has no limit price,
  passes it at any stop.\<close>

lemma stop_price_unchecked:
  "check_price_sanity eng (order\<lparr>o_stop := stop\<rparr>) ref now = check_price_sanity eng order ref now \<and>
   (mk_Order order = Inr order \<and> o_type order = STP \<longrightarrow> check_price_sanity eng order ref now = Inr None)"
proof
  have "o_limit (order\<lparr>o_stop := stop\<rparr>) = o_limit order" "o_type (order\<lparr>o_stop := stop\<rparr>) = o_type order"
    "o_instrument (order\<lparr>o_stop := stop\<rparr>) = o_instrument order" by simp_all
  then show "check_price_sanity eng (order\<lparr>o_stop := stop\<rparr>) ref now = check_price_sanity eng order ref now"
    unfolding check_price_sanity_def by (simp only:)
  show "mk_Order order = Inr order \<and> o_type order = STP \<longrightarrow> check_price_sanity eng order ref now = Inr None"
    by (auto simp: check_price_sanity_def mk_Order_def validated_eq_Inr checks_ok_iff Order_checks_def needs_limit_def split: option.split)
qed

text \<open>
  The whole gate: an order passes, unchanged, exactly when no check objects; a blocked order
  comes with one blocking breach, the last of the list.
\<close>

definition gate_open :: "(string \<Rightarrow> int option) \<Rightarrow> RiskEngine \<Rightarrow> Order \<Rightarrow> RiskInputs \<Rightarrow> datetime \<Rightarrow> bool" where
  "gate_open fs eng order inputs now \<longleftrightarrow>
     \<not> ks_armed (re_kill eng) \<and> data_fresh eng (ri_last_bar inputs) now \<and> market_ok eng inputs \<and>
     artefacts_ok fs eng inputs now \<and> price_sane eng order (ri_reference inputs)"

definition is_block :: "RiskBreach \<Rightarrow> bool" where
  "is_block b \<longleftrightarrow> r_severity b = BLOCK"

lemma approve_cases:
  assumes ok: "engine_ok eng now" and u: "bar_utc inputs"
  obtains (passed) breaches where "gate_open fs eng order inputs now"
      "approve fs eng order inputs now = Inr (Some order, breaches)" "list_all (\<lambda>b. r_severity b = WARN) breaches"
    | (blocked) warns b where "\<not> gate_open fs eng order inputs now"
      "approve fs eng order inputs now = Inr (None, warns @ [b])" "is_block b" "list_all (\<lambda>b. r_severity b = WARN) warns"
proof -
  note br = breach_ok [OF ok]
  obtain st where st: "check_stale_data eng (ri_last_bar inputs) (o_instrument order) now = Inr st"
    "st = None \<longleftrightarrow> data_fresh eng (ri_last_bar inputs) now" "\<And>b. st = Some b \<Longrightarrow> r_severity b = BLOCK \<and> r_check b = RC_08"
    using u by (auto intro: check_stale_cases [OF ok, of "ri_last_bar inputs" "o_instrument order"] simp: bar_utc_def)
  obtain bl wa where art: "check_artefact_freshness fs eng (ri_artefacts inputs) now = Inr (bl, wa)"
    "bl = None \<longleftrightarrow> artefacts_ok fs eng inputs now" "\<And>b. bl = Some b \<Longrightarrow> wa = None \<and> r_severity b = BLOCK \<and> r_check b = RC_12"
    "\<And>b. wa = Some b \<Longrightarrow> r_severity b = WARN \<and> r_check b = RC_12"
    by (rule check_artefact_cases [OF ok, of fs "ri_artefacts inputs"]) (auto simp: artefacts_ok_def)
  obtain pr where pr: "check_price_sanity eng order (ri_reference inputs) now = Inr pr"
    "pr = None \<longleftrightarrow> price_sane eng order (ri_reference inputs)" "\<And>b. pr = Some b \<Longrightarrow> r_severity b = BLOCK \<and> r_check b = RC_10"
    by (rule check_price_cases [OF ok, of order "ri_reference inputs"]) blast
  let ?w = "case wa of None \<Rightarrow> [] | Some w \<Rightarrow> [w]"
  have w: "list_all (\<lambda>b. r_severity b = WARN) ?w" using art(4) by (auto split: option.splits)
  consider (kill) "ks_armed (re_kill eng)"
    | (stale) b where "\<not> ks_armed (re_kill eng)" "st = Some b"
    | (hours) "\<not> ks_armed (re_kill eng)" "st = None" "\<not> market_ok eng inputs"
    | (artefact) b where "\<not> ks_armed (re_kill eng)" "st = None" "market_ok eng inputs" "bl = Some b"
    | (price) b where "\<not> ks_armed (re_kill eng)" "st = None" "market_ok eng inputs" "bl = None" "pr = Some b"
    | (all) "\<not> ks_armed (re_kill eng)" "st = None" "market_ok eng inputs" "bl = None" "pr = None"
    by (metis option.exhaust)
  then show ?thesis
  proof cases
    case kill
    with br show ?thesis by (intro blocked [of "[]"]) (auto simp: approve_def gate_open_def is_block_def)
  next
    case stale
    with st show ?thesis by (intro blocked [of "[]" b]) (auto simp: approve_def gate_open_def is_block_def)
  next
    case hours
    with st br show ?thesis
      by (intro blocked [of "[]"]) (auto simp: approve_def gate_open_def is_block_def market_ok_def)
  next
    case artefact
    with st art w show ?thesis
      by (intro blocked [of ?w b]) (auto simp: approve_def gate_open_def is_block_def market_ok_def)
  next
    case price
    with st art pr w show ?thesis
      by (intro blocked [of ?w b]) (auto simp: approve_def gate_open_def is_block_def market_ok_def Let_def)
  next
    case all
    with st art pr w show ?thesis
      by (intro passed [of ?w]) (auto simp: approve_def gate_open_def market_ok_def Let_def)
  qed
qed

text \<open>The price band: an order within it is never blocked, one beyond a representable wider bound is.\<close>

lemma price_sane_within:
  assumes pct: "repr28 (dval (rc_price_pct (re_config eng)))" and ref: "0 < dval ref"
    and lim: "o_limit order = Some p" and ex: "repr28 (dval p - dval ref)"
    and band: "\<bar>dval p - dval ref\<bar> \<le> dval (rc_price_pct (re_config eng)) * dval ref"
  shows "price_sane eng order (Some ref)"
proof -
  obtain d where d: "ddiv (dabs (dsub p ref)) ref = Inr d" "rounded (dval (dabs (dsub p ref)) / dval ref) (dval d)"
    using ddiv_pos [OF ref] by blast
  have "dval (dabs (dsub p ref)) = \<bar>dval p - dval ref\<bar>"
    using dabs_exact_repr [OF repr28_dsub, of p ref] dsub_exact [OF ex] by simp
  then have "dval (dabs (dsub p ref)) / dval ref \<le> dval (rc_price_pct (re_config eng))"
    using band ref by (simp add: pos_divide_le_eq)
  then have "dval d \<le> dval (rc_price_pct (re_config eng))" by (rule rounded_upper [OF d(2) pct])
  with d(1) lim show ?thesis
    by (auto simp: price_sane_def price_deviation_def decimal_simps not_less split: option.splits if_splits)
qed

lemma price_sane_beyond:
  assumes y: "repr28 y" "dval (rc_price_pct (re_config eng)) < y" and ref: "0 < dval ref"
    and ty: "o_type order \<notin> {MKT, ADAPTIVE_MKT}" and lim: "o_limit order = Some p" and ex: "repr28 (dval p - dval ref)"
    and far: "y * dval ref \<le> \<bar>dval p - dval ref\<bar>"
  shows "\<not> price_sane eng order (Some ref)"
proof -
  obtain d where d: "ddiv (dabs (dsub p ref)) ref = Inr d" "rounded (dval (dabs (dsub p ref)) / dval ref) (dval d)"
    using ddiv_pos [OF ref] by blast
  have "dval (dabs (dsub p ref)) = \<bar>dval p - dval ref\<bar>"
    using dabs_exact_repr [OF repr28_dsub, of p ref] dsub_exact [OF ex] by simp
  then have "y \<le> dval (dabs (dsub p ref)) / dval ref" using far ref by (simp add: pos_le_divide_eq)
  then have "y \<le> dval d" by (rule rounded_lower [OF d(2) y(1)])
  with d(1) lim ty y(2) ref show ?thesis
    by (auto simp: price_sane_def price_deviation_def decimal_simps not_less split: option.splits if_splits)
qed

section \<open>Properties\<close>

definition ex_engine :: "bool \<Rightarrow> RiskEngine" where
  "ex_engine armed = \<lparr>re_config = default_config,
     re_kill = \<lparr>ks_armed = armed, ks_reason = (if armed then ''stop'' else [])\<rparr>, re_strategy = ''s''\<rparr>"

definition ex_order :: "OrderType \<Rightarrow> decimal option \<Rightarrow> Order" where
  "ex_order ty price = \<lparr>o_id = 1, o_strategy = ''s'', o_instrument = ex_instrument, o_side = BUY, o_quantity = dint 10,
     o_type = ty, o_tif = DAY, o_limit = price, o_stop = None, o_parent = None, o_tags = [], o_created = utc 0\<rparr>"

definition ex_bar :: Bar where
  "ex_bar = \<lparr>b_instrument = ex_instrument, b_open_time = utc 0, b_close_time = utc 60000000, b_open = dint 10,
     b_high = dint 11, b_low = dint 9, b_close = dint 10, b_volume = dint 1, b_vwap = None\<rparr>"

definition ex_inputs :: RiskInputs where
  "ex_inputs = \<lparr>ri_last_bar = Some ex_bar, ri_market_open = True, ri_artefacts = [(''m'', ''p'')],
     ri_reference = Some (dint 10)\<rparr>"

text \<open>C2: the risk gate: an order is approved exactly when the kill switch is off, the last bar is fresh,
  the market is open (or trading outside hours is allowed), every artefact is present and younger than the
  hard limit and the limit price, where the order has one, is within the band (a stop price is not looked at:
  \<open>stop_price_unchecked\<close>); an approved order is returned unchanged with at most warnings, and a refusal carries
  exactly one blocking breach, the last of the list.\<close>

theorem approve_iff_gate_open:
  assumes "engine_ok eng now" "bar_utc inputs"
  shows "(\<exists>out breaches. approve fs eng order inputs now = Inr (out, breaches) \<and>
    (gate_open fs eng order inputs now \<longleftrightarrow> out = Some order) \<and> (out = None \<or> out = Some order) \<and>
    map is_block breaches = (if out = None then replicate (length breaches - 1) False @ [True] else replicate (length breaches) False))"
proof -
  have warn: "map is_block ws = replicate (length ws) False" if "list_all (\<lambda>b. r_severity b = WARN) ws" for ws
    using that by (induction ws) (simp_all add: is_block_def)
  show ?thesis
    by (rule approve_cases [OF assms, of fs order]) (auto simp: warn)
qed

theorem approve_iff_gate_open_witness:
  "\<exists>b. approve (\<lambda>_. Some 0) (ex_engine False) (ex_order LMT (Some (dint 11))) ex_inputs (utc 120000000)
    = Inr (Some (ex_order LMT (Some (dint 11))), b)"
proof -
  have "engine_ok (ex_engine False) (utc 120000000)" by (simp add: engine_ok_def ex_engine_def)
  moreover have "bar_utc ex_inputs" by (simp add: bar_utc_def ex_inputs_def ex_bar_def)
  moreover have "gate_open (\<lambda>_. Some 0) (ex_engine False) (ex_order LMT (Some (dint 11))) ex_inputs (utc 120000000)"
  proof -
    have "price_deviation (ex_order LMT (Some (dint 11))) (Some (dint 10)) = Some (Dec 1 (-1))" by code_simp
    then show ?thesis
      by (simp add: gate_open_def ex_engine_def data_fresh_def ex_inputs_def ex_bar_def staleness_threshold_def
          default_config_def market_ok_def artefacts_ok_def artefacts_fresh_def day_us_def price_sane_def decimal_simps
          power_int_def)
  qed
  ultimately show ?thesis
    using approve_iff_gate_open [of "ex_engine False" "utc 120000000" ex_inputs "\<lambda>_. Some 0" "ex_order LMT (Some (dint 11))"]
    by auto
qed

text \<open>The kill switch dominates: once armed, every order is refused with a single RC-13 breach that
  carries the reason, whatever the data, the files and the order, until it is cleared.\<close>

theorem kill_switch_dominates:
  assumes "arm k reason = Inr k'" "re_kill eng = k'" "engine_ok eng now"
  shows "approve fs eng order inputs now = Inr (None, [\<lparr>r_strategy = re_strategy eng, r_check = RC_13,
      r_severity = BLOCK, r_detail = KillSwitchArmed reason, r_time = now\<rparr>]) \<and> \<not> ks_armed (clear k')"
proof -
  have "ks_armed (re_kill eng)" "ks_reason (re_kill eng) = reason"
    using assms(1) unfolding assms(2) by (auto simp: arm_def split: if_splits)
  then show ?thesis using breach_ok [OF assms(3), of "KillSwitchArmed reason" RC_13 BLOCK]
    by (simp add: approve_def clear_def)
qed

theorem kill_switch_dominates_witness:
  "approve (\<lambda>_. None) (ex_engine True) (ex_order MKT None) ex_inputs (utc 1) =
    Inr (None, [\<lparr>r_strategy = ''s'', r_check = RC_13, r_severity = BLOCK, r_detail = KillSwitchArmed ''stop'', r_time = utc 1\<rparr>])"
  using kill_switch_dominates [of fresh_kill_switch "''stop''" "re_kill (ex_engine True)" "ex_engine True" "utc 1" "\<lambda>_. None" "ex_order MKT None" ex_inputs]
  by (simp add: arm_def fresh_kill_switch_def ex_engine_def engine_ok_def)

text \<open>The price band: a limit order whose distance to the reference is at most the configured fraction of
  it is never blocked for its price, and one whose distance is at least a larger representable fraction always
  is: the rounding of the division cannot move an order across the band.\<close>

theorem price_band:
  assumes "repr28 (dval (rc_price_pct (re_config eng)))" "0 < dval ref" "o_limit order = Some p"
    "o_type order \<notin> {MKT, ADAPTIVE_MKT}" "repr28 (dval p - dval ref)" "engine_ok eng now"
    "repr28 y" "dval (rc_price_pct (re_config eng)) < y"
  shows "(\<bar>dval p - dval ref\<bar> \<le> dval (rc_price_pct (re_config eng)) * dval ref \<longrightarrow>
      check_price_sanity eng order (Some ref) now = Inr None) \<and>
    (y * dval ref \<le> \<bar>dval p - dval ref\<bar> \<longrightarrow>
      (\<exists>b. check_price_sanity eng order (Some ref) now = Inr (Some b) \<and> is_block b \<and> r_check b = RC_10))"
proof -
  obtain r where r: "check_price_sanity eng order (Some ref) now = Inr r" "r = None \<longleftrightarrow> price_sane eng order (Some ref)"
    "\<And>b. r = Some b \<Longrightarrow> r_severity b = BLOCK \<and> r_check b = RC_10"
    by (rule check_price_cases [OF assms(6), of order "Some ref"]) blast
  then show ?thesis
    using price_sane_within [OF assms(1-3,5)] price_sane_beyond [OF assms(7,8,2,4,3,5)]
    by (cases r) (auto simp: is_block_def)
qed

theorem price_band_witness:
  "check_price_sanity (ex_engine False) (ex_order LMT (Some (dint 11))) (Some (dint 10)) (utc 1) = Inr None"
proof -
  have r: "repr28 (of_int n)" if "\<bar>n\<bar> < 10 ^ 28" for n by (rule repr28_of_int [OF that])
  have h: "repr28 (1 / 2)" using repr28_Dec [of 5 "-1"] by (simp add: power_int_def)
  have pct: "dval (rc_price_pct (re_config (ex_engine False))) = 1 / 2" and "engine_ok (ex_engine False) (utc 1)"
    by (simp_all add: ex_engine_def default_config_def engine_ok_def power_int_def)
  moreover have "repr28 (dval (rc_price_pct (re_config (ex_engine False))))" unfolding pct by (rule h)
  ultimately show ?thesis
    using price_band [of "ex_engine False" "dint 10" "ex_order LMT (Some (dint 11))" "dint 11" "utc 1" 1] h r [of 1]
    by (simp add: ex_order_def)
qed

lemma scan_artefacts_fresh:
  assumes "scan_artefacts fs now 0 [] paths = Inr (age, nm)" "0 < days"
  shows "age < days * day_us \<longleftrightarrow> artefacts_fresh fs days paths now"
  using scan_artefacts_oldest [OF assms(1), of "days * day_us"] assms(2) by (simp add: artefacts_fresh_def day_us_def)

lemma scan_artefacts_Inl:
  assumes "scan_artefacts fs now 0 [] paths = Inl np"
  shows "\<not> artefacts_fresh fs days paths now"
  using assms scan_artefacts_missing [of fs now 0 "[]" paths] unfolding artefacts_fresh_def by fastforce

text \<open>The artefact check grades the oldest file: it blocks when a file is missing or some age reaches the
  hard limit, otherwise warns when some age reaches the warning limit, and passes silently when every file is
  younger than both; block and warning are never returned together.\<close>

theorem artefact_freshness_grades:
  assumes "engine_ok eng now" "0 < rc_artefact_warn_days (re_config eng)"
    "rc_artefact_warn_days (re_config eng) \<le> rc_artefact_max_days (re_config eng)"
  shows "\<exists>block warn. check_artefact_freshness fs eng paths now = Inr (block, warn) \<and>
    (block = None \<longleftrightarrow> artefacts_fresh fs (rc_artefact_max_days (re_config eng)) paths now) \<and>
    (block = None \<and> warn = None \<longleftrightarrow> artefacts_fresh fs (rc_artefact_warn_days (re_config eng)) paths now) \<and>
    (block = None \<or> warn = None)"
proof -
  let ?max = "rc_artefact_max_days (re_config eng)" and ?warn = "rc_artefact_warn_days (re_config eng)"
  note br = breach_ok [OF assms(1)]
  have mono: "artefacts_fresh fs ?warn paths now \<Longrightarrow> artefacts_fresh fs ?max paths now"
    using assms(3) by (fastforce simp: artefacts_fresh_def day_us_def)
  show ?thesis
  proof (cases "paths = []")
    case True
    then show ?thesis by (simp add: check_artefact_freshness_def artefacts_fresh_def)
  next
    case False
    show ?thesis
    proof (cases "scan_artefacts fs now 0 [] paths")
      case (Inl np)
      with False br scan_artefacts_Inl [OF Inl] show ?thesis
        by (cases np) (simp add: check_artefact_freshness_def)
    next
      case (Inr an)
      obtain age nm where an: "an = (age, nm)" by (cases an)
      have "age < ?max * day_us \<longleftrightarrow> artefacts_fresh fs ?max paths now" "age < ?warn * day_us \<longleftrightarrow> artefacts_fresh fs ?warn paths now"
        using scan_artefacts_fresh [OF Inr [unfolded an]] assms(2,3) by simp_all
      with False Inr an br mono show ?thesis
        by (auto simp: check_artefact_freshness_def not_le not_less)
    qed
  qed
qed

theorem artefact_freshness_grades_witness:
  "\<exists>block warn. check_artefact_freshness (\<lambda>_. Some 0) (ex_engine False) [(''m'', ''p'')] (utc (25 * 86400000000)) = Inr (block, warn) \<and>
    block = None \<and> warn \<noteq> None"
  using artefact_freshness_grades [of "ex_engine False" "utc (25 * 86400000000)" "\<lambda>_. Some 0" "[(''m'', ''p'')]"]
  by (auto simp: ex_engine_def engine_ok_def default_config_def artefacts_fresh_def day_us_def)

end
