(* ===== verification/StrategyConfig.thy ===== *)
theory StrategyConfig
  imports RiskChecks
begin

text \<open>
  \<open>src/blive/strategy/config.py\<close>: the models of a strategy's YAML file, field by field, with their
  validators; and \<open>_risk_config_from_live\<close> of \<open>src/blive/runtime/paper_pipeline.py\<close>.  Parsing the
  YAML and coercing its scalars to the declared types is done by pydantic; the records here are the values it hands
  to the validators.  Pydantic runs the validators of the fields in the order of their declaration and then those of
  the model, and collects what they raise in one \<open>ValidationError\<close>; the model keeps the first.
\<close>

section \<open>The models\<close>

definition NAV_SLICE_HARD_CAP :: decimal where
  "NAV_SLICE_HARD_CAP = Dec 10 (-2)"

definition M4_RC_OVERRIDE_KEYS :: "string list" where
  "M4_RC_OVERRIDE_KEYS =
     [''max_gross_leverage'', ''target_net_exposure_tolerance'', ''max_abs_weight_per_name'', ''max_daily_loss_warn'',
      ''max_daily_loss_kill'', ''max_orders_per_sec_strategy'', ''max_orders_per_min_strategy'',
      ''max_orders_per_sec_global'', ''max_single_name_notional_pct'', ''max_price_deviation_pct'', ''drawdown_policy'']"

datatype Routing = SMART | PRIMARY | DIRECT

record LiveOverrides =
  lo_time_in_force :: "TimeInForce option"
  lo_routing :: "Routing option"
  lo_direct_venue :: "string option"
  lo_ib_algo :: "string option"
  lo_ib_algo_params :: "(string \<times> string) list"
  lo_outside_rth :: bool

definition IB_ALGOS :: "string list" where
  "IB_ALGOS = [''Adaptive'', ''TWAP'', ''VWAP'', ''Arrival Price'', ''Percentage of Volume'']"

definition LiveOverrides_checks :: "LiveOverrides \<Rightarrow> (bool \<times> exn) list" where
  "LiveOverrides_checks lo =
     [(case lo_ib_algo lo of None \<Rightarrow> False | Some a \<Rightarrow> a \<notin> set IB_ALGOS, ValueError ''LiveOverrides.ib_algo''),
      (lo_routing lo = Some DIRECT \<and> (lo_direct_venue lo = None \<or> lo_direct_venue lo = Some []),
         ValueError ''LiveOverrides.direct_venue required when routing == DIRECT''),
      (lo_direct_venue lo \<noteq> None \<and> lo_routing lo \<noteq> Some DIRECT,
         ValueError ''LiveOverrides.direct_venue only valid when routing == DIRECT''),
      (case lo_direct_venue lo of None \<Rightarrow> False | Some v \<Rightarrow> \<not> py_isupper v,
         ValueError ''LiveOverrides.direct_venue must be uppercase MIC'')]"

datatype provider_kind = IB_PROVIDER | STATIC_PROVIDER

record LiveBorrowProvider =
  bp_kind :: provider_kind
  bp_default_rate :: "decimal option"
  bp_cache_ttl :: int

definition LiveBorrowProvider_checks :: "LiveBorrowProvider \<Rightarrow> (bool \<times> exn) list" where
  "LiveBorrowProvider_checks p =
     [(bp_cache_ttl p < 0, ValueError ''LiveBorrowProvider.cache_ttl_seconds must be >= 0''),
      (bp_kind p = STATIC_PROVIDER \<and> bp_default_rate p = None,
         ValueError ''LiveBorrowProvider.default_annual_rate required when kind == static'')]"

datatype rate_curve = ESTER | SOFR | STATIC_CURVE

record LiveFinancingProvider =
  fp_kind :: provider_kind
  fp_base_curve :: "rate_curve option"
  fp_spread_bps :: decimal

definition LiveFinancingProvider_checks :: "LiveFinancingProvider \<Rightarrow> (bool \<times> exn) list" where
  "LiveFinancingProvider_checks p =
     [(fp_spread_bps p < dzero, ValueError ''LiveFinancingProvider.spread_bps must be >= 0'')]"

record LiveKillSwitch =
  lk_drawdown_bps :: "decimal option"
  lk_rejects :: "int option"
  lk_reject_window :: int
  lk_position_age :: "int option"

definition some_below_1 :: "int option \<Rightarrow> bool" where
  "some_below_1 v \<longleftrightarrow> (case v of None \<Rightarrow> False | Some k \<Rightarrow> k < 1)"

definition LiveKillSwitch_checks :: "LiveKillSwitch \<Rightarrow> (bool \<times> exn) list" where
  "LiveKillSwitch_checks k =
     [(some_nonpos (lk_drawdown_bps k), ValueError ''LiveKillSwitch.max_intraday_drawdown_bps must be > 0 when set''),
      (some_below_1 (lk_rejects k), ValueError ''LiveKillSwitch.max_consecutive_rejects must be >= 1 when set''),
      (lk_reject_window k < 1, ValueError ''LiveKillSwitch.max_consecutive_reject_window_seconds must be >= 1''),
      (some_below_1 (lk_position_age k), ValueError ''LiveKillSwitch.max_position_age_days must be >= 1 when set'')]"

text \<open>\<open>ArtefactPaths\<close>: the factor names with their paths; \<open>expanduser\<close> is the path library's.\<close>

definition expand_user :: "(string \<Rightarrow> string) \<Rightarrow> (string \<times> string) list \<Rightarrow> (string \<times> string) list" where
  "expand_user expanduser v = map (\<lambda>(k, p). (k, expanduser p)) v"

record RiskOverrides =
  ro_staleness_intraday :: int
  ro_staleness_daily :: int
  ro_outside_rth :: bool
  ro_artefact_max_days :: int
  ro_artefact_warn_days :: int
  ro_extra :: "string list"

definition default_overrides :: RiskOverrides where
  "default_overrides = \<lparr>ro_staleness_intraday = 300, ro_staleness_daily = 86400, ro_outside_rth = False,
     ro_artefact_max_days = 30, ro_artefact_warn_days = 21, ro_extra = []\<rparr>"

definition RiskOverrides_checks :: "RiskOverrides \<Rightarrow> (bool \<times> exn) list" where
  "RiskOverrides_checks r =
     [(ro_staleness_intraday r \<le> 0, ValueError ''RiskOverrides.max_data_staleness_intraday_sec must be > 0''),
      (ro_staleness_daily r \<le> 0, ValueError ''RiskOverrides.max_data_staleness_daily_sec must be > 0''),
      (ro_artefact_max_days r < 1, ValueError ''RiskOverrides.max_model_artefact_age_days must be >= 1''),
      (ro_artefact_warn_days r < 1, ValueError ''RiskOverrides.model_artefact_warning_age_days must be >= 1''),
      (ro_artefact_max_days r \<le> ro_artefact_warn_days r,
         ValueError ''RiskOverrides.model_artefact_warning_age_days must be < max_model_artefact_age_days'')]
     @ map (\<lambda>key. (key \<notin> set M4_RC_OVERRIDE_KEYS, ValueError ''RiskOverrides: unknown key'')) (ro_extra r)"

datatype broker_kind = PAPER_BROKER | IG_BROKER | IB_BROKER

record LiveStrategyConfig =
  lc_strategy_id :: string
  lc_strategy_module :: string
  lc_kwargs :: "(string \<times> string) list"
  lc_nav_slice :: decimal
  lc_broker :: broker_kind
  lc_overrides :: LiveOverrides
  lc_borrow :: "LiveBorrowProvider option"
  lc_financing :: "LiveFinancingProvider option"
  lc_kill_switch :: "LiveKillSwitch option"
  lc_artefact_paths :: "(string \<times> string) list"
  lc_risk_overrides :: RiskOverrides

section \<open>Identifiers\<close>

definition c_alnum :: "char \<Rightarrow> bool" where
  "c_alnum c \<longleftrightarrow> c_alpha c \<or> c_digit c"

definition py_isidentifier :: "string \<Rightarrow> bool" where
  "py_isidentifier s \<longleftrightarrow> (case s of [] \<Rightarrow> False
     | c # cs \<Rightarrow> (c_alpha c \<or> c = CHR ''_'') \<and> list_all (\<lambda>c. c_alnum c \<or> c = CHR ''_'') cs)"

fun py_split :: "char \<Rightarrow> string \<Rightarrow> string list" where
  "py_split sep [] = [[]]"
| "py_split sep (c # cs) =
     (if c = sep then [] # py_split sep cs
      else case py_split sep cs of [] \<Rightarrow> [[c]] | w # ws \<Rightarrow> (c # w) # ws)"

definition strategy_id_ok :: "string \<Rightarrow> bool" where
  "strategy_id_ok v \<longleftrightarrow> v \<noteq> [] \<and> list_all (\<lambda>c. c_alnum c \<or> c = CHR ''_'') v \<and> py_islower v"

definition module_checks :: "string \<Rightarrow> (bool \<times> exn) list" where
  "module_checks v =
     (v = [] \<or> CHR '' '' \<in> set v \<or> take 1 v = ''.'' \<or> v \<noteq> [] \<and> last v = CHR ''.'',
        ValueError ''LiveStrategyConfig.strategy_module must be a dotted path'')
     # map (\<lambda>part. (\<not> py_isidentifier part, ValueError ''LiveStrategyConfig.strategy_module part is not a valid identifier''))
         (py_split CHR ''.'' v)"

definition opt_checks :: "('a \<Rightarrow> (bool \<times> exn) list) \<Rightarrow> 'a option \<Rightarrow> (bool \<times> exn) list" where
  "opt_checks f x = (case x of None \<Rightarrow> [] | Some v \<Rightarrow> f v)"

definition LiveStrategyConfig_checks :: "LiveStrategyConfig \<Rightarrow> (bool \<times> exn) list" where
  "LiveStrategyConfig_checks c =
     [(\<not> strategy_id_ok (lc_strategy_id c), ValueError ''LiveStrategyConfig.strategy_id must be non-empty lowercase [a-z0-9_]+'')]
     @ module_checks (lc_strategy_module c)
     @ [(lc_nav_slice c \<le> dzero, ValueError ''LiveStrategyConfig.nav_slice must be > 0''),
        (NAV_SLICE_HARD_CAP < lc_nav_slice c, ValueError ''LiveStrategyConfig.nav_slice exceeds Phase 1 hard cap'')]
     @ LiveOverrides_checks (lc_overrides c)
     @ opt_checks LiveBorrowProvider_checks (lc_borrow c)
     @ opt_checks LiveFinancingProvider_checks (lc_financing c)
     @ opt_checks LiveKillSwitch_checks (lc_kill_switch c)
     @ RiskOverrides_checks (lc_risk_overrides c)"

definition mk_LiveStrategyConfig :: "LiveStrategyConfig \<Rightarrow> LiveStrategyConfig res" where
  "mk_LiveStrategyConfig = validated LiveStrategyConfig_checks"

section \<open>The risk engine of a strategy\<close>

text \<open>\<open>max_price_deviation_pct\<close> is not passed on: the engine keeps its default.\<close>

definition risk_config_from_live :: "LiveStrategyConfig \<Rightarrow> RiskEngineConfig" where
  "risk_config_from_live live =
     (let overrides = lc_risk_overrides live
      in default_config\<lparr>rc_staleness_intraday := ro_staleness_intraday overrides,
           rc_staleness_daily := ro_staleness_daily overrides, rc_outside_rth := ro_outside_rth overrides,
           rc_artefact_max_days := ro_artefact_max_days overrides,
           rc_artefact_warn_days := ro_artefact_warn_days overrides, rc_is_intraday := False\<rparr>)"

section \<open>What an accepted configuration promises\<close>

lemma config_checks_pass:
  assumes "mk_LiveStrategyConfig c = Inr cfg"
  shows "cfg = c" "checks (LiveStrategyConfig_checks c) = Inr ()"
  using assms by (simp_all add: mk_LiveStrategyConfig_def validated_eq_Inr)

lemma accepted_nav_slice:
  assumes "mk_LiveStrategyConfig c = Inr cfg"
  shows "0 < dval (lc_nav_slice cfg)" "dval (lc_nav_slice cfg) \<le> 1 / 10"
proof -
  have all: "\<forall>(b, e) \<in> set (LiveStrategyConfig_checks c). \<not> b"
    using config_checks_pass(2) [OF assms] by (simp only: checks_ok_iff)
  have "(lc_nav_slice c \<le> dzero, ValueError ''LiveStrategyConfig.nav_slice must be > 0'') \<in> set (LiveStrategyConfig_checks c)"
    "(NAV_SLICE_HARD_CAP < lc_nav_slice c, ValueError ''LiveStrategyConfig.nav_slice exceeds Phase 1 hard cap'') \<in>
       set (LiveStrategyConfig_checks c)"
    by (simp_all add: LiveStrategyConfig_checks_def)
  with all have "\<not> lc_nav_slice c \<le> dzero" "\<not> NAV_SLICE_HARD_CAP < lc_nav_slice c" by blast+
  then show "0 < dval (lc_nav_slice cfg)" "dval (lc_nav_slice cfg) \<le> 1 / 10"
    using config_checks_pass(1) [OF assms] by (simp_all add: decimal_simps NAV_SLICE_HARD_CAP_def power_int_def power2_eq_square not_le not_less)
qed

lemma accepted_overrides:
  assumes "mk_LiveStrategyConfig c = Inr cfg"
  shows "checks (RiskOverrides_checks (lc_risk_overrides cfg)) = Inr ()"
proof -
  have "\<forall>(b, e) \<in> set (LiveStrategyConfig_checks c). \<not> b"
    using config_checks_pass(2) [OF assms] by (simp only: checks_ok_iff)
  moreover have "set (RiskOverrides_checks (lc_risk_overrides c)) \<subseteq> set (LiveStrategyConfig_checks c)"
    unfolding LiveStrategyConfig_checks_def by auto
  ultimately show ?thesis
    unfolding checks_ok_iff config_checks_pass(1) [OF assms] by blast
qed

text \<open>Rounding to 28 digits enlarges a magnitude by less than one part in ten to the 27.\<close>

lemma rounded_grows:
  assumes "rounded x r"
  shows "\<bar>r\<bar> \<le> (1 + 1 / 10 ^ 27) * \<bar>x\<bar>"
proof -
  have "\<bar>r\<bar> - \<bar>x\<bar> \<le> \<bar>r - x\<bar>" by (rule abs_triangle_ineq2)
  moreover have "\<bar>r - x\<bar> \<le> 1 / (2 * 10 ^ 27) * \<bar>x\<bar>" using rounded_error [OF assms] by simp
  ultimately have "\<bar>r\<bar> \<le> \<bar>x\<bar> + 1 / (2 * 10 ^ 27) * \<bar>x\<bar>" by linarith
  moreover have "1 / (2 * 10 ^ 27) * \<bar>x\<bar> \<le> 1 / 10 ^ 27 * \<bar>x\<bar>" by (rule mult_right_mono) simp_all
  ultimately show ?thesis by (simp only: distrib_right mult_1_left)
qed

lemma capped_notional:
  assumes w: "\<bar>dval w\<bar> \<le> 1" and pr: "0 < dval pr" and eq: "0 < dval equity" and ns: "0 < dval ns" "dval ns \<le> 1 / 10"
    and d: "desired_signed_qty (dmul equity ns) w pr = Inr d"
  shows "\<bar>dval d\<bar> * dval pr \<le> (1 + 1 / 10 ^ 26) * (dval equity / 10)"
proof (cases "dval w = 0")
  case True
  with d have "d = dzero" by (simp add: desired_signed_qty_def decimal_simps)
  with eq show ?thesis by simp
next
  case False
  let ?k = "1 + 1 / 10 ^ 27 :: rat"
  have "ddiv (dmul (dmul equity ns) w) pr = Inr d"
    using d False by (simp add: desired_signed_qty_def decimal_simps)
  then have q: "rounded (dval (dmul (dmul equity ns) w) / dval pr) (dval d)" by (rule ddiv_Inr_rounded)
  have c: "\<bar>dval (dmul equity ns)\<bar> \<le> ?k * (dval equity / 10)"
  proof -
    have "\<bar>dval (dmul equity ns)\<bar> \<le> ?k * \<bar>dval equity * dval ns\<bar>" by (rule rounded_grows [OF dmul_rounded])
    also have "\<bar>dval equity * dval ns\<bar> \<le> dval equity * (1 / 10)"
      using eq ns by (simp add: abs_mult)
    finally show ?thesis by simp
  qed
  have "\<bar>dval (dmul (dmul equity ns) w)\<bar> \<le> ?k * \<bar>dval (dmul equity ns) * dval w\<bar>" by (rule rounded_grows [OF dmul_rounded])
  also have "\<bar>dval (dmul equity ns) * dval w\<bar> \<le> \<bar>dval (dmul equity ns)\<bar> * 1"
    unfolding abs_mult by (rule mult_left_mono [OF w]) simp
  also have "?k * (\<bar>dval (dmul equity ns)\<bar> * 1) \<le> ?k * (?k * (dval equity / 10))" using c by simp
  finally have e: "\<bar>dval (dmul (dmul equity ns) w)\<bar> \<le> ?k * (?k * (dval equity / 10))" by simp
  have "\<bar>dval d\<bar> \<le> ?k * (\<bar>dval (dmul (dmul equity ns) w)\<bar> / dval pr)"
    using rounded_grows [OF q] pr by (simp add: abs_divide)
  then have "\<bar>dval d\<bar> * dval pr \<le> ?k * \<bar>dval (dmul (dmul equity ns) w)\<bar>"
    using pr by (simp add: field_simps)
  also have "\<dots> \<le> ?k * (?k * (?k * (dval equity / 10)))" using e by simp
  also have "\<dots> = (?k * ?k * ?k) * (dval equity / 10)" by simp
  also have "\<dots> \<le> (1 + 1 / 10 ^ 26) * (dval equity / 10)" using eq by (intro mult_right_mono) simp_all
  finally show ?thesis .
qed

lemma accepted_thresholds:
  assumes "mk_LiveStrategyConfig c = Inr cfg"
  shows "0 < rc_staleness_daily (risk_config_from_live cfg)" "1 \<le> rc_artefact_warn_days (risk_config_from_live cfg)"
    "rc_artefact_warn_days (risk_config_from_live cfg) < rc_artefact_max_days (risk_config_from_live cfg)"
    "rc_price_pct (risk_config_from_live cfg) = Dec 5 (-1)"
  using accepted_overrides [OF assms]
  by (auto simp: risk_config_from_live_def Let_def RiskOverrides_checks_def default_config_def not_le split: if_splits)

section \<open>Properties\<close>

text \<open>C18: the cap on a strategy's share of the account holds for its orders: under an accepted configuration
  every order the sizer emits from flat positions is worth at most a tenth of the equity, up to the rounding of the
  decimals (one part in ten to the 26).\<close>

theorem nav_cap:
  assumes cfg: "mk_LiveStrategyConfig c = Inr cfg" and os: "size_orders inp uuids = Inr os"
    and inp: "s_nav_slice inp = lc_nav_slice cfg" "s_strategy inp \<noteq> []" "is_utc (s_now inp)"
    and flat: "\<forall>(key, w) \<in> set (s_targets inp). dval (current_qty inp key) = 0"
    and r: "r \<in> set os"
  shows "\<exists>pr. s_price inp (o_instrument r) = Inr pr \<and>
    dval (o_quantity r) * dval pr \<le> (1 + 1 / 10 ^ 26) * (dval (s_equity inp) / 10)"
proof -
  let ?cap = "dmul (s_equity inp) (s_nav_slice inp)"
  note so = size_orders_Inr [OF os]
  obtain key w k where kw: "(key, w) \<in> set (s_targets inp)" "size_one inp ?cap (key, w) (uuids k) = Inr (Some r)"
    using size_loop_orders [OF so(1) r] by (metis surj_pair)
  obtain i pr d where h: "s_resolver inp key = Inr i" "s_price inp i = Inr pr" "desired_signed_qty ?cap w pr = Inr d"
      "\<bar>order_qty r\<bar> \<le> \<bar>dval (dsub d (current_qty inp key))\<bar>" "sized_order_shape inp r" "o_instrument r = i"
    using size_one_residual [OF kw(2) inp(2,3)] by (auto simp: opt_order_qty_def)
  have w: "\<bar>dval w\<bar> \<le> 1" and pr: "0 < dval pr"
    by (rule size_one_Inr [OF kw(2)], simp add: abs_le_iff) (rule size_one_Inr [OF kw(2)], use h(1,2) in auto)
  have "repr28 (dval d)"
    using h(3) ddiv_Inr_rounded [of "dmul ?cap w" pr d]
    by (auto simp: desired_signed_qty_def rounded_def split: if_splits)
  then have "dval (dsub d (current_qty inp key)) = dval d"
    using flat kw(1) by (auto simp: dsub_exact)
  with h(4,5) have q: "dval (o_quantity r) \<le> \<bar>dval d\<bar>"
    by (auto simp: order_qty_def split: if_splits)
  have "\<bar>dval d\<bar> * dval pr \<le> (1 + 1 / 10 ^ 26) * (dval (s_equity inp) / 10)"
    by (rule capped_notional [OF w pr so(2) so(3) _ h(3)]) (use accepted_nav_slice(2) [OF cfg] inp(1) in simp)
  moreover have "dval (o_quantity r) * dval pr \<le> \<bar>dval d\<bar> * dval pr" using q pr by (intro mult_right_mono) simp_all
  ultimately show ?thesis using h(2,6) by (intro exI [of _ pr]) simp
qed

definition ex_live_config :: LiveStrategyConfig where
  "ex_live_config = \<lparr>lc_strategy_id = ''lev_sma'', lc_strategy_module = ''blive.strategies.lev'', lc_kwargs = [],
     lc_nav_slice = Dec 1 (-1), lc_broker = PAPER_BROKER,
     lc_overrides = \<lparr>lo_time_in_force = None, lo_routing = Some SMART, lo_direct_venue = None, lo_ib_algo = None,
       lo_ib_algo_params = [], lo_outside_rth = False\<rparr>,
     lc_borrow = None, lc_financing = None, lc_kill_switch = None, lc_artefact_paths = [],
     lc_risk_overrides = default_overrides\<lparr>ro_extra := [''max_price_deviation_pct'']\<rparr>\<rparr>"

lemma ex_live_config_ok: "mk_LiveStrategyConfig ex_live_config = Inr ex_live_config"
proof -
  have "strategy_id_ok ''lev_sma''" by code_simp
  moreover have "checks (module_checks ''blive.strategies.lev'') = Inr ()" by code_simp
  ultimately have "checks (LiveStrategyConfig_checks ex_live_config) = Inr ()"
    by (simp add: LiveStrategyConfig_checks_def ex_live_config_def LiveOverrides_checks_def opt_checks_def
        RiskOverrides_checks_def default_overrides_def M4_RC_OVERRIDE_KEYS_def decimal_simps NAV_SLICE_HARD_CAP_def
        power_int_def power2_eq_square)
  then show ?thesis by (simp add: mk_LiveStrategyConfig_def validated_ok)
qed

theorem nav_cap_witness:
  "\<exists>os. size_orders (ex_sizer [(''SPY'', dint 1), (''QQQ'', dint 1)] (\<lambda>_. None)) (\<lambda>n. n) = Inr os \<and>
     (\<forall>r \<in> set os. dval (o_quantity r) * 30 \<le> (1 + 1 / 10 ^ 26) * 10000)"
proof -
  obtain os where os: "size_orders (ex_sizer [(''SPY'', dint 1), (''QQQ'', dint 1)] (\<lambda>_. None)) (\<lambda>n. n) = Inr os"
    by (rule ex_sized)
  have "dval (o_quantity r) * 30 \<le> (1 + 1 / 10 ^ 26) * 10000" if "r \<in> set os" for r
    using nav_cap [OF ex_live_config_ok os _ _ _ _ that] by (simp add: ex_live_config_def current_qty_def)
  with os show ?thesis by blast
qed

end
