(* ===== verification/OrderFsm.thy ===== *)
theory OrderFsm
  imports DomainEvents
begin

text \<open>
  \<open>src/blive/domain/order_fsm.py\<close>: the transition table, \<open>transition\<close> and
  \<open>is_terminal\<close>.  Beside the code: the runs of the machine over a list of triggers, the
  observer \<open>kind_step\<close> that sees only the emitted event kinds, and the locale
  \<open>order_emitter\<close>, the contract a broker has to meet for the events it publishes about one
  order to be a run of this machine.
\<close>

section \<open>The machine\<close>

datatype Trigger =
    SUBMIT_CALL | WIRE_ACK | WIRE_REJECT | ACCEPT | REJECT | PARTIAL_FILL | FILL | CANCEL | EXPIRE

datatype fsm_error = IllegalTransition OrderState Trigger | EventError exn

fun TRANSITIONS :: "OrderState \<Rightarrow> Trigger \<Rightarrow> (OrderState \<times> OrderEventKind option) option" where
  "TRANSITIONS INITIALIZED SUBMIT_CALL = Some (SUBMIT_PENDING, None)"
| "TRANSITIONS SUBMIT_PENDING WIRE_ACK = Some (SUBMITTED, Some EV_SUBMITTED)"
| "TRANSITIONS SUBMIT_PENDING WIRE_REJECT = Some (REJECTED, Some EV_REJECTED)"
| "TRANSITIONS SUBMITTED ACCEPT = Some (ACCEPTED, Some EV_ACCEPTED)"
| "TRANSITIONS SUBMITTED REJECT = Some (REJECTED, Some EV_REJECTED)"
| "TRANSITIONS SUBMITTED CANCEL = Some (CANCELED, Some EV_CANCELED)"
| "TRANSITIONS ACCEPTED PARTIAL_FILL = Some (PARTIALLY_FILLED, Some EV_PARTIAL_FILL)"
| "TRANSITIONS ACCEPTED FILL = Some (FILLED, Some EV_FILLED)"
| "TRANSITIONS ACCEPTED CANCEL = Some (CANCELED, Some EV_CANCELED)"
| "TRANSITIONS ACCEPTED EXPIRE = Some (EXPIRED, Some EV_EXPIRED)"
| "TRANSITIONS PARTIALLY_FILLED PARTIAL_FILL = Some (PARTIALLY_FILLED, Some EV_PARTIAL_FILL)"
| "TRANSITIONS PARTIALLY_FILLED FILL = Some (FILLED, Some EV_FILLED)"
| "TRANSITIONS PARTIALLY_FILLED CANCEL = Some (CANCELED, Some EV_CANCELED)"
| "TRANSITIONS PARTIALLY_FILLED EXPIRE = Some (EXPIRED, Some EV_EXPIRED)"
| "TRANSITIONS _ _ = None"

definition transition ::
  "OrderState \<Rightarrow> Trigger \<Rightarrow> uuid \<Rightarrow> datetime \<Rightarrow> string option \<Rightarrow> Fill option \<Rightarrow> string option
    \<Rightarrow> fsm_error + (OrderState \<times> OrderEvent option)" where
  "transition state trigger client_order_id time_utc venue_order_id fill reason =
     (case TRANSITIONS state trigger of
        None \<Rightarrow> Inl (IllegalTransition state trigger)
      | Some (new_state, None) \<Rightarrow> Inr (new_state, None)
      | Some (new_state, Some event_kind) \<Rightarrow>
          (case mk_OrderEvent \<lparr>e_order = client_order_id, e_venue_order = venue_order_id, e_kind = event_kind,
                              e_reason = reason, e_time = time_utc, e_fill = fill\<rparr> of
             Inl e \<Rightarrow> Inl (EventError e)
           | Inr event \<Rightarrow> Inr (new_state, Some event)))"

definition is_terminal :: "OrderState \<Rightarrow> bool" where
  "is_terminal state \<longleftrightarrow> state \<in> TERMINAL_ORDER_STATES"

lemma TRANSITIONS_None_iff_terminal: "(\<forall>t. TRANSITIONS s t = None) \<longleftrightarrow> is_terminal s"
proof
  assume "is_terminal s"
  then show "\<forall>t. TRANSITIONS s t = None" by (auto simp: is_terminal_def TERMINAL_ORDER_STATES_def)
next
  assume none: "\<forall>t. TRANSITIONS s t = None"
  show "is_terminal s"
    using none [rule_format, of SUBMIT_CALL] none [rule_format, of WIRE_ACK]
      none [rule_format, of ACCEPT] none [rule_format, of FILL]
    by (cases s) (simp_all add: is_terminal_def TERMINAL_ORDER_STATES_def)
qed

fun_cases TRANSITIONS_SomeE: "TRANSITIONS s t = Some r"

section \<open>The observer of emitted kinds\<close>

text \<open>\<open>kind_step s k\<close> is the state after an event of kind \<open>k\<close> is seen in state \<open>s\<close>.\<close>

fun kind_step :: "OrderState \<Rightarrow> OrderEventKind \<Rightarrow> OrderState option" where
  "kind_step SUBMIT_PENDING EV_SUBMITTED = Some SUBMITTED"
| "kind_step SUBMIT_PENDING EV_REJECTED = Some REJECTED"
| "kind_step SUBMITTED EV_ACCEPTED = Some ACCEPTED"
| "kind_step SUBMITTED EV_REJECTED = Some REJECTED"
| "kind_step SUBMITTED EV_CANCELED = Some CANCELED"
| "kind_step ACCEPTED EV_PARTIAL_FILL = Some PARTIALLY_FILLED"
| "kind_step ACCEPTED EV_FILLED = Some FILLED"
| "kind_step ACCEPTED EV_CANCELED = Some CANCELED"
| "kind_step ACCEPTED EV_EXPIRED = Some EXPIRED"
| "kind_step PARTIALLY_FILLED EV_PARTIAL_FILL = Some PARTIALLY_FILLED"
| "kind_step PARTIALLY_FILLED EV_FILLED = Some FILLED"
| "kind_step PARTIALLY_FILLED EV_CANCELED = Some CANCELED"
| "kind_step PARTIALLY_FILLED EV_EXPIRED = Some EXPIRED"
| "kind_step _ _ = None"

fun kinds_run :: "OrderState \<Rightarrow> OrderEventKind list \<Rightarrow> OrderState option" where
  "kinds_run s [] = Some s"
| "kinds_run s (k # ks) = (case kind_step s k of None \<Rightarrow> None | Some s' \<Rightarrow> kinds_run s' ks)"

lemma kinds_run_append:
  "kinds_run s (ks @ ks') = (case kinds_run s ks of None \<Rightarrow> None | Some s' \<Rightarrow> kinds_run s' ks')"
  by (induction s ks rule: kinds_run.induct) (auto split: option.splits)

text \<open>A run of the machine over the triggers it is given; None when one is illegal.\<close>

fun fsm_run :: "OrderState \<Rightarrow> Trigger list \<Rightarrow> (OrderState \<times> OrderEventKind list) option" where
  "fsm_run s [] = Some (s, [])"
| "fsm_run s (t # ts) =
     (case TRANSITIONS s t of
        None \<Rightarrow> None
      | Some (s', k) \<Rightarrow>
          (case fsm_run s' ts of
             None \<Rightarrow> None
           | Some (s'', ks) \<Rightarrow> Some (s'', (case k of None \<Rightarrow> ks | Some k' \<Rightarrow> k' # ks))))"

lemma TRANSITIONS_kind_step: "TRANSITIONS s t = Some (s', Some k) \<Longrightarrow> kind_step s k = Some s'"
  by (erule TRANSITIONS_SomeE) auto

lemma kind_step_TRANSITIONS: "kind_step s k = Some s' \<Longrightarrow> \<exists>t. TRANSITIONS s t = Some (s', Some k)"
  by (erule kind_step.elims) (auto intro: TRANSITIONS.simps)

lemma TRANSITIONS_silent: "TRANSITIONS s t = Some (s', None) \<longleftrightarrow> s = INITIALIZED \<and> t = SUBMIT_CALL \<and> s' = SUBMIT_PENDING"
  by (auto elim: TRANSITIONS_SomeE)

lemma TRANSITIONS_to_INITIALIZED: "TRANSITIONS s t \<noteq> Some (INITIALIZED, k)"
  by (auto elim: TRANSITIONS_SomeE)

lemma fsm_run_kinds:
  "fsm_run s ts = Some (s', ks) \<Longrightarrow> s \<noteq> INITIALIZED \<Longrightarrow> kinds_run s ks = Some s'"
proof (induction s ts arbitrary: s' ks rule: fsm_run.induct)
  case (2 s t ts)
  then obtain s1 k1 ks1 where step: "TRANSITIONS s t = Some (s1, k1)" and run: "fsm_run s1 ts = Some (s', ks1)"
    and ks: "ks = (case k1 of None \<Rightarrow> ks1 | Some k \<Rightarrow> k # ks1)"
    by (auto split: option.splits prod.splits)
  from step \<open>s \<noteq> INITIALIZED\<close> obtain k where k: "k1 = Some k" by (cases k1) (auto simp: TRANSITIONS_silent)
  have "s1 \<noteq> INITIALIZED" using step TRANSITIONS_to_INITIALIZED by auto
  with "2.IH" [OF step] run have "kinds_run s1 ks1 = Some s'" by simp
  with TRANSITIONS_kind_step [of s t s1 k] step k ks show ?case by simp
qed simp

lemma kinds_fsm_run: "kinds_run s ks = Some s' \<Longrightarrow> \<exists>ts. fsm_run s ts = Some (s', ks)"
proof (induction s ks arbitrary: s' rule: kinds_run.induct)
  case (1 s)
  then show ?case by (auto intro: exI [of _ "[]"])
next
  case (2 s k ks)
  then obtain s1 where s1: "kind_step s k = Some s1" "kinds_run s1 ks = Some s'" by (auto split: option.splits)
  then obtain t ts where "TRANSITIONS s t = Some (s1, Some k)" "fsm_run s1 ts = Some (s', ks)"
    using 2 kind_step_TRANSITIONS by blast
  then show ?case by (intro exI [of _ "t # ts"]) simp
qed

definition terminal_kind :: "OrderEventKind \<Rightarrow> bool" where
  "terminal_kind k \<longleftrightarrow> k \<in> {EV_FILLED, EV_CANCELED, EV_REJECTED, EV_EXPIRED}"

lemma kind_step_terminal: "kind_step s k = Some s' \<Longrightarrow> is_terminal s' \<longleftrightarrow> terminal_kind k"
  by (erule kind_step.elims) (simp_all add: is_terminal_def TERMINAL_ORDER_STATES_def terminal_kind_def)

lemma kind_step_from_terminal [simp]: "is_terminal s \<Longrightarrow> kind_step s k = None"
  by (auto simp: is_terminal_def TERMINAL_ORDER_STATES_def)

lemma kinds_run_from_terminal: "is_terminal s \<Longrightarrow> kinds_run s ks = Some s' \<Longrightarrow> ks = []"
  by (cases ks) auto

section \<open>The events of one order\<close>

fun event_kind_for :: "uuid \<Rightarrow> BrokerEvent \<Rightarrow> OrderEventKind list" where
  "event_kind_for cid (BE_Order e) = (if e_order e = cid then [e_kind e] else [])"
| "event_kind_for cid _ = []"

definition kinds_of :: "uuid \<Rightarrow> BrokerEvent list \<Rightarrow> OrderEventKind list" where
  "kinds_of cid es = concat (map (event_kind_for cid) es)"

lemma kinds_of_simps [simp]:
  "kinds_of cid [] = []" "kinds_of cid (es @ es') = kinds_of cid es @ kinds_of cid es'"
  "kinds_of cid (e # es) = event_kind_for cid e @ kinds_of cid es"
  by (simp_all add: kinds_of_def)

fun order_event_for :: "uuid \<Rightarrow> BrokerEvent \<Rightarrow> OrderEvent list" where
  "order_event_for cid (BE_Order e) = (if e_order e = cid then [e] else [])"
| "order_event_for cid _ = []"

definition order_events :: "uuid \<Rightarrow> BrokerEvent list \<Rightarrow> OrderEvent list" where
  "order_events cid es = concat (map (order_event_for cid) es)"

lemma order_events_simps [simp]:
  "order_events cid [] = []" "order_events cid (es @ es') = order_events cid es @ order_events cid es'"
  "order_events cid (e # es) = order_event_for cid e @ order_events cid es"
  by (simp_all add: order_events_def)

lemma kinds_of_order_events: "kinds_of cid es = map e_kind (order_events cid es)"
proof (induction es)
  case (Cons e es)
  then show ?case by (cases e) auto
qed simp

section \<open>The contract of an event emitter\<close>

text \<open>
  A broker keeps a local state per order, reacts to inputs and emits event kinds.  If it can
  name the machine's state it is in, and each reaction emits a legal run from there to the next,
  then everything it ever emits is a run of the order machine, and nothing follows a terminal
  event.
\<close>

locale order_emitter =
  fixes ok :: "'s \<Rightarrow> bool"
    and step :: "'s \<Rightarrow> 'i \<Rightarrow> 's \<times> OrderEventKind list"
    and allowed :: "'s \<Rightarrow> 'i \<Rightarrow> bool"
    and fsm_state :: "'s \<Rightarrow> OrderState"
  assumes step_ok: "ok s \<Longrightarrow> allowed s i \<Longrightarrow> ok (fst (step s i))"
    and step_legal: "ok s \<Longrightarrow> allowed s i \<Longrightarrow>
      kinds_run (fsm_state s) (snd (step s i)) = Some (fsm_state (fst (step s i)))"
begin

fun emit_run :: "'s \<Rightarrow> 'i list \<Rightarrow> 's \<times> OrderEventKind list" where
  "emit_run s [] = (s, [])"
| "emit_run s (i # is) =
     (let (s1, ks) = step s i; (s2, ks') = emit_run s1 is in (s2, ks @ ks'))"

fun all_allowed :: "'s \<Rightarrow> 'i list \<Rightarrow> bool" where
  "all_allowed s [] = True"
| "all_allowed s (i # is) = (allowed s i \<and> all_allowed (fst (step s i)) is)"

lemma emit_run_ok: "ok s \<Longrightarrow> all_allowed s is \<Longrightarrow> ok (fst (emit_run s is))"
  by (induction "is" arbitrary: s) (auto simp: Let_def split_beta step_ok)

lemma emit_run_legal:
  "ok s \<Longrightarrow> all_allowed s is \<Longrightarrow>
    kinds_run (fsm_state s) (snd (emit_run s is)) = Some (fsm_state (fst (emit_run s is)))"
proof (induction "is" arbitrary: s)
  case (Cons i "is")
  then have "kinds_run (fsm_state s) (snd (step s i)) = Some (fsm_state (fst (step s i)))"
    and "kinds_run (fsm_state (fst (step s i))) (snd (emit_run (fst (step s i)) is))
      = Some (fsm_state (fst (emit_run (fst (step s i)) is)))"
    by (simp_all add: step_legal step_ok)
  then show ?case by (simp add: Let_def split_beta kinds_run_append)
qed simp

lemma emit_run_silent_after_terminal:
  assumes "ok s" "all_allowed s is" "is_terminal (fsm_state s)"
  shows "snd (emit_run s is) = []"
  using kinds_run_from_terminal [OF assms(3)] emit_run_legal [OF assms(1,2)] by blast

end

section \<open>The life of an order\<close>

lemma kinds_run_terminal_last:
  "kinds_run s (ks @ k # ks') = Some s' \<Longrightarrow> terminal_kind k \<Longrightarrow> ks' = []"
  using kind_step_terminal kinds_run_from_terminal by (fastforce simp: kinds_run_append split: option.splits)

lemma kind_step_fill_after: "kind_step s k = Some s' \<Longrightarrow> needs_fill k \<Longrightarrow> s = ACCEPTED \<or> s = PARTIALLY_FILLED"
  by (erule kind_step.elims) (simp_all add: needs_fill_def)

lemma kind_step_accepted: "kind_step s k = Some s' \<Longrightarrow> s' \<in> {ACCEPTED, PARTIALLY_FILLED} \<Longrightarrow> k = EV_ACCEPTED \<or> s \<in> {ACCEPTED, PARTIALLY_FILLED}"
  by (erule kind_step.elims) simp_all

lemma kinds_run_snoc: "kinds_run s (ks @ [k]) = Some s' \<longleftrightarrow> (\<exists>s1. kinds_run s ks = Some s1 \<and> kind_step s1 k = Some s')"
  by (auto simp: kinds_run_append split: option.splits)

lemma kinds_run_accepted:
  "kinds_run s ks = Some s' \<Longrightarrow> s' \<in> {ACCEPTED, PARTIALLY_FILLED} \<Longrightarrow> s \<notin> {ACCEPTED, PARTIALLY_FILLED} \<Longrightarrow>
    EV_ACCEPTED \<in> set ks"
proof (induction ks arbitrary: s' rule: rev_induct)
  case (snoc k ks)
  then obtain s1 where "kinds_run s ks = Some s1" "kind_step s1 k = Some s'" by (auto simp: kinds_run_snoc)
  with snoc kind_step_accepted show ?case by fastforce
qed auto

lemma kinds_run_fill_accepted:
  assumes run: "kinds_run s (ks @ k # ks') = Some s'" and k: "needs_fill k" and s: "s \<notin> {ACCEPTED, PARTIALLY_FILLED}"
  shows "EV_ACCEPTED \<in> set ks"
proof -
  obtain s1 s2 where "kinds_run s ks = Some s1" "kind_step s1 k = Some s2"
    using run by (auto simp: kinds_run_append split: option.splits)
  with kind_step_fill_after [OF _ k] kinds_run_accepted [of s ks s1] s show ?thesis by auto
qed

lemma kinds_run_terminal_state:
  assumes "kinds_run s ks = Some s'" "\<not> is_terminal s"
  shows "is_terminal s' \<longleftrightarrow> ks \<noteq> [] \<and> terminal_kind (last ks)"
  using assms kind_step_terminal by (cases ks rule: rev_cases) (auto simp: kinds_run_snoc)

lemma fsm_run_from_INITIALIZED:
  assumes "fsm_run INITIALIZED ts = Some (s, ks)" "ts \<noteq> []"
  obtains ts' where "ts = SUBMIT_CALL # ts'" "fsm_run SUBMIT_PENDING ts' = Some (s, ks)" "kinds_run SUBMIT_PENDING ks = Some s"
proof -
  obtain t ts' where ts: "ts = t # ts'" using assms(2) by (cases ts) auto
  with assms(1) have "t = SUBMIT_CALL" by (cases t) (simp_all split: option.splits)
  moreover from this assms(1) ts have "fsm_run SUBMIT_PENDING ts' = Some (s, ks)" by (auto split: option.splits)
  ultimately show thesis using that ts fsm_run_kinds by blast
qed

text \<open>C4: whatever triggers drive a new order, the events the machine emits end with the first
  terminal one (FILLED, CANCELED, REJECTED, EXPIRED), the final state is terminal exactly when such an
  event was emitted, and no fill is reported before ACCEPTED was.\<close>

theorem order_lifecycle:
  assumes "fsm_run INITIALIZED ts = Some (s, ks)"
  shows "(\<forall>ks1 k ks2. ks = ks1 @ k # ks2 \<and> terminal_kind k \<longrightarrow> ks2 = []) \<and>
    (is_terminal s \<longleftrightarrow> ks \<noteq> [] \<and> terminal_kind (last ks)) \<and>
    (\<forall>ks1 k ks2. ks = ks1 @ k # ks2 \<and> needs_fill k \<longrightarrow> EV_ACCEPTED \<in> set ks1)"
proof (cases "ts = []")
  case True
  with assms show ?thesis by (simp add: is_terminal_def TERMINAL_ORDER_STATES_def)
next
  case False
  obtain ts' where run: "kinds_run SUBMIT_PENDING ks = Some s" by (rule fsm_run_from_INITIALIZED [OF assms False])
  have "\<not> is_terminal SUBMIT_PENDING" by (simp add: is_terminal_def TERMINAL_ORDER_STATES_def)
  with run kinds_run_terminal_last [of SUBMIT_PENDING] kinds_run_fill_accepted [of SUBMIT_PENDING]
    kinds_run_terminal_state [OF run] show ?thesis by blast
qed

theorem order_lifecycle_witness:
  "is_terminal FILLED \<and> terminal_kind EV_FILLED \<and>
    fsm_run INITIALIZED [SUBMIT_CALL, WIRE_ACK, ACCEPT, PARTIAL_FILL, FILL]
      = Some (FILLED, [EV_SUBMITTED, EV_ACCEPTED, EV_PARTIAL_FILL, EV_FILLED])"
  using order_lifecycle [of "[SUBMIT_CALL, WIRE_ACK, ACCEPT, PARTIAL_FILL, FILL]" FILLED
      "[EV_SUBMITTED, EV_ACCEPTED, EV_PARTIAL_FILL, EV_FILLED]"]
  by (simp add: terminal_kind_def)

definition payload_ok :: "OrderEventKind \<Rightarrow> datetime \<Rightarrow> string option \<Rightarrow> Fill option \<Rightarrow> bool" where
  "payload_ok k t r f \<longleftrightarrow> is_utc t \<and> (k \<in> {EV_REJECTED, EV_CANCELED} \<longrightarrow> \<not> falsy r) \<and> (needs_fill k \<longleftrightarrow> f \<noteq> None)"

lemma mk_OrderEvent_ok: "payload_ok (e_kind e) (e_time e) (e_reason e) (e_fill e) \<Longrightarrow> mk_OrderEvent e = Inr e"
  by (cases "e_kind e") (simp_all add: mk_OrderEvent_def validated_def OrderEvent_checks_def require_utc_def payload_ok_def needs_fill_def)

lemma mk_OrderEvent_bad: "\<not> payload_ok (e_kind e) (e_time e) (e_reason e) (e_fill e) \<Longrightarrow> \<exists>x. mk_OrderEvent e = Inl x"
  by (cases "e_kind e") (auto simp: mk_OrderEvent_def validated_def OrderEvent_checks_def require_utc_def payload_ok_def needs_fill_def)

text \<open>\<open>transition\<close> emits an event exactly when the table has a row and the payload
  fits the row's kind (a UTC time, a reason for REJECTED and CANCELED, a fill for the two fill kinds
  and only for them); the event carries the caller's order id, fill and reason.  A pair with no row is
  an \<open>IllegalTransition\<close> whatever the payload, and the states without any row are the
  terminal ones.\<close>

theorem transition_contract:
  "(transition s trg oid t v f r = Inr (s', Some e) \<longleftrightarrow>
      (\<exists>k. TRANSITIONS s trg = Some (s', Some k) \<and> payload_ok k t r f \<and>
        e = \<lparr>e_order = oid, e_venue_order = v, e_kind = k, e_reason = r, e_time = t, e_fill = f\<rparr>)) \<and>
    (transition s trg oid t v f r = Inl (IllegalTransition s trg) \<longleftrightarrow> TRANSITIONS s trg = None) \<and>
    ((\<forall>trg. TRANSITIONS s trg = None) \<longleftrightarrow> is_terminal s)"
proof -
  let ?e = "\<lambda>k. \<lparr>e_order = oid, e_venue_order = v, e_kind = k, e_reason = r, e_time = t, e_fill = f\<rparr>"
  consider "TRANSITIONS s trg = None" | s1 where "TRANSITIONS s trg = Some (s1, None)"
    | s1 k where "TRANSITIONS s trg = Some (s1, Some k)" "mk_OrderEvent (?e k) = Inr (?e k)" "payload_ok k t r f"
    | s1 k x where "TRANSITIONS s trg = Some (s1, Some k)" "mk_OrderEvent (?e k) = Inl x" "\<not> payload_ok k t r f"
    using mk_OrderEvent_ok [of "?e _"] mk_OrderEvent_bad [of "?e _"] by (auto) (metis not_Some_eq old.prod.exhaust)
  then show ?thesis using TRANSITIONS_None_iff_terminal [of s]
    by cases (auto simp: transition_def)
qed
end
