(* ===== verification/PaperBroker.thy ===== *)
theory PaperBroker
  imports OrderFsm Positions
begin

text \<open>
  \<open>src/blive/adapters/paper/broker.py\<close>: the in-process broker.  Its state is a record; the
  coroutine \<open>_simulate_lifecycle\<close> of every submitted order is a task that sleeps in one of three
  places, and resuming it runs the code up to its next sleep or its end.  Between two resumptions other
  calls and other tasks run in any order.  The price callback and the clock readings are arguments
  of the resumption (\<open>ts 0\<close> to \<open>ts 3\<close>: the readings for SUBMITTED, ACCEPTED, the fill and
  FILLED).  \<open>pb_events\<close> is everything ever put on the event queue.
\<close>

section \<open>State\<close>

record PaperConfig =
  pc_commission :: decimal
  pc_ack :: rat
  pc_accept :: rat
  pc_fill :: rat
  pc_base :: string
  pc_cash :: decimal

text \<open>Where a lifecycle sleeps: not started yet, or before the stage named.\<close>

datatype life_phase = LP_START | LP_ACK | LP_ACCEPT | LP_FILL

record paper_task =
  pt_order :: Order
  pt_venue :: string
  pt_phase :: life_phase

record PaperBroker =
  pb_config :: PaperConfig
  pb_connected :: bool
  pb_next_seq :: int
  pb_open :: "(uuid \<times> Order) list"
  pb_venue :: "uuid \<rightharpoonup> string"
  pb_events :: "BrokerEvent list"
  pb_tasks :: "paper_task list"

definition paper_init :: "PaperConfig \<Rightarrow> PaperBroker" where
  "paper_init config =
     \<lparr>pb_config = config, pb_connected = False, pb_next_seq = 1, pb_open = [], pb_venue = Map.empty,
      pb_events = [], pb_tasks = []\<rparr>"

definition is_open :: "PaperBroker \<Rightarrow> uuid \<Rightarrow> bool" where
  "is_open b cid \<longleftrightarrow> map_of (pb_open b) cid \<noteq> None"

definition put_event :: "BrokerEvent \<Rightarrow> PaperBroker \<Rightarrow> PaperBroker" where
  "put_event e b = b\<lparr>pb_events := pb_events b @ [e]\<rparr>"

definition put_order_event :: "uuid \<Rightarrow> string option \<Rightarrow> OrderEventKind \<Rightarrow> string option \<Rightarrow> Fill option \<Rightarrow> datetime
    \<Rightarrow> (PaperBroker, unit) sx" where
  "put_order_event cid venue kind reason fill now =
     bindS (liftS (mk_OrderEvent \<lparr>e_order = cid, e_venue_order = venue, e_kind = kind, e_reason = reason,
                                 e_time = now, e_fill = fill\<rparr>))
       (\<lambda>e. modS (put_event (BE_Order e)))"

definition delete_open :: "uuid \<Rightarrow> PaperBroker \<Rightarrow> PaperBroker" where
  "delete_open cid b = b\<lparr>pb_open := filter (\<lambda>(k, _). k \<noteq> cid) (pb_open b)\<rparr>"

section \<open>Port operations\<close>

definition put_connection :: "bool \<Rightarrow> string \<Rightarrow> datetime \<Rightarrow> (PaperBroker, unit) sx" where
  "put_connection c detail now =
     bindS (liftS (mk_ConnectionStatus \<lparr>c_connected = c, c_detail = detail, c_time = now\<rparr>))
       (\<lambda>s. modS (put_event (BE_Connection s)))"

definition paper_connect :: "datetime \<Rightarrow> (PaperBroker, unit) sx" where
  "paper_connect now =
     bindS (modS (\<lambda>b. b\<lparr>pb_connected := True\<rparr>)) (\<lambda>_. put_connection True ''paper broker connected'' now)"

definition paper_disconnect :: "datetime \<Rightarrow> (PaperBroker, unit) sx" where
  "paper_disconnect now =
     bindS (modS (\<lambda>b. b\<lparr>pb_connected := False, pb_tasks := []\<rparr>))
       (\<lambda>_. put_connection False ''paper broker disconnected'' now)"

definition venue_id :: "int \<Rightarrow> string" where
  "venue_id seq = ''paper-'' @ zero_pad 8 seq"

definition paper_submit :: "Order \<Rightarrow> (PaperBroker, uuid) sx" where
  "paper_submit order =
     bindS (getS pb_connected) (\<lambda>connected.
     if \<not> connected then raiseS (RuntimeError ''PaperBroker.submit called before connect()'')
     else bindS (getS (\<lambda>b. is_open b (o_id order))) (\<lambda>op.
     if op then retS (o_id order)
     else bindS (getS (\<lambda>b. venue_id (pb_next_seq b))) (\<lambda>v.
       bindS (modS (\<lambda>b. b\<lparr>pb_open := pb_open b @ [(o_id order, order)], pb_next_seq := pb_next_seq b + 1,
                          pb_venue := (pb_venue b)(o_id order \<mapsto> v),
                          pb_tasks := pb_tasks b @ [\<lparr>pt_order = order, pt_venue = v, pt_phase = LP_START\<rparr>]\<rparr>))
         (\<lambda>_. retS (o_id order)))))"

definition paper_cancel :: "uuid \<Rightarrow> datetime \<Rightarrow> (PaperBroker, unit) sx" where
  "paper_cancel cid now =
     bindS (getS (\<lambda>b. is_open b cid)) (\<lambda>op.
     if \<not> op then retS ()
     else bindS (modS (delete_open cid)) (\<lambda>_.
          bindS (getS (\<lambda>b. pb_venue b cid)) (\<lambda>v.
          put_order_event cid v EV_CANCELED (Some ''engine'') None now)))"

definition or_else :: "'a option \<Rightarrow> 'a option \<Rightarrow> 'a option" where
  "or_else a b = (case a of None \<Rightarrow> b | Some _ \<Rightarrow> a)"

definition paper_replace :: "uuid \<Rightarrow> OrderUpdate \<Rightarrow> (PaperBroker, unit) sx" where
  "paper_replace cid new =
     bindS (getS (\<lambda>b. map_of (pb_open b) cid)) (\<lambda>found.
     case found of
       None \<Rightarrow> retS ()
     | Some original \<Rightarrow>
         bindS (liftS (mk_Order (original\<lparr>
             o_quantity := (case u_quantity new of None \<Rightarrow> o_quantity original | Some q \<Rightarrow> q),
             o_limit := or_else (u_limit new) (o_limit original),
             o_stop := or_else (u_stop new) (o_stop original)\<rparr>))) (\<lambda>replaced.
         modS (\<lambda>b. b\<lparr>pb_open := map (\<lambda>(k, r). (k, if k = cid then replaced else r)) (pb_open b)\<rparr>)))"

definition paper_open_orders :: "PaperBroker \<Rightarrow> Order list" where
  "paper_open_orders b = map snd (pb_open b)"

definition paper_positions :: "PaperBroker \<Rightarrow> Position list" where
  "paper_positions b = []"

definition paper_account_snapshot :: "PaperBroker \<Rightarrow> datetime \<Rightarrow> AccountSnapshot res" where
  "paper_account_snapshot b now =
     (let c = pb_config b
      in mk_AccountSnapshot \<lparr>a_equity = pc_cash c, a_cash = [(pc_base c, pc_cash c)], a_buying_power = pc_cash c,
           a_gross = dzero, a_net = dzero, a_leverage = dzero, a_margin = dzero, a_base = pc_base c, a_taken = now\<rparr>)"

section \<open>The lifecycle of an order\<close>

text \<open>Every stage returns where the task sleeps next, or None when it has ended.\<close>

definition stage_fill :: "Order \<Rightarrow> string \<Rightarrow> (Instrument \<Rightarrow> decimal res) \<Rightarrow> (nat \<Rightarrow> datetime)
    \<Rightarrow> (PaperBroker, life_phase option) sx" where
  "stage_fill order v price_lookup ts =
     bindS (getS (\<lambda>b. is_open b (o_id order))) (\<lambda>op.
     if \<not> op then retS None
     else bindS (modS (delete_open (o_id order))) (\<lambda>_.
          bindS (liftS (price_lookup (o_instrument order))) (\<lambda>price.
          bindS (getS (\<lambda>b. dmul (pc_commission (pb_config b)) (o_quantity order))) (\<lambda>commission.
          bindS (liftS (mk_Fill \<lparr>f_order = o_id order, f_venue_order = v, f_exec = v @ ''-exec-1'',
                   f_instrument = o_instrument order, f_side = o_side order, f_quantity = o_quantity order,
                   f_price = price, f_commission = commission, f_currency = i_currency (o_instrument order),
                   f_time = ts 2\<rparr>)) (\<lambda>fill.
          bindS (put_order_event (o_id order) (Some v) EV_FILLED None (Some fill) (ts 3)) (\<lambda>_.
          retS None))))))"

definition stage_accept :: "Order \<Rightarrow> string \<Rightarrow> (Instrument \<Rightarrow> decimal res) \<Rightarrow> (nat \<Rightarrow> datetime)
    \<Rightarrow> (PaperBroker, life_phase option) sx" where
  "stage_accept order v price_lookup ts =
     bindS (getS (\<lambda>b. is_open b (o_id order))) (\<lambda>op.
     if \<not> op then retS None
     else bindS (put_order_event (o_id order) (Some v) EV_ACCEPTED None None (ts 1)) (\<lambda>_.
     if o_type order \<noteq> MKT then retS None
     else bindS (getS (\<lambda>b. pc_fill (pb_config b))) (\<lambda>latency.
     if latency \<noteq> 0 then retS (Some LP_FILL) else stage_fill order v price_lookup ts)))"

definition stage_ack :: "Order \<Rightarrow> string \<Rightarrow> (Instrument \<Rightarrow> decimal res) \<Rightarrow> (nat \<Rightarrow> datetime)
    \<Rightarrow> (PaperBroker, life_phase option) sx" where
  "stage_ack order v price_lookup ts =
     bindS (getS (\<lambda>b. is_open b (o_id order))) (\<lambda>op.
     if \<not> op then retS None
     else bindS (put_order_event (o_id order) (Some v) EV_SUBMITTED None None (ts 0)) (\<lambda>_.
          bindS (getS (\<lambda>b. pc_accept (pb_config b))) (\<lambda>latency.
     if latency \<noteq> 0 then retS (Some LP_ACCEPT) else stage_accept order v price_lookup ts)))"

definition stage_start :: "Order \<Rightarrow> string \<Rightarrow> (Instrument \<Rightarrow> decimal res) \<Rightarrow> (nat \<Rightarrow> datetime)
    \<Rightarrow> (PaperBroker, life_phase option) sx" where
  "stage_start order v price_lookup ts =
     bindS (getS (\<lambda>b. pc_ack (pb_config b))) (\<lambda>latency.
     if latency \<noteq> 0 then retS (Some LP_ACK) else stage_ack order v price_lookup ts)"

fun stage_of :: "life_phase \<Rightarrow> Order \<Rightarrow> string \<Rightarrow> (Instrument \<Rightarrow> decimal res) \<Rightarrow> (nat \<Rightarrow> datetime)
    \<Rightarrow> (PaperBroker, life_phase option) sx" where
  "stage_of LP_START = stage_start"
| "stage_of LP_ACK = stage_ack"
| "stage_of LP_ACCEPT = stage_accept"
| "stage_of LP_FILL = stage_fill"

definition paper_resume :: "nat \<Rightarrow> (Instrument \<Rightarrow> decimal res) \<Rightarrow> (nat \<Rightarrow> datetime) \<Rightarrow> PaperBroker \<Rightarrow> PaperBroker" where
  "paper_resume i price_lookup ts b =
     (if length (pb_tasks b) \<le> i then b
      else let t = pb_tasks b ! i;
               others = take i (pb_tasks b) @ drop (Suc i) (pb_tasks b)
           in case stage_of (pt_phase t) (pt_order t) (pt_venue t) price_lookup ts (b\<lparr>pb_tasks := others\<rparr>) of
                (Inr (Some ph), b') \<Rightarrow> b'\<lparr>pb_tasks := pb_tasks b' @ [t\<lparr>pt_phase := ph\<rparr>]\<rparr>
              | (_, b') \<Rightarrow> b')"

section \<open>Runs\<close>

datatype paper_input =
    P_Connect datetime
  | P_Disconnect datetime
  | P_Submit Order
  | P_Cancel uuid datetime
  | P_Replace uuid OrderUpdate
  | P_Resume nat "Instrument \<Rightarrow> decimal res" "nat \<Rightarrow> datetime"

fun paper_step :: "PaperBroker \<Rightarrow> paper_input \<Rightarrow> PaperBroker" where
  "paper_step b (P_Connect now) = snd (paper_connect now b)"
| "paper_step b (P_Disconnect now) = snd (paper_disconnect now b)"
| "paper_step b (P_Submit order) = snd (paper_submit order b)"
| "paper_step b (P_Cancel cid now) = snd (paper_cancel cid now b)"
| "paper_step b (P_Replace cid new) = snd (paper_replace cid new b)"
| "paper_step b (P_Resume i price ts) = paper_resume i price ts b"

section \<open>Open orders and events\<close>

lemma put_event_simps [simp]:
  "pb_events (put_event e b) = pb_events b @ [e]" "pb_tasks (put_event e b) = pb_tasks b"
  "pb_open (put_event e b) = pb_open b" "pb_config (put_event e b) = pb_config b" "is_open (put_event e b) = is_open b"
  "pb_venue (put_event e b) = pb_venue b"
  by (simp_all add: put_event_def is_open_def fun_eq_iff)

lemma map_of_delete: "map_of (filter (\<lambda>(k, _). k \<noteq> cid) xs) c = (if c = cid then None else map_of xs c)"
  by (induction xs) auto

lemma delete_open_simps [simp]:
  "pb_events (delete_open cid b) = pb_events b" "pb_tasks (delete_open cid b) = pb_tasks b"
  "pb_config (delete_open cid b) = pb_config b" "is_open (delete_open cid b) c \<longleftrightarrow> c \<noteq> cid \<and> is_open b c"
  "pb_venue (delete_open cid b) = pb_venue b"
  by (simp_all add: delete_open_def is_open_def map_of_delete)

lemma put_order_event_cases:
  obtains (put) e where "put_order_event cid v k r f now b = (Inr (), put_event (BE_Order e) b)"
      "e_order e = cid" "e_kind e = k" "e_fill e = f"
    | (raised) x where "put_order_event cid v k r f now b = (Inl x, b)"
proof (cases "payload_ok k now r f")
  case True
  then show ?thesis
    using mk_OrderEvent_ok [of "\<lparr>e_order = cid, e_venue_order = v, e_kind = k, e_reason = r, e_time = now, e_fill = f\<rparr>"]
    by (intro put [of "\<lparr>e_order = cid, e_venue_order = v, e_kind = k, e_reason = r, e_time = now, e_fill = f\<rparr>"])
      (simp_all add: put_order_event_def)
next
  case False
  then show ?thesis
    using mk_OrderEvent_bad [of "\<lparr>e_order = cid, e_venue_order = v, e_kind = k, e_reason = r, e_time = now, e_fill = f\<rparr>"]
    by (auto simp: put_order_event_def intro: raised)
qed

text \<open>What a lifecycle has emitted when it sleeps in a phase, and all it may ever emit.\<close>

fun phase_kinds :: "life_phase \<Rightarrow> OrderEventKind list" where
  "phase_kinds LP_START = []"
| "phase_kinds LP_ACK = []"
| "phase_kinds LP_ACCEPT = [EV_SUBMITTED]"
| "phase_kinds LP_FILL = [EV_SUBMITTED, EV_ACCEPTED]"

definition pending_kinds :: "OrderEventKind list set" where
  "pending_kinds = {[], [EV_SUBMITTED], [EV_SUBMITTED, EV_ACCEPTED]}"

text \<open>
  The effect of a stage on the broker: it touches only its own order, and after it the order is
  still open with a pending prefix of its events, or closed with the prefix or the prefix and FILLED.
\<close>

definition stage_effect :: "life_phase \<Rightarrow> Order \<Rightarrow> PaperBroker \<Rightarrow> life_phase option res \<times> PaperBroker \<Rightarrow> bool" where
  "stage_effect ph order b res \<longleftrightarrow> (case res of (r, b') \<Rightarrow>
     pb_tasks b' = pb_tasks b \<and> pb_config b' = pb_config b \<and>
     (\<forall>c. c \<noteq> o_id order \<longrightarrow> is_open b' c = is_open b c \<and> kinds_of c (pb_events b') = kinds_of c (pb_events b)) \<and>
     (\<exists>new. pb_events b' = pb_events b @ new \<and>
       (if is_open b (o_id order)
        then (is_open b' (o_id order) \<longrightarrow> phase_kinds ph @ kinds_of (o_id order) new \<in> pending_kinds) \<and>
             phase_kinds ph @ kinds_of (o_id order) new \<in> insert [EV_SUBMITTED, EV_ACCEPTED, EV_FILLED] pending_kinds \<and>
             (\<forall>ph'. r = Inr (Some ph') \<longrightarrow>
                is_open b' (o_id order) \<and> phase_kinds ph @ kinds_of (o_id order) new = phase_kinds ph')
        else b' = b \<and> (\<forall>ph'. r = Inr (Some ph') \<longrightarrow> phase_kinds ph' = phase_kinds ph))))"

lemma stage_closed: "\<not> is_open b (o_id order) \<Longrightarrow> stage_of ph order v price ts b = (Inr None, b) \<or>
    (\<exists>ph'. stage_of ph order v price ts b = (Inr (Some ph'), b) \<and> phase_kinds ph' = phase_kinds ph)"
  by (cases ph) (auto simp: stage_start_def stage_ack_def stage_accept_def stage_fill_def)

lemma stage_fill_effect:
  assumes "is_open b (o_id order)"
  shows "stage_effect LP_FILL order b (stage_fill order v price ts b)"
proof (cases "price (o_instrument order)")
  case (Inl x)
  with assms show ?thesis by (simp add: stage_fill_def stage_effect_def pending_kinds_def bindS_def)
next
  case (Inr pr)
  let ?b = "delete_open (o_id order) b"
  let ?f = "\<lparr>f_order = o_id order, f_venue_order = v, f_exec = v @ ''-exec-1'',
     f_instrument = o_instrument order, f_side = o_side order, f_quantity = o_quantity order,
     f_price = pr, f_commission = dmul (pc_commission (pb_config b)) (o_quantity order),
     f_currency = i_currency (o_instrument order), f_time = ts 2\<rparr>"
  show ?thesis
  proof (cases "mk_Fill ?f")
    case (Inl x)
    with assms Inr show ?thesis by (simp add: stage_fill_def stage_effect_def pending_kinds_def bindS_def)
  next
    case (Inr f)
    with assms \<open>price _ = Inr pr\<close>
    have "stage_fill order v price ts b =
        bindS (put_order_event (o_id order) (Some v) EV_FILLED None (Some f) (ts 3)) (\<lambda>_. retS None) ?b"
      by (simp add: stage_fill_def)
    then show ?thesis
      by (cases rule: put_order_event_cases [of "o_id order" "Some v" EV_FILLED None "Some f" "ts 3" ?b])
        (use assms in \<open>auto simp: stage_effect_def pending_kinds_def bindS_def\<close>)
  qed
qed

lemma stage_effect_after_put:
  assumes "stage_effect ph' order (put_event (BE_Order e) b) res" "e_order e = o_id order" "is_open b (o_id order)"
    "phase_kinds ph' = phase_kinds ph @ [e_kind e]"
  shows "stage_effect ph order b res"
proof -
  obtain r b' where res: "res = (r, b')" by (cases res)
  from assms(1,3) obtain new where new: "pb_events b' = pb_events b @ BE_Order e # new"
    "(is_open b' (o_id order) \<longrightarrow> phase_kinds ph' @ kinds_of (o_id order) new \<in> pending_kinds) \<and>
     phase_kinds ph' @ kinds_of (o_id order) new \<in> insert [EV_SUBMITTED, EV_ACCEPTED, EV_FILLED] pending_kinds \<and>
     (\<forall>ph''. r = Inr (Some ph'') \<longrightarrow> is_open b' (o_id order) \<and> phase_kinds ph' @ kinds_of (o_id order) new = phase_kinds ph'')"
    "pb_tasks b' = pb_tasks b" "pb_config b' = pb_config b"
    "\<forall>c. c \<noteq> o_id order \<longrightarrow> is_open b' c = is_open b c \<and> kinds_of c (pb_events b') = kinds_of c (pb_events (put_event (BE_Order e) b))"
    by (auto simp: stage_effect_def res)
  have k: "phase_kinds ph @ kinds_of (o_id order) (BE_Order e # new) = phase_kinds ph' @ kinds_of (o_id order) new"
    using assms(2,4) by simp
  have other: "\<forall>c. c \<noteq> o_id order \<longrightarrow> is_open b' c = is_open b c \<and> kinds_of c (pb_events b') = kinds_of c (pb_events b)"
    using new(5) assms(2) by simp
  show ?thesis
    unfolding stage_effect_def res prod.case
    using new(1-4) other assms(3) by (intro conjI exI [of _ "BE_Order e # new"]) (simp_all only: k if_True, blast)
qed

lemma stage_accept_effect:
  assumes op: "is_open b (o_id order)"
  shows "stage_effect LP_ACCEPT order b (stage_accept order v price ts b)"
proof (cases rule: put_order_event_cases [of "o_id order" "Some v" EV_ACCEPTED None None "ts 1" b])
  case (put e)
  let ?b = "put_event (BE_Order e) b"
  have "stage_effect LP_FILL order ?b (if o_type order \<noteq> MKT then (Inr None, ?b)
      else if pc_fill (pb_config b) \<noteq> 0 then (Inr (Some LP_FILL), ?b) else stage_fill order v price ts ?b)"
    using op stage_fill_effect [of ?b order v price ts] by (simp add: stage_effect_def pending_kinds_def)
  from stage_effect_after_put [OF this put(2) op, of LP_ACCEPT] put(3) op
  show ?thesis by (auto simp: stage_accept_def bindS_def put(1) [simplified] split: if_splits)
next
  case (raised x)
  with op show ?thesis by (simp add: stage_accept_def stage_effect_def pending_kinds_def bindS_def)
qed

lemma stage_ack_effect:
  assumes op: "is_open b (o_id order)"
  shows "stage_effect LP_ACK order b (stage_ack order v price ts b)"
proof (cases rule: put_order_event_cases [of "o_id order" "Some v" EV_SUBMITTED None None "ts 0" b])
  case (put e)
  let ?b = "put_event (BE_Order e) b"
  have "stage_effect LP_ACCEPT order ?b (if pc_accept (pb_config b) \<noteq> 0 then (Inr (Some LP_ACCEPT), ?b)
      else stage_accept order v price ts ?b)"
    using op stage_accept_effect [of ?b order v price ts] by (simp add: stage_effect_def pending_kinds_def)
  from stage_effect_after_put [OF this put(2) op, of LP_ACK] put(3) op
  show ?thesis by (auto simp: stage_ack_def bindS_def put(1) [simplified] split: if_splits)
next
  case (raised x)
  with op show ?thesis by (simp add: stage_ack_def stage_effect_def pending_kinds_def bindS_def)
qed

lemma stage_of_effect: "stage_effect ph order b (stage_of ph order v price ts b)"
proof (cases "is_open b (o_id order)")
  case True
  then show ?thesis
    using stage_ack_effect [OF True] stage_accept_effect [OF True] stage_fill_effect [OF True]
    by (cases ph) (auto simp: stage_start_def stage_effect_def pending_kinds_def)
next
  case False
  with stage_closed [of b order ph v price ts] show ?thesis by (auto simp: stage_effect_def)
qed

section \<open>Conformance to the order machine\<close>

definition tasks_of :: "uuid \<Rightarrow> PaperBroker \<Rightarrow> paper_task list" where
  "tasks_of cid b = filter (\<lambda>t. o_id (pt_order t) = cid) (pb_tasks b)"

definition paper_ok :: "uuid \<Rightarrow> PaperBroker \<Rightarrow> bool" where
  "paper_ok cid b \<longleftrightarrow>
     kinds_run SUBMIT_PENDING (kinds_of cid (pb_events b)) \<noteq> None \<and> length (tasks_of cid b) \<le> 1 \<and>
     (is_open b cid \<longrightarrow> kinds_of cid (pb_events b) \<in> pending_kinds) \<and>
     (\<forall>t. is_open b cid \<and> t \<in> set (tasks_of cid b) \<longrightarrow> kinds_of cid (pb_events b) = phase_kinds (pt_phase t))"

text \<open>
  What the engine has to respect for one order id: it submits an id once, and cancels an open order
  only after its SUBMITTED event.
\<close>

fun paper_allowed :: "uuid \<Rightarrow> PaperBroker \<Rightarrow> paper_input \<Rightarrow> bool" where
  "paper_allowed cid b (P_Submit order) =
     (o_id order = cid \<longrightarrow> is_open b cid \<or> kinds_of cid (pb_events b) = [] \<and> tasks_of cid b = [])"
| "paper_allowed cid b (P_Cancel c now) = (c = cid \<longrightarrow> \<not> is_open b cid \<or> kinds_of cid (pb_events b) \<noteq> [])"
| "paper_allowed cid b _ = True"

definition paper_fsm :: "uuid \<Rightarrow> PaperBroker \<Rightarrow> OrderState" where
  "paper_fsm cid b =
     (case kinds_run SUBMIT_PENDING (kinds_of cid (pb_events b)) of None \<Rightarrow> SUBMIT_PENDING | Some s \<Rightarrow> s)"

definition paper_emit :: "uuid \<Rightarrow> PaperBroker \<Rightarrow> paper_input \<Rightarrow> PaperBroker \<times> OrderEventKind list" where
  "paper_emit cid b i =
     (let b' = paper_step b i in (b', kinds_of cid (drop (length (pb_events b)) (pb_events b'))))"

lemma pending_runs: "ks \<in> insert [EV_SUBMITTED, EV_ACCEPTED, EV_FILLED] pending_kinds \<Longrightarrow> kinds_run SUBMIT_PENDING ks \<noteq> None"
  by (auto simp: pending_kinds_def)

lemma pending_then_cancel: "ks \<in> pending_kinds \<Longrightarrow> ks \<noteq> [] \<Longrightarrow> kinds_run SUBMIT_PENDING (ks @ [EV_CANCELED]) = Some CANCELED"
  by (auto simp: pending_kinds_def)

lemma tasks_of_remove:
  assumes "i < length (pb_tasks b)"
  shows "o_id (pt_order (pb_tasks b ! i)) \<noteq> cid \<Longrightarrow>
      filter (\<lambda>t. o_id (pt_order t) = cid) (take i (pb_tasks b) @ drop (Suc i) (pb_tasks b)) = tasks_of cid b"
    and "o_id (pt_order (pb_tasks b ! i)) = cid \<Longrightarrow> length (tasks_of cid b) \<le> 1 \<Longrightarrow>
      filter (\<lambda>t. o_id (pt_order t) = cid) (take i (pb_tasks b) @ drop (Suc i) (pb_tasks b)) = [] \<and>
      tasks_of cid b = [pb_tasks b ! i]"
proof -
  have split: "pb_tasks b = take i (pb_tasks b) @ pb_tasks b ! i # drop (Suc i) (pb_tasks b)"
    by (rule id_take_nth_drop [OF assms])
  have t: "tasks_of cid b = filter (\<lambda>t. o_id (pt_order t) = cid) (take i (pb_tasks b)) @
     (if o_id (pt_order (pb_tasks b ! i)) = cid then [pb_tasks b ! i] else []) @
     filter (\<lambda>t. o_id (pt_order t) = cid) (drop (Suc i) (pb_tasks b))"
    unfolding tasks_of_def by (subst split) simp
  show "o_id (pt_order (pb_tasks b ! i)) \<noteq> cid \<Longrightarrow>
      filter (\<lambda>t. o_id (pt_order t) = cid) (take i (pb_tasks b) @ drop (Suc i) (pb_tasks b)) = tasks_of cid b"
    using t by simp
  show "o_id (pt_order (pb_tasks b ! i)) = cid \<Longrightarrow> length (tasks_of cid b) \<le> 1 \<Longrightarrow>
      filter (\<lambda>t. o_id (pt_order t) = cid) (take i (pb_tasks b) @ drop (Suc i) (pb_tasks b)) = [] \<and>
      tasks_of cid b = [pb_tasks b ! i]"
    using t by auto
qed


lemma kinds_append_pending:
  assumes "paper_ok cid b" "is_open b cid" "t \<in> set (tasks_of cid b)"
  shows "kinds_of cid (pb_events b) = phase_kinds (pt_phase t)"
  using assms by (simp add: paper_ok_def)

lemma paper_resume_ok:
  assumes ok: "paper_ok cid b"
  shows "paper_ok cid (paper_resume i price ts b) \<and> (\<exists>new. pb_events (paper_resume i price ts b) = pb_events b @ new)"
proof (cases "i < length (pb_tasks b)")
  case False
  with ok show ?thesis by (simp add: paper_resume_def)
next
  case True
  define t where "t = pb_tasks b ! i"
  define others where "others = take i (pb_tasks b) @ drop (Suc i) (pb_tasks b)"
  let ?b0 = "b\<lparr>pb_tasks := others\<rparr>"
  obtain r b' where st: "stage_of (pt_phase t) (pt_order t) (pt_venue t) price ts ?b0 = (r, b')"
    by (cases "stage_of (pt_phase t) (pt_order t) (pt_venue t) price ts ?b0")
  have o0: "is_open ?b0 c = is_open b c" for c by (simp add: is_open_def)
  have eff: "pb_tasks b' = others" "\<And>c. c \<noteq> o_id (pt_order t) \<Longrightarrow> is_open b' c = is_open b c \<and> kinds_of c (pb_events b') = kinds_of c (pb_events b)"
    and eff': "\<exists>new. pb_events b' = pb_events b @ new \<and>
       (if is_open b (o_id (pt_order t))
        then (is_open b' (o_id (pt_order t)) \<longrightarrow> phase_kinds (pt_phase t) @ kinds_of (o_id (pt_order t)) new \<in> pending_kinds) \<and>
             phase_kinds (pt_phase t) @ kinds_of (o_id (pt_order t)) new \<in> insert [EV_SUBMITTED, EV_ACCEPTED, EV_FILLED] pending_kinds \<and>
             (\<forall>ph'. r = Inr (Some ph') \<longrightarrow>
                is_open b' (o_id (pt_order t)) \<and> phase_kinds (pt_phase t) @ kinds_of (o_id (pt_order t)) new = phase_kinds ph')
        else b' = ?b0 \<and> (\<forall>ph'. r = Inr (Some ph') \<longrightarrow> phase_kinds ph' = phase_kinds (pt_phase t)))"
    using stage_of_effect [of "pt_phase t" "pt_order t" ?b0 "pt_venue t" price ts] by (auto simp: stage_effect_def st o0)
  define b2 where "b2 = (case r of Inr (Some ph) \<Rightarrow> b'\<lparr>pb_tasks := others @ [t\<lparr>pt_phase := ph\<rparr>]\<rparr> | _ \<Rightarrow> b')"
  have res: "paper_resume i price ts b = b2"
    using True st eff(1) by (auto simp: paper_resume_def Let_def t_def [symmetric] others_def [symmetric] b2_def split: sum.splits option.splits)
  have b2: "pb_events b2 = pb_events b'" "is_open b2 = is_open b'"
    by (auto simp: b2_def is_open_def split: sum.splits option.splits)
  have t2: "tasks_of cid b2 = filter (\<lambda>t. o_id (pt_order t) = cid) others @
      (case r of Inr (Some ph) \<Rightarrow> if o_id (pt_order t) = cid then [t\<lparr>pt_phase := ph\<rparr>] else [] | _ \<Rightarrow> [])"
    using eff(1) by (auto simp: b2_def tasks_of_def split: sum.splits option.splits)
  obtain new where new: "pb_events b' = pb_events b @ new"
    and cid: "is_open b (o_id (pt_order t)) \<Longrightarrow>
        (is_open b' (o_id (pt_order t)) \<longrightarrow> phase_kinds (pt_phase t) @ kinds_of (o_id (pt_order t)) new \<in> pending_kinds) \<and>
             phase_kinds (pt_phase t) @ kinds_of (o_id (pt_order t)) new \<in> insert [EV_SUBMITTED, EV_ACCEPTED, EV_FILLED] pending_kinds \<and>
             (\<forall>ph'. r = Inr (Some ph') \<longrightarrow>
                is_open b' (o_id (pt_order t)) \<and> phase_kinds (pt_phase t) @ kinds_of (o_id (pt_order t)) new = phase_kinds ph')"
    and closed: "\<not> is_open b (o_id (pt_order t)) \<Longrightarrow> b' = ?b0"
    using eff' by (auto split: if_splits)
  have "paper_ok cid b2"
  proof (cases "o_id (pt_order t) = cid")
    case False
    then have "tasks_of cid b2 = tasks_of cid b"
      using tasks_of_remove(1) [OF True, of cid] t2 by (auto simp: t_def others_def split: sum.splits option.splits)
    with ok eff(2) [of cid] False show ?thesis by (simp add: paper_ok_def b2)
  next
    case same: True
    have len: "length (tasks_of cid b) \<le> 1" using ok by (simp add: paper_ok_def)
    have rm: "filter (\<lambda>t. o_id (pt_order t) = cid) others = []" "tasks_of cid b = [t]"
      using tasks_of_remove(2) [OF True _ len] same by (simp_all add: t_def others_def)
    have tasks: "tasks_of cid b2 = (case r of Inr (Some ph) \<Rightarrow> [t\<lparr>pt_phase := ph\<rparr>] | _ \<Rightarrow> [])"
      using t2 rm(1) same by (auto split: sum.splits option.splits)
    show ?thesis
    proof (cases "is_open b cid")
      case op: True
      have ks: "kinds_of cid (pb_events b) = phase_kinds (pt_phase t)"
        by (rule kinds_append_pending [OF ok op]) (simp add: rm(2))
      with cid op same have c: "is_open b' cid \<longrightarrow> kinds_of cid (pb_events b') \<in> pending_kinds"
        "kinds_of cid (pb_events b') \<in> insert [EV_SUBMITTED, EV_ACCEPTED, EV_FILLED] pending_kinds"
        "\<forall>ph'. r = Inr (Some ph') \<longrightarrow> is_open b' cid \<and> kinds_of cid (pb_events b') = phase_kinds ph'"
        by (simp_all add: new)
      with pending_runs [OF c(2)] tasks show ?thesis
        by (auto simp: paper_ok_def b2 split: sum.splits option.splits)
    next
      case cl: False
      with closed same have "b' = ?b0" by simp
      with ok cl tasks o0 show ?thesis
        by (auto simp: paper_ok_def b2 split: sum.splits option.splits)
    qed
  qed
  with new show ?thesis by (simp add: res b2)
qed


lemma put_connection_cases:
  obtains st where "put_connection c d now b = (Inr (), put_event (BE_Connection st) b)"
    | x where "put_connection c d now b = (Inl x, b)"
  by (cases "mk_ConnectionStatus \<lparr>c_connected = c, c_detail = d, c_time = now\<rparr>") (auto simp: put_connection_def)

lemma paper_ok_quiet:
  assumes "paper_ok cid b" "kinds_of cid (pb_events b') = kinds_of cid (pb_events b)" "is_open b' cid = is_open b cid"
    "tasks_of cid b' = tasks_of cid b \<or> tasks_of cid b' = []"
  shows "paper_ok cid b'"
  using assms by (auto simp: paper_ok_def)

lemma is_open_append: "map_of (xs @ [(k, r)]) c \<noteq> None \<longleftrightarrow> map_of xs c \<noteq> None \<or> c = k"
  by (induction xs) (auto simp del: map_of_append)

lemma is_open_replaced: "map_of (map (\<lambda>(k, r). (k, if k = cid then x else r)) xs) c \<noteq> None \<longleftrightarrow> map_of xs c \<noteq> None"
  by (induction xs) auto

lemma paper_cancel_ok:
  assumes ok: "paper_ok cid b" and al: "paper_allowed cid b (P_Cancel c now)"
  shows "paper_ok cid (snd (paper_cancel c now b)) \<and> (\<exists>new. pb_events (snd (paper_cancel c now b)) = pb_events b @ new)"
proof (cases "is_open b c")
  case False
  with ok show ?thesis by (simp add: paper_cancel_def)
next
  case op: True
  let ?b = "delete_open c b"
  show ?thesis
  proof (cases rule: put_order_event_cases [of c "pb_venue b c" EV_CANCELED "Some ''engine''" None now ?b])
    case (put e)
    then have s: "snd (paper_cancel c now b) = put_event (BE_Order e) ?b" using op by (simp add: paper_cancel_def bindS_def)
    have "paper_ok cid (put_event (BE_Order e) ?b)"
    proof (cases "c = cid")
      case True
      with op ok al have "kinds_of cid (pb_events b) \<in> pending_kinds" "kinds_of cid (pb_events b) \<noteq> []"
        by (simp_all add: paper_ok_def)
      from pending_then_cancel [OF this] put(2,3) True ok show ?thesis
        by (simp add: paper_ok_def tasks_of_def)
    next
      case False
      with put(2) show ?thesis by (intro paper_ok_quiet [OF ok]) (simp_all add: tasks_of_def)
    qed
    with s show ?thesis by simp
  next
    case (raised x)
    then have "snd (paper_cancel c now b) = ?b" using op by (simp add: paper_cancel_def bindS_def)
    with ok show ?thesis by (simp add: paper_ok_def tasks_of_def)
  qed
qed

lemma paper_submit_ok:
  assumes ok: "paper_ok cid b" and al: "paper_allowed cid b (P_Submit order)"
  shows "paper_ok cid (snd (paper_submit order b)) \<and> pb_events (snd (paper_submit order b)) = pb_events b"
proof (cases "pb_connected b \<and> \<not> is_open b (o_id order)")
  case False
  with ok show ?thesis by (auto simp: paper_submit_def)
next
  case True
  let ?b = "snd (paper_submit order b)"
  have e: "pb_events ?b = pb_events b" and o: "is_open ?b c \<longleftrightarrow> is_open b c \<or> c = o_id order"
    and t: "tasks_of c ?b = tasks_of c b @ (if c = o_id order then [\<lparr>pt_order = order, pt_venue = venue_id (pb_next_seq b), pt_phase = LP_START\<rparr>] else [])" for c
    using True is_open_append [of "pb_open b" "o_id order" order c]
    by (simp_all add: paper_submit_def is_open_def tasks_of_def del: not_None_eq map_of_append)
  show ?thesis
  proof (cases "o_id order = cid")
    case same: True
    with True al have "kinds_of cid (pb_events b) = []" "tasks_of cid b = []" by auto
    with same e o t [of cid] show ?thesis by (simp add: paper_ok_def pending_kinds_def)
  next
    case False
    with e o [of cid] t [of cid] ok show ?thesis by (simp add: paper_ok_def)
  qed
qed

lemma paper_replace_ok:
  "paper_ok cid b \<Longrightarrow> paper_ok cid (snd (paper_replace c u b)) \<and> pb_events (snd (paper_replace c u b)) = pb_events b"
proof -
  assume ok: "paper_ok cid b"
  have "pb_events (snd (paper_replace c u b)) = pb_events b \<and> tasks_of cid (snd (paper_replace c u b)) = tasks_of cid b \<and>
      is_open (snd (paper_replace c u b)) cid = is_open b cid"
  proof (cases "map_of (pb_open b) c")
    case None
    then show ?thesis by (simp add: paper_replace_def)
  next
    case (Some original)
    define upd where "upd = original\<lparr>
             o_quantity := (case u_quantity u of None \<Rightarrow> o_quantity original | Some q \<Rightarrow> q),
             o_limit := or_else (u_limit u) (o_limit original),
             o_stop := or_else (u_stop u) (o_stop original)\<rparr>"
    show ?thesis
      using Some is_open_replaced [of c _ "pb_open b" cid]
      by (cases "mk_Order upd")
        (simp_all add: paper_replace_def upd_def [symmetric] tasks_of_def is_open_def del: not_None_eq)
  qed
  with ok show ?thesis by (auto intro: paper_ok_quiet)
qed

lemma paper_step_ok:
  assumes ok: "paper_ok cid b" and al: "paper_allowed cid b i"
  shows "paper_ok cid (paper_step b i) \<and> (\<exists>new. pb_events (paper_step b i) = pb_events b @ new)"
proof (cases i)
  case (P_Connect now)
  let ?b = "b\<lparr>pb_connected := True\<rparr>"
  have k: "is_open ?b cid = is_open b cid" "tasks_of cid ?b = tasks_of cid b" by (simp_all add: is_open_def tasks_of_def)
  show ?thesis
    by (cases rule: put_connection_cases [of True "''paper broker connected''" now ?b])
      (auto simp: P_Connect paper_connect_def k tasks_of_def intro!: paper_ok_quiet [OF ok])
next
  case (P_Disconnect now)
  let ?b = "b\<lparr>pb_connected := False, pb_tasks := []\<rparr>"
  have k: "is_open ?b cid = is_open b cid" by (simp add: is_open_def)
  show ?thesis
    by (cases rule: put_connection_cases [of False "''paper broker disconnected''" now ?b])
      (auto simp: P_Disconnect paper_disconnect_def k tasks_of_def intro!: paper_ok_quiet [OF ok])
next
  case (P_Submit order)
  with paper_submit_ok [OF ok] al show ?thesis by simp
next
  case (P_Cancel c now)
  with paper_cancel_ok [OF ok] al show ?thesis by simp
next
  case (P_Replace c u)
  with paper_replace_ok [OF ok] show ?thesis by simp
next
  case (P_Resume n price ts)
  with paper_resume_ok [OF ok] show ?thesis by simp
qed

text \<open>The broker meets the contract of an event emitter, for every order id.\<close>

interpretation paper: order_emitter "paper_ok cid" "paper_emit cid" "paper_allowed cid" "paper_fsm cid" for cid
proof
  fix b i
  assume h: "paper_ok cid b" "paper_allowed cid b i"
  note st = paper_step_ok [OF h]
  then show "paper_ok cid (fst (paper_emit cid b i))" by (simp add: paper_emit_def Let_def)
  obtain new where new: "pb_events (paper_step b i) = pb_events b @ new" using st by blast
  obtain s where s: "kinds_run SUBMIT_PENDING (kinds_of cid (pb_events b)) = Some s" using h by (auto simp: paper_ok_def)
  obtain s' where "kinds_run SUBMIT_PENDING (kinds_of cid (pb_events (paper_step b i))) = Some s'"
    using st by (auto simp: paper_ok_def)
  with s show "kinds_run (paper_fsm cid b) (snd (paper_emit cid b i)) = Some (paper_fsm cid (fst (paper_emit cid b i)))"
    by (simp add: paper_emit_def Let_def paper_fsm_def new kinds_run_append)
qed

section \<open>Properties\<close>

fun paper_run :: "PaperBroker \<Rightarrow> paper_input list \<Rightarrow> PaperBroker" where
  "paper_run b [] = b"
| "paper_run b (i # is) = paper_run (paper_step b i) is"

fun paper_run_allowed :: "uuid \<Rightarrow> PaperBroker \<Rightarrow> paper_input list \<Rightarrow> bool" where
  "paper_run_allowed cid b [] = True"
| "paper_run_allowed cid b (i # is) = (paper_allowed cid b i \<and> paper_run_allowed cid (paper_step b i) is)"

lemma paper_run_emit:
  assumes "paper_ok cid b" "paper_run_allowed cid b is"
  shows "paper.all_allowed cid b is \<and> fst (paper.emit_run cid b is) = paper_run b is \<and>
    kinds_of cid (pb_events (paper_run b is)) = kinds_of cid (pb_events b) @ snd (paper.emit_run cid b is)"
  using assms
proof (induction "is" arbitrary: b)
  case (Cons i "is")
  then have al: "paper_allowed cid b i" "paper_run_allowed cid (paper_step b i) is" by simp_all
  from paper_step_ok [OF Cons.prems(1) al(1)] obtain new where
    new: "paper_ok cid (paper_step b i)" "pb_events (paper_step b i) = pb_events b @ new" by blast
  then have "paper_emit cid b i = (paper_step b i, kinds_of cid new)" by (simp add: paper_emit_def Let_def)
  with Cons.IH [OF new(1) al(2)] al new(2) show ?case by (simp add: Let_def split_beta)
qed simp

lemma paper_init_ok: "paper_ok cid (paper_init config)"
  by (simp add: paper_ok_def paper_init_def is_open_def tasks_of_def)

text \<open>C13: the paper broker honours the order machine: whatever calls the engine makes and in whatever order
  the sleeping lifecycles resume, with any price callback and clock, the events published for an order id are
  those of a run of the machine from SUBMIT_CALL on, provided the engine submits the id once and cancels it only
  after its SUBMITTED event.\<close>

theorem paper_events_conform:
  assumes "paper_run_allowed cid (paper_init config) is"
  shows "\<exists>ts s. fsm_run INITIALIZED (SUBMIT_CALL # ts) = Some (s, kinds_of cid (pb_events (paper_run (paper_init config) is)))"
proof -
  note ok = paper_init_ok [of cid config]
  note em = paper_run_emit [OF ok assms]
  have e0: "paper_fsm cid (paper_init config) = SUBMIT_PENDING" "kinds_of cid (pb_events (paper_init config)) = []"
    by (simp_all add: paper_fsm_def paper_init_def)
  have "kinds_run SUBMIT_PENDING (snd (paper.emit_run cid (paper_init config) is)) =
      Some (paper_fsm cid (fst (paper.emit_run cid (paper_init config) is)))"
    using paper.emit_run_legal [OF ok, of "is"] em e0 by simp
  then obtain ts where "fsm_run SUBMIT_PENDING ts = Some (paper_fsm cid (fst (paper.emit_run cid (paper_init config) is)),
      snd (paper.emit_run cid (paper_init config) is))"
    using kinds_fsm_run by blast
  with em e0(2) show ?thesis by (intro exI [of _ ts]) simp
qed

definition ex_paper_config :: PaperConfig where
  "ex_paper_config = \<lparr>pc_commission = Dec 5 (-3), pc_ack = 0, pc_accept = 1, pc_fill = 0, pc_base = ''USD'', pc_cash = dint 1000000\<rparr>"

definition ex_paper_order :: "OrderType \<Rightarrow> Order" where
  "ex_paper_order ty = \<lparr>o_id = 1, o_strategy = ''s'', o_instrument = ex_instrument, o_side = BUY, o_quantity = dint 10,
     o_type = ty, o_tif = DAY, o_limit = (if ty = MKT then None else Some (dint 9)), o_stop = None, o_parent = None,
     o_tags = [], o_created = utc 0\<rparr>"

theorem paper_events_conform_witness:
  "kinds_of 1 (pb_events (paper_run (paper_init ex_paper_config)
      [P_Connect (utc 1), P_Submit (ex_paper_order MKT), P_Resume 0 (\<lambda>_. Inr (dint 30)) (\<lambda>n. utc 2), P_Cancel 1 (utc 3)]))
    = [EV_SUBMITTED, EV_CANCELED] \<and>
   (\<exists>ts s. fsm_run INITIALIZED (SUBMIT_CALL # ts) = Some (s, [EV_SUBMITTED, EV_CANCELED]))"
proof -
  let ?is = "[P_Connect (utc 1), P_Submit (ex_paper_order MKT), P_Resume 0 (\<lambda>_. Inr (dint 30)) (\<lambda>n. utc 2), P_Cancel 1 (utc 3)]"
  note defs = paper_connect_def put_connection_def mk_ConnectionStatus_def ConnectionStatus_checks_def validated_def require_utc_def
    paper_init_def put_event_def paper_submit_def paper_resume_def stage_start_def stage_ack_def is_open_def put_order_event_def
    mk_OrderEvent_def OrderEvent_checks_def needs_fill_def ex_paper_config_def ex_paper_order_def paper_cancel_def delete_open_def
    falsy_def tasks_of_def bindS_def
  have k: "kinds_of 1 (pb_events (paper_run (paper_init ex_paper_config) ?is)) = [EV_SUBMITTED, EV_CANCELED]"
    by (simp add: defs Let_def)
  have "paper_run_allowed 1 (paper_init ex_paper_config) ?is"
    by (simp add: defs Let_def)
  from paper_events_conform [OF this] k show ?thesis by simp
qed


text \<open>The conditions under which a fill of an order by the matcher is a valid \<open>Fill\<close>.\<close>

definition fillable :: "PaperConfig \<Rightarrow> Order \<Rightarrow> decimal \<Rightarrow> bool" where
  "fillable config order price \<longleftrightarrow>
     0 < dval (o_quantity order) \<and> 0 < dval price \<and> 0 \<le> dval (pc_commission config) \<and>
     iso_currency (i_currency (o_instrument order))"

definition paper_fill :: "PaperConfig \<Rightarrow> Order \<Rightarrow> string \<Rightarrow> decimal \<Rightarrow> datetime \<Rightarrow> Fill" where
  "paper_fill config order v price now =
     \<lparr>f_order = o_id order, f_venue_order = v, f_exec = v @ ''-exec-1'', f_instrument = o_instrument order,
      f_side = o_side order, f_quantity = o_quantity order, f_price = price,
      f_commission = dmul (pc_commission config) (o_quantity order), f_currency = i_currency (o_instrument order), f_time = now\<rparr>"

lemma mk_paper_fill:
  assumes "fillable config order price" "is_utc now"
  shows "mk_Fill (paper_fill config order v price now) = Inr (paper_fill config order v price now)"
proof -
  have "0 \<le> dval (dmul (pc_commission config) (o_quantity order))"
    using assms rounded_lower [OF dmul_rounded repr28_0] by (simp add: fillable_def)
  with assms have "Fill_ok (paper_fill config order v price now)"
    by (simp add: Fill_ok_iff paper_fill_def fillable_def)
  then show ?thesis by (simp add: mk_Fill_def validated_ok Fill_ok_def)
qed

lemma put_order_event_utc:
  assumes "payload_ok k now r f"
  shows "put_order_event cid v k r f now b = (Inr (), put_event (BE_Order \<lparr>e_order = cid, e_venue_order = v, e_kind = k,
    e_reason = r, e_time = now, e_fill = f\<rparr>) b)"
  using assms mk_OrderEvent_ok [of "\<lparr>e_order = cid, e_venue_order = v, e_kind = k, e_reason = r, e_time = now, e_fill = f\<rparr>"]
  by (simp add: put_order_event_def)

lemma connected_simps [simp]:
  "pb_connected (put_event e b) = pb_connected b" "pb_connected (delete_open cid b) = pb_connected b"
  "pb_open (delete_open cid b) = filter (\<lambda>(k, _). k \<noteq> cid) (pb_open b)"
  by (simp_all add: put_event_def delete_open_def)

lemma stage_fill_fills:
  assumes "is_open b (o_id order)" "price (o_instrument order) = Inr pr" "fillable (pb_config b) order pr" "is_utc (ts 2)" "is_utc (ts 3)"
  shows "stage_fill order v price ts b = (Inr None, put_event (BE_Order \<lparr>e_order = o_id order, e_venue_order = Some v,
     e_kind = EV_FILLED, e_reason = None, e_time = ts 3, e_fill = Some (paper_fill (pb_config b) order v pr (ts 2))\<rparr>)
     (delete_open (o_id order) b))"
  using assms mk_paper_fill [OF assms(3,4), of v]
    put_order_event_utc [of EV_FILLED "ts 3" None "Some (paper_fill (pb_config b) order v pr (ts 2))" "o_id order" "Some v" "delete_open (o_id order) b"]
  by (simp add: stage_fill_def paper_fill_def [symmetric] payload_ok_def needs_fill_def bindS_eq)

lemma market_order_run:
  assumes "pb_connected b" "\<not> is_open b (o_id order)" "o_type order = MKT"
    "pc_ack (pb_config b) = 0" "pc_accept (pb_config b) = 0" "pc_fill (pb_config b) = 0"
    "price (o_instrument order) = Inr pr" "fillable (pb_config b) order pr" "\<forall>n. is_utc (ts n)"
  shows "\<exists>v b'. paper_run b [P_Submit order, P_Resume (length (pb_tasks b)) price ts] = b' \<and> \<not> is_open b' (o_id order) \<and>
    pb_tasks b' = pb_tasks b \<and> pb_connected b' = pb_connected b \<and> pb_config b' = pb_config b \<and>
    pb_open b' = filter (\<lambda>(k, _). k \<noteq> o_id order) (pb_open b) \<and>
    pb_events b' = pb_events b @ map (\<lambda>(k, t, f). BE_Order \<lparr>e_order = o_id order, e_venue_order = Some v, e_kind = k,
        e_reason = None, e_time = t, e_fill = f\<rparr>)
      [(EV_SUBMITTED, ts 0, None), (EV_ACCEPTED, ts 1, None), (EV_FILLED, ts 3, Some (paper_fill (pb_config b) order v pr (ts 2)))]"
proof -
  define v where "v = venue_id (pb_next_seq b)"
  define b1 where "b1 = b\<lparr>pb_open := pb_open b @ [(o_id order, order)], pb_next_seq := pb_next_seq b + 1,
      pb_venue := (pb_venue b)(o_id order \<mapsto> v)\<rparr>"
  have sub: "paper_step b (P_Submit order) = b1\<lparr>pb_tasks := pb_tasks b @ [\<lparr>pt_order = order, pt_venue = v, pt_phase = LP_START\<rparr>]\<rparr>"
    using assms(1,2) by (simp add: paper_submit_def b1_def v_def)
  have op: "is_open b1 (o_id order)" using is_open_append [of "pb_open b"] by (simp add: is_open_def b1_def)
  have cfg: "pb_config b1 = pb_config b" "pb_events b1 = pb_events b" "pb_tasks b1 = pb_tasks b" "pb_connected b1 = pb_connected b"
    "pb_open b1 = pb_open b @ [(o_id order, order)]" by (simp_all add: b1_def)
  have pay: "payload_ok EV_SUBMITTED (ts 0) None None" "payload_ok EV_ACCEPTED (ts 1) None None"
    using assms(9) by (simp_all add: payload_ok_def needs_fill_def)
  let ?e = "\<lambda>k t. \<lparr>e_order = o_id order, e_venue_order = Some v, e_kind = k, e_reason = None, e_time = t, e_fill = None\<rparr>"
  let ?b2 = "put_event (BE_Order (?e EV_SUBMITTED (ts 0))) b1"
  let ?b3 = "put_event (BE_Order (?e EV_ACCEPTED (ts 1))) ?b2"
  have "stage_of LP_START order v price ts b1 = stage_fill order v price ts ?b3"
    using op assms(3-6) put_order_event_utc [OF pay(1), of "o_id order" "Some v" b1]
      put_order_event_utc [OF pay(2), of "o_id order" "Some v" ?b2]
    by (simp add: stage_start_def stage_ack_def stage_accept_def bindS_eq cfg)
  also have "\<dots> = (Inr None, put_event (BE_Order \<lparr>e_order = o_id order, e_venue_order = Some v,
     e_kind = EV_FILLED, e_reason = None, e_time = ts 3, e_fill = Some (paper_fill (pb_config b) order v pr (ts 2))\<rparr>)
     (delete_open (o_id order) ?b3))"
    using stage_fill_fills [of ?b3 order price pr ts v] op assms(7-9) by (simp add: cfg)
  finally have st: "stage_of LP_START order v price ts b1 = \<dots>" .
  have "b1\<lparr>pb_tasks := pb_tasks b\<rparr> = b1" by (simp add: b1_def)
  then have "paper_run b [P_Submit order, P_Resume (length (pb_tasks b)) price ts] = put_event (BE_Order \<lparr>e_order = o_id order,
     e_venue_order = Some v, e_kind = EV_FILLED, e_reason = None, e_time = ts 3,
     e_fill = Some (paper_fill (pb_config b) order v pr (ts 2))\<rparr>) (delete_open (o_id order) ?b3)"
    using st sub by (simp add: paper_resume_def del: stage_of.simps)
  then show ?thesis by (intro exI [of _ v]) (simp add: cfg)
qed

text \<open>A market order on a connected broker fills: with zero latencies, the first time its lifecycle runs it
  publishes SUBMITTED, ACCEPTED and FILLED, in this order, the fill being for the full quantity at the price of the
  callback with the commission per share, and the order is no longer open.\<close>

theorem market_order_fills:
  assumes "pb_connected b" "\<not> is_open b (o_id order)" "o_type order = MKT"
    "pc_ack (pb_config b) = 0" "pc_accept (pb_config b) = 0" "pc_fill (pb_config b) = 0"
    "price (o_instrument order) = Inr pr" "fillable (pb_config b) order pr" "\<forall>n. is_utc (ts n)"
  shows "\<exists>v b'. paper_run b [P_Submit order, P_Resume (length (pb_tasks b)) price ts] = b' \<and> \<not> is_open b' (o_id order) \<and>
    pb_tasks b' = pb_tasks b \<and>
    pb_events b' = pb_events b @ map (\<lambda>(k, t, f). BE_Order \<lparr>e_order = o_id order, e_venue_order = Some v, e_kind = k,
        e_reason = None, e_time = t, e_fill = f\<rparr>)
      [(EV_SUBMITTED, ts 0, None), (EV_ACCEPTED, ts 1, None), (EV_FILLED, ts 3, Some (paper_fill (pb_config b) order v pr (ts 2)))]"
  using market_order_run [of b order price pr ts] assms by blast

definition ex_connected :: PaperBroker where
  "ex_connected = (paper_init (ex_paper_config\<lparr>pc_accept := 0\<rparr>))\<lparr>pb_connected := True\<rparr>"

lemma ex_connected_simps [simp]:
  "pb_connected ex_connected" "\<not> is_open ex_connected cid" "pb_tasks ex_connected = []" "pb_events ex_connected = []"
  "pc_ack (pb_config ex_connected) = 0" "pc_accept (pb_config ex_connected) = 0" "pc_fill (pb_config ex_connected) = 0"
  "fillable (pb_config ex_connected) (ex_paper_order ty) (dint 30)"
proof -
  have "iso_currency ''USD''" by (simp add: iso_currency_def py_string_defs)
  then show "fillable (pb_config ex_connected) (ex_paper_order ty) (dint 30)"
    by (simp add: fillable_def ex_connected_def ex_paper_config_def ex_paper_order_def paper_init_def ex_instrument_def)
qed (simp_all add: ex_connected_def paper_init_def is_open_def ex_paper_config_def)

lemma ex_paper_order_simps [simp]: "o_id (ex_paper_order ty) = 1" "o_type (ex_paper_order ty) = ty"
  by (simp_all add: ex_paper_order_def)

theorem market_order_fills_witness:
  "kinds_of 1 (pb_events (paper_run ex_connected [P_Submit (ex_paper_order MKT), P_Resume 0 (\<lambda>_. Inr (dint 30)) (\<lambda>_. utc 5)]))
    = [EV_SUBMITTED, EV_ACCEPTED, EV_FILLED]"
  using market_order_fills [of ex_connected "ex_paper_order MKT" "\<lambda>_. Inr (dint 30)" "dint 30" "\<lambda>_. utc 5"] by auto

text \<open>A cancel that overtakes the acknowledgement breaks the order machine: submitting a fresh order and
  cancelling it before its lifecycle ran publishes CANCELED as the order's only event, which no run of the
  machine emits (there is no CANCEL out of SUBMIT_PENDING).\<close>

theorem early_cancel_breaks_fsm:
  assumes "pb_connected b" "\<not> is_open b (o_id order)" "kinds_of (o_id order) (pb_events b) = []" "is_utc now"
  shows "kinds_of (o_id order) (pb_events (paper_run b [P_Submit order, P_Cancel (o_id order) now])) = [EV_CANCELED] \<and>
    (\<forall>ts s. fsm_run INITIALIZED (SUBMIT_CALL # ts) \<noteq> Some (s, [EV_CANCELED]))"
proof
  define b1 where "b1 = paper_step b (P_Submit order)"
  have op: "is_open b1 (o_id order)" and ev: "pb_events b1 = pb_events b"
    using assms(1,2) is_open_append [of "pb_open b"] by (simp_all add: b1_def paper_submit_def is_open_def)
  have "payload_ok EV_CANCELED now (Some ''engine'') None"
    using assms(4) by (simp add: payload_ok_def needs_fill_def falsy_def)
  from put_order_event_utc [OF this] op ev assms(3)
  show "kinds_of (o_id order) (pb_events (paper_run b [P_Submit order, P_Cancel (o_id order) now])) = [EV_CANCELED]"
    by (simp add: b1_def [symmetric] paper_cancel_def bindS_eq del: paper_step.simps(3))
  show "\<forall>ts s. fsm_run INITIALIZED (SUBMIT_CALL # ts) \<noteq> Some (s, [EV_CANCELED])"
    using fsm_run_kinds [of SUBMIT_PENDING _ _ "[EV_CANCELED]"] by (auto split: option.splits)
qed

theorem early_cancel_breaks_fsm_witness:
  "kinds_of 1 (pb_events (paper_run ex_connected [P_Submit (ex_paper_order LMT), P_Cancel 1 (utc 5)])) = [EV_CANCELED]"
  using early_cancel_breaks_fsm [of ex_connected "ex_paper_order LMT" "utc 5"] by simp

text \<open>Idempotency ends with the fill: submitting the same market order again after it filled fills it a
  second time, under the same client order id.\<close>

theorem resubmit_fills_again:
  assumes "pb_connected b" "\<not> is_open b (o_id order)" "o_type order = MKT" "pb_tasks b = []"
    "pc_ack (pb_config b) = 0" "pc_accept (pb_config b) = 0" "pc_fill (pb_config b) = 0"
    "price (o_instrument order) = Inr pr" "fillable (pb_config b) order pr" "\<forall>n. is_utc (ts n)"
    and run: "once = paper_run b [P_Submit order, P_Resume 0 price ts]"
  shows "kinds_of (o_id order) (pb_events (paper_run once [P_Submit order, P_Resume 0 price ts])) =
    kinds_of (o_id order) (pb_events b) @ [EV_SUBMITTED, EV_ACCEPTED, EV_FILLED, EV_SUBMITTED, EV_ACCEPTED, EV_FILLED]"
proof -
  note r = market_order_run [of b order price pr ts, OF assms(1-3,5-10)]
  have once: "\<not> is_open once (o_id order)" "pb_tasks once = []" "pb_connected once" "pb_config once = pb_config b"
    "kinds_of (o_id order) (pb_events once) = kinds_of (o_id order) (pb_events b) @ [EV_SUBMITTED, EV_ACCEPTED, EV_FILLED]"
    using r assms(1,4) unfolding run by auto
  have "kinds_of (o_id order) (pb_events (paper_run once [P_Submit order, P_Resume (length (pb_tasks once)) price ts])) =
      kinds_of (o_id order) (pb_events once) @ [EV_SUBMITTED, EV_ACCEPTED, EV_FILLED]"
    using market_order_run [of once order price pr ts] once(1-4) assms(3,5-10) by auto
  with once show ?thesis by simp
qed

theorem resubmit_fills_again_witness:
  "kinds_of 1 (pb_events (paper_run ex_connected [P_Submit (ex_paper_order MKT), P_Resume 0 (\<lambda>_. Inr (dint 30)) (\<lambda>_. utc 5),
     P_Submit (ex_paper_order MKT), P_Resume 0 (\<lambda>_. Inr (dint 30)) (\<lambda>_. utc 5)]))
    = [EV_SUBMITTED, EV_ACCEPTED, EV_FILLED, EV_SUBMITTED, EV_ACCEPTED, EV_FILLED]"
  using resubmit_fills_again [of ex_connected "ex_paper_order MKT" "\<lambda>_. Inr (dint 30)" "dint 30" "\<lambda>_. utc 5", OF _ _ _ _ _ _ _ _ _ _ refl]
  by simp

text \<open>A replace is not seen by the matcher: after \<open>replace\<close> changed the quantity of an open order, the
  sleeping lifecycle still fills the order it was started with, for the old quantity.\<close>

theorem replace_ignored_by_fill:
  assumes "paper_replace (o_id order) u b = (Inr (), b')" "map_of (pb_open b) (o_id order) = Some order" "u_quantity u = Some q"
    "price (o_instrument order) = Inr pr" "fillable (pb_config b) order pr" "is_utc (ts 2)" "is_utc (ts 3)"
  shows "\<exists>r f b''. map_of (pb_open b') (o_id order) = Some r \<and> o_quantity r = q \<and>
    stage_fill order v price ts b' = (Inr None, b'') \<and>
    pb_events b'' = pb_events b @ [BE_Order \<lparr>e_order = o_id order, e_venue_order = Some v, e_kind = EV_FILLED, e_reason = None,
      e_time = ts 3, e_fill = Some f\<rparr>] \<and> f_quantity f = o_quantity order"
proof -
  let ?upd = "order\<lparr>o_quantity := q, o_limit := or_else (u_limit u) (o_limit order), o_stop := or_else (u_stop u) (o_stop order)\<rparr>"
  obtain r where r: "mk_Order ?upd = Inr r"
    and b': "b' = b\<lparr>pb_open := map (\<lambda>(k, x). (k, if k = o_id order then r else x)) (pb_open b)\<rparr>"
    using assms(1-3) by (cases "mk_Order ?upd") (auto simp: paper_replace_def)
  have rq: "o_quantity r = q" using r by (simp add: mk_Order_def validated_eq_Inr)
  have mo: "map_of (map (\<lambda>(k, x). (k, if k = c then r else x)) xs) c = Some r" if "map_of xs c = Some y" for xs c and y :: Order
    using that by (induction xs) (auto split: if_splits)
  have m: "map_of (pb_open b') (o_id order) = Some r" using mo [OF assms(2)] by (simp add: b')
  then have op: "is_open b' (o_id order)" by (simp add: is_open_def)
  have cfg: "pb_config b' = pb_config b" "pb_events b' = pb_events b" by (simp_all add: b')
  from stage_fill_fills [of b' order price pr ts v] op assms(4-7) m rq show ?thesis
    by (simp add: cfg paper_fill_def)
qed

theorem replace_ignored_by_fill_witness:
  "\<exists>b' b'' f e. paper_replace 1 \<lparr>u_quantity = Some (dint 4), u_limit = None, u_stop = None\<rparr>
      (paper_run ex_connected [P_Submit (ex_paper_order MKT)]) = (Inr (), b') \<and>
    stage_fill (ex_paper_order MKT) ''V'' (\<lambda>_. Inr (dint 30)) (\<lambda>_. utc 5) b' = (Inr None, b'') \<and>
    e_fill e = Some f \<and> pb_events b'' = [BE_Order e] \<and> f_quantity f = dint 10"
proof -
  let ?b = "paper_run ex_connected [P_Submit (ex_paper_order MKT)]"
  let ?u = "\<lparr>u_quantity = Some (dint 4), u_limit = None, u_stop = None\<rparr>"
  have b: "map_of (pb_open ?b) 1 = Some (ex_paper_order MKT)" "pb_config ?b = pb_config ex_connected" "pb_events ?b = []"
    by (simp_all add: paper_submit_def) (simp_all add: ex_connected_def paper_init_def)
  have "is_ok (mk_Order ((ex_paper_order MKT)\<lparr>o_quantity := dint 4, o_limit := None, o_stop := None\<rparr>))"
    by (simp add: ex_paper_order_def mk_Order_def validated_def Order_checks_def needs_limit_def needs_stop_def
        require_utc_def decimal_simps)
  then obtain r where r: "mk_Order ((ex_paper_order MKT)\<lparr>o_quantity := dint 4, o_limit := None, o_stop := None\<rparr>) = Inr r"
    by (auto simp: is_ok_iff)
  have none: "o_limit (ex_paper_order MKT) = None" "o_stop (ex_paper_order MKT) = None" by (simp_all add: ex_paper_order_def)
  have "\<exists>b'. paper_replace 1 ?u B = (Inr (), b')" if "map_of (pb_open B) 1 = Some (ex_paper_order MKT)" for B
    using that r none by (simp add: paper_replace_def or_else_def)
  then obtain b' where b': "paper_replace 1 ?u ?b = (Inr (), b')" using b(1) by blast
  have "paper_replace (o_id (ex_paper_order MKT)) ?u ?b = (Inr (), b')" "map_of (pb_open ?b) (o_id (ex_paper_order MKT)) = Some (ex_paper_order MKT)"
    using b' b(1) by simp_all
  from replace_ignored_by_fill [OF this, of "dint 4" "\<lambda>_. Inr (dint 30)" "dint 30" "\<lambda>_. utc 5" "''V''"]
  obtain b'' f where "stage_fill (ex_paper_order MKT) ''V'' (\<lambda>_. Inr (dint 30)) (\<lambda>_. utc 5) b' = (Inr None, b'')"
    "pb_events b'' = pb_events ?b @ [BE_Order \<lparr>e_order = 1, e_venue_order = Some ''V'', e_kind = EV_FILLED, e_reason = None,
      e_time = utc 5, e_fill = Some f\<rparr>]" "f_quantity f = o_quantity (ex_paper_order MKT)"
    unfolding b(2) by auto
  moreover have "o_quantity (ex_paper_order MKT) = dint 10" by (simp add: ex_paper_order_def)
  ultimately show ?thesis using b' b(3) by (intro exI conjI) auto
qed

text \<open>An order can vanish: when the price callback raises for an open order about to fill, the order leaves
  the open book, no event is published for it, and its lifecycle is over, so no terminal event ever follows.\<close>

theorem price_failure_loses_order:
  assumes "is_open b (o_id order)" "price (o_instrument order) = Inl x"
  shows "stage_fill order v price ts b = (Inl x, delete_open (o_id order) b) \<and>
    pb_events (delete_open (o_id order) b) = pb_events b \<and> \<not> is_open (delete_open (o_id order) b) (o_id order)"
  using assms by (simp add: stage_fill_def)

theorem price_failure_loses_order_witness:
  "\<not> is_open (snd (stage_fill (ex_paper_order MKT) ''V'' (\<lambda>_. Inl (KeyError ''SPY'')) (\<lambda>_. utc 5)
    (paper_run ex_connected [P_Submit (ex_paper_order MKT)]))) 1"
proof -
  have "is_open (paper_run ex_connected [P_Submit (ex_paper_order MKT)]) (o_id (ex_paper_order MKT))"
    by (simp add: paper_submit_def) (simp add: is_open_def ex_connected_def paper_init_def)
  from price_failure_loses_order [OF this, of "\<lambda>_. Inl (KeyError ''SPY'')" "KeyError ''SPY''" "''V''" "\<lambda>_. utc 5"] show ?thesis by simp
qed

end
