(* ===== verification/InstrumentCache.thy ===== *)
theory InstrumentCache
  imports DomainTypes
begin

text \<open>
  A cache keyed by instruments, as the adapters keep them in a \<open>dict[Instrument, ...]\<close>: keys are
  compared by dataclass equality (\<open>inst_eq\<close>, which compares the multiplier by value), an assignment
  to an equal key keeps the old key.  The locale \<open>keyed_cache\<close> states the laws of such a
  dictionary and proves once what a lookup-or-compute routine over it guarantees.
\<close>

section \<open>The dictionary\<close>

type_synonym 'v inst_cache = "(Instrument \<times> 'v) list"

fun cache_get :: "'v inst_cache \<Rightarrow> Instrument \<Rightarrow> 'v option" where
  "cache_get [] i = None"
| "cache_get ((k, v) # c) i = (if inst_eq k i then Some v else cache_get c i)"

fun cache_put :: "Instrument \<Rightarrow> 'v \<Rightarrow> 'v inst_cache \<Rightarrow> 'v inst_cache" where
  "cache_put i v [] = [(i, v)]"
| "cache_put i v ((k, w) # c) = (if inst_eq k i then (k, v) # c else (k, w) # cache_put i v c)"

fun cache_pop :: "Instrument \<Rightarrow> 'v inst_cache \<Rightarrow> 'v inst_cache" where
  "cache_pop i [] = []"
| "cache_pop i ((k, w) # c) = (if inst_eq k i then c else (k, w) # cache_pop i c)"

text \<open>No two keys of the dictionary are equal.\<close>

fun cache_wf :: "'v inst_cache \<Rightarrow> bool" where
  "cache_wf [] = True"
| "cache_wf ((k, v) # c) = (list_all (\<lambda>(k', _). \<not> inst_eq k k') c \<and> cache_wf c)"

definition clear_entry :: "Instrument option \<Rightarrow> 'v inst_cache \<Rightarrow> 'v inst_cache" where
  "clear_entry which c = (case which of None \<Rightarrow> [] | Some i \<Rightarrow> cache_pop i c)"

lemma inst_eq_self [simp]: "inst_eq a a"
  by (simp add: inst_eq_def dec_eq_iff)

lemma inst_eq_sym: "inst_eq a b \<longleftrightarrow> inst_eq b a"
  by (auto simp: inst_eq_def dec_eq_iff)

lemma inst_eq_trans: "inst_eq a b \<Longrightarrow> inst_eq b c \<Longrightarrow> inst_eq a c"
  by (auto simp: inst_eq_def dec_eq_iff)

lemma inst_eq_subst: "inst_eq a b \<Longrightarrow> inst_eq a c \<longleftrightarrow> inst_eq b c"
  using inst_eq_trans inst_eq_sym by blast

lemma cache_get_put: "cache_get (cache_put i v c) j = (if inst_eq i j then Some v else cache_get c j)"
proof (induction i v c rule: cache_put.induct)
  case (2 i v k w c)
  then show ?case using inst_eq_subst [of k i j] inst_eq_subst [of k j i] inst_eq_sym [of i k] inst_eq_sym [of i j] by auto
qed simp

lemma cache_put_keys: "list_all (\<lambda>(k', _). \<not> inst_eq k k') (cache_put i v c) \<longleftrightarrow>
    list_all (\<lambda>(k', _). \<not> inst_eq k k') c \<and> \<not> inst_eq k i"
proof (induction i v c rule: cache_put.induct)
  case (2 i v k' w c)
  then show ?case using inst_eq_trans [of k i k'] inst_eq_trans [of k k' i] inst_eq_sym [of i k'] by auto
qed simp

lemma cache_wf_put: "cache_wf c \<Longrightarrow> cache_wf (cache_put i v c)"
proof (induction i v c rule: cache_put.induct)
  case (2 i v k w c)
  then show ?case by (auto simp: cache_put_keys)
qed simp

lemma cache_get_absent: "list_all (\<lambda>(k', _). \<not> inst_eq i k') c \<Longrightarrow> cache_get c i = None"
  by (induction c i rule: cache_get.induct) (auto simp: inst_eq_sym)

lemma cache_absent_subst: "inst_eq i j \<Longrightarrow> list_all (\<lambda>(k', _). \<not> inst_eq i k') c \<longleftrightarrow> list_all (\<lambda>(k', _). \<not> inst_eq j k') c"
  using inst_eq_subst [of i j] by (induction c) auto

lemma cache_get_pop: "cache_wf c \<Longrightarrow> cache_get (cache_pop i c) j = (if inst_eq i j then None else cache_get c j)"
proof (induction i c rule: cache_pop.induct)
  case (2 i k w c)
  show ?case
  proof (cases "inst_eq k i")
    case True
    then have ij: "inst_eq i j \<longleftrightarrow> inst_eq k j" using inst_eq_subst by blast
    show ?thesis
    proof (cases "inst_eq k j")
      case kj: True
      with 2 True have "cache_get c j = None" using cache_absent_subst [OF kj, of c] by (simp add: cache_get_absent)
      with True kj ij show ?thesis by simp
    qed (use True ij in simp)
  next
    case False
    then have "inst_eq k j \<Longrightarrow> \<not> inst_eq i j" using inst_eq_trans inst_eq_sym by blast
    with 2 False show ?thesis by auto
  qed
qed simp

lemma cache_pop_keys: "list_all P c \<Longrightarrow> list_all P (cache_pop i c)"
  by (induction i c rule: cache_pop.induct) auto

lemma cache_wf_pop: "cache_wf c \<Longrightarrow> cache_wf (cache_pop i c)"
  by (induction i c rule: cache_pop.induct) (auto simp: cache_pop_keys)

section \<open>Lookup or compute\<close>

text \<open>
  A client looks a key up and computes the value only on a miss, storing it when the computation
  succeeds.  \<open>memo\<close> is that routine over any dictionary that satisfies the laws; \<open>sound\<close> says that
  every stored value is what the computation gives for a key equal to the one it is stored for.
\<close>

locale keyed_cache =
  fixes get :: "'c \<Rightarrow> 'k \<Rightarrow> 'v option"
    and put :: "'k \<Rightarrow> 'v \<Rightarrow> 'c \<Rightarrow> 'c"
    and clr :: "'k option \<Rightarrow> 'c \<Rightarrow> 'c"
    and same :: "'k \<Rightarrow> 'k \<Rightarrow> bool"
    and wf :: "'c \<Rightarrow> bool"
  assumes same_refl: "same k k"
    and get_put: "get (put k v c) j = (if same k j then Some v else get c j)"
    and get_clear_one: "wf c \<Longrightarrow> get (clr (Some k) c) j = (if same k j then None else get c j)"
    and get_clear_all: "get (clr None c) j = None"
    and wf_put: "wf c \<Longrightarrow> wf (put k v c)"
    and wf_clear: "wf c \<Longrightarrow> wf (clr w c)"
begin

definition memo :: "('k \<Rightarrow> 'v res) \<Rightarrow> 'k \<Rightarrow> 'c \<Rightarrow> 'v res \<times> 'c" where
  "memo f k c = (case get c k of
      Some v \<Rightarrow> (Inr v, c)
    | None \<Rightarrow> (case f k of Inl e \<Rightarrow> (Inl e, c) | Inr v \<Rightarrow> (Inr v, put k v c)))"

definition sound :: "('k \<Rightarrow> 'v res) \<Rightarrow> 'c \<Rightarrow> bool" where
  "sound f c \<longleftrightarrow> wf c \<and> (\<forall>k v. get c k = Some v \<longrightarrow> (\<exists>j. same j k \<and> f j = Inr v))"

lemma sound_memo: "sound f c \<Longrightarrow> sound f (snd (memo f k c))"
  by (auto simp: sound_def memo_def get_put wf_put split: option.splits sum.splits)

lemma sound_clear: "sound f c \<Longrightarrow> sound f (clr w c)"
  by (cases w) (auto simp: sound_def get_clear_one get_clear_all wf_clear split: if_splits)

lemma memo_result: "sound f c \<Longrightarrow> \<exists>j. same j k \<and> fst (memo f k c) = f j"
  using same_refl by (cases "get c k"; cases "f k") (fastforce simp: sound_def memo_def)+

lemma memo_hit: "fst (memo f k c) = Inr v \<Longrightarrow> get (snd (memo f k c)) k = Some v"
  by (auto simp: memo_def get_put same_refl split: option.splits sum.splits)

lemma memo_error: "fst (memo f k c) = Inl e \<Longrightarrow> snd (memo f k c) = c \<and> get c k = None"
  by (auto simp: memo_def split: option.splits sum.splits)

text \<open>A run of lookups (\<open>Inl k\<close>) and clears (\<open>Inr w\<close>).\<close>

fun memo_ops :: "('k \<Rightarrow> 'v res) \<Rightarrow> 'c \<Rightarrow> ('k + 'k option) list \<Rightarrow> 'c" where
  "memo_ops f c [] = c"
| "memo_ops f c (Inl k # ops) = memo_ops f (snd (memo f k c)) ops"
| "memo_ops f c (Inr w # ops) = memo_ops f (clr w c) ops"

lemma sound_ops: "sound f c \<Longrightarrow> sound f (memo_ops f c ops)"
  by (induction f c ops rule: memo_ops.induct) (simp_all add: sound_memo sound_clear)

end

interpretation icache: keyed_cache cache_get cache_put clear_entry inst_eq cache_wf
proof
  show "cache_wf (clear_entry w c)" if "cache_wf c" for w and c :: "'a inst_cache"
    using that by (simp add: clear_entry_def cache_wf_pop split: option.split)
qed (simp_all add: cache_get_put clear_entry_def cache_get_pop cache_wf_put)

end
