(* ===== verification/PaperMarketData.thy ===== *)
theory PaperMarketData
  imports InstrumentCache
begin

text \<open>
  \<open>src/blive/adapters/paper/market_data.py\<close>: bars replayed from a fixture.  A fixture is the table pandas
  reads: its column names and its rows, the prices being \<open>Decimal(str(v))\<close> of the cells and \<open>fr_vwap\<close> None
  where the cell is missing or NaN.  Sorting by opening time is pandas' (rows with one opening time keep their
  order in the model).
\<close>

section \<open>The code\<close>

record fixture_row =
  fw_open_time :: datetime
  fw_close_time :: datetime
  fw_open :: decimal
  fw_high :: decimal
  fw_low :: decimal
  fw_close :: decimal
  fw_volume :: decimal
  fw_vwap :: "decimal option"

record fixture =
  fx_columns :: "string list"
  fx_rows :: "fixture_row list"

definition required_columns :: "string list" where
  "required_columns = [''open_time_utc'', ''close_time_utc'', ''open'', ''high'', ''low'', ''close'', ''volume'']"

definition read_fixture :: "fixture \<Rightarrow> fixture res" where
  "read_fixture df =
     (if \<not> set required_columns \<subseteq> set (fx_columns df)
      then Inl (ValueError ''PaperMarketData fixture is missing required columns'')
      else Inr (df\<lparr>fx_rows := sort_key (\<lambda>r. dt_instant (fw_open_time r)) (fx_rows df)\<rparr>))"

record PaperMarketData =
  md_freq :: string
  md_frames :: "fixture inst_cache"

fun load_frames :: "(Instrument \<times> fixture) list \<Rightarrow> fixture inst_cache \<Rightarrow> fixture inst_cache res" where
  "load_frames [] frames = Inr frames"
| "load_frames ((i, df) # rest) frames = bindR (read_fixture df) (\<lambda>f. load_frames rest (cache_put i f frames))"

definition market_data_init :: "(Instrument \<times> fixture) list \<Rightarrow> string \<Rightarrow> PaperMarketData res" where
  "market_data_init fixtures freq = bindR (load_frames fixtures []) (\<lambda>frames. Inr \<lparr>md_freq = freq, md_frames = frames\<rparr>)"

definition bar_of_row :: "Instrument \<Rightarrow> bool \<Rightarrow> fixture_row \<Rightarrow> Bar res" where
  "bar_of_row i has_vwap r =
     mk_Bar \<lparr>b_instrument = i, b_open_time = fw_open_time r, b_close_time = fw_close_time r, b_open = fw_open r,
       b_high = fw_high r, b_low = fw_low r, b_close = fw_close r, b_volume = fw_volume r,
       b_vwap = (if has_vwap then fw_vwap r else None)\<rparr>"

definition iter_bars :: "PaperMarketData \<Rightarrow> Instrument \<Rightarrow> Bar list res" where
  "iter_bars md i =
     (case cache_get (md_frames md) i of
        None \<Rightarrow> Inl (KeyError (i_symbol i))
      | Some df \<Rightarrow> mapR (bar_of_row i (''vwap'' \<in> set (fx_columns df))) (fx_rows df))"

definition market_bars :: "PaperMarketData \<Rightarrow> Instrument \<Rightarrow> Bar list res" where
  "market_bars md i = iter_bars md i"

definition check_request :: "PaperMarketData \<Rightarrow> Instrument \<Rightarrow> string \<Rightarrow> unit res" where
  "check_request md i freq =
     (if freq \<noteq> md_freq md then Inl (ValueError ''PaperMarketData configured at another freq'')
      else if cache_get (md_frames md) i = None then Inl (KeyError ''no fixture loaded'')
      else Inr ())"

definition subscribe_bars :: "PaperMarketData \<Rightarrow> Instrument \<Rightarrow> string \<Rightarrow> Bar list res" where
  "subscribe_bars md i freq = bindR (check_request md i freq) (\<lambda>_. iter_bars md i)"

definition subscribe_trades :: "PaperMarketData \<Rightarrow> Instrument \<Rightarrow> Trade list res" where
  "subscribe_trades md i = Inl (NotImplementedError ''PaperMarketData.subscribe_trades is out of v1 scope'')"

text \<open>\<open>a <= b\<close> on datetimes.\<close>

definition dt_le :: "datetime \<Rightarrow> datetime \<Rightarrow> bool res" where
  "dt_le a b = bindR (dt_less b a) (\<lambda>lt. Inr (\<not> lt))"

definition in_window :: "datetime \<Rightarrow> datetime \<Rightarrow> Bar \<Rightarrow> bool res" where
  "in_window start stop bar =
     bindR (dt_le start (b_open_time bar)) (\<lambda>a. if \<not> a then Inr False else dt_le (b_close_time bar) stop)"

fun filterR :: "('a \<Rightarrow> bool res) \<Rightarrow> 'a list \<Rightarrow> 'a list res" where
  "filterR p [] = Inr []"
| "filterR p (x # xs) = bindR (p x) (\<lambda>b. bindR (filterR p xs) (\<lambda>ys. Inr (if b then x # ys else ys)))"

definition historical_bars :: "PaperMarketData \<Rightarrow> Instrument \<Rightarrow> string \<Rightarrow> datetime \<Rightarrow> datetime \<Rightarrow> Bar list res" where
  "historical_bars md i freq start stop =
     bindR (check_request md i freq) (\<lambda>_. bindR (iter_bars md i) (filterR (in_window start stop)))"

fun latest_loop :: "datetime \<Rightarrow> Bar option \<Rightarrow> Bar list \<Rightarrow> Bar option res" where
  "latest_loop t best [] = Inr best"
| "latest_loop t best (bar # bars) =
     bindR (dt_le (b_close_time bar) t) (\<lambda>le. if le then latest_loop t (Some bar) bars else Inr best)"

definition latest :: "PaperMarketData \<Rightarrow> Instrument \<Rightarrow> datetime \<Rightarrow> Bar option res" where
  "latest md i on_or_before = bindR (iter_bars md i) (latest_loop on_or_before None)"

definition make_default_cac_pa :: "Instrument res" where
  "make_default_cac_pa = mk_Instrument \<lparr>i_symbol = ''CAC.PA'', i_venue = ''XPAR'', i_currency = ''EUR'',
     i_asset_class = ETF, i_multiplier = dint 1, i_tradability = ''spot''\<rparr>"

section \<open>The bars of an instrument\<close>

definition Bar_ok :: "Bar \<Rightarrow> bool" where
  "Bar_ok b \<longleftrightarrow> checks (Bar_checks b) = Inr ()"

lemma Bar_ok_facts:
  assumes "Bar_ok b"
  shows "is_utc (b_open_time b)" "is_utc (b_close_time b)" "0 < dval (b_close b)" "dval (b_low b) \<le> dval (b_close b)"
    "dt_instant (b_open_time b) < dt_instant (b_close_time b)"
  using assms by (auto simp: Bar_ok_def Bar_checks_def require_utc_def decimal_simps less_eq_datetime_def not_le split: if_splits)

lemma iter_bars_ok:
  assumes "iter_bars md i = Inr bars"
  shows "list_all (\<lambda>b. Bar_ok b \<and> b_instrument b = i) bars"
proof -
  obtain v rows where "list_all2 (\<lambda>r b. bar_of_row i v r = Inr b) rows bars"
    using assms by (auto simp: iter_bars_def mapR_eq_Inr split: option.splits)
  then show ?thesis
    by (auto simp: list_all2_conv_all_nth list_all_length bar_of_row_def mk_Bar_def validated_eq_Inr Bar_ok_def)
qed

lemma load_frames_sorted:
  "load_frames fixtures frames = Inr frames' \<Longrightarrow>
    (\<forall>i df. cache_get frames i = Some df \<longrightarrow> sorted (map (\<lambda>r. dt_instant (fw_open_time r)) (fx_rows df))) \<Longrightarrow>
    cache_get frames' i = Some df \<Longrightarrow> sorted (map (\<lambda>r. dt_instant (fw_open_time r)) (fx_rows df))"
proof (induction fixtures frames rule: load_frames.induct)
  case (2 j g rest frames)
  from "2.prems"(1) obtain f where f: "read_fixture g = Inr f" "load_frames rest (cache_put j f frames) = Inr frames'" by auto
  then have "sorted (map (\<lambda>r. dt_instant (fw_open_time r)) (fx_rows f))"
    by (auto simp: read_fixture_def split: if_splits)
  with "2.prems"(2) have "\<forall>i df. cache_get (cache_put j f frames) i = Some df \<longrightarrow> sorted (map (\<lambda>r. dt_instant (fw_open_time r)) (fx_rows df))"
    by (auto simp: cache_get_put split: if_splits)
  from "2.IH" [OF f(2) this "2.prems"(3)] show ?case .
qed auto

text \<open>A replay is in the order of the opening times.\<close>

lemma bars_in_order:
  assumes "market_data_init fixtures freq = Inr md" "iter_bars md i = Inr bars"
  shows "sorted (map (\<lambda>b. dt_instant (b_open_time b)) bars)"
proof -
  obtain df where df: "cache_get (md_frames md) i = Some df"
      "list_all2 (\<lambda>r b. bar_of_row i (''vwap'' \<in> set (fx_columns df)) r = Inr b) (fx_rows df) bars"
    using assms(2) by (auto simp: iter_bars_def mapR_eq_Inr split: option.splits)
  obtain frames where "load_frames fixtures [] = Inr frames" "md = \<lparr>md_freq = freq, md_frames = frames\<rparr>"
    using assms(1) by (auto simp: market_data_init_def)
  then have "sorted (map (\<lambda>r. dt_instant (fw_open_time r)) (fx_rows df))"
    using load_frames_sorted [of fixtures "[]" frames i df] df(1) by simp
  moreover have "map (\<lambda>b. dt_instant (b_open_time b)) bars = map (\<lambda>r. dt_instant (fw_open_time r)) (fx_rows df)"
    using df(2) by (auto simp: list_all2_conv_all_nth bar_of_row_def mk_Bar_def validated_eq_Inr intro!: nth_equalityI)
  ultimately show ?thesis by simp
qed

lemma latest_loop_takeWhile:
  assumes "list_all Bar_ok bars" "is_utc t"
  shows "latest_loop t best bars =
    Inr (case rev (takeWhile (\<lambda>b. b_close_time b \<le> t) bars) of [] \<Rightarrow> best | b # _ \<Rightarrow> Some b)"
  using assms
proof (induction t best bars rule: latest_loop.induct)
  case (2 t best bar bars)
  have le: "dt_le (b_close_time bar) t = Inr (b_close_time bar \<le> t)"
    using "2.prems" Bar_ok_facts(2) [of bar]
    by (auto simp: dt_le_def less_datetime_def less_eq_datetime_def)
  show ?case
  proof (cases "b_close_time bar \<le> t")
    case True
    with "2.IH" [of True] "2.prems" le show ?thesis
      by (cases "rev (takeWhile (\<lambda>b. b_close_time b \<le> t) bars)") simp_all
  qed (simp add: le)
qed simp

lemma latest_spec:
  assumes "iter_bars md i = Inr bars" "is_utc t" "sorted (map (\<lambda>b. dt_instant (b_close_time b)) bars)"
  shows "\<exists>r. latest md i t = Inr r \<and>
    (case r of None \<Rightarrow> \<forall>c \<in> set bars. t < b_close_time c
     | Some b \<Rightarrow> b \<in> set bars \<and> Bar_ok b \<and> b_instrument b = i \<and> b_close_time b \<le> t \<and>
         (\<forall>c \<in> set bars. b_close_time c \<le> t \<longrightarrow> b_close_time c \<le> b_close_time b))"
proof -
  let ?P = "\<lambda>b. b_close_time b \<le> t"
  have ok: "list_all (\<lambda>b. Bar_ok b \<and> b_instrument b = i) bars" by (rule iter_bars_ok [OF assms(1)])
  have tw: "takeWhile ?P bars = filter ?P bars"
    using assms(3)
  proof (induction bars)
    case (Cons b bs)
    then have "\<not> ?P b \<Longrightarrow> filter ?P bs = []" by (fastforce simp: filter_empty_conv less_eq_datetime_def)
    with Cons show ?case by simp
  qed simp
  have run: "latest md i t = Inr (case rev (filter ?P bars) of [] \<Rightarrow> None | b # _ \<Rightarrow> Some b)"
    using latest_loop_takeWhile [of bars t None] ok assms(1,2) by (simp add: latest_def tw list_all_iff)
  show ?thesis
  proof (cases "filter ?P bars" rule: rev_cases)
    case Nil
    then show ?thesis using run by (auto simp: filter_empty_conv less_eq_datetime_def less_datetime_def)
  next
    case (snoc bs b)
    have srt: "sorted (map (\<lambda>b. dt_instant (b_close_time b)) (bs @ [b]))"
      using sorted_filter [OF assms(3), of ?P] by (simp add: snoc)
    have "set (filter ?P bars) = insert b (set bs)" by (simp add: snoc)
    then have "b \<in> set bars" "?P b" "\<forall>c \<in> set bars. ?P c \<longrightarrow> c = b \<or> c \<in> set bs" by auto
    moreover have "\<forall>c \<in> set bs. b_close_time c \<le> b_close_time b" using srt by (simp add: sorted_append less_eq_datetime_def)
    ultimately show ?thesis using run ok by (auto simp: snoc list_all_iff)
  qed
qed

text \<open>Looking a bar up never looks ahead: on bars whose closing times do not decrease, \<open>latest\<close> returns None
  exactly when no bar has closed by the given time, and otherwise a bar of the instrument that has closed by then, after
  which no other has; only a valid bar is ever returned.\<close>

theorem latest_never_looks_ahead:
  assumes "iter_bars md i = Inr bars" "is_utc t" "sorted (map (\<lambda>b. dt_instant (b_close_time b)) bars)"
  shows "\<exists>r. latest md i t = Inr r \<and>
    (case r of None \<Rightarrow> \<forall>c \<in> set bars. t < b_close_time c
     | Some b \<Rightarrow> b \<in> set bars \<and> Bar_ok b \<and> b_instrument b = i \<and> b_close_time b \<le> t \<and>
         (\<forall>c \<in> set bars. b_close_time c \<le> t \<longrightarrow> b_close_time c \<le> b_close_time b))"
  by (rule latest_spec [OF assms])

definition ex_etf :: Instrument where
  "ex_etf = \<lparr>i_symbol = ''CAC.PA'', i_venue = ''XPAR'', i_currency = ''EUR'', i_asset_class = ETF, i_multiplier = dint 1,
     i_tradability = ''spot''\<rparr>"

definition ex_fixture_row :: "int \<Rightarrow> decimal \<Rightarrow> fixture_row" where
  "ex_fixture_row t p = \<lparr>fw_open_time = utc t, fw_close_time = utc (t + 5), fw_open = p, fw_high = p, fw_low = p, fw_close = p,
     fw_volume = dint 1, fw_vwap = None\<rparr>"

definition ex_market_bar :: "int \<Rightarrow> decimal \<Rightarrow> Bar" where
  "ex_market_bar t p = \<lparr>b_instrument = ex_etf, b_open_time = utc t, b_close_time = utc (t + 5), b_open = p, b_high = p, b_low = p,
     b_close = p, b_volume = dint 1, b_vwap = None\<rparr>"

definition ex_market :: PaperMarketData where
  "ex_market = \<lparr>md_freq = ''1d'', md_frames = [(ex_etf, \<lparr>fx_columns = required_columns, fx_rows = [ex_fixture_row 0 (dint 30), ex_fixture_row 10 (dint 31)]\<rparr>)]\<rparr>"

lemma ex_market_bars: "iter_bars ex_market ex_etf = Inr [ex_market_bar 0 (dint 30), ex_market_bar 10 (dint 31)]"
  by (simp add: iter_bars_def ex_market_def bar_of_row_def ex_fixture_row_def ex_market_bar_def required_columns_def mk_Bar_def
      validated_def Bar_checks_def require_utc_def decimal_simps less_eq_datetime_def inst_eq_def)

theorem latest_never_looks_ahead_witness:
  "\<exists>b. latest ex_market ex_etf (utc 12) = Inr (Some b) \<and> b_close_time b \<le> utc 12 \<and> utc 5 \<le> b_close_time b"
proof -
  have "sorted (map (\<lambda>b. dt_instant (b_close_time b)) [ex_market_bar 0 (dint 30), ex_market_bar 10 (dint 31)])"
    by (simp add: ex_market_bar_def)
  from latest_never_looks_ahead [OF ex_market_bars _ this, of "utc 12"] show ?thesis
    by (auto simp: ex_market_bar_def less_eq_datetime_def less_datetime_def split: option.splits)
qed

end
