(* ===== verification/Clocks.thy ===== *)
theory Clocks
  imports PyTime Decimals
begin

text \<open>
  \<open>src/blive/adapters/clock/sim.py\<close> (the simulated clock), the double-precision
  arithmetic the rate limiter's waiting time goes through, and the interface \<open>ClockPort\<close> of
  \<open>src/blive/domain/ports.py\<close> as a locale.  The wall clock
  (\<open>adapters/clock/wall.py\<close>) is a call into the operating system; what the limiter needs of it
  is the locale's assumption.
\<close>

section \<open>Doubles\<close>

text \<open>
  \<open>fl x\<close> is the double nearest to the rational \<open>x\<close> (53 significant bits, ties to even);
  overflow and subnormal numbers are not modelled.
\<close>

function nbits :: "int \<Rightarrow> nat" where
  "nbits n = (if n < 2 then 1 else Suc (nbits (n div 2)))"
  by pat_completeness auto
termination
  by (relation "measure nat") auto

declare nbits.simps [simp del]

definition scaled_quotient :: "int \<Rightarrow> int \<Rightarrow> int \<Rightarrow> int \<times> int" where
  "scaled_quotient n d e = (if 0 \<le> e then (n, d * 2 ^ nat e) else (n * 2 ^ nat (- e), d))"

definition fl_frac :: "int \<Rightarrow> int \<Rightarrow> rat" where
  "fl_frac n d =
     (let e = int (nbits \<bar>n\<bar>) - int (nbits d) - 53;
          (a, b) = scaled_quotient n d e
      in of_int (round_half_even a b) * 2 powi e)"

definition fl :: "rat \<Rightarrow> rat" where
  "fl x = (if x = 0 then 0 else (case quotient_of x of (n, d) \<Rightarrow> fl_frac n d))"

lemma nbits_upper: "n < 2 ^ nbits n"
proof (induction n rule: nbits.induct)
  case (1 n)
  then show ?case
  proof (cases "n < 2")
    case False
    with "1" have "n div 2 < 2 ^ nbits (n div 2)" by simp
    then have "n < 2 * 2 ^ nbits (n div 2)" by linarith
    with False show ?thesis by (simp add: nbits.simps [of n])
  qed (simp add: nbits.simps [of n])
qed

lemma nbits_lower: "0 < n \<Longrightarrow> 2 ^ nbits n \<le> 2 * n"
proof (induction n rule: nbits.induct)
  case (1 n)
  show ?case
  proof (cases "n < 2")
    case True
    with "1.prems" show ?thesis by (simp add: nbits.simps [of n])
  next
    case False
    then have "0 < n div 2" by (simp add: pos_imp_zdiv_pos_iff)
    with False "1.IH" have "2 ^ nbits (n div 2) \<le> 2 * (n div 2)" by simp
    also have "\<dots> \<le> n" by simp
    finally show ?thesis using False by (simp add: nbits.simps [of n])
  qed
qed

lemma pow2_pos [simp]: "0 < (2 :: rat) powi e"
  by (simp add: power_int_def)

lemma scaled_quotient_value:
  assumes "0 < d" "scaled_quotient n d e = (a, b)"
  shows "0 < b" "(of_int n :: rat) / of_int d = of_int a / of_int b * 2 powi e"
  using assms by (auto simp: scaled_quotient_def power_int_def divide_simps split: if_splits)

lemma fl_frac_error:
  assumes d: "0 < d" and n: "n \<noteq> 0"
  shows "2 ^ 52 * \<bar>fl_frac n d - of_int n / of_int d\<bar> \<le> \<bar>of_int n / of_int d\<bar>"
proof -
  define e where "e = int (nbits \<bar>n\<bar>) - int (nbits d) - 53"
  obtain a b where ab: "scaled_quotient n d e = (a, b)" by (cases "scaled_quotient n d e")
  note sq = scaled_quotient_value [OF d ab]
  let ?c = "round_half_even a b"
  let ?s = "2 powi e :: rat"
  have v: "fl_frac n d = of_int ?c * ?s" by (simp add: fl_frac_def ab flip: e_def)
  have br: "(0 :: rat) < of_int b" using sq(1) by simp
  have err: "2 * \<bar>of_int ?c - of_int a / of_int b :: rat\<bar> \<le> 1"
    using round_half_even_bounds [OF sq(1), of a] by simp
  have "2 ^ nbits \<bar>n\<bar> \<le> 2 * \<bar>n\<bar>" using n by (intro nbits_lower) simp
  then have "(of_int (2 ^ nbits \<bar>n\<bar>) :: rat) \<le> of_int (2 * \<bar>n\<bar>)" by (simp only: of_int_le_iff)
  then have nl: "(2 :: rat) ^ nbits \<bar>n\<bar> \<le> 2 * \<bar>of_int n\<bar>" by simp
  have "(of_int d :: rat) < of_int (2 ^ nbits d)" by (simp only: of_int_less_iff nbits_upper)
  then have du: "(of_int d :: rat) < 2 ^ nbits d" by simp
  have "?s * 2 ^ 53 * 2 ^ nbits d = (2 :: rat) powi (e + 53 + int (nbits d))"
    by (simp add: power_int_add)
  also have "\<dots> = 2 ^ nbits \<bar>n\<bar>" by (simp add: e_def)
  finally have se: "?s * 2 ^ 53 * 2 ^ nbits d = (2 :: rat) ^ nbits \<bar>n\<bar>" .
  have "?s * 2 ^ 53 * of_int d \<le> ?s * 2 ^ 53 * 2 ^ nbits d" using du by (intro mult_left_mono) simp_all
  also have "\<dots> \<le> 2 * \<bar>of_int n\<bar>" using nl se by simp
  finally have big: "?s * 2 ^ 52 \<le> \<bar>of_int n :: rat\<bar> / of_int d" using d by (simp add: pos_le_divide_eq mult_ac)
  have "fl_frac n d - of_int n / of_int d = (of_int ?c - of_int a / of_int b) * ?s"
    by (simp add: v sq(2) left_diff_distrib)
  then have "2 ^ 52 * \<bar>fl_frac n d - of_int n / of_int d\<bar> = 2 ^ 52 * \<bar>of_int ?c - of_int a / of_int b\<bar> * ?s"
    by (simp add: abs_mult)
  also have "\<dots> \<le> 2 ^ 52 * (1 / 2) * ?s" using err by (intro mult_right_mono mult_left_mono) simp_all
  also have "\<dots> = ?s * 2 ^ 51" by simp
  also have "\<dots> \<le> ?s * 2 ^ 52" by (intro mult_left_mono) simp_all
  also have "\<dots> \<le> \<bar>of_int n :: rat\<bar> / of_int d" by (rule big)
  also have "\<dots> = \<bar>of_int n / of_int d\<bar>" using d by (simp add: abs_divide)
  finally show ?thesis .
qed

lemma fl_error: "2 ^ 52 * \<bar>fl x - x\<bar> \<le> \<bar>x\<bar>"
proof (cases "x = 0")
  case False
  obtain n d where q: "quotient_of x = (n, d)" by (cases "quotient_of x")
  then have x: "x = of_int n / of_int d" and d: "0 < d"
    using quotient_of_div quotient_of_denom_pos by blast+
  with False have "n \<noteq> 0" by auto
  have fx: "fl x = fl_frac n d" using False by (simp add: fl_def q)
  show ?thesis unfolding fx unfolding x by (rule fl_frac_error [OF d \<open>n \<noteq> 0\<close>])
qed (simp add: fl_def)

section \<open>The simulated clock\<close>

text \<open>\<open>timedelta(seconds=s)\<close> rounds to the nearest microsecond, ties to even.\<close>

definition td_seconds :: "rat \<Rightarrow> int" where
  "td_seconds s = (case quotient_of (s * 1000000) of (n, d) \<Rightarrow> round_half_even n d)"

lemma td_seconds_bounds: "\<bar>of_int (td_seconds s) - s * 1000000\<bar> \<le> 1 / 2"
proof -
  obtain n d where q: "quotient_of (s * 1000000) = (n, d)" by (cases "quotient_of (s * 1000000)")
  then have s: "s * 1000000 = of_int n / of_int d" "0 < d"
    using quotient_of_div quotient_of_denom_pos by blast+
  have td: "td_seconds s = round_half_even n d" by (simp add: td_seconds_def q)
  show ?thesis unfolding td s(1) by (rule round_half_even_bounds [OF s(2)])
qed

record SimClock = clk_now :: datetime

definition SimClock_init :: "datetime option \<Rightarrow> SimClock res" where
  "SimClock_init start =
     (let s = (case start of None \<Rightarrow> utc 1767225600000000 | Some t \<Rightarrow> t)
      in if utc_off s = None then Inl (ValueError ''SimClock start must be timezone-aware'')
         else Inr \<lparr>clk_now = s\<rparr>)"

definition sim_now :: "SimClock \<Rightarrow> datetime" where
  "sim_now c = clk_now c"

definition sim_sleep :: "SimClock \<Rightarrow> rat \<Rightarrow> SimClock res" where
  "sim_sleep c seconds =
     (if seconds < 0 then Inl (ValueError ''sleep seconds must be non-negative'')
      else Inr (c\<lparr>clk_now := dt_add_us (clk_now c) (td_seconds seconds)\<rparr>))"

definition sim_tick :: "SimClock \<Rightarrow> rat \<Rightarrow> SimClock res" where
  "sim_tick c seconds =
     (if seconds < 0 then Inl (ValueError ''tick seconds must be non-negative'')
      else Inr (c\<lparr>clk_now := dt_add_us (clk_now c) (td_seconds seconds)\<rparr>))"

section \<open>The interface\<close>

text \<open>
  What a client may rely on: time stays aware, and sleeping succeeds and lets at least the
  requested time pass, up to half a microsecond.
\<close>

locale clock_port =
  fixes now :: "'c \<Rightarrow> datetime"
    and sleep :: "'c \<Rightarrow> rat \<Rightarrow> 'c res"
    and aware :: "'c \<Rightarrow> bool"
  assumes sleep_ok: "aware c \<Longrightarrow> 0 \<le> s \<Longrightarrow>
      \<exists>c'. sleep c s = Inr c' \<and> aware c' \<and>
        of_int (dt_instant (now c)) + s * 1000000 - 1 / 2 \<le> (of_int (dt_instant (now c')) :: rat)"
    and now_aware: "aware c \<Longrightarrow> utc_off (now c) \<noteq> None"

definition sim_aware :: "SimClock \<Rightarrow> bool" where
  "sim_aware c \<longleftrightarrow> utc_off (clk_now c) \<noteq> None"

interpretation sim: clock_port sim_now sim_sleep sim_aware
proof
  fix c s
  assume a: "sim_aware c" "0 \<le> (s :: rat)"
  have "- (1 / 2) \<le> of_int (td_seconds s) - s * 1000000"
    using td_seconds_bounds [of s] by linarith
  with a show "\<exists>c'. sim_sleep c s = Inr c' \<and> sim_aware c' \<and>
      of_int (dt_instant (sim_now c)) + s * 1000000 - 1 / 2 \<le> (of_int (dt_instant (sim_now c')) :: rat)"
    by (auto simp: sim_sleep_def sim_now_def sim_aware_def)
next
  show "sim_aware c \<Longrightarrow> utc_off (sim_now c) \<noteq> None" for c
    by (simp add: sim_aware_def sim_now_def)
qed

end
