(* ===== verification/PaperPipeline.thy ===== *)
theory PaperPipeline
  imports StrategyConfig PaperBroker PaperMarketData Clocks "HOL-Library.AList"
begin


text \<open>
  \<open>src/blive/runtime/paper_pipeline.py\<close>: the rebalance loop that ties the clock, the sizer, the risk engine, the
  paper broker and the position arithmetic together.  What the backtesting package computes from the closes, the position
  series, is a field of the setup; so are the file system of the artefact check and the supply of order ids of a bar.

  The broker of the pipeline has no latencies, so the lifecycle task of an order runs to its end the first time the
  drain yields to the event loop: a submission is followed by resuming that task.  Waiting on an event that never
  comes is the value None of the drain, and of everything that waits for it.
\<close>

section \<open>State\<close>

record EquityPoint =
  ep_time :: datetime
  ep_cash :: decimal
  ep_qty :: decimal
  ep_mark :: decimal
  ep_equity :: decimal

record PaperRunResult =
  rr_curve :: "EquityPoint list"
  rr_breaches :: "RiskBreach list"
  rr_fills :: nat
  rr_final :: decimal

record paper_setup =
  su_timing :: bool
  su_config :: LiveStrategyConfig
  su_key :: string
  su_instrument :: Instrument
  su_leverage :: decimal
  su_positions :: "(datetime \<times> int) list"
  su_artefacts :: "string \<Rightarrow> int option"
  su_uuids :: "nat \<Rightarrow> nat \<Rightarrow> uuid"
  su_cash :: decimal
  su_base :: string
  su_commission :: decimal
  su_kill :: KillSwitch

record paper_run_state =
  pr_clock :: SimClock
  pr_broker :: PaperBroker
  pr_read :: nat
  pr_cash :: decimal
  pr_positions :: "(string \<times> Position) list"
  pr_result :: PaperRunResult

section \<open>Helpers\<close>

definition compute_equity :: "decimal \<Rightarrow> (string \<times> Position) list \<Rightarrow> decimal \<Rightarrow> decimal" where
  "compute_equity cash positions mark_price =
     dadd cash (foldl (\<lambda>total (_, p). dadd total (dmul (p_quantity p) mark_price)) dzero positions)"

text \<open>The events are those the iterator has not delivered yet; the rest is handed back.\<close>

fun drain_order_lifecycle :: "uuid \<Rightarrow> OrderState \<Rightarrow> OrderEvent option \<Rightarrow> BrokerEvent list
    \<Rightarrow> (OrderState \<times> OrderEvent option \<times> BrokerEvent list) option" where
  "drain_order_lifecycle target state fill_event [] = None"
| "drain_order_lifecycle target state fill_event (e # es) =
     (case e of
        BE_Order event \<Rightarrow>
          if e_order event \<noteq> target then drain_order_lifecycle target state fill_event es
          else (case e_kind event of
              EV_SUBMITTED \<Rightarrow> drain_order_lifecycle target SUBMITTED fill_event es
            | EV_ACCEPTED \<Rightarrow> drain_order_lifecycle target ACCEPTED fill_event es
            | EV_PARTIAL_FILL \<Rightarrow> drain_order_lifecycle target PARTIALLY_FILLED (Some event) es
            | EV_FILLED \<Rightarrow> Some (FILLED, Some event, es)
            | EV_CANCELED \<Rightarrow> Some (CANCELED, fill_event, es)
            | EV_REJECTED \<Rightarrow> Some (REJECTED, fill_event, es)
            | EV_EXPIRED \<Rightarrow> Some (EXPIRED, fill_event, es))
      | _ \<Rightarrow> drain_order_lifecycle target state fill_event es)"

definition book_cash :: "decimal \<Rightarrow> Fill \<Rightarrow> decimal" where
  "book_cash cash fill = dsub cash (dadd (dmul (signed_qty fill) (f_price fill)) (f_commission fill))"

definition book_fill :: "paper_setup \<Rightarrow> datetime \<Rightarrow> Fill \<Rightarrow> paper_run_state \<Rightarrow> paper_run_state res" where
  "book_fill su t fill run =
     bindR (apply_fill (map_of (pr_positions run) (su_key su)) fill (lc_strategy_id (su_config su)) t) (\<lambda>p.
     Inr (run\<lparr>pr_positions := AList.update (su_key su) p (pr_positions run),
              pr_cash := book_cash (pr_cash run) fill,
              pr_result := (pr_result run)\<lparr>rr_fills := rr_fills (pr_result run) + 1\<rparr>\<rparr>))"

definition pipeline_engine :: "paper_setup \<Rightarrow> RiskEngine" where
  "pipeline_engine su = \<lparr>re_config = risk_config_from_live (su_config su), re_kill = su_kill su,
     re_strategy = lc_strategy_id (su_config su)\<rparr>"

definition pipeline_inputs :: "paper_setup \<Rightarrow> Bar \<Rightarrow> RiskInputs" where
  "pipeline_inputs su bar = \<lparr>ri_last_bar = Some bar, ri_market_open = True,
     ri_artefacts = lc_artefact_paths (su_config su), ri_reference = None\<rparr>"

section \<open>The loop\<close>

text \<open>An approved order: submitted, its lifecycle run, its events drained and its fill booked.\<close>

definition execute_order :: "paper_setup \<Rightarrow> Bar \<Rightarrow> Order \<Rightarrow> paper_run_state \<Rightarrow> paper_run_state option res" where
  "execute_order su bar order run =
     (case paper_submit order (pr_broker run) of
        (Inl e, _) \<Rightarrow> Inl e
      | (Inr _, submitted) \<Rightarrow>
          let b = paper_resume (length (pb_tasks (pr_broker run))) (\<lambda>_. Inr (b_close bar)) (\<lambda>_. sim_now (pr_clock run)) submitted
          in case drain_order_lifecycle (o_id order) SUBMIT_PENDING None (drop (pr_read run) (pb_events b)) of
               None \<Rightarrow> Inr None
             | Some (terminal_state, fill_event, rest) \<Rightarrow>
                 let run' = run\<lparr>pr_broker := b, pr_read := length (pb_events b) - length rest\<rparr>
                 in case fill_event of
                      Some ev \<Rightarrow> (case e_fill ev of
                          Some fill \<Rightarrow> bindR (book_fill su (b_close_time bar) fill run') (\<lambda>r. Inr (Some r))
                        | None \<Rightarrow> Inr (Some run'))
                    | None \<Rightarrow> Inr (Some run'))"

definition process_order :: "paper_setup \<Rightarrow> Bar \<Rightarrow> Order \<Rightarrow> paper_run_state \<Rightarrow> paper_run_state option res" where
  "process_order su bar order run =
     bindR (approve (su_artefacts su) (pipeline_engine su) order (pipeline_inputs su bar) (b_close_time bar))
       (\<lambda>(approved, breaches).
       let run' = run\<lparr>pr_result := (pr_result run)\<lparr>rr_breaches := rr_breaches (pr_result run) @ breaches\<rparr>\<rparr>
       in case approved of None \<Rightarrow> Inr (Some run') | Some o' \<Rightarrow> execute_order su bar o' run')"

text \<open>\<open>for x in xs: ...\<close> where a pass may raise or wait for ever.\<close>

fun forO :: "('a \<Rightarrow> 's \<Rightarrow> 's option res) \<Rightarrow> 'a list \<Rightarrow> 's \<Rightarrow> 's option res" where
  "forO f [] s = Inr (Some s)"
| "forO f (x # xs) s = bindR (f x s) (\<lambda>r. case r of None \<Rightarrow> Inr None | Some s' \<Rightarrow> forO f xs s')"

definition series_at :: "(datetime \<times> 'v) list \<Rightarrow> datetime \<Rightarrow> 'v option" where
  "series_at series t = map_option snd (find (\<lambda>(k, _). dt_instant k = dt_instant t) series)"

definition tick_to :: "datetime \<Rightarrow> SimClock \<Rightarrow> SimClock res" where
  "tick_to t clock = bindR (dt_sub t (sim_now clock)) (\<lambda>us. sim_tick clock (fl (of_int us / 1000000)))"

definition sizer_input :: "paper_setup \<Rightarrow> Bar \<Rightarrow> int \<Rightarrow> paper_run_state \<Rightarrow> SizerInput" where
  "sizer_input su bar position_int run =
     \<lparr>s_targets = [(su_key su, dmul (dint position_int) (su_leverage su))],
      s_equity = compute_equity (pr_cash run) (pr_positions run) (b_close bar),
      s_nav_slice = lc_nav_slice (su_config su), s_positions = map_of (pr_positions run),
      s_resolver = (\<lambda>_. Inr (su_instrument su)), s_price = (\<lambda>_. Inr (b_close bar)),
      s_strategy = lc_strategy_id (su_config su), s_now = b_close_time bar\<rparr>"

definition mark_equity :: "paper_setup \<Rightarrow> Bar \<Rightarrow> paper_run_state \<Rightarrow> paper_run_state" where
  "mark_equity su bar run =
     (let qty = (case map_of (pr_positions run) (su_key su) of None \<Rightarrow> dzero | Some p \<Rightarrow> p_quantity p);
          point = \<lparr>ep_time = b_close_time bar, ep_cash = pr_cash run, ep_qty = qty, ep_mark = b_close bar,
                   ep_equity = compute_equity (pr_cash run) (pr_positions run) (b_close bar)\<rparr>
      in run\<lparr>pr_result := (pr_result run)\<lparr>rr_curve := rr_curve (pr_result run) @ [point]\<rparr>\<rparr>)"

definition rebalance_bar :: "paper_setup \<Rightarrow> nat \<times> Bar \<Rightarrow> paper_run_state \<Rightarrow> paper_run_state option res" where
  "rebalance_bar su nb run =
     (case nb of (n, bar) \<Rightarrow>
        bindR (tick_to (b_close_time bar) (pr_clock run)) (\<lambda>clock.
        let run' = run\<lparr>pr_clock := clock\<rparr>
        in case series_at (su_positions su) (b_close_time bar) of
             None \<Rightarrow> Inr (Some run')
           | Some position_int \<Rightarrow>
               bindR (size_orders (sizer_input su bar position_int run') (su_uuids su n)) (\<lambda>orders.
               bindR (forO (process_order su bar) orders run') (\<lambda>r.
               Inr (map_option (mark_equity su bar) r)))))"

definition run_init :: "paper_setup \<Rightarrow> Bar \<Rightarrow> paper_run_state res" where
  "run_init su first =
     (let start = Datetime (wall_us (b_close_time first)) (Some 0)
      in bindR (SimClock_init (Some start)) (\<lambda>clock.
         case paper_connect (sim_now clock) (paper_init \<lparr>pc_commission = su_commission su, pc_ack = 0, pc_accept = 0,
                pc_fill = 0, pc_base = su_base su, pc_cash = su_cash su\<rparr>) of
           (Inl e, _) \<Rightarrow> Inl e
         | (Inr _, broker) \<Rightarrow>
             Inr \<lparr>pr_clock = clock, pr_broker = broker, pr_read = 1, pr_cash = su_cash su, pr_positions = [],
                  pr_result = \<lparr>rr_curve = [], rr_breaches = [], rr_fills = 0, rr_final = dzero\<rparr>\<rparr>))"

definition finish_run :: "paper_setup \<Rightarrow> paper_run_state \<Rightarrow> paper_run_state res" where
  "finish_run su run =
     (case paper_disconnect (sim_now (pr_clock run)) (pr_broker run) of
        (Inl e, _) \<Rightarrow> Inl e
      | (Inr _, broker) \<Rightarrow>
          let curve = rr_curve (pr_result run);
              final = (if curve = [] then su_cash su else ep_equity (last curve))
          in Inr (run\<lparr>pr_broker := broker, pr_result := (pr_result run)\<lparr>rr_final := final\<rparr>\<rparr>))"

definition run_paper_pipeline :: "paper_setup \<Rightarrow> Bar list res \<Rightarrow> paper_run_state option res" where
  "run_paper_pipeline su market_data =
     (if \<not> su_timing su then Inl (NotImplementedError ''M1 paper pipeline only supports TimingPortfolio strategies'')
      else bindR market_data (\<lambda>bars.
        if bars = [] then Inl (ValueError ''no bars in fixture'')
        else bindR (run_init su (hd bars)) (\<lambda>run.
             bindR (forO (rebalance_bar su) (zip [0..<length bars] bars) run) (\<lambda>r.
             case r of None \<Rightarrow> Inr None | Some run' \<Rightarrow> bindR (finish_run su run') (\<lambda>done. Inr (Some done))))))"

section \<open>The drain\<close>

text \<open>The drain reports the state of the order machine: on events of an order that are a run of the machine, it ends
  with the first terminal one, in the machine's state.\<close>

lemma drain_skips:
  "order_events target [e] = [] \<Longrightarrow> drain_order_lifecycle target st f (e # es) = drain_order_lifecycle target st f es"
  by (cases e) (auto split: if_splits)

lemma drain_conforms:
  assumes "kinds_run st (kinds_of target es) = Some s" "is_terminal s" "\<not> is_terminal st"
  shows "\<exists>ev rest. drain_order_lifecycle target st f es = Some (s, ev, rest) \<and> (\<exists>seen. es = seen @ rest) \<and> kinds_of target rest = []"
  using assms
proof (induction es arbitrary: st f)
  case Nil
  then show ?case by simp
next
  case (Cons e es)
  show ?case
  proof (cases "order_events target [e]")
    case Nil
    moreover from this have "kinds_of target (e # es) = kinds_of target es" by (simp add: kinds_of_order_events)
    ultimately show ?thesis using Cons by (fastforce simp: drain_skips simp del: drain_order_lifecycle.simps)
  next
    case more: (Cons ev evs)
    then have e: "e = BE_Order ev" "e_order ev = target" by (cases e; auto split: if_splits)+
    obtain s1 where s1: "kind_step st (e_kind ev) = Some s1" "kinds_run s1 (kinds_of target es) = Some s"
      using Cons.prems(1) e by (auto split: option.splits)
    show ?thesis
    proof (cases "terminal_kind (e_kind ev)")
      case True
      with kind_step_terminal [OF s1(1)] have t: "is_terminal s1" by simp
      with s1(2) kinds_run_from_terminal have k: "kinds_of target es = []" by blast
      with s1(2) have "s1 = s" by simp
      with s1(1) True k e show ?thesis
        by (cases "e_kind ev"; cases st) (auto simp: terminal_kind_def intro!: exI [of _ "[e]"])
    next
      case False
      with kind_step_terminal [OF s1(1)] have "\<not> is_terminal s1" by simp
      note IH = Cons.IH [OF s1(2) Cons.prems(2) this]
      have "\<exists>f'. drain_order_lifecycle target st f (e # es) = drain_order_lifecycle target s1 f' es"
        using False s1(1) e by (cases "e_kind ev"; cases st) (auto simp: terminal_kind_def)
      then obtain f' where "drain_order_lifecycle target st f (e # es) = drain_order_lifecycle target s1 f' es" by blast
      with IH [of f'] show ?thesis by (metis append_Cons)
    qed
  qed
qed

section \<open>One order\<close>

definition event_fill :: "BrokerEvent \<Rightarrow> Fill list" where
  "event_fill e = (case e of BE_Order ev \<Rightarrow> (case e_fill ev of None \<Rightarrow> [] | Some f \<Rightarrow> [f]) | _ \<Rightarrow> [])"

definition event_fills :: "BrokerEvent list \<Rightarrow> Fill list" where
  "event_fills es = concat (map event_fill es)"

lemma event_fills_append [simp]: "event_fills (xs @ ys) = event_fills xs @ event_fills ys"
  by (simp add: event_fills_def)

definition setup_ok :: "paper_setup \<Rightarrow> bool" where
  "setup_ok su \<longleftrightarrow> Instrument_ok (su_instrument su) \<and> lc_strategy_id (su_config su) \<noteq> [] \<and> 0 \<le> dval (su_commission su)"

definition paper_config_of :: "paper_setup \<Rightarrow> PaperConfig" where
  "paper_config_of su = \<lparr>pc_commission = su_commission su, pc_ack = 0, pc_accept = 0, pc_fill = 0, pc_base = su_base su,
     pc_cash = su_cash su\<rparr>"

text \<open>Between two orders the broker is idle, every event has been read, and the local ledger is what replaying
  the fills the broker published gives.\<close>

definition broker_idle :: "paper_setup \<Rightarrow> paper_run_state \<Rightarrow> bool" where
  "broker_idle su run \<longleftrightarrow> pb_connected (pr_broker run) \<and> pb_open (pr_broker run) = [] \<and> pb_tasks (pr_broker run) = [] \<and>
     pb_config (pr_broker run) = paper_config_of su \<and> pr_read run = length (pb_events (pr_broker run)) \<and>
     is_utc (clk_now (pr_clock run))"

definition ledger_of :: "paper_setup \<Rightarrow> Fill list \<Rightarrow> (string \<times> Position) list \<Rightarrow> decimal \<Rightarrow> bool" where
  "ledger_of su fills positions cash \<longleftrightarrow>
     (\<exists>times. length times = length fills \<and>
        apply_fills None (zip fills times) (lc_strategy_id (su_config su)) = Inr (map_of positions (su_key su))) \<and>
     cash = foldl book_cash (su_cash su) fills"

definition run_ok :: "paper_setup \<Rightarrow> paper_run_state \<Rightarrow> bool" where
  "run_ok su run \<longleftrightarrow> broker_idle su run \<and>
     (pr_positions run = [] \<or> (\<exists>p. pr_positions run = [(su_key su, p)])) \<and>
     held (su_instrument su) (lc_strategy_id (su_config su)) (map_of (pr_positions run) (su_key su)) \<and>
     ledger_of su (event_fills (pb_events (pr_broker run))) (pr_positions run) (pr_cash run) \<and>
     rr_fills (pr_result run) = length (event_fills (pb_events (pr_broker run)))"

lemma apply_fills_append:
  "apply_fills p (xs @ ys) sid = (case apply_fills p xs sid of Inl e \<Rightarrow> Inl e | Inr q \<Rightarrow> apply_fills q ys sid)"
  by (induction p xs sid rule: apply_fills.induct) (auto split: sum.splits)

definition sized_for :: "paper_setup \<Rightarrow> Order \<Rightarrow> bool" where
  "sized_for su r \<longleftrightarrow> o_type r = MKT \<and> o_instrument r = su_instrument su \<and> (\<exists>n. o_quantity r = dint n \<and> 1 \<le> n \<and> n < 10 ^ 28)"

lemma execute_order_ok:
  assumes su: "setup_ok su" and run: "run_ok su run" and r: "sized_for su r" and bar: "Bar_ok bar"
  shows "\<exists>run' f. execute_order su bar r run = Inr (Some run') \<and> run_ok su run' \<and> pr_clock run' = pr_clock run \<and>
    (pr_result run')\<lparr>rr_fills := 0\<rparr> = (pr_result run)\<lparr>rr_fills := 0\<rparr> \<and>
    event_fills (pb_events (pr_broker run')) = event_fills (pb_events (pr_broker run)) @ [f] \<and>
    f_side f = o_side r \<and> f_quantity f = o_quantity r \<and> f_price f = b_close bar \<and> f_instrument f = su_instrument su \<and> Fill_ok f \<and>
    (\<exists>p. apply_fill (map_of (pr_positions run) (su_key su)) f (lc_strategy_id (su_config su)) (b_close_time bar) = Inr p \<and>
       map_of (pr_positions run') (su_key su) = Some p)"
proof -
  let ?b = "pr_broker run" and ?sid = "lc_strategy_id (su_config su)" and ?i = "su_instrument su"
  let ?now = "sim_now (pr_clock run)"
  have idle: "pb_connected ?b" "pb_open ?b = []" "pb_tasks ?b = []" "pb_config ?b = paper_config_of su"
    "pr_read run = length (pb_events ?b)" "is_utc ?now" and fills: "rr_fills (pr_result run) = length (event_fills (pb_events ?b))"
    using run by (simp_all add: run_ok_def broker_idle_def sim_now_def)
  have no: "\<not> is_open ?b (o_id r)" using idle(2) by (simp add: is_open_def)
  have qty: "0 < dval (o_quantity r)" "repr28 (dval (o_quantity r))"
  proof -
    obtain n where n: "o_quantity r = dint n" "1 \<le> n" "n < 10 ^ 28" using r by (auto simp: sized_for_def)
    then show "0 < dval (o_quantity r)" by simp
    have "\<bar>n\<bar> < 10 ^ 28" using n by simp
    from repr28_of_int [OF this] show "repr28 (dval (o_quantity r))" by (simp add: n(1))
  qed
  have fl: "fillable (pb_config ?b) r (b_close bar)"
    using su r qty Bar_ok_facts(3) [OF bar] Instrument_ok_currency [of ?i]
    by (simp add: fillable_def idle(4) paper_config_of_def setup_ok_def sized_for_def)
  obtain v b' where b': "paper_run ?b [P_Submit r, P_Resume (length (pb_tasks ?b)) (\<lambda>_. Inr (b_close bar)) (\<lambda>_. ?now)] = b'"
    "\<not> is_open b' (o_id r)" "pb_tasks b' = pb_tasks ?b" "pb_connected b' = pb_connected ?b" "pb_config b' = pb_config ?b"
    "pb_open b' = filter (\<lambda>(k, _). k \<noteq> o_id r) (pb_open ?b)"
    "pb_events b' = pb_events ?b @ map (\<lambda>(k, t, f). BE_Order \<lparr>e_order = o_id r, e_venue_order = Some v, e_kind = k,
        e_reason = None, e_time = t, e_fill = f\<rparr>)
      [(EV_SUBMITTED, ?now, None), (EV_ACCEPTED, ?now, None), (EV_FILLED, ?now, Some (paper_fill (pb_config ?b) r v (b_close bar) ?now))]"
    using market_order_run [OF idle(1) no _ _ _ _ _ fl, of "\<lambda>_. Inr (b_close bar)" "\<lambda>_. ?now"] r idle(4,6)
    by (auto simp: sized_for_def paper_config_of_def)
  define f where "f = paper_fill (pb_config ?b) r v (b_close bar) ?now"
  have f: "f_side f = o_side r" "f_quantity f = o_quantity r" "f_price f = b_close bar" "f_instrument f = ?i" "f_time f = ?now"
    using r by (simp_all add: f_def paper_fill_def sized_for_def)
  have fok: "Fill_ok f"
    using mk_paper_fill [OF fl idle(6), of v] by (simp add: f_def mk_Fill_def validated_eq_Inr Fill_ok_def)
  have ff: "fill_for ?i (f, b_close_time bar)"
    using fok f(2,4) qty(2) Bar_ok_facts(2) [OF bar] by (simp add: fill_for_def)
  let ?p = "map_of (pr_positions run) (su_key su)"
  have hl: "held ?i ?sid ?p" and led: "ledger_of su (event_fills (pb_events ?b)) (pr_positions run) (pr_cash run)"
    and pos: "pr_positions run = [] \<or> (\<exists>p. pr_positions run = [(su_key su, p)])"
    using run by (simp_all add: run_ok_def)
  have so: "Instrument_ok ?i" "?sid \<noteq> []" using su by (simp_all add: setup_ok_def)
  obtain q where q: "apply_fill ?p f ?sid (b_close_time bar) = Inr q" "held ?i ?sid (Some q)"
    by (rule apply_fill_held [OF hl ff so])
  define run' where "run' = run\<lparr>pr_broker := b', pr_read := length (pb_events b'),
      pr_positions := AList.update (su_key su) q (pr_positions run), pr_cash := book_cash (pr_cash run) f,
      pr_result := (pr_result run)\<lparr>rr_fills := rr_fills (pr_result run) + 1\<rparr>\<rparr>"
  let ?e = "\<lambda>k fo. BE_Order \<lparr>e_order = o_id r, e_venue_order = Some v, e_kind = k, e_reason = None, e_time = ?now, e_fill = fo\<rparr>"
  have evs: "pb_events b' = pb_events ?b @ [?e EV_SUBMITTED None, ?e EV_ACCEPTED None, ?e EV_FILLED (Some f)]"
    using b'(7) by (simp add: f_def)
  have sub: "paper_submit r ?b = (Inr (o_id r), snd (paper_submit r ?b))"
    using idle(1) no by (simp add: paper_submit_def)
  have res: "paper_resume (length (pb_tasks ?b)) (\<lambda>_. Inr (b_close bar)) (\<lambda>_. ?now) (snd (paper_submit r ?b)) = b'"
    using b'(1) by simp
  have drain: "drain_order_lifecycle (o_id r) SUBMIT_PENDING None (drop (pr_read run) (pb_events b')) =
      Some (FILLED, Some \<lparr>e_order = o_id r, e_venue_order = Some v, e_kind = EV_FILLED, e_reason = None, e_time = ?now, e_fill = Some f\<rparr>, [])"
    by (simp add: evs idle(5))
  have exec: "execute_order su bar r run = Inr (Some run')"
    unfolding execute_order_def
    by (subst sub) (simp add: res drain book_fill_def q(1) run'_def)
  have nf: "event_fills (pb_events b') = event_fills (pb_events ?b) @ [f]"
    by (simp add: evs, simp add: event_fills_def event_fill_def)
  have open': "pb_open b' = []"
    using b'(6) idle(2) by simp
  have "ledger_of su (event_fills (pb_events ?b) @ [f]) (AList.update (su_key su) q (pr_positions run)) (book_cash (pr_cash run) f)"
  proof -
    obtain times where t: "length times = length (event_fills (pb_events ?b))"
        "apply_fills None (zip (event_fills (pb_events ?b)) times) ?sid = Inr ?p"
      and c: "pr_cash run = foldl book_cash (su_cash su) (event_fills (pb_events ?b))"
      using led by (auto simp: ledger_of_def)
    show ?thesis
      unfolding ledger_of_def
      by (rule conjI, rule exI [of _ "times @ [b_close_time bar]"]) (simp_all add: t c apply_fills_append q(1) update_conv')
  qed
  then have ok: "run_ok su run'"
    using idle b'(3-5) open' pos q(2) fills nf
    by (auto simp: run_ok_def broker_idle_def run'_def sim_now_def update_conv')
  show ?thesis
    using exec ok nf f fok q(1) by (intro exI [of _ run'] exI [of _ f]) (simp add: run'_def update_conv')
qed


section \<open>The loop\<close>

text \<open>A pass that may raise, but neither waits for ever nor leaves the postcondition.\<close>

definition settles :: "('s \<Rightarrow> bool) \<Rightarrow> 's option res \<Rightarrow> bool" where
  "settles P m \<longleftrightarrow> (case m of Inl _ \<Rightarrow> True | Inr None \<Rightarrow> False | Inr (Some s) \<Rightarrow> P s)"

lemma settles_simps [simp]: "settles P (Inl e)" "settles P (Inr None) = False" "settles P (Inr (Some s)) = P s"
  by (simp_all add: settles_def)

lemma settles_weaken: "settles P m \<Longrightarrow> (\<And>s. P s \<Longrightarrow> Q s) \<Longrightarrow> settles Q m"
  by (auto simp: settles_def split: sum.splits option.splits)

lemma settles_forO:
  assumes "P [] s" "\<And>ys x zs s. xs = ys @ x # zs \<Longrightarrow> P ys s \<Longrightarrow> settles (P (ys @ [x])) (f x s)"
  shows "settles (P xs) (forO f xs s)"
  using assms
proof (induction xs arbitrary: s P)
  case (Cons x xs)
  have x: "settles (P [x]) (f x s)" using Cons.prems(2) [of "[]" x xs s] Cons.prems(1) by simp
  have IH: "settles (P (x # xs)) (forO f xs s')" if "P [x] s'" for s'
  proof (rule Cons.IH [of "\<lambda>ys. P (x # ys)"])
    show "settles (P (x # ys @ [y])) (f y s)" if "xs = ys @ y # zs" "P (x # ys) s" for ys y zs s
      using Cons.prems(2) [of "x # ys" y zs s] that by simp
  qed (rule that)
  show ?case
  proof (cases "f x s")
    case (Inr r)
    with x show ?thesis
    proof (cases r)
      case (Some s')
      with x Inr IH [of s'] show ?thesis by simp
    qed simp
  qed simp
qed simp

lemma sized_orders_for:
  assumes os: "size_orders (sizer_input su bar k run) uuids = Inr os" and r: "r \<in> set os"
    and su: "setup_ok su" and bar: "Bar_ok bar"
  shows "sized_for su r"
proof -
  let ?inp = "sizer_input su bar k run"
  obtain kw n where "kw \<in> set (s_targets ?inp)" "size_one ?inp (dmul (s_equity ?inp) (s_nav_slice ?inp)) kw (uuids n) = Inr (Some r)"
    using size_loop_orders [OF size_orders_Inr(1) [OF os] r] by blast
  then obtain key w where one: "size_one ?inp (dmul (s_equity ?inp) (s_nav_slice ?inp)) (key, w) (uuids n) = Inr (Some r)"
    by (metis surj_pair)
  obtain i pr d q where h: "s_resolver ?inp key = Inr i" "quantize_share_qty (dsub d (current_qty ?inp key)) (dint 1) = Inr q"
      "dval q \<noteq> 0" "sized_order ?inp i q (uuids n) = Inr r"
    by (rule size_one_Inr [OF one]) auto
  obtain m where m: "q = dint m" "\<bar>m\<bar> < 10 ^ 28"
    by (rule quantize_share_qty_spec [OF repr28_dsub h(2)])
  have "i = su_instrument su" using h(1) by (simp add: sizer_input_def)
  with h(3,4) m show ?thesis
    by (auto simp: sized_order_def mk_Order_Inr sized_for_def dabs_coef_bound intro!: exI [of _ "\<bar>m\<bar>"])
qed

lemma process_order_ok:
  assumes su: "setup_ok su" and run: "run_ok su run" and r: "sized_for su r" and bar: "Bar_ok bar"
  shows "settles (\<lambda>run'. run_ok su run' \<and> pr_clock run' = pr_clock run \<and> rr_curve (pr_result run') = rr_curve (pr_result run) \<and>
      rr_final (pr_result run') = rr_final (pr_result run))
    (process_order su bar r run)"
proof -
  have eng: "engine_ok (pipeline_engine su) (b_close_time bar)" "bar_utc (pipeline_inputs su bar)"
    using su Bar_ok_facts(2) [OF bar] by (simp_all add: engine_ok_def pipeline_engine_def setup_ok_def bar_utc_def pipeline_inputs_def)
  define noted where "noted bs = run\<lparr>pr_result := (pr_result run)\<lparr>rr_breaches := rr_breaches (pr_result run) @ bs\<rparr>\<rparr>" for bs
  have n: "run_ok su (noted bs)" "pr_clock (noted bs) = pr_clock run" "rr_curve (pr_result (noted bs)) = rr_curve (pr_result run)"
      "rr_final (pr_result (noted bs)) = rr_final (pr_result run)" for bs
    using run by (simp_all add: noted_def run_ok_def broker_idle_def)
  show ?thesis
  proof (rule approve_cases [OF eng, of "su_artefacts su" r])
    fix bs
    assume a: "approve (su_artefacts su) (pipeline_engine su) r (pipeline_inputs su bar) (b_close_time bar) = Inr (Some r, bs)"
    obtain run' f where e: "execute_order su bar r (noted bs) = Inr (Some run')" "run_ok su run'" "pr_clock run' = pr_clock (noted bs)"
      "(pr_result run')\<lparr>rr_fills := 0\<rparr> = (pr_result (noted bs))\<lparr>rr_fills := 0\<rparr>"
      using execute_order_ok [OF su n(1) r bar] by blast
    have "rr_curve (pr_result run') = rr_curve (pr_result (noted bs))" "rr_final (pr_result run') = rr_final (pr_result (noted bs))"
      using e(4) by (metis PaperRunResult.select_convs(1) PaperRunResult.simps(7) PaperRunResult.surjective PaperRunResult.update_convs(3), metis PaperRunResult.select_convs(4) PaperRunResult.surjective PaperRunResult.update_convs(3))
    with e n show ?thesis by (simp add: process_order_def a noted_def [symmetric])
  next
    fix ws b
    assume a: "approve (su_artefacts su) (pipeline_engine su) r (pipeline_inputs su bar) (b_close_time bar) = Inr (None, ws @ [b])"
    show ?thesis using n by (simp add: process_order_def a noted_def [symmetric])
  qed
qed


text \<open>A point of the equity curve: cash plus position at the mark.\<close>

definition point_adds_up :: "EquityPoint \<Rightarrow> bool" where
  "point_adds_up pt \<longleftrightarrow>
     (repr28 (dval (ep_cash pt)) \<and> repr28 (dval (ep_qty pt) * dval (ep_mark pt)) \<and> repr28 (dval (ep_cash pt) + dval (ep_qty pt) * dval (ep_mark pt)) \<longrightarrow>
      dval (ep_equity pt) = dval (ep_cash pt) + dval (ep_qty pt) * dval (ep_mark pt))"

lemma mark_equity_ok:
  assumes "run_ok su run"
  shows "run_ok su (mark_equity su bar run)" "pr_clock (mark_equity su bar run) = pr_clock run"
    "\<exists>pt. rr_curve (pr_result (mark_equity su bar run)) = rr_curve (pr_result run) @ [pt] \<and> ep_time pt = b_close_time bar \<and> point_adds_up pt"
proof -
  have pos: "pr_positions run = [] \<or> (\<exists>p. pr_positions run = [(su_key su, p)])" using assms by (simp add: run_ok_def)
  let ?q = "case map_of (pr_positions run) (su_key su) of None \<Rightarrow> dzero | Some p \<Rightarrow> p_quantity p"
  let ?eq = "compute_equity (pr_cash run) (pr_positions run) (b_close bar)"
  have "dval ?eq = dval (pr_cash run) + dval ?q * dval (b_close bar)"
    if "repr28 (dval (pr_cash run))" "repr28 (dval ?q * dval (b_close bar))" "repr28 (dval (pr_cash run) + dval ?q * dval (b_close bar))"
    using pos that by (auto simp: compute_equity_def dadd_exact dmul_exact)
  then have "point_adds_up \<lparr>ep_time = b_close_time bar, ep_cash = pr_cash run, ep_qty = ?q, ep_mark = b_close bar, ep_equity = ?eq\<rparr>"
    by (simp add: point_adds_up_def)
  then show "\<exists>pt. rr_curve (pr_result (mark_equity su bar run)) = rr_curve (pr_result run) @ [pt] \<and> ep_time pt = b_close_time bar \<and> point_adds_up pt"
    by (simp add: mark_equity_def Let_def)
  show "run_ok su (mark_equity su bar run)" "pr_clock (mark_equity su bar run) = pr_clock run"
    using assms by (simp_all add: mark_equity_def Let_def run_ok_def broker_idle_def)
qed

lemma tick_to_ok:
  assumes "tick_to t clock = Inr clock'" "is_utc (clk_now clock)"
  shows "is_utc (clk_now clock')"
  using assms by (auto simp: tick_to_def sim_tick_def split: if_splits)

text \<open>The dates a run puts on its curve: those of the bars the position series knows.\<close>

definition rebalanced :: "paper_setup \<Rightarrow> Bar list \<Rightarrow> datetime list" where
  "rebalanced su bars = map b_close_time (filter (\<lambda>b. series_at (su_positions su) (b_close_time b) \<noteq> None) bars)"

lemma rebalance_bar_ok:
  assumes su: "setup_ok su" and run: "run_ok su run" and bar: "Bar_ok bar"
  shows "settles (\<lambda>run'. run_ok su run' \<and> rr_final (pr_result run') = rr_final (pr_result run) \<and>
      (\<exists>pts. rr_curve (pr_result run') = rr_curve (pr_result run) @ pts \<and> map ep_time pts = rebalanced su [bar] \<and> list_all point_adds_up pts))
    (rebalance_bar su (n, bar) run)"
proof (cases "tick_to (b_close_time bar) (pr_clock run)")
  case (Inl e)
  then show ?thesis by (simp add: rebalance_bar_def)
next
  case (Inr clock)
  define ticked where "ticked = run\<lparr>pr_clock := clock\<rparr>"
  have "is_utc (clk_now clock)" using tick_to_ok [OF Inr] run by (simp add: run_ok_def broker_idle_def)
  then have t: "run_ok su ticked" "pr_result ticked = pr_result run"
    using run by (simp_all add: ticked_def run_ok_def broker_idle_def)
  show ?thesis
  proof (cases "series_at (su_positions su) (b_close_time bar)")
    case None
    with Inr t show ?thesis by (simp add: rebalance_bar_def ticked_def [symmetric] rebalanced_def)
  next
    case (Some k)
    note ser = this
    show ?thesis
    proof (cases "size_orders (sizer_input su bar k ticked) (su_uuids su n)")
      case (Inl e)
      with Inr \<open>tick_to _ _ = _\<close> Some show ?thesis by (simp add: rebalance_bar_def ticked_def [symmetric])
    next
      case (Inr orders)
      let ?P = "\<lambda>s. run_ok su s \<and> rr_curve (pr_result s) = rr_curve (pr_result run) \<and> rr_final (pr_result s) = rr_final (pr_result run)"
      have loop: "settles ?P (forO (process_order su bar) orders ticked)"
      proof (rule settles_forO [where P = "\<lambda>_. ?P"])
        fix ys r zs s
        assume "orders = ys @ r # zs" and P: "?P s"
        then have "sized_for su r" using sized_orders_for [OF Inr _ su bar, of r] by simp
        from process_order_ok [OF su _ this bar, of s] P show "settles ?P (process_order su bar r s)"
          by (auto elim!: settles_weaken)
      qed (use t in simp)
      have step: "rebalance_bar su (n, bar) run = bindR (forO (process_order su bar) orders ticked) (\<lambda>r. Inr (map_option (mark_equity su bar) r))"
        using \<open>tick_to _ _ = _\<close> ser Inr by (simp add: rebalance_bar_def ticked_def [symmetric])
      show ?thesis
      proof (cases "forO (process_order su bar) orders ticked")
        case (Inr r)
        with loop obtain s where s: "r = Some s" "?P s" by (cases r) simp_all
        from mark_equity_ok [of su s bar] s(2) obtain pt where
          m: "run_ok su (mark_equity su bar s)" "rr_curve (pr_result (mark_equity su bar s)) = rr_curve (pr_result s) @ [pt]"
            "ep_time pt = b_close_time bar" "point_adds_up pt" by blast
        have "rr_final (pr_result (mark_equity su bar s)) = rr_final (pr_result s)" by (simp add: mark_equity_def Let_def)
        with m s show ?thesis
          using ser by (simp add: step Inr s(1) rebalanced_def)
      qed (simp add: step)
    qed
  qed
qed

lemma run_init_ok:
  assumes su: "setup_ok su" and i: "run_init su first = Inr run"
  shows "run_ok su run" "rr_curve (pr_result run) = []"
proof -
  let ?start = "Datetime (wall_us (b_close_time first)) (Some 0)"
  let ?b = "paper_init \<lparr>pc_commission = su_commission su, pc_ack = 0, pc_accept = 0, pc_fill = 0, pc_base = su_base su, pc_cash = su_cash su\<rparr>"
  have u: "is_utc ?start" by (simp add: is_utc_def)
  obtain clock where c: "SimClock_init (Some ?start) = Inr clock" using i by (auto simp: run_init_def)
  with u have cn: "clk_now clock = ?start" by (auto simp: SimClock_init_def Let_def split: if_splits)
  define st where "st = \<lparr>c_connected = True, c_detail = ''paper broker connected'', c_time = ?start\<rparr>"
  have "mk_ConnectionStatus st = Inr st"
    using u by (simp add: mk_ConnectionStatus_def validated_def ConnectionStatus_checks_def require_utc_def st_def)
  then have "paper_connect ?start ?b = (Inr (), put_event (BE_Connection st) (?b\<lparr>pb_connected := True\<rparr>))"
    by (simp add: paper_connect_def put_connection_def st_def)
  with i c cn have run: "run = \<lparr>pr_clock = clock, pr_broker = put_event (BE_Connection st) (?b\<lparr>pb_connected := True\<rparr>), pr_read = 1,
     pr_cash = su_cash su, pr_positions = [], pr_result = \<lparr>rr_curve = [], rr_breaches = [], rr_fills = 0, rr_final = dzero\<rparr>\<rparr>"
    by (simp add: run_init_def Let_def sim_now_def)
  show "run_ok su run" "rr_curve (pr_result run) = []"
    using u by (simp_all add: run run_ok_def broker_idle_def paper_init_def paper_config_of_def cn held_def ledger_of_def event_fills_def event_fill_def)
qed

section \<open>Properties\<close>

text \<open>C11: the paper run reconciles: on valid bars the pipeline never waits for ever; unless it raises, its curve has one
  point for every bar the position series knows, in order, each with the equity that cash and position at the mark give;
  and the position, the cash and the number of fills it ends with are what replaying the fills published by the broker
  gives from the starting cash.\<close>

theorem paper_run_reconciles:
  assumes su: "setup_ok su" and bars: "list_all Bar_ok bars"
  shows "settles (\<lambda>run. map ep_time (rr_curve (pr_result run)) = rebalanced su bars \<and>
      list_all point_adds_up (rr_curve (pr_result run)) \<and>
      ledger_of su (event_fills (pb_events (pr_broker run))) (pr_positions run) (pr_cash run) \<and>
      rr_fills (pr_result run) = length (event_fills (pb_events (pr_broker run))) \<and>
      rr_final (pr_result run) = (if rebalanced su bars = [] then su_cash su else ep_equity (last (rr_curve (pr_result run)))))
    (run_paper_pipeline su (Inr bars))"
proof (cases "su_timing su \<and> bars \<noteq> [] \<and> (\<exists>run. run_init su (hd bars) = Inr run)")
  case False
  then show ?thesis by (cases "run_init su (hd bars)") (auto simp: run_paper_pipeline_def)
next
  case True
  then obtain run where i: "run_init su (hd bars) = Inr run" by blast
  let ?P = "\<lambda>done s. run_ok su s \<and> map ep_time (rr_curve (pr_result s)) = rebalanced su (map snd done) \<and> list_all point_adds_up (rr_curve (pr_result s))"
  have loop: "settles (?P (zip [0..<length bars] bars)) (forO (rebalance_bar su) (zip [0..<length bars] bars) run)"
  proof (rule settles_forO [where P = ?P])
    show "?P [] run" using run_init_ok [OF su i] by (simp add: rebalanced_def)
    fix ys x zs s
    assume z: "zip [0..<length bars] bars = ys @ x # zs" and P: "?P ys s"
    obtain n bar where x: "x = (n, bar)" by (cases x)
    have "bar \<in> set bars" using z x by (metis in_set_conv_decomp set_zip_rightD)
    with bars have "Bar_ok bar" by (simp add: list_all_iff)
    from rebalance_bar_ok [OF su _ this, of s n] P show "settles (?P (ys @ [x])) (rebalance_bar su x s)"
      unfolding x by (auto simp: rebalanced_def elim!: settles_weaken)
  qed
  have fin: "settles (\<lambda>r. pr_result r = (pr_result s)\<lparr>rr_final := if rr_curve (pr_result s) = [] then su_cash su else ep_equity (last (rr_curve (pr_result s)))\<rparr> \<and>
       pr_positions r = pr_positions s \<and> pr_cash r = pr_cash s \<and> event_fills (pb_events (pr_broker r)) = event_fills (pb_events (pr_broker s)))
     (bindR (finish_run su s) (\<lambda>d. Inr (Some d)))" for s
    by (cases rule: put_connection_cases [of False "''paper broker disconnected''" "sim_now (pr_clock s)" "(pr_broker s)\<lparr>pb_connected := False, pb_tasks := []\<rparr>"])
      (auto simp: finish_run_def paper_disconnect_def Let_def event_fills_def event_fill_def)
  have run: "run_paper_pipeline su (Inr bars) = bindR (forO (rebalance_bar su) (zip [0..<length bars] bars) run) (\<lambda>r.
             case r of None \<Rightarrow> Inr None | Some run' \<Rightarrow> bindR (finish_run su run') (\<lambda>done. Inr (Some done)))"
    using True i by (simp add: run_paper_pipeline_def)
  show ?thesis
  proof (cases "forO (rebalance_bar su) (zip [0..<length bars] bars) run")
    case (Inr r)
    with loop obtain s where s: "r = Some s" "?P (zip [0..<length bars] bars) s" by (cases r) simp_all
    from fin [of s] s(2) show ?thesis
      by (auto simp: run Inr s(1) run_ok_def elim!: settles_weaken)
  qed (simp add: run)
qed


definition risk_clear :: "paper_setup \<Rightarrow> Bar \<Rightarrow> bool" where
  "risk_clear su bar \<longleftrightarrow> \<not> ks_armed (su_kill su) \<and>
     artefacts_ok (su_artefacts su) (pipeline_engine su) (pipeline_inputs su bar) (b_close_time bar)"

lemma accepted_strategy_id:
  assumes "mk_LiveStrategyConfig c = Inr cfg"
  shows "lc_strategy_id cfg \<noteq> []"
proof -
  have "\<forall>(b, e) \<in> set (LiveStrategyConfig_checks c). \<not> b"
    using config_checks_pass(2) [OF assms] by (simp only: checks_ok_iff)
  then have "strategy_id_ok (lc_strategy_id c)" by (auto simp: LiveStrategyConfig_checks_def)
  then show ?thesis using config_checks_pass(1) [OF assms] by (simp add: strategy_id_ok_def)
qed

lemma risk_gate_opens:
  assumes "mk_LiveStrategyConfig c = Inr (su_config su)" "risk_clear su bar" "o_type r = MKT"
  shows "gate_open (su_artefacts su) (pipeline_engine su) r (pipeline_inputs su bar) (b_close_time bar)"
  using assms accepted_thresholds(1) [OF assms(1)]
  by (simp add: gate_open_def risk_clear_def pipeline_engine_def pipeline_inputs_def data_fresh_def market_ok_def
      staleness_threshold_def price_sane_def price_deviation_def risk_config_from_live_def Let_def)

text \<open>The signed quantity the pipeline holds.\<close>

definition run_qty :: "paper_setup \<Rightarrow> paper_run_state \<Rightarrow> rat" where
  "run_qty su run = pos_qty (map_of (pr_positions run) (su_key su))"

lemma approved_order_fills:
  assumes su: "setup_ok su" and cfg: "mk_LiveStrategyConfig c = Inr (su_config su)" and run: "run_ok su run"
    and r: "sized_for su r" and bar: "Bar_ok bar" and clear: "risk_clear su bar" and repr: "repr28 (run_qty su run + order_qty r)"
  shows "\<exists>run'. process_order su bar r run = Inr (Some run') \<and> run_ok su run' \<and> run_qty su run' = run_qty su run + order_qty r"
proof -
  let ?sid = "lc_strategy_id (su_config su)" and ?p = "map_of (pr_positions run) (su_key su)"
  have mkt: "o_type r = MKT" using r by (simp add: sized_for_def)
  have eng: "engine_ok (pipeline_engine su) (b_close_time bar)" "bar_utc (pipeline_inputs su bar)"
    using su Bar_ok_facts(2) [OF bar] by (simp_all add: engine_ok_def pipeline_engine_def setup_ok_def bar_utc_def pipeline_inputs_def)
  obtain bs where a: "approve (su_artefacts su) (pipeline_engine su) r (pipeline_inputs su bar) (b_close_time bar) = Inr (Some r, bs)"
    by (rule approve_cases [OF eng, of "su_artefacts su" r]) (use risk_gate_opens [OF cfg clear mkt] in auto)
  define noted where "noted = run\<lparr>pr_result := (pr_result run)\<lparr>rr_breaches := rr_breaches (pr_result run) @ bs\<rparr>\<rparr>"
  have n: "run_ok su noted" "pr_positions noted = pr_positions run" using run by (simp_all add: noted_def run_ok_def broker_idle_def)
  obtain run' f p where e: "execute_order su bar r noted = Inr (Some run')" "run_ok su run'"
    "f_side f = o_side r" "f_quantity f = o_quantity r" "f_instrument f = su_instrument su" "Fill_ok f"
    "apply_fill ?p f ?sid (b_close_time bar) = Inr p" "map_of (pr_positions run') (su_key su) = Some p"
    using execute_order_ok [OF su n(1) r bar] unfolding n(2) by blast
  have fq: "fill_qty f = order_qty r" using e(3,4) by (simp add: fill_qty_def order_qty_def)
  obtain m where m: "o_quantity r = dint m" "1 \<le> m" "m < 10 ^ 28" using r by (auto simp: sized_for_def)
  have "repr28 (of_int m)" by (rule repr28_of_int) (use m in simp)
  then have rq: "repr28 (dval (f_quantity f))" by (simp add: e(4) m(1))
  have held: "held (su_instrument su) ?sid ?p" using run by (simp add: run_ok_def)
  have "dval (p_quantity p) = pos_qty ?p + fill_qty f"
  proof (rule apply_fill_quantity [OF _ e(6) _ _ _ _ rq _ e(7)])
    show "\<forall>q. ?p = Some q \<longrightarrow> Position_ok q" using held by (simp add: held_def)
    show "Instrument_ok (f_instrument f)" "?sid \<noteq> []" using su e(5) by (simp_all add: setup_ok_def)
    show "matches ?p f ?sid" using held e(5) by (auto simp: held_def matches_def split: option.split)
    show "is_utc (b_close_time bar)" by (rule Bar_ok_facts(2) [OF bar])
    show "repr28 (pos_qty ?p + fill_qty f)" using repr by (simp add: fq run_qty_def)
  qed
  then have "run_qty su run' = run_qty su run + order_qty r" by (simp add: run_qty_def e(8) pos_qty_def fq [symmetric])
  with e(1,2) show ?thesis by (intro exI [of _ run']) (simp add: process_order_def a noted_def [symmetric])
qed

text \<open>C21: a rebalance reaches its target: with an accepted configuration, the kill switch off and the artefacts
  fresh, a bar of the position series for which the sizer returns leaves the strategy holding its old whole-share position
  plus the wanted delta up to less than one share; a position of 0 leaves it flat.\<close>

theorem paper_bar_on_target:
  assumes cfg: "mk_LiveStrategyConfig c = Inr (su_config su)" and i: "Instrument_ok (su_instrument su)" "0 \<le> dval (su_commission su)"
    and run: "run_ok su run" and bar: "Bar_ok bar" and clear: "risk_clear su bar"
    and tick: "tick_to (b_close_time bar) (pr_clock run) = Inr clock"
    and ser: "series_at (su_positions su) (b_close_time bar) = Some k"
    and sized: "is_ok (size_orders (sizer_input su bar k run) (su_uuids su n))"
    and whole: "run_qty su run = of_int m" "\<bar>m\<bar> < 10 ^ 27"
    and d: "desired_signed_qty (dmul (compute_equity (pr_cash run) (pr_positions run) (b_close bar)) (lc_nav_slice (su_config su)))
        (dmul (dint k) (su_leverage su)) (b_close bar) = Inr d"
    and small: "\<bar>dval d\<bar> < 10 ^ 26"
  shows "\<exists>run'. rebalance_bar su (n, bar) run = Inr (Some run') \<and> run_ok su run' \<and>
    \<bar>run_qty su run' - (run_qty su run + dval (dsub d (current_qty (sizer_input su bar k run) (su_key su))))\<bar> < 1 \<and>
    (k = 0 \<longrightarrow> run_qty su run' = 0)"
proof -
  have su: "setup_ok su" using i accepted_strategy_id [OF cfg] by (simp add: setup_ok_def)
  let ?inp = "sizer_input su bar k run" and ?q = "run_qty su run"
  let ?delta = "dsub d (current_qty ?inp (su_key su))"
  obtain orders where os: "size_orders ?inp (su_uuids su n) = Inr orders" using sized by (auto simp: is_ok_iff)
  have cur: "dval (current_qty ?inp (su_key su)) = ?q"
    by (simp add: current_qty_def run_qty_def pos_qty_def sizer_input_def split: option.split)
  let ?w = "dmul (dint k) (su_leverage su)"
  obtain oo where one: "size_one ?inp (dmul (s_equity ?inp) (s_nav_slice ?inp)) (su_key su, ?w) (su_uuids su n 0) = Inr oo"
    and orders: "orders = (case oo of None \<Rightarrow> [] | Some r \<Rightarrow> [r])"
    using size_orders_Inr(1) [OF os] by (auto simp: sizer_input_def size_loop_Cons)
  have resid: "\<bar>dval ?delta - opt_order_qty oo\<bar> < 1" "\<bar>opt_order_qty oo\<bar> \<le> \<bar>dval ?delta\<bar>"
    and shape: "\<And>r. oo = Some r \<Longrightarrow> sized_order_shape ?inp r"
    using size_one_residual [OF one] d accepted_strategy_id [OF cfg] Bar_ok_facts(2) [OF bar]
    by (auto simp: sizer_input_def split: option.splits)
  obtain j where j: "opt_order_qty oo = of_int j"
  proof (cases oo)
    case (Some r)
    with shape obtain l where "o_quantity r = dint l" by (auto simp: sized_order_shape_def)
    then show ?thesis using Some that [of l] that [of "- l"] by (cases "o_side r") (auto simp: opt_order_qty_def order_qty_def)
  qed (use that [of 0] in \<open>simp add: opt_order_qty_def\<close>)
  have "\<bar>dval d - ?q\<bar> \<le> of_int (2 * 10 ^ 27)"
  proof -
    have "\<bar>?q\<bar> < 10 ^ 27" using whole by (metis of_int_abs of_int_less_iff of_int_numeral of_int_power)
    with small show ?thesis by simp
  qed
  then have "dval ?delta \<le> of_int (2 * 10 ^ 27)" "of_int (- (2 * 10 ^ 27)) \<le> dval ?delta"
    using rounded_upper [OF dsub_rounded repr28_of_int [of "2 * 10 ^ 27"], of d "current_qty ?inp (su_key su)"]
      rounded_lower [OF dsub_rounded repr28_of_int [of "- (2 * 10 ^ 27)"], of d "current_qty ?inp (su_key su)"] cur
    by (auto simp: abs_le_iff)
  then have "\<bar>dval ?delta\<bar> \<le> of_int (2 * 10 ^ 27)" by (simp add: abs_le_iff)
  with resid(2) j have "\<bar>of_int j\<bar> \<le> (of_int (2 * 10 ^ 27) :: rat)" by linarith
  then have "\<bar>j\<bar> \<le> 2 * 10 ^ 27" by (metis of_int_abs of_int_le_iff)
  then have "repr28 (of_int (m + j))" using whole(2) by (intro repr28_of_int) simp
  then have repr: "repr28 (?q + opt_order_qty oo)" by (simp add: whole(1) j)
  define ticked where "ticked = run\<lparr>pr_clock := clock\<rparr>"
  have "is_utc (clk_now clock)" using tick_to_ok [OF tick] run by (simp add: run_ok_def broker_idle_def)
  then have t: "run_ok su ticked" "run_qty su ticked = ?q"
    using run by (simp_all add: ticked_def run_ok_def broker_idle_def run_qty_def)
  have "sizer_input su bar k ticked = ?inp" by (simp add: sizer_input_def ticked_def)
  with tick ser os have step: "rebalance_bar su (n, bar) run =
      bindR (forO (process_order su bar) orders ticked) (\<lambda>r. Inr (map_option (mark_equity su bar) r))"
    by (simp add: rebalance_bar_def ticked_def [symmetric])
  have "\<exists>s. forO (process_order su bar) orders ticked = Inr (Some s) \<and> run_ok su s \<and> run_qty su s = ?q + opt_order_qty oo"
  proof (cases oo)
    case None
    with t show ?thesis by (simp add: orders opt_order_qty_def)
  next
    case (Some r)
    then have "sized_for su r" using sized_orders_for [OF os _ su bar, of r] by (simp add: orders)
    from approved_order_fills [OF su cfg t(1) this bar clear] repr t(2) Some
    obtain s where "process_order su bar r ticked = Inr (Some s)" "run_ok su s" "run_qty su s = ?q + opt_order_qty oo"
      by (auto simp: opt_order_qty_def)
    then show ?thesis by (simp add: orders Some)
  qed
  then obtain s where s: "forO (process_order su bar) orders ticked = Inr (Some s)" "run_ok su s" "run_qty su s = ?q + opt_order_qty oo" by blast
  have m: "run_ok su (mark_equity su bar s)" "run_qty su (mark_equity su bar s) = run_qty su s"
    using mark_equity_ok(1) [OF s(2)] by (simp_all add: mark_equity_def Let_def run_qty_def)
  have "run_qty su s = 0" if "k = 0"
  proof -
    have "dval d = 0" using d that by (auto simp: desired_signed_qty_def decimal_simps dmul_exact split: if_splits)
    then have "dval ?delta = of_int (- m)"
      using cur whole repr28_of_int [of "- m"] by (subst dsub_exact) auto
    with resid(1) j have "\<bar>of_int (- m - j)\<bar> < (1 :: rat)" by simp
    then have "- m - j = 0" by linarith
    then show ?thesis by (simp add: s(3) whole(1) j)
  qed
  moreover have "\<bar>run_qty su s - (?q + dval ?delta)\<bar> < 1" using resid(1) s(3) by (simp add: abs_minus_commute)
  ultimately show ?thesis using m by (simp add: step s(1))
qed


definition ex_pipe_bar :: Bar where
  "ex_pipe_bar = \<lparr>b_instrument = ex_instrument, b_open_time = utc 0, b_close_time = utc 5, b_open = dint 30, b_high = dint 30,
     b_low = dint 30, b_close = dint 30, b_volume = dint 1, b_vwap = None\<rparr>"

definition ex_setup :: "int \<Rightarrow> paper_setup" where
  "ex_setup k = \<lparr>su_timing = True, su_config = ex_live_config, su_key = ''SPY'', su_instrument = ex_instrument,
     su_leverage = dint 1, su_positions = [(utc 5, k)], su_artefacts = (\<lambda>_. None), su_uuids = (\<lambda>n i. n + i),
     su_cash = dint 100000, su_base = ''USD'', su_commission = dzero, su_kill = fresh_kill_switch\<rparr>"

lemma ex_pipe_bar_ok: "Bar_ok ex_pipe_bar" "b_close_time ex_pipe_bar = utc 5" "b_close ex_pipe_bar = dint 30"
  by (simp_all add: Bar_ok_def ex_pipe_bar_def Bar_checks_def require_utc_def decimal_simps less_eq_datetime_def)

lemma ex_setup_ok: "setup_ok (ex_setup k)" "risk_clear (ex_setup k) bar" "mk_LiveStrategyConfig ex_live_config = Inr (su_config (ex_setup k))"
  using ex_live_config_ok
  by (simp_all add: setup_ok_def ex_setup_def ex_live_config_def risk_clear_def fresh_kill_switch_def artefacts_ok_def pipeline_inputs_def)

lemma ex_run_init:
  obtains run where "run_init (ex_setup k) ex_pipe_bar = Inr run" "pr_positions run = []" "pr_cash run = dint 100000"
    "tick_to (utc 5) (pr_clock run) = Inr (pr_clock run)" "clk_now (pr_clock run) = utc 5"
proof -
  have "SimClock_init (Some (utc 5)) = Inr \<lparr>clk_now = utc 5\<rparr>"
    by (simp add: SimClock_init_def Let_def)
  moreover have "Datetime 5 (Some 0) = utc 5" by (simp add: utc_def)
  moreover have "tick_to (utc 5) \<lparr>clk_now = utc 5\<rparr> = Inr \<lparr>clk_now = utc 5\<rparr>"
  proof -
    have "td_seconds 0 = 0" by code_simp
    moreover have "dt_add_us (utc 5) 0 = utc 5" by (simp add: dt_add_us_def utc_def)
    moreover have "fl 0 = 0" by (simp add: fl_def)
    ultimately show ?thesis by (simp add: tick_to_def sim_now_def sim_tick_def)
  qed
  ultimately show thesis
    using that by (simp add: run_init_def ex_pipe_bar_def ex_setup_def paper_connect_def put_connection_def mk_ConnectionStatus_def
        validated_def ConnectionStatus_checks_def require_utc_def sim_now_def)
qed

theorem paper_bar_on_target_witness:
  "\<exists>run run'. run_init (ex_setup 1) ex_pipe_bar = Inr run \<and> rebalance_bar (ex_setup 1) (0, ex_pipe_bar) run = Inr (Some run') \<and>
     \<bar>run_qty (ex_setup 1) run' - dval (Dec 3333333333333333333333333333 (-25))\<bar> < 1"
proof -
  obtain run where run: "run_init (ex_setup 1) ex_pipe_bar = Inr run" "pr_positions run = []" "pr_cash run = dint 100000"
    "tick_to (utc 5) (pr_clock run) = Inr (pr_clock run)" by (rule ex_run_init)
  have eq: "compute_equity (dint 100000) [] (dint 30) = dint 100000" by code_simp
  have w: "dmul (dint 1) (dint 1) = dint 1" by code_simp
  have inp: "s_targets (sizer_input (ex_setup 1) ex_pipe_bar 1 run) = [(''SPY'', dint 1)]"
    "s_equity (sizer_input (ex_setup 1) ex_pipe_bar 1 run) = dint 100000"
    "s_nav_slice (sizer_input (ex_setup 1) ex_pipe_bar 1 run) = Dec 1 (-1)"
    "s_resolver (sizer_input (ex_setup 1) ex_pipe_bar 1 run) = (\<lambda>_. Inr ex_instrument)"
    "s_price (sizer_input (ex_setup 1) ex_pipe_bar 1 run) = (\<lambda>_. Inr (dint 30))"
    "current_qty (sizer_input (ex_setup 1) ex_pipe_bar 1 run) key = dzero"
    "s_strategy (sizer_input (ex_setup 1) ex_pipe_bar 1 run) = ''lev_sma''"
    "s_now (sizer_input (ex_setup 1) ex_pipe_bar 1 run) = utc 5" for key
    by (simp_all add: sizer_input_def run ex_pipe_bar_ok eq w ex_setup_def ex_live_config_def current_qty_def)
  have sub: "dsub (Dec 3333333333333333333333333333 (-25)) dzero = Dec 3333333333333333333333333333 (-25)" by code_simp
  have sz: "is_ok (size_orders (sizer_input (ex_setup 1) ex_pipe_bar 1 run) (su_uuids (ex_setup 1) 0))"
    by (rule size_orders_total) (simp_all add: inp ex_capital sizable_def ex_desired sub power_int_def power_divide)
  have d: "desired_signed_qty (dmul (compute_equity (pr_cash run) (pr_positions run) (b_close ex_pipe_bar)) (lc_nav_slice (su_config (ex_setup 1))))
        (dmul (dint 1) (su_leverage (ex_setup 1))) (b_close ex_pipe_bar) = Inr (Dec 3333333333333333333333333333 (-25))"
    by (simp add: run ex_pipe_bar_ok eq ex_setup_def ex_live_config_def w ex_capital ex_desired)
  have q: "run_qty (ex_setup 1) run = of_int 0" by (simp add: run_qty_def run pos_qty_def)
  have "Instrument_ok (su_instrument (ex_setup 1))" "0 \<le> dval (su_commission (ex_setup 1))" by (simp_all add: ex_setup_def)
  moreover have "series_at (su_positions (ex_setup 1)) (b_close_time ex_pipe_bar) = Some 1"
    by (simp add: series_at_def ex_setup_def ex_pipe_bar_ok)
  ultimately obtain run' where "rebalance_bar (ex_setup 1) (0, ex_pipe_bar) run = Inr (Some run')"
    "\<bar>run_qty (ex_setup 1) run' - dval (Dec 3333333333333333333333333333 (-25))\<bar> < 1"
    using paper_bar_on_target [OF ex_setup_ok(3) _ _ run_init_ok(1) [OF ex_setup_ok(1) run(1)] ex_pipe_bar_ok(1) ex_setup_ok(2) _ _ sz q _ d]
      run(4) inp(6) sub q by (auto simp: ex_pipe_bar_ok power_int_def power_divide ex_setup_def)
  with run(1) show ?thesis by blast
qed

theorem paper_run_reconciles_witness:
  "settles (\<lambda>run. map ep_time (rr_curve (pr_result run)) = [utc 5]) (run_paper_pipeline (ex_setup 1) (Inr [ex_pipe_bar]))"
proof -
  have "rebalanced (ex_setup 1) [ex_pipe_bar] = [utc 5]"
    by (simp add: rebalanced_def series_at_def ex_setup_def ex_pipe_bar_ok)
  with paper_run_reconciles [OF ex_setup_ok(1), of "[ex_pipe_bar]" 1] ex_pipe_bar_ok(1) show ?thesis
    by (auto elim!: settles_weaken)
qed

end
