(* ===== verification/PriceGrid.thy ===== *)
theory PriceGrid
  imports DomainTypes
begin

text \<open>
  \<open>src/blive/adapters/shared/price_grid.py\<close>: price bands and \<open>snap_price\<close>.  The lemmas
  show which band governs a price, that the snapped price lies on that band's grid, and how far and
  in which direction each rounding policy moves it.
\<close>

section \<open>The code\<close>

datatype RoundingPolicy = NEAREST | CONSERVATIVE | AGGRESSIVE

record PriceIncrement =
  low_edge :: decimal
  increment :: decimal

definition PriceIncrement_checks :: "PriceIncrement \<Rightarrow> (bool \<times> exn) list" where
  "PriceIncrement_checks b =
     [(increment b \<le> dzero, ValueError ''PriceIncrement.increment must be > 0''),
      (low_edge b < dzero, ValueError ''PriceIncrement.low_edge must be >= 0'')]"

definition mk_PriceIncrement :: "PriceIncrement \<Rightarrow> PriceIncrement res" where
  "mk_PriceIncrement = validated PriceIncrement_checks"

text \<open>Python's \<open>min(..., key=...)\<close>: the first element with the least key.\<close>

fun min_band :: "PriceIncrement \<Rightarrow> PriceIncrement list \<Rightarrow> PriceIncrement" where
  "min_band best [] = best"
| "min_band best (b # bs) = min_band (if low_edge b < low_edge best then b else best) bs"

fun pick_band :: "decimal \<Rightarrow> PriceIncrement \<Rightarrow> PriceIncrement list \<Rightarrow> PriceIncrement" where
  "pick_band price chosen [] = chosen"
| "pick_band price chosen (band # bs) =
     pick_band price (if low_edge chosen \<le> low_edge band \<and> low_edge band \<le> price then band else chosen) bs"

definition band_for :: "decimal \<Rightarrow> PriceIncrement list \<Rightarrow> PriceIncrement" where
  "band_for price increments = pick_band price (min_band (hd increments) (tl increments)) increments"

definition rounding_for :: "RoundingPolicy \<Rightarrow> OrderSide \<Rightarrow> rounding" where
  "rounding_for policy side =
     (case policy of
        NEAREST \<Rightarrow> ROUND_HALF_UP
      | CONSERVATIVE \<Rightarrow> (if side = BUY then ROUND_FLOOR else ROUND_CEILING)
      | AGGRESSIVE \<Rightarrow> (if side = BUY then ROUND_CEILING else ROUND_FLOOR))"

definition snap_price :: "decimal \<Rightarrow> PriceIncrement list \<Rightarrow> OrderSide \<Rightarrow> RoundingPolicy \<Rightarrow> decimal res" where
  "snap_price price increments side policy =
     (if price \<le> dzero then Inl (ValueError ''price must be > 0 to snap'')
      else if increments = [] then Inl (ValueError ''increments table must be non-empty'')
      else
        let band = band_for price increments
        in bindR (ddiv (dsub price (low_edge band)) (increment band)) (\<lambda>steps.
           let k = dto_integral (rounding_for policy side) steps;
               snapped = dadd (low_edge band) (dmul k (increment band))
           in dquantize ROUND_HALF_EVEN snapped (increment band)))"

section \<open>The governing band\<close>

definition band_ok :: "PriceIncrement \<Rightarrow> bool" where
  "band_ok b \<longleftrightarrow> 0 < dval (increment b) \<and> 0 \<le> dval (low_edge b)"

lemma mk_PriceIncrement_Inr: "mk_PriceIncrement b = Inr c \<longleftrightarrow> c = b \<and> band_ok b"
  by (auto simp: mk_PriceIncrement_def validated_eq_Inr PriceIncrement_checks_def band_ok_def decimal_simps
      split: if_splits)

lemma min_band_le:
  "dval (low_edge (min_band best bs)) \<le> dval (low_edge best) \<and>
    (\<forall>b \<in> set bs. dval (low_edge (min_band best bs)) \<le> dval (low_edge b)) \<and>
    min_band best bs \<in> insert best (set bs)"
proof (induction best bs rule: min_band.induct)
  case (2 best b bs)
  then show ?case by (auto simp: decimal_simps)
qed simp

lemma pick_band_spec:
  assumes "dval (low_edge chosen) \<le> dval price \<or> (\<forall>b \<in> set bs. dval (low_edge chosen) \<le> dval (low_edge b))"
  shows "pick_band price chosen bs \<in> insert chosen (set bs)"
    and "dval (low_edge chosen) \<le> dval price \<Longrightarrow>
      dval (low_edge (pick_band price chosen bs)) \<le> dval price \<and>
      dval (low_edge chosen) \<le> dval (low_edge (pick_band price chosen bs)) \<and>
      (\<forall>b \<in> set bs. dval (low_edge b) \<le> dval price \<longrightarrow> dval (low_edge b) \<le> dval (low_edge (pick_band price chosen bs)))"
proof -
  show "pick_band price chosen bs \<in> insert chosen (set bs)"
    by (induction price chosen bs rule: pick_band.induct) auto
  show "dval (low_edge (pick_band price chosen bs)) \<le> dval price \<and>
      dval (low_edge chosen) \<le> dval (low_edge (pick_band price chosen bs)) \<and>
      (\<forall>b \<in> set bs. dval (low_edge b) \<le> dval price \<longrightarrow> dval (low_edge b) \<le> dval (low_edge (pick_band price chosen bs)))"
    if "dval (low_edge chosen) \<le> dval price"
    using that
  proof (induction price chosen bs rule: pick_band.induct)
    case (2 price chosen band bs)
    show ?case
    proof (cases "low_edge chosen \<le> low_edge band \<and> low_edge band \<le> price")
      case True
      with 2 show ?thesis by (auto simp: decimal_simps)
    next
      case False
      with 2 show ?thesis by (auto simp: decimal_simps not_le)
    qed
  qed simp
qed

text \<open>In a table that covers the price, the band is the one with the greatest edge not above it.\<close>

lemma band_for_spec:
  assumes ne: "incs \<noteq> []" and cover: "\<exists>b \<in> set incs. dval (low_edge b) \<le> dval price"
  shows "band_for price incs \<in> set incs" "dval (low_edge (band_for price incs)) \<le> dval price"
    "\<And>b. b \<in> set incs \<Longrightarrow> dval (low_edge b) \<le> dval price \<Longrightarrow> dval (low_edge b) \<le> dval (low_edge (band_for price incs))"
proof -
  obtain b0 bs where incs: "incs = b0 # bs" using ne by (cases incs) auto
  let ?m = "min_band b0 bs"
  have m: "?m \<in> set incs" "\<forall>b \<in> set incs. dval (low_edge ?m) \<le> dval (low_edge b)"
    using min_band_le [of b0 bs] incs by auto
  then have le: "dval (low_edge ?m) \<le> dval price" using cover by (meson order.trans)
  have bf: "band_for price incs = pick_band price ?m incs" by (simp add: band_for_def incs)
  note pb = pick_band_spec [of ?m price incs, OF disjI1, OF le]
  show "band_for price incs \<in> set incs" using pb(1) m(1) unfolding bf by auto
  show "dval (low_edge (band_for price incs)) \<le> dval price" using pb(2) [OF le] unfolding bf by blast
  show "\<And>b. b \<in> set incs \<Longrightarrow> dval (low_edge b) \<le> dval price \<Longrightarrow> dval (low_edge b) \<le> dval (low_edge (band_for price incs))"
    using pb(2) [OF le] unfolding bf by blast
qed

lemma band_for_mem: "incs \<noteq> [] \<Longrightarrow> band_for price incs \<in> set incs"
  using pick_band_spec(1) [of "min_band (hd incs) (tl incs)" price incs] min_band_le [of "hd incs" "tl incs"]
  by (cases incs) (auto simp: band_for_def)

section \<open>Snapping to the grid\<close>

text \<open>
  \<open>rounded\<close> quotients of integers below ten to the 14 by integers below ten to the 13 are so
  close to the exact quotient that rounding them to an integer gives what rounding the exact
  quotient would: the integer \<open>k\<close> is within the same bounds of \<open>n / m\<close>.
\<close>

lemma quotient_gap:
  assumes m: "0 < m" "m < 10 ^ 13" and n: "0 \<le> n" "n < 10 ^ 14" and r: "rounded (of_int n / of_int m) r"
  shows "2 * of_int m * \<bar>r - of_int n / of_int m\<bar> < 1"
proof -
  have mr: "(0 :: rat) < of_int m" using m by simp
  have "(of_int n :: rat) < of_int (10 ^ 14)" "(of_int m :: rat) < of_int (10 ^ 13)" "(0 :: rat) \<le> of_int n"
    using m n by (simp_all only: of_int_less_iff of_int_0_le_iff)
  then have b: "(of_int n :: rat) < 10 ^ 14" "(of_int m :: rat) < 10 ^ 13" "(0 :: rat) \<le> of_int n" by simp_all
  have "2 * 10 ^ 27 * \<bar>r - of_int n / of_int m\<bar> \<le> of_int n / of_int m"
    using rounded_error [OF r] b(3) mr by simp
  then have "2 * 10 ^ 27 * \<bar>r - of_int n / of_int m\<bar> * of_int m \<le> of_int n / of_int m * of_int m"
    by (rule mult_right_mono) (use mr in simp)
  then have "10 ^ 27 * (2 * of_int m * \<bar>r - of_int n / of_int m\<bar>) \<le> of_int n" using mr by (simp add: mult_ac)
  with b(1) show ?thesis by simp
qed

lemma twice_abs_le: "a - b \<le> 1 / 2 * s \<Longrightarrow> b - a \<le> 1 / 2 * s \<Longrightarrow> 2 * \<bar>a - b\<bar> \<le> (s :: rat)"
  by (cases "0 \<le> a - b") simp_all

lemma rounded_integral:
  assumes m: "0 < m" "m < 10 ^ 13" and n: "0 \<le> n" "n < 10 ^ 14" and q: "rounded (of_int n / of_int m) (dval q)"
    and k: "k = rescale (rounding_for policy side) q 0"
  defines "x \<equiv> (of_int n :: rat) / of_int m"
  shows "rounding_for policy side = ROUND_FLOOR \<Longrightarrow> of_int k \<le> x \<and> x < of_int k + 1"
    and "rounding_for policy side = ROUND_CEILING \<Longrightarrow> x \<le> of_int k \<and> of_int k < x + 1"
    and "rounding_for policy side = ROUND_HALF_UP \<Longrightarrow> \<bar>of_int k - x\<bar> \<le> 1 / 2"
    and "0 \<le> k" and "of_int k < x + 1"
proof -
  let ?mode = "rounding_for policy side"
  have mr: "(0 :: rat) < of_int m" using m by simp
  have gap: "2 * of_int m * \<bar>dval q - x\<bar> < 1" unfolding x_def by (rule quotient_gap [OF m n q])
  have x0: "0 \<le> x" using n mr by (simp add: x_def)
  have mx: "of_int m * x = of_int n" using mr by (simp add: x_def)
  obtain a d where ad: "0 < d" "k = round_div ?mode a d" "dval q = of_int a / of_int d"
    by (rule rescale_cases [of ?mode q 0]) (auto simp: k)
  have gapm: "\<bar>of_int m * dval q - of_int n\<bar> < 1 / 2"
  proof -
    have "\<bar>of_int m * dval q - of_int n\<bar> = of_int m * \<bar>dval q - x\<bar>"
      using mr by (simp add: abs_mult flip: mx right_diff_distrib)
    with gap show ?thesis by simp
  qed
  then have gapu: "of_int m * dval q - of_int n < 1 / 2" "of_int n - of_int m * dval q < 1 / 2"
    by linarith+
  have int_le: "i \<le> j" if "(of_int i :: rat) < of_int j + 1" for i j :: int
  proof -
    have "(of_int i :: rat) < of_int (j + 1)" using that by simp
    then show ?thesis by (simp only: of_int_less_iff)
  qed
  have nm: "n < 10 ^ 28" "- (10 ^ 28) < n" using n by simp_all
  have integral: "dval q = of_int j" if "x = of_int j" for j
  proof -
    have "\<bar>j\<bar> < 10 ^ 28"
    proof -
      have "(of_int (m * j) :: rat) = of_int n" using that mx by simp
      then have "m * j = n" by (simp only: of_int_eq_iff)
      then have "\<bar>j\<bar> * 1 \<le> \<bar>n\<bar>" using m(1) by (metis abs_ge_zero abs_mult abs_of_pos mult.commute mult_left_mono zless_imp_add1_zle add.left_neutral)
      with n show ?thesis by simp
    qed
    then show ?thesis using rounded_exact [OF q] that repr28_of_int x_def by metis
  qed
  show fl: "of_int k \<le> x \<and> x < of_int k + 1" if mode: "?mode = ROUND_FLOOR"
  proof
    have b: "of_int k \<le> dval q" "dval q < of_int k + 1"
      using round_floor_bounds [OF ad(1), of a] ad mode by simp_all
    have "of_int m * of_int k \<le> of_int m * dval q" using b(1) mr by simp
    then have "of_int m * of_int k < (of_int n :: rat) + 1" using gapu(1) by linarith
    then have "(of_int (m * k) :: rat) < of_int n + 1" by simp
    then have "m * k \<le> n" by (rule int_le)
    then have "(of_int (m * k) :: rat) \<le> of_int n" by (simp only: of_int_le_iff)
    then show kx: "of_int k \<le> x" using mr by (simp add: x_def pos_le_divide_eq mult.commute)
    have "of_int m * dval q < of_int m * (of_int k + 1)" using b(2) mr by simp
    then have "(of_int n :: rat) < of_int m * (of_int k + 1) + 1" using gapu(2) by linarith
    then have "(of_int n :: rat) < of_int (m * (k + 1)) + 1" by simp
    then have "n \<le> m * (k + 1)" by (rule int_le)
    then have "(of_int n :: rat) \<le> of_int (m * (k + 1))" by (simp only: of_int_le_iff)
    then have "x \<le> of_int (k + 1)" using mr by (simp add: x_def pos_divide_le_eq mult.commute)
    moreover have "x \<noteq> of_int (k + 1)" using integral [of "k + 1"] b(2) by auto
    ultimately show "x < of_int k + 1" by simp
  qed
  show ce: "x \<le> of_int k \<and> of_int k < x + 1" if mode: "?mode = ROUND_CEILING"
  proof
    have b: "dval q \<le> of_int k" "of_int k < dval q + 1"
      using round_ceiling_bounds [OF ad(1), of a] ad mode by simp_all
    have "of_int m * dval q \<le> of_int m * of_int k" using b(1) mr by simp
    then have "(of_int n :: rat) < of_int m * of_int k + 1" using gapu(2) by linarith
    then have "(of_int n :: rat) < of_int (m * k) + 1" by simp
    then have "n \<le> m * k" by (rule int_le)
    then have "(of_int n :: rat) \<le> of_int (m * k)" by (simp only: of_int_le_iff)
    then show "x \<le> of_int k" using mr by (simp add: x_def pos_divide_le_eq mult.commute)
    have "of_int m * of_int k < of_int m * (dval q + 1)" using b(2) mr by simp
    then have "of_int m * of_int k - of_int m < (of_int n :: rat) + 1" using gapu(1) by (simp only: distrib_left)
    then have "(of_int (m * (k - 1)) :: rat) < of_int n + 1" by (simp add: right_diff_distrib)
    then have "m * (k - 1) \<le> n" by (rule int_le)
    then have "(of_int (m * (k - 1)) :: rat) \<le> of_int n" by (simp only: of_int_le_iff)
    then have "of_int (k - 1) \<le> x" using mr by (simp add: x_def pos_le_divide_eq mult.commute)
    moreover have "x \<noteq> of_int (k - 1)" using integral [of "k - 1"] b(2) by auto
    ultimately show "of_int k < x + 1" by simp
  qed
  show hu: "\<bar>of_int k - x\<bar> \<le> 1 / 2" if mode: "?mode = ROUND_HALF_UP"
  proof -
    have b: "\<bar>of_int k - dval q\<bar> \<le> 1 / 2" using round_half_up_bounds [OF ad(1), of a] ad mode by simp
    have "\<bar>of_int m * of_int k - of_int m * dval q\<bar> = of_int m * \<bar>of_int k - dval q\<bar>"
      using mr by (simp add: abs_mult flip: right_diff_distrib)
    also have "\<dots> \<le> of_int m * (1 / 2)" using b mr by (intro mult_left_mono) simp_all
    finally have "of_int m * of_int k - of_int m * dval q \<le> of_int m * (1 / 2)"
      "of_int m * dval q - of_int m * of_int k \<le> of_int m * (1 / 2)" by (simp_all only: abs_le_iff minus_diff_eq)
    then have "2 * (of_int m * of_int k) - 2 * of_int n < (of_int m :: rat) + 1"
      "2 * of_int n - 2 * (of_int m * of_int k) < (of_int m :: rat) + 1" using gapu by linarith+
    then have "(of_int (2 * m * k - 2 * n) :: rat) < of_int m + 1" "(of_int (2 * n - 2 * m * k) :: rat) < of_int m + 1"
      by simp_all
    then have "2 * m * k - 2 * n \<le> m" "2 * n - 2 * m * k \<le> m" by (simp_all only: int_le)
    then have "(of_int (2 * m * k - 2 * n) :: rat) \<le> of_int m" "(of_int (2 * n - 2 * m * k) :: rat) \<le> of_int m"
      by (simp_all only: of_int_le_iff)
    then have "2 * (of_int m * of_int k) - 2 * (of_int m * x) \<le> (of_int m :: rat)"
      "2 * (of_int m * x) - 2 * (of_int m * of_int k) \<le> (of_int m :: rat)" by (simp_all add: mx)
    then have "of_int m * (2 * (of_int k - x)) \<le> of_int m * (1::rat)" "of_int m * (2 * (x - of_int k)) \<le> of_int m * (1::rat)"
      by (simp_all add: algebra_simps)
    then have "2 * (of_int k - x) \<le> 1" "2 * (x - of_int k) \<le> 1" using mr by (simp_all only: mult_le_cancel_left_pos)
    then have "2 * \<bar>of_int k - x\<bar> \<le> 1" by (intro twice_abs_le) simp_all
    then show ?thesis by simp
  qed
  have modes: "?mode = ROUND_FLOOR \<or> ?mode = ROUND_CEILING \<or> ?mode = ROUND_HALF_UP"
    by (cases policy; cases side) (simp_all add: rounding_for_def)
  have near: "\<bar>of_int k - x\<bar> < 1"
    using modes
  proof (elim disjE)
    assume "?mode = ROUND_FLOOR"
    with fl show ?thesis by (cases "of_int k = x") simp_all
  next
    assume "?mode = ROUND_CEILING"
    with ce show ?thesis by (cases "of_int k = x") simp_all
  next
    assume "?mode = ROUND_HALF_UP"
    from hu [OF this] show ?thesis by linarith
  qed
  then show "of_int k < x + 1" by linarith
  have "- 1 < (of_int k :: rat)" using near x0 by linarith
  then have "(of_int (- 1) :: rat) < of_int k" by simp
  then show "0 \<le> k" by (simp only: of_int_less_iff)
qed

text \<open>
  The table fits the price: in units of the smallest exponent involved, price and increment are
  below ten to the 13, and the band's edge is a multiple of the increment's last decimal place.
\<close>

definition grid_fits :: "decimal \<Rightarrow> PriceIncrement \<Rightarrow> bool" where
  "grid_fits price b \<longleftrightarrow>
     (let e = min (expo price) (min (expo (low_edge b)) (expo (increment b)))
      in aligned e price < 10 ^ 13 \<and> aligned e (increment b) < 10 ^ 13 \<and>
         aligned e (low_edge b) mod 10 ^ nat (expo (increment b) - e) = 0)"

definition policy_bound :: "RoundingPolicy \<Rightarrow> OrderSide \<Rightarrow> rat \<Rightarrow> rat \<Rightarrow> rat \<Rightarrow> bool" where
  "policy_bound policy side price step snapped \<longleftrightarrow>
     (case rounding_for policy side of
        ROUND_FLOOR \<Rightarrow> snapped \<le> price \<and> price - snapped < step
      | ROUND_CEILING \<Rightarrow> price \<le> snapped \<and> snapped - price < step
      | _ \<Rightarrow> 2 * \<bar>snapped - price\<bar> \<le> step)"

lemma snap_price_band:
  assumes p: "0 < dval price" and ne: "incs \<noteq> []" and b: "band_ok (band_for price incs)"
    and le: "dval (low_edge (band_for price incs)) \<le> dval price" and fit: "grid_fits price (band_for price incs)"
  defines "edge \<equiv> dval (low_edge (band_for price incs))" and "step \<equiv> dval (increment (band_for price incs))"
  shows "\<exists>s k. snap_price price incs side policy = Inr s \<and> 0 \<le> k \<and> dval s = edge + of_int k * step \<and>
    policy_bound policy side (dval price) step (dval s)"
proof -
  let ?b = "band_for price incs"
  define e where "e = min (expo price) (min (expo (low_edge ?b)) (expo (increment ?b)))"
  define P L M where "P = aligned e price" and "L = aligned e (low_edge ?b)" and "M = aligned e (increment ?b)"
  have vals: "dval price = of_int P * p10 e" "edge = of_int L * p10 e" "step = of_int M * p10 e"
    unfolding P_def L_def M_def edge_def step_def by (rule dval_aligned, simp add: e_def)+
  have M0: "0 < M" and L0: "0 \<le> L" and PL: "L \<le> P"
  proof -
    have "0 < step" "0 \<le> edge" "edge \<le> dval price" using b le by (simp_all add: band_ok_def edge_def step_def)
    then have "0 < of_int M * p10 e" "0 * p10 e \<le> of_int L * p10 e" "of_int L * p10 e \<le> of_int P * p10 e"
      by (simp_all add: vals)
    then show "0 < M" "0 \<le> L" "L \<le> P" by (simp_all add: zero_less_mult_iff zero_le_mult_iff)
  qed
  have bounds: "P < 10 ^ 13" "M < 10 ^ 13" and al: "L mod 10 ^ nat (expo (increment ?b) - e) = 0"
    using fit by (simp_all add: grid_fits_def Let_def P_def L_def M_def flip: e_def)
  define n where "n = P - L"
  have n: "0 \<le> n" "n < 10 ^ 14" using PL L0 bounds(1) by (simp_all add: n_def)
  have dn: "dval price - edge = of_int n * p10 e" by (simp add: vals n_def left_diff_distrib)
  have "dval (dsub price (low_edge ?b)) = of_int n * p10 e"
    using dsub_exact [of price "low_edge ?b"] repr28_Dec [of n e] n dn by (simp add: edge_def)
  moreover have step0: "0 < step" using b by (simp add: band_ok_def step_def)
  ultimately obtain q where q: "ddiv (dsub price (low_edge ?b)) (increment ?b) = Inr q"
    "rounded (of_int n / of_int M) (dval q)"
    using ddiv_pos [of "increment ?b" "dsub price (low_edge ?b)"] vals(3) by (auto simp: step_def)
  define k where "k = rescale (rounding_for policy side) q 0"
  note ri = rounded_integral [OF M0 bounds(2) n q(2) k_def]
  let ?K = "dto_integral (rounding_for policy side) q"
  have K: "dval ?K = of_int k" by (simp add: dto_integral_rescale k_def)
  have Mr: "(0 :: rat) < of_int M" using M0 by simp
  have kM: "0 \<le> k * M" "k * M < n + M"
  proof -
    have "of_int k * of_int M < (of_int n / of_int M + 1 :: rat) * of_int M"
      using ri(5) by (rule mult_strict_right_mono) (use Mr in simp)
    then have "(of_int (k * M) :: rat) < of_int (n + M)" using Mr by (simp add: distrib_right)
    then show "k * M < n + M" by (simp only: of_int_less_iff)
    show "0 \<le> k * M" using ri(4) M0 by simp
  qed
  have "dval (dmul ?K (increment ?b)) = of_int (k * M) * p10 e"
    using dmul_exact [of ?K "increment ?b"] repr28_Dec [of "k * M" e] kM n bounds vals(3)
    by (simp add: K step_def mult.assoc)
  then have snapped: "dval (dadd (low_edge ?b) (dmul ?K (increment ?b))) = edge + of_int k * step"
    using dadd_exact [of "low_edge ?b" "dmul ?K (increment ?b)"] repr28_Dec [of "L + k * M" e] kM n bounds L0 PL
    by (simp add: vals distrib_right mult.assoc flip: edge_def)
  define t where "t = nat (expo (increment ?b) - e)"
  have "e \<le> expo (increment ?b)" by (simp add: e_def)
  then have ei: "expo (increment ?b) = e + int t" by (simp add: t_def)
  have Mt: "M = coef (increment ?b) * 10 ^ t" by (simp add: M_def aligned_def t_def)
  obtain l where l: "L = l * 10 ^ t" using al by (metis t_def dvd_eq_mod_eq_0 dvd_def mult.commute)
  let ?j = "l + k * coef (increment ?b)"
  have jt: "?j * 10 ^ t = L + k * M" by (simp add: l Mt distrib_right)
  have sj: "edge + of_int k * step = of_int ?j * p10 (expo (increment ?b))"
  proof -
    have "edge + of_int k * step = of_int (L + k * M) * p10 e" by (simp add: vals distrib_right)
    also have "\<dots> = of_int (?j * 10 ^ t) * p10 e" by (simp only: jt)
    also have "\<dots> = of_int ?j * p10 (expo (increment ?b))" by (simp add: ei p10_add p10_int)
    finally show ?thesis .
  qed
  have j: "\<bar>?j\<bar> < 10 ^ 28"
  proof -
    have "\<bar>?j\<bar> * 1 \<le> \<bar>?j\<bar> * 10 ^ t" by (intro mult_left_mono) simp_all
    also have "\<dots> = \<bar>L + k * M\<bar>" by (simp add: abs_mult flip: jt)
    also have "\<dots> < 10 ^ 28" using kM n bounds L0 PL by simp
    finally show ?thesis by simp
  qed
  let ?s = "Dec ?j (expo (increment ?b))"
  have res: "snap_price price incs side policy = Inr ?s"
    using p ne q(1) snapped sj j rescale_exact [of "dadd (low_edge ?b) (dmul ?K (increment ?b))" ?j "expo (increment ?b)"]
    by (simp add: snap_price_def Let_def decimal_simps dquantize_ok)
  have sv: "dval ?s = edge + of_int k * step" by (simp add: sj)
  have diff: "dval ?s - dval price = (of_int k - of_int n / of_int M) * step"
  proof -
    have "of_int n / of_int M * step = of_int n * p10 e" using Mr by (simp add: vals(3))
    then have "of_int n / of_int M * step = dval price - edge" using dn by simp
    then show ?thesis unfolding sv by (simp add: left_diff_distrib)
  qed
  have "policy_bound policy side (dval price) step (dval ?s)"
  proof -
    let ?x = "of_int n / of_int M :: rat"
    have up: "dval ?s - dval price \<le> c * step" if "of_int k - ?x \<le> c" for c
      unfolding diff using that step0 by (intro mult_right_mono) simp_all
    have lo: "dval price - dval ?s \<le> c * step" if "?x - of_int k \<le> c" for c
    proof -
      have "dval price - dval ?s = (?x - of_int k) * step" using diff by (simp add: left_diff_distrib)
      also have "\<dots> \<le> c * step" using that step0 by (intro mult_right_mono) simp_all
      finally show ?thesis .
    qed
    have ups: "dval ?s - dval price < step" if "of_int k < ?x + 1"
      using mult_strict_right_mono [of "of_int k - ?x" 1 step] that step0 unfolding diff by simp
    have los: "dval price - dval ?s < step" if "?x < of_int k + 1"
      using mult_strict_right_mono [of "?x - of_int k" 1 step] that step0 diff by (simp add: left_diff_distrib)
    show ?thesis
    proof (cases "rounding_for policy side")
      case ROUND_FLOOR
      with ri(1) up [of 0] los show ?thesis by (simp add: policy_bound_def)
    next
      case ROUND_CEILING
      with ri(2) lo [of 0] ups show ?thesis by (simp add: policy_bound_def)
    next
      case ROUND_HALF_UP
      have "of_int k - ?x \<le> 1 / 2" "?x - of_int k \<le> 1 / 2" using ri(3) [OF ROUND_HALF_UP] by linarith+
      then have "dval ?s - dval price \<le> 1 / 2 * step" "dval price - dval ?s \<le> 1 / 2 * step" using up lo by blast+
      then have "2 * \<bar>dval ?s - dval price\<bar> \<le> step" by (rule twice_abs_le)
      with ROUND_HALF_UP show ?thesis by (simp add: policy_bound_def)
    qed (cases policy; cases side; simp add: rounding_for_def)+
  qed
  with res sv ri(4) show ?thesis by blast
qed

section \<open>Properties\<close>

text \<open>C28: snapping lands on the venue's grid: when the table covers the price, \<open>snap_price\<close> returns
  a price that is the edge of the governing band (the one with the greatest edge not above the price) plus a
  whole number of its increments, and it moves the price by the policy's rule: CONSERVATIVE never worsens it
  (down for a BUY, up for a SELL), AGGRESSIVE the opposite, each by less than one increment, NEAREST by at
  most half of one.\<close>

theorem snap_price_on_grid:
  assumes p: "0 < dval price" and ok: "list_all band_ok incs" and cover: "\<exists>b \<in> set incs. dval (low_edge b) \<le> dval price"
    and fit: "grid_fits price (band_for price incs)"
  shows "\<exists>b \<in> set incs. dval (low_edge b) \<le> dval price \<and>
    list_all (\<lambda>b'. dval (low_edge b') \<le> dval (low_edge b) \<or> dval price < dval (low_edge b')) incs \<and>
    (\<exists>s k. snap_price price incs side policy = Inr s \<and> dval s = dval (low_edge b) + of_int k * dval (increment b) \<and>
       0 \<le> k \<and> policy_bound policy side (dval price) (dval (increment b)) (dval s))"
proof -
  have ne: "incs \<noteq> []" using cover by auto
  note bs = band_for_spec [OF ne cover]
  have "band_ok (band_for price incs)" using ok bs(1) by (simp add: list_all_iff)
  from snap_price_band [OF p ne this bs(2) fit, of side policy] bs show ?thesis
    by (intro bexI [of _ "band_for price incs"]) (auto simp: list_all_iff not_le)
qed

definition ex_grid :: "PriceIncrement list" where
  "ex_grid = [\<lparr>low_edge = dzero, increment = Dec 1 (-4)\<rparr>, \<lparr>low_edge = dint 1, increment = Dec 1 (-2)\<rparr>]"

theorem snap_price_on_grid_witness:
  "\<exists>s. snap_price (Dec 123456 (-3)) ex_grid SELL CONSERVATIVE = Inr s \<and> 123456 / 1000 \<le> dval s \<and> dval s - 123456 / 1000 < 1 / 100"
proof -
  have b: "band_for (Dec 123456 (-3)) ex_grid = \<lparr>low_edge = dint 1, increment = Dec 1 (-2)\<rparr>"
    and f: "grid_fits (Dec 123456 (-3)) \<lparr>low_edge = dint 1, increment = Dec 1 (-2)\<rparr>"
    by code_simp+
  have "\<exists>b \<in> set ex_grid. dval (low_edge b) \<le> dval (Dec 123456 (-3)) \<and>
    list_all (\<lambda>b'. dval (low_edge b') \<le> dval (low_edge b) \<or> dval (Dec 123456 (-3)) < dval (low_edge b')) ex_grid \<and>
    (\<exists>s k. snap_price (Dec 123456 (-3)) ex_grid SELL CONSERVATIVE = Inr s \<and> dval s = dval (low_edge b) + of_int k * dval (increment b) \<and>
       0 \<le> k \<and> policy_bound CONSERVATIVE SELL (dval (Dec 123456 (-3))) (dval (increment b)) (dval s))"
    by (rule snap_price_on_grid) (simp_all add: b f, simp_all add: ex_grid_def band_ok_def power_int_def)
  then show ?thesis
    by (auto simp: ex_grid_def policy_bound_def rounding_for_def power_int_def power_divide)
qed

text \<open>A price above the tick range survives, one far below a tick does not: with a single band starting at
  zero, a positive price below half an increment snaps to zero under NEAREST, and a BUY price below one
  increment snaps to zero under CONSERVATIVE, and zero is not a price an \<open>Order\<close> accepts.\<close>

theorem small_price_snaps_to_zero:
  assumes "0 < dval price" "0 < dval inc" "grid_fits price \<lparr>low_edge = dzero, increment = inc\<rparr>"
    and "(policy = NEAREST \<and> 2 * dval price < dval inc) \<or> (policy = CONSERVATIVE \<and> side = BUY \<and> dval price < dval inc)"
  shows "\<exists>s. snap_price price [\<lparr>low_edge = dzero, increment = inc\<rparr>] side policy = Inr s \<and> dval s = 0 \<and>
    mk_Order (r\<lparr>o_type := LMT, o_limit := Some s\<rparr>) \<noteq> Inr (r\<lparr>o_type := LMT, o_limit := Some s\<rparr>)"
proof -
  let ?b = "\<lparr>low_edge = dzero, increment = inc\<rparr>"
  have bf: "band_for price [?b] = ?b" by (simp add: band_for_def)
  obtain s k where s: "snap_price price [?b] side policy = Inr s" "0 \<le> k" "dval s = of_int k * dval inc"
    "policy_bound policy side (dval price) (dval inc) (dval s)"
    using snap_price_band [of price "[?b]" side policy] assms(1-3) by (auto simp: bf band_ok_def)
  have "dval s < dval inc"
    using assms(4)
  proof (elim disjE conjE)
    assume "policy = NEAREST" "2 * dval price < dval inc"
    with s(4) have "2 * \<bar>dval s - dval price\<bar> \<le> dval inc" "2 * dval price < dval inc"
      by (simp_all add: policy_bound_def rounding_for_def)
    then show ?thesis by (cases "dval price \<le> dval s") simp_all
  next
    assume "policy = CONSERVATIVE" "side = BUY" "dval price < dval inc"
    with s(4) show ?thesis by (simp add: policy_bound_def rounding_for_def)
  qed
  then have "of_int k * dval inc < dval inc" by (simp add: s(3))
  then have "(of_int k :: rat) < of_int 1" using assms(2) by (simp add: mult_less_cancel_right1)
  then have "k = 0" using s(2) by (simp only: of_int_less_iff)
  then have z: "dval s = 0" using s(3) by simp
  have "mk_Order (r\<lparr>o_type := LMT, o_limit := Some s\<rparr>) \<noteq> Inr (r\<lparr>o_type := LMT, o_limit := Some s\<rparr>)"
    using z by (simp add: mk_Order_def validated_eq_Inr checks_ok_iff Order_checks_def needs_limit_def none_or_nonpos_def decimal_simps)
  with s(1) z show ?thesis by blast
qed

theorem small_price_snaps_to_zero_witness:
  "\<exists>s. snap_price (Dec 4 (-3)) [\<lparr>low_edge = dzero, increment = Dec 1 (-2)\<rparr>] BUY NEAREST = Inr s \<and> dval s = 0"
proof -
  have "grid_fits (Dec 4 (-3)) \<lparr>low_edge = dzero, increment = Dec 1 (-2)\<rparr>" by code_simp
  then show ?thesis
    using small_price_snaps_to_zero [of "Dec 4 (-3)" "Dec 1 (-2)" NEAREST BUY] by (auto simp: power_int_def power_divide)
qed

end
