(* ===== verification/DecimalText.thy ===== *)
theory DecimalText
  imports Decimals
begin

text \<open>
  \<open>Decimal(text)\<close> for the texts the adapters receive: an optional sign, digits with an optional
  fraction and an optional exponent, surrounded by white space, underscores ignored.  Any other
  text is None, which the callers see as \<open>InvalidOperation\<close>; the special values NaN and
  Infinity are outside the decimals of this development and count as other text.
\<close>

fun digits_value :: "int \<Rightarrow> string \<Rightarrow> int" where
  "digits_value acc [] = acc"
| "digits_value acc (c # cs) = digits_value (10 * acc + (of_char c - 48)) cs"

definition take_sign :: "string \<Rightarrow> int \<times> string" where
  "take_sign s =
     (case s of
        [] \<Rightarrow> (1, [])
      | c # cs \<Rightarrow> if c = CHR ''-'' then (-1, cs) else if c = CHR ''+'' then (1, cs) else (1, s))"

definition parse_exponent :: "string \<Rightarrow> int option" where
  "parse_exponent s =
     (case s of
        [] \<Rightarrow> Some 0
      | c # cs \<Rightarrow>
          if c = CHR ''e'' \<or> c = CHR ''E''
          then (case take_sign cs of (sg, ds) \<Rightarrow>
                  if ds \<noteq> [] \<and> list_all c_digit ds then Some (sg * digits_value 0 ds) else None)
          else None)"

definition parse_decimal :: "string \<Rightarrow> decimal option" where
  "parse_decimal text =
     (case take_sign (filter (\<lambda>c. c \<noteq> CHR ''_'') (py_strip text)) of
        (sg, body) \<Rightarrow>
          let whole = takeWhile c_digit body;
              rest = dropWhile c_digit body;
              fr = (case rest of [] \<Rightarrow> [] | c # cs \<Rightarrow> if c = CHR ''.'' then takeWhile c_digit cs else []);
              tail = (case rest of [] \<Rightarrow> [] | c # cs \<Rightarrow> if c = CHR ''.'' then dropWhile c_digit cs else rest)
          in if whole = [] \<and> fr = [] then None
             else map_option (\<lambda>e. Dec (sg * digits_value 0 (whole @ fr)) (e - int (length fr))) (parse_exponent tail))"

text \<open>Reading a text, or raising as \<open>Decimal(...)\<close> does.\<close>

definition read_decimal :: "string \<Rightarrow> decimal res" where
  "read_decimal text = (case parse_decimal text of None \<Rightarrow> Inl InvalidOperation | Some d \<Rightarrow> Inr d)"

text \<open>\<open>int(text)\<close>: an optional sign and digits with single underscores between them.\<close>

fun digit_run :: "bool \<Rightarrow> int \<Rightarrow> string \<Rightarrow> int option" where
  "digit_run digit acc [] = (if digit then Some acc else None)"
| "digit_run digit acc (c # cs) =
     (if c = CHR ''_'' then (if digit then digit_run False acc cs else None)
      else if c_digit c then digit_run True (10 * acc + (of_char c - 48)) cs else None)"

definition parse_int :: "string \<Rightarrow> int option" where
  "parse_int text = (case take_sign (py_strip text) of (sg, ds) \<Rightarrow> map_option ((*) sg) (digit_run False 0 ds))"

section \<open>Reading back what was written\<close>

lemma digits_value_append: "digits_value a (xs @ ys) = digits_value (digits_value a xs) ys"
  by (induction xs arbitrary: a) simp_all

lemma digit_char: "0 \<le> d \<Longrightarrow> d < 10 \<Longrightarrow> c_digit (char_of (48 + nat d)) \<and> (of_char (char_of (48 + nat d) :: char) :: int) = 48 + d"
proof -
  assume "0 \<le> d" "d < 10"
  then have "d \<in> {0, 1, 2, 3, 4, 5, 6, 7, 8, 9}" by (simp, presburger)
  then show ?thesis by (auto simp: c_digit_def char_of_def bit_0)
qed

lemma show_digits_digits: "0 \<le> n \<Longrightarrow> list_all c_digit (show_digits n) \<and> digits_value 0 (show_digits n) = n"
proof (induction n rule: show_digits.induct)
  case (1 n)
  show ?case
  proof (cases "n < 10")
    case True
    with 1 digit_char [of n] show ?thesis by (subst (1 2) show_digits.simps) simp
  next
    case False
    with 1 digit_char [of "n mod 10"] show ?thesis
      by (subst (1 2) show_digits.simps) (simp add: digits_value_append)
  qed
qed

lemma c_digit_facts:
  "c_digit c \<Longrightarrow> \<not> c_space c" "c_digit c \<Longrightarrow> c \<noteq> CHR ''_''" "c_digit c \<Longrightarrow> c \<noteq> CHR ''-''" "c_digit c \<Longrightarrow> c \<noteq> CHR ''+''"
  "\<not> c_space CHR ''-''"
  by (auto simp: c_digit_def c_space_def)

lemma py_strip_id: "s \<noteq> [] \<Longrightarrow> \<not> c_space (hd s) \<Longrightarrow> \<not> c_space (last s) \<Longrightarrow> py_strip s = s"
  by (simp add: py_strip_def dropWhile_eq_self_iff [THEN iffD2] hd_rev)

lemma parse_show_digits:
  assumes "ds \<noteq> []" "list_all c_digit ds"
  shows "parse_decimal ds = Some (Dec (digits_value 0 ds) 0)"
    and "parse_decimal (CHR ''-'' # ds) = Some (Dec (- digits_value 0 ds) 0)"
proof -
  have d: "c_digit c" if "c \<in> set ds" for c using assms(2) that by (simp add: list_all_iff)
  have nosp: "\<not> c_space (hd ds)" "\<not> c_space (last ds)" using d assms(1) c_digit_facts(1) by simp_all
  have u: "filter (\<lambda>c. c \<noteq> CHR ''_'') ds = ds" using d c_digit_facts(2) by (intro filter_True) auto
  have w: "takeWhile c_digit ds = ds" "dropWhile c_digit ds = []" using d by (simp_all add: takeWhile_eq_all_conv)
  have s1: "take_sign ds = (1, ds)"
    using d assms(1) c_digit_facts(3,4) by (cases ds) (auto simp: take_sign_def)
  have st: "py_strip ds = ds" "py_strip (CHR ''-'' # ds) = CHR ''-'' # ds"
    using nosp assms(1) c_digit_facts(5) by (simp_all add: py_strip_id)
  show "parse_decimal ds = Some (Dec (digits_value 0 ds) 0)"
    using assms(1) by (simp add: parse_decimal_def st u s1 w parse_exponent_def)
  have s2: "take_sign (CHR ''-'' # ds) = (-1, ds)" by (simp add: take_sign_def)
  show "parse_decimal (CHR ''-'' # ds) = Some (Dec (- digits_value 0 ds) 0)"
    using assms(1) by (simp add: parse_decimal_def st u s2 w parse_exponent_def)
qed

lemma parse_show_int: "parse_decimal (show_int n) = Some (dint n)"
  using show_digits_digits [of n] show_digits_digits [of "- n"] parse_show_digits [of "show_digits n"]
    parse_show_digits [of "show_digits (- n)"]
  by (simp add: show_int_def)

section \<open>Writing a decimal\<close>

text \<open>Python's \<open>str(d)\<close>: plain notation for small exponents, scientific notation otherwise.\<close>

definition show_exponent :: "int \<Rightarrow> string" where
  "show_exponent n = CHR ''E'' # (if n < 0 then CHR ''-'' else CHR ''+'') # show_digits \<bar>n\<bar>"

definition show_decimal :: "decimal \<Rightarrow> string" where
  "show_decimal d =
     (let ds = show_digits \<bar>coef d\<bar>;
          leftdigits = expo d + int (length ds);
          dotplace = (if expo d \<le> 0 \<and> - 6 < leftdigits then leftdigits else 1);
          whole = (if dotplace \<le> 0 then ''0''
                   else if int (length ds) \<le> dotplace then ds @ replicate (nat dotplace - length ds) CHR ''0''
                   else take (nat dotplace) ds);
          fr = (if dotplace \<le> 0 then CHR ''.'' # replicate (nat (- dotplace)) CHR ''0'' @ ds
                  else if int (length ds) \<le> dotplace then []
                  else CHR ''.'' # drop (nat dotplace) ds);
          ex = (if leftdigits = dotplace then [] else show_exponent (leftdigits - dotplace))
      in (if coef d < 0 then ''-'' else []) @ whole @ fr @ ex)"

lemma parse_show_exponent: "parse_exponent (show_exponent n) = Some n"
  using show_digits_digits [of n] show_digits_digits [of "- n"]
  by (simp add: parse_exponent_def show_exponent_def take_sign_def abs_if)

lemma clean_text:
  assumes "\<And>c. c \<in> set t \<Longrightarrow> \<not> c_space c \<and> c \<noteq> CHR ''_''"
  shows "filter (\<lambda>c. c \<noteq> CHR ''_'') (py_strip t) = t"
proof (cases "t = []")
  case False
  then have "hd t \<in> set t" "last t \<in> set t" by simp_all
  then have "py_strip t = t" using assms False by (intro py_strip_id) blast+
  moreover have "filter (\<lambda>c. c \<noteq> CHR ''_'') t = t" using assms by (intro filter_True) blast
  ultimately show ?thesis by simp
qed simp

text \<open>A text made of digits, an optional fraction and an optional exponent parses to its parts.\<close>

lemma parse_parts:
  assumes w: "whole \<noteq> []" "list_all c_digit whole" and f: "list_all c_digit fr"
    and x: "ex = [] \<and> n = 0 \<or> ex = show_exponent n" and sg: "sgn_text = [] \<and> sg = 1 \<or> sgn_text = ''-'' \<and> sg = - 1"
  shows "parse_decimal (sgn_text @ whole @ (if fr = [] then [] else CHR ''.'' # fr) @ ex)
    = Some (Dec (sg * digits_value 0 (whole @ fr)) (n - int (length fr)))"
proof -
  let ?body = "whole @ (if fr = [] then [] else CHR ''.'' # fr) @ ex"
  have dw: "c_digit c" if "c \<in> set whole" for c using w(2) that by (simp add: list_all_iff)
  have df: "c_digit c" if "c \<in> set fr" for c using f that by (simp add: list_all_iff)
  have de: "c_digit c \<or> c \<in> {CHR ''E'', CHR ''+'', CHR ''-''}" if "c \<in> set ex" for c
    using x show_digits_digits [of "\<bar>n\<bar>"] that by (auto simp: show_exponent_def list_all_iff split: if_splits)
  have chars: "c_digit c \<or> c \<in> {CHR ''E'', CHR ''+'', CHR ''-'', CHR ''.''}" if "c \<in> set (sgn_text @ ?body)" for c
    using that dw df de sg by (auto split: if_splits)
  have nosp: "\<not> c_space c \<and> c \<noteq> CHR ''_''" if "c \<in> set (sgn_text @ ?body)" for c
    using chars [OF that] c_digit_facts(1,2) [of c] by (auto simp: c_space_def)
  have fl: "filter (\<lambda>c. c \<noteq> CHR ''_'') (py_strip (sgn_text @ ?body)) = sgn_text @ ?body"
    by (rule clean_text) (rule nosp)
  have ts: "take_sign (sgn_text @ ?body) = (sg, ?body)"
  proof -
    obtain a as where a: "whole = a # as" using w(1) by (cases whole) auto
    then have "c_digit a" using dw by simp
    with a sg c_digit_facts(3,4) [of a] show ?thesis by (auto simp: take_sign_def)
  qed
  have nd: "\<not> c_digit CHR ''.''" "\<not> c_digit CHR ''E''" by (simp_all add: c_digit_def)
  have exd: "takeWhile c_digit ex = []" "dropWhile c_digit ex = ex"
    using x nd by (auto simp: show_exponent_def)
  have tw: "takeWhile c_digit ?body = whole" "dropWhile c_digit ?body = (if fr = [] then [] else CHR ''.'' # fr) @ ex"
    using dw nd exd by (auto simp: takeWhile_append2 dropWhile_append2)
  have tf: "takeWhile c_digit (fr @ ex) = fr" "dropWhile c_digit (fr @ ex) = ex"
    using df exd by (auto simp: takeWhile_append2 dropWhile_append2)
  have ex0: "parse_exponent ex = Some n" using x parse_show_exponent by (auto simp: parse_exponent_def)
  have exh: "ex = [] \<or> (\<exists>r. ex = CHR ''E'' # r)" using x by (auto simp: show_exponent_def)
  show ?thesis
    unfolding parse_decimal_def fl ts prod.case Let_def tw
    using w ex0 exh tf by auto
qed

lemma digits_value_zeros: "digits_value 0 (replicate k CHR ''0'' @ ds) = digits_value 0 ds"
  by (induction k) simp_all

lemma parse_show_decimal: "parse_decimal (show_decimal d) = Some d"
proof -
  define ds where "ds = show_digits \<bar>coef d\<bar>"
  define left where "left = expo d + int (length ds)"
  define dot where "dot = (if expo d \<le> 0 \<and> - 6 < left then left else 1)"
  have ds: "ds \<noteq> []" "list_all c_digit ds" "digits_value 0 ds = \<bar>coef d\<bar>"
    using show_digits_digits [of "\<bar>coef d\<bar>"] by (simp_all add: ds_def)
  have z: "c_digit CHR ''0''" by (simp add: c_digit_def)
  define sg where "sg = (if coef d < 0 then - 1 else 1 :: int)"
  have sgt: "(if coef d < 0 then ''-'' else []) = [] \<and> sg = 1 \<or> (if coef d < 0 then ''-'' else []) = ''-'' \<and> sg = - 1"
    by (simp add: sg_def)
  have sga: "sg * \<bar>coef d\<bar> = coef d" by (simp add: sg_def)
  define ex where "ex = (if left = dot then [] else show_exponent (left - dot))"
  have ex: "ex = [] \<and> left - dot = 0 \<or> ex = show_exponent (left - dot)" by (simp add: ex_def)
  note parts = parse_parts [OF _ _ _ ex sgt]
  consider (zero) "dot \<le> 0" | (whole) "0 < dot" "int (length ds) \<le> dot" | (split) "0 < dot" "dot < int (length ds)"
    by linarith
  then show ?thesis
  proof cases
    case zero
    then have ld: "left = dot" by (simp add: dot_def split: if_splits)
    have "show_decimal d = (if coef d < 0 then ''-'' else []) @ ''0'' @ (CHR ''.'' # replicate (nat (- dot)) CHR ''0'' @ ds) @ ex"
      using zero unfolding show_decimal_def Let_def ds_def [symmetric] left_def [symmetric] dot_def [symmetric] ex_def [symmetric]
      by simp
    moreover have "list_all c_digit (replicate (nat (- dot)) CHR ''0'' @ ds)" using ds(2) z by (auto simp: list_all_iff)
    from parts [OF _ _ this, of "''0''"] z ds(1)
    have "parse_decimal ((if coef d < 0 then ''-'' else []) @ ''0'' @ (CHR ''.'' # replicate (nat (- dot)) CHR ''0'' @ ds) @ ex)
      = Some (Dec (sg * digits_value 0 (''0'' @ replicate (nat (- dot)) CHR ''0'' @ ds)) (left - dot - int (nat (- dot) + length ds)))"
      by simp
    moreover have "digits_value 0 (''0'' @ replicate (nat (- dot)) CHR ''0'' @ ds) = \<bar>coef d\<bar>"
      using digits_value_zeros [of "Suc (nat (- dot))" ds] ds(3) by simp
    moreover have "left - dot - int (nat (- dot) + length ds) = expo d" using ld zero by (simp add: left_def)
    ultimately show ?thesis using sga by (metis decimal.collapse)
  next
    case whole
    have len: "left = dot \<and> expo d = 0 \<or> dot = 1 \<and> length ds = 1"
      using whole ds(1) by (cases ds) (auto simp: dot_def left_def split: if_splits)
    then have r: "nat dot - length ds = 0" using whole by (auto simp: left_def)
    have "show_decimal d = (if coef d < 0 then ''-'' else []) @ ds @ ex"
      using whole r unfolding show_decimal_def Let_def ds_def [symmetric] left_def [symmetric] dot_def [symmetric] ex_def [symmetric]
      by simp
    then show ?thesis
      using parts [of ds "[]"] ds sga len by (cases d) (auto simp: left_def)
  next
    case split
    let ?k = "nat dot"
    have "show_decimal d = (if coef d < 0 then ''-'' else []) @ take ?k ds @ (CHR ''.'' # drop ?k ds) @ ex"
      using split unfolding show_decimal_def Let_def ds_def [symmetric] left_def [symmetric] dot_def [symmetric] ex_def [symmetric]
      by simp
    moreover have "list_all c_digit (take ?k ds)" "list_all c_digit (drop ?k ds)"
      using ds(2) by (auto simp: list_all_iff dest: in_set_takeD in_set_dropD)
    moreover have "take ?k ds \<noteq> []" "drop ?k ds \<noteq> []" using split ds(1) by auto
    ultimately show ?thesis
      using parts [of "take ?k ds" "drop ?k ds"] ds(3) sga split
      by (cases d) (simp add: left_def of_nat_diff)
  qed
qed

text \<open>What \<open>str\<close> writes, \<open>Decimal\<close> reads back, coefficient and exponent included.\<close>

lemma decimal_text_roundtrip: "read_decimal (show_decimal d) = Inr d"
  by (simp add: read_decimal_def parse_show_decimal)

end
