(* ===== verification/IBContracts.thy ===== *)
theory IBContracts
  imports DecimalText InstrumentCache
begin

text \<open>
  \<open>src/blive/adapters/ib/instrument_resolver.py\<close> and the reverse direction of
  \<open>src/blive/adapters/ib/broker.py\<close> (\<open>_instrument_from_contract\<close>): the routing tables, the contract
  built for an instrument, its resolution to a \<open>conId\<close> with the cache, and the instrument read back
  from a contract.  The venue's answer (\<open>qualifyContractsAsync\<close>) and the outcome of the rate
  limiter are arguments; an element of the answer that is not a contract is None.
\<close>

section \<open>Tables\<close>

record Contract =
  ct_symbol :: string
  ct_secType :: string
  ct_currency :: string
  ct_exchange :: string
  ct_primaryExchange :: string
  ct_multiplier :: string
  ct_conId :: int

fun ASSET_CLASS_TO_SEC_TYPE :: "AssetClass \<Rightarrow> string option" where
  "ASSET_CLASS_TO_SEC_TYPE EQUITY = Some ''STK''"
| "ASSET_CLASS_TO_SEC_TYPE ETF = Some ''STK''"
| "ASSET_CLASS_TO_SEC_TYPE INDEX = Some ''IND''"
| "ASSET_CLASS_TO_SEC_TYPE FX = Some ''CASH''"
| "ASSET_CLASS_TO_SEC_TYPE FUTURE = Some ''FUT''"
| "ASSET_CLASS_TO_SEC_TYPE OPTION = Some ''OPT''"

definition MIC_TO_IB_EXCHANGE :: "(string \<times> string) list" where
  "MIC_TO_IB_EXCHANGE =
     [(''XPAR'', ''SBF''), (''XNAS'', ''NASDAQ''), (''XNYS'', ''NYSE''), (''ARCX'', ''ARCA''),
      (''BATS'', ''BATS''), (''XLON'', ''LSE''), (''XETR'', ''IBIS'')]"

definition US_SMART_VENUES :: "string list" where
  "US_SMART_VENUES = [''XNAS'', ''XNYS'', ''ARCX'', ''BATS'']"

definition LSE_ETF_SMART_PRIMARY :: string where
  "LSE_ETF_SMART_PRIMARY = ''LSEETF''"

definition SMART_ELIGIBLE_ASSET_CLASSES :: "AssetClass list" where
  "SMART_ELIGIBLE_ASSET_CLASSES = [EQUITY, ETF]"

definition YAHOO_SUFFIX_BY_MIC :: "(string \<times> string) list" where
  "YAHOO_SUFFIX_BY_MIC = [(''XPAR'', ''.PA''), (''XLON'', ''.L''), (''XETR'', ''.DE''), (''XAMS'', ''.AS'')]"

definition IB_EXCHANGE_TO_MIC :: "(string \<times> string) list" where
  "IB_EXCHANGE_TO_MIC =
     [(''SBF'', ''XPAR''), (''NASDAQ'', ''XNAS''), (''ISLAND'', ''XNAS''), (''NYSE'', ''XNYS''),
      (''ARCA'', ''ARCX''), (''BATS'', ''BATS''), (''LSE'', ''XLON''), (''IBIS'', ''XETR'')]"

definition SEC_TYPE_TO_ASSET_CLASS :: "(string \<times> AssetClass) list" where
  "SEC_TYPE_TO_ASSET_CLASS =
     [(''STK'', EQUITY), (''IND'', INDEX), (''CASH'', FX), (''FUT'', FUTURE), (''OPT'', OPTION)]"

definition ends_with :: "string \<Rightarrow> string \<Rightarrow> bool" where
  "ends_with s suffix \<longleftrightarrow> length suffix \<le> length s \<and> drop (length s - length suffix) s = suffix"

definition ib_symbol :: "Instrument \<Rightarrow> string" where
  "ib_symbol i =
     (case map_of YAHOO_SUFFIX_BY_MIC (i_venue i) of
        None \<Rightarrow> i_symbol i
      | Some suffix \<Rightarrow>
          if ends_with (i_symbol i) suffix then take (length (i_symbol i) - length suffix) (i_symbol i) else i_symbol i)"

section \<open>From an instrument to a contract\<close>

text \<open>The routing: the pair of \<open>exchange\<close> and \<open>primaryExchange\<close>.\<close>

definition routing :: "Instrument \<Rightarrow> string \<Rightarrow> string \<times> string" where
  "routing i ib_exchange_value =
     (if i_venue i \<in> set US_SMART_VENUES \<and> i_asset_class i \<in> set SMART_ELIGIBLE_ASSET_CLASSES
      then (''SMART'', ib_exchange_value)
      else if i_venue i = ''XLON'' \<and> i_asset_class i = ETF then (''SMART'', LSE_ETF_SMART_PRIMARY)
      else (ib_exchange_value, []))"

definition multiplier_str :: "Instrument \<Rightarrow> string" where
  "multiplier_str i = (if dec_eq (i_multiplier i) (dint 1) then [] else show_decimal (i_multiplier i))"

definition to_contract :: "Instrument \<Rightarrow> Contract res" where
  "to_contract i =
     (if i_tradability i \<noteq> ''spot'' then Inl (InstrumentNotResolvable ''IB resolver does not support tradability'')
      else case ASSET_CLASS_TO_SEC_TYPE (i_asset_class i) of
        None \<Rightarrow> Inl (InstrumentNotResolvable ''IB resolver has no secType mapping for asset_class'')
      | Some sec_type \<Rightarrow>
          (case map_of MIC_TO_IB_EXCHANGE (i_venue i) of
             None \<Rightarrow> Inl (InstrumentNotResolvable ''IB resolver has no exchange mapping for MIC venue'')
           | Some ib_exchange_value \<Rightarrow>
               (case routing i ib_exchange_value of (exchange, primary_exchange) \<Rightarrow>
                  Inr \<lparr>ct_symbol = ib_symbol i, ct_secType = sec_type, ct_currency = i_currency i,
                       ct_exchange = exchange, ct_primaryExchange = primary_exchange,
                       ct_multiplier = multiplier_str i, ct_conId = 0\<rparr>)))"

section \<open>Resolution\<close>

text \<open>The wire part: one token of the \<open>global\<close> bucket, then the venue's candidates.\<close>

definition pick_candidate :: "Contract list \<Rightarrow> int res" where
  "pick_candidate candidates =
     (case candidates of
        [] \<Rightarrow> Inl (InstrumentNotResolvable ''IB qualifyContractsAsync returned zero candidates'')
      | [c] \<Rightarrow> (if ct_conId c = 0 then Inl (InstrumentNotResolvable ''IB qualifyContractsAsync returned a Contract with conId=0'')
                else Inr (ct_conId c))
      | _ \<Rightarrow> Inl (InstrumentAmbiguous (length candidates)))"

definition qualify_wire :: "unit res \<Rightarrow> (Contract \<Rightarrow> Contract option list res) \<Rightarrow> Instrument \<Rightarrow> int res" where
  "qualify_wire acquired qualify i =
     bindR (to_contract i) (\<lambda>contract.
     bindR acquired (\<lambda>_.
     bindR (qualify contract) (\<lambda>result.
     pick_candidate (List.map_filter id result))))"

definition resolve :: "unit res \<Rightarrow> (Contract \<Rightarrow> Contract option list res) \<Rightarrow> Instrument \<Rightarrow> int inst_cache
    \<Rightarrow> int res \<times> int inst_cache" where
  "resolve acquired qualify i conid_cache =
     (case cache_get conid_cache i of
        Some conid \<Rightarrow> (Inr conid, conid_cache)
      | None \<Rightarrow>
          (case qualify_wire acquired qualify i of
             Inl e \<Rightarrow> (Inl e, conid_cache)
           | Inr conid \<Rightarrow> (Inr conid, cache_put i conid conid_cache)))"

definition resolver_clear_cache :: "Instrument option \<Rightarrow> int inst_cache \<Rightarrow> int inst_cache" where
  "resolver_clear_cache which conid_cache =
     (case which of None \<Rightarrow> [] | Some i \<Rightarrow> cache_pop i conid_cache)"

section \<open>From a contract to an instrument\<close>

definition instrument_from_contract :: "Contract \<Rightarrow> Instrument res" where
  "instrument_from_contract c =
     (if ct_symbol c = [] then Inl (IBShapeError ''IB Contract has empty symbol'')
      else let ib_exchange = (if ct_primaryExchange c \<noteq> [] then ct_primaryExchange c else ct_exchange c)
      in if ct_currency c = [] then Inl (IBShapeError ''IB Contract has empty currency'')
      else let asset_class = (case map_of SEC_TYPE_TO_ASSET_CLASS (ct_secType c) of None \<Rightarrow> EQUITY | Some a \<Rightarrow> a);
               venue = (case map_of IB_EXCHANGE_TO_MIC ib_exchange of None \<Rightarrow> ib_exchange | Some m \<Rightarrow> m)
           in bindR (if ct_multiplier c \<noteq> [] then read_decimal (ct_multiplier c) else Inr (dint 1)) (\<lambda>multiplier.
              mk_Instrument \<lparr>i_symbol = ct_symbol c, i_venue = venue, i_currency = ct_currency c,
                i_asset_class = asset_class, i_multiplier = multiplier, i_tradability = ''spot''\<rparr>))"

section \<open>Lemmas\<close>

lemma pick_candidate_Inr: "(pick_candidate cs = Inr conid) = (conid \<noteq> 0 \<and> (\<exists>k. cs = [k] \<and> ct_conId k = conid))"
proof (cases cs)
  case (Cons k ks)
  then show ?thesis by (cases ks) (auto simp: pick_candidate_def)
qed (simp add: pick_candidate_def)

lemma pick_candidate_many: "1 < length cs \<longrightarrow> pick_candidate cs = Inl (InstrumentAmbiguous (length cs))"
proof (cases cs)
  case (Cons k ks)
  then show ?thesis by (cases ks) (auto simp: pick_candidate_def)
qed simp

lemma resolve_memo: "resolve acquired qualify i c = icache.memo (qualify_wire acquired qualify) i c"
  by (simp add: resolve_def icache.memo_def split: option.splits sum.splits)

lemma resolver_clear_entry: "resolver_clear_cache which c = clear_entry which c"
  by (simp add: resolver_clear_cache_def clear_entry_def)

lemma to_contract_Inr:
  "to_contract i = Inr c \<longleftrightarrow> i_tradability i = ''spot'' \<and>
    (\<exists>st x. ASSET_CLASS_TO_SEC_TYPE (i_asset_class i) = Some st \<and> map_of MIC_TO_IB_EXCHANGE (i_venue i) = Some x \<and>
      c = \<lparr>ct_symbol = ib_symbol i, ct_secType = st, ct_currency = i_currency i, ct_exchange = fst (routing i x),
           ct_primaryExchange = snd (routing i x), ct_multiplier = multiplier_str i, ct_conId = 0\<rparr>)"
  by (auto simp: to_contract_def split: option.splits prod.splits if_splits)

lemma MIC_inverse:
  assumes "map_of MIC_TO_IB_EXCHANGE v = Some x"
  shows "map_of IB_EXCHANGE_TO_MIC x = Some v" "x \<noteq> []" "py_isupper v" "v \<noteq> []"
  using map_of_SomeD [OF assms]
  by (auto simp: MIC_TO_IB_EXCHANGE_def IB_EXCHANGE_TO_MIC_def py_isupper_def c_upper_def c_lower_def)

lemma SEC_TYPE_inverse:
  assumes "ASSET_CLASS_TO_SEC_TYPE a = Some st"
  shows "map_of SEC_TYPE_TO_ASSET_CLASS st = Some (if a = ETF then EQUITY else a)"
  using assms by (cases a) (auto simp: SEC_TYPE_TO_ASSET_CLASS_def)

lemma ib_symbol_chars: "set (ib_symbol i) \<subseteq> set (i_symbol i)"
  by (auto simp: ib_symbol_def dest: in_set_takeD split: option.split)

definition lse_etf :: "Instrument \<Rightarrow> bool" where
  "lse_etf i \<longleftrightarrow> i_venue i = ''XLON'' \<and> i_asset_class i = ETF"

definition readback :: "Instrument \<Rightarrow> decimal \<Rightarrow> Instrument" where
  "readback i m =
     \<lparr>i_symbol = ib_symbol i, i_venue = (if lse_etf i then LSE_ETF_SMART_PRIMARY else i_venue i), i_currency = i_currency i,
      i_asset_class = (if i_asset_class i = ETF then EQUITY else i_asset_class i), i_multiplier = m, i_tradability = ''spot''\<rparr>"

lemma routed_venue:
  assumes "map_of MIC_TO_IB_EXCHANGE (i_venue i) = Some x"
  defines "e \<equiv> (if snd (routing i x) \<noteq> [] then snd (routing i x) else fst (routing i x))"
  shows "(case map_of IB_EXCHANGE_TO_MIC e of None \<Rightarrow> e | Some m \<Rightarrow> m) = (if lse_etf i then LSE_ETF_SMART_PRIMARY else i_venue i)"
proof (cases "lse_etf i")
  case True
  then have "routing i x = (''SMART'', ''LSEETF'')"
    by (simp add: lse_etf_def routing_def US_SMART_VENUES_def LSE_ETF_SMART_PRIMARY_def)
  with True show ?thesis by (simp add: e_def IB_EXCHANGE_TO_MIC_def LSE_ETF_SMART_PRIMARY_def)
next
  case False
  then have "e = x" using MIC_inverse(2) [OF assms(1)] by (auto simp: e_def routing_def lse_etf_def)
  with False MIC_inverse(1) [OF assms(1)] show ?thesis by simp
qed

lemma read_multiplier:
  "\<exists>m. (if multiplier_str i \<noteq> [] then read_decimal (multiplier_str i) else Inr (dint 1)) = Inr m \<and> dec_eq m (i_multiplier i)"
proof (cases "multiplier_str i = []")
  case True
  have "read_decimal [] = Inl InvalidOperation"
    by (simp add: read_decimal_def parse_decimal_def take_sign_def)
  then have "show_decimal (i_multiplier i) \<noteq> []" using decimal_text_roundtrip [of "i_multiplier i"] by auto
  with True show ?thesis by (auto simp: multiplier_str_def dec_eq_iff split: if_splits)
qed (auto simp: multiplier_str_def decimal_text_roundtrip dec_eq_iff split: if_splits)

lemma solid_symbol: "s \<noteq> [] \<Longrightarrow> list_all (\<lambda>c. \<not> c_space c) s \<Longrightarrow> py_strip s = s \<and> CHR '' '' \<notin> set s"
  by (auto simp: list_all_iff intro!: py_strip_id) (auto simp: c_space_def)

lemma readback_ok:
  assumes valid: "mk_Instrument i = Inr i" and c: "to_contract i = Inr c"
    and sym: "ib_symbol i \<noteq> []" "list_all (\<lambda>ch. \<not> c_space ch) (i_symbol i)"
  shows "\<exists>m. instrument_from_contract c = Inr (readback i m) \<and> dec_eq m (i_multiplier i)"
proof -
  obtain st x where st: "ASSET_CLASS_TO_SEC_TYPE (i_asset_class i) = Some st" and x: "map_of MIC_TO_IB_EXCHANGE (i_venue i) = Some x"
    and cdef: "c = \<lparr>ct_symbol = ib_symbol i, ct_secType = st, ct_currency = i_currency i, ct_exchange = fst (routing i x),
           ct_primaryExchange = snd (routing i x), ct_multiplier = multiplier_str i, ct_conId = 0\<rparr>"
    using c by (auto simp: to_contract_Inr)
  obtain m where m: "(if multiplier_str i \<noteq> [] then read_decimal (multiplier_str i) else Inr (dint 1)) = Inr m" "dec_eq m (i_multiplier i)"
    using read_multiplier by blast
  have "list_all (\<lambda>ch. \<not> c_space ch) (ib_symbol i)" using sym(2) ib_symbol_chars [of i] by (auto simp: list_all_iff)
  note s = solid_symbol [OF sym(1) this]
  have v: "iso_currency (i_currency i)" "0 < dval (i_multiplier i)"
    using valid by (auto simp: validator_defs decimal_simps split: if_splits)
  then have cur: "i_currency i \<noteq> []" by (auto simp: iso_currency_def)
  have up: "py_isupper (if lse_etf i then LSE_ETF_SMART_PRIMARY else i_venue i)" "(if lse_etf i then LSE_ETF_SMART_PRIMARY else i_venue i) \<noteq> []"
    using MIC_inverse [OF x] by (auto simp: LSE_ETF_SMART_PRIMARY_def py_isupper_def c_upper_def c_lower_def)
  have "mk_Instrument (readback i m) = Inr (readback i m)"
    using s v up m(2) sym(1) by (simp add: validator_defs readback_def decimal_simps TRADABILITY_VALUES_def dec_eq_iff)
  moreover have "instrument_from_contract c = mk_Instrument (readback i m)"
  proof -
    have ven: "(case map_of IB_EXCHANGE_TO_MIC (if ct_primaryExchange c \<noteq> [] then ct_primaryExchange c else ct_exchange c) of
        None \<Rightarrow> (if ct_primaryExchange c \<noteq> [] then ct_primaryExchange c else ct_exchange c) | Some m \<Rightarrow> m)
        = i_venue (readback i m)"
      unfolding cdef using routed_venue [OF x] by (simp only: Contract.simps readback_def Instrument.simps)
    have mul: "(if ct_multiplier c \<noteq> [] then read_decimal (ct_multiplier c) else Inr (dint 1)) = Inr m"
      unfolding cdef using m(1) by (simp only: Contract.simps)
    have cls: "(case map_of SEC_TYPE_TO_ASSET_CLASS (ct_secType c) of None \<Rightarrow> EQUITY | Some a \<Rightarrow> a) = i_asset_class (readback i m)"
      using SEC_TYPE_inverse [OF st] by (simp add: cdef readback_def)
    have "ct_symbol c \<noteq> []" "ct_currency c \<noteq> []" using sym(1) cur by (simp_all add: cdef)
    moreover have "readback i m = \<lparr>i_symbol = ct_symbol c, i_venue = i_venue (readback i m), i_currency = ct_currency c,
        i_asset_class = i_asset_class (readback i m), i_multiplier = m, i_tradability = ''spot''\<rparr>"
      by (simp add: readback_def cdef)
    ultimately show ?thesis unfolding instrument_from_contract_def Let_def ven mul cls bindR_simps by metis
  qed
  ultimately show ?thesis using m(2) by auto
qed

lemma readback_route:
  assumes c: "to_contract i = Inr c"
  shows "if lse_etf i then to_contract (readback i m) = Inl (InstrumentNotResolvable ''IB resolver has no exchange mapping for MIC venue'')
    else \<exists>c'. to_contract (readback i m) = Inr c' \<and> ct_secType c' = ct_secType c \<and>
      ct_exchange c' = ct_exchange c \<and> ct_primaryExchange c' = ct_primaryExchange c"
proof -
  obtain st x where st: "ASSET_CLASS_TO_SEC_TYPE (i_asset_class i) = Some st" and x: "map_of MIC_TO_IB_EXCHANGE (i_venue i) = Some x"
    and cdef: "ct_secType c = st" "ct_exchange c = fst (routing i x)" "ct_primaryExchange c = snd (routing i x)"
    using c by (auto simp: to_contract_Inr)
  show ?thesis
  proof (cases "lse_etf i")
    case True
    then show ?thesis by (simp add: to_contract_def readback_def lse_etf_def LSE_ETF_SMART_PRIMARY_def MIC_TO_IB_EXCHANGE_def)
  next
    case False
    then have "routing (readback i m) x = routing i x"
      by (auto simp: routing_def readback_def lse_etf_def SMART_ELIGIBLE_ASSET_CLASSES_def)
    moreover have "ASSET_CLASS_TO_SEC_TYPE (i_asset_class (readback i m)) = Some st" "i_venue (readback i m) = i_venue i"
      "i_tradability (readback i m) = ''spot''"
      using st False by (auto simp: readback_def)
    ultimately show ?thesis using x False by (simp add: to_contract_def cdef split: prod.split)
  qed
qed

section \<open>Properties\<close>

text \<open>C32: an instrument survives the trip to IB and back: for a valid spot instrument IB can route (symbol without
  white space, not a bare suffix) the instrument read back from its contract has the bare symbol, the same venue and
  currency, an equal multiplier, the asset class with ETF read as EQUITY, and routes to the same exchange and primary
  exchange again; the one exception is an ETF on XLON, which reads back with the venue LSEETF and can
  no longer be routed.\<close>

theorem contract_readback:
  assumes "mk_Instrument i = Inr i" and "to_contract i = Inr c"
    and "ib_symbol i \<noteq> []" and "list_all (\<lambda>ch. \<not> c_space ch) (i_symbol i)"
  shows "\<exists>m. instrument_from_contract c = Inr (readback i m) \<and> dec_eq m (i_multiplier i) \<and>
    (if lse_etf i then to_contract (readback i m) = Inl (InstrumentNotResolvable ''IB resolver has no exchange mapping for MIC venue'')
     else \<exists>c'. to_contract (readback i m) = Inr c' \<and> ct_secType c' = ct_secType c \<and>
       ct_exchange c' = ct_exchange c \<and> ct_primaryExchange c' = ct_primaryExchange c)"
  using readback_ok [OF assms] readback_route [OF assms(2)] by blast

definition ex_cac :: Instrument where
  "ex_cac = \<lparr>i_symbol = ''CAC.PA'', i_venue = ''XPAR'', i_currency = ''EUR'', i_asset_class = ETF, i_multiplier = dint 1, i_tradability = ''spot''\<rparr>"

definition ex_cac_contract :: Contract where
  "ex_cac_contract = \<lparr>ct_symbol = ''CAC'', ct_secType = ''STK'', ct_currency = ''EUR'', ct_exchange = ''SBF'',
     ct_primaryExchange = [], ct_multiplier = [], ct_conId = 0\<rparr>"

lemma ex_cac_facts:
  "mk_Instrument ex_cac = Inr ex_cac" "to_contract ex_cac = Inr ex_cac_contract" "ib_symbol ex_cac \<noteq> []"
  "list_all (\<lambda>ch. \<not> c_space ch) (i_symbol ex_cac)" "\<not> lse_etf ex_cac"
  by code_simp+

theorem contract_readback_witness:
  "\<exists>m c'. instrument_from_contract ex_cac_contract = Inr (readback ex_cac m) \<and>
     to_contract (readback ex_cac m) = Inr c' \<and> ct_exchange c' = ''SBF''"
  using contract_readback [OF ex_cac_facts(1-4)] ex_cac_facts(5) by (auto simp: ex_cac_contract_def)

text \<open>The resolver never invents an id: after any calls of \<open>resolve\<close> and \<open>clear_cache\<close>, whatever a call returns is
  what the venue answers for an instrument equal to the one asked for; an id returned once is returned again, without a
  wire call, until it is cleared; a failed resolution changes nothing.\<close>

theorem resolver_cache_sound:
  "(\<exists>j. inst_eq j i \<and> fst (resolve acquired qualify i (icache.memo_ops (qualify_wire acquired qualify) [] ops)) = qualify_wire acquired qualify j) \<and>
   (case resolve acquired qualify i c of
      (Inr conid, c') \<Rightarrow> resolve acquired' qualify' i c' = (Inr conid, c')
    | (Inl e, c') \<Rightarrow> c' = c)"
proof -
  let ?f = "qualify_wire acquired qualify"
  have "icache.sound ?f []" by (simp add: icache.sound_def)
  from icache.memo_result [OF icache.sound_ops [OF this], of i ops]
  have "\<exists>j. inst_eq j i \<and> fst (resolve acquired qualify i (icache.memo_ops ?f [] ops)) = ?f j"
    by (simp add: resolve_memo)
  moreover have "case resolve acquired qualify i c of
      (Inr conid, c') \<Rightarrow> resolve acquired' qualify' i c' = (Inr conid, c') | (Inl e, c') \<Rightarrow> c' = c"
  proof (cases "cache_get c i")
    case None
    then show ?thesis by (cases "?f i") (simp_all add: resolve_def cache_get_put)
  qed (simp add: resolve_def)
  ultimately show ?thesis by blast
qed

text \<open>What a venue's answer means: exactly one candidate with a non-zero id resolves, to that id; no candidate or an
  unqualified one is \<open>InstrumentNotResolvable\<close>, and several are \<open>InstrumentAmbiguous\<close> with their number, never a silent choice;
  an instrument that cannot be routed fails before any wire call.\<close>

theorem resolution_outcomes:
  assumes "to_contract i = Inr c" and "qualify c = Inr answer"
  shows "(qualify_wire (Inr ()) qualify i = Inr conid) =
      (conid \<noteq> 0 \<and> (\<exists>k. List.map_filter id answer = [k] \<and> ct_conId k = conid)) \<and>
    (1 < length (List.map_filter id answer) \<longrightarrow>
      qualify_wire (Inr ()) qualify i = Inl (InstrumentAmbiguous (length (List.map_filter id answer))))"
proof -
  have "qualify_wire (Inr ()) qualify i = pick_candidate (List.map_filter id answer)"
    using assms by (simp add: qualify_wire_def)
  then show ?thesis using pick_candidate_many [of "List.map_filter id answer"] by (simp only: pick_candidate_Inr)
qed

theorem resolution_outcomes_witness:
  "qualify_wire (Inr ()) (\<lambda>c. Inr [Some (c\<lparr>ct_conId := 11183823\<rparr>), None]) ex_cac = Inr 11183823"
  using resolution_outcomes [OF ex_cac_facts(2), of "\<lambda>c. Inr [Some (c\<lparr>ct_conId := 11183823\<rparr>), None]" _ 11183823]
  by (simp add: List.map_filter_simps)

end
