(* ===== verification/PriceRules.thy ===== *)
theory PriceRules
  imports PriceGrid IBContracts
begin

text \<open>
  \<open>src/blive/adapters/ib/price_rules.py\<close>: where the price-increment table of an instrument comes
  from.  The venue's answers (\<open>reqContractDetailsAsync\<close>, \<open>reqMarketRuleAsync\<close>) and the outcomes of the
  two waits on the rate limiter are arguments.  A numeric field of an answer is the text
  \<open>str(value)\<close> the code converts, None for an absent attribute; it is finite (a NaN counts as unreadable).
\<close>

section \<open>Reading the venue's fields\<close>

record ContractDetails =
  cd_contract :: "Contract option"
  cd_marketRuleIds :: string
  cd_validExchanges :: string
  cd_minTick :: "string option"

fun split_on :: "char \<Rightarrow> string \<Rightarrow> string \<Rightarrow> string list" where
  "split_on sep cur [] = [rev cur]"
| "split_on sep cur (c # cs) = (if c = sep then rev cur # split_on sep [] cs else split_on sep (c # cur) cs)"

text \<open>\<open>int(text)\<close>: an optional sign and digits, single underscores between digits, white space around.\<close>

fun int_body :: "bool \<Rightarrow> string \<Rightarrow> bool" where
  "int_body after_digit [] = after_digit"
| "int_body after_digit (c # cs) =
     (if c_digit c then int_body True cs else c = CHR ''_'' \<and> after_digit \<and> int_body False cs)"

definition safe_int :: "string \<Rightarrow> int option" where
  "safe_int value =
     (case take_sign (py_strip value) of
        (sg, body) \<Rightarrow> if int_body False body then Some (sg * digits_value 0 (filter c_digit body)) else None)"

definition safe_decimal :: "string option \<Rightarrow> decimal option" where
  "safe_decimal value = (case value of None \<Rightarrow> None | Some text \<Rightarrow> if text = [] then None else parse_decimal text)"

definition rule_ids :: "ContractDetails \<Rightarrow> string list" where
  "rule_ids details = map py_strip (split_on CHR '','' [] (cd_marketRuleIds details))"

definition valid_exchanges :: "ContractDetails \<Rightarrow> string list" where
  "valid_exchanges details = map py_strip (split_on CHR '','' [] (cd_validExchanges details))"

definition target_exchange :: "ContractDetails \<Rightarrow> string" where
  "target_exchange details =
     (case cd_contract details of
        None \<Rightarrow> []
      | Some c \<Rightarrow> if ct_primaryExchange c \<noteq> [] then ct_primaryExchange c else ct_exchange c)"

text \<open>The two loops of \<open>_governing_rule_id\<close>; a loop that returns gives Some of what it returns.\<close>

fun rule_for_exchange :: "string \<Rightarrow> (string \<times> string) list \<Rightarrow> int option option" where
  "rule_for_exchange target [] = None"
| "rule_for_exchange target ((exch, rid) # ps) =
     (if exch = target \<and> rid \<noteq> [] then Some (safe_int rid) else rule_for_exchange target ps)"

fun first_rule :: "string list \<Rightarrow> int option" where
  "first_rule [] = None"
| "first_rule (rid # rids) = (if rid \<noteq> [] then safe_int rid else first_rule rids)"

definition governing_rule_id :: "ContractDetails \<Rightarrow> int option" where
  "governing_rule_id details =
     (let ids = rule_ids details; exchs = valid_exchanges details; target = target_exchange details
      in case (if target \<noteq> [] \<and> length ids = length exchs then rule_for_exchange target (zip exchs ids) else None) of
           Some r \<Rightarrow> r
         | None \<Rightarrow> first_rule ids)"

section \<open>The table\<close>

text \<open>The contract details: the first whose contract has the primary exchange asked for, else the first.\<close>

definition matches_primary :: "string \<Rightarrow> ContractDetails \<Rightarrow> bool" where
  "matches_primary primary details = (case cd_contract details of None \<Rightarrow> False | Some c \<Rightarrow> ct_primaryExchange c = primary)"

definition fetch_details :: "unit res \<Rightarrow> (Contract \<Rightarrow> ContractDetails list res) \<Rightarrow> Contract \<Rightarrow> ContractDetails res" where
  "fetch_details acquired req_details contract =
     bindR acquired (\<lambda>_.
     bindR (req_details contract) (\<lambda>candidates.
     if candidates = [] then Inl (PriceRuleUnavailable ''reqContractDetails returned no details'')
     else let primary = ct_primaryExchange contract
          in case (if primary \<noteq> [] then find (matches_primary primary) candidates else None) of
               Some details \<Rightarrow> Inr details
             | None \<Rightarrow> Inr (hd candidates)))"

type_synonym market_rule = "(string option \<times> string option) list"

fun rule_bands :: "market_rule \<Rightarrow> PriceIncrement list res" where
  "rule_bands [] = Inr []"
| "rule_bands ((low_edge_value, increment_value) # rows) =
     (case (safe_decimal low_edge_value, safe_decimal increment_value) of
        (Some low, Some step) \<Rightarrow>
          if step \<le> dzero then rule_bands rows
          else bindR (mk_PriceIncrement \<lparr>low_edge = low, increment = step\<rparr>) (\<lambda>b.
               bindR (rule_bands rows) (\<lambda>bs. Inr (b # bs)))
      | _ \<Rightarrow> rule_bands rows)"

definition fetch_market_rule :: "unit res \<Rightarrow> (int \<Rightarrow> market_rule option res) \<Rightarrow> int \<Rightarrow> PriceIncrement list res" where
  "fetch_market_rule acquired req_rule rule_id =
     bindR acquired (\<lambda>_.
     bindR (req_rule rule_id) (\<lambda>rule.
     bindR (rule_bands (case rule of None \<Rightarrow> [] | Some rows \<Rightarrow> rows)) (\<lambda>out.
     Inr (sort_key (\<lambda>band. dval (low_edge band)) out))))"

text \<open>Any exception of the market-rule request is caught: it counts as an empty table.\<close>

definition banded_rule :: "unit res \<Rightarrow> (int \<Rightarrow> market_rule option res) \<Rightarrow> ContractDetails \<Rightarrow> PriceIncrement list" where
  "banded_rule acquired req_rule details =
     (case governing_rule_id details of
        None \<Rightarrow> []
      | Some rule_id \<Rightarrow> (case fetch_market_rule acquired req_rule rule_id of Inl _ \<Rightarrow> [] | Inr banded \<Rightarrow> banded))"

definition increments_from_details :: "unit res \<Rightarrow> (int \<Rightarrow> market_rule option res) \<Rightarrow> ContractDetails
    \<Rightarrow> PriceIncrement list res" where
  "increments_from_details acquired req_rule details =
     (let banded = banded_rule acquired req_rule details
      in if banded \<noteq> [] then Inr banded
         else (case safe_decimal (cd_minTick details) of
                 Some min_tick \<Rightarrow>
                   if dzero < min_tick then bindR (mk_PriceIncrement \<lparr>low_edge = dzero, increment = min_tick\<rparr>) (\<lambda>b. Inr [b])
                   else Inl (PriceRuleUnavailable ''neither a market rule nor a positive minTick'')
               | None \<Rightarrow> Inl (PriceRuleUnavailable ''neither a market rule nor a positive minTick'')))"

section \<open>The service\<close>

text \<open>Everything the service asks of the outside for one instrument.\<close>

record rule_wire =
  rw_acquire_details :: "unit res"
  rw_details :: "Contract \<Rightarrow> ContractDetails list res"
  rw_acquire_rule :: "unit res"
  rw_rule :: "int \<Rightarrow> market_rule option res"

definition increments_wire :: "rule_wire \<Rightarrow> Instrument \<Rightarrow> PriceIncrement list res" where
  "increments_wire w i =
     bindR (to_contract i) (\<lambda>contract.
     bindR (fetch_details (rw_acquire_details w) (rw_details w) contract) (\<lambda>details.
     increments_from_details (rw_acquire_rule w) (rw_rule w) details))"

definition increments_for :: "rule_wire \<Rightarrow> Instrument \<Rightarrow> PriceIncrement list inst_cache
    \<Rightarrow> PriceIncrement list res \<times> PriceIncrement list inst_cache" where
  "increments_for w i cache =
     (case cache_get cache i of
        Some cached \<Rightarrow> (Inr cached, cache)
      | None \<Rightarrow>
          (case increments_wire w i of
             Inl e \<Rightarrow> (Inl e, cache)
           | Inr increments \<Rightarrow> (Inr increments, cache_put i increments cache)))"

definition rules_clear_cache :: "Instrument option \<Rightarrow> PriceIncrement list inst_cache \<Rightarrow> PriceIncrement list inst_cache" where
  "rules_clear_cache which cache = (case which of None \<Rightarrow> [] | Some i \<Rightarrow> cache_pop i cache)"

section \<open>Lemmas\<close>

text \<open>What a table must be for \<open>snap_price\<close> to be given it.\<close>

definition table_ok :: "PriceIncrement list \<Rightarrow> bool" where
  "table_ok incs \<longleftrightarrow> incs \<noteq> [] \<and> list_all band_ok incs \<and> sorted (map (\<lambda>b. dval (low_edge b)) incs)"

lemma rule_bands_ok: "rule_bands rows = Inr bs \<Longrightarrow> list_all band_ok bs"
proof (induction rows arbitrary: bs rule: rule_bands.induct)
  case (2 low_edge_value increment_value rows)
  then show ?case
    by (cases "safe_decimal low_edge_value"; cases "safe_decimal increment_value")
      (auto simp: mk_PriceIncrement_Inr split: if_splits)
qed simp

lemma fetch_market_rule_ok:
  assumes "fetch_market_rule acquired req_rule rid = Inr incs"
  shows "list_all band_ok incs" "sorted (map (\<lambda>b. dval (low_edge b)) incs)"
  using assms rule_bands_ok by (auto simp: fetch_market_rule_def list_all_iff)

lemma banded_rule_ok: "banded_rule acquired req_rule details \<noteq> [] \<Longrightarrow> table_ok (banded_rule acquired req_rule details)"
  using fetch_market_rule_ok by (auto simp: banded_rule_def table_ok_def split: option.splits sum.splits)

lemma increments_from_details_ok: "increments_from_details acquired req_rule details = Inr incs \<Longrightarrow> table_ok incs"
  using banded_rule_ok
  by (auto simp: increments_from_details_def Let_def mk_PriceIncrement_Inr table_ok_def split: if_splits option.splits)

lemma increments_from_details_error:
  "increments_from_details acquired req_rule details = Inl e \<longleftrightarrow>
    e = PriceRuleUnavailable ''neither a market rule nor a positive minTick'' \<and>
    banded_rule acquired req_rule details = [] \<and>
    (\<forall>t. safe_decimal (cd_minTick details) = Some t \<longrightarrow> dval t \<le> 0)"
  by (auto simp: increments_from_details_def Let_def mk_PriceIncrement_def validated_def PriceIncrement_checks_def
      decimal_simps split: option.splits)

lemma increments_wire_ok: "increments_wire w i = Inr incs \<Longrightarrow> table_ok incs"
  by (auto simp: increments_wire_def increments_from_details_ok)

lemma increments_for_memo: "increments_for w i c = icache.memo (increments_wire w) i c"
  by (simp add: increments_for_def icache.memo_def split: option.splits sum.splits)

lemma rules_clear_entry: "rules_clear_cache which c = clear_entry which c"
  by (simp add: rules_clear_cache_def clear_entry_def)

definition rules_cache_ok :: "PriceIncrement list inst_cache \<Rightarrow> bool" where
  "rules_cache_ok c \<longleftrightarrow> (\<forall>i incs. cache_get c i = Some incs \<longrightarrow> table_ok incs)"

lemma rules_cache_step:
  assumes "rules_cache_ok c" "increments_for w i c = (r, c')"
  shows "rules_cache_ok c'" "r = Inr incs \<Longrightarrow> table_ok incs"
  using assms increments_wire_ok
  by (auto simp: rules_cache_ok_def increments_for_def cache_get_put split: option.splits sum.splits if_splits)

lemma rule_for_exchange_nth:
  assumes "length es = length rs" "k < length es" "es ! k = target" "rs ! k \<noteq> []"
    "\<forall>j < k. es ! j \<noteq> target \<or> rs ! j = []"
  shows "rule_for_exchange target (zip es rs) = Some (safe_int (rs ! k))"
  using assms
proof (induction es rs arbitrary: k rule: list_induct2)
  case (Cons e es r rs)
  show ?case
  proof (cases k)
    case (Suc j)
    have "rule_for_exchange target (zip es rs) = Some (safe_int (rs ! j))"
      using Cons.prems Suc by (intro Cons.IH) force+
    moreover have "e \<noteq> target \<or> r = []" using Cons.prems(4) Suc by force
    ultimately show ?thesis using Suc by auto
  qed (use Cons.prems in simp)
qed simp


lemma fetch_details_primary:
  assumes "fetch_details (Inr ()) req_details contract = Inr details" "req_details contract = Inr candidates"
    "ct_primaryExchange contract \<noteq> []" "d \<in> set candidates" "matches_primary (ct_primaryExchange contract) d"
  shows "details \<in> set candidates \<and> matches_primary (ct_primaryExchange contract) details"
proof -
  have "find (matches_primary (ct_primaryExchange contract)) candidates \<noteq> None"
    using assms(4,5) by (auto simp: find_None_iff)
  then obtain x where x: "find (matches_primary (ct_primaryExchange contract)) candidates = Some x" by blast
  then have "x \<in> set candidates \<and> matches_primary (ct_primaryExchange contract) x"
    by (auto simp: find_Some_iff)
  moreover have "details = x" using assms x by (auto simp: fetch_details_def split: if_splits)
  ultimately show ?thesis by simp
qed

text \<open>The rule that governs: aligned lists give the id beside the first exchange that is the target and has an id.\<close>

lemma governing_rule_aligned:
  assumes "length (rule_ids d) = length (valid_exchanges d)" "target_exchange d \<noteq> []"
    "k < length (valid_exchanges d)" "valid_exchanges d ! k = target_exchange d" "rule_ids d ! k \<noteq> []"
    "\<forall>j < k. valid_exchanges d ! j \<noteq> target_exchange d \<or> rule_ids d ! j = []"
  shows "governing_rule_id d = safe_int (rule_ids d ! k)"
  using rule_for_exchange_nth [OF assms(1) [symmetric] assms(3-6)] assms(1,2) by (simp add: governing_rule_id_def Let_def)

section \<open>The provider's contract\<close>

text \<open>
  \<open>PriceIncrementProvider\<close>, the narrow surface the broker depends on: asking keeps the provider's
  invariant, and a table it returns can be snapped to.
\<close>

locale increment_provider =
  fixes ask :: "'s \<Rightarrow> Instrument \<Rightarrow> PriceIncrement list res \<times> 's"
    and inv :: "'s \<Rightarrow> bool"
  assumes ask_inv: "inv s \<Longrightarrow> inv (snd (ask s i))"
    and ask_table: "inv s \<Longrightarrow> fst (ask s i) = Inr incs \<Longrightarrow> table_ok incs"
begin

lemma asks_inv: "inv s \<Longrightarrow> inv (foldl (\<lambda>s i. snd (ask s i)) s is)"
  by (induction "is" arbitrary: s) (simp_all add: ask_inv)

lemma asks_table: "inv s \<Longrightarrow> fst (ask (foldl (\<lambda>s i. snd (ask s i)) s is) i) = Inr incs \<Longrightarrow> table_ok incs"
  using ask_table asks_inv by blast

lemma ask_band:
  assumes "inv s" "fst (ask s i) = Inr incs"
  shows "incs \<noteq> []" "band_ok (band_for price incs)"
  using ask_table [OF assms] band_for_mem [of incs price] by (auto simp: table_ok_def list_all_iff)

end

interpretation ib_rules: increment_provider "\<lambda>c i. increments_for w i c" rules_cache_ok for w
proof
  show "rules_cache_ok (snd (increments_for w i c))" if "rules_cache_ok c" for c i
    using rules_cache_step(1) [OF that, of w i] by (cases "increments_for w i c") simp
  show "table_ok incs" if "rules_cache_ok c" "fst (increments_for w i c) = Inr incs" for c i incs
    using rules_cache_step(2) [OF that(1), of w i _ _ incs] that(2) by (cases "increments_for w i c") simp
qed

section \<open>Properties\<close>

text \<open>One use of the service: a request for an instrument, with what the venue answers then, or a clear.\<close>

fun rules_op :: "PriceIncrement list inst_cache \<Rightarrow> (rule_wire \<times> Instrument) + Instrument option \<Rightarrow> PriceIncrement list inst_cache" where
  "rules_op c (Inl (w, i)) = snd (increments_for w i c)"
| "rules_op c (Inr which) = rules_clear_cache which c"

definition rules_inv :: "PriceIncrement list inst_cache \<Rightarrow> bool" where
  "rules_inv c \<longleftrightarrow> cache_wf c \<and> rules_cache_ok c"

lemma rules_inv_op: "rules_inv c \<Longrightarrow> rules_inv (rules_op c op)"
proof (cases op)
  case (Inl wi)
  assume c: "rules_inv c"
  obtain w i where wi: "wi = (w, i)" by (cases wi)
  have "rules_cache_ok (snd (increments_for w i c))" using c ib_rules.ask_inv by (simp add: rules_inv_def)
  moreover have "cache_wf (snd (increments_for w i c))"
    using c by (auto simp: rules_inv_def increments_for_def cache_wf_put split: option.split sum.split)
  ultimately show ?thesis by (simp add: Inl wi rules_inv_def)
next
  case (Inr which)
  assume "rules_inv c"
  then show ?thesis
    by (cases which) (auto simp: Inr rules_inv_def rules_clear_cache_def rules_cache_ok_def cache_wf_pop cache_get_pop split: if_splits)
qed

text \<open>Whatever the venue answers and whatever was asked or cleared before, a price table the service returns can be
  snapped to: it is not empty, every band has a positive increment and a non-negative edge, and the bands are sorted by
  edge.  Fetching it after the contract details can fail in one way only, \<open>PriceRuleUnavailable\<close>, exactly when no rule gives a
  usable band and there is no positive minimum tick: no failure of the rule request itself escapes.\<close>

theorem price_tables_usable:
  "(case fst (increments_for w i (foldl rules_op [] ops)) of
      Inr incs \<Rightarrow> incs \<noteq> [] \<and> list_all band_ok incs \<and> sorted (map (\<lambda>b. dval (low_edge b)) incs)
    | Inl _ \<Rightarrow> True) \<and>
   (\<forall>e. (increments_from_details acquired req_rule details = Inl e) =
      (e = PriceRuleUnavailable ''neither a market rule nor a positive minTick'' \<and>
       banded_rule acquired req_rule details = [] \<and>
       \<not> (\<exists>t. safe_decimal (cd_minTick details) = Some t \<and> 0 < dval t)))"
proof -
  have "rules_inv (foldl rules_op [] ops)"
    by (induction ops rule: rev_induct) (simp add: rules_inv_def rules_cache_ok_def, simp add: rules_inv_op)
  then have "rules_cache_ok (foldl rules_op [] ops)" by (simp add: rules_inv_def)
  note t = ib_rules.ask_table [OF this, of w i]
  have "case fst (increments_for w i (foldl rules_op [] ops)) of
      Inr incs \<Rightarrow> incs \<noteq> [] \<and> list_all band_ok incs \<and> sorted (map (\<lambda>b. dval (low_edge b)) incs) | Inl _ \<Rightarrow> True"
    using t by (cases "fst (increments_for w i (foldl rules_op [] ops))") (simp_all add: table_ok_def)
  moreover have "(\<forall>t. safe_decimal (cd_minTick details) = Some t \<longrightarrow> dval t \<le> 0) \<longleftrightarrow>
      \<not> (\<exists>t. safe_decimal (cd_minTick details) = Some t \<and> 0 < dval t)"
    by (auto simp: not_less)
  ultimately show ?thesis by (simp only: increments_from_details_error) blast
qed

end
