(* ===== verification/IBShapes.thy ===== *)
theory IBShapes
  imports PriceRules Clocks DomainEvents
begin

text \<open>
  The pure part of \<open>src/blive/adapters/ib/broker.py\<close>: the parsers from IB's shapes to domain
  objects, the mapping of an order to IB's, the reasons of a rejection, the snapping of prices and
  the two read methods that parse a list.  A numeric field of an IB object is the text
  \<open>str(value)\<close> the code converts to a \<open>Decimal\<close>.
\<close>

section \<open>From IB's strings\<close>

definition parse_order_side :: "string \<Rightarrow> OrderSide res" where
  "parse_order_side action =
     (if action = ''BUY'' then Inr BUY else if action = ''SELL'' then Inr SELL
      else Inl (IBShapeError ''Unknown IB order action''))"

definition IB_ORDER_TYPE_MAP :: "(string \<times> OrderType) list" where
  "IB_ORDER_TYPE_MAP =
     [(''MKT'', MKT), (''LMT'', LMT), (''MOC'', MOC), (''LOC'', LOC), (''STP'', STP), (''STP LMT'', STP_LMT), (''STP_LMT'', STP_LMT)]"

definition parse_order_type :: "string \<Rightarrow> OrderType res" where
  "parse_order_type s =
     (case map_of IB_ORDER_TYPE_MAP s of None \<Rightarrow> Inl (IBShapeError ''Unsupported IB orderType'') | Some t \<Rightarrow> Inr t)"

definition IB_TIF_MAP :: "(string \<times> TimeInForce) list" where
  "IB_TIF_MAP = [(''DAY'', DAY), (''GTC'', GTC), (''IOC'', IOC), (''FOK'', FOK), (''OPG'', OPG)]"

definition parse_time_in_force :: "string \<Rightarrow> TimeInForce res" where
  "parse_time_in_force s =
     (case map_of IB_TIF_MAP s of None \<Rightarrow> Inl (IBShapeError ''Unsupported IB tif'') | Some t \<Rightarrow> Inr t)"

definition decimal_or_none :: "string option \<Rightarrow> decimal option" where
  "decimal_or_none value =
     (case value of
        None \<Rightarrow> None
      | Some text \<Rightarrow>
          if text = [] then None
          else (case parse_decimal text of None \<Rightarrow> None | Some d \<Rightarrow> if dec_eq d dzero then None else Some d))"

section \<open>Positions and open orders\<close>

record IbPosition =
  ip_contract :: "Contract option"
  ip_position :: string
  ip_avgCost :: string

definition parse_ib_position :: "string \<Rightarrow> IbPosition \<Rightarrow> datetime \<Rightarrow> Position res" where
  "parse_ib_position broker_strategy_id ib_pos updated_at =
     (case ip_contract ib_pos of
        None \<Rightarrow> Inl (IBShapeError ''IB Position has no contract'')
      | Some contract \<Rightarrow>
          bindR (instrument_from_contract contract) (\<lambda>instrument.
          bindR (read_decimal (ip_position ib_pos)) (\<lambda>quantity.
          bindR (read_decimal (ip_avgCost ib_pos)) (\<lambda>avg_cost.
          let zero = dec_eq quantity dzero
          in mk_Position \<lparr>p_instrument = instrument, p_strategy = broker_strategy_id, p_quantity = quantity,
               p_avg_cost = (if zero then dzero else avg_cost), p_currency = i_currency instrument,
               p_opened = (if zero then None else Some updated_at), p_updated = updated_at\<rparr>))))"

record IbOrderRead =
  io_action :: string
  io_orderType :: string
  io_tif :: string
  io_orderId :: "int option"
  io_permId :: "int option"
  io_lmtPrice :: "string option"
  io_auxPrice :: "string option"
  io_totalQuantity :: string

record IbOpenTrade =
  ot_order :: "IbOrderRead option"
  ot_contract :: "Contract option"

definition id_tags :: "IbOrderRead \<Rightarrow> (string \<times> string) list" where
  "id_tags o' =
     (case io_orderId o' of None \<Rightarrow> [] | Some n \<Rightarrow> [(''ib_order_id'', show_int n)]) @
     (case io_permId o' of None \<Rightarrow> [] | Some n \<Rightarrow> [(''ib_perm_id'', show_int n)])"

definition parse_ib_trade_to_order :: "string \<Rightarrow> IbOpenTrade \<Rightarrow> uuid \<Rightarrow> datetime \<Rightarrow> Order res" where
  "parse_ib_trade_to_order broker_strategy_id trade client_order_id now =
     (case (ot_order trade, ot_contract trade) of
        (Some ib_order, Some contract) \<Rightarrow>
          bindR (instrument_from_contract contract) (\<lambda>instrument.
          bindR (parse_order_side (io_action ib_order)) (\<lambda>side.
          bindR (parse_order_type (io_orderType ib_order)) (\<lambda>order_type.
          bindR (parse_time_in_force (io_tif ib_order)) (\<lambda>tif.
          let limit_price = (if order_type \<in> {LMT, STP_LMT} then decimal_or_none (io_lmtPrice ib_order) else None);
              stop_price = (if order_type \<in> {STP, STP_LMT} then decimal_or_none (io_auxPrice ib_order) else None)
          in bindR (read_decimal (io_totalQuantity ib_order)) (\<lambda>quantity.
             if quantity \<le> dzero then Inl (IBShapeError ''IB order has non-positive totalQuantity'')
             else mk_Order \<lparr>o_id = client_order_id, o_strategy = broker_strategy_id, o_instrument = instrument,
                    o_side = side, o_quantity = quantity, o_type = order_type, o_tif = tif, o_limit = limit_price,
                    o_stop = stop_price, o_parent = None, o_tags = id_tags ib_order, o_created = now\<rparr>)))))
      | _ \<Rightarrow> Inl (IBShapeError ''IB Trade missing order or contract''))"

text \<open>What \<open>except (IBShapeError, ValueError, AttributeError, TypeError)\<close> catches.\<close>

fun skipped :: "exn \<Rightarrow> bool" where
  "skipped (IBShapeError _) = True"
| "skipped (ValueError _) = True"
| "skipped (TypeError _) = True"
| "skipped _ = False"

fun parse_each :: "(nat \<Rightarrow> 'a \<Rightarrow> 'b res) \<Rightarrow> nat \<Rightarrow> 'a option list \<Rightarrow> 'b list res" where
  "parse_each f n [] = Inr []"
| "parse_each f n (None # xs) = parse_each f (Suc n) xs"
| "parse_each f n (Some x # xs) =
     (case f n x of
        Inl e \<Rightarrow> if skipped e then parse_each f (Suc n) xs else Inl e
      | Inr y \<Rightarrow> bindR (parse_each f (Suc n) xs) (\<lambda>ys. Inr (y # ys)))"

text \<open>
  The bodies of \<open>positions()\<close> and \<open>open_orders()\<close> after the connection check: the outcome of the
  rate limiter, the venue's answer, and for each open order the fresh id and the clock reading.
\<close>

definition ib_positions :: "string \<Rightarrow> unit res \<Rightarrow> IbPosition option list res \<Rightarrow> datetime \<Rightarrow> Position list res" where
  "ib_positions broker_strategy_id acquired answer now =
     bindR acquired (\<lambda>_. bindR answer (\<lambda>ps. parse_each (\<lambda>_ p. parse_ib_position broker_strategy_id p now) 0 ps))"

definition ib_open_orders :: "string \<Rightarrow> unit res \<Rightarrow> IbOpenTrade option list res \<Rightarrow> (nat \<Rightarrow> uuid) \<Rightarrow> (nat \<Rightarrow> datetime)
    \<Rightarrow> Order list res" where
  "ib_open_orders broker_strategy_id acquired answer fresh now =
     bindR acquired (\<lambda>_. bindR answer (\<lambda>ts.
       parse_each (\<lambda>n t. parse_ib_trade_to_order broker_strategy_id t (fresh n) (now n)) 0 ts))"

section \<open>To IB's order\<close>

text \<open>The constructor called for the order, with the numbers as floats.\<close>

datatype ib_order_kind =
    MarketOrder
  | LimitOrder rat
  | StopOrder rat
  | StopLimitOrder rat rat

record IbOrder =
  ob_kind :: ib_order_kind
  ob_action :: string
  ob_quantity :: rat
  ob_algoStrategy :: string
  ob_algoParams :: "(string \<times> string) list"
  ob_tif :: string
  ob_orderRef :: string

fun side_value :: "OrderSide \<Rightarrow> string" where
  "side_value BUY = ''BUY''"
| "side_value SELL = ''SELL''"

fun tif_value :: "TimeInForce \<Rightarrow> string" where
  "tif_value DAY = ''DAY''"
| "tif_value GTC = ''GTC''"
| "tif_value IOC = ''IOC''"
| "tif_value FOK = ''FOK''"
| "tif_value OPG = ''OPG''"

definition plain_ib_order :: "Order \<Rightarrow> ib_order_kind \<Rightarrow> IbOrder" where
  "plain_ib_order order kind =
     \<lparr>ob_kind = kind, ob_action = side_value (o_side order), ob_quantity = fl (dval (o_quantity order)),
      ob_algoStrategy = [], ob_algoParams = [], ob_tif = tif_value (o_tif order), ob_orderRef = []\<rparr>"

definition blive_to_ib_order :: "Order \<Rightarrow> IbOrder res" where
  "blive_to_ib_order order =
     (case o_type order of
        MKT \<Rightarrow> Inr (plain_ib_order order MarketOrder)
      | ADAPTIVE_MKT \<Rightarrow> Inr ((plain_ib_order order MarketOrder)\<lparr>ob_algoStrategy := ''Adaptive'',
                               ob_algoParams := [(''adaptivePriority'', ''Normal'')]\<rparr>)
      | LMT \<Rightarrow> (case o_limit order of
                  None \<Rightarrow> Inl (ValueError ''LMT order requires limit_price'')
                | Some l \<Rightarrow> Inr (plain_ib_order order (LimitOrder (fl (dval l)))))
      | STP \<Rightarrow> (case o_stop order of
                  None \<Rightarrow> Inl (ValueError ''STP order requires stop_price'')
                | Some s \<Rightarrow> Inr (plain_ib_order order (StopOrder (fl (dval s)))))
      | STP_LMT \<Rightarrow> (case (o_limit order, o_stop order) of
                  (Some l, Some s) \<Rightarrow> Inr (plain_ib_order order (StopLimitOrder (fl (dval l)) (fl (dval s))))
                | _ \<Rightarrow> Inl (ValueError ''STP_LMT order requires both limit_price and stop_price''))
      | _ \<Rightarrow> Inl (NotImplementedError ''IBBroker.submit does not support order_type''))"

section \<open>Reasons\<close>

record TradeLogEntry =
  le_errorCode :: int
  le_message :: string

record IbTrade =
  it_orderId :: int
  it_status :: string
  it_whyHeld :: string
  it_log :: "TradeLogEntry list"

definition cancel_reason_from_status :: "string \<Rightarrow> IbTrade \<Rightarrow> string" where
  "cancel_reason_from_status status trade = (if status = ''ApiCancelled'' then ''engine'' else ''engine'')"

definition last_error_log_entry :: "IbTrade \<Rightarrow> TradeLogEntry option" where
  "last_error_log_entry trade = find (\<lambda>entry. le_errorCode entry \<noteq> 0) (rev (it_log trade))"

definition ib_reason :: "int \<Rightarrow> string \<Rightarrow> string" where
  "ib_reason code message = (if message \<noteq> [] then ''ib:'' @ show_int code @ '' '' @ message else ''ib:'' @ show_int code)"

definition rejected_reason_from_log_entry :: "TradeLogEntry \<Rightarrow> string" where
  "rejected_reason_from_log_entry entry = ib_reason (le_errorCode entry) (le_message entry)"

definition rejected_reason_from_trade :: "IbTrade \<Rightarrow> string option" where
  "rejected_reason_from_trade trade =
     (if it_log trade \<noteq> [] \<and> le_message (last (it_log trade)) \<noteq> [] then Some (le_message (last (it_log trade)))
      else if it_whyHeld trade \<noteq> [] then Some (it_whyHeld trade)
      else None)"

text \<open>\<open>trade.order.orderId\<close> as a venue id: zero means that IB has not given one.\<close>

definition venue_order_id :: "IbTrade \<Rightarrow> string option" where
  "venue_order_id trade = (if it_orderId trade \<noteq> 0 then Some (show_int (it_orderId trade)) else None)"

section \<open>Snapping an order\<close>

definition same_price :: "decimal option \<Rightarrow> decimal option \<Rightarrow> bool" where
  "same_price a b \<longleftrightarrow> (case (a, b) of (None, None) \<Rightarrow> True | (Some x, Some y) \<Rightarrow> dec_eq x y | _ \<Rightarrow> False)"

definition snap_optional :: "PriceIncrement list \<Rightarrow> OrderSide \<Rightarrow> RoundingPolicy \<Rightarrow> decimal option \<Rightarrow> decimal option res" where
  "snap_optional increments side policy price =
     (case price of
        None \<Rightarrow> Inr None
      | Some p \<Rightarrow> bindR (snap_price p increments side policy) (\<lambda>s. Inr (Some s)))"

text \<open>The provider's table is only asked for when the order has a price (\<open>increments\<close> is what asking gives).\<close>

definition snap_order_prices :: "RoundingPolicy \<Rightarrow> PriceIncrement list res \<Rightarrow> Order \<Rightarrow> Order res" where
  "snap_order_prices policy increments order =
     (if o_limit order = None \<and> o_stop order = None then Inr order
      else bindR increments (\<lambda>incs.
           bindR (snap_optional incs (o_side order) policy (o_limit order)) (\<lambda>new_limit.
           bindR (snap_optional incs (o_side order) policy (o_stop order)) (\<lambda>new_stop.
           if same_price new_limit (o_limit order) \<and> same_price new_stop (o_stop order) then Inr order
           else mk_Order (order\<lparr>o_limit := new_limit, o_stop := new_stop\<rparr>)))))"


section \<open>Lemmas\<close>

lemma parse_side_value [simp]: "parse_order_side (side_value s) = Inr s"
  by (cases s) (simp_all add: parse_order_side_def)

lemma parse_tif_value [simp]: "parse_time_in_force (tif_value t) = Inr t"
  by (cases t) (simp_all add: parse_time_in_force_def IB_TIF_MAP_def)

text \<open>What a valid order has for prices, by type.\<close>

lemma order_prices:
  assumes "mk_Order r = Inr r"
  shows "needs_limit (o_type r) \<Longrightarrow> \<exists>l. o_limit r = Some l \<and> 0 < dval l" "\<not> needs_limit (o_type r) \<Longrightarrow> o_limit r = None"
    "needs_stop (o_type r) \<Longrightarrow> \<exists>s. o_stop r = Some s \<and> 0 < dval s" "\<not> needs_stop (o_type r) \<Longrightarrow> o_stop r = None"
proof -
  have c: "\<forall>(b, e) \<in> set (Order_checks r). \<not> b" using assms by (simp add: mk_Order_def validated_eq_Inr checks_ok_iff)
  then have n: "\<not> (needs_limit (o_type r) \<and> none_or_nonpos (o_limit r))" "\<not> (\<not> needs_limit (o_type r) \<and> o_limit r \<noteq> None)"
    "\<not> (needs_stop (o_type r) \<and> none_or_nonpos (o_stop r))" "\<not> (\<not> needs_stop (o_type r) \<and> o_stop r \<noteq> None)"
    by (simp_all add: Order_checks_def)
  show "needs_limit (o_type r) \<Longrightarrow> \<exists>l. o_limit r = Some l \<and> 0 < dval l"
    using n(1) by (cases "o_limit r") (simp_all add: none_or_nonpos_def decimal_simps)
  show "\<not> needs_limit (o_type r) \<Longrightarrow> o_limit r = None" using n(2) by simp
  show "needs_stop (o_type r) \<Longrightarrow> \<exists>s. o_stop r = Some s \<and> 0 < dval s"
    using n(3) by (cases "o_stop r") (simp_all add: none_or_nonpos_def decimal_simps)
  show "\<not> needs_stop (o_type r) \<Longrightarrow> o_stop r = None" using n(4) by simp
qed

lemma mk_Order_limit:
  assumes "mk_Order r = Inr r" "o_type r = LMT"
  shows "mk_Order (r\<lparr>o_limit := Some l, o_stop := None\<rparr>) =
    (if 0 < dval l then Inr (r\<lparr>o_limit := Some l, o_stop := None\<rparr>) else Inl (ValueError ''Order.limit_price required and positive''))"
proof -
  have c: "\<forall>(b, e) \<in> set (Order_checks r). \<not> b" using assms(1) by (simp add: mk_Order_def validated_eq_Inr checks_ok_iff)
  have "o_strategy r \<noteq> []" "\<not> o_quantity r \<le> dzero" "is_utc (o_created r)" "\<not> list_ex (\<lambda>(k, _). k = []) (o_tags r)"
    using c by (simp_all add: Order_checks_def require_utc_def)
  then show ?thesis using assms(2)
    by (simp add: mk_Order_def validated_def Order_checks_def needs_limit_def needs_stop_def none_or_nonpos_def require_utc_def decimal_simps)
qed

lemma supported_order:
  assumes "mk_Order r = Inr r"
  shows "is_ok (blive_to_ib_order r) \<longleftrightarrow> o_type r \<in> {MKT, ADAPTIVE_MKT, LMT, STP, STP_LMT}"
  using order_prices [OF assms] by (cases "o_type r") (auto simp: blive_to_ib_order_def needs_limit_def needs_stop_def)

lemma blive_to_ib_order_fields:
  "blive_to_ib_order r = Inr w \<Longrightarrow> ob_action w = side_value (o_side r) \<and> ob_tif w = tif_value (o_tif r) \<and>
    ob_quantity w = fl (dval (o_quantity r))"
  by (auto simp: blive_to_ib_order_def plain_ib_order_def split: OrderType.splits option.splits)

lemma parse_each_Inr: "parse_each f n xs = Inr ys \<Longrightarrow> \<forall>y \<in> set ys. \<exists>m x. Some x \<in> set xs \<and> f m x = Inr y"
proof (induction f n xs arbitrary: ys rule: parse_each.induct)
  case (3 f n x xs)
  show ?case
  proof (cases "f n x")
    case (Inl e)
    with 3(3) have "skipped e" "parse_each f (Suc n) xs = Inr ys" by (auto split: if_splits)
    from 3(1) [OF Inl this] show ?thesis by (metis list.set_intros(2))
  next
    case (Inr y)
    with 3(3) obtain zs where zs: "parse_each f (Suc n) xs = Inr zs" "ys = y # zs" by auto
    from 3(2) [OF Inr zs(1)] Inr zs(2) show ?thesis by (metis list.set_intros set_ConsD)
  qed
qed auto

lemma parse_each_abort:
  assumes "f (n + k) x = Inl e" "\<not> skipped e" "k < length xs" "xs ! k = Some x"
  shows "\<exists>e. parse_each f n xs = Inl e \<and> \<not> skipped e"
  using assms
proof (induction f n xs arbitrary: k rule: parse_each.induct)
  case (2 f n xs)
  then obtain j where "k = Suc j" by (cases k) auto
  with 2(1) [of j] 2(2-) show ?case by simp
next
  case (3 f n y xs)
  show ?case
  proof (cases k)
    case 0
    with 3(3-) show ?thesis by auto
  next
    case (Suc j)
    show ?thesis
    proof (cases "f n y")
      case (Inl a)
      with 3(1) [OF Inl, of j] 3(3-) Suc show ?thesis by (cases "skipped a") auto
    next
      case (Inr a)
      with 3(2) [OF Inr, of j] 3(3-) Suc show ?thesis by auto
    qed
  qed
qed simp

lemma parse_each_error: "parse_each f n xs = Inl e \<Longrightarrow> \<not> skipped e"
proof (induction f n xs rule: parse_each.induct)
  case (3 f n x xs)
  then show ?case by (cases "f n x") (auto simp: bindR_eq_Inl split: if_splits)
qed auto

lemma malformed_multiplier:
  assumes "ct_symbol c \<noteq> []" "ct_currency c \<noteq> []" "ct_multiplier c \<noteq> []" "parse_decimal (ct_multiplier c) = None"
  shows "instrument_from_contract c = Inl InvalidOperation"
  using assms by (simp add: instrument_from_contract_def Let_def read_decimal_def)

text \<open>A position read back is valid, and is the account's under the synthetic strategy id.\<close>

lemma parsed_position:
  assumes "parse_ib_position sid p now = Inr q"
  shows "mk_Position q = Inr q" "p_strategy q = sid" "p_updated q = now"
  using assms by (auto simp: parse_ib_position_def Let_def mk_Position_def validated_eq_Inr split: option.splits)

text \<open>What a broker gets out of any provider that keeps its contract: the snapped price of a limit order.\<close>

context increment_provider
begin

lemma snapped_limit:
  assumes s: "inv s" "fst (ask s (o_instrument r)) = Inr incs" and r: "mk_Order r = Inr r" "o_type r = LMT" "o_limit r = Some p"
    and cover: "\<exists>b \<in> set incs. dval (low_edge b) \<le> dval p" and fit: "grid_fits p (band_for p incs)"
  shows "\<exists>k q. q = dval (low_edge (band_for p incs)) + of_int k * dval (increment (band_for p incs)) \<and> 0 \<le> k \<and>
    policy_bound policy (o_side r) (dval p) (dval (increment (band_for p incs))) q \<and>
    (if 0 < q then \<exists>l. dval l = q \<and> snap_order_prices policy (fst (ask s (o_instrument r))) r = Inr (r\<lparr>o_limit := Some l\<rparr>)
     else snap_order_prices policy (fst (ask s (o_instrument r))) r = Inl (ValueError ''Order.limit_price required and positive''))"
proof -
  have stop: "o_stop r = None" using order_prices(4) [OF r(1)] r(2) by (simp add: needs_stop_def)
  have p: "0 < dval p" using order_prices(1) [OF r(1)] r(2,3) by (auto simp: needs_limit_def)
  note ne = ask_band [OF s]
  from snap_price_band [OF p ne(1) ne(2) band_for_spec(2) [OF ne(1) cover] fit, of "o_side r" policy]
  obtain l k where l: "snap_price p incs (o_side r) policy = Inr l" "0 \<le> k"
    "dval l = dval (low_edge (band_for p incs)) + of_int k * dval (increment (band_for p incs))"
    "policy_bound policy (o_side r) (dval p) (dval (increment (band_for p incs))) (dval l)" by blast
  have upd: "r\<lparr>o_limit := Some l\<rparr> = r\<lparr>o_limit := Some l, o_stop := None\<rparr>" "r = r\<lparr>o_limit := Some p\<rparr>" using stop r(3) by simp_all
  have "snap_order_prices policy (fst (ask s (o_instrument r))) r =
      (if dec_eq l p then Inr r else mk_Order (r\<lparr>o_limit := Some l, o_stop := None\<rparr>))"
    by (simp add: snap_order_prices_def s(2) r(3) stop snap_optional_def l(1) same_price_def)
  moreover have "mk_Order (r\<lparr>o_limit := Some l, o_stop := None\<rparr>) =
      (if 0 < dval l then Inr (r\<lparr>o_limit := Some l\<rparr>) else Inl (ValueError ''Order.limit_price required and positive''))"
    using mk_Order_limit [OF r(1,2), of l] by (simp only: upd(1) [symmetric])
  ultimately have res: "snap_order_prices policy (fst (ask s (o_instrument r))) r =
      (if dec_eq l p then Inr r else if 0 < dval l then Inr (r\<lparr>o_limit := Some l\<rparr>)
       else Inl (ValueError ''Order.limit_price required and positive''))"
    by simp
  show ?thesis
  proof (cases "dec_eq l p")
    case True
    then have v: "dval p = dval l" by (simp add: dec_eq_iff)
    have q: "0 < dval l" using p v by simp
    have r': "snap_order_prices policy (fst (ask s (o_instrument r))) r = Inr (r\<lparr>o_limit := Some p\<rparr>)"
      using True res upd(2) by (simp only: if_True)
    have "if 0 < dval l then \<exists>l'. dval l' = dval l \<and> snap_order_prices policy (fst (ask s (o_instrument r))) r = Inr (r\<lparr>o_limit := Some l'\<rparr>)
     else snap_order_prices policy (fst (ask s (o_instrument r))) r = Inl (ValueError ''Order.limit_price required and positive'')"
      unfolding if_P [OF q] using v r' by blast
    with l(2-4) show ?thesis by blast
  next
    case False
    have "if 0 < dval l then \<exists>l'. dval l' = dval l \<and> snap_order_prices policy (fst (ask s (o_instrument r))) r = Inr (r\<lparr>o_limit := Some l'\<rparr>)
     else snap_order_prices policy (fst (ask s (o_instrument r))) r = Inl (ValueError ''Order.limit_price required and positive'')"
      unfolding res using False by auto
    with l(2-4) show ?thesis by blast
  qed
qed

end


section \<open>Properties\<close>

text \<open>What a limit order becomes before it reaches the wire: with a price table of the IB service that covers the price, a
  valid limit order is either replaced by the same order with its limit on the grid of the governing band, moved by
  the rounding policy's rule, or, exactly when the grid price is not positive, refused with a \<open>ValueError\<close> (which
  \<open>submit\<close> does not turn into a rejection event).\<close>

theorem snapped_limit_order:
  assumes "rules_cache_ok c" "fst (increments_for w (o_instrument r) c) = Inr incs"
    and "mk_Order r = Inr r" "o_type r = LMT" "o_limit r = Some p"
    and "\<exists>b \<in> set incs. dval (low_edge b) \<le> dval p" and "grid_fits p (band_for p incs)"
  shows "\<exists>k q. q = dval (low_edge (band_for p incs)) + of_int k * dval (increment (band_for p incs)) \<and> 0 \<le> k \<and>
    policy_bound policy (o_side r) (dval p) (dval (increment (band_for p incs))) q \<and>
    (if 0 < q then \<exists>l. dval l = q \<and>
        snap_order_prices policy (fst (increments_for w (o_instrument r) c)) r = Inr (r\<lparr>o_limit := Some l\<rparr>)
     else snap_order_prices policy (fst (increments_for w (o_instrument r) c)) r
        = Inl (ValueError ''Order.limit_price required and positive''))"
  by (rule ib_rules.snapped_limit [OF assms])

definition ex_wire :: rule_wire where
  "ex_wire = \<lparr>rw_acquire_details = Inr (),
     rw_details = (\<lambda>c. Inr [\<lparr>cd_contract = Some c, cd_marketRuleIds = ''26'', cd_validExchanges = ''SBF'', cd_minTick = Some ''0.01''\<rparr>]),
     rw_acquire_rule = Inr (), rw_rule = (\<lambda>_. Inr (Some [(Some ''0.0'', Some ''0.05'')]))\<rparr>"

definition ex_limit_order :: Order where
  "ex_limit_order = \<lparr>o_id = 7, o_strategy = ''s'', o_instrument = ex_cac, o_side = BUY, o_quantity = dint 3, o_type = LMT,
     o_tif = DAY, o_limit = Some (Dec 1013 (- 2)), o_stop = None, o_parent = None, o_tags = [], o_created = utc 0\<rparr>"

lemma ex_limit_facts:
  "rules_cache_ok []" "fst (increments_for ex_wire (o_instrument ex_limit_order) []) = Inr [\<lparr>low_edge = Dec 0 (- 1), increment = Dec 5 (- 2)\<rparr>]"
  "mk_Order ex_limit_order = Inr ex_limit_order" "o_type ex_limit_order = LMT" "o_limit ex_limit_order = Some (Dec 1013 (- 2))"
  "\<exists>b \<in> set [\<lparr>low_edge = Dec 0 (- 1), increment = Dec 5 (- 2)\<rparr>]. dval (low_edge b) \<le> dval (Dec 1013 (- 2))"
  "grid_fits (Dec 1013 (- 2)) (band_for (Dec 1013 (- 2)) [\<lparr>low_edge = Dec 0 (- 1), increment = Dec 5 (- 2)\<rparr>])"
  by (simp add: rules_cache_ok_def, code_simp+)

theorem snapped_limit_order_witness:
  "\<exists>q. policy_bound CONSERVATIVE BUY (1013 / 100) (5 / 100) q"
  using snapped_limit_order [OF ex_limit_facts, of CONSERVATIVE] by (auto simp: ex_limit_order_def band_for_def power_int_def power_divide)

text \<open>One malformed contract makes the whole read fail: a position whose contract has a symbol, a currency and a
  multiplier text that is not a number makes \<open>positions()\<close> raise, although the loop is written to skip what it
  cannot parse.\<close>

theorem malformed_multiplier_aborts:
  assumes "k < length ps" "ps ! k = Some p" "ip_contract p = Some c" "ct_symbol c \<noteq> []" "ct_currency c \<noteq> []"
    "ct_multiplier c \<noteq> []" "parse_decimal (ct_multiplier c) = None"
  shows "\<exists>e. ib_positions sid (Inr ()) (Inr ps) now = Inl e"
proof -
  have "parse_ib_position sid p now = Inl InvalidOperation"
    using malformed_multiplier [OF assms(4-7)] assms(3) by (simp add: parse_ib_position_def)
  from parse_each_abort [of "\<lambda>_ p. parse_ib_position sid p now" 0 k p, OF this _ assms(1,2)] show ?thesis
    by (auto simp: ib_positions_def)
qed

theorem malformed_multiplier_aborts_witness:
  "\<exists>e. ib_positions ''ib_DU1'' (Inr ()) (Inr [Some \<lparr>ip_contract = Some (ex_cac_contract\<lparr>ct_multiplier := ''N/A''\<rparr>),
     ip_position = ''3.0'', ip_avgCost = ''10.0''\<rparr>]) (utc 0) = Inl e"
proof -
  have "parse_decimal ''N/A'' = None" by code_simp
  then have m: "parse_decimal (ct_multiplier (ex_cac_contract\<lparr>ct_multiplier := ''N/A''\<rparr>)) = None" by simp
  show ?thesis
    by (rule malformed_multiplier_aborts [OF _ _ _ _ _ _ m, where k = 0 and p = "\<lparr>ip_contract = Some (ex_cac_contract\<lparr>ct_multiplier := ''N/A''\<rparr>),
     ip_position = ''3.0'', ip_avgCost = ''10.0''\<rparr>"]) (simp_all add: ex_cac_contract_def)
qed

end
