(* ===== verification/IBAccount.thy ===== *)
theory IBAccount
  imports IBShapes "HOL-Library.AList"
begin

text \<open>
  \<open>src/blive/adapters/ib/broker.py\<close>, the state of \<open>IBBroker\<close> and its connection and account side:
  \<open>connect\<close>, \<open>disconnect\<close>, the cache of IB's account values, the snapshot composed from it and the
  timer that publishes it when a field has moved.  A method that may raise keeps what it changed
  before.  The cache is a dictionary in insertion order; a value is the text IB sends, converted to
  a finite \<open>Decimal\<close> or unreadable.
\<close>

section \<open>State\<close>

record OrderTracking =
  ot_total :: decimal
  ot_instrument :: Instrument
  ot_side :: OrderSide
  ot_accepted :: bool
  ot_terminal :: bool
  ot_seen :: "string list"
  ot_filled :: decimal

datatype ib_task =
    PutOrderEvent OrderEvent
  | EmitRejected uuid nat

type_synonym account_values = "((string \<times> string) \<times> string) list"

record IBBroker =
  ib_account :: string
  ib_host :: string
  ib_port :: int
  ib_policy :: RoundingPolicy
  ib_connected :: bool
  ib_events :: "BrokerEvent list"
  ib_tasks :: "ib_task list"
  ib_values :: account_values
  ib_last_snapshot :: "AccountSnapshot option"
  ib_update_task :: bool
  ib_trades :: "uuid \<rightharpoonup> IbTrade"
  ib_tracking :: "uuid \<rightharpoonup> OrderTracking"
  ib_errors :: "int \<rightharpoonup> int \<times> string"
  ib_codes :: "int \<Rightarrow> nat"
  ib_placed :: "(Contract \<times> IbOrder) list"
  ib_cancelled :: "int list"

definition ib_init :: "string \<Rightarrow> string \<Rightarrow> int \<Rightarrow> RoundingPolicy \<Rightarrow> IBBroker" where
  "ib_init account host port policy =
     \<lparr>ib_account = account, ib_host = host, ib_port = port, ib_policy = policy, ib_connected = False, ib_events = [],
      ib_tasks = [], ib_values = [], ib_last_snapshot = None, ib_update_task = False, ib_trades = Map.empty,
      ib_tracking = Map.empty, ib_errors = Map.empty, ib_codes = (\<lambda>_. 0), ib_placed = [], ib_cancelled = []\<rparr>"

definition is_connected :: "IBBroker \<Rightarrow> bool" where
  "is_connected b = ib_connected b"

definition broker_strategy_id :: "IBBroker \<Rightarrow> string" where
  "broker_strategy_id b = ''ib_'' @ ib_account b"

definition observed_error_codes :: "IBBroker \<Rightarrow> int \<Rightarrow> nat" where
  "observed_error_codes b = ib_codes b"

definition require_connected :: "(IBBroker, unit) sx" where
  "require_connected =
     bindS (getS ib_connected) (\<lambda>c.
     if c then retS () else raiseS (RuntimeError ''IBBroker.connect() must be called before read / write methods''))"

definition put_ib :: "BrokerEvent \<Rightarrow> IBBroker \<Rightarrow> IBBroker" where
  "put_ib e b = b\<lparr>ib_events := ib_events b @ [e]\<rparr>"

section \<open>Account values\<close>

record AccountValue =
  av_account :: string
  av_tag :: string
  av_value :: string
  av_currency :: string

definition on_account_value :: "AccountValue \<Rightarrow> IBBroker \<Rightarrow> IBBroker" where
  "on_account_value av b =
     (if av_tag av = [] then b
      else if av_account av \<noteq> [] \<and> av_account av \<noteq> ib_account b then b
      else b\<lparr>ib_values := AList.update (av_currency av, av_tag av) (av_value av) (ib_values b)\<rparr>)"

text \<open>The first readable of the candidate keys, else zero.\<close>

fun account_value_decimal :: "account_values \<Rightarrow> (string \<times> string) list \<Rightarrow> decimal" where
  "account_value_decimal vals [] = dzero"
| "account_value_decimal vals (key # keys) =
     (case map_of vals key of
        None \<Rightarrow> account_value_decimal vals keys
      | Some text \<Rightarrow> (case parse_decimal text of None \<Rightarrow> account_value_decimal vals keys | Some d \<Rightarrow> d))"

text \<open>The three loops of \<open>_infer_base_currency\<close>.\<close>

definition real_ccy :: "string \<Rightarrow> bool" where
  "real_ccy ccy \<longleftrightarrow> ccy \<noteq> [] \<and> ccy \<noteq> ''BASE''"

fun explicit_currency :: "account_values \<Rightarrow> string option" where
  "explicit_currency [] = None"
| "explicit_currency (((ccy, tag), text) # vals) =
     (if tag = ''AccountCurrency'' \<and> text \<noteq> [] then Some text else explicit_currency vals)"

fun unit_rate_currency :: "account_values \<Rightarrow> string option" where
  "unit_rate_currency [] = None"
| "unit_rate_currency (((ccy, tag), text) # vals) =
     (if tag \<noteq> ''ExchangeRate'' \<or> \<not> real_ccy ccy then unit_rate_currency vals
      else (case parse_decimal text of
              None \<Rightarrow> unit_rate_currency vals
            | Some d \<Rightarrow> if dec_eq d (dint 1) then Some ccy else unit_rate_currency vals))"

text \<open>\<open>best\<close> is the pair of the best currency so far and its equity, None standing for minus infinity.\<close>

fun largest_netliq :: "(string \<times> decimal) option \<Rightarrow> account_values \<Rightarrow> (string \<times> decimal) option" where
  "largest_netliq best [] = best"
| "largest_netliq best (((ccy, tag), text) # vals) =
     (if tag \<noteq> ''NetLiquidationByCurrency'' \<or> \<not> real_ccy ccy then largest_netliq best vals
      else (case parse_decimal text of
              None \<Rightarrow> largest_netliq best vals
            | Some equity \<Rightarrow>
                largest_netliq (case best of None \<Rightarrow> Some (ccy, equity)
                                | Some (_, best_equity) \<Rightarrow> if best_equity < equity then Some (ccy, equity) else best) vals))"

definition infer_base_currency :: "account_values \<Rightarrow> string" where
  "infer_base_currency vals =
     (case explicit_currency vals of
        Some c \<Rightarrow> c
      | None \<Rightarrow> (case unit_rate_currency vals of
                   Some c \<Rightarrow> c
                 | None \<Rightarrow> (case largest_netliq None vals of Some (c, _) \<Rightarrow> c | None \<Rightarrow> ''USD'')))"

section \<open>The snapshot\<close>

definition cash_entry :: "(string \<times> string) \<times> string \<Rightarrow> (string \<times> decimal) option" where
  "cash_entry row =
     (case row of ((ccy, tag), text) \<Rightarrow>
        if tag = ''TotalCashBalance'' \<and> real_ccy ccy then map_option (Pair ccy) (parse_decimal text) else None)"

definition cash_by_ccy :: "account_values \<Rightarrow> (string \<times> decimal) list" where
  "cash_by_ccy vals = List.map_filter cash_entry vals"

definition aggregate :: "account_values \<Rightarrow> string \<Rightarrow> decimal" where
  "aggregate vals tag = account_value_decimal vals [(''BASE'', tag), (infer_base_currency vals, tag)]"

definition build_account_snapshot :: "account_values \<Rightarrow> datetime \<Rightarrow> AccountSnapshot res" where
  "build_account_snapshot vals taken_at =
     (let base_currency = infer_base_currency vals;
          equity = aggregate vals ''NetLiquidationByCurrency'';
          buying_power = aggregate vals ''BuyingPower'';
          gross_exposure = aggregate vals ''GrossPositionValue'';
          margin_used = aggregate vals ''MaintMarginReq''
      in bindR (if dzero < equity then ddiv gross_exposure equity else Inr dzero) (\<lambda>leverage.
         mk_AccountSnapshot
           \<lparr>a_equity = equity, a_cash = cash_by_ccy vals, a_buying_power = buying_power, a_gross = gross_exposure,
            a_net = gross_exposure, a_leverage = leverage, a_margin = margin_used, a_base = base_currency,
            a_taken = taken_at\<rparr>))"

definition ib_account_snapshot :: "datetime \<Rightarrow> (IBBroker, AccountSnapshot) sx" where
  "ib_account_snapshot now =
     bindS require_connected (\<lambda>_.
     bindS (getS ib_values) (\<lambda>vals.
     if vals = [] then raiseS (IBShapeError ''IB account values not yet received'')
     else liftS (build_account_snapshot vals now)))"

section \<open>The timer\<close>

definition ACCOUNT_VALUE_THRESHOLD :: decimal where
  "ACCOUNT_VALUE_THRESHOLD = Dec 1 (- 2)"

definition LEVERAGE_THRESHOLD :: decimal where
  "LEVERAGE_THRESHOLD = Dec 1 (- 3)"

definition moved :: "decimal \<Rightarrow> decimal \<Rightarrow> decimal \<Rightarrow> bool" where
  "moved threshold a b \<longleftrightarrow> threshold \<le> dabs (dsub a b)"

definition cash_of :: "AccountSnapshot \<Rightarrow> string \<Rightarrow> decimal" where
  "cash_of s ccy = (case map_of (a_cash s) ccy of None \<Rightarrow> dzero | Some d \<Rightarrow> d)"

definition should_emit_account_update :: "AccountSnapshot option \<Rightarrow> AccountSnapshot \<Rightarrow> bool" where
  "should_emit_account_update last_emitted current =
     (case last_emitted of
        None \<Rightarrow> True
      | Some l \<Rightarrow>
          moved ACCOUNT_VALUE_THRESHOLD (a_equity current) (a_equity l) \<or>
          moved ACCOUNT_VALUE_THRESHOLD (a_buying_power current) (a_buying_power l) \<or>
          moved ACCOUNT_VALUE_THRESHOLD (a_gross current) (a_gross l) \<or>
          moved ACCOUNT_VALUE_THRESHOLD (a_net current) (a_net l) \<or>
          moved ACCOUNT_VALUE_THRESHOLD (a_margin current) (a_margin l) \<or>
          moved LEVERAGE_THRESHOLD (a_leverage current) (a_leverage l) \<or>
          list_ex (\<lambda>ccy. moved ACCOUNT_VALUE_THRESHOLD (cash_of current ccy) (cash_of l ccy))
            (map fst (a_cash current) @ map fst (a_cash l)))"

definition account_update_tick :: "(nat \<Rightarrow> datetime) \<Rightarrow> (IBBroker, unit) sx" where
  "account_update_tick now =
     bindS (getS ib_values) (\<lambda>vals.
     if vals = [] then retS ()
     else case build_account_snapshot vals (now 0) of
       Inl (IBShapeError _) \<Rightarrow> retS ()
     | Inl e \<Rightarrow> raiseS e
     | Inr current \<Rightarrow>
         bindS (getS ib_last_snapshot) (\<lambda>last_emitted.
         if \<not> should_emit_account_update last_emitted current then retS ()
         else bindS (liftS (mk_AccountUpdate \<lparr>au_snapshot = current, au_time = now 1\<rparr>)) (\<lambda>u.
              bindS (modS (put_ib (BE_Account u))) (\<lambda>_.
              modS (\<lambda>b. b\<lparr>ib_last_snapshot := Some current\<rparr>)))))"

text \<open>One wake-up of \<open>_account_update_loop\<close>: a tick that raises ends the task.\<close>

definition account_update_wake :: "(nat \<Rightarrow> datetime) \<Rightarrow> IBBroker \<Rightarrow> IBBroker" where
  "account_update_wake now b =
     (if \<not> ib_update_task b then b
      else if \<not> ib_connected b then b\<lparr>ib_update_task := False\<rparr>
      else (case account_update_tick now b of
              (Inl _, b') \<Rightarrow> b'\<lparr>ib_update_task := False\<rparr>
            | (Inr _, b') \<Rightarrow> b'))"

section \<open>Connecting\<close>

definition put_ib_connection :: "bool \<Rightarrow> string \<Rightarrow> datetime \<Rightarrow> (IBBroker, unit) sx" where
  "put_ib_connection conn detail now =
     bindS (liftS (mk_ConnectionStatus \<lparr>c_connected = conn, c_detail = detail, c_time = now\<rparr>))
       (\<lambda>s. modS (put_ib (BE_Connection s)))"

definition ib_connect :: "unit res \<Rightarrow> AccountValue list \<Rightarrow> datetime \<Rightarrow> (IBBroker, unit) sx" where
  "ib_connect client_connect initial_values now =
     bindS (getS ib_connected) (\<lambda>c.
     if c then retS ()
     else bindS (liftS client_connect) (\<lambda>_.
          bindS (modS (fold on_account_value initial_values)) (\<lambda>_.
          bindS (modS (\<lambda>b. b\<lparr>ib_connected := True, ib_update_task := True\<rparr>)) (\<lambda>_.
          bindS (getS (\<lambda>b. ''IB broker connected (account '' @ ib_account b @ '' via '' @ ib_host b @ '':'' @ show_int (ib_port b) @ '')'')) (\<lambda>detail.
          put_ib_connection True detail now)))))"

definition ib_disconnect :: "unit res \<Rightarrow> datetime \<Rightarrow> (IBBroker, unit) sx" where
  "ib_disconnect client_disconnect now =
     bindS (getS ib_connected) (\<lambda>c.
     if \<not> c then retS ()
     else bindS (modS (\<lambda>b. b\<lparr>ib_update_task := False\<rparr>)) (\<lambda>_.
          bindS (liftS client_disconnect) (\<lambda>_.
          bindS (modS (\<lambda>b. b\<lparr>ib_connected := False, ib_values := [], ib_last_snapshot := None, ib_errors := Map.empty\<rparr>)) (\<lambda>_.
          bindS (getS (\<lambda>b. ''IB broker disconnected (account '' @ ib_account b @ '')'')) (\<lambda>detail.
          put_ib_connection False detail now)))))"

section \<open>Lemmas\<close>

lemma not_moved: "\<not> moved t a b \<Longrightarrow> repr28 (dval t) \<Longrightarrow> \<bar>dval a - dval b\<bar> < dval t"
proof (rule ccontr)
  assume m: "\<not> moved t a b" "repr28 (dval t)" "\<not> \<bar>dval a - dval b\<bar> < dval t"
  have r: "repr28 (dval t)" "repr28 (- dval t)" using m(2) by simp_all
  have s: "rounded (dval a - dval b) (dval (dsub a b))" "rounded \<bar>dval (dsub a b)\<bar> (dval (dabs (dsub a b)))"
    by (rule dsub_rounded, rule dabs_rounded)
  have "dval t \<le> \<bar>dval (dsub a b)\<bar>"
  proof (cases "0 \<le> dval a - dval b")
    case True
    with m(3) have "dval t \<le> dval a - dval b" by simp
    from rounded_lower [OF s(1) r(1) this] show ?thesis by simp
  next
    case False
    with m(3) have "dval a - dval b \<le> - dval t" by simp
    from rounded_upper [OF s(1) r(2) this] show ?thesis by simp
  qed
  from rounded_lower [OF s(2) r(1) this] m(1) show False by (simp add: moved_def dec_le_iff)
qed

lemma thresholds: "repr28 (dval ACCOUNT_VALUE_THRESHOLD)" "repr28 (dval LEVERAGE_THRESHOLD)"
  "dval ACCOUNT_VALUE_THRESHOLD = 1 / 100" "dval LEVERAGE_THRESHOLD = 1 / 1000"
  using repr28_Dec [of 1 "- 2"] repr28_Dec [of 1 "- 3"]
  by (simp_all add: ACCOUNT_VALUE_THRESHOLD_def LEVERAGE_THRESHOLD_def power_int_def power_divide)


definition within_thresholds :: "AccountSnapshot \<Rightarrow> AccountSnapshot \<Rightarrow> bool" where
  "within_thresholds s l \<longleftrightarrow>
     \<bar>dval (a_equity s) - dval (a_equity l)\<bar> < 1 / 100 \<and> \<bar>dval (a_buying_power s) - dval (a_buying_power l)\<bar> < 1 / 100 \<and>
     \<bar>dval (a_gross s) - dval (a_gross l)\<bar> < 1 / 100 \<and> \<bar>dval (a_net s) - dval (a_net l)\<bar> < 1 / 100 \<and>
     \<bar>dval (a_margin s) - dval (a_margin l)\<bar> < 1 / 100 \<and> \<bar>dval (a_leverage s) - dval (a_leverage l)\<bar> < 1 / 1000 \<and>
     (\<forall>ccy. \<bar>dval (cash_of s ccy) - dval (cash_of l ccy)\<bar> < 1 / 100)"

lemma within_refl [simp]: "within_thresholds s s"
  by (simp add: within_thresholds_def)

lemma suppressed_within:
  assumes "\<not> should_emit_account_update (Some l) s"
  shows "within_thresholds s l"
proof -
  note nm = not_moved [OF _ thresholds(1), unfolded thresholds(3)] not_moved [OF _ thresholds(2), unfolded thresholds(4)]
  have n: "\<not> moved ACCOUNT_VALUE_THRESHOLD (a_equity s) (a_equity l)" "\<not> moved ACCOUNT_VALUE_THRESHOLD (a_buying_power s) (a_buying_power l)"
    "\<not> moved ACCOUNT_VALUE_THRESHOLD (a_gross s) (a_gross l)" "\<not> moved ACCOUNT_VALUE_THRESHOLD (a_net s) (a_net l)"
    "\<not> moved ACCOUNT_VALUE_THRESHOLD (a_margin s) (a_margin l)" "\<not> moved LEVERAGE_THRESHOLD (a_leverage s) (a_leverage l)"
    "\<not> list_ex (\<lambda>ccy. moved ACCOUNT_VALUE_THRESHOLD (cash_of s ccy) (cash_of l ccy)) (map fst (a_cash s) @ map fst (a_cash l))"
    using assms by (simp_all add: should_emit_account_update_def)
  have cash: "\<bar>dval (cash_of s ccy) - dval (cash_of l ccy)\<bar> < 1 / 100" for ccy
  proof (cases "ccy \<in> set (map fst (a_cash s) @ map fst (a_cash l))")
    case True
    with n(7) have "\<not> moved ACCOUNT_VALUE_THRESHOLD (cash_of s ccy) (cash_of l ccy)" by (auto simp: list_ex_iff)
    then show ?thesis by (rule nm(1))
  next
    case False
    then have "map_of (a_cash s) ccy = None" "map_of (a_cash l) ccy = None" by (simp_all add: map_of_eq_None_iff)
    then show ?thesis by (simp add: cash_of_def)
  qed
  show ?thesis
    unfolding within_thresholds_def
    by (intro conjI allI cash nm(1) [OF n(1)] nm(1) [OF n(2)] nm(1) [OF n(3)] nm(1) [OF n(4)] nm(1) [OF n(5)] nm(2) [OF n(6)])
qed

text \<open>When a snapshot can be built.\<close>

definition snapshot_fits :: "account_values \<Rightarrow> bool" where
  "snapshot_fits vals \<longleftrightarrow> iso_currency (infer_base_currency vals) \<and> list_all (\<lambda>(ccy, _). iso_currency ccy) (cash_by_ccy vals) \<and>
     0 \<le> dval (aggregate vals ''BuyingPower'') \<and> 0 \<le> dval (aggregate vals ''GrossPositionValue'') \<and>
     0 \<le> dval (aggregate vals ''MaintMarginReq'')"

lemma leverage_value:
  "\<exists>r. (if dzero < e then ddiv g e else Inr dzero) = Inr r \<and>
     (if 0 < dval e then rounded (dval g / dval e) (dval r) else r = dzero)"
  using ddiv_pos [of e g] by (auto simp: dec_less_iff)

lemma checks_validated: "(\<exists>y. validated chk x = Inr y) \<longleftrightarrow> (\<forall>(b, e) \<in> set (chk x). \<not> b)"
  by (simp add: validated_eq_Inr checks_ok_iff)

lemma snapshot_valid_iff:
  assumes "is_utc (a_taken s)"
  shows "mk_AccountSnapshot s = Inr r \<longleftrightarrow> r = s \<and> iso_currency (a_base s) \<and> list_all (\<lambda>(ccy, _). iso_currency ccy) (a_cash s) \<and>
    0 \<le> dval (a_buying_power s) \<and> 0 \<le> dval (a_gross s) \<and> 0 \<le> dval (a_margin s) \<and> 0 \<le> dval (a_leverage s)"
proof -
  have "mk_AccountSnapshot s = Inr r \<longleftrightarrow> r = s \<and> (\<forall>(b, e) \<in> set (AccountSnapshot_checks s). \<not> b)"
    by (simp only: mk_AccountSnapshot_def validated_eq_Inr checks_ok_iff)
  also have "(\<forall>(b, e) \<in> set (AccountSnapshot_checks s). \<not> b) \<longleftrightarrow> iso_currency (a_base s) \<and> list_all (\<lambda>(ccy, _). iso_currency ccy) (a_cash s) \<and>
      0 \<le> dval (a_buying_power s) \<and> 0 \<le> dval (a_gross s) \<and> 0 \<le> dval (a_margin s) \<and> 0 \<le> dval (a_leverage s)"
    using assms unfolding AccountSnapshot_checks_def
    by (auto simp: require_utc_def require_iso_currency_def decimal_simps list_all_iff not_less split: prod.splits)
  finally show ?thesis .
qed

lemma build_snapshot_iff:
  assumes "is_utc t"
  shows "build_account_snapshot vals t = Inr s \<longleftrightarrow> snapshot_fits vals \<and>
    (\<exists>r. (if dzero < aggregate vals ''NetLiquidationByCurrency''
          then ddiv (aggregate vals ''GrossPositionValue'') (aggregate vals ''NetLiquidationByCurrency'') else Inr dzero) = Inr r \<and>
     s = \<lparr>a_equity = aggregate vals ''NetLiquidationByCurrency'', a_cash = cash_by_ccy vals,
          a_buying_power = aggregate vals ''BuyingPower'', a_gross = aggregate vals ''GrossPositionValue'',
          a_net = aggregate vals ''GrossPositionValue'', a_leverage = r, a_margin = aggregate vals ''MaintMarginReq'',
          a_base = infer_base_currency vals, a_taken = t\<rparr>)"
proof -
  let ?e = "aggregate vals ''NetLiquidationByCurrency''" and ?g = "aggregate vals ''GrossPositionValue''"
  obtain r where r: "(if dzero < ?e then ddiv ?g ?e else Inr dzero) = Inr r"
    "if 0 < dval ?e then rounded (dval ?g / dval ?e) (dval r) else r = dzero" using leverage_value by blast
  have lev: "0 \<le> dval ?g \<Longrightarrow> 0 \<le> dval r"
  proof (cases "0 < dval ?e")
    case True
    assume g: "0 \<le> dval ?g"
    have "rounded (dval ?g / dval ?e) (dval r)" using r(2) True by simp
    with g True show ?thesis using rounded_neg_iff [of "dval ?g / dval ?e" "dval r"] by (simp add: not_less [symmetric] divide_less_0_iff)
  qed (use r(2) in simp)
  show ?thesis
    unfolding build_account_snapshot_def Let_def r(1) bindR_simps
    using lev by (auto simp: snapshot_valid_iff assms snapshot_fits_def)
qed

lemma build_snapshot_error:
  "build_account_snapshot vals t = Inl e \<Longrightarrow> \<exists>m. e = ValueError m"
proof -
  assume a: "build_account_snapshot vals t = Inl e"
  obtain r where "(if dzero < aggregate vals ''NetLiquidationByCurrency''
      then ddiv (aggregate vals ''GrossPositionValue'') (aggregate vals ''NetLiquidationByCurrency'') else Inr dzero) = Inr r"
    using leverage_value by blast
  with a obtain s where "validated AccountSnapshot_checks s = Inl e"
    by (auto simp: build_account_snapshot_def Let_def mk_AccountSnapshot_def)
  then have e: "checks (AccountSnapshot_checks s) = Inl e" by (simp add: validated_def split: sum.splits)
  have "checks cs = Inl e \<Longrightarrow> \<exists>b. (b, e) \<in> set cs" for cs
    by (induction cs rule: checks.induct) (auto split: if_splits)
  from this [OF e] show ?thesis by (auto simp: AccountSnapshot_checks_def require_utc_def require_iso_currency_def)
qed

lemma tick_cases:
  assumes "ib_values b \<noteq> []"
  obtains (failed) m where "build_account_snapshot (ib_values b) (now 0) = Inl (ValueError m)"
      "account_update_tick now b = (Inl (ValueError m), b)"
    | (suppressed) s where "build_account_snapshot (ib_values b) (now 0) = Inr s"
      "\<not> should_emit_account_update (ib_last_snapshot b) s" "account_update_tick now b = (Inr (), b)"
    | (refused) s x where "build_account_snapshot (ib_values b) (now 0) = Inr s" "should_emit_account_update (ib_last_snapshot b) s"
      "mk_AccountUpdate \<lparr>au_snapshot = s, au_time = now 1\<rparr> = Inl x" "account_update_tick now b = (Inl x, b)"
    | (emitted) s where "build_account_snapshot (ib_values b) (now 0) = Inr s" "should_emit_account_update (ib_last_snapshot b) s"
      "account_update_tick now b = (Inr (), (put_ib (BE_Account \<lparr>au_snapshot = s, au_time = now 1\<rparr>) b)\<lparr>ib_last_snapshot := Some s\<rparr>)"
proof (cases "build_account_snapshot (ib_values b) (now 0)")
  case (Inl e)
  with build_snapshot_error obtain m where "e = ValueError m" by blast
  with Inl assms show ?thesis by (intro failed [of m]) (simp_all add: account_update_tick_def)
next
  case (Inr s)
  show ?thesis
  proof (cases "should_emit_account_update (ib_last_snapshot b) s")
    case False
    with Inr assms show ?thesis by (intro suppressed [of s]) (simp_all add: account_update_tick_def)
  next
    case em: True
    show ?thesis
    proof (cases "mk_AccountUpdate \<lparr>au_snapshot = s, au_time = now 1\<rparr>")
      case (Inl x)
      with Inr em assms show ?thesis by (intro refused [of s x]) (simp_all add: account_update_tick_def)
    next
      case (Inr u)
      then have "u = \<lparr>au_snapshot = s, au_time = now 1\<rparr>" by (auto simp: mk_AccountUpdate_def validated_eq_Inr)
      with Inr \<open>build_account_snapshot (ib_values b) (now 0) = Inr s\<close> em assms show ?thesis
        by (intro emitted [of s]) (simp_all add: account_update_tick_def)
    qed
  qed
qed

section \<open>Properties\<close>

text \<open>What the account snapshot says: it can be built exactly when the base currency and the cash currencies are
  ISO codes and the three aggregates are not negative, every failure being a \<open>ValueError\<close>; its equity is the consolidated
  BASE row whenever that is readable, and its leverage is gross exposure over equity to 28 digits, zero without
  positive equity.\<close>

theorem account_snapshot_contract:
  assumes "is_utc t"
  shows "((\<exists>s. build_account_snapshot vals t = Inr s) = snapshot_fits vals) \<and>
    (case build_account_snapshot vals t of
       Inl e \<Rightarrow> \<exists>m. e = ValueError m
     | Inr s \<Rightarrow> a_base s = infer_base_currency vals \<and> a_net s = a_gross s \<and> a_cash s = cash_by_ccy vals \<and>
         (case map_of vals (''BASE'', ''NetLiquidationByCurrency'') of
            None \<Rightarrow> True | Some text \<Rightarrow> (case parse_decimal text of None \<Rightarrow> True | Some d \<Rightarrow> a_equity s = d)) \<and>
         (if 0 < dval (a_equity s) then rounded (dval (a_gross s) / dval (a_equity s)) (dval (a_leverage s)) else dval (a_leverage s) = 0))"
proof -
  obtain r where r: "(if dzero < aggregate vals ''NetLiquidationByCurrency''
      then ddiv (aggregate vals ''GrossPositionValue'') (aggregate vals ''NetLiquidationByCurrency'') else Inr dzero) = Inr r"
    "if 0 < dval (aggregate vals ''NetLiquidationByCurrency'')
     then rounded (dval (aggregate vals ''GrossPositionValue'') / dval (aggregate vals ''NetLiquidationByCurrency'')) (dval r) else r = dzero"
    using leverage_value by blast
  have iff: "(\<exists>s. build_account_snapshot vals t = Inr s) = snapshot_fits vals"
    unfolding build_snapshot_iff [OF assms] r(1) by auto
  have eq: "case map_of vals (''BASE'', ''NetLiquidationByCurrency'') of
      None \<Rightarrow> True | Some text \<Rightarrow> (case parse_decimal text of None \<Rightarrow> True | Some d \<Rightarrow> aggregate vals ''NetLiquidationByCurrency'' = d)"
    by (simp add: aggregate_def split: option.split)
  show ?thesis
  proof (cases "build_account_snapshot vals t")
    case (Inl e)
    with iff build_snapshot_error [OF Inl] show ?thesis by auto
  next
    case (Inr s)
    have s: "a_equity s = aggregate vals ''NetLiquidationByCurrency''" "a_gross s = aggregate vals ''GrossPositionValue''"
      "a_leverage s = r" "a_base s = infer_base_currency vals" "a_net s = a_gross s" "a_cash s = cash_by_ccy vals"
      using Inr unfolding build_snapshot_iff [OF assms] r(1) by auto
    have lev: "if 0 < dval (a_equity s) then rounded (dval (a_gross s) / dval (a_equity s)) (dval (a_leverage s)) else dval (a_leverage s) = 0"
      using r(2) by (simp add: s split: if_splits)
    show ?thesis unfolding Inr sum.case
      by (intro conjI s(4-6) lev eq [folded s(1)] iff [unfolded Inr])
  qed
qed


definition ex_values :: account_values where
  "ex_values = [((''GBP'', ''NetLiquidationByCurrency''), ''902839.50''), ((''BASE'', ''NetLiquidationByCurrency''), ''1003886''),
     ((''GBP'', ''ExchangeRate''), ''1.00''), ((''GBP'', ''BuyingPower''), ''2000000''),
     ((''GBP'', ''GrossPositionValue''), ''501943''), ((''GBP'', ''TotalCashBalance''), ''1000.25'')]"

theorem account_snapshot_contract_witness:
  "\<exists>s. build_account_snapshot ex_values (utc 0) = Inr s \<and> dval (a_equity s) = 1003886"
proof -
  have u: "is_utc (utc 0)" by simp
  have f: "snapshot_fits ex_values" by code_simp
  have d: "map_of ex_values (''BASE'', ''NetLiquidationByCurrency'') = Some ''1003886''" "parse_decimal ''1003886'' = Some (dint 1003886)"
    by code_simp+
  from account_snapshot_contract [OF u, of ex_values] f show ?thesis
    by (auto simp: d split: sum.splits)
qed

text \<open>C30: the published account never lags: whenever the timer's tick returns normally on a non-empty cache, the snapshot last
  published differs from the current one by less than 0.01 in every amount (every currency's cash included) and by
  less than 0.001 in leverage; the tick publishes at most one event, carrying the current snapshot.\<close>

theorem account_updates_track:
  assumes "account_update_tick now b = (Inr (), b')" and "ib_values b \<noteq> []"
  shows "\<exists>s l. build_account_snapshot (ib_values b) (now 0) = Inr s \<and> ib_last_snapshot b' = Some l \<and> within_thresholds s l \<and>
    (ib_events b' = ib_events b \<and> ib_last_snapshot b = Some l \<or>
     ib_events b' = ib_events b @ [BE_Account \<lparr>au_snapshot = s, au_time = now 1\<rparr>] \<and> l = s)"
  using assms(2)
proof (cases rule: tick_cases [where now = now])
  case (suppressed s)
  then obtain l where "ib_last_snapshot b = Some l" by (cases "ib_last_snapshot b") (simp_all add: should_emit_account_update_def)
  with suppressed assms(1) suppressed_within [of l s] show ?thesis by auto
qed (use assms(1) in \<open>auto simp: put_ib_def\<close>)

definition ex_ib :: IBBroker where
  "ex_ib = (ib_init ''DU1'' ''localhost'' 4002 NEAREST)\<lparr>ib_connected := True, ib_update_task := True, ib_values := ex_values\<rparr>"

theorem account_updates_track_witness:
  "ib_last_snapshot (snd (account_update_tick (\<lambda>_. utc 0) ex_ib)) \<noteq> None"
proof -
  have "is_ok (fst (account_update_tick (\<lambda>_. utc 0) ex_ib))" by code_simp
  then obtain b' where t: "account_update_tick (\<lambda>_. utc 0) ex_ib = (Inr (), b')"
    by (cases "account_update_tick (\<lambda>_. utc 0) ex_ib") (auto simp: is_ok_iff)
  have "ib_values ex_ib \<noteq> []" by (simp add: ex_ib_def ex_values_def)
  from account_updates_track [OF t this] t show ?thesis by auto
qed

text \<open>One bad account value stops the account updates for good: when the snapshot cannot be built, the wake-up of
  the timer publishes nothing and ends the timer task, and no later wake-up does anything, although the tick is
  written to skip a failed build.\<close>

theorem snapshot_failure_kills_timer:
  assumes "ib_update_task b" "ib_connected b" "is_utc (now 0)" "ib_values b \<noteq> []" "\<not> snapshot_fits (ib_values b)"
  shows "account_update_wake now b = b\<lparr>ib_update_task := False\<rparr> \<and>
    account_update_wake now' (account_update_wake now b) = account_update_wake now b"
  using assms(4)
proof (cases rule: tick_cases [where now = now])
  case (failed m)
  then have "account_update_wake now b = b\<lparr>ib_update_task := False\<rparr>" using assms by (simp add: account_update_wake_def)
  then show ?thesis by (simp add: account_update_wake_def)
qed (use assms(5) in \<open>simp_all add: build_snapshot_iff [OF assms(3)]\<close>)

theorem snapshot_failure_kills_timer_witness:
  "\<not> ib_update_task (account_update_wake (\<lambda>_. utc 0) (ex_ib\<lparr>ib_values := [((''GBP'', ''BuyingPower''), ''-12.5''), ((''GBP'', ''ExchangeRate''), ''1'')]\<rparr>))"
proof -
  let ?b = "ex_ib\<lparr>ib_values := [((''GBP'', ''BuyingPower''), ''-12.5''), ((''GBP'', ''ExchangeRate''), ''1'')]\<rparr>"
  have "\<not> snapshot_fits [((''GBP'', ''BuyingPower''), ''-12.5''), ((''GBP'', ''ExchangeRate''), ''1'')]" by code_simp
  then have "account_update_wake (\<lambda>_. utc 0) ?b = ?b\<lparr>ib_update_task := False\<rparr> \<and>
      account_update_wake (\<lambda>_. utc 0) (account_update_wake (\<lambda>_. utc 0) ?b) = account_update_wake (\<lambda>_. utc 0) ?b"
    by (intro snapshot_failure_kills_timer) (simp_all add: ex_ib_def)
  then show ?thesis by simp
qed

end
