(* ===== verification/IBOrders.thy ===== *)
theory IBOrders
  imports IBAccount OrderFsm
begin

text \<open>
  \<open>src/blive/adapters/ib/broker.py\<close>, everything \<open>IBBroker\<close> does for orders: \<open>submit\<close>, \<open>cancel\<close>,
  \<open>replace\<close> and the handlers of IB's pushes.  \<open>submit\<close> is split at its two awaits (the price table, the rate limiter);
  \<open>asyncio.create_task\<close> appends to \<open>ib_tasks\<close>, which the event loop runs from the front, and
  \<open>await asyncio.sleep(0)\<close> moves a task to the back.  \<open>ib_events\<close> is everything ever put on the event
  queue and \<open>ib_placed\<close>, \<open>ib_cancelled\<close> are the calls made on the IB client.  A trade is IB's mutable
  object: the deferred rejection reads its state at the time it runs.
\<close>

section \<open>Small changes of the state\<close>

definition spawn :: "ib_task \<Rightarrow> IBBroker \<Rightarrow> IBBroker" where
  "spawn t b = b\<lparr>ib_tasks := ib_tasks b @ [t]\<rparr>"

definition set_tracking :: "uuid \<Rightarrow> OrderTracking \<Rightarrow> IBBroker \<Rightarrow> IBBroker" where
  "set_tracking cid t b = b\<lparr>ib_tracking := (ib_tracking b)(cid \<mapsto> t)\<rparr>"

definition pop_error :: "int \<Rightarrow> IBBroker \<Rightarrow> IBBroker" where
  "pop_error order_id b = b\<lparr>ib_errors := (ib_errors b)(order_id := None)\<rparr>"

definition ib_order_event :: "uuid \<Rightarrow> string option \<Rightarrow> OrderEventKind \<Rightarrow> string option \<Rightarrow> Fill option \<Rightarrow> datetime \<Rightarrow> OrderEvent res" where
  "ib_order_event cid venue kind reason fill now =
     mk_OrderEvent \<lparr>e_order = cid, e_venue_order = venue, e_kind = kind, e_reason = reason, e_time = now, e_fill = fill\<rparr>"

section \<open>Submitting\<close>

text \<open>\<open>str(uuid)\<close>: 32 hexadecimal digits in groups.\<close>

definition hex_digit :: "nat \<Rightarrow> char" where
  "hex_digit n = (if n < 10 then char_of (48 + n) else char_of (87 + n))"

fun hex_digits :: "nat \<Rightarrow> nat \<Rightarrow> string" where
  "hex_digits 0 n = []"
| "hex_digits (Suc k) n = hex_digits k (n div 16) @ [hex_digit (n mod 16)]"

definition show_uuid :: "uuid \<Rightarrow> string" where
  "show_uuid u =
     (let h = hex_digits 32 u
      in take 8 h @ ''-'' @ take 4 (drop 8 h) @ ''-'' @ take 4 (drop 12 h) @ ''-'' @ take 4 (drop 16 h) @ ''-'' @ drop 20 h)"

text \<open>Up to the first await.\<close>

definition submit_check :: "Order \<Rightarrow> (IBBroker, unit) sx" where
  "submit_check order =
     bindS require_connected (\<lambda>_.
     bindS (getS (\<lambda>b. ib_trades b (o_id order))) (\<lambda>known.
     case known of
       Some _ \<Rightarrow> raiseS (RuntimeError ''client_order_id already submitted'')
     | None \<Rightarrow> retS ()))"

text \<open>With the price table, up to the rate limiter: None when the order was rejected here.\<close>

definition submit_priced :: "PriceIncrement list res \<Rightarrow> Order \<Rightarrow> datetime
    \<Rightarrow> (IBBroker, (Order \<times> Contract \<times> IbOrder) option) sx" where
  "submit_priced increments order now =
     bindS (getS ib_policy) (\<lambda>policy.
     case snap_order_prices policy increments order of
       Inl (PriceRuleUnavailable detail) \<Rightarrow>
         bindS (liftS (ib_order_event (o_id order) None EV_REJECTED (Some (''blive:price-rule-unavailable '' @ detail)) None now))
           (\<lambda>e. bindS (modS (put_ib (BE_Order e))) (\<lambda>_. retS None))
     | Inl e \<Rightarrow> raiseS e
     | Inr snapped \<Rightarrow>
         bindS (liftS (to_contract (o_instrument snapped))) (\<lambda>contract.
         bindS (liftS (blive_to_ib_order snapped)) (\<lambda>ib_order.
         retS (Some (snapped, contract, ib_order\<lparr>ob_orderRef := show_uuid (o_id order)\<rparr>)))))"

text \<open>After the rate limiter: \<open>placeOrder\<close> returns the trade, with its order id and an empty log.\<close>

definition new_tracking :: "Order \<Rightarrow> OrderTracking" where
  "new_tracking order =
     \<lparr>ot_total = o_quantity order, ot_instrument = o_instrument order, ot_side = o_side order, ot_accepted = False,
      ot_terminal = False, ot_seen = [], ot_filled = dzero\<rparr>"

definition submit_place :: "unit res \<Rightarrow> Order \<Rightarrow> Contract \<Rightarrow> IbOrder \<Rightarrow> IbTrade \<Rightarrow> datetime \<Rightarrow> (IBBroker, uuid) sx" where
  "submit_place acquired order contract ib_order trade now =
     bindS (liftS acquired) (\<lambda>_.
     bindS (modS (\<lambda>b. b\<lparr>ib_placed := ib_placed b @ [(contract, ib_order)]\<rparr>)) (\<lambda>_.
     bindS (modS (\<lambda>b. b\<lparr>ib_trades := (ib_trades b)(o_id order \<mapsto> trade)\<rparr>)) (\<lambda>_.
     bindS (modS (set_tracking (o_id order) (new_tracking order))) (\<lambda>_.
     bindS (liftS (ib_order_event (o_id order) (venue_order_id trade) EV_SUBMITTED None None now)) (\<lambda>e.
     bindS (modS (put_ib (BE_Order e))) (\<lambda>_.
     retS (o_id order)))))))"

text \<open>The whole call when nothing else runs during its awaits.\<close>

definition ib_submit :: "PriceIncrement list res \<Rightarrow> unit res \<Rightarrow> IbTrade \<Rightarrow> Order \<Rightarrow> datetime \<Rightarrow> (IBBroker, uuid) sx" where
  "ib_submit increments acquired trade order now =
     bindS (submit_check order) (\<lambda>_.
     bindS (submit_priced increments order now) (\<lambda>r.
     case r of
       None \<Rightarrow> retS (o_id order)
     | Some (snapped, contract, ib_order) \<Rightarrow> submit_place acquired snapped contract ib_order trade now))"

definition ib_cancel :: "uuid \<Rightarrow> unit res \<Rightarrow> (IBBroker, unit) sx" where
  "ib_cancel cid acquired =
     bindS require_connected (\<lambda>_.
     bindS (getS (\<lambda>b. ib_trades b cid)) (\<lambda>trade.
     case trade of
       None \<Rightarrow> raiseS (KeyError ''client_order_id unknown to IBBroker'')
     | Some t \<Rightarrow>
         bindS (liftS acquired) (\<lambda>_.
         modS (\<lambda>b. b\<lparr>ib_cancelled := ib_cancelled b @ [it_orderId t]\<rparr>))))"

definition ib_replace :: "uuid \<Rightarrow> OrderUpdate \<Rightarrow> (IBBroker, unit) sx" where
  "ib_replace cid new = raiseS (NotImplementedError ''IBBroker.replace lands at M2-IB.4b'')"

section \<open>Handlers\<close>

definition accepted_status :: "string \<Rightarrow> bool" where
  "accepted_status s \<longleftrightarrow> s \<in> {''Submitted'', ''PreSubmitted''}"

definition cancelled_status :: "string \<Rightarrow> bool" where
  "cancelled_status s \<longleftrightarrow> s \<in> {''Cancelled'', ''ApiCancelled''}"

definition rejected_status :: "string \<Rightarrow> bool" where
  "rejected_status s \<longleftrightarrow> s = ''Inactive''"

definition spawn_event :: "uuid \<Rightarrow> IbTrade \<Rightarrow> OrderEventKind \<Rightarrow> string option \<Rightarrow> Fill option \<Rightarrow> datetime \<Rightarrow> (IBBroker, unit) sx" where
  "spawn_event cid trade kind reason fill now =
     bindS (liftS (ib_order_event cid (venue_order_id trade) kind reason fill now)) (\<lambda>e. modS (spawn (PutOrderEvent e)))"

definition cancel_outcome :: "OrderTracking \<Rightarrow> IbTrade \<Rightarrow> OrderEventKind \<times> string" where
  "cancel_outcome t trade =
     (case (if ot_accepted t then None else last_error_log_entry trade) of
        Some entry \<Rightarrow> (EV_REJECTED, rejected_reason_from_log_entry entry)
      | None \<Rightarrow> (EV_CANCELED, cancel_reason_from_status (it_status trade) trade))"

definition on_order_status :: "uuid \<Rightarrow> IbTrade \<Rightarrow> datetime \<Rightarrow> (IBBroker, unit) sx" where
  "on_order_status cid trade now =
     bindS (getS (\<lambda>b. ib_tracking b cid)) (\<lambda>tr.
     case tr of
       None \<Rightarrow> retS ()
     | Some t \<Rightarrow>
         if ot_terminal t then retS ()
         else if accepted_status (it_status trade) \<and> \<not> ot_accepted t
         then bindS (modS (set_tracking cid (t\<lparr>ot_accepted := True\<rparr>))) (\<lambda>_.
              spawn_event cid trade EV_ACCEPTED None None now)
         else if cancelled_status (it_status trade)
         then bindS (modS (set_tracking cid (t\<lparr>ot_terminal := True\<rparr>))) (\<lambda>_.
              bindS (modS (pop_error (it_orderId trade))) (\<lambda>_.
              case cancel_outcome t trade of (kind, reason) \<Rightarrow>
                spawn_event cid trade kind (Some reason) None now))
         else if rejected_status (it_status trade)
         then bindS (modS (set_tracking cid (t\<lparr>ot_terminal := True\<rparr>))) (\<lambda>_.
              modS (spawn (EmitRejected cid 3)))
         else retS ())"

record IbExecution =
  ex_execId :: string
  ex_shares :: string
  ex_price :: string
  ex_time :: "datetime option"

record IbFill =
  if_execution :: "IbExecution option"
  if_commission :: "(string \<times> string) option"

text \<open>A commission text is false in a Boolean context when it is the number zero.\<close>

definition zero_text :: "string \<Rightarrow> bool" where
  "zero_text s \<longleftrightarrow> (case parse_decimal s of None \<Rightarrow> False | Some d \<Rightarrow> dec_eq d dzero)"

definition fill_commission :: "IbFill \<Rightarrow> decimal res" where
  "fill_commission fill =
     (case if_commission fill of
        None \<Rightarrow> Inr dzero
      | Some (commission, _) \<Rightarrow> if zero_text commission then Inr dzero else read_decimal commission)"

definition fill_currency :: "IbFill \<Rightarrow> OrderTracking \<Rightarrow> string" where
  "fill_currency fill t =
     (case if_commission fill of
        None \<Rightarrow> i_currency (ot_instrument t)
      | Some (_, currency) \<Rightarrow> if currency \<noteq> [] then currency else i_currency (ot_instrument t))"

definition fill_of :: "uuid \<Rightarrow> OrderTracking \<Rightarrow> IbTrade \<Rightarrow> IbExecution \<Rightarrow> IbFill \<Rightarrow> datetime \<Rightarrow> Fill res" where
  "fill_of cid t trade ex fill now =
     bindR (read_decimal (ex_shares ex)) (\<lambda>qty.
     bindR (read_decimal (ex_price ex)) (\<lambda>price.
     bindR (fill_commission fill) (\<lambda>commission.
     mk_Fill \<lparr>f_order = cid,
              f_venue_order = (case venue_order_id trade of None \<Rightarrow> [] | Some v \<Rightarrow> v),
              f_exec = ex_execId ex, f_instrument = ot_instrument t, f_side = ot_side t, f_quantity = qty,
              f_price = price, f_commission = commission, f_currency = fill_currency fill t,
              f_time = (case ex_time ex of None \<Rightarrow> now | Some time \<Rightarrow> time)\<rparr>)))"

text \<open>The three steps of the fill handler: remember the execution, imply ACCEPTED, report the fill.\<close>

definition imply_accepted :: "uuid \<Rightarrow> OrderTracking \<Rightarrow> IbTrade \<Rightarrow> datetime \<Rightarrow> (IBBroker, OrderTracking) sx" where
  "imply_accepted cid t trade now =
     (if ot_accepted t then retS t
      else bindS (modS (set_tracking cid (t\<lparr>ot_accepted := True\<rparr>))) (\<lambda>_.
           bindS (spawn_event cid trade EV_ACCEPTED None None now) (\<lambda>_.
           retS (t\<lparr>ot_accepted := True\<rparr>))))"

definition report_fill :: "uuid \<Rightarrow> OrderTracking \<Rightarrow> IbTrade \<Rightarrow> Fill \<Rightarrow> datetime \<Rightarrow> (IBBroker, unit) sx" where
  "report_fill cid t trade blive_fill now =
     (let filled = dadd (ot_filled t) (f_quantity blive_fill);
          terminal = (ot_total t \<le> filled)
      in bindS (modS (set_tracking cid (t\<lparr>ot_filled := filled, ot_terminal := terminal\<rparr>))) (\<lambda>_.
         bindS (modS (if terminal then pop_error (it_orderId trade) else id)) (\<lambda>_.
         spawn_event cid trade (if terminal then EV_FILLED else EV_PARTIAL_FILL) None (Some blive_fill) now)))"

definition on_order_fill :: "uuid \<Rightarrow> IbTrade \<Rightarrow> IbFill \<Rightarrow> (nat \<Rightarrow> datetime) \<Rightarrow> (IBBroker, unit) sx" where
  "on_order_fill cid trade fill now =
     bindS (getS (\<lambda>b. ib_tracking b cid)) (\<lambda>tr.
     case (tr, if_execution fill) of
       (Some t, Some ex) \<Rightarrow>
         if ot_terminal t \<or> ex_execId ex = [] \<or> ex_execId ex \<in> set (ot_seen t) then retS ()
         else
           let seen = t\<lparr>ot_seen := ex_execId ex # ot_seen t\<rparr>
           in bindS (modS (set_tracking cid seen)) (\<lambda>_.
              bindS (imply_accepted cid seen trade (now 0)) (\<lambda>t'.
              bindS (liftS (fill_of cid t' trade ex fill (now 1))) (\<lambda>blive_fill.
              report_fill cid t' trade blive_fill (now 2))))
     | _ \<Rightarrow> retS ())"

definition on_ib_error :: "int \<Rightarrow> int \<Rightarrow> string \<Rightarrow> IBBroker \<Rightarrow> IBBroker" where
  "on_ib_error reqId errorCode errorString b =
     (if reqId \<le> 0 then b
      else b\<lparr>ib_codes := (ib_codes b)(errorCode := ib_codes b errorCode + 1),
             ib_errors := (ib_errors b)(reqId \<mapsto> (errorCode, errorString))\<rparr>)"

section \<open>Tasks\<close>

definition reason_from_error_stash :: "IBBroker \<Rightarrow> int \<Rightarrow> string option" where
  "reason_from_error_stash b order_id = map_option (\<lambda>(code, message). ib_reason code message) (ib_errors b order_id)"

definition rejection_reason :: "IBBroker \<Rightarrow> IbTrade \<Rightarrow> string" where
  "rejection_reason b trade =
     (case rejected_reason_from_trade trade of
        Some r \<Rightarrow> r
      | None \<Rightarrow> (case reason_from_error_stash b (it_orderId trade) of Some r \<Rightarrow> r | None \<Rightarrow> ''rejected''))"

definition emit_rejected_via_inactive :: "uuid \<Rightarrow> IbTrade \<Rightarrow> datetime \<Rightarrow> (IBBroker, unit) sx" where
  "emit_rejected_via_inactive cid trade now =
     bindS (getS (\<lambda>b. rejection_reason b trade)) (\<lambda>reason.
     bindS (modS (pop_error (it_orderId trade))) (\<lambda>_.
     bindS (liftS (ib_order_event cid (venue_order_id trade) EV_REJECTED (Some reason) None now)) (\<lambda>e.
     modS (put_ib (BE_Order e)))))"

text \<open>The event loop runs the task at the front.\<close>

definition run_task :: "datetime \<Rightarrow> IBBroker \<Rightarrow> IBBroker" where
  "run_task now b =
     (case ib_tasks b of
        [] \<Rightarrow> b
      | t # ts \<Rightarrow>
          let b' = b\<lparr>ib_tasks := ts\<rparr>
          in case t of
               PutOrderEvent e \<Rightarrow> put_ib (BE_Order e) b'
             | EmitRejected cid (Suc k) \<Rightarrow> spawn (EmitRejected cid k) b'
             | EmitRejected cid 0 \<Rightarrow>
                 (case ib_trades b' cid of
                    None \<Rightarrow> b'
                  | Some trade \<Rightarrow> snd (emit_rejected_via_inactive cid trade now b')))"

section \<open>Runs\<close>

datatype ib_input =
    I_Check Order
  | I_Priced "PriceIncrement list res" Order datetime
  | I_Place "unit res" Order Contract IbOrder IbTrade datetime
  | I_Cancel uuid "unit res"
  | I_Replace uuid OrderUpdate
  | I_Trade uuid IbTrade
  | I_Status uuid datetime
  | I_Fill uuid IbFill "nat \<Rightarrow> datetime"
  | I_Error int int string
  | I_Task datetime
  | I_Connect "unit res" "AccountValue list" datetime
  | I_Disconnect "unit res" datetime
  | I_Value AccountValue
  | I_Wake "nat \<Rightarrow> datetime"

text \<open>
  \<open>I_Trade\<close> is IB's client changing the trade object (status, log); \<open>I_Status\<close> and \<open>I_Fill\<close> are the
  handlers it then calls with that object.
\<close>

fun ib_step :: "IBBroker \<Rightarrow> ib_input \<Rightarrow> IBBroker" where
  "ib_step b (I_Check order) = snd (submit_check order b)"
| "ib_step b (I_Priced increments order now) = snd (submit_priced increments order now b)"
| "ib_step b (I_Place acquired order contract ib_order trade now) = snd (submit_place acquired order contract ib_order trade now b)"
| "ib_step b (I_Cancel cid acquired) = snd (ib_cancel cid acquired b)"
| "ib_step b (I_Replace cid new) = snd (ib_replace cid new b)"
| "ib_step b (I_Trade cid trade) = (if ib_trades b cid = None then b else b\<lparr>ib_trades := (ib_trades b)(cid \<mapsto> trade)\<rparr>)"
| "ib_step b (I_Status cid now) =
     (case ib_trades b cid of None \<Rightarrow> b | Some trade \<Rightarrow> snd (on_order_status cid trade now b))"
| "ib_step b (I_Fill cid fill now) =
     (case ib_trades b cid of None \<Rightarrow> b | Some trade \<Rightarrow> snd (on_order_fill cid trade fill now b))"
| "ib_step b (I_Error reqId errorCode errorString) = on_ib_error reqId errorCode errorString b"
| "ib_step b (I_Task now) = run_task now b"
| "ib_step b (I_Connect client_connect initial_values now) = snd (ib_connect client_connect initial_values now b)"
| "ib_step b (I_Disconnect client_disconnect now) = snd (ib_disconnect client_disconnect now b)"
| "ib_step b (I_Value av) = on_account_value av b"
| "ib_step b (I_Wake now) = account_update_wake now b"

section \<open>The view of one order\<close>

fun task_id :: "ib_task \<Rightarrow> uuid" where
  "task_id (PutOrderEvent e) = e_order e"
| "task_id (EmitRejected cid k) = cid"

fun task_kind :: "ib_task \<Rightarrow> OrderEventKind" where
  "task_kind (PutOrderEvent e) = e_kind e"
| "task_kind (EmitRejected cid k) = EV_REJECTED"

definition ib_tasks_of :: "uuid \<Rightarrow> IBBroker \<Rightarrow> ib_task list" where
  "ib_tasks_of cid b = filter (\<lambda>t. task_id t = cid) (ib_tasks b)"

text \<open>The kinds reported for an order: those on the queue, then those of the tasks still to run.\<close>

definition ib_kinds :: "uuid \<Rightarrow> IBBroker \<Rightarrow> OrderEventKind list" where
  "ib_kinds cid b = kinds_of cid (ib_events b) @ map task_kind (ib_tasks_of cid b)"

definition tracked_shape :: "OrderTracking option \<Rightarrow> OrderEventKind list \<Rightarrow> bool" where
  "tracked_shape tr ks \<longleftrightarrow> kinds_run SUBMIT_PENDING ks \<noteq> None \<and>
     (case tr of
        None \<Rightarrow> True
      | Some t \<Rightarrow> ot_terminal t \<or> (if ot_accepted t then \<exists>n. ks = EV_SUBMITTED # EV_ACCEPTED # replicate n EV_PARTIAL_FILL
                                   else ks = [EV_SUBMITTED]))"

definition deferred_last :: "uuid \<Rightarrow> OrderTracking option \<Rightarrow> ib_task list \<Rightarrow> bool" where
  "deferred_last cid tr ts \<longleftrightarrow> (\<exists>puts d. ts = map PutOrderEvent puts @ d \<and>
     (d = [] \<or> (\<exists>k t. d = [EmitRejected cid k] \<and> tr = Some t \<and> ot_terminal t)))"

definition ib_ok :: "uuid \<Rightarrow> IBBroker \<Rightarrow> bool" where
  "ib_ok cid b \<longleftrightarrow> tracked_shape (ib_tracking b cid) (ib_kinds cid b) \<and>
     deferred_last cid (ib_tracking b cid) (ib_tasks_of cid b) \<and> (ib_tracking b cid \<noteq> None \<longrightarrow> ib_trades b cid \<noteq> None)"

definition same_view :: "uuid \<Rightarrow> IBBroker \<Rightarrow> IBBroker \<Rightarrow> bool" where
  "same_view cid b b' \<longleftrightarrow> ib_tracking b' cid = ib_tracking b cid \<and> order_events cid (ib_events b') = order_events cid (ib_events b) \<and>
     ib_tasks_of cid b' = ib_tasks_of cid b \<and> (ib_trades b' cid = None \<longleftrightarrow> ib_trades b cid = None)"

definition extends :: "uuid \<Rightarrow> IBBroker \<Rightarrow> IBBroker \<Rightarrow> bool" where
  "extends cid b b' \<longleftrightarrow> ib_ok cid b' \<and> (\<exists>new. ib_kinds cid b' = ib_kinds cid b @ new)"

lemma same_view_extends: "ib_ok cid b \<Longrightarrow> same_view cid b b' \<Longrightarrow> extends cid b b'"
  by (simp add: ib_ok_def same_view_def extends_def ib_kinds_def kinds_of_order_events)

lemma same_view_refl [simp]: "same_view cid b b"
  by (simp add: same_view_def)

text \<open>The events reported for an order, and the fills they carry.\<close>

fun task_event :: "ib_task \<Rightarrow> OrderEvent list" where
  "task_event (PutOrderEvent e) = [e]"
| "task_event (EmitRejected cid k) = []"

definition ib_fills :: "uuid \<Rightarrow> IBBroker \<Rightarrow> Fill list" where
  "ib_fills cid b = List.map_filter e_fill (order_events cid (ib_events b) @ concat (map task_event (ib_tasks_of cid b)))"

definition filled_reported :: "uuid \<Rightarrow> IBBroker \<Rightarrow> bool" where
  "filled_reported cid b \<longleftrightarrow> EV_FILLED \<in> set (ib_kinds cid b)"

definition fill_book :: "OrderTracking \<Rightarrow> decimal \<times> string list \<times> decimal" where
  "fill_book t = (ot_total t, ot_seen t, ot_filled t)"

text \<open>What a step may do to the fills of an order: nothing, start the book, or book one unseen execution.\<close>

definition fills_kept :: "uuid \<Rightarrow> IBBroker \<Rightarrow> IBBroker \<Rightarrow> bool" where
  "fills_kept cid b b' \<longleftrightarrow> ib_fills cid b' = ib_fills cid b \<and> (filled_reported cid b' \<longrightarrow> filled_reported cid b)"

definition fill_booked :: "uuid \<Rightarrow> OrderTracking \<Rightarrow> OrderTracking \<Rightarrow> string \<Rightarrow> IBBroker \<Rightarrow> IBBroker \<Rightarrow> bool" where
  "fill_booked cid t t' x b b' \<longleftrightarrow> ot_total t' = ot_total t \<and> x \<notin> set (ot_seen t) \<and> ot_seen t' = x # ot_seen t \<and>
     (ot_filled t' = ot_filled t \<and> fills_kept cid b b' \<or>
      (\<exists>f. mk_Fill f = Inr f \<and> f_order f = cid \<and> f_exec f = x \<and> ot_filled t' = dadd (ot_filled t) (f_quantity f) \<and>
         ib_fills cid b' = ib_fills cid b @ [f] \<and> (filled_reported cid b' \<longrightarrow> filled_reported cid b \<or> ot_total t \<le> ot_filled t')))"

definition fill_step :: "uuid \<Rightarrow> IBBroker \<Rightarrow> IBBroker \<Rightarrow> bool" where
  "fill_step cid b b' \<longleftrightarrow>
     map_option fill_book (ib_tracking b' cid) = map_option fill_book (ib_tracking b cid) \<and> fills_kept cid b b' \<or>
     (\<exists>t. ib_tracking b cid = None \<and> ib_tracking b' cid = Some t \<and> ot_seen t = [] \<and> ot_filled t = dzero \<and> fills_kept cid b b') \<or>
     (\<exists>t t' x. ib_tracking b cid = Some t \<and> \<not> ot_terminal t \<and> ib_tracking b' cid = Some t' \<and> fill_booked cid t t' x b b')"

lemma same_view_fill_step: "same_view cid b b' \<Longrightarrow> fill_step cid b b'"
  by (simp add: same_view_def fill_step_def fills_kept_def ib_fills_def filled_reported_def ib_kinds_def kinds_of_order_events)

text \<open>
  A handler's effect: it changes the tracking entry of its own order and appends tasks of that order.
\<close>

definition order_effect :: "uuid \<Rightarrow> OrderTracking \<Rightarrow> ib_task list \<Rightarrow> IBBroker \<Rightarrow> IBBroker \<Rightarrow> bool" where
  "order_effect c t ts b b' \<longleftrightarrow> ib_tracking b' = (ib_tracking b)(c \<mapsto> t) \<and> ib_tasks b' = ib_tasks b @ ts \<and>
     ib_events b' = ib_events b \<and> ib_trades b' = ib_trades b \<and> list_all (\<lambda>x. task_id x = c) ts"

lemma order_effect_other: "order_effect c t ts b b' \<Longrightarrow> c \<noteq> cid \<Longrightarrow> same_view cid b b'"
proof -
  assume e: "order_effect c t ts b b'" "c \<noteq> cid"
  then have "filter (\<lambda>t. task_id t = cid) ts = []" by (auto simp: order_effect_def list_all_iff filter_empty_conv)
  with e show ?thesis by (auto simp: order_effect_def same_view_def ib_tasks_of_def)
qed

lemma order_effect_own:
  assumes "order_effect cid t ts b b'"
  shows "ib_tracking b' cid = Some t" "ib_tasks_of cid b' = ib_tasks_of cid b @ ts"
    "ib_kinds cid b' = ib_kinds cid b @ map task_kind ts" "ib_trades b' cid = ib_trades b cid"
proof -
  have "filter (\<lambda>t. task_id t = cid) ts = ts" using assms by (simp add: order_effect_def list_all_iff filter_id_conv)
  then show "ib_tasks_of cid b' = ib_tasks_of cid b @ ts" using assms by (simp add: order_effect_def ib_tasks_of_def)
  then show "ib_kinds cid b' = ib_kinds cid b @ map task_kind ts" using assms by (simp add: order_effect_def ib_kinds_def)
qed (use assms in \<open>simp_all add: order_effect_def\<close>)

lemma order_effect_fills:
  assumes "order_effect cid t ts b b'"
  shows "ib_fills cid b' = ib_fills cid b @ List.map_filter e_fill (concat (map task_event ts))"
    "filled_reported cid b' \<longleftrightarrow> filled_reported cid b \<or> EV_FILLED \<in> set (map task_kind ts)"
proof -
  have e: "ib_events b' = ib_events b" using assms by (simp add: order_effect_def)
  show "ib_fills cid b' = ib_fills cid b @ List.map_filter e_fill (concat (map task_event ts))"
    by (simp add: ib_fills_def e order_effect_own(2) [OF assms] List.map_filter_def)
  show "filled_reported cid b' \<longleftrightarrow> filled_reported cid b \<or> EV_FILLED \<in> set (map task_kind ts)"
    by (auto simp: filled_reported_def order_effect_own(3) [OF assms])
qed

text \<open>A live order has no deferred rejection, so appending puts, or one deferred rejection when it ends, keeps the shape.\<close>

lemma deferred_last_puts:
  assumes "deferred_last cid (Some t0) ts0" "\<not> ot_terminal t0" "ts = map PutOrderEvent es @ d"
    "d = [] \<or> (\<exists>k. d = [EmitRejected cid k] \<and> ot_terminal t)"
  shows "deferred_last cid (Some t) (ts0 @ ts)"
proof -
  obtain puts where "ts0 = map PutOrderEvent puts" using assms(1,2) by (auto simp: deferred_last_def)
  then have "ts0 @ ts = map PutOrderEvent (puts @ es) @ d" using assms(3) by simp
  then show ?thesis using assms(4) unfolding deferred_last_def by blast
qed

lemma live_effect_extends:
  assumes ok: "ib_ok cid b" "ib_tracking b cid = Some t0" "\<not> ot_terminal t0" and eff: "order_effect cid t ts b b'"
    and ts: "ts = map PutOrderEvent es @ d" "d = [] \<or> (\<exists>k. d = [EmitRejected cid k] \<and> ot_terminal t)"
    and shape: "tracked_shape (Some t) (ib_kinds cid b @ map task_kind ts)"
  shows "extends cid b b'"
proof -
  note own = order_effect_own [OF eff]
  have "deferred_last cid (Some t) (ib_tasks_of cid b @ ts)"
    using deferred_last_puts [OF _ ok(3) ts] ok(1,2) by (simp add: ib_ok_def)
  with own shape ok(1,2) show ?thesis by (auto simp: extends_def ib_ok_def)
qed

section \<open>Runs of the order machine\<close>

lemma partials_run: "kinds_run PARTIALLY_FILLED (replicate n EV_PARTIAL_FILL) = Some PARTIALLY_FILLED"
  by (induction n) simp_all

lemma working_run:
  "\<exists>s \<in> {ACCEPTED, PARTIALLY_FILLED}. kinds_run SUBMIT_PENDING (EV_SUBMITTED # EV_ACCEPTED # replicate n EV_PARTIAL_FILL) = Some s"
  by (cases n) (simp_all add: partials_run)

lemma working_then:
  assumes "k \<in> {EV_PARTIAL_FILL, EV_FILLED, EV_CANCELED}"
  shows "kinds_run SUBMIT_PENDING ((EV_SUBMITTED # EV_ACCEPTED # replicate n EV_PARTIAL_FILL) @ [k]) \<noteq> None"
proof -
  obtain s where s: "s \<in> {ACCEPTED, PARTIALLY_FILLED}"
    "kinds_run SUBMIT_PENDING (EV_SUBMITTED # EV_ACCEPTED # replicate n EV_PARTIAL_FILL) = Some s" using working_run by blast
  have "kind_step s k \<noteq> None" using s(1) assms by auto
  then show ?thesis using s(2) by (auto simp: kinds_run_append split: option.splits)
qed

lemma tracked_accept: "\<not> ot_terminal t \<Longrightarrow> \<not> ot_accepted t \<Longrightarrow> tracked_shape (Some t) ks \<Longrightarrow> ot_accepted t' \<Longrightarrow> \<not> ot_terminal t' \<Longrightarrow>
    tracked_shape (Some t') (ks @ [EV_ACCEPTED])"
  by (auto simp: tracked_shape_def intro!: exI [of _ 0])

lemma tracked_partial: "\<not> ot_terminal t \<Longrightarrow> ot_accepted t \<Longrightarrow> tracked_shape (Some t) ks \<Longrightarrow> ot_accepted t' \<Longrightarrow>
    tracked_shape (Some t') (ks @ [EV_PARTIAL_FILL])"
proof -
  assume a: "\<not> ot_terminal t" "ot_accepted t" "tracked_shape (Some t) ks" "ot_accepted t'"
  then obtain n where n: "ks = EV_SUBMITTED # EV_ACCEPTED # replicate n EV_PARTIAL_FILL" by (auto simp: tracked_shape_def)
  have e: "ks @ [EV_PARTIAL_FILL] = EV_SUBMITTED # EV_ACCEPTED # replicate (Suc n) EV_PARTIAL_FILL"
    by (simp add: n replicate_append_same)
  have "kinds_run SUBMIT_PENDING (ks @ [EV_PARTIAL_FILL]) \<noteq> None" using working_then [of EV_PARTIAL_FILL n] by (simp add: n)
  moreover have "\<exists>m. ks @ [EV_PARTIAL_FILL] = EV_SUBMITTED # EV_ACCEPTED # replicate m EV_PARTIAL_FILL" using e by blast
  ultimately show ?thesis using a(4) by (simp add: tracked_shape_def)
qed

lemma tracked_end: "\<not> ot_terminal t \<Longrightarrow> tracked_shape (Some t) ks \<Longrightarrow> ot_terminal t' \<Longrightarrow>
    k = EV_CANCELED \<or> k = EV_FILLED \<and> ot_accepted t \<or> k = EV_REJECTED \<and> \<not> ot_accepted t \<Longrightarrow> tracked_shape (Some t') (ks @ [k])"
  using working_then [of k] by (fastforce simp: tracked_shape_def split: if_splits)

section \<open>What the handlers do\<close>

lemma set_tracking_simps [simp]:
  "ib_tracking (set_tracking c t b) = (ib_tracking b)(c \<mapsto> t)" "ib_tasks (set_tracking c t b) = ib_tasks b"
  "ib_events (set_tracking c t b) = ib_events b" "ib_trades (set_tracking c t b) = ib_trades b"
  by (simp_all add: set_tracking_def)

lemma spawn_simps [simp]:
  "ib_tracking (spawn t b) = ib_tracking b" "ib_tasks (spawn t b) = ib_tasks b @ [t]"
  "ib_events (spawn t b) = ib_events b" "ib_trades (spawn t b) = ib_trades b"
  by (simp_all add: spawn_def)

lemma pop_error_simps [simp]:
  "ib_tracking (pop_error n b) = ib_tracking b" "ib_tasks (pop_error n b) = ib_tasks b"
  "ib_events (pop_error n b) = ib_events b" "ib_trades (pop_error n b) = ib_trades b"
  by (simp_all add: pop_error_def)

lemma put_ib_simps [simp]:
  "ib_tracking (put_ib e b) = ib_tracking b" "ib_tasks (put_ib e b) = ib_tasks b"
  "ib_events (put_ib e b) = ib_events b @ [e]" "ib_trades (put_ib e b) = ib_trades b"
  by (simp_all add: put_ib_def)

lemma ib_order_event_ok:
  assumes "payload_ok kind now reason fill"
  shows "ib_order_event cid venue kind reason fill now =
    Inr \<lparr>e_order = cid, e_venue_order = venue, e_kind = kind, e_reason = reason, e_time = now, e_fill = fill\<rparr>"
  using assms by (simp add: ib_order_event_def mk_OrderEvent_ok)

lemma spawn_event_ok:
  assumes "payload_ok kind now reason fill"
  shows "\<exists>e. spawn_event cid trade kind reason fill now b = (Inr (), spawn (PutOrderEvent e) b) \<and> e_order e = cid \<and> e_kind e = kind \<and> e_fill e = fill"
  using assms
  by (intro exI [of _ "\<lparr>e_order = cid, e_venue_order = venue_order_id trade, e_kind = kind, e_reason = reason, e_time = now, e_fill = fill\<rparr>"])
    (simp add: spawn_event_def ib_order_event_ok)

lemma ib_reason_not_Nil [simp]: "ib_reason code message \<noteq> []"
  by (simp add: ib_reason_def)

lemma cancel_outcome_kind:
  "cancel_outcome t trade = (kind, reason) \<Longrightarrow> reason \<noteq> [] \<and>
    (kind = EV_CANCELED \<or> kind = EV_REJECTED \<and> \<not> ot_accepted t)"
  by (auto simp: cancel_outcome_def rejected_reason_from_log_entry_def cancel_reason_from_status_def split: option.splits if_splits)

lemma on_order_status_effect:
  assumes now: "is_utc now" and ok: "ib_ok c b"
    and inactive: "rejected_status (it_status trade) \<Longrightarrow> \<forall>t. ib_tracking b c = Some t \<longrightarrow> ot_terminal t \<or> \<not> ot_accepted t"
  shows "extends c b (snd (on_order_status c trade now b)) \<and> fill_step c b (snd (on_order_status c trade now b))"
proof (cases "ib_tracking b c")
  case None
  then show ?thesis using same_view_extends [OF ok, of b] same_view_fill_step [of c b b] by (simp add: on_order_status_def)
next
  case (Some t)
  note tr = Some
  show ?thesis
  proof (cases "ot_terminal t")
    case True
    then show ?thesis using tr same_view_extends [OF ok, of b] same_view_fill_step [of c b b] by (simp add: on_order_status_def)
  next
    case live: False
    have sh: "tracked_shape (Some t) (ib_kinds c b)" using ok tr by (simp add: ib_ok_def)
    have fin: ?thesis if eff: "order_effect c t' ts b (snd (on_order_status c trade now b))"
      "ts = map PutOrderEvent es @ d" "d = [] \<or> (\<exists>k. d = [EmitRejected c k] \<and> ot_terminal t')"
      "tracked_shape (Some t') (ib_kinds c b @ map task_kind ts)" "fill_book t' = fill_book t"
      "List.map_filter e_fill (concat (map task_event ts)) = []" "EV_FILLED \<notin> set (map task_kind ts)" for t' ts es d
      using live_effect_extends [OF ok tr live eff(1-4)] order_effect_fills [OF eff(1)] order_effect_own(1) [OF eff(1)] eff(5-7) tr
      by (simp add: fill_step_def fills_kept_def)
    consider (acc) "accepted_status (it_status trade)" "\<not> ot_accepted t"
      | (canc) "\<not> (accepted_status (it_status trade) \<and> \<not> ot_accepted t)" "cancelled_status (it_status trade)"
      | (rej) "\<not> (accepted_status (it_status trade) \<and> \<not> ot_accepted t)" "\<not> cancelled_status (it_status trade)" "rejected_status (it_status trade)"
      | (none) "\<not> (accepted_status (it_status trade) \<and> \<not> ot_accepted t)" "\<not> cancelled_status (it_status trade)" "\<not> rejected_status (it_status trade)"
      by blast
    then show ?thesis
    proof cases
      case acc
      have "payload_ok EV_ACCEPTED now None None" using now by (simp add: payload_ok_def needs_fill_def)
      from spawn_event_ok [OF this] obtain e where e: "spawn_event c trade EV_ACCEPTED None None now (set_tracking c (t\<lparr>ot_accepted := True\<rparr>) b)
          = (Inr (), spawn (PutOrderEvent e) (set_tracking c (t\<lparr>ot_accepted := True\<rparr>) b))" "e_order e = c" "e_kind e = EV_ACCEPTED" "e_fill e = None" by blast
      show ?thesis
        by (rule fin [of "t\<lparr>ot_accepted := True\<rparr>" "[PutOrderEvent e]" "[e]" "[]"])
          (use acc e live tr tracked_accept [OF live acc(2) sh, of "t\<lparr>ot_accepted := True\<rparr>"] in
            \<open>simp_all add: on_order_status_def order_effect_def fill_book_def List.map_filter_simps\<close>)
    next
      case canc
      obtain kind reason where co: "cancel_outcome t trade = (kind, reason)" by (cases "cancel_outcome t trade")
      note ck = cancel_outcome_kind [OF co]
      let ?b = "pop_error (it_orderId trade) (set_tracking c (t\<lparr>ot_terminal := True\<rparr>) b)"
      have "payload_ok kind now (Some reason) None" using now ck by (auto simp: payload_ok_def needs_fill_def falsy_def)
      from spawn_event_ok [OF this] obtain e where e: "spawn_event c trade kind (Some reason) None now ?b
          = (Inr (), spawn (PutOrderEvent e) ?b)" "e_order e = c" "e_kind e = kind" "e_fill e = None" by blast
      have na: "accepted_status (it_status trade) \<longrightarrow> ot_accepted t" using canc(1) by blast
      show ?thesis
        by (rule fin [of "t\<lparr>ot_terminal := True\<rparr>" "[PutOrderEvent e]" "[e]" "[]"])
          (use na canc(2) e live tr co ck tracked_end [OF live sh, of "t\<lparr>ot_terminal := True\<rparr>" kind] in
            \<open>auto simp: on_order_status_def order_effect_def fill_book_def List.map_filter_simps\<close>)
    next
      case rej
      have "\<not> ot_accepted t" using inactive [OF rej(3)] tr live by blast
      then show ?thesis
        by (intro fin [of "t\<lparr>ot_terminal := True\<rparr>" "[EmitRejected c 3]" "[]" "[EmitRejected c 3]"])
          (use rej live tr tracked_end [OF live sh, of "t\<lparr>ot_terminal := True\<rparr>" EV_REJECTED] in
            \<open>auto simp: on_order_status_def order_effect_def fill_book_def List.map_filter_simps\<close>)
    next
      case none
      then show ?thesis using tr live same_view_extends [OF ok, of b] same_view_fill_step [of c b b] by (auto simp: on_order_status_def)
    qed
  qed
qed

lemma order_effect_trans:
  "order_effect c t1 ts1 b b1 \<Longrightarrow> order_effect c t2 ts2 b1 b2 \<Longrightarrow> order_effect c t2 (ts1 @ ts2) b b2"
  by (simp add: order_effect_def)

lemma imply_accepted_effect:
  assumes now: "is_utc now" and live: "\<not> ot_terminal t" and shape: "tracked_shape (Some t) ks" and tr: "ib_tracking b c = Some t"
  shows "\<exists>t' es b'. imply_accepted c t trade now b = (Inr t', b') \<and> t' = t\<lparr>ot_accepted := True\<rparr> \<and>
    order_effect c t' (map PutOrderEvent es) b b' \<and> tracked_shape (Some t') (ks @ map e_kind es) \<and>
    list_all (\<lambda>e. e_fill e = None \<and> e_kind e = EV_ACCEPTED) es"
proof (cases "ot_accepted t")
  case True
  then have t: "t\<lparr>ot_accepted := True\<rparr> = t" by simp
  have "order_effect c t (map PutOrderEvent []) b b" using tr by (simp add: order_effect_def fun_upd_idem)
  then show ?thesis using True shape
    by (intro exI [of _ t] exI [of _ "[]"] exI [of _ b]) (simp add: imply_accepted_def t)
next
  case False
  let ?t = "t\<lparr>ot_accepted := True\<rparr>"
  have "payload_ok EV_ACCEPTED now None None" using now by (simp add: payload_ok_def needs_fill_def)
  from spawn_event_ok [OF this] obtain e where e: "spawn_event c trade EV_ACCEPTED None None now (set_tracking c ?t b)
      = (Inr (), spawn (PutOrderEvent e) (set_tracking c ?t b))" "e_order e = c" "e_kind e = EV_ACCEPTED" "e_fill e = None" by blast
  have "imply_accepted c t trade now b = (Inr ?t, spawn (PutOrderEvent e) (set_tracking c ?t b))"
    using False e(1) by (simp add: imply_accepted_def bindS_eq)
  moreover have "order_effect c ?t (map PutOrderEvent [e]) b (spawn (PutOrderEvent e) (set_tracking c ?t b))"
    using e by (simp add: order_effect_def)
  moreover have "tracked_shape (Some ?t) (ks @ map e_kind [e])"
    using tracked_accept [OF live False shape, of ?t] live e(3) by simp
  moreover have "list_all (\<lambda>e. e_fill e = None \<and> e_kind e = EV_ACCEPTED) [e]" using e by simp
  ultimately show ?thesis by blast
qed

lemma report_fill_effect:
  assumes now: "is_utc now" and live: "\<not> ot_terminal t" "ot_accepted t" and shape: "tracked_shape (Some t) ks"
  shows "\<exists>t' e b'. report_fill c t trade f now b = (Inr (), b') \<and> order_effect c t' [PutOrderEvent e] b b' \<and>
    t' = t\<lparr>ot_filled := dadd (ot_filled t) (f_quantity f), ot_terminal := (ot_total t \<le> dadd (ot_filled t) (f_quantity f))\<rparr> \<and>
    e_kind e = (if ot_terminal t' then EV_FILLED else EV_PARTIAL_FILL) \<and> e_fill e = Some f \<and>
    tracked_shape (Some t') (ks @ [e_kind e])"
proof -
  let ?filled = "dadd (ot_filled t) (f_quantity f)"
  let ?ended = "ot_total t \<le> ?filled"
  let ?t = "t\<lparr>ot_filled := ?filled, ot_terminal := ?ended\<rparr>"
  let ?k = "if ?ended then EV_FILLED else EV_PARTIAL_FILL"
  let ?b = "(if ?ended then pop_error (it_orderId trade) else id) (set_tracking c ?t b)"
  define e where "e = \<lparr>e_order = c, e_venue_order = venue_order_id trade, e_kind = ?k, e_reason = None, e_time = now, e_fill = Some f\<rparr>"
  have "payload_ok ?k now None (Some f)" using now by (simp add: payload_ok_def needs_fill_def)
  note ev = ib_order_event_ok [OF this, of c "venue_order_id trade"]
  have "report_fill c t trade f now b = (Inr (), spawn (PutOrderEvent e) ?b)"
    by (simp add: report_fill_def Let_def spawn_event_def ev e_def)
  moreover have "order_effect c ?t [PutOrderEvent e] b (spawn (PutOrderEvent e) ?b)"
    by (simp add: order_effect_def e_def)
  moreover have "tracked_shape (Some ?t) (ks @ [?k])"
  proof (cases ?ended)
    case True
    with tracked_end [OF live(1) shape, of ?t EV_FILLED] live show ?thesis by simp
  next
    case False
    with tracked_partial [OF live shape, of ?t] live show ?thesis by simp
  qed
  ultimately show ?thesis by (intro exI [of _ ?t] exI [of _ e] exI) (simp add: e_def)
qed

lemma on_order_fill_effect:
  assumes now: "is_utc (now 0)" "is_utc (now 1)" "is_utc (now 2)" and ok: "ib_ok c b"
  shows "extends c b (snd (on_order_fill c trade fill now b)) \<and> fill_step c b (snd (on_order_fill c trade fill now b))"
proof -
  have skip: ?thesis if "snd (on_order_fill c trade fill now b) = b"
    using same_view_extends [OF ok, of b] same_view_fill_step [of c b b] that by simp
  show ?thesis
  proof (cases "ib_tracking b c")
    case None
    then show ?thesis by (intro skip) (simp add: on_order_fill_def)
  next
    case (Some t)
    note tr = Some
    show ?thesis
    proof (cases "if_execution fill")
      case None
      then show ?thesis using tr by (intro skip) (simp add: on_order_fill_def)
    next
      case (Some ex)
      show ?thesis
      proof (cases "ot_terminal t \<or> ex_execId ex = [] \<or> ex_execId ex \<in> set (ot_seen t)")
        case True
        then show ?thesis using tr Some by (intro skip) (simp add: on_order_fill_def)
      next
        case False
        then have live: "\<not> ot_terminal t" by simp
        define t1 where "t1 = t\<lparr>ot_seen := ex_execId ex # ot_seen t\<rparr>"
        have t1: "\<not> ot_terminal t1" "tracked_shape (Some t1) (ib_kinds c b)"
          using live ok tr by (simp_all add: t1_def ib_ok_def tracked_shape_def)
        have e0: "order_effect c t1 [] b (set_tracking c t1 b)" by (simp add: order_effect_def)
        obtain t2 es b2 where imp: "imply_accepted c t1 trade (now 0) (set_tracking c t1 b) = (Inr t2, b2)"
          and t2: "t2 = t1\<lparr>ot_accepted := True\<rparr>" and e2: "order_effect c t2 (map PutOrderEvent es) (set_tracking c t1 b) b2"
          and sh2: "tracked_shape (Some t2) (ib_kinds c b @ map e_kind es)"
          and es: "list_all (\<lambda>e. e_fill e = None \<and> e_kind e = EV_ACCEPTED) es"
          using imply_accepted_effect [OF now(1) t1, of "set_tracking c t1 b" c trade] by auto
        have run: "on_order_fill c trade fill now b =
            (case fill_of c t2 trade ex fill (now 1) of Inl x \<Rightarrow> (Inl x, b2) | Inr f \<Rightarrow> report_fill c t2 trade f (now 2) b2)"
          using tr Some False imp
          by (auto simp: on_order_fill_def t1_def [symmetric] Let_def bindS_eq split: sum.split)
        have e02: "order_effect c t2 (map PutOrderEvent es) b b2" using order_effect_trans [OF e0 e2] by simp
        have live2: "\<not> ot_terminal t2" "ot_accepted t2" using t2 t1(1) by simp_all
        have es0: "List.map_filter e_fill (concat (map task_event (map PutOrderEvent es))) = []" "EV_FILLED \<notin> set (map task_kind (map PutOrderEvent es))"
          using es by (induction es) (auto simp: List.map_filter_simps)
        have book: "ot_total t2 = ot_total t" "ex_execId ex \<notin> set (ot_seen t)" "ot_seen t2 = ex_execId ex # ot_seen t" "ot_filled t2 = ot_filled t"
          using t2 False by (simp_all add: t1_def)
        show ?thesis
        proof (cases "fill_of c t2 trade ex fill (now 1)")
          case (Inl x)
          have "fill_step c b b2"
            using order_effect_fills [OF e02] order_effect_own(1) [OF e02] es0 book live tr
            by (auto simp: fill_step_def fill_booked_def fills_kept_def)
          moreover have "extends c b b2"
            by (rule live_effect_extends [OF ok tr live e02, of es "[]"]) (use sh2 in \<open>simp_all add: o_def\<close>)
          ultimately show ?thesis using run Inl by simp
        next
          case (Inr f)
          then have f: "mk_Fill f = Inr f" "f_order f = c" "f_exec f = ex_execId ex"
            by (auto simp: fill_of_def mk_Fill_def validated_eq_Inr)
          obtain t3 e b3 where rep: "report_fill c t2 trade f (now 2) b2 = (Inr (), b3)" and e3: "order_effect c t3 [PutOrderEvent e] b2 b3"
            and sh3: "tracked_shape (Some t3) ((ib_kinds c b @ map e_kind es) @ [e_kind e])"
            and t3: "t3 = t2\<lparr>ot_filled := dadd (ot_filled t2) (f_quantity f), ot_terminal := (ot_total t2 \<le> dadd (ot_filled t2) (f_quantity f))\<rparr>"
            and e: "e_kind e = (if ot_terminal t3 then EV_FILLED else EV_PARTIAL_FILL)" "e_fill e = Some f"
            using report_fill_effect [OF now(3) live2 sh2, of c trade f b2] by blast
          note e03 = order_effect_trans [OF e02 e3]
          have "List.map_filter e_fill (concat (map task_event (map PutOrderEvent es @ [PutOrderEvent e]))) = [f]"
            using es0(1) e(2) by (auto simp: List.map_filter_def)
          moreover have "EV_FILLED \<in> set (map task_kind (map PutOrderEvent es @ [PutOrderEvent e])) \<longleftrightarrow> ot_terminal t3"
            using es0(2) e(1) by auto
          ultimately have "fill_booked c t t3 (ex_execId ex) b b3"
            using order_effect_fills [OF e03] f book t3 by (auto simp: fill_booked_def)
          then have "fill_step c b b3" using order_effect_own(1) [OF e03] live tr unfolding fill_step_def by blast
          moreover have "extends c b b3"
            by (rule live_effect_extends [OF ok tr live e03, of "es @ [e]" "[]"]) (use sh3 in \<open>simp_all add: o_def\<close>)
          ultimately show ?thesis using run Inr rep by simp
        qed
      qed
    qed
  qed
qed

section \<open>Every step\<close>

text \<open>A method that only touches the order it is about.\<close>

definition touches_only :: "uuid \<Rightarrow> (IBBroker, 'a) sx \<Rightarrow> bool" where
  "touches_only c m \<longleftrightarrow> (\<forall>b cid. cid \<noteq> c \<longrightarrow> same_view cid b (snd (m b)))"

lemma same_view_trans: "same_view cid b b1 \<Longrightarrow> same_view cid b1 b2 \<Longrightarrow> same_view cid b b2"
  by (simp add: same_view_def)

lemma touches_bind [intro]: "touches_only c m \<Longrightarrow> (\<And>x. touches_only c (f x)) \<Longrightarrow> touches_only c (bindS m f)"
  unfolding touches_only_def
proof (intro allI impI)
  fix b cid
  assume m: "\<forall>b cid. cid \<noteq> c \<longrightarrow> same_view cid b (snd (m b))" and f: "\<And>x. \<forall>b cid. cid \<noteq> c \<longrightarrow> same_view cid b (snd (f x b))"
    and cid: "cid \<noteq> c"
  obtain r b1 where mb: "m b = (r, b1)" by (cases "m b")
  have "same_view cid b b1" using m cid mb by (metis snd_conv)
  moreover have "same_view cid b1 (snd (f x b1))" for x using f cid by blast
  ultimately show "same_view cid b (snd (bindS m f b))"
    by (cases r) (auto simp: bindS_eq mb intro: same_view_trans)
qed

lemma touches_basic [intro, simp]: "touches_only c (retS x)" "touches_only c (raiseS e)" "touches_only c (getS g)" "touches_only c (liftS r)"
  by (simp_all add: touches_only_def)

lemma touches_mods [intro, simp]: "touches_only c (modS (set_tracking c t))" "touches_only c (modS (pop_error n))"
  "task_id k = c \<Longrightarrow> touches_only c (modS (spawn k))" "touches_only c (modS id)"
  by (auto simp: touches_only_def same_view_def ib_tasks_of_def)

lemma touches_lift_event [intro]:
  "(\<And>e. e_order e = c \<Longrightarrow> touches_only c (k e)) \<Longrightarrow> touches_only c (bindS (liftS (ib_order_event c v kind r f now)) k)"
proof -
  assume k: "\<And>e. e_order e = c \<Longrightarrow> touches_only c (k e)"
  show ?thesis
  proof (cases "ib_order_event c v kind r f now")
    case (Inl x)
    then show ?thesis by (simp add: touches_only_def)
  next
    case (Inr e)
    then have "e_order e = c" by (auto simp: ib_order_event_def mk_OrderEvent_def validated_eq_Inr)
    with k Inr show ?thesis by (simp add: touches_only_def)
  qed
qed

lemma touches_spawn_event [intro, simp]: "touches_only c (spawn_event c trade kind r f now)"
  unfolding spawn_event_def by (rule touches_lift_event) simp

lemma touches_status: "touches_only c (on_order_status c trade now)"
proof -
  have tail: "touches_only c (case x of (kind, reason) \<Rightarrow> spawn_event c trade kind (Some reason) None now)" for x
    by (cases x) simp
  have ends: "touches_only c (bindS (modS (set_tracking c t)) (\<lambda>_. bindS (modS (pop_error (it_orderId trade))) (\<lambda>_.
      case cancel_outcome t' trade of (kind, reason) \<Rightarrow> spawn_event c trade kind (Some reason) None now)))"
    "touches_only c (bindS (modS (set_tracking c t)) (\<lambda>_. modS (spawn (EmitRejected c 3))))"
    "touches_only c (bindS (modS (set_tracking c t)) (\<lambda>_. spawn_event c trade EV_ACCEPTED None None now))" for t t'
    by (intro touches_bind touches_mods tail touches_spawn_event; simp) (intro touches_bind touches_mods tail touches_spawn_event; simp)+
  show ?thesis
    unfolding on_order_status_def
  proof (rule touches_bind)
    fix x :: "OrderTracking option"
    show "touches_only c (case x of None \<Rightarrow> retS ()
     | Some t \<Rightarrow>
         if ot_terminal t then retS ()
         else if accepted_status (it_status trade) \<and> \<not> ot_accepted t
         then bindS (modS (set_tracking c (t\<lparr>ot_accepted := True\<rparr>))) (\<lambda>_.
              spawn_event c trade EV_ACCEPTED None None now)
         else if cancelled_status (it_status trade)
         then bindS (modS (set_tracking c (t\<lparr>ot_terminal := True\<rparr>))) (\<lambda>_.
              bindS (modS (pop_error (it_orderId trade))) (\<lambda>_.
              case cancel_outcome t trade of (kind, reason) \<Rightarrow>
                spawn_event c trade kind (Some reason) None now))
         else if rejected_status (it_status trade)
         then bindS (modS (set_tracking c (t\<lparr>ot_terminal := True\<rparr>))) (\<lambda>_.
              modS (spawn (EmitRejected c 3)))
         else retS ())"
      by (cases x) (simp_all add: ends)
  qed simp
qed

lemma touches_fill: "touches_only c (on_order_fill c trade fill now)"
proof -
  have imp: "touches_only c (imply_accepted c t trade n)" for t n
    unfolding imply_accepted_def by (simp; blast)
  have rep: "touches_only c (report_fill c t trade f n)" for t f n
    unfolding report_fill_def Let_def by (intro touches_bind; simp)
  have tail: "touches_only c (bindS (modS (set_tracking c seen)) (\<lambda>_. bindS (imply_accepted c seen trade (now 0)) (\<lambda>t'.
      bindS (liftS (fill_of c t' trade ex fill (now 1))) (\<lambda>f. report_fill c t' trade f (now 2)))))" for seen ex
    by (intro touches_bind imp rep touches_mods touches_basic)
  show ?thesis
    unfolding on_order_fill_def Let_def
    by (rule touches_bind) (simp_all add: tail [unfolded One_nat_def] split: option.split)
qed

text \<open>
  What the environment has to respect for one order id: the clock reads UTC, an order is put in flight
  only while nothing has been reported for its id, and IB pushes \<open>Inactive\<close> only before it accepts.
\<close>

fun ib_allowed :: "uuid \<Rightarrow> IBBroker \<Rightarrow> ib_input \<Rightarrow> bool" where
  "ib_allowed cid b (I_Priced increments order now) = (is_utc now \<and> (o_id order = cid \<longrightarrow> ib_kinds cid b = [] \<and> ib_tracking b cid = None))"
| "ib_allowed cid b (I_Place acquired order contract ib_order trade now) =
     (is_utc now \<and> (o_id order = cid \<longrightarrow> ib_kinds cid b = [] \<and> ib_tracking b cid = None))"
| "ib_allowed cid b (I_Status c now) = (is_utc now \<and>
     (case (ib_tracking b c, ib_trades b c) of
        (Some t, Some trade) \<Rightarrow> c = cid \<and> rejected_status (it_status trade) \<longrightarrow> ot_terminal t \<or> \<not> ot_accepted t
      | _ \<Rightarrow> True))"
| "ib_allowed cid b (I_Fill c fill now) = (is_utc (now 0) \<and> is_utc (now 1) \<and> is_utc (now 2))"
| "ib_allowed cid b (I_Task now) = is_utc now"
| "ib_allowed cid b _ = True"

lemma rejection_reason_not_Nil: "rejection_reason b trade \<noteq> []"
  by (auto simp: rejection_reason_def rejected_reason_from_trade_def reason_from_error_stash_def split: option.split if_splits)

lemma emit_rejected_ok:
  assumes "is_utc now"
  shows "\<exists>e. snd (emit_rejected_via_inactive c trade now b) = put_ib (BE_Order e) (pop_error (it_orderId trade) b) \<and>
    e_order e = c \<and> e_kind e = EV_REJECTED \<and> e_fill e = None"
proof -
  have "payload_ok EV_REJECTED now (Some (rejection_reason b trade)) None"
    using assms rejection_reason_not_Nil [of b trade] by (simp add: payload_ok_def needs_fill_def falsy_def)
  note ev = ib_order_event_ok [OF this, of c "venue_order_id trade"]
  then show ?thesis
    by (intro exI [of _ "\<lparr>e_order = c, e_venue_order = venue_order_id trade, e_kind = EV_REJECTED,
      e_reason = Some (rejection_reason b trade), e_time = now, e_fill = None\<rparr>"]) (simp add: emit_rejected_via_inactive_def)
qed

text \<open>A step that leaves the tracking, the trades and the reported kinds of the order as they are.\<close>

lemma quiet_extends:
  assumes "ib_ok cid b" "ib_tracking b' cid = ib_tracking b cid" "ib_trades b' cid = ib_trades b cid"
    "ib_kinds cid b' = ib_kinds cid b" "deferred_last cid (ib_tracking b cid) (ib_tasks_of cid b')"
    "ib_fills cid b' = ib_fills cid b"
  shows "extends cid b b' \<and> fill_step cid b b'"
  using assms by (simp add: extends_def ib_ok_def fill_step_def fills_kept_def filled_reported_def)

lemma deferred_tail: "deferred_last cid tr (PutOrderEvent e # ts) \<Longrightarrow> deferred_last cid tr ts"
proof -
  assume "deferred_last cid tr (PutOrderEvent e # ts)"
  then obtain puts d where p: "PutOrderEvent e # ts = map PutOrderEvent puts @ d"
    and d: "d = [] \<or> (\<exists>k t. d = [EmitRejected cid k] \<and> tr = Some t \<and> ot_terminal t)" by (auto simp: deferred_last_def)
  from p d obtain puts' where "ts = map PutOrderEvent puts' @ d" by (cases puts) auto
  with d show ?thesis unfolding deferred_last_def by blast
qed

lemma deferred_head: "deferred_last cid tr (EmitRejected cid k # ts) \<Longrightarrow> ts = [] \<and> (\<exists>t. tr = Some t \<and> ot_terminal t)"
proof -
  assume "deferred_last cid tr (EmitRejected cid k # ts)"
  then obtain puts d where p: "EmitRejected cid k # ts = map PutOrderEvent puts @ d"
    and d: "d = [] \<or> (\<exists>k t. d = [EmitRejected cid k] \<and> tr = Some t \<and> ot_terminal t)" by (auto simp: deferred_last_def)
  from p d show ?thesis by (cases puts) auto
qed

lemma deferred_single: "tr = Some t \<Longrightarrow> ot_terminal t \<Longrightarrow> deferred_last cid tr [EmitRejected cid k]"
  unfolding deferred_last_def by (intro exI [of _ "[]"] exI [of _ "[EmitRejected cid k]"]) simp

lemma run_task_extends:
  assumes ok: "ib_ok cid b" and now: "is_utc now"
  shows "extends cid b (run_task now b) \<and> fill_step cid b (run_task now b)"
proof (cases "ib_tasks b")
  case Nil
  then show ?thesis using same_view_extends [OF ok, of b] same_view_fill_step [of cid b b] by (simp add: run_task_def)
next
  case (Cons t ts)
  have dl: "deferred_last cid (ib_tracking b cid) (ib_tasks_of cid b)" using ok by (simp add: ib_ok_def)
  show ?thesis
  proof (cases t)
    case (PutOrderEvent e)
    then have r: "run_task now b = put_ib (BE_Order e) (b\<lparr>ib_tasks := ts\<rparr>)" by (simp add: run_task_def Cons)
    show ?thesis
    proof (rule quiet_extends [OF ok])
      show "ib_kinds cid (run_task now b) = ib_kinds cid b"
        by (simp add: r ib_kinds_def ib_tasks_of_def Cons PutOrderEvent)
      show "ib_fills cid (run_task now b) = ib_fills cid b"
        by (simp add: r ib_fills_def ib_tasks_of_def Cons PutOrderEvent)
      show "deferred_last cid (ib_tracking b cid) (ib_tasks_of cid (run_task now b))"
        using dl deferred_tail by (auto simp: r ib_tasks_of_def Cons PutOrderEvent split: if_splits)
    qed (simp_all add: r)
  next
    case (EmitRejected c k)
    have own: "filter (\<lambda>t. task_id t = cid) ts = [] \<and> (\<exists>t. ib_tracking b cid = Some t \<and> ot_terminal t)" if "c = cid"
      using dl deferred_head that by (simp add: ib_tasks_of_def Cons EmitRejected)
    show ?thesis
    proof (cases k)
      case (Suc j)
      then have r: "run_task now b = spawn (EmitRejected c j) (b\<lparr>ib_tasks := ts\<rparr>)" by (simp add: run_task_def Cons EmitRejected)
      show ?thesis
      proof (rule quiet_extends [OF ok])
        show "ib_kinds cid (run_task now b) = ib_kinds cid b"
          using own by (auto simp: r ib_kinds_def ib_tasks_of_def Cons EmitRejected)
        show "ib_fills cid (run_task now b) = ib_fills cid b"
          using own by (auto simp: r ib_fills_def ib_tasks_of_def Cons EmitRejected)
        show "deferred_last cid (ib_tracking b cid) (ib_tasks_of cid (run_task now b))"
          using own dl deferred_single by (auto simp: r ib_tasks_of_def Cons EmitRejected)
      qed (simp_all add: r)
    next
      case 0
      let ?b = "b\<lparr>ib_tasks := ts\<rparr>"
      show ?thesis
      proof (cases "ib_trades b c")
        case None
        have "c \<noteq> cid" using own None ok by (auto simp: ib_ok_def)
        then have "same_view cid b (run_task now b)" using None 0
          by (simp add: run_task_def Cons EmitRejected same_view_def ib_tasks_of_def)
        then show ?thesis using same_view_extends [OF ok] same_view_fill_step by blast
      next
        case (Some trade)
        obtain e where e: "snd (emit_rejected_via_inactive c trade now ?b) = put_ib (BE_Order e) (pop_error (it_orderId trade) ?b)"
          "e_order e = c" "e_kind e = EV_REJECTED" "e_fill e = None" using emit_rejected_ok [OF now] by blast
        have r: "run_task now b = put_ib (BE_Order e) (pop_error (it_orderId trade) ?b)"
          using e(1) Some 0 by (simp add: run_task_def Cons EmitRejected)
        show ?thesis
        proof (rule quiet_extends [OF ok])
          show "ib_kinds cid (run_task now b) = ib_kinds cid b"
            using own e by (auto simp: r ib_kinds_def ib_tasks_of_def Cons EmitRejected)
          show "ib_fills cid (run_task now b) = ib_fills cid b"
            using own e by (auto simp: r ib_fills_def ib_tasks_of_def Cons EmitRejected List.map_filter_def)
          have "deferred_last cid tr []" for tr by (simp add: deferred_last_def)
          then show "deferred_last cid (ib_tracking b cid) (ib_tasks_of cid (run_task now b))"
            using own dl by (cases "c = cid") (simp_all add: r ib_tasks_of_def Cons EmitRejected)
        qed (simp_all add: r)
      qed
    qed
  qed
qed

lemma fresh_event_extends:
  assumes ok: "ib_ok cid b" and fresh: "ib_kinds cid b = []" and e: "e_order e = cid"
    and b': "ib_events b' = ib_events b @ [BE_Order e]" "ib_tasks b' = ib_tasks b" "ib_trades b' cid \<noteq> None \<or> ib_tracking b' cid = None"
    and shape: "tracked_shape (ib_tracking b' cid) [e_kind e]" and quiet: "e_fill e = None" "e_kind e \<noteq> EV_FILLED"
    and book: "ib_tracking b cid = None" "\<And>t. ib_tracking b' cid = Some t \<Longrightarrow> ot_seen t = [] \<and> ot_filled t = dzero"
  shows "extends cid b b' \<and> fill_step cid b b'"
proof -
  have t: "ib_tasks_of cid b' = []" using fresh b'(2) by (simp add: ib_kinds_def ib_tasks_of_def)
  then have ks: "ib_kinds cid b' = [e_kind e]" using fresh b' e by (simp add: ib_kinds_def)
  have "ib_fills cid b' = ib_fills cid b"
    using fresh t b' e quiet(1) by (auto simp: ib_fills_def ib_kinds_def kinds_of_order_events List.map_filter_simps)
  then have "fills_kept cid b b'" using quiet(2) by (simp add: fills_kept_def filled_reported_def ks)
  then have "fill_step cid b b'" using book by (cases "ib_tracking b' cid") (auto simp: fill_step_def)
  moreover have "deferred_last cid tr []" for tr by (simp add: deferred_last_def)
  ultimately show ?thesis using fresh t shape b'(3) ks by (auto simp: extends_def ib_ok_def)
qed

lemma submit_priced_extends:
  assumes ok: "ib_ok cid b" and now: "is_utc now" and fresh: "o_id order = cid \<longrightarrow> ib_kinds cid b = [] \<and> ib_tracking b cid = None"
  shows "extends cid b (snd (submit_priced increments order now b)) \<and> fill_step cid b (snd (submit_priced increments order now b))"
proof -
  have same: ?thesis if "snd (submit_priced increments order now b) = b"
    using same_view_extends [OF ok, of b] same_view_fill_step [of cid b b] that by simp
  show ?thesis
  proof (cases "snap_order_prices (ib_policy b) increments order")
    case (Inr snapped)
    then show ?thesis
      by (intro same) (cases "to_contract (o_instrument snapped)"; cases "blive_to_ib_order snapped"; simp add: submit_priced_def)
  next
    case (Inl x)
    show ?thesis
    proof (cases "\<exists>d. x = PriceRuleUnavailable d")
      case False
      then show ?thesis by (intro same) (cases x; simp add: submit_priced_def Inl)
    next
      case True
      then obtain d where d: "x = PriceRuleUnavailable d" by blast
      have "payload_ok EV_REJECTED now (Some (''blive:price-rule-unavailable '' @ d)) None"
        using now by (simp add: payload_ok_def needs_fill_def falsy_def)
      note ev = ib_order_event_ok [OF this, of "o_id order" None]
      then obtain e where e: "snd (submit_priced increments order now b) = put_ib (BE_Order e) b" "e_order e = o_id order" "e_kind e = EV_REJECTED" "e_fill e = None"
        by (simp add: submit_priced_def Inl d)
      show ?thesis
      proof (cases "o_id order = cid")
        case True
        then show ?thesis using fresh e
          by (intro fresh_event_extends [OF ok, of e]) (simp_all add: tracked_shape_def)
      next
        case False
        then have "same_view cid b (snd (submit_priced increments order now b))" using e by (simp add: same_view_def ib_tasks_of_def)
        then show ?thesis using same_view_extends [OF ok] same_view_fill_step by blast
      qed
    qed
  qed
qed

lemma submit_place_extends:
  assumes ok: "ib_ok cid b" and now: "is_utc now" and fresh: "o_id order = cid \<longrightarrow> ib_kinds cid b = [] \<and> ib_tracking b cid = None"
  shows "extends cid b (snd (submit_place acquired order contract ib_order trade now b)) \<and>
    fill_step cid b (snd (submit_place acquired order contract ib_order trade now b))"
proof (cases acquired)
  case (Inl x)
  then show ?thesis using same_view_extends [OF ok, of b] same_view_fill_step [of cid b b] by (simp add: submit_place_def)
next
  case (Inr u)
  have "payload_ok EV_SUBMITTED now None None" using now by (simp add: payload_ok_def needs_fill_def)
  note ev = ib_order_event_ok [OF this, of "o_id order" "venue_order_id trade"]
  define e where "e = \<lparr>e_order = o_id order, e_venue_order = venue_order_id trade, e_kind = EV_SUBMITTED, e_reason = None, e_time = now, e_fill = (None :: Fill option)\<rparr>"
  have r: "snd (submit_place acquired order contract ib_order trade now b) =
      put_ib (BE_Order e) (set_tracking (o_id order) (new_tracking order)
        (b\<lparr>ib_placed := ib_placed b @ [(contract, ib_order)], ib_trades := (ib_trades b)(o_id order \<mapsto> trade)\<rparr>))"
    by (simp add: submit_place_def Inr ev e_def)
  have e: "e_order e = o_id order" "e_kind e = EV_SUBMITTED" "e_fill e = None" by (simp_all add: e_def)
  show ?thesis
  proof (cases "o_id order = cid")
    case True
    with fresh have "ib_kinds cid b = []" "ib_tracking b cid = None" by simp_all
    then show ?thesis unfolding r using True e
      by (intro fresh_event_extends [OF ok, of e]) (auto simp: tracked_shape_def new_tracking_def)
  next
    case False
    then have "same_view cid b (snd (submit_place acquired order contract ib_order trade now b))"
      using e by (simp add: r same_view_def ib_tasks_of_def)
    then show ?thesis using same_view_extends [OF ok] same_view_fill_step by blast
  qed
qed

lemma same_view_updates:
  "same_view cid b (b\<lparr>ib_cancelled := xs\<rparr>)" "same_view cid b (b\<lparr>ib_codes := cs, ib_errors := es\<rparr>)"
  "ib_trades b c \<noteq> None \<Longrightarrow> same_view cid b (b\<lparr>ib_trades := (ib_trades b)(c \<mapsto> trade)\<rparr>)"
  by (auto simp: same_view_def ib_tasks_of_def)

lemma on_account_value_view: "same_view cid b (on_account_value av b)"
  by (simp add: on_account_value_def same_view_def ib_tasks_of_def)

lemma on_account_values_view: "same_view cid b (fold on_account_value avs b)"
  by (induction avs arbitrary: b) (auto intro: same_view_trans on_account_value_view)

lemma put_ib_connection_view: "same_view cid b (snd (put_ib_connection c d now b))"
  by (cases "mk_ConnectionStatus \<lparr>c_connected = c, c_detail = d, c_time = now\<rparr>")
    (simp_all add: put_ib_connection_def same_view_def ib_tasks_of_def)

lemma same_view_account:
  "same_view cid b1 b \<Longrightarrow> same_view cid b1 (b\<lparr>ib_connected := c, ib_update_task := u\<rparr>)"
  "same_view cid b1 b \<Longrightarrow> same_view cid b1 (b\<lparr>ib_update_task := u\<rparr>)"
  "same_view cid b1 b \<Longrightarrow> same_view cid b1 (b\<lparr>ib_connected := c, ib_values := v, ib_last_snapshot := l, ib_errors := e\<rparr>)"
  "same_view cid b1 b \<Longrightarrow> same_view cid b1 (b\<lparr>ib_last_snapshot := l\<rparr>)"
  "same_view cid b1 b \<Longrightarrow> same_view cid b1 (put_ib (BE_Account a) b)"
  by (simp_all add: same_view_def ib_tasks_of_def)

lemma ib_connect_view: "same_view cid b (snd (ib_connect cc avs now b))"
proof (cases "ib_connected b")
  case False
  let ?b = "(fold on_account_value avs b)\<lparr>ib_connected := True, ib_update_task := True\<rparr>"
  have "same_view cid b ?b" by (intro same_view_account on_account_values_view)
  then show ?thesis using False same_view_trans [OF _ put_ib_connection_view, of cid b ?b]
    by (cases cc) (simp_all add: ib_connect_def)
qed (simp add: ib_connect_def)

lemma ib_disconnect_view: "same_view cid b (snd (ib_disconnect cd now b))"
proof (cases "ib_connected b")
  case True
  let ?b = "b\<lparr>ib_update_task := False, ib_connected := False, ib_values := [], ib_last_snapshot := None, ib_errors := Map.empty\<rparr>"
  have "same_view cid b ?b" by (simp add: same_view_def ib_tasks_of_def)
  then show ?thesis using True same_view_trans [OF _ put_ib_connection_view, of cid b ?b]
    by (cases cd) (simp_all add: ib_disconnect_def same_view_account)
qed (simp add: ib_disconnect_def)

lemma account_tick_view: "same_view cid b (snd (account_update_tick now b))"
proof (cases "ib_values b = []")
  case False
  then show ?thesis by (cases rule: tick_cases [where now = now]) (simp_all add: same_view_account)
qed (simp add: account_update_tick_def)

lemma account_wake_view: "same_view cid b (account_update_wake now b)"
  using account_tick_view [of cid b now]
  by (auto simp: account_update_wake_def same_view_account split: prod.split sum.split)

lemma ib_step_extends:
  assumes ok: "ib_ok cid b" and al: "ib_allowed cid b i"
  shows "extends cid b (ib_step b i) \<and> fill_step cid b (ib_step b i)"
proof -
  have same: "extends cid b b' \<and> fill_step cid b b'" if "same_view cid b b'" for b'
    using same_view_extends [OF ok that] same_view_fill_step [OF that] by simp
  show ?thesis
  proof (cases i)
    case (I_Check order)
    have "snd (submit_check order b) = b"
      by (cases "ib_trades b (o_id order)") (simp_all add: submit_check_def require_connected_def bindS_def)
    then show ?thesis by (simp add: I_Check same)
  next
    case (I_Priced increments order now)
    with al submit_priced_extends [OF ok, of now order increments] show ?thesis by simp
  next
    case (I_Place acquired order contract ib_order trade now)
    with al submit_place_extends [OF ok, of now order acquired contract ib_order trade] show ?thesis by simp
  next
    case (I_Cancel c acquired)
    have "same_view cid b (snd (ib_cancel c acquired b))"
      by (cases "ib_trades b c"; cases acquired) (simp_all add: ib_cancel_def require_connected_def bindS_def same_view_updates)
    then show ?thesis by (simp add: I_Cancel same)
  next
    case (I_Replace c new)
    then show ?thesis by (simp add: ib_replace_def same)
  next
    case (I_Trade c trade)
    then show ?thesis by (cases "ib_trades b c = None") (simp_all add: same same_view_updates)
  next
    case (I_Status c now)
    show ?thesis
    proof (cases "ib_trades b c")
      case None
      then show ?thesis by (simp add: I_Status same)
    next
      case (Some trade)
      show ?thesis
      proof (cases "c = cid")
        case True
        with al I_Status Some have "is_utc now" "rejected_status (it_status trade) \<Longrightarrow> \<forall>t. ib_tracking b cid = Some t \<longrightarrow> ot_terminal t \<or> \<not> ot_accepted t"
          by auto
        from on_order_status_effect [OF this(1) ok this(2)] Some True show ?thesis by (simp add: I_Status)
      next
        case False
        then show ?thesis using touches_status [of c trade now] Some by (simp add: I_Status touches_only_def same)
      qed
    qed
  next
    case (I_Fill c fill now)
    show ?thesis
    proof (cases "ib_trades b c")
      case None
      then show ?thesis by (simp add: I_Fill same)
    next
      case (Some trade)
      show ?thesis
      proof (cases "c = cid")
        case True
        with al I_Fill on_order_fill_effect [of now cid b trade fill] ok Some show ?thesis by simp
      next
        case False
        then show ?thesis using touches_fill [of c trade fill now] Some by (simp add: I_Fill touches_only_def same)
      qed
    qed
  next
    case (I_Error reqId errorCode errorString)
    then show ?thesis by (simp add: on_ib_error_def same same_view_updates)
  next
    case (I_Task now)
    with al run_task_extends [OF ok, of now] show ?thesis by simp
  next
    case (I_Connect client_connect initial_values now)
    then show ?thesis by (simp add: same ib_connect_view)
  next
    case (I_Disconnect client_disconnect now)
    then show ?thesis by (simp add: same ib_disconnect_view)
  next
    case (I_Value av)
    then show ?thesis by (simp add: same on_account_value_view)
  next
    case (I_Wake now)
    then show ?thesis by (simp add: same account_wake_view)
  qed
qed

section \<open>Conformance\<close>

definition ib_emit :: "uuid \<Rightarrow> IBBroker \<Rightarrow> ib_input \<Rightarrow> IBBroker \<times> OrderEventKind list" where
  "ib_emit cid b i = (let b' = ib_step b i in (b', drop (length (ib_kinds cid b)) (ib_kinds cid b')))"

definition ib_fsm :: "uuid \<Rightarrow> IBBroker \<Rightarrow> OrderState" where
  "ib_fsm cid b = (case kinds_run SUBMIT_PENDING (ib_kinds cid b) of None \<Rightarrow> SUBMIT_PENDING | Some s \<Rightarrow> s)"

lemma ib_ok_run: "ib_ok cid b \<Longrightarrow> kinds_run SUBMIT_PENDING (ib_kinds cid b) = Some (ib_fsm cid b)"
  by (auto simp: ib_ok_def tracked_shape_def ib_fsm_def split: option.splits)

interpretation ib_orders: order_emitter "ib_ok cid" "ib_emit cid" "ib_allowed cid" "ib_fsm cid" for cid
proof
  fix b i
  assume ok: "ib_ok cid b" and al: "ib_allowed cid b i"
  obtain new where b': "ib_ok cid (ib_step b i)" "ib_kinds cid (ib_step b i) = ib_kinds cid b @ new"
    using ib_step_extends [OF ok al] by (auto simp: extends_def)
  show "ib_ok cid (fst (ib_emit cid b i))" using b'(1) by (simp add: ib_emit_def Let_def)
  have "kinds_run SUBMIT_PENDING (ib_kinds cid b @ new) = Some (ib_fsm cid (ib_step b i))"
    using ib_ok_run [OF b'(1)] b'(2) by simp
  then have "kinds_run (ib_fsm cid b) new = Some (ib_fsm cid (ib_step b i))"
    using ib_ok_run [OF ok] by (simp add: kinds_run_append)
  then show "kinds_run (ib_fsm cid b) (snd (ib_emit cid b i)) = Some (ib_fsm cid (fst (ib_emit cid b i)))"
    by (simp add: ib_emit_def Let_def b'(2))
qed


lemma ib_init_ok: "ib_ok cid (ib_init a h p pol)"
  by (simp add: ib_ok_def ib_init_def ib_kinds_def ib_tasks_of_def tracked_shape_def deferred_last_def)

fun ib_run :: "IBBroker \<Rightarrow> ib_input list \<Rightarrow> IBBroker" where
  "ib_run b [] = b"
| "ib_run b (i # is) = ib_run (ib_step b i) is"

fun ib_run_allowed :: "uuid \<Rightarrow> IBBroker \<Rightarrow> ib_input list \<Rightarrow> bool" where
  "ib_run_allowed cid b [] = True"
| "ib_run_allowed cid b (i # is) = (ib_allowed cid b i \<and> ib_run_allowed cid (ib_step b i) is)"

lemma ib_run_emit: "ib_run b is = fst (ib_orders.emit_run cid b is)" "ib_run_allowed cid b is = ib_orders.all_allowed cid b is"
  by (induction "is" arbitrary: b) (simp_all add: ib_emit_def Let_def split_beta)

lemma ib_run_ok: "ib_ok cid b \<Longrightarrow> ib_run_allowed cid b is \<Longrightarrow> ib_ok cid (ib_run b is)"
  unfolding ib_run_emit [where cid = cid] by (rule ib_orders.emit_run_ok)

text \<open>The book of fills: every reported execution once, each a valid fill of the order, the filled quantity their sum.\<close>

definition fills_ok :: "uuid \<Rightarrow> IBBroker \<Rightarrow> bool" where
  "fills_ok cid b \<longleftrightarrow>
     (case ib_tracking b cid of
        None \<Rightarrow> ib_fills cid b = [] \<and> \<not> filled_reported cid b
      | Some t \<Rightarrow> distinct (map f_exec (ib_fills cid b)) \<and> set (map f_exec (ib_fills cid b)) \<subseteq> set (ot_seen t) \<and>
          ot_filled t = foldl dadd dzero (map f_quantity (ib_fills cid b)) \<and>
          (filled_reported cid b \<longrightarrow> ot_total t \<le> ot_filled t)) \<and>
     (\<forall>f \<in> set (ib_fills cid b). mk_Fill f = Inr f \<and> f_order f = cid)"

lemma live_not_filled: "ib_ok cid b \<Longrightarrow> ib_tracking b cid = Some t \<Longrightarrow> \<not> ot_terminal t \<Longrightarrow> \<not> filled_reported cid b"
  by (auto simp: ib_ok_def tracked_shape_def filled_reported_def split: if_splits)

lemma fills_ok_step:
  assumes ok: "ib_ok cid b" "fills_ok cid b" and step: "fill_step cid b b'"
  shows "fills_ok cid b'"
proof -
  consider (keep) "map_option fill_book (ib_tracking b' cid) = map_option fill_book (ib_tracking b cid)" "fills_kept cid b b'"
    | (start) t where "ib_tracking b cid = None" "ib_tracking b' cid = Some t" "ot_seen t = []" "ot_filled t = dzero" "fills_kept cid b b'"
    | (book) t t' x where "ib_tracking b cid = Some t" "\<not> ot_terminal t" "ib_tracking b' cid = Some t'" "fill_booked cid t t' x b b'"
    using step by (auto simp: fill_step_def)
  then show ?thesis
  proof cases
    case keep
    then show ?thesis using ok(2)
      by (cases "ib_tracking b cid"; cases "ib_tracking b' cid") (auto simp: fills_ok_def fills_kept_def fill_book_def)
  next
    case start
    then show ?thesis using ok(2) by (auto simp: fills_ok_def fills_kept_def)
  next
    case book
    note nf = live_not_filled [OF ok(1) book(1,2)]
    from book(4) consider (lost) "ot_total t' = ot_total t" "ot_seen t' = x # ot_seen t" "ot_filled t' = ot_filled t" "fills_kept cid b b'"
      | (new) f where "ot_total t' = ot_total t" "ot_seen t' = x # ot_seen t" "x \<notin> set (ot_seen t)" "mk_Fill f = Inr f" "f_order f = cid"
        "f_exec f = x" "ot_filled t' = dadd (ot_filled t) (f_quantity f)" "ib_fills cid b' = ib_fills cid b @ [f]"
        "filled_reported cid b' \<longrightarrow> filled_reported cid b \<or> ot_total t \<le> ot_filled t'"
      unfolding fill_booked_def by (elim conjE disjE exE) blast+
    then show ?thesis
    proof cases
      case lost
      then show ?thesis using ok(2) book by (auto simp: fills_ok_def fills_kept_def)
    next
      case new
      have "distinct (map f_exec (ib_fills cid b))" "set (map f_exec (ib_fills cid b)) \<subseteq> set (ot_seen t)"
        "ot_filled t = foldl dadd dzero (map f_quantity (ib_fills cid b))"
        "\<forall>f \<in> set (ib_fills cid b). mk_Fill f = Inr f \<and> f_order f = cid"
        using ok(2) book(1) by (simp_all add: fills_ok_def)
      then show ?thesis using book(3) new nf by (auto simp: fills_ok_def)
    qed
  qed
qed

lemma fills_ok_init: "fills_ok cid (ib_init a h p pol)"
  by (simp add: fills_ok_def ib_init_def ib_fills_def ib_tasks_of_def filled_reported_def ib_kinds_def List.map_filter_simps)

lemma ib_run_fills: "ib_ok cid b \<Longrightarrow> fills_ok cid b \<Longrightarrow> ib_run_allowed cid b is \<Longrightarrow> fills_ok cid (ib_run b is)"
proof (induction "is" arbitrary: b)
  case (Cons i "is")
  then have "extends cid b (ib_step b i)" "fill_step cid b (ib_step b i)" using ib_step_extends [of cid b i] by simp_all
  with Cons fills_ok_step show ?case by (simp add: extends_def)
qed simp

lemma snap_keeps_id: "snap_order_prices policy increments order = Inr s \<Longrightarrow> o_id s = o_id order"
  by (auto simp: snap_order_prices_def mk_Order_def validated_eq_Inr split: if_splits)

section \<open>Properties\<close>

text \<open>C1: the IB broker honours the order machine: for any interleaving of the engine's calls, IB's pushes, errors, account
  updates and the event loop's tasks, the events published for an order id are those of a run of the machine from
  SUBMIT_CALL on, provided the clock reads UTC, the id is put in flight once and IB reports Inactive for it only before
  it was accepted.\<close>

theorem ib_events_conform:
  assumes "ib_run_allowed cid (ib_init account host port policy) is"
  shows "\<exists>ts s. fsm_run INITIALIZED (SUBMIT_CALL # ts) = Some (s, kinds_of cid (ib_events (ib_run (ib_init account host port policy) is)))"
proof -
  let ?b = "ib_run (ib_init account host port policy) is"
  have "kinds_run SUBMIT_PENDING (ib_kinds cid ?b) \<noteq> None"
    using ib_ok_run [OF ib_run_ok [OF ib_init_ok assms]] by simp
  then obtain s where "kinds_run SUBMIT_PENDING (kinds_of cid (ib_events ?b)) = Some s"
    by (auto simp: ib_kinds_def kinds_run_append split: option.splits)
  from kinds_fsm_run [OF this] obtain ts where "fsm_run SUBMIT_PENDING ts = Some (s, kinds_of cid (ib_events ?b))" by blast
  then show ?thesis by (intro exI [of _ ts] exI [of _ s]) simp
qed

definition ex_trade :: "string \<Rightarrow> TradeLogEntry list \<Rightarrow> IbTrade" where
  "ex_trade status entries = \<lparr>it_orderId = 5, it_status = status, it_whyHeld = [], it_log = entries\<rparr>"

definition ex_mkt :: Order where
  "ex_mkt = ex_limit_order\<lparr>o_type := MKT, o_limit := None\<rparr>"

definition ex_ib_order :: IbOrder where
  "ex_ib_order = \<lparr>ob_kind = MarketOrder, ob_action = ''BUY'', ob_quantity = 3, ob_algoStrategy = [], ob_algoParams = [],
     ob_tif = ''DAY'', ob_orderRef = ''7''\<rparr>"

definition ex_ib_fill :: "string \<Rightarrow> string \<Rightarrow> IbFill" where
  "ex_ib_fill exec shares =
     \<lparr>if_execution = Some \<lparr>ex_execId = exec, ex_shares = shares, ex_price = ''10.1'', ex_time = None\<rparr>,
      if_commission = Some (''0.0'', [])\<rparr>"

definition ex_ib_inputs :: "ib_input list" where
  "ex_ib_inputs =
     [I_Place (Inr ()) ex_mkt ex_cac_contract ex_ib_order (ex_trade ''Submitted'' []) (utc 1), I_Status 7 (utc 2),
      I_Trade 7 (ex_trade ''Cancelled'' [\<lparr>le_errorCode = 399, le_message = ''held''\<rparr>]), I_Status 7 (utc 3), I_Task (utc 4), I_Task (utc 4)]"

lemma ex_ib_run:
  "ib_run_allowed 7 (ib_init ''DU1'' ''localhost'' 4002 NEAREST) ex_ib_inputs"
  "kinds_of 7 (ib_events (ib_run (ib_init ''DU1'' ''localhost'' 4002 NEAREST) ex_ib_inputs)) =
     [EV_SUBMITTED, EV_ACCEPTED, EV_CANCELED]"
  by code_simp+

theorem ib_events_conform_witness:
  "\<exists>ts s. fsm_run INITIALIZED (SUBMIT_CALL # ts) = Some (s, [EV_SUBMITTED, EV_ACCEPTED, EV_CANCELED])"
  using ib_events_conform [OF ex_ib_run(1)] by (simp only: ex_ib_run(2))

text \<open>C3: executions are booked once: under the same conditions every execution id is reported in at most one fill, every fill
  reported is a valid fill of that order, and FILLED is reported only when the reported quantities (added with the
  decimal context's rounding) reach the order's.\<close>

theorem executions_booked_once:
  assumes "ib_run_allowed cid (ib_init account host port policy) is"
  defines "b \<equiv> ib_run (ib_init account host port policy) is"
  shows "distinct (map f_exec (ib_fills cid b)) \<and> list_all (\<lambda>f. mk_Fill f = Inr f \<and> f_order f = cid) (ib_fills cid b) \<and>
    (if EV_FILLED \<in> set (ib_kinds cid b)
     then \<exists>t. ib_tracking b cid = Some t \<and> ot_total t \<le> foldl dadd dzero (map f_quantity (ib_fills cid b)) else True)"
proof -
  have "fills_ok cid b" unfolding b_def by (rule ib_run_fills [OF ib_init_ok fills_ok_init assms(1)])
  then show ?thesis
    by (cases "ib_tracking b cid") (auto simp: fills_ok_def filled_reported_def list_all_iff)
qed

definition ex_fill_inputs :: "ib_input list" where
  "ex_fill_inputs =
     [I_Place (Inr ()) ex_mkt ex_cac_contract ex_ib_order (ex_trade ''Submitted'' []) (utc 1),
      I_Fill 7 (ex_ib_fill ''e1'' ''1.0'') (\<lambda>_. utc 2), I_Fill 7 (ex_ib_fill ''e1'' ''1.0'') (\<lambda>_. utc 3),
      I_Fill 7 (ex_ib_fill ''e2'' ''2.0'') (\<lambda>_. utc 4), I_Task (utc 5)]"

theorem executions_booked_once_witness:
  "distinct (map f_exec (ib_fills 7 (ib_run (ib_init ''DU1'' ''localhost'' 4002 NEAREST) ex_fill_inputs)))"
proof -
  have "ib_kinds 7 (ib_init ''DU1'' ''localhost'' 4002 NEAREST) = []" "ib_tracking (ib_init ''DU1'' ''localhost'' 4002 NEAREST) 7 = None"
    by (simp_all add: ib_init_def ib_kinds_def ib_tasks_of_def)
  then have "ib_run_allowed 7 (ib_init ''DU1'' ''localhost'' 4002 NEAREST) ex_fill_inputs"
    by (simp add: ex_fill_inputs_def del: ib_step.simps)
  from executions_booked_once [OF this] show ?thesis by simp
qed

text \<open>A halt after acceptance is reported as a rejection: when IB pushes Inactive for an order already accepted and still
  working, the broker reports REJECTED, which is no event sequence of the order machine, although the comment on the
  status says that a rejection signal is asked for first.\<close>

theorem late_inactive_breaks_fsm:
  assumes "ib_ok cid b" "ib_tracking b cid = Some t" "ot_accepted t" "\<not> ot_terminal t"
    and "ib_trades b cid = Some trade" "it_status trade = ''Inactive''"
  shows "ib_kinds cid (ib_step b (I_Status cid now)) = ib_kinds cid b @ [EV_REJECTED] \<and>
    kinds_run SUBMIT_PENDING (ib_kinds cid (ib_step b (I_Status cid now))) = None"
proof -
  have r: "ib_step b (I_Status cid now) = spawn (EmitRejected cid 3) (set_tracking cid (t\<lparr>ot_terminal := True\<rparr>) b)"
    using assms by (simp add: on_order_status_def accepted_status_def cancelled_status_def rejected_status_def)
  then have k: "ib_kinds cid (ib_step b (I_Status cid now)) = ib_kinds cid b @ [EV_REJECTED]"
    by (simp add: ib_kinds_def ib_tasks_of_def)
  obtain n where n: "ib_kinds cid b = EV_SUBMITTED # EV_ACCEPTED # replicate n EV_PARTIAL_FILL"
    using assms(1-4) by (auto simp: ib_ok_def tracked_shape_def)
  obtain s where "s \<in> {ACCEPTED, PARTIALLY_FILLED}" "kinds_run SUBMIT_PENDING (ib_kinds cid b) = Some s"
    using working_run [of n] n by auto
  then have "kinds_run SUBMIT_PENDING (ib_kinds cid b @ [EV_REJECTED]) = None" by (auto simp: kinds_run_append)
  with k show ?thesis by (simp only: simp_thms)
qed

definition ex_halted :: IBBroker where
  "ex_halted = ib_run (ib_init ''DU1'' ''localhost'' 4002 NEAREST)
     [I_Place (Inr ()) ex_mkt ex_cac_contract ex_ib_order (ex_trade ''Submitted'' []) (utc 1), I_Status 7 (utc 2),
      I_Trade 7 (ex_trade ''Inactive'' [])]"

theorem late_inactive_breaks_fsm_witness:
  "kinds_run SUBMIT_PENDING (ib_kinds 7 (ib_step ex_halted (I_Status 7 (utc 3)))) = None"
proof -
  have al: "ib_run_allowed 7 (ib_init ''DU1'' ''localhost'' 4002 NEAREST)
     [I_Place (Inr ()) ex_mkt ex_cac_contract ex_ib_order (ex_trade ''Submitted'' []) (utc 1), I_Status 7 (utc 2),
      I_Trade 7 (ex_trade ''Inactive'' [])]" by code_simp
  have ok: "ib_ok 7 ex_halted" unfolding ex_halted_def by (rule ib_run_ok [OF ib_init_ok al])
  have tr: "map_option (\<lambda>t. (ot_accepted t, ot_terminal t)) (ib_tracking ex_halted 7) = Some (True, False)"
    "map_option it_status (ib_trades ex_halted 7) = Some ''Inactive''" by code_simp+
  then obtain t trade where t: "ib_tracking ex_halted 7 = Some t" "ot_accepted t" "\<not> ot_terminal t"
    "ib_trades ex_halted 7 = Some trade" "it_status trade = ''Inactive''" by auto
  from late_inactive_breaks_fsm [OF ok t, of "utc 3"] show ?thesis by blast
qed

text \<open>What a submit does: on a connected broker with a fresh order id and a routable order, a price table that is
  unavailable gives a REJECTED event and nothing on the wire, and a snapped order of a supported type is placed exactly
  once, with the contract and IB order it maps to and the id as its reference, tracked, and reported SUBMITTED.\<close>

theorem submit_outcomes:
  assumes "ib_connected b" "ib_trades b (o_id order) = None" "is_utc now"
  shows "case snap_order_prices (ib_policy b) increments order of
      Inl (PriceRuleUnavailable d) \<Rightarrow>
        (\<exists>e. ib_submit increments acquired trade order now b = (Inr (o_id order), put_ib (BE_Order e) b) \<and>
          e_order e = o_id order \<and> e_kind e = EV_REJECTED)
    | Inl x \<Rightarrow> ib_submit increments acquired trade order now b = (Inl x, b)
    | Inr snapped \<Rightarrow>
        (case (to_contract (o_instrument snapped), blive_to_ib_order snapped, acquired) of
           (Inr c, Inr w, Inr _) \<Rightarrow>
             \<exists>b'. ib_submit increments acquired trade order now b = (Inr (o_id snapped), b') \<and>
               ib_placed b' = ib_placed b @ [(c, w\<lparr>ob_orderRef := show_uuid (o_id snapped)\<rparr>)] \<and>
               ib_tracking b' = (ib_tracking b)(o_id snapped \<mapsto> new_tracking snapped) \<and>
               ib_kinds (o_id snapped) b' = kinds_of (o_id snapped) (ib_events b) @ [EV_SUBMITTED] @ map task_kind (ib_tasks_of (o_id snapped) b)
         | _ \<Rightarrow> \<exists>x. ib_submit increments acquired trade order now b = (Inl x, b))"
proof -
  have chk: "submit_check order b = (Inr (), b)"
    using assms(1,2) by (simp add: submit_check_def require_connected_def bindS_def)
  have sub: "ib_submit increments acquired trade order now b = (case submit_priced increments order now b of
      (Inl x, b') \<Rightarrow> (Inl x, b')
    | (Inr None, b') \<Rightarrow> (Inr (o_id order), b')
    | (Inr (Some (s, c, w)), b') \<Rightarrow> submit_place acquired s c w trade now b')"
    by (simp add: ib_submit_def bindS_def chk split: prod.split sum.split option.split)
  show ?thesis
  proof (cases "snap_order_prices (ib_policy b) increments order")
    case (Inl x)
    show ?thesis
    proof (cases "\<exists>d. x = PriceRuleUnavailable d")
      case True
      then obtain d where d: "x = PriceRuleUnavailable d" by blast
      have "payload_ok EV_REJECTED now (Some (''blive:price-rule-unavailable '' @ d)) None"
        using assms(3) by (simp add: payload_ok_def needs_fill_def falsy_def)
      note ev = ib_order_event_ok [OF this, of "o_id order" None]
      then obtain e where "submit_priced increments order now b = (Inr None, put_ib (BE_Order e) b)" "e_order e = o_id order" "e_kind e = EV_REJECTED"
        by (simp add: submit_priced_def Inl d)
      then show ?thesis unfolding Inl d by (auto simp: sub)
    next
      case False
      then show ?thesis by (cases x) (simp_all add: Inl sub submit_priced_def)
    qed
  next
    case (Inr s)
    have "payload_ok EV_SUBMITTED now None None" using assms(3) by (simp add: payload_ok_def needs_fill_def)
    note ev = ib_order_event_ok [OF this]
    have placed: "\<exists>b'. submit_place (Inr ()) s c w trade now b = (Inr (o_id s), b') \<and> ib_placed b' = ib_placed b @ [(c, w)] \<and>
        ib_tracking b' = (ib_tracking b)(o_id s \<mapsto> new_tracking s) \<and>
        ib_kinds (o_id s) b' = kinds_of (o_id s) (ib_events b) @ [EV_SUBMITTED] @ map task_kind (ib_tasks_of (o_id s) b)" for c w
      by (simp add: submit_place_def ev ib_kinds_def ib_tasks_of_def put_ib_def set_tracking_def)
    have sp: "submit_priced increments order now b = (case (to_contract (o_instrument s), blive_to_ib_order s) of
        (Inr c, Inr w) \<Rightarrow> (Inr (Some (s, c, w\<lparr>ob_orderRef := show_uuid (o_id order)\<rparr>)), b)
      | (Inl x, _) \<Rightarrow> (Inl x, b) | (_, Inl x) \<Rightarrow> (Inl x, b))"
      by (cases "to_contract (o_instrument s)"; cases "blive_to_ib_order s") (simp_all add: submit_priced_def Inr)
    have id: "o_id s = o_id order" using Inr by (rule snap_keeps_id)
    note sn = Inr
    show ?thesis
    proof (cases "to_contract (o_instrument s)")
      case (Inl x)
      then show ?thesis by (simp add: sn sub sp)
    next
      case (Inr c)
      note cn = Inr
      show ?thesis
      proof (cases "blive_to_ib_order s")
        case (Inl x)
        then show ?thesis by (simp add: sn sub sp cn)
      next
        case (Inr w)
        note wn = Inr
        show ?thesis
        proof (cases acquired)
          case (Inl x)
          have "ib_submit increments acquired trade order now b = (Inl x, b)"
            by (simp add: sub sp cn wn submit_place_def) (simp add: Inl)
          then show ?thesis by (simp add: sn cn wn Inl)
        next
          case (Inr u)
          have "ib_submit increments acquired trade order now b =
              submit_place (Inr ()) s c (w\<lparr>ob_orderRef := show_uuid (o_id order)\<rparr>) trade now b"
            by (simp add: sub sp cn wn) (simp add: Inr)
          then show ?thesis using placed [of c "w\<lparr>ob_orderRef := show_uuid (o_id order)\<rparr>"]
            by (simp only: sn cn wn Inr id sum.case prod.case)
        qed
      qed
    qed
  qed
qed


theorem submit_outcomes_witness:
  "\<exists>b'. ib_submit (Inl (PriceRuleUnavailable ''x'')) (Inr ()) (ex_trade ''PendingSubmit'' []) ex_mkt (utc 1) ex_ib = (Inr 7, b') \<and>
     map snd (ib_placed b') = [ex_ib_order\<lparr>ob_orderRef := show_uuid 7\<rparr>]"
proof -
  have hyps: "ib_connected ex_ib" "ib_trades ex_ib (o_id ex_mkt) = None" "is_utc (utc 1)"
    by (simp_all add: ex_ib_def ib_init_def)
  have facts: "snap_order_prices (ib_policy ex_ib) (Inl (PriceRuleUnavailable ''x'')) ex_mkt = Inr ex_mkt"
    "to_contract (o_instrument ex_mkt) = Inr ex_cac_contract" "o_id ex_mkt = 7" "ib_placed ex_ib = []"
    by (simp_all add: snap_order_prices_def ex_mkt_def ex_limit_order_def ex_cac_facts(2) ex_ib_def ib_init_def)
  have w: "blive_to_ib_order ex_mkt = Inr (ex_ib_order\<lparr>ob_orderRef := []\<rparr>)" by code_simp
  from submit_outcomes [OF hyps, of "Inl (PriceRuleUnavailable ''x'')" "Inr ()" "ex_trade ''PendingSubmit'' []"]
  show ?thesis by (auto simp: facts w)
qed


text \<open>The reason of a rejection survives the order of IB's pushes: when Inactive arrives with nothing in the trade's
  log and the error follows for the same order id, the deferred task publishes REJECTED with that error's code and
  text, and forgets the error.\<close>

theorem deferred_rejection_has_reason:
  assumes "ib_tracking b cid = Some t" "\<not> ot_terminal t" "ib_trades b cid = Some trade" "it_status trade = ''Inactive''"
    and "it_log trade = []" "it_whyHeld trade = []" "0 < it_orderId trade" "ib_tasks b = []" "is_utc now"
  shows "\<exists>b' e. ib_run b [I_Status cid now, I_Error (it_orderId trade) code message, I_Task now, I_Task now, I_Task now, I_Task now] = b' \<and>
    ib_events b' = ib_events b @ [BE_Order e] \<and> e_order e = cid \<and> e_kind e = EV_REJECTED \<and>
    e_reason e = Some (ib_reason code message) \<and> ib_errors b' (it_orderId trade) = None \<and> ib_tasks b' = []"
proof -
  let ?b1 = "(set_tracking cid (t\<lparr>ot_terminal := True\<rparr>) b)"
  have s1: "ib_step b (I_Status cid now) = spawn (EmitRejected cid 3) ?b1"
    using assms by (simp add: on_order_status_def accepted_status_def cancelled_status_def rejected_status_def)
  let ?b2 = "on_ib_error (it_orderId trade) code message ?b1"
  have s2: "ib_step (spawn (EmitRejected cid 3) ?b1) (I_Error (it_orderId trade) code message) = spawn (EmitRejected cid 3) ?b2"
    by (simp add: on_ib_error_def spawn_def set_tracking_def)
  have tasks: "ib_tasks ?b2 = []" "ib_trades ?b2 cid = Some trade" "ib_events ?b2 = ib_events b"
    using assms by (simp_all add: on_ib_error_def)
  have nest: "run_task now (spawn (EmitRejected cid (Suc k)) ?b2) = spawn (EmitRejected cid k) ?b2" for k
    using tasks by (simp add: run_task_def spawn_def)
  have three: "(3 :: nat) = Suc (Suc (Suc 0))" by simp
  have reason: "rejection_reason ?b2 trade = ib_reason code message"
    using assms by (simp add: rejection_reason_def rejected_reason_from_trade_def reason_from_error_stash_def on_ib_error_def)
  let ?e = "\<lparr>e_order = cid, e_venue_order = venue_order_id trade, e_kind = EV_REJECTED, e_reason = Some (ib_reason code message), e_time = now, e_fill = None\<rparr>"
  have "payload_ok EV_REJECTED now (Some (ib_reason code message)) None"
    using assms(9) by (simp add: payload_ok_def needs_fill_def falsy_def)
  note ev = ib_order_event_ok [OF this, of cid "venue_order_id trade"]
  have last: "run_task now (spawn (EmitRejected cid 0) ?b2) = put_ib (BE_Order ?e) (pop_error (it_orderId trade) ?b2)"
  proof -
    have "spawn (EmitRejected cid 0) ?b2 = ?b2\<lparr>ib_tasks := [EmitRejected cid 0]\<rparr>" using tasks by (simp add: spawn_def)
    moreover have "?b2\<lparr>ib_tasks := []\<rparr> = ?b2" using tasks by simp
    ultimately show ?thesis using tasks(2) by (simp add: run_task_def emit_rejected_via_inactive_def reason ev)
  qed
  have "ib_run b [I_Status cid now, I_Error (it_orderId trade) code message, I_Task now, I_Task now, I_Task now, I_Task now] =
      put_ib (BE_Order ?e) (pop_error (it_orderId trade) ?b2)"
    by (simp only: ib_run.simps s1 s2 ib_step.simps(10), simp only: three nest last)
  then show ?thesis
    by (intro exI [of _ "put_ib (BE_Order ?e) (pop_error (it_orderId trade) ?b2)"] exI [of _ ?e])
      (simp add: tasks, simp add: pop_error_def put_ib_def)
qed


theorem deferred_rejection_has_reason_witness:
  "\<exists>b' e. ib_run (ex_ib\<lparr>ib_trades := [7 \<mapsto> ex_trade ''Inactive'' []], ib_tracking := [7 \<mapsto> new_tracking ex_mkt]\<rparr>)
      [I_Status 7 (utc 2), I_Error 5 201 ''PRIIPs'', I_Task (utc 2), I_Task (utc 2), I_Task (utc 2), I_Task (utc 2)] = b' \<and>
    ib_events b' = [BE_Order e] \<and> e_reason e = Some (ib_reason 201 ''PRIIPs'')"
proof -
  let ?b = "ex_ib\<lparr>ib_trades := [7 \<mapsto> ex_trade ''Inactive'' []], ib_tracking := [7 \<mapsto> new_tracking ex_mkt]\<rparr>"
  have "ib_tracking ?b 7 = Some (new_tracking ex_mkt)" "\<not> ot_terminal (new_tracking ex_mkt)" "ib_trades ?b 7 = Some (ex_trade ''Inactive'' [])"
    "it_status (ex_trade ''Inactive'' []) = ''Inactive''" "it_log (ex_trade ''Inactive'' []) = []" "it_whyHeld (ex_trade ''Inactive'' []) = []"
    "0 < it_orderId (ex_trade ''Inactive'' [])" "ib_tasks ?b = []" "is_utc (utc 2)"
    by (simp_all add: new_tracking_def ex_trade_def ex_ib_def ib_init_def)
  note r = deferred_rejection_has_reason [OF this, of 201 "''PRIIPs''"]
  have "it_orderId (ex_trade ''Inactive'' []) = 5" "ib_events ?b = []" by (simp_all add: ex_trade_def ex_ib_def ib_init_def)
  with r show ?thesis by (metis append_Nil)
qed

end
