(* ===== verification/EodhdConventions.thy ===== *)
theory EodhdConventions
  imports Decimals
begin

text \<open>
  \<open>src/blive/adapters/eodhd/conventions.py\<close>: the unit-of-quote conventions by IB symbol and the
  conversion of an EODHD price.  The provenance strings of a convention are kept.
\<close>

section \<open>The catalogue\<close>

datatype ConventionKind = IDENTITY | MANUAL_SCALE

record Convention =
  c_kind :: ConventionKind
  c_divisor :: "decimal option"
  c_source :: string
  c_notes :: string

definition Convention_checks :: "Convention \<Rightarrow> (bool \<times> exn) list" where
  "Convention_checks c =
     (if c_kind c = MANUAL_SCALE
      then (case c_divisor c of
              None \<Rightarrow> [(True, ValueError ''MANUAL_SCALE convention requires a divisor'')]
            | Some d \<Rightarrow> [(d \<le> dzero, ValueError ''MANUAL_SCALE divisor must be > 0'')])
      else [])
     @ [(c_kind c = IDENTITY \<and> c_divisor c \<noteq> None, ValueError ''IDENTITY convention must not specify a divisor'')]"

definition mk_Convention :: "Convention \<Rightarrow> Convention res" where
  "mk_Convention = validated Convention_checks"

definition IDENTITY_DEFAULT :: Convention where
  "IDENTITY_DEFAULT = \<lparr>c_kind = IDENTITY, c_divisor = None, c_source = [], c_notes = []\<rparr>"

definition CONVENTIONS_BY_IB_SYMBOL :: "string \<rightharpoonup> Convention" where
  "CONVENTIONS_BY_IB_SYMBOL = map_of
     [(''QQL3'', \<lparr>c_kind = MANUAL_SCALE, c_divisor = Some (dint 10),
         c_source = ''IB live reference, M2-IB.6.2c (2026-05-06)'',
         c_notes = ''EODHD-side recent reverse-split lag; revisit when /api/splits/QQQ3.LSE picks up the event.''\<rparr>)]"

section \<open>The conversion\<close>

text \<open>The branch taken for one convention (Python's \<open>assert\<close> is a branch), and the lookup around it.\<close>

definition apply_convention :: "Convention \<Rightarrow> decimal \<Rightarrow> decimal res" where
  "apply_convention convention eodhd_price =
     (case c_kind convention of
        IDENTITY \<Rightarrow> Inr eodhd_price
      | MANUAL_SCALE \<Rightarrow>
          (case c_divisor convention of
             None \<Rightarrow> Inl (AssertionError ''convention.divisor is not None'')
           | Some divisor \<Rightarrow> ddiv eodhd_price divisor))"

definition eodhd_to_ib_price :: "string \<Rightarrow> decimal \<Rightarrow> decimal res" where
  "eodhd_to_ib_price ib_symbol eodhd_price =
     (if eodhd_price \<le> dzero then Inl (ValueError ''eodhd_price must be > 0'')
      else apply_convention
             (case CONVENTIONS_BY_IB_SYMBOL ib_symbol of None \<Rightarrow> IDENTITY_DEFAULT | Some c \<Rightarrow> c) eodhd_price)"

section \<open>Lemmas\<close>

text \<open>The factor a convention applies: an IB price is the EODHD price over it.\<close>

definition scale_of :: "Convention \<Rightarrow> rat" where
  "scale_of c = (case c_divisor c of None \<Rightarrow> 1 | Some d \<Rightarrow> dval d)"

definition convention_of :: "string \<Rightarrow> Convention" where
  "convention_of s = (case CONVENTIONS_BY_IB_SYMBOL s of None \<Rightarrow> IDENTITY_DEFAULT | Some c \<Rightarrow> c)"

lemma apply_convention_ok:
  assumes "mk_Convention c = Inr c" and "0 < dval price"
  shows "\<exists>q. apply_convention c price = Inr q \<and> 0 < dval q \<and>
    (if c_kind c = IDENTITY then q = price else rounded (dval price / scale_of c) (dval q))"
proof (cases "c_kind c")
  case IDENTITY
  with assms show ?thesis by (simp add: apply_convention_def)
next
  case MANUAL_SCALE
  with assms(1) obtain d where d: "c_divisor c = Some d" "0 < dval d"
    by (auto simp: mk_Convention_def validated_eq_Inr Convention_checks_def decimal_simps split: option.splits if_splits)
  from ddiv_pos [OF d(2)] obtain q where q: "ddiv price d = Inr q" "rounded (dval price / dval d) (dval q)" by blast
  then have "0 < dval q" using d(2) assms(2) by (simp add: rounded_pos_iff)
  with q d MANUAL_SCALE show ?thesis by (simp add: apply_convention_def scale_of_def)
qed

lemma catalogue_valid: "CONVENTIONS_BY_IB_SYMBOL s = Some c \<Longrightarrow> mk_Convention c = Inr c"
  by (auto simp: CONVENTIONS_BY_IB_SYMBOL_def mk_Convention_def validated_eq_Inr Convention_checks_def decimal_simps
      split: if_splits)

lemma identity_valid: "mk_Convention IDENTITY_DEFAULT = Inr IDENTITY_DEFAULT"
  by (simp add: IDENTITY_DEFAULT_def mk_Convention_def validated_eq_Inr Convention_checks_def)

section \<open>Property\<close>

lemma eodhd_price_ok:
  assumes "0 < dval price"
  shows "\<exists>q. eodhd_to_ib_price s price = Inr q \<and> 0 < dval q \<and>
    (if c_kind (convention_of s) = IDENTITY then q = price
     else rounded (dval price / scale_of (convention_of s)) (dval q))"
proof -
  have "mk_Convention (convention_of s) = Inr (convention_of s)"
    by (cases "CONVENTIONS_BY_IB_SYMBOL s") (simp_all add: convention_of_def identity_valid catalogue_valid)
  from apply_convention_ok [OF this assms] assms show ?thesis
    by (simp add: eodhd_to_ib_price_def convention_of_def decimal_simps)
qed

text \<open>The conversion never fails on a positive price, whatever the symbol, and gives a positive price: the price
  itself for a symbol without a scale in the catalogue and, for a scaled one, the quotient by its divisor correct
  to 28 digits.\<close>

theorem eodhd_conversion:
  assumes "0 < dval price"
  shows "\<exists>q. eodhd_to_ib_price s price = Inr q \<and> 0 < dval q \<and>
    (if c_kind (convention_of s) = IDENTITY then q = price
     else rounded (dval price / scale_of (convention_of s)) (dval q))"
  by (rule eodhd_price_ok [OF assms])

theorem eodhd_conversion_witness:
  "\<exists>q. eodhd_to_ib_price ''QQL3'' (Dec 41294 (- 2)) = Inr q \<and> rounded (41294 / 1000) (dval q)"
proof -
  have "0 < dval (Dec 41294 (- 2))" by simp
  from eodhd_conversion [OF this, of "''QQL3''"] show ?thesis
    by (auto simp: convention_of_def CONVENTIONS_BY_IB_SYMBOL_def scale_of_def power_int_def power_divide)
qed

end
