(* ===== verification/IBPipeline.thy ===== *)
theory IBPipeline
  imports PaperPipeline IBOrders EodhdConventions
begin

text \<open>
  \<open>src/blive/runtime/ib_pipeline.py\<close>: the rebalance loops that send the strategy's orders to IB, for one instrument and
  for several.  The broker is the model of \<open>IBOrders\<close>; what IB and the event loop do while the pipeline awaits is a
  script, one per order, so that a statement about all scripts is one about every interleaving:

  \<^item> during the two awaits of \<open>submit\<close> (the price table, the rate limiter) a list of broker inputs happens;
  \<^item> during a drain the moves are either an input of the broker or the delivery of the next unread event to the
    pipeline, in any order; the script running out is the timeout of the wait.

  The queue of unread events is the broker's event list from a read index on.  The cells of the weights frame are the
  decimals their shortest texts denote.
\<close>

section \<open>Results\<close>

record IBEquityPoint =
  ie_time :: datetime
  ie_cash :: decimal
  ie_qty :: decimal
  ie_mark :: decimal
  ie_equity :: decimal

record IBRunResult =
  ir_curve :: "IBEquityPoint list"
  ir_breaches :: "RiskBreach list"
  ir_fills :: nat
  ir_submitted :: nat
  ir_canceled :: nat
  ir_rejected :: nat
  ir_final :: decimal

record IBMultiEquityPoint =
  me_time :: datetime
  me_cash :: decimal
  me_positions :: "(string \<times> decimal) list"
  me_marks :: "(string \<times> decimal) list"
  me_equity :: decimal

record IBMultiRunResult =
  mr_curve :: "IBMultiEquityPoint list"
  mr_breaches :: "RiskBreach list"
  mr_fills :: nat
  mr_submitted :: nat
  mr_accepted :: nat
  mr_canceled :: nat
  mr_rejected :: nat
  mr_fills_by :: "(string \<times> nat) list"
  mr_submitted_by :: "(string \<times> nat) list"
  mr_codes :: "int \<Rightarrow> nat"
  mr_final :: decimal

definition cap_binding_2161_count :: "IBMultiRunResult \<Rightarrow> nat" where
  "cap_binding_2161_count r = mr_codes r 2161"

section \<open>Helpers\<close>

definition ib_compute_equity :: "decimal \<Rightarrow> (string \<times> Position) list \<Rightarrow> decimal \<Rightarrow> decimal" where
  "ib_compute_equity cash positions mark_price =
     dadd cash (foldl (\<lambda>total (_, p). dadd total (dmul (p_quantity p) mark_price)) dzero positions)"

definition compute_equity_multi :: "decimal \<Rightarrow> (string \<times> Position) list \<Rightarrow> (string \<times> decimal) list \<Rightarrow> decimal" where
  "compute_equity_multi cash positions mark_prices =
     dadd cash (foldl (\<lambda>notional (symb, pos).
       case map_of mark_prices symb of
         None \<Rightarrow> notional
       | Some price \<Rightarrow> dadd notional (dmul (p_quantity pos) price)) dzero positions)"

definition ib_risk_config_from_live :: "LiveStrategyConfig \<Rightarrow> RiskEngineConfig" where
  "ib_risk_config_from_live live =
     (let overrides = lc_risk_overrides live
      in default_config\<lparr>rc_staleness_intraday := ro_staleness_intraday overrides,
           rc_staleness_daily := ro_staleness_daily overrides, rc_outside_rth := ro_outside_rth overrides,
           rc_artefact_max_days := ro_artefact_max_days overrides,
           rc_artefact_warn_days := ro_artefact_warn_days overrides, rc_is_intraday := False\<rparr>)"

text \<open>\<open>uid\<close> is what \<open>uuid4()\<close> returns.\<close>

definition sent_order :: "uuid \<Rightarrow> Order \<Rightarrow> OrderType \<Rightarrow> TimeInForce \<Rightarrow> decimal option \<Rightarrow> Order res" where
  "sent_order uid base order_type tif limit_price =
     mk_Order \<lparr>o_id = uid, o_strategy = o_strategy base, o_instrument = o_instrument base, o_side = o_side base,
       o_quantity = o_quantity base, o_type = order_type, o_tif = tif, o_limit = limit_price, o_stop = None,
       o_parent = None, o_tags = AList.update ''pipeline'' ''m2-ib.5'' (o_tags base), o_created = o_created base\<rparr>"

definition ib_order_from_desired :: "uuid \<Rightarrow> Order \<Rightarrow> Bar \<Rightarrow> OrderType \<Rightarrow> decimal \<Rightarrow> Order res" where
  "ib_order_from_desired uid desired bar order_type limit_price_offset_bps =
     (if order_type \<in> {MKT, ADAPTIVE_MKT} then sent_order uid desired order_type (o_tif desired) None
      else if order_type = LMT then
        bindR (ddiv limit_price_offset_bps (dint 10000)) (\<lambda>scale.
        bindR (eodhd_to_ib_price (i_symbol (o_instrument desired)) (b_close bar)) (\<lambda>ib_reference.
        sent_order uid desired LMT DAY (Some (dmul ib_reference
          (if o_side desired = BUY then dadd (dint 1) scale else dsub (dint 1) scale)))))
      else Inl (ValueError ''run_ib_pipeline supports MKT / ADAPTIVE_MKT / LMT order_type only''))"

section \<open>Waiting for an order\<close>

datatype wait_move = Receive | Happen ib_input

record drain_state =
  dr_state :: OrderState
  dr_fill :: "OrderEvent option"
  dr_accepted :: bool

definition drain_start :: drain_state where
  "drain_start = \<lparr>dr_state = SUBMIT_PENDING, dr_fill = None, dr_accepted = False\<rparr>"

text \<open>One event: what the drain notes, and whether it is over.\<close>

definition drain_event :: "uuid \<Rightarrow> BrokerEvent \<Rightarrow> drain_state \<Rightarrow> drain_state \<times> bool" where
  "drain_event target e d =
     (case e of
        BE_Order event \<Rightarrow>
          if e_order event \<noteq> target then (d, False)
          else (case e_kind event of
              EV_SUBMITTED \<Rightarrow> (d\<lparr>dr_state := SUBMITTED\<rparr>, False)
            | EV_ACCEPTED \<Rightarrow> (d\<lparr>dr_state := ACCEPTED, dr_accepted := True\<rparr>, False)
            | EV_PARTIAL_FILL \<Rightarrow> (d\<lparr>dr_state := PARTIALLY_FILLED, dr_accepted := True, dr_fill := Some event\<rparr>, False)
            | EV_FILLED \<Rightarrow> (d\<lparr>dr_state := FILLED, dr_accepted := True, dr_fill := Some event\<rparr>, True)
            | EV_CANCELED \<Rightarrow> (d\<lparr>dr_state := CANCELED\<rparr>, True)
            | EV_REJECTED \<Rightarrow> (d\<lparr>dr_state := REJECTED\<rparr>, True)
            | EV_EXPIRED \<Rightarrow> (d\<lparr>dr_state := EXPIRED\<rparr>, True))
      | _ \<Rightarrow> (d, False))"

fun ib_drain_order_lifecycle :: "uuid \<Rightarrow> wait_move list \<Rightarrow> drain_state \<Rightarrow> nat \<Rightarrow> IBBroker \<Rightarrow> drain_state \<times> nat \<times> IBBroker" where
  "ib_drain_order_lifecycle target [] d read b = (d, read, b)"
| "ib_drain_order_lifecycle target (Happen i # moves) d read b = ib_drain_order_lifecycle target moves d read (ib_step b i)"
| "ib_drain_order_lifecycle target (Receive # moves) d read b =
     (if read < length (ib_events b) then
        (case drain_event target (ib_events b ! read) d of
           (d', over) \<Rightarrow> if over then (d', read + 1, b) else ib_drain_order_lifecycle target moves d' (read + 1) b)
      else ib_drain_order_lifecycle target moves d read b)"

definition drain_startup_events :: "IBBroker \<Rightarrow> nat" where
  "drain_startup_events b = length (ib_events b)"

section \<open>One order\<close>

record order_script =
  os_id :: uuid
  os_increments :: "PriceIncrement list res"
  os_pricing :: "ib_input list"
  os_priced_at :: datetime
  os_acquired :: "unit res"
  os_limiting :: "ib_input list"
  os_trade :: IbTrade
  os_placed_at :: datetime
  os_wait :: "wait_move list"
  os_cancel_acquired :: "unit res"
  os_final :: "wait_move list"

record ib_ledger =
  lg_broker :: IBBroker
  lg_read :: nat
  lg_cash :: decimal
  lg_positions :: "(string \<times> Position) list"

datatype order_outcome = Booked Fill | Canceled | Rejected | EngineCanceled

definition submit_awaits :: "order_script \<Rightarrow> Order \<Rightarrow> (IBBroker, uuid) sx" where
  "submit_awaits sc order =
     bindS (submit_check order) (\<lambda>_.
     bindS (modS (\<lambda>b. ib_run b (os_pricing sc))) (\<lambda>_.
     bindS (submit_priced (os_increments sc) order (os_priced_at sc)) (\<lambda>r.
     case r of
       None \<Rightarrow> retS (o_id order)
     | Some (snapped, contract, ib_order) \<Rightarrow>
         bindS (modS (\<lambda>b. ib_run b (os_limiting sc))) (\<lambda>_.
         submit_place (os_acquired sc) snapped contract ib_order (os_trade sc) (os_placed_at sc)))))"

definition order_outcome :: "drain_state \<Rightarrow> order_outcome" where
  "order_outcome d =
     (case (dr_state d, Option.bind (dr_fill d) e_fill) of
        (FILLED, Some fill) \<Rightarrow> Booked fill
      | (CANCELED, _) \<Rightarrow> Canceled
      | (REJECTED, _) \<Rightarrow> Rejected
      | _ \<Rightarrow> EngineCanceled)"

text \<open>An order that ended in no other way is cancelled; what the second drain reports is not looked at.\<close>

definition engine_cancel :: "order_script \<Rightarrow> uuid \<Rightarrow> nat \<times> IBBroker \<Rightarrow> (nat \<times> IBBroker) res" where
  "engine_cancel sc cid rb =
     (case rb of (read, b) \<Rightarrow>
        (case ib_cancel cid (os_cancel_acquired sc) b of
           (Inl (KeyError _), b') \<Rightarrow> Inr (snd (ib_drain_order_lifecycle cid (os_final sc) drain_start read b'))
         | (Inl e, _) \<Rightarrow> Inl e
         | (Inr _, b') \<Rightarrow> Inr (snd (ib_drain_order_lifecycle cid (os_final sc) drain_start read b'))))"

definition conduct_order :: "order_script \<Rightarrow> Order \<Rightarrow> ib_ledger \<Rightarrow> (order_outcome \<times> bool \<times> ib_ledger) res" where
  "conduct_order sc order led =
     (case submit_awaits sc order (lg_broker led) of
        (Inl e, _) \<Rightarrow> Inl e
      | (Inr _, placed) \<Rightarrow>
          (case ib_drain_order_lifecycle (o_id order) (os_wait sc) drain_start (lg_read led) placed of
             (d, read, b) \<Rightarrow>
               bindR (if order_outcome d = EngineCanceled then engine_cancel sc (o_id order) (read, b) else Inr (read, b))
                 (\<lambda>(read', b'). Inr (order_outcome d, dr_accepted d, led\<lparr>lg_read := read', lg_broker := b'\<rparr>))))"

definition book_outcome :: "string \<Rightarrow> string \<Rightarrow> datetime \<Rightarrow> order_outcome \<Rightarrow> ib_ledger \<Rightarrow> ib_ledger res" where
  "book_outcome sid key t out led =
     (case out of
        Booked fill \<Rightarrow>
          bindR (apply_fill (map_of (lg_positions led) key) fill sid t) (\<lambda>p.
          Inr (led\<lparr>lg_positions := AList.update key p (lg_positions led), lg_cash := book_cash (lg_cash led) fill\<rparr>))
      | _ \<Rightarrow> Inr led)"

text \<open>\<open>for x in xs: ...\<close> where a pass may raise.\<close>

fun forR :: "('a \<Rightarrow> 's \<Rightarrow> 's res) \<Rightarrow> 'a list \<Rightarrow> 's \<Rightarrow> 's res" where
  "forR f [] s = Inr s"
| "forR f (x # xs) s = bindR (f x s) (forR f xs)"

definition numbered :: "'a list \<Rightarrow> (nat \<times> 'a) list" where
  "numbered xs = zip [0..<length xs] xs"

section \<open>One instrument\<close>

record ib_setup =
  iu_config :: LiveStrategyConfig
  iu_instrument :: Instrument
  iu_series :: "(datetime \<times> int) list"
  iu_cash :: decimal
  iu_leverage :: decimal
  iu_type :: OrderType
  iu_offset_bps :: decimal
  iu_kill :: KillSwitch
  iu_artefacts :: "string \<Rightarrow> int option"
  iu_uuids :: "nat \<Rightarrow> nat \<Rightarrow> uuid"
  iu_scripts :: "nat \<Rightarrow> nat \<Rightarrow> order_script"

definition live_engine :: "LiveStrategyConfig \<Rightarrow> KillSwitch \<Rightarrow> RiskEngine" where
  "live_engine config kill = \<lparr>re_config = ib_risk_config_from_live config, re_kill = kill, re_strategy = lc_strategy_id config\<rparr>"

definition ib_pipeline_inputs :: "LiveStrategyConfig \<Rightarrow> Bar \<Rightarrow> decimal option \<Rightarrow> RiskInputs" where
  "ib_pipeline_inputs config bar ref_price = \<lparr>ri_last_bar = Some bar, ri_market_open = True,
     ri_artefacts = lc_artefact_paths config, ri_reference = ref_price\<rparr>"

definition ib_sizer_input :: "ib_setup \<Rightarrow> Bar \<Rightarrow> int \<Rightarrow> ib_ledger \<Rightarrow> SizerInput" where
  "ib_sizer_input su bar position_int led =
     \<lparr>s_targets = [(i_symbol (iu_instrument su), dmul (dint position_int) (iu_leverage su))],
      s_equity = ib_compute_equity (lg_cash led) (lg_positions led) (b_close bar),
      s_nav_slice = lc_nav_slice (iu_config su), s_positions = map_of (lg_positions led),
      s_resolver = (\<lambda>_. Inr (iu_instrument su)), s_price = (\<lambda>_. Inr (b_close bar)),
      s_strategy = lc_strategy_id (iu_config su), s_now = b_close_time bar\<rparr>"

definition count_outcome :: "order_outcome \<Rightarrow> IBRunResult \<Rightarrow> IBRunResult" where
  "count_outcome out r =
     (case out of
        Booked _ \<Rightarrow> r\<lparr>ir_fills := ir_fills r + 1\<rparr>
      | Rejected \<Rightarrow> r\<lparr>ir_rejected := ir_rejected r + 1\<rparr>
      | _ \<Rightarrow> r\<lparr>ir_canceled := ir_canceled r + 1\<rparr>)"

definition ib_process_order :: "ib_setup \<Rightarrow> nat \<Rightarrow> Bar \<Rightarrow> nat \<times> Order \<Rightarrow> ib_ledger \<times> IBRunResult \<Rightarrow> (ib_ledger \<times> IBRunResult) res" where
  "ib_process_order su n bar kd lr =
     (case (kd, lr) of ((k, desired), (led, r)) \<Rightarrow>
        bindR (approve (iu_artefacts su) (live_engine (iu_config su) (iu_kill su)) desired
            (ib_pipeline_inputs (iu_config su) bar None) (b_close_time bar)) (\<lambda>(approved, breaches).
        let r1 = r\<lparr>ir_breaches := ir_breaches r @ breaches\<rparr>; sc = iu_scripts su n k
        in case approved of
             None \<Rightarrow> Inr (led, r1)
           | Some order \<Rightarrow>
               bindR (ib_order_from_desired (os_id sc) order bar (iu_type su) (iu_offset_bps su)) (\<lambda>order_for_ib.
               bindR (conduct_order sc order_for_ib led) (\<lambda>(out, _, led1).
               bindR (book_outcome (lc_strategy_id (iu_config su)) (i_symbol (iu_instrument su)) (b_close_time bar) out led1) (\<lambda>led2.
               Inr (led2, count_outcome out (r1\<lparr>ir_submitted := ir_submitted r1 + 1\<rparr>)))))))"

definition ib_mark_equity :: "ib_setup \<Rightarrow> Bar \<Rightarrow> ib_ledger \<times> IBRunResult \<Rightarrow> ib_ledger \<times> IBRunResult" where
  "ib_mark_equity su bar lr =
     (case lr of (led, r) \<Rightarrow>
        let qty = (case map_of (lg_positions led) (i_symbol (iu_instrument su)) of None \<Rightarrow> dzero | Some p \<Rightarrow> p_quantity p);
            point = \<lparr>ie_time = b_close_time bar, ie_cash = lg_cash led, ie_qty = qty, ie_mark = b_close bar,
                     ie_equity = ib_compute_equity (lg_cash led) (lg_positions led) (b_close bar)\<rparr>
        in (led, r\<lparr>ir_curve := ir_curve r @ [point]\<rparr>))"

definition ib_rebalance_bar :: "ib_setup \<Rightarrow> nat \<times> Bar \<Rightarrow> ib_ledger \<times> IBRunResult \<Rightarrow> (ib_ledger \<times> IBRunResult) res" where
  "ib_rebalance_bar su nb lr =
     (case nb of (n, bar) \<Rightarrow>
        case series_at (iu_series su) (b_close_time bar) of
          None \<Rightarrow> Inr lr
        | Some position_int \<Rightarrow>
            bindR (size_orders (ib_sizer_input su bar position_int (fst lr)) (iu_uuids su n)) (\<lambda>candidate_orders.
            bindR (forR (ib_process_order su n bar) (numbered candidate_orders) lr) (\<lambda>lr'.
            Inr (ib_mark_equity su bar lr'))))"

definition ledger_start :: "decimal \<Rightarrow> IBBroker \<Rightarrow> ib_ledger" where
  "ledger_start cash b = \<lparr>lg_broker = b, lg_read = drain_startup_events b, lg_cash = cash, lg_positions = []\<rparr>"

definition run_ib_pipeline :: "ib_setup \<Rightarrow> Bar list res \<Rightarrow> IBBroker \<Rightarrow> (ib_ledger \<times> IBRunResult) res" where
  "run_ib_pipeline su market_data b =
     (if \<not> is_connected b then Inl (RuntimeError ''run_ib_pipeline expects an already-connected IBBroker'')
      else bindR market_data (\<lambda>bars.
        if bars = [] then Inl (ValueError ''no bars in fixture'')
        else bindR (forR (ib_rebalance_bar su) (numbered bars)
               (ledger_start (iu_cash su) b, \<lparr>ir_curve = [], ir_breaches = [], ir_fills = 0, ir_submitted = 0,
                  ir_canceled = 0, ir_rejected = 0, ir_final = dzero\<rparr>)) (\<lambda>(led, r).
             Inr (led, r\<lparr>ir_final := (if ir_curve r = [] then iu_cash su else ie_equity (last (ir_curve r)))\<rparr>))))"

section \<open>Several instruments\<close>

record multi_setup =
  mu_config :: LiveStrategyConfig
  mu_instruments :: "Instrument list"
  mu_weights :: "(datetime \<times> (string \<times> decimal) list) list"
  mu_cash :: decimal
  mu_type :: OrderType
  mu_types :: "(string \<times> OrderType) list option"
  mu_offset_bps :: decimal
  mu_kill :: KillSwitch
  mu_artefacts :: "string \<Rightarrow> int option"
  mu_uuids :: "nat \<Rightarrow> nat \<Rightarrow> uuid"
  mu_scripts :: "nat \<Rightarrow> nat \<Rightarrow> order_script"

text \<open>The latest bars of the other instruments at the close of the canonical one; an instrument without one is left out.\<close>

definition other_bar :: "PaperMarketData \<Rightarrow> datetime \<Rightarrow> Instrument \<Rightarrow> (string \<times> Bar) list \<Rightarrow> (string \<times> Bar) list res" where
  "other_bar md t inst bars =
     bindR (latest md inst t) (\<lambda>r. Inr (case r of None \<Rightarrow> bars | Some bar \<Rightarrow> AList.update (i_symbol inst) bar bars))"

definition bars_by_symbol :: "PaperMarketData \<Rightarrow> Instrument list \<Rightarrow> Bar \<Rightarrow> (string \<times> Bar) list res" where
  "bars_by_symbol md instruments canonical_bar =
     forR (other_bar md (b_close_time canonical_bar)) (tl instruments) [(i_symbol (hd instruments), canonical_bar)]"

definition target_weights :: "Instrument list \<Rightarrow> (string \<times> decimal) list \<Rightarrow> (string \<times> decimal) list" where
  "target_weights instruments weights_row =
     foldl (\<lambda>ws inst. AList.update (i_symbol inst)
       (case map_of weights_row (i_symbol inst) of None \<Rightarrow> dzero | Some w \<Rightarrow> w) ws) [] instruments"

definition multi_mark_prices :: "(string \<times> Bar) list \<Rightarrow> (string \<times> decimal) list res" where
  "multi_mark_prices bars =
     mapR (\<lambda>(symb, bar). bindR (eodhd_to_ib_price symb (b_close bar)) (\<lambda>price. Inr (symb, price))) bars"

definition resolve_symbol :: "Instrument list \<Rightarrow> string \<Rightarrow> Instrument res" where
  "resolve_symbol instruments symbol =
     (case find (\<lambda>i. i_symbol i = symbol) (rev instruments) of None \<Rightarrow> Inl (KeyError symbol) | Some i \<Rightarrow> Inr i)"

definition symbol_price :: "(string \<times> Bar) list \<Rightarrow> Instrument \<Rightarrow> decimal res" where
  "symbol_price bars inst =
     (case map_of bars (i_symbol inst) of
        None \<Rightarrow> Inl (KeyError (i_symbol inst))
      | Some bar \<Rightarrow> eodhd_to_ib_price (i_symbol inst) (b_close bar))"

definition multi_sizer_input :: "multi_setup \<Rightarrow> datetime \<Rightarrow> (string \<times> decimal) list \<Rightarrow> (string \<times> Bar) list \<Rightarrow> (string \<times> decimal) list
    \<Rightarrow> ib_ledger \<Rightarrow> SizerInput" where
  "multi_sizer_input su t weights_row bars marks led =
     \<lparr>s_targets = target_weights (mu_instruments su) weights_row,
      s_equity = compute_equity_multi (lg_cash led) (lg_positions led) marks,
      s_nav_slice = lc_nav_slice (mu_config su), s_positions = map_of (lg_positions led),
      s_resolver = resolve_symbol (mu_instruments su), s_price = symbol_price bars,
      s_strategy = lc_strategy_id (mu_config su), s_now = t\<rparr>"

definition effective_order_type :: "multi_setup \<Rightarrow> string \<Rightarrow> OrderType" where
  "effective_order_type su symb =
     (case mu_types su of
        None \<Rightarrow> mu_type su
      | Some types \<Rightarrow> (case map_of types symb of None \<Rightarrow> mu_type su | Some ty \<Rightarrow> ty))"

definition count_symbol :: "string \<Rightarrow> (string \<times> nat) list \<Rightarrow> (string \<times> nat) list" where
  "count_symbol symb counts = AList.update symb ((case map_of counts symb of None \<Rightarrow> 0 | Some n \<Rightarrow> n) + 1) counts"

definition count_submitted :: "string \<Rightarrow> bool \<Rightarrow> IBMultiRunResult \<Rightarrow> IBMultiRunResult" where
  "count_submitted symb reached_accepted r =
     r\<lparr>mr_submitted := mr_submitted r + 1, mr_submitted_by := count_symbol symb (mr_submitted_by r),
       mr_accepted := mr_accepted r + (if reached_accepted then 1 else 0)\<rparr>"

definition count_multi_outcome :: "order_outcome \<Rightarrow> IBMultiRunResult \<Rightarrow> IBMultiRunResult" where
  "count_multi_outcome out r =
     (case out of
        Booked fill \<Rightarrow> r\<lparr>mr_fills := mr_fills r + 1, mr_fills_by := count_symbol (i_symbol (f_instrument fill)) (mr_fills_by r)\<rparr>
      | Rejected \<Rightarrow> r\<lparr>mr_rejected := mr_rejected r + 1\<rparr>
      | _ \<Rightarrow> r\<lparr>mr_canceled := mr_canceled r + 1\<rparr>)"

definition outcome_symbol :: "order_outcome \<Rightarrow> string" where
  "outcome_symbol out = (case out of Booked fill \<Rightarrow> i_symbol (f_instrument fill) | _ \<Rightarrow> [])"

definition multi_process_order :: "multi_setup \<Rightarrow> nat \<Rightarrow> datetime \<Rightarrow> (string \<times> Bar) list \<Rightarrow> (string \<times> decimal) list \<Rightarrow> nat \<times> Order
    \<Rightarrow> ib_ledger \<times> IBMultiRunResult \<Rightarrow> (ib_ledger \<times> IBMultiRunResult) res" where
  "multi_process_order su n t bars marks kd lr =
     (case (kd, lr) of ((k, desired), (led, r)) \<Rightarrow>
        let symb = i_symbol (o_instrument desired); sc = mu_scripts su n k in
        case map_of bars symb of
          None \<Rightarrow> Inl (KeyError symb)
        | Some bar \<Rightarrow>
        bindR (approve (mu_artefacts su) (live_engine (mu_config su) (mu_kill su)) desired
            (ib_pipeline_inputs (mu_config su) bar (map_of marks symb)) t) (\<lambda>(approved, breaches).
        let r1 = r\<lparr>mr_breaches := mr_breaches r @ breaches\<rparr>
        in case approved of
             None \<Rightarrow> Inr (led, r1)
           | Some order \<Rightarrow>
               bindR (ib_order_from_desired (os_id sc) order bar (effective_order_type su symb) (mu_offset_bps su)) (\<lambda>order_for_ib.
               bindR (conduct_order sc order_for_ib led) (\<lambda>(out, reached_accepted, led1).
               bindR (book_outcome (lc_strategy_id (mu_config su)) (outcome_symbol out) t out led1) (\<lambda>led2.
               Inr (led2, count_multi_outcome out (count_submitted symb reached_accepted r1)))))))"

definition multi_mark_equity :: "datetime \<Rightarrow> (string \<times> decimal) list \<Rightarrow> ib_ledger \<times> IBMultiRunResult \<Rightarrow> ib_ledger \<times> IBMultiRunResult" where
  "multi_mark_equity t marks lr =
     (case lr of (led, r) \<Rightarrow>
        (led, r\<lparr>mr_curve := mr_curve r @ [\<lparr>me_time = t, me_cash = lg_cash led,
           me_positions = map (\<lambda>(symb, p). (symb, p_quantity p)) (lg_positions led), me_marks = marks,
           me_equity = compute_equity_multi (lg_cash led) (lg_positions led) marks\<rparr>]\<rparr>))"

definition multi_rebalance_bar :: "multi_setup \<Rightarrow> PaperMarketData \<Rightarrow> nat \<times> Bar \<Rightarrow> ib_ledger \<times> IBMultiRunResult
    \<Rightarrow> (ib_ledger \<times> IBMultiRunResult) res" where
  "multi_rebalance_bar su md nb lr =
     (case nb of (n, canonical_bar) \<Rightarrow>
        let t = b_close_time canonical_bar in
        case series_at (mu_weights su) t of
          None \<Rightarrow> Inr lr
        | Some weights_row \<Rightarrow>
            bindR (bars_by_symbol md (mu_instruments su) canonical_bar) (\<lambda>bars.
            if length bars \<noteq> length (mu_instruments su) then Inr lr
            else bindR (multi_mark_prices bars) (\<lambda>marks.
                 bindR (size_orders (multi_sizer_input su t weights_row bars marks (fst lr)) (mu_uuids su n)) (\<lambda>candidate_orders.
                 bindR (forR (multi_process_order su n t bars marks) (numbered candidate_orders) lr) (\<lambda>lr'.
                 Inr (multi_mark_equity t marks lr'))))))"

definition multi_finish :: "multi_setup \<Rightarrow> IBBroker \<Rightarrow> ib_ledger \<times> IBMultiRunResult \<Rightarrow> ib_ledger \<times> IBMultiRunResult" where
  "multi_finish su b lr =
     (case lr of (led, r) \<Rightarrow>
        (led, r\<lparr>mr_codes := (\<lambda>code. observed_error_codes (lg_broker led) code - observed_error_codes b code),
                mr_final := (if mr_curve r = [] then mu_cash su else me_equity (last (mr_curve r)))\<rparr>))"

definition run_ib_multi_pipeline :: "multi_setup \<Rightarrow> PaperMarketData \<Rightarrow> IBBroker \<Rightarrow> (ib_ledger \<times> IBMultiRunResult) res" where
  "run_ib_multi_pipeline su md b =
     (if \<not> is_connected b then Inl (RuntimeError ''run_ib_multi_pipeline expects an already-connected IBBroker'')
      else if mu_instruments su = [] then Inl (ValueError ''instruments list must be non-empty'')
      else if list_all (\<lambda>(_, row). row = []) (mu_weights su) then Inl (ValueError ''target_weights_series must not be empty'')
      else bindR (market_bars md (hd (mu_instruments su))) (\<lambda>canonical_bars.
        if canonical_bars = [] then Inl (ValueError ''no bars in fixture for canonical instrument'')
        else bindR (forR (multi_rebalance_bar su md) (numbered canonical_bars)
               (ledger_start (mu_cash su) b, \<lparr>mr_curve = [], mr_breaches = [], mr_fills = 0, mr_submitted = 0, mr_accepted = 0,
                  mr_canceled = 0, mr_rejected = 0, mr_fills_by = [], mr_submitted_by = [], mr_codes = (\<lambda>_. 0), mr_final = dzero\<rparr>))
             (\<lambda>lr. Inr (multi_finish su b lr))))"

section \<open>The queue only grows\<close>

definition events_grow :: "IBBroker \<Rightarrow> IBBroker \<Rightarrow> bool" where
  "events_grow b b' \<longleftrightarrow> (\<exists>new. ib_events b' = ib_events b @ new)"

definition grows :: "(IBBroker, 'a) sx \<Rightarrow> bool" where
  "grows m \<longleftrightarrow> (\<forall>b. events_grow b (snd (m b)))"

lemma events_grow_refl [simp]: "ib_events b' = ib_events b \<Longrightarrow> events_grow b b'"
  by (simp add: events_grow_def)

lemma events_grow_trans: "events_grow b b1 \<Longrightarrow> events_grow b1 b2 \<Longrightarrow> events_grow b b2"
  by (auto simp: events_grow_def)

lemma growsD: "grows m \<Longrightarrow> events_grow b (snd (m b))"
  by (simp add: grows_def)

lemma grows_bind [intro]: "grows m \<Longrightarrow> (\<And>x. grows (f x)) \<Longrightarrow> grows (bindS m f)"
  unfolding grows_def
proof (intro allI)
  fix b
  assume m: "\<forall>b. events_grow b (snd (m b))" and f: "\<And>x. \<forall>b. events_grow b (snd (f x b))"
  obtain r b1 where mb: "m b = (r, b1)" by (cases "m b")
  have "events_grow b b1" using m mb by (metis snd_conv)
  moreover have "events_grow b1 (snd (f x b1))" for x using f by blast
  ultimately show "events_grow b (snd (bindS m f b))"
    by (cases r) (auto simp: bindS_eq mb intro: events_grow_trans)
qed

lemma grows_basic [intro, simp]: "grows (retS x)" "grows (raiseS e)" "grows (getS g)" "grows (liftS r)"
  by (simp_all add: grows_def)

lemma grows_modS: "grows (modS g) \<longleftrightarrow> (\<forall>b. events_grow b (g b))"
  by (simp add: grows_def)

lemma grows_mods [intro, simp]:
  "grows (modS (set_tracking c t))" "grows (modS (pop_error n))" "grows (modS (spawn k))" "grows (modS id)" "grows (modS (put_ib e))"
  "grows (modS (\<lambda>b. b\<lparr>ib_placed := p b\<rparr>))" "grows (modS (\<lambda>b. b\<lparr>ib_trades := tr b\<rparr>))" "grows (modS (\<lambda>b. b\<lparr>ib_cancelled := ca b\<rparr>))"
  "grows (modS (\<lambda>b. b\<lparr>ib_connected := co b, ib_update_task := u b\<rparr>))" "grows (modS (\<lambda>b. b\<lparr>ib_update_task := u b\<rparr>))"
  "grows (modS (\<lambda>b. b\<lparr>ib_last_snapshot := l b\<rparr>))"
  "grows (modS (\<lambda>b. b\<lparr>ib_connected := co b, ib_values := v b, ib_last_snapshot := l b, ib_errors := e' b\<rparr>))"
  by (auto simp: grows_modS events_grow_def)

lemma grows_account_values: "events_grow b (fold on_account_value avs b)"
proof -
  have "ib_events (fold on_account_value avs b) = ib_events b" for b
    by (induction avs arbitrary: b) (simp_all add: on_account_value_def)
  then show ?thesis by simp
qed

lemma grows_calls:
  "grows require_connected" "grows (submit_check order)" "grows (submit_priced increments order now)"
  "grows (submit_place acquired order contract ib_order trade now)" "grows (ib_cancel cid acquired)" "grows (ib_replace cid new)"
proof -
  show rc: "grows require_connected" unfolding require_connected_def by (rule grows_bind) simp_all
  show "grows (submit_check order)" unfolding submit_check_def
    by (intro grows_bind rc grows_basic) (simp split: option.split)
  show "grows (submit_priced increments order now)" unfolding submit_priced_def
    by (intro grows_bind grows_basic) (auto intro!: grows_bind split: sum.split exn.split)
  show "grows (submit_place acquired order contract ib_order trade now)" unfolding submit_place_def
    by (intro grows_bind grows_basic grows_mods)
  show "grows (ib_cancel cid acquired)" unfolding ib_cancel_def
    by (intro grows_bind rc grows_basic) (auto split: option.split)
  show "grows (ib_replace cid new)" by (simp add: ib_replace_def)
qed

lemma grows_spawn_event [simp]: "grows (spawn_event c trade kind r f now)"
  unfolding spawn_event_def by (intro grows_bind grows_basic grows_mods)

lemma grows_handlers:
  "grows (on_order_status cid trade now)" "grows (on_order_fill cid trade fill ticks)" "grows (emit_rejected_via_inactive cid trade now)"
  "grows (put_ib_connection c d now)" "grows (ib_connect cc avs now)" "grows (ib_disconnect cd now)" "grows (account_update_tick ticks)"
proof -
  show "grows (on_order_status cid trade now)" unfolding on_order_status_def
    by (intro grows_bind grows_basic) (auto intro!: grows_bind split: option.split prod.split)
  show "grows (on_order_fill cid trade fill ticks)" unfolding on_order_fill_def imply_accepted_def report_fill_def Let_def
    by (intro grows_bind grows_basic) (auto intro!: grows_bind split: option.split)
  show "grows (emit_rejected_via_inactive cid trade now)" unfolding emit_rejected_via_inactive_def
    by (intro grows_bind grows_basic grows_mods)
  show pc: "grows (put_ib_connection c d now)" for c d unfolding put_ib_connection_def by (intro grows_bind grows_basic grows_mods)
  show "grows (ib_connect cc avs now)" unfolding ib_connect_def
    by (intro grows_bind grows_basic) (auto intro!: grows_bind pc simp: grows_modS grows_account_values)
  show "grows (ib_disconnect cd now)" unfolding ib_disconnect_def
    by (intro grows_bind grows_basic) (auto intro!: grows_bind pc simp: grows_modS)
  show "grows (account_update_tick ticks)" unfolding account_update_tick_def
    by (intro grows_bind grows_basic) (auto intro!: grows_bind split: sum.split exn.split)
qed

lemma ib_step_grows: "events_grow b (ib_step b i)"
proof (cases i)
  case (I_Task now)
  have "events_grow b (snd (emit_rejected_via_inactive cid trade now (b\<lparr>ib_tasks := ts\<rparr>)))" for cid trade ts
    using growsD [OF grows_handlers(3), of "b\<lparr>ib_tasks := ts\<rparr>"] by (simp add: events_grow_def)
  then show ?thesis by (auto simp: I_Task run_task_def Let_def events_grow_def split: list.split ib_task.split nat.split option.split)
next
  case (I_Wake now)
  have "events_grow b (snd (account_update_tick now b))" by (rule growsD [OF grows_handlers(7)])
  then show ?thesis by (auto simp: I_Wake account_update_wake_def events_grow_def split: prod.split sum.split)
qed (auto intro: growsD grows_calls grows_handlers simp: on_ib_error_def on_account_value_def split: option.split)

lemma ib_run_grows: "events_grow b (ib_run b is)"
  by (induction "is" arbitrary: b) (auto intro: events_grow_trans ib_step_grows)

section \<open>What a drain reads\<close>

fun drain_events :: "uuid \<Rightarrow> BrokerEvent list \<Rightarrow> drain_state \<Rightarrow> drain_state \<times> bool" where
  "drain_events target [] d = (d, False)"
| "drain_events target (e # es) d =
     (case drain_event target e d of (d', over) \<Rightarrow> if over then (d', True) else drain_events target es d')"

fun happenings :: "wait_move list \<Rightarrow> ib_input list" where
  "happenings [] = []"
| "happenings (Receive # moves) = happenings moves"
| "happenings (Happen i # moves) = i # happenings moves"

lemma ib_run_append: "ib_run b (xs @ ys) = ib_run (ib_run b xs) ys"
  by (induction xs arbitrary: b) simp_all

lemma ib_run_allowed_append: "ib_run_allowed cid b (xs @ ys) \<longleftrightarrow> ib_run_allowed cid b xs \<and> ib_run_allowed cid (ib_run b xs) ys"
  by (induction xs arbitrary: b) simp_all

text \<open>A drain is a run of the broker together with a fold over the events it read.\<close>

lemma drain_reads:
  assumes "ib_drain_order_lifecycle target moves d read b = (d', read', b')" "read \<le> length (ib_events b)"
  obtains "is" rest over where "happenings moves = is @ rest" "b' = ib_run b is" "read \<le> read'" "read' \<le> length (ib_events b')"
    "drain_events target (drop read (take read' (ib_events b'))) d = (d', over)" "over \<or> rest = []"
proof -
  have "\<exists>is rest over. happenings moves = is @ rest \<and> b' = ib_run b is \<and> read \<le> read' \<and> read' \<le> length (ib_events b') \<and>
      drain_events target (drop read (take read' (ib_events b'))) d = (d', over) \<and> (over \<or> rest = [])"
    using assms
  proof (induction target moves d read b rule: ib_drain_order_lifecycle.induct)
    case (1 target d read b)
    then show ?case by (auto intro!: exI [of _ "[]"])
  next
    case (2 target i moves d read b)
    have "read \<le> length (ib_events (ib_step b i))" using ib_step_grows [of b i] 2(3) by (auto simp: events_grow_def)
    with 2 obtain "is" rest over where "happenings moves = is @ rest" "b' = ib_run (ib_step b i) is" "read \<le> read'" "read' \<le> length (ib_events b')"
        "drain_events target (drop read (take read' (ib_events b'))) d = (d', over)" "over \<or> rest = []" by auto
    then show ?case by (intro exI [of _ "i # is"] exI [of _ rest] exI [of _ over]) simp
  next
    case (3 target moves d read b)
    show ?case
    proof (cases "read < length (ib_events b)")
      case False
      with 3 show ?thesis by simp
    next
      case unread: True
      let ?e = "ib_events b ! read"
      obtain d1 over1 where e: "drain_event target ?e d = (d1, over1)" by (cases "drain_event target ?e d")
      show ?thesis
      proof (cases over1)
        case True
        with 3(3) unread e have r: "d' = d1" "read' = read + 1" "b' = b" by simp_all
        have "drop read (take (read + 1) (ib_events b)) = [?e]"
          using unread by (simp add: take_Suc_conv_app_nth)
        with r e True unread show ?thesis by (intro exI [of _ "[]"] exI [of _ "happenings moves"] exI [of _ True]) simp
      next
        case False
        with 3(3) unread e have "ib_drain_order_lifecycle target moves d1 (read + 1) b = (d', read', b')" by simp
        with "3.IH"(1) [OF unread e [symmetric] False] unread obtain "is" rest over where s: "happenings moves = is @ rest" "b' = ib_run b is" "read + 1 \<le> read'" "read' \<le> length (ib_events b')"
          "drain_events target (drop (read + 1) (take read' (ib_events b'))) d1 = (d', over)" "over \<or> rest = []" by auto
        have "ib_events b' ! read = ?e" using ib_run_grows [of b "is"] unread by (auto simp: s(2) events_grow_def nth_append)
        then have "drop read (take read' (ib_events b')) = ?e # drop (read + 1) (take read' (ib_events b'))"
          using s(3,4) by (simp add: Cons_nth_drop_Suc [symmetric] )
        with s e False show ?thesis by (intro exI [of _ "is"] exI [of _ rest] exI [of _ over]) simp
      qed
    qed
  qed
  then show thesis using that by blast
qed


text \<open>The last event that carries a fill, and whether the order was seen accepted.\<close>

definition last_fill_event :: "OrderEvent option \<Rightarrow> OrderEvent list \<Rightarrow> OrderEvent option" where
  "last_fill_event f evs = foldl (\<lambda>f ev. if needs_fill (e_kind ev) then Some ev else f) f evs"

definition seen_accepted :: "OrderEventKind list \<Rightarrow> bool" where
  "seen_accepted ks \<longleftrightarrow> list_ex (\<lambda>k. k = EV_ACCEPTED \<or> needs_fill k) ks"

lemma drain_events_machine:
  assumes "kinds_run (dr_state d) (kinds_of target es) = Some s" "\<not> is_terminal (dr_state d)"
    "drain_events target es d = (d', over)"
  shows "dr_state d' = s \<and> dr_fill d' = last_fill_event (dr_fill d) (order_events target es) \<and>
    (dr_accepted d' \<longleftrightarrow> dr_accepted d \<or> seen_accepted (kinds_of target es)) \<and> (over \<longleftrightarrow> is_terminal s)"
  using assms
proof (induction es arbitrary: d)
  case Nil
  then show ?case by (simp add: last_fill_event_def seen_accepted_def)
next
  case (Cons e es)
  show ?case
  proof (cases "order_events target [e]")
    case Nil
    then have "drain_event target e d = (d, False)" "kinds_of target [e] = []"
      by (cases e; auto simp: drain_event_def split: if_splits)+
    with Cons Nil show ?thesis by simp
  next
    case more: (Cons ev evs)
    then have e: "e = BE_Order ev" "e_order ev = target" by (cases e; auto split: if_splits)+
    obtain s1 where s1: "kind_step (dr_state d) (e_kind ev) = Some s1" "kinds_run s1 (kinds_of target es) = Some s"
      using Cons.prems(1) e by (auto split: option.splits)
    obtain d1 where d1: "drain_event target e d = (d1, terminal_kind (e_kind ev))" "dr_state d1 = s1"
      "dr_fill d1 = (if needs_fill (e_kind ev) then Some ev else dr_fill d)"
      "dr_accepted d1 \<longleftrightarrow> dr_accepted d \<or> e_kind ev = EV_ACCEPTED \<or> needs_fill (e_kind ev)"
      using s1(1) e by (cases "e_kind ev"; cases "dr_state d") (auto simp: drain_event_def terminal_kind_def needs_fill_def)
    show ?thesis
    proof (cases "terminal_kind (e_kind ev)")
      case True
      with kind_step_terminal [OF s1(1)] have t: "is_terminal s1" by simp
      with s1(2) kinds_run_from_terminal have k: "kinds_of target es = []" by blast
      then have "order_events target es = []" by (simp add: kinds_of_order_events)
      with s1(2) k t True d1 Cons.prems(3) e show ?thesis
        by (auto simp: last_fill_event_def seen_accepted_def)
    next
      case False
      with kind_step_terminal [OF s1(1)] have "\<not> is_terminal s1" by simp
      with Cons.IH [of d1] s1(2) d1 False Cons.prems(3) e show ?thesis
        by (auto simp: last_fill_event_def seen_accepted_def)
    qed
  qed
qed

text \<open>A fresh order: nothing was reported for it before the drain starts reading.\<close>

lemma drain_machine:
  assumes ok: "ib_ok cid b" "ib_run_allowed cid b (happenings moves)" and fresh: "kinds_of cid (take read (ib_events b)) = []"
    and read: "read \<le> length (ib_events b)" and drain: "ib_drain_order_lifecycle cid moves drain_start read b = (d, read', b')"
  shows "ib_ok cid b' \<and> read \<le> read' \<and> read' \<le> length (ib_events b') \<and>
    kinds_run SUBMIT_PENDING (kinds_of cid (take read' (ib_events b'))) = Some (dr_state d) \<and>
    dr_fill d = last_fill_event None (order_events cid (take read' (ib_events b'))) \<and>
    (dr_accepted d \<longleftrightarrow> seen_accepted (kinds_of cid (take read' (ib_events b')))) \<and>
    (is_terminal (dr_state d) \<or> b' = ib_run b (happenings moves))"
proof -
  obtain "is" rest over where s: "happenings moves = is @ rest" "b' = ib_run b is" "read \<le> read'" "read' \<le> length (ib_events b')"
    "drain_events cid (drop read (take read' (ib_events b'))) drain_start = (d, over)" "over \<or> rest = []"
    by (rule drain_reads [OF drain read])
  have ok': "ib_ok cid b'" using ok s(1,2) by (simp add: ib_run_ok ib_run_allowed_append)
  have "take read (ib_events b') = take read (ib_events b)"
    using ib_run_grows [of b "is"] read by (auto simp: s(2) events_grow_def)
  then have split: "take read' (ib_events b') = take read (ib_events b) @ drop read (take read' (ib_events b'))"
    using s(3) by (metis append_take_drop_id min.absorb1 take_take)
  have f: "order_events cid (take read (ib_events b)) = []" using fresh by (simp add: kinds_of_order_events)
  have k: "kinds_of cid (take read' (ib_events b')) = kinds_of cid (drop read (take read' (ib_events b')))"
    by (subst split) (simp add: fresh)
  have o: "order_events cid (take read' (ib_events b')) = order_events cid (drop read (take read' (ib_events b')))"
    by (subst split) (simp add: f)
  have "kinds_run SUBMIT_PENDING (kinds_of cid (take read' (ib_events b')) @ kinds_of cid (drop read' (ib_events b')) @ map task_kind (ib_tasks_of cid b')) \<noteq> None"
    using ib_ok_run [OF ok'] unfolding ib_kinds_def by (metis append_assoc append_take_drop_id kinds_of_simps(2) option.distinct(1))
  then obtain st where "kinds_run SUBMIT_PENDING (kinds_of cid (take read' (ib_events b'))) = Some st"
    by (auto simp: kinds_run_append split: option.splits)
  with drain_events_machine [OF _ _ s(5), of st] show ?thesis
    using ok' s unfolding k o by (auto simp: drain_start_def is_terminal_def TERMINAL_ORDER_STATES_def)
qed


section \<open>What was reported for an order\<close>

text \<open>IB's orders never expire, and an event of a fill carries it: for the events of an order on the queue and for those of the
  tasks still to run.\<close>

definition carried_ok :: "OrderEvent \<Rightarrow> bool" where
  "carried_ok e \<longleftrightarrow> e_kind e \<noteq> EV_EXPIRED \<and> (needs_fill (e_kind e) \<longrightarrow> e_fill e \<noteq> None)"

definition reports_ok :: "uuid \<Rightarrow> IBBroker \<Rightarrow> bool" where
  "reports_ok cid b \<longleftrightarrow> list_all carried_ok (order_events cid (ib_events b) @ concat (map task_event (ib_tasks_of cid b)))"

definition keeps_reports :: "uuid \<Rightarrow> (IBBroker, 'a) sx \<Rightarrow> bool" where
  "keeps_reports cid m \<longleftrightarrow> (\<forall>b. reports_ok cid b \<longrightarrow> reports_ok cid (snd (m b)))"

lemma keeps_reportsD: "keeps_reports cid m \<Longrightarrow> reports_ok cid b \<Longrightarrow> reports_ok cid (snd (m b))"
  by (simp add: keeps_reports_def)

lemma reports_ok_view: "same_view cid b b' \<Longrightarrow> reports_ok cid b \<Longrightarrow> reports_ok cid b'"
  by (simp add: same_view_def reports_ok_def)

lemma keeps_reports_view: "(\<And>b. same_view cid b (snd (m b))) \<Longrightarrow> keeps_reports cid m"
  using reports_ok_view by (fastforce simp: keeps_reports_def)

lemma keeps_reports_bind [intro]: "keeps_reports cid m \<Longrightarrow> (\<And>x. keeps_reports cid (f x)) \<Longrightarrow> keeps_reports cid (bindS m f)"
  unfolding keeps_reports_def
proof (intro allI impI)
  fix b
  assume m: "\<forall>b. reports_ok cid b \<longrightarrow> reports_ok cid (snd (m b))" and f: "\<And>x. \<forall>b. reports_ok cid b \<longrightarrow> reports_ok cid (snd (f x b))" and b: "reports_ok cid b"
  obtain r b1 where mb: "m b = (r, b1)" by (cases "m b")
  have "reports_ok cid b1" using m mb b by (metis snd_conv)
  with f show "reports_ok cid (snd (bindS m f b))" by (cases r) (auto simp: bindS_eq mb)
qed

lemma keeps_reports_basic [intro, simp]:
  "keeps_reports cid (retS x)" "keeps_reports cid (raiseS e)" "keeps_reports cid (getS g)" "keeps_reports cid (liftS r)"
  by (simp_all add: keeps_reports_def)

lemma keeps_reports_mods [intro, simp]:
  "keeps_reports cid (modS (set_tracking c t))" "keeps_reports cid (modS (pop_error n))" "keeps_reports cid (modS (spawn (EmitRejected c k)))"
  "keeps_reports cid (modS id)" "keeps_reports cid (modS (\<lambda>b. b\<lparr>ib_placed := p b\<rparr>))" "keeps_reports cid (modS (\<lambda>b. b\<lparr>ib_trades := tr b\<rparr>))"
  "keeps_reports cid (modS (\<lambda>b. b\<lparr>ib_cancelled := ca b\<rparr>))"
  by (auto simp: keeps_reports_def reports_ok_def ib_tasks_of_def set_tracking_def pop_error_def spawn_def)

lemma ib_order_event_carried_ok: "ib_order_event c v k r f now = Inr e \<Longrightarrow> k \<noteq> EV_EXPIRED \<Longrightarrow> carried_ok e"
  by (auto simp: ib_order_event_def mk_OrderEvent_def validated_eq_Inr checks_ok_iff carried_ok_def OrderEvent_checks_def)

lemma keeps_reports_put:
  "k \<noteq> EV_EXPIRED \<Longrightarrow> (\<And>x. keeps_reports cid (g x)) \<Longrightarrow>
    keeps_reports cid (bindS (liftS (ib_order_event c v k r f now)) (\<lambda>e. bindS (modS (put_ib (BE_Order e))) g))"
  "k \<noteq> EV_EXPIRED \<Longrightarrow> keeps_reports cid (bindS (liftS (ib_order_event c v k r f now)) (\<lambda>e. modS (put_ib (BE_Order e))))"
  "k \<noteq> EV_EXPIRED \<Longrightarrow> keeps_reports cid (spawn_event c trade k r f now)"
  by (cases "ib_order_event c v k r f now"; cases "ib_order_event c (venue_order_id trade) k r f now";
      auto simp: keeps_reports_def bindS_def reports_ok_def ib_tasks_of_def spawn_event_def spawn_def put_ib_def dest: ib_order_event_carried_ok)+

lemma keeps_reports_handlers:
  "keeps_reports cid (submit_priced increments order now)" "keeps_reports cid (submit_place acquired order contract ib_order trade now)"
  "keeps_reports cid (on_order_status c trade now)" "keeps_reports cid (on_order_fill c trade fill ticks)"
  "keeps_reports cid (emit_rejected_via_inactive c trade now)"
proof -
  show "keeps_reports cid (submit_priced increments order now)" unfolding submit_priced_def
    by (intro keeps_reports_bind keeps_reports_basic) (auto intro!: keeps_reports_bind keeps_reports_put split: sum.split exn.split)
  show "keeps_reports cid (submit_place acquired order contract ib_order trade now)" unfolding submit_place_def
    by (intro keeps_reports_put(1) keeps_reports_bind keeps_reports_basic keeps_reports_mods) simp
  show "keeps_reports cid (on_order_status c trade now)" unfolding on_order_status_def
    by (intro keeps_reports_bind keeps_reports_basic)
      (auto intro!: keeps_reports_bind keeps_reports_put(3) simp: cancel_outcome_def split: option.split prod.split)
  show "keeps_reports cid (on_order_fill c trade fill ticks)"
    unfolding on_order_fill_def imply_accepted_def report_fill_def Let_def
    by (intro keeps_reports_bind keeps_reports_basic) (auto intro!: keeps_reports_bind keeps_reports_put(3) split: option.split if_splits)
  show "keeps_reports cid (emit_rejected_via_inactive c trade now)" unfolding emit_rejected_via_inactive_def
    by (intro keeps_reports_bind keeps_reports_put(2) keeps_reports_basic keeps_reports_mods) simp
qed

lemma run_task_reports: "reports_ok cid b \<Longrightarrow> reports_ok cid (run_task now b)"
proof (cases "ib_tasks b")
  case (Cons t ts)
  assume s: "reports_ok cid b"
  then have "reports_ok cid (b\<lparr>ib_tasks := ts\<rparr>)" using Cons by (auto simp: reports_ok_def ib_tasks_of_def split: if_splits)
  moreover have "reports_ok cid (put_ib (BE_Order e) (b\<lparr>ib_tasks := ts\<rparr>))" if "t = PutOrderEvent e" for e
    using s Cons that by (auto simp: reports_ok_def ib_tasks_of_def put_ib_def split: if_splits)
  ultimately show ?thesis using Cons keeps_reportsD [OF keeps_reports_handlers(5)] keeps_reportsD [OF keeps_reports_mods(3)]
    by (auto simp: run_task_def Let_def split: ib_task.split nat.split option.split)
qed (simp add: run_task_def)

section \<open>Conducting one order\<close>

text \<open>The inputs the broker takes while an order is submitted.\<close>

definition submit_inputs :: "order_script \<Rightarrow> Order \<Rightarrow> IBBroker \<Rightarrow> ib_input list" where
  "submit_inputs sc order b =
     I_Check order # (case fst (submit_check order b) of
       Inl _ \<Rightarrow> []
     | Inr _ \<Rightarrow> os_pricing sc @ I_Priced (os_increments sc) order (os_priced_at sc) #
         (case fst (submit_priced (os_increments sc) order (os_priced_at sc) (ib_run b (os_pricing sc))) of
            Inr (Some (snapped, contract, ib_order)) \<Rightarrow>
              os_limiting sc @ [I_Place (os_acquired sc) snapped contract ib_order (os_trade sc) (os_placed_at sc)]
          | _ \<Rightarrow> []))"

lemma submit_check_keeps: "snd (submit_check order b) = b"
  by (cases "ib_trades b (o_id order)") (simp_all add: submit_check_def require_connected_def bindS_def)

lemma ib_step_reports: "reports_ok cid b \<Longrightarrow> reports_ok cid (ib_step b i)"
proof (cases i)
  case (I_Check order)
  then show "reports_ok cid b \<Longrightarrow> reports_ok cid (ib_step b i)" by (simp add: submit_check_keeps)
next
  case (I_Cancel c acquired)
  have "same_view cid b (snd (ib_cancel c acquired b))"
    by (cases "ib_trades b c"; cases acquired) (simp_all add: ib_cancel_def require_connected_def bindS_def same_view_updates)
  then show "reports_ok cid b \<Longrightarrow> reports_ok cid (ib_step b i)" using reports_ok_view by (simp add: I_Cancel)
next
  case (I_Replace c new)
  then show "reports_ok cid b \<Longrightarrow> reports_ok cid (ib_step b i)" by (simp add: ib_replace_def)
next
  case (I_Trade c trade)
  then show "reports_ok cid b \<Longrightarrow> reports_ok cid (ib_step b i)" by (simp add: reports_ok_def ib_tasks_of_def)
next
  case (I_Error reqId errorCode errorString)
  then show "reports_ok cid b \<Longrightarrow> reports_ok cid (ib_step b i)" by (simp add: on_ib_error_def reports_ok_def ib_tasks_of_def)
qed (auto intro: keeps_reportsD keeps_reports_handlers run_task_reports
      reports_ok_view [OF ib_connect_view] reports_ok_view [OF ib_disconnect_view] reports_ok_view [OF on_account_value_view] reports_ok_view [OF account_wake_view]
      split: option.split)

lemma ib_run_reports: "reports_ok cid b \<Longrightarrow> reports_ok cid (ib_run b is)"
  by (induction "is" arbitrary: b) (simp_all add: ib_step_reports)

lemma reports_ok_fresh: "ib_kinds cid b = [] \<Longrightarrow> reports_ok cid b"
  by (simp add: reports_ok_def ib_kinds_def kinds_of_order_events)

lemma submit_awaits_run: "snd (submit_awaits sc order b) = ib_run b (submit_inputs sc order b)"
proof -
  obtain r where c: "submit_check order b = (r, b)" using submit_check_keeps [of order b] by (metis prod.collapse)
  show ?thesis
  proof (cases r)
    case (Inl e)
    then show ?thesis using c by (simp add: submit_awaits_def submit_inputs_def bindS_eq)
  next
    case (Inr u)
    obtain r2 b2 where p: "submit_priced (os_increments sc) order (os_priced_at sc) (ib_run b (os_pricing sc)) = (r2, b2)"
      by (cases "submit_priced (os_increments sc) order (os_priced_at sc) (ib_run b (os_pricing sc))")
    show ?thesis using c Inr p
      by (cases r2) (auto simp: submit_awaits_def submit_inputs_def bindS_eq ib_run_append split: option.split)
  qed
qed

lemma snap_keeps_quantity: "snap_order_prices policy increments order = Inr s \<Longrightarrow> o_quantity s = o_quantity order"
  by (auto simp: snap_order_prices_def mk_Order_def validated_eq_Inr split: if_splits)

lemma submit_priced_Some:
  assumes "submit_priced increments order now b = (Inr (Some (s, c, w)), b')"
  shows "o_id s = o_id order" "o_quantity s = o_quantity order" "b' = b"
proof -
  have "snap_order_prices (ib_policy b) increments order = Inr s \<and> b' = b"
  proof (cases "snap_order_prices (ib_policy b) increments order")
    case (Inl x)
    then show ?thesis using assms
      by (cases x; cases "ib_order_event (o_id order) None EV_REJECTED (Some (''blive:price-rule-unavailable '' @ (case x of PriceRuleUnavailable d \<Rightarrow> d))) None now")
        (auto simp: submit_priced_def)
  next
    case (Inr snapped)
    then show ?thesis using assms
      by (cases "to_contract (o_instrument snapped)"; cases "blive_to_ib_order snapped") (auto simp: submit_priced_def)
  qed
  then show "o_id s = o_id order" "o_quantity s = o_quantity order" "b' = b"
    using snap_keeps_id snap_keeps_quantity by auto
qed

lemma submit_priced_None:
  assumes "submit_priced increments order now b = (Inr None, b')"
  obtains e where "b' = put_ib (BE_Order e) b" "e_order e = o_id order" "e_kind e = EV_REJECTED"
proof -
  have "\<exists>e. b' = put_ib (BE_Order e) b \<and> e_order e = o_id order \<and> e_kind e = EV_REJECTED"
  proof (cases "snap_order_prices (ib_policy b) increments order")
    case (Inl x)
    then obtain d where x: "x = PriceRuleUnavailable d" using assms by (cases x) (simp_all add: submit_priced_def)
    obtain e where e: "ib_order_event (o_id order) None EV_REJECTED (Some (''blive:price-rule-unavailable '' @ d)) None now = Inr e"
      using assms Inl x by (cases "ib_order_event (o_id order) None EV_REJECTED (Some (''blive:price-rule-unavailable '' @ d)) None now")
        (simp_all add: submit_priced_def)
    then have "e_order e = o_id order \<and> e_kind e = EV_REJECTED"
      by (auto simp: ib_order_event_def mk_OrderEvent_def validated_eq_Inr)
    with assms Inl x e show ?thesis by (auto simp: submit_priced_def)
  next
    case (Inr snapped)
    then show ?thesis using assms
      by (cases "to_contract (o_instrument snapped)"; cases "blive_to_ib_order snapped") (auto simp: submit_priced_def)
  qed
  then show thesis using that by blast
qed

lemma fill_step_total:
  assumes "fill_step cid b b'" "ib_tracking b cid = Some t"
  shows "\<exists>t'. ib_tracking b' cid = Some t' \<and> ot_total t' = ot_total t"
  using assms by (auto simp: fill_step_def fill_book_def fill_booked_def)

lemma ib_run_total:
  assumes "ib_ok cid b" "ib_run_allowed cid b is" "ib_tracking b cid = Some t"
  shows "\<exists>t'. ib_tracking (ib_run b is) cid = Some t' \<and> ot_total t' = ot_total t"
  using assms
proof (induction "is" arbitrary: b t)
  case (Cons i "is")
  then have s: "extends cid b (ib_step b i)" "fill_step cid b (ib_step b i)" using ib_step_extends [of cid b i] by simp_all
  then obtain t' where "ib_tracking (ib_step b i) cid = Some t'" "ot_total t' = ot_total t" using fill_step_total Cons.prems(3) by blast
  with Cons.IH [of "ib_step b i" t'] Cons.prems(2) s(1) show ?case by (auto simp: extends_def)
qed simp

lemma ib_run_kinds: "ib_ok cid b \<Longrightarrow> ib_run_allowed cid b is \<Longrightarrow> \<exists>new. ib_kinds cid (ib_run b is) = ib_kinds cid b @ new"
proof (induction "is" arbitrary: b)
  case (Cons i "is")
  then obtain n1 where "ib_ok cid (ib_step b i)" "ib_kinds cid (ib_step b i) = ib_kinds cid b @ n1"
    using ib_step_extends [of cid b i] by (auto simp: extends_def)
  with Cons.IH [of "ib_step b i"] Cons.prems show ?case by auto
qed simp

text \<open>After a submit the order is tracked with its quantity, or was rejected before it went out.\<close>

lemma submit_tracks:
  assumes ok: "ib_ok cid b" and cid: "o_id order = cid" and al: "ib_run_allowed cid b (submit_inputs sc order b)"
    and sub: "submit_awaits sc order b = (Inr i, placed)"
  shows "ib_ok cid placed \<and> ((\<exists>t. ib_tracking placed cid = Some t \<and> ot_total t = o_quantity order) \<or>
    EV_REJECTED \<in> set (ib_kinds cid placed))"
proof -
  have run: "placed = ib_run b (submit_inputs sc order b)" using submit_awaits_run [of sc order b] sub by simp
  have okp: "ib_ok cid placed" unfolding run by (rule ib_run_ok [OF ok al])
  obtain r where c: "submit_check order b = (r, b)" using submit_check_keeps [of order b] by (metis prod.collapse)
  obtain u where r: "r = Inr u" using sub c by (cases r) (auto simp: submit_awaits_def bindS_eq)
  let ?b1 = "ib_run b (os_pricing sc)"
  obtain r2 b2 where p: "submit_priced (os_increments sc) order (os_priced_at sc) ?b1 = (r2, b2)"
    by (cases "submit_priced (os_increments sc) order (os_priced_at sc) ?b1")
  have sub': "(case r2 of Inl e \<Rightarrow> (Inl e, b2) | Inr None \<Rightarrow> (Inr (o_id order), b2)
     | Inr (Some (s, c, w)) \<Rightarrow> submit_place (os_acquired sc) s c w (os_trade sc) (os_placed_at sc) (ib_run b2 (os_limiting sc))) = (Inr i, placed)"
    using sub c r p by (cases r2) (auto simp: submit_awaits_def bindS_eq split: option.splits)
  then consider (rejected) "r2 = Inr None" "placed = b2"
    | (placed) s k w where "r2 = Inr (Some (s, k, w))" "submit_place (os_acquired sc) s k w (os_trade sc) (os_placed_at sc) (ib_run b2 (os_limiting sc)) = (Inr i, placed)"
    by (cases r2) (auto split: option.splits)
  then show ?thesis
  proof cases
    case rejected
    obtain e where "b2 = put_ib (BE_Order e) ?b1" "e_order e = o_id order" "e_kind e = EV_REJECTED"
      using submit_priced_None p rejected(1) by metis
    then have "EV_REJECTED \<in> set (ib_kinds cid placed)" using rejected(2) cid by (simp add: ib_kinds_def)
    with okp show ?thesis by simp
  next
    case placed
    have s: "o_id s = cid" "o_quantity s = o_quantity order" using submit_priced_Some p placed(1) cid by auto
    obtain u2 where a: "os_acquired sc = Inr u2" using placed(2) by (cases "os_acquired sc") (auto simp: submit_place_def)
    obtain e where "ib_order_event (o_id s) (venue_order_id (os_trade sc)) EV_SUBMITTED None None (os_placed_at sc) = Inr e"
      using placed(2) a by (cases "ib_order_event (o_id s) (venue_order_id (os_trade sc)) EV_SUBMITTED None None (os_placed_at sc)") (auto simp: submit_place_def)
    with placed(2) a have "ib_tracking placed cid = Some (new_tracking s)" by (auto simp: submit_place_def s(1))
    with okp s(2) show ?thesis by (simp add: new_tracking_def)
  qed
qed

lemma conduct_order_cases:
  assumes "conduct_order sc order led = Inr (out, acc, led')"
  obtains i placed d read b where "submit_awaits sc order (lg_broker led) = (Inr i, placed)"
    "ib_drain_order_lifecycle (o_id order) (os_wait sc) drain_start (lg_read led) placed = (d, read, b)"
    "out = order_outcome d" "acc = dr_accepted d" "lg_cash led' = lg_cash led" "lg_positions led' = lg_positions led"
    "out \<noteq> EngineCanceled \<Longrightarrow> lg_read led' = read \<and> lg_broker led' = b"
proof -
  obtain r placed where s: "submit_awaits sc order (lg_broker led) = (r, placed)" by (cases "submit_awaits sc order (lg_broker led)")
  obtain d read b where d: "ib_drain_order_lifecycle (o_id order) (os_wait sc) drain_start (lg_read led) placed = (d, read, b)"
    using prod_cases3 by blast
  obtain i where "r = Inr i" using assms s by (cases r) (simp_all add: conduct_order_def)
  with assms s d show thesis
    by (intro that [of i placed d read b]) (auto simp: conduct_order_def split: if_splits)
qed

lemma order_outcome_cases:
  "order_outcome d = Booked f \<Longrightarrow> dr_state d = FILLED \<and> (\<exists>ev. dr_fill d = Some ev \<and> e_fill ev = Some f)"
  "order_outcome d = Canceled \<Longrightarrow> dr_state d = CANCELED"
  "order_outcome d = Rejected \<Longrightarrow> dr_state d = REJECTED"
  by (auto simp: order_outcome_def split: OrderState.splits option.splits bind_splits)

lemma kinds_of_take_Nil: "kinds_of cid es = [] \<Longrightarrow> kinds_of cid (take n es) = []"
  by (metis append_is_Nil_conv append_take_drop_id kinds_of_simps(2))

lemma kinds_run_stays:
  assumes "kinds_run s0 (ks @ ks') = Some s'" "kinds_run s0 ks = Some s" "is_terminal s"
  shows "ks' = [] \<and> s' = s"
  using assms kinds_run_from_terminal [OF assms(3), of ks' s'] by (simp add: kinds_run_append)

text \<open>The events of the order that the drain read, when it ended with a terminal one, are all there are.\<close>

lemma conduct_read_all:
  assumes ok: "ib_ok cid (lg_broker led)" and fresh: "ib_kinds cid (lg_broker led) = []" and cid: "o_id order = cid"
    and read: "lg_read led \<le> length (ib_events (lg_broker led))"
    and al: "ib_run_allowed cid (lg_broker led) (submit_inputs sc order (lg_broker led) @ happenings (os_wait sc))"
    and res: "conduct_order sc order led = Inr (out, acc, led')" and out: "out \<noteq> EngineCanceled"
  obtains i placed d happened rest where "submit_awaits sc order (lg_broker led) = (Inr i, placed)" "out = order_outcome d" "acc = dr_accepted d"
    "ib_ok cid (lg_broker led')" "ib_fsm cid (lg_broker led') = dr_state d" "is_terminal (dr_state d)"
    "dr_fill d = last_fill_event None (order_events cid (ib_events (lg_broker led')))"
    "dr_accepted d \<longleftrightarrow> seen_accepted (ib_kinds cid (lg_broker led'))" "ib_tasks_of cid (lg_broker led') = []"
    "happenings (os_wait sc) = happened @ rest" "lg_broker led' = ib_run placed happened" "ib_run_allowed cid placed happened"
proof -
  obtain i placed d read b where c: "submit_awaits sc order (lg_broker led) = (Inr i, placed)"
    "ib_drain_order_lifecycle cid (os_wait sc) drain_start (lg_read led) placed = (d, read, b)"
    "out = order_outcome d" "acc = dr_accepted d" and l: "lg_read led' = read \<and> lg_broker led' = b"
    using conduct_order_cases [OF res] out unfolding cid by metis
  have run: "placed = ib_run (lg_broker led) (submit_inputs sc order (lg_broker led))"
    using submit_awaits_run [of sc order "lg_broker led"] c(1) by simp
  have okp: "ib_ok cid placed" "ib_run_allowed cid placed (happenings (os_wait sc))"
    using al ok by (simp_all add: run ib_run_allowed_append ib_run_ok)
  have g: "events_grow (lg_broker led) placed" unfolding run by (rule ib_run_grows)
  then have fp: "kinds_of cid (take (lg_read led) (ib_events placed)) = []" and rp: "lg_read led \<le> length (ib_events placed)"
  proof -
    have "kinds_of cid (take (lg_read led) (ib_events (lg_broker led))) = []" using fresh by (simp add: ib_kinds_def kinds_of_take_Nil)
    then show "kinds_of cid (take (lg_read led) (ib_events placed)) = []" "lg_read led \<le> length (ib_events placed)"
      using g read by (auto simp: events_grow_def)
  qed
  note m = drain_machine [OF okp fp rp c(2)]
  let ?seen = "take read (ib_events b)"
  have t: "is_terminal (dr_state d)"
    using out c(3) unfolding order_outcome_def is_terminal_def TERMINAL_ORDER_STATES_def
    by (auto split: OrderState.splits option.splits)
  have split: "ib_kinds cid b = kinds_of cid ?seen @ (kinds_of cid (drop read (ib_events b)) @ map task_kind (ib_tasks_of cid b))"
    unfolding ib_kinds_def by (metis append_assoc append_take_drop_id kinds_of_simps(2))
  have "kinds_run SUBMIT_PENDING (kinds_of cid ?seen @ (kinds_of cid (drop read (ib_events b)) @ map task_kind (ib_tasks_of cid b))) = Some (ib_fsm cid b)"
    using ib_ok_run [of cid b] m unfolding split by simp
  from kinds_run_stays [OF this _ t] m have
    rest: "kinds_of cid (drop read (ib_events b)) = []" "ib_tasks_of cid b = []" "ib_fsm cid b = dr_state d" by auto
  then have ks: "ib_kinds cid b = kinds_of cid ?seen" using split by simp
  have "order_events cid (drop read (ib_events b)) = []" using rest(1) by (simp add: kinds_of_order_events)
  then have oe: "order_events cid ?seen = order_events cid (ib_events b)"
    by (metis append_Nil2 append_take_drop_id order_events_simps(2))
  obtain happened tail where h: "happenings (os_wait sc) = happened @ tail" "b = ib_run placed happened"
    by (rule drain_reads [OF c(2) rp])
  have "ib_run_allowed cid placed happened" using okp(2) h(1) by (simp add: ib_run_allowed_append)
  with that [OF c(1,3,4), of happened tail] m rest t ks oe h l show thesis by simp
qed

lemma last_fill_event_snoc: "needs_fill (e_kind ev) \<Longrightarrow> last_fill_event f (evs @ [ev]) = Some ev"
  by (simp add: last_fill_event_def)

lemma kinds_run_to_FILLED: "kinds_run SUBMIT_PENDING ks = Some FILLED \<Longrightarrow> EV_REJECTED \<notin> set ks \<and> (\<exists>ks'. ks = ks' @ [EV_FILLED])"
proof -
  assume r: "kinds_run SUBMIT_PENDING ks = Some FILLED"
  then obtain ks' k where ks: "ks = ks' @ [k]" by (cases ks rule: rev_cases) auto
  with r obtain s1 where "kind_step s1 k = Some FILLED" by (auto simp: kinds_run_snoc)
  then have k: "k = EV_FILLED" by (cases s1; cases k) auto
  have "EV_REJECTED \<notin> set ks'"
  proof
    assume "EV_REJECTED \<in> set ks'"
    then obtain a c where "ks' = a @ EV_REJECTED # c" by (meson split_list)
    then have "kinds_run SUBMIT_PENDING (a @ EV_REJECTED # (c @ [k])) = Some FILLED" using r ks by simp
    from kinds_run_terminal_last [OF this] show False by (simp add: terminal_kind_def)
  qed
  with ks k show ?thesis by simp
qed

text \<open>Where the wait for an order ends: how much of the queue was read, and the broker.\<close>

definition wait_end :: "order_script \<Rightarrow> Order \<Rightarrow> ib_ledger \<Rightarrow> nat \<times> IBBroker" where
  "wait_end sc order led =
     snd (ib_drain_order_lifecycle (o_id order) (os_wait sc) drain_start (lg_read led) (snd (submit_awaits sc order (lg_broker led))))"

definition kinds_read :: "uuid \<Rightarrow> nat \<times> IBBroker \<Rightarrow> OrderEventKind list" where
  "kinds_read cid rb = kinds_of cid (take (fst rb) (ib_events (snd rb)))"

lemma kinds_run_reached: "kinds_run SUBMIT_PENDING ks = Some EXPIRED \<Longrightarrow> EV_EXPIRED \<in> set ks"
proof (cases ks rule: rev_cases)
  case (snoc ks' k)
  assume "kinds_run SUBMIT_PENDING ks = Some EXPIRED"
  then obtain s1 where "kind_step s1 k = Some EXPIRED" by (auto simp: snoc kinds_run_snoc)
  then show ?thesis by (cases s1; cases k) (auto simp: snoc)
qed simp

lemma last_fill_event_seen:
  "last_fill_event None evs = None \<Longrightarrow> list_all (\<lambda>ev. \<not> needs_fill (e_kind ev)) evs"
  "last_fill_event None evs = Some ev \<Longrightarrow> ev \<in> set evs \<and> needs_fill (e_kind ev)"
  by (induction evs rule: rev_induct) (auto simp: last_fill_event_def split: if_splits)

text \<open>An order the engine cancels: every wait ended without a terminal event.\<close>

lemma conduct_timed_out:
  assumes ok: "ib_ok cid (lg_broker led)" and fresh: "ib_kinds cid (lg_broker led) = []" and cid: "o_id order = cid"
    and read: "lg_read led \<le> length (ib_events (lg_broker led))"
    and al: "ib_run_allowed cid (lg_broker led) (submit_inputs sc order (lg_broker led) @ happenings (os_wait sc))"
    and res: "conduct_order sc order led = Inr (EngineCanceled, acc, led')"
  shows "(\<exists>s. kinds_run SUBMIT_PENDING (kinds_read cid (wait_end sc order led)) = Some s \<and> \<not> is_terminal s) \<and>
    snd (wait_end sc order led) = ib_run (lg_broker led) (submit_inputs sc order (lg_broker led) @ happenings (os_wait sc)) \<and>
    (acc \<longleftrightarrow> seen_accepted (kinds_read cid (wait_end sc order led))) \<and>
    engine_cancel sc cid (wait_end sc order led) = Inr (lg_read led', lg_broker led')"
proof -
  obtain i placed where s: "submit_awaits sc order (lg_broker led) = (Inr i, placed)"
    using res by (cases "submit_awaits sc order (lg_broker led)"; cases "fst (submit_awaits sc order (lg_broker led))") (auto simp: conduct_order_def)
  obtain d r b where d: "ib_drain_order_lifecycle cid (os_wait sc) drain_start (lg_read led) placed = (d, r, b)" using prod_cases3 by blast
  have w: "wait_end sc order led = (r, b)" using s d cid by (simp add: wait_end_def)
  have out: "order_outcome d = EngineCanceled" "acc = dr_accepted d" "engine_cancel sc cid (r, b) = Inr (lg_read led', lg_broker led')"
    using res s d cid by (auto simp: conduct_order_def bindR_eq_Inr split: if_splits)
  have run: "placed = ib_run (lg_broker led) (submit_inputs sc order (lg_broker led))"
    using submit_awaits_run [of sc order "lg_broker led"] s by simp
  have okp: "ib_ok cid placed" "ib_run_allowed cid placed (happenings (os_wait sc))"
    using al ok by (simp_all add: run ib_run_allowed_append ib_run_ok)
  have g: "events_grow (lg_broker led) placed" unfolding run by (rule ib_run_grows)
  have fp: "kinds_of cid (take (lg_read led) (ib_events placed)) = []" "lg_read led \<le> length (ib_events placed)"
    using g read fresh kinds_of_take_Nil [of cid "ib_events (lg_broker led)"] by (auto simp: events_grow_def ib_kinds_def)
  note m = drain_machine [OF okp fp d]
  let ?es = "order_events cid (take r (ib_events b))"
  have "reports_ok cid b"
    using drain_reads [OF d fp(2)] ib_run_reports [OF reports_ok_fresh [OF fresh]] unfolding run by (metis ib_run_append)
  then have c: "list_all carried_ok ?es"
    by (metis append_assoc append_take_drop_id list_all_append order_events_simps(2) reports_ok_def)
  have kr: "kinds_run SUBMIT_PENDING (map e_kind ?es) = Some (dr_state d)" using m by (simp add: kinds_of_order_events)
  have "dr_state d \<noteq> EXPIRED"
  proof
    assume "dr_state d = EXPIRED"
    with kr kinds_run_reached [of "map e_kind ?es"] have "EV_EXPIRED \<in> set (map e_kind ?es)" by simp
    with c show False by (auto simp: carried_ok_def list_all_iff)
  qed
  moreover have "dr_state d \<noteq> FILLED"
  proof
    assume f: "dr_state d = FILLED"
    with kr kinds_run_to_FILLED have "EV_FILLED \<in> set (map e_kind ?es)" by fastforce
    then have "\<not> list_all (\<lambda>ev. \<not> needs_fill (e_kind ev)) ?es" by (fastforce simp: list_all_iff needs_fill_def)
    then obtain ev where "last_fill_event None ?es = Some ev" using last_fill_event_seen(1) by blast
    then have ev: "dr_fill d = Some ev" "ev \<in> set ?es" "needs_fill (e_kind ev)" using m last_fill_event_seen(2) by auto
    with c obtain fill where "e_fill ev = Some fill" by (auto simp: carried_ok_def list_all_iff)
    with f ev out(1) show False by (simp add: order_outcome_def)
  qed
  ultimately have "\<not> is_terminal (dr_state d)"
    using out(1) by (auto simp: order_outcome_def is_terminal_def TERMINAL_ORDER_STATES_def split: OrderState.splits option.splits)
  then show ?thesis using m out unfolding w kinds_read_def ib_run_append run [symmetric] by auto
qed

text \<open>An order whose drain booked a fill: what the broker reported for it.\<close>

lemma booked_fills:
  assumes ok: "ib_ok cid (lg_broker led)" "fills_ok cid (lg_broker led)" and fresh: "ib_kinds cid (lg_broker led) = []"
    and cid: "o_id order = cid" and read: "lg_read led \<le> length (ib_events (lg_broker led))"
    and al: "ib_run_allowed cid (lg_broker led) (submit_inputs sc order (lg_broker led) @ happenings (os_wait sc))"
    and res: "conduct_order sc order led = Inr (Booked f, acc, led')"
  obtains fs where "ib_fills cid (lg_broker led') = fs @ [f]" "distinct (map f_exec (fs @ [f]))"
    "list_all (\<lambda>g. mk_Fill g = Inr g \<and> f_order g = cid) (fs @ [f])"
    "o_quantity order \<le> foldl dadd dzero (map f_quantity (fs @ [f]))"
proof -
  obtain i placed d happened rest where c: "submit_awaits sc order (lg_broker led) = (Inr i, placed)" "Booked f = order_outcome d"
    "ib_ok cid (lg_broker led')" "ib_fsm cid (lg_broker led') = dr_state d"
    "dr_fill d = last_fill_event None (order_events cid (ib_events (lg_broker led')))" "ib_tasks_of cid (lg_broker led') = []"
    "lg_broker led' = ib_run placed happened" "ib_run_allowed cid placed happened"
    by (rule conduct_read_all [OF ok(1) fresh cid read al res]) simp
  let ?b = "lg_broker led'"
  have d: "dr_state d = FILLED" using order_outcome_cases(1) [OF c(2) [symmetric]] by simp
  obtain ev where ev: "dr_fill d = Some ev" "e_fill ev = Some f" using order_outcome_cases(1) [OF c(2) [symmetric]] by blast
  have kr: "kinds_run SUBMIT_PENDING (ib_kinds cid ?b) = Some FILLED" using ib_ok_run [OF c(3)] by (simp add: c(4) d)
  have ks: "ib_kinds cid ?b = map e_kind (order_events cid (ib_events ?b))" by (simp add: ib_kinds_def c(6) kinds_of_order_events)
  obtain evs l where evs: "order_events cid (ib_events ?b) = evs @ [l]" "e_kind l = EV_FILLED"
  proof (cases "order_events cid (ib_events ?b)" rule: rev_cases)
    case (snoc ys y)
    with kinds_run_to_FILLED [OF kr] ks that show thesis by simp
  qed (use kinds_run_to_FILLED [OF kr] ks in simp)
  then have "l = ev" using c(5) ev(1) by (simp add: last_fill_event_snoc needs_fill_def)
  then have fills: "ib_fills cid ?b = List.map_filter e_fill evs @ [f]"
    using evs ev(2) by (simp add: ib_fills_def c(6) List.map_filter_def)
  have run: "placed = ib_run (lg_broker led) (submit_inputs sc order (lg_broker led))"
    using submit_awaits_run [of sc order "lg_broker led"] c(1) by simp
  have al1: "ib_run_allowed cid (lg_broker led) (submit_inputs sc order (lg_broker led))" using al by (simp add: ib_run_allowed_append)
  have okp: "ib_ok cid placed" unfolding run by (rule ib_run_ok [OF ok(1) al1])
  obtain new where new: "ib_kinds cid ?b = ib_kinds cid placed @ new" using ib_run_kinds [OF okp c(8)] c(7) by auto
  with kinds_run_to_FILLED [OF kr] have "EV_REJECTED \<notin> set (ib_kinds cid placed)" by auto
  with submit_tracks [OF ok(1) cid al1 c(1)] obtain t where "ib_tracking placed cid = Some t" "ot_total t = o_quantity order" by blast
  then obtain t' where t': "ib_tracking ?b cid = Some t'" "ot_total t' = o_quantity order"
    using ib_run_total [OF okp c(8)] c(7) by auto
  have fo: "fills_ok cid ?b"
    using ib_run_fills [OF ok, of "submit_inputs sc order (lg_broker led) @ happened"] al1 c(7,8) run
    by (simp add: ib_run_append ib_run_allowed_append)
  have "EV_FILLED \<in> set (ib_kinds cid ?b)" using kinds_run_to_FILLED [OF kr] by auto
  with fo t' that [of "List.map_filter e_fill evs"] show thesis
    by (auto simp: fills_ok_def filled_reported_def list_all_iff fills)
qed

text \<open>C5: the outcome the pipeline counts for an order put in flight afresh, whatever else happens while it waits.  For a booked
  fill, a cancellation or a rejection the broker's events for the order are those of a run that ended FILLED, CANCELED or
  REJECTED, and the order counts as accepted exactly when it was reported accepted or filled.  An order counted as cancelled by
  the engine is one the wait timed out on: everything the wait held had happened, the events read by then are those of a run that
  ended in a state that is not terminal, it counts as accepted exactly when these report it accepted or partly filled, and its
  cancellation is what happens next.
  What is reported after the wait counts for nothing: an order that fills while its cancellation is on the way is still
  counted as cancelled (\<open>late_fill_not_booked\<close>).\<close>

theorem ib_outcome_conforms:
  assumes "ib_ok cid (lg_broker led)" "ib_kinds cid (lg_broker led) = []" "o_id order = cid"
    and "lg_read led \<le> length (ib_events (lg_broker led))"
    and "ib_run_allowed cid (lg_broker led) (submit_inputs sc order (lg_broker led) @ happenings (os_wait sc))"
    and "conduct_order sc order led = Inr (out, acc, led')"
  shows "case out of
      EngineCanceled \<Rightarrow>
        (\<exists>s. kinds_run SUBMIT_PENDING (kinds_read cid (wait_end sc order led)) = Some s \<and> \<not> is_terminal s) \<and>
        snd (wait_end sc order led) = ib_run (lg_broker led) (submit_inputs sc order (lg_broker led) @ happenings (os_wait sc)) \<and>
        (acc \<longleftrightarrow> seen_accepted (kinds_read cid (wait_end sc order led))) \<and>
        engine_cancel sc cid (wait_end sc order led) = Inr (lg_read led', lg_broker led')
    | _ \<Rightarrow> kinds_run SUBMIT_PENDING (ib_kinds cid (lg_broker led')) =
        Some (case out of Booked _ \<Rightarrow> FILLED | Rejected \<Rightarrow> REJECTED | _ \<Rightarrow> CANCELED) \<and>
      (acc \<longleftrightarrow> seen_accepted (ib_kinds cid (lg_broker led')))"
proof (cases "out = EngineCanceled")
  case True
  with conduct_timed_out [OF assms(1-5)] assms(6) show ?thesis by simp
next
  case False
  obtain i placed d happened rest where c: "out = order_outcome d" "acc = dr_accepted d"
    "ib_ok cid (lg_broker led')" "ib_fsm cid (lg_broker led') = dr_state d" "dr_accepted d \<longleftrightarrow> seen_accepted (ib_kinds cid (lg_broker led'))"
    by (rule conduct_read_all [OF assms False]) simp
  have "dr_state d = (case out of Booked _ \<Rightarrow> FILLED | Rejected \<Rightarrow> REJECTED | _ \<Rightarrow> CANCELED)"
    using order_outcome_cases [of d] False by (cases out) (simp_all add: c(1) [symmetric])
  then show ?thesis using False ib_ok_run [OF c(3)] c(2,4,5) by (cases out) simp_all
qed

text \<open>C8: only the last execution of an order is booked: when the wait ends with FILLED, the fills the broker reported for the
  order are distinct executions that reach its quantity, but the strategy's position moves by the last of them alone, so it
  follows the broker exactly when the order filled in one execution.\<close>

theorem only_last_execution_booked:
  assumes "ib_ok cid (lg_broker led)" "fills_ok cid (lg_broker led)" "ib_kinds cid (lg_broker led) = []" "o_id order = cid"
    and "lg_read led \<le> length (ib_events (lg_broker led))"
    and "ib_run_allowed cid (lg_broker led) (submit_inputs sc order (lg_broker led) @ happenings (os_wait sc))"
    and "conduct_order sc order led = Inr (Booked f, acc, led')"
    and "held i sid (map_of (lg_positions led) key)" "fill_for i (f, t)" "Instrument_ok i" "sid \<noteq> []"
    and "repr28 (pos_qty (map_of (lg_positions led) key) + fill_qty f)"
  shows "\<exists>fs led''. ib_fills cid (lg_broker led') = fs @ [f] \<and> distinct (map f_exec (fs @ [f])) \<and>
    o_quantity order \<le> foldl dadd dzero (map f_quantity (fs @ [f])) \<and>
    book_outcome sid key t (Booked f) led' = Inr led'' \<and>
    pos_qty (map_of (lg_positions led'') key) = pos_qty (map_of (lg_positions led) key) + fill_qty f \<and>
    (\<bar>fill_qty f\<bar> = (\<Sum>g\<leftarrow>fs @ [f]. dval (f_quantity g)) \<longleftrightarrow> fs = [])"
proof -
  obtain fs where fs: "ib_fills cid (lg_broker led') = fs @ [f]" "distinct (map f_exec (fs @ [f]))"
    "list_all (\<lambda>g. mk_Fill g = Inr g \<and> f_order g = cid) (fs @ [f])" "o_quantity order \<le> foldl dadd dzero (map f_quantity (fs @ [f]))"
    by (rule booked_fills [OF assms(1-7)])
  have pos: "lg_positions led' = lg_positions led" by (rule conduct_order_cases [OF assms(7)]) simp
  let ?p = "map_of (lg_positions led) key"
  obtain q where q: "apply_fill ?p f sid t = Inr q" by (rule apply_fill_held [OF assms(8-11)])
  have g: "0 < dval (f_quantity g)" if "mk_Fill g = Inr g" for g
    using that by (auto simp: mk_Fill_def validated_eq_Inr Fill_checks_def decimal_simps split: if_splits)
  have "dval (p_quantity q) = pos_qty ?p + fill_qty f"
  proof (rule apply_fill_quantity [OF _ _ _ _ assms(11) _ _ assms(12) q])
    show "\<forall>q. ?p = Some q \<longrightarrow> Position_ok q" "matches ?p f sid" "Fill_ok f" "Instrument_ok (f_instrument f)" "is_utc t" "repr28 (dval (f_quantity f))"
      using assms(8-10) by (auto simp: held_def fill_for_def matches_def split: option.split)
  qed
  moreover have "\<bar>fill_qty f\<bar> = dval (f_quantity f)" using g [of f] fs(3) by (simp add: fill_qty_def split: OrderSide.split)
  moreover have "fs = [] \<longleftrightarrow> (\<Sum>g\<leftarrow>fs. dval (f_quantity g)) = 0"
  proof -
    have "list_all (\<lambda>g. 0 < dval (f_quantity g)) fs" using fs(3) g by (auto simp: list_all_iff)
    then have "0 < (\<Sum>g\<leftarrow>fs. dval (f_quantity g))" if "fs \<noteq> []"
      using that
    proof (induction fs)
      case (Cons a fs)
      then show ?case by (cases "fs = []") (simp_all add: add_pos_pos)
    qed simp
    then show ?thesis by (cases fs) auto
  qed
  ultimately show ?thesis using fs q pos
    by (intro exI [of _ fs] exI) (auto simp: book_outcome_def pos_qty_def update_conv')
qed

definition ex_script :: order_script where
  "ex_script = \<lparr>os_id = 7, os_increments = Inr [], os_pricing = [], os_priced_at = utc 1, os_acquired = Inr (), os_limiting = [],
     os_trade = ex_trade ''Submitted'' [], os_placed_at = utc 1,
     os_wait = [Happen (I_Status 7 (utc 2)), Receive, Happen (I_Task (utc 2)), Receive,
       Happen (I_Fill 7 (ex_ib_fill ''e1'' ''1.0'') (\<lambda>_. utc 2)), Happen (I_Task (utc 3)), Receive,
       Happen (I_Fill 7 (ex_ib_fill ''e2'' ''2.0'') (\<lambda>_. utc 4)), Happen (I_Task (utc 4)), Receive],
     os_cancel_acquired = Inr (), os_final = []\<rparr>"

definition ex_led :: ib_ledger where
  "ex_led = \<lparr>lg_broker = ex_ib, lg_read = 0, lg_cash = dint 1000, lg_positions = []\<rparr>"

definition ex_exec_fill :: "string \<Rightarrow> int \<Rightarrow> datetime \<Rightarrow> Fill" where
  "ex_exec_fill e n t = \<lparr>f_order = 7, f_venue_order = ''5'', f_exec = e, f_instrument = ex_cac, f_side = BUY, f_quantity = Dec (10 * n) (-1),
     f_price = Dec 101 (-1), f_commission = dint 0, f_currency = ''EUR'', f_time = t\<rparr>"

lemma ex_fills:
  "fill_of 7 \<lparr>ot_total = dint 3, ot_instrument = ex_cac, ot_side = BUY, ot_accepted = True, ot_terminal = False, ot_seen = [''e1''], ot_filled = dint 0\<rparr>
     (ex_trade ''Submitted'' []) \<lparr>ex_execId = ''e1'', ex_shares = ''1.0'', ex_price = ''10.1'', ex_time = None\<rparr> (ex_ib_fill ''e1'' ''1.0'') (utc 2)
   = Inr (ex_exec_fill ''e1'' 1 (utc 2))"
  "fill_of 7 \<lparr>ot_total = dint 3, ot_instrument = ex_cac, ot_side = BUY, ot_accepted = True, ot_terminal = False, ot_seen = [''e2'', ''e1''], ot_filled = Dec 10 (-1)\<rparr>
     (ex_trade ''Submitted'' []) \<lparr>ex_execId = ''e2'', ex_shares = ''2.0'', ex_price = ''10.1'', ex_time = None\<rparr> (ex_ib_fill ''e2'' ''2.0'') (utc 4)
   = Inr (ex_exec_fill ''e2'' 2 (utc 4))"
  by code_simp+

lemma ex_sums: "dadd (dint 0) (Dec 10 (-1)) = Dec 10 (-1)" "dadd (Dec 10 (-1)) (Dec 20 (-1)) = Dec 30 (-1)"
  by code_simp+

lemma ex_wire: "blive_to_ib_order ex_mkt = Inr (ex_ib_order\<lparr>ob_orderRef := []\<rparr>)" by code_simp

lemma ex_submitted:
  "submit_awaits ex_script ex_mkt ex_ib = (Inr 7, ex_ib\<lparr>ib_placed := [(ex_cac_contract, ex_ib_order\<lparr>ob_orderRef := show_uuid 7\<rparr>)],
     ib_trades := [7 \<mapsto> ex_trade ''Submitted'' []], ib_tracking := [7 \<mapsto> new_tracking ex_mkt],
     ib_events := [BE_Order \<lparr>e_order = 7, e_venue_order = Some ''5'', e_kind = EV_SUBMITTED, e_reason = None, e_time = utc 1, e_fill = None\<rparr>]\<rparr>)"
proof -
  have s: "snap_order_prices p (Inr []) ex_mkt = Inr ex_mkt" for p
    by (simp add: snap_order_prices_def ex_mkt_def ex_limit_order_def)
  have e: "ib_order_event 7 (venue_order_id (ex_trade ''Submitted'' [])) EV_SUBMITTED None None (utc 1) =
    Inr \<lparr>e_order = 7, e_venue_order = Some ''5'', e_kind = EV_SUBMITTED, e_reason = None, e_time = utc 1, e_fill = None\<rparr>"
    by code_simp
  have o: "o_id ex_mkt = 7" "o_instrument ex_mkt = ex_cac" by (simp_all add: ex_mkt_def ex_limit_order_def)
  show ?thesis
    by (simp add: submit_awaits_def bindS_def submit_check_def require_connected_def ex_ib_def ib_init_def ex_script_def submit_priced_def s o
        ex_cac_facts(2) ex_wire submit_place_def e put_ib_def set_tracking_def)
qed

lemma ex_venue: "venue_order_id (ex_trade ''Submitted'' []) = Some ''5''" "it_status (ex_trade ''Submitted'' []) = ''Submitted''"
  by code_simp+

lemma ex_sizes: "\<not> dint 3 \<le> Dec 10 (-1)" "dint 3 \<le> Dec 30 (-1)"
  by (simp_all add: decimal_simps power_int_def)

lemma ex_conducted:
  obtains led' where "conduct_order ex_script ex_mkt ex_led = Inr (Booked (ex_exec_fill ''e2'' 2 (utc 4)), True, led')"
proof -
  let ?b = "ex_ib\<lparr>ib_placed := [(ex_cac_contract, ex_ib_order\<lparr>ob_orderRef := show_uuid 7\<rparr>)],
     ib_trades := [7 \<mapsto> ex_trade ''Submitted'' []], ib_tracking := [7 \<mapsto> new_tracking ex_mkt],
     ib_events := [BE_Order \<lparr>e_order = 7, e_venue_order = Some ''5'', e_kind = EV_SUBMITTED, e_reason = None, e_time = utc 1, e_fill = None\<rparr>]\<rparr>"
  have o: "new_tracking ex_mkt = \<lparr>ot_total = dint 3, ot_instrument = ex_cac, ot_side = BUY, ot_accepted = False, ot_terminal = False, ot_seen = [], ot_filled = dint 0\<rparr>"
    by (simp add: new_tracking_def ex_mkt_def ex_limit_order_def)
  obtain read b where "ib_drain_order_lifecycle 7 (os_wait ex_script) drain_start 0 ?b =
      (\<lparr>dr_state = FILLED, dr_fill = Some \<lparr>e_order = 7, e_venue_order = Some ''5'', e_kind = EV_FILLED, e_reason = None, e_time = utc 4,
         e_fill = Some (ex_exec_fill ''e2'' 2 (utc 4))\<rparr>, dr_accepted = True\<rparr>, read, b)"
    by (simp add: ex_script_def o ex_ib_def ib_init_def on_order_status_def accepted_status_def ex_venue spawn_event_def
        ib_order_event_ok payload_ok_def needs_fill_def set_tracking_def spawn_def run_task_def put_ib_def drain_event_def drain_start_def
        on_order_fill_def ex_ib_fill_def ex_fills [unfolded ex_ib_fill_def] imply_accepted_def report_fill_def Let_def ex_exec_fill_def ex_sums ex_sizes)
  moreover have "o_id ex_mkt = 7" by (simp add: ex_mkt_def ex_limit_order_def)
  ultimately show thesis
    using that by (simp add: conduct_order_def ex_led_def ex_submitted order_outcome_def)
qed

lemma ex_eur: "iso_currency ''EUR''" by code_simp

lemma ex_start:
  "ib_ok 7 (lg_broker ex_led)" "fills_ok 7 (lg_broker ex_led)" "ib_kinds 7 (lg_broker ex_led) = []" "o_id ex_mkt = 7"
  "lg_read ex_led \<le> length (ib_events (lg_broker ex_led))"
  by (simp_all add: ex_led_def ex_ib_def ib_init_def ib_ok_def ib_kinds_def ib_tasks_of_def tracked_shape_def deferred_last_def
      fills_ok_def ib_fills_def filled_reported_def List.map_filter_simps ex_mkt_def ex_limit_order_def)

lemma ex_allowed: "ib_run_allowed 7 (lg_broker ex_led) (submit_inputs ex_script ex_mkt (lg_broker ex_led) @ happenings (os_wait ex_script))"
proof -
  have p: "submit_priced (os_increments ex_script) ex_mkt (os_priced_at ex_script) ex_ib =
      (Inr (Some (ex_mkt, ex_cac_contract, ex_ib_order\<lparr>ob_orderRef := show_uuid 7\<rparr>)), ex_ib)"
    by (simp add: submit_priced_def snap_order_prices_def ex_script_def ex_cac_facts(2) ex_wire ex_start(4))
      (simp add: ex_mkt_def ex_limit_order_def ex_cac_facts(2))
  have c: "submit_check ex_mkt ex_ib = (Inr (), ex_ib)"
    by (simp add: submit_check_def require_connected_def bindS_def ex_ib_def ib_init_def)
  have "submit_inputs ex_script ex_mkt ex_ib =
      [I_Check ex_mkt, I_Priced (Inr []) ex_mkt (utc 1), I_Place (Inr ()) ex_mkt ex_cac_contract (ex_ib_order\<lparr>ob_orderRef := show_uuid 7\<rparr>) (ex_trade ''Submitted'' []) (utc 1)]"
    using p by (simp add: submit_inputs_def c) (simp add: ex_script_def)
  moreover have "ib_run ex_ib (submit_inputs ex_script ex_mkt ex_ib) = snd (submit_awaits ex_script ex_mkt ex_ib)" by (simp add: submit_awaits_run)
  moreover have "happenings (os_wait ex_script) = [I_Status 7 (utc 2), I_Task (utc 2), I_Fill 7 (ex_ib_fill ''e1'' ''1.0'') (\<lambda>_. utc 2),
      I_Task (utc 3), I_Fill 7 (ex_ib_fill ''e2'' ''2.0'') (\<lambda>_. utc 4), I_Task (utc 4)]" by (simp add: ex_script_def)
  moreover have "ib_step ex_ib (I_Check ex_mkt) = ex_ib" "ib_step ex_ib (I_Priced (Inr []) ex_mkt (utc 1)) = ex_ib"
    using p c by (simp_all add: ex_script_def)
  moreover have "ib_tracking ex_ib 7 = None" "ib_kinds 7 ex_ib = []" using ex_start(3) by (simp_all add: ex_led_def ex_ib_def ib_init_def)
  ultimately show ?thesis
    by (simp add: ib_run_allowed_append ex_led_def ex_submitted ex_venue rejected_status_def del: ib_step.simps)
qed

text \<open>An order that is accepted and fills after the wait: it counts as cancelled and not accepted, and nothing is booked.\<close>

definition ex_late_script :: order_script where
  "ex_late_script = ex_script\<lparr>os_wait := [Receive],
     os_final := [Happen (I_Status 7 (utc 2)), Happen (I_Task (utc 2)), Receive,
       Happen (I_Fill 7 (ex_ib_fill ''e2'' ''3.0'') (\<lambda>_. utc 4)), Happen (I_Task (utc 4)), Receive]\<rparr>"

lemma ex_late_fill:
  "fill_of 7 \<lparr>ot_total = dint 3, ot_instrument = ex_cac, ot_side = BUY, ot_accepted = True, ot_terminal = False, ot_seen = [''e2''], ot_filled = dint 0\<rparr>
     (ex_trade ''Submitted'' []) \<lparr>ex_execId = ''e2'', ex_shares = ''3.0'', ex_price = ''10.1'', ex_time = None\<rparr> (ex_ib_fill ''e2'' ''3.0'') (utc 4)
   = Inr (ex_exec_fill ''e2'' 3 (utc 4))"
  "dadd (dint 0) (Dec 30 (-1)) = Dec 30 (-1)"
  by code_simp+

lemma late_fill_not_booked:
  "\<exists>led'. conduct_order ex_late_script ex_mkt ex_led = Inr (EngineCanceled, False, led') \<and>
     kinds_run SUBMIT_PENDING (ib_kinds 7 (lg_broker led')) = Some FILLED \<and> seen_accepted (ib_kinds 7 (lg_broker led')) \<and>
     lg_positions led' = [] \<and> lg_cash led' = lg_cash ex_led"
proof -
  have f: "os_pricing ex_late_script = os_pricing ex_script" "os_increments ex_late_script = os_increments ex_script"
    "os_priced_at ex_late_script = os_priced_at ex_script" "os_limiting ex_late_script = os_limiting ex_script" "os_trade ex_late_script = os_trade ex_script"
    "os_acquired ex_late_script = os_acquired ex_script" "os_placed_at ex_late_script = os_placed_at ex_script"
    by (simp_all add: ex_late_script_def)
  have s: "submit_awaits ex_late_script ex_mkt = submit_awaits ex_script ex_mkt" unfolding submit_awaits_def f ..
  have o: "new_tracking ex_mkt = \<lparr>ot_total = dint 3, ot_instrument = ex_cac, ot_side = BUY, ot_accepted = False, ot_terminal = False, ot_seen = [], ot_filled = dint 0\<rparr>" "o_id ex_mkt = 7"
    by (simp_all add: new_tracking_def ex_mkt_def ex_limit_order_def)
  let ?b = "ex_ib\<lparr>ib_placed := [(ex_cac_contract, ex_ib_order\<lparr>ob_orderRef := show_uuid 7\<rparr>)],
     ib_trades := [7 \<mapsto> ex_trade ''Submitted'' []], ib_tracking := [7 \<mapsto> new_tracking ex_mkt],
     ib_events := [BE_Order \<lparr>e_order = 7, e_venue_order = Some ''5'', e_kind = EV_SUBMITTED, e_reason = None, e_time = utc 1, e_fill = None\<rparr>]\<rparr>"
  have w: "ib_drain_order_lifecycle 7 (os_wait ex_late_script) drain_start 0 ?b = (drain_start\<lparr>dr_state := SUBMITTED\<rparr>, 1, ?b)"
    by (simp add: ex_late_script_def ex_ib_def ib_init_def drain_event_def)
  obtain read b where e: "engine_cancel ex_late_script 7 (1, ?b) = Inr (read, b)" and k: "ib_kinds 7 b = [EV_SUBMITTED, EV_ACCEPTED, EV_FILLED]"
    by (simp add: engine_cancel_def ib_cancel_def require_connected_def bindS_def ex_late_script_def ex_script_def o ex_ib_def ib_init_def
        on_order_status_def accepted_status_def ex_venue spawn_event_def ib_order_event_ok payload_ok_def needs_fill_def set_tracking_def spawn_def
        run_task_def put_ib_def drain_event_def drain_start_def on_order_fill_def ex_ib_fill_def ex_late_fill [unfolded ex_ib_fill_def]
        imply_accepted_def report_fill_def Let_def ex_exec_fill_def ex_sizes ib_kinds_def ib_tasks_of_def)
  have "conduct_order ex_late_script ex_mkt ex_led = Inr (EngineCanceled, False, ex_led\<lparr>lg_read := read, lg_broker := b\<rparr>)"
    using w e by (simp add: conduct_order_def s ex_submitted ex_led_def o(2) order_outcome_def drain_start_def)
  then show ?thesis using k by (intro exI) (auto simp: ex_led_def seen_accepted_def needs_fill_def)
qed

theorem only_last_execution_booked_witness:
  "\<exists>led' fs led''. conduct_order ex_script ex_mkt ex_led = Inr (Booked (ex_exec_fill ''e2'' 2 (utc 4)), True, led') \<and>
     o_quantity ex_mkt = dint 3 \<and> ib_fills 7 (lg_broker led') = fs @ [ex_exec_fill ''e2'' 2 (utc 4)] \<and> fs \<noteq> [] \<and>
     book_outcome ''s'' ''CAC.PA'' (utc 5) (Booked (ex_exec_fill ''e2'' 2 (utc 4))) led' = Inr led'' \<and>
     pos_qty (map_of (lg_positions led'') ''CAC.PA'') = 2"
proof -
  let ?f = "ex_exec_fill ''e2'' 2 (utc 4)"
  obtain led' where c: "conduct_order ex_script ex_mkt ex_led = Inr (Booked ?f, True, led')" by (rule ex_conducted)
  have q: "fill_qty ?f = 2" "repr28 (2 :: rat)" "pos_qty (map_of (lg_positions ex_led) ''CAC.PA'') = 0"
    using repr28_of_int [of 2] by (simp_all add: ex_exec_fill_def fill_qty_def power_int_def ex_led_def pos_qty_def)
  have f: "fill_for ex_cac (?f, utc 5)"
    using ex_eur q(2)
    by (simp add: fill_for_def Fill_ok_def Fill_checks_def ex_exec_fill_def decimal_simps require_utc_def require_iso_currency_def power_int_def)
  have s: "held ex_cac ''s'' (map_of (lg_positions ex_led) ''CAC.PA'')" "Instrument_ok ex_cac"
    using ex_cac_facts(1) by (simp_all add: ex_led_def held_def Instrument_ok_def mk_Instrument_def validated_eq_Inr)
  obtain fs led'' where r: "ib_fills 7 (lg_broker led') = fs @ [?f]" "o_quantity ex_mkt \<le> foldl dadd dzero (map f_quantity (fs @ [?f]))"
    "book_outcome ''s'' ''CAC.PA'' (utc 5) (Booked ?f) led' = Inr led''" "pos_qty (map_of (lg_positions led'') ''CAC.PA'') = 2"
    using only_last_execution_booked [OF ex_start ex_allowed c s(1) f s(2)] q by auto
  have o: "o_quantity ex_mkt = dint 3" by (simp add: ex_mkt_def ex_limit_order_def)
  have "dadd (dint 0) (Dec 20 (-1)) = Dec 20 (-1)" by code_simp
  then have "fs \<noteq> []" using r(2) o by (auto simp: ex_exec_fill_def decimal_simps power_int_def)
  with c r o show ?thesis by blast
qed

theorem ib_outcome_conforms_witness:
  "\<exists>led'. conduct_order ex_script ex_mkt ex_led = Inr (Booked (ex_exec_fill ''e2'' 2 (utc 4)), True, led') \<and>
     kinds_run SUBMIT_PENDING (ib_kinds 7 (lg_broker led')) = Some FILLED \<and> seen_accepted (ib_kinds 7 (lg_broker led'))"
proof -
  obtain led' where c: "conduct_order ex_script ex_mkt ex_led = Inr (Booked (ex_exec_fill ''e2'' 2 (utc 4)), True, led')" by (rule ex_conducted)
  from ib_outcome_conforms [OF ex_start(1,3,4,5) ex_allowed c] c show ?thesis by auto
qed

end
