(* ===== verification/IBRuns.thy ===== *)
theory IBRuns
  imports IBPipeline "HOL-Library.Sublist"
begin

text \<open>
  What a run of the IB pipelines adds up to: the ledger it keeps of the fills it books, the counters of its result, the
  bars several instruments are priced at, and the limit prices it sends.
\<close>

section \<open>The ledger of a run\<close>

lemma forR_invariant:
  assumes "P [] s" "\<And>ys x zs s s'. xs = ys @ x # zs \<Longrightarrow> P ys s \<Longrightarrow> f x s = Inr s' \<Longrightarrow> P (ys @ [x]) s'" "forR f xs s = Inr s'"
  shows "P xs s'"
  using assms
proof (induction xs arbitrary: s P)
  case (Cons x xs)
  obtain s1 where s1: "f x s = Inr s1" "forR f xs s1 = Inr s'" using Cons.prems(3) by auto
  show ?case
  proof (rule Cons.IH [of "\<lambda>ys. P (x # ys)"])
    show "P [x] s1" using Cons.prems(2) [of "[]" x xs s s1] Cons.prems(1) s1(1) by simp
    show "P (x # ys @ [y]) s2'" if "xs = ys @ y # zs" "P (x # ys) s2" "f y s2 = Inr s2'" for ys y zs s2 s2'
      using Cons.prems(2) [of "x # ys" y zs s2 s2'] that by simp
  qed (rule s1(2))
qed simp

fun booked :: "order_outcome \<Rightarrow> Fill list" where
  "booked (Booked f) = [f]"
| "booked _ = []"

text \<open>
  The ledger is what replaying some of the published fills gives: each at most once, in the order of publication, on
  the position of its key.
\<close>

definition ledger_inv :: "string \<Rightarrow> (Fill \<Rightarrow> string) \<Rightarrow> decimal \<Rightarrow> Fill list \<Rightarrow> ib_ledger \<Rightarrow> bool" where
  "ledger_inv sid key cash fills led \<longleftrightarrow>
     lg_read led \<le> length (ib_events (lg_broker led)) \<and>
     subseq fills (event_fills (take (lg_read led) (ib_events (lg_broker led)))) \<and>
     lg_cash led = foldl book_cash cash fills \<and>
     (\<forall>k. \<exists>ts. length ts = length (filter (\<lambda>f. key f = k) fills) \<and>
        apply_fills None (zip (filter (\<lambda>f. key f = k) fills) ts) sid = Inr (map_of (lg_positions led) k))"

lemma drain_events_fill:
  assumes "drain_events target es d = (d', over)"
  shows "dr_fill d' = dr_fill d \<or> (\<exists>ev. dr_fill d' = Some ev \<and> BE_Order ev \<in> set es)"
    and "(dr_state d = FILLED \<longrightarrow> dr_accepted d) \<Longrightarrow> dr_state d' = FILLED \<longrightarrow> dr_accepted d'"
proof -
  have s: "(dr_fill d1 = dr_fill d \<or> (\<exists>ev. dr_fill d1 = Some ev \<and> e = BE_Order ev)) \<and>
      ((dr_state d = FILLED \<longrightarrow> dr_accepted d) \<longrightarrow> dr_state d1 = FILLED \<longrightarrow> dr_accepted d1)" if "drain_event target e d = (d1, ov)" for e d d1 ov
    using that by (auto simp: drain_event_def split: BrokerEvent.splits OrderEventKind.splits if_splits)
  have "(dr_fill d' = dr_fill d \<or> (\<exists>ev. dr_fill d' = Some ev \<and> BE_Order ev \<in> set es)) \<and>
     ((dr_state d = FILLED \<longrightarrow> dr_accepted d) \<longrightarrow> dr_state d' = FILLED \<longrightarrow> dr_accepted d')"
    using assms
  proof (induction es arbitrary: d)
    case (Cons e es)
    obtain d1 ov where d1: "drain_event target e d = (d1, ov)" by (cases "drain_event target e d")
    with Cons s [OF d1] show ?case
    proof (cases ov)
      case False
      with Cons d1 have "drain_events target es d1 = (d', over)" by simp
      from Cons.IH [OF this] s [OF d1] show ?thesis by auto
    qed auto
  qed simp
  then show "dr_fill d' = dr_fill d \<or> (\<exists>ev. dr_fill d' = Some ev \<and> BE_Order ev \<in> set es)"
    and "(dr_state d = FILLED \<longrightarrow> dr_accepted d) \<Longrightarrow> dr_state d' = FILLED \<longrightarrow> dr_accepted d'" by blast+
qed

lemma event_fills_mem: "BE_Order ev \<in> set es \<Longrightarrow> e_fill ev = Some f \<Longrightarrow> f \<in> set (event_fills es)"
  by (force simp: event_fills_def event_fill_def)

lemma drain_extends:
  assumes "ib_drain_order_lifecycle cid moves drain_start read b = (d, read', b')" "read \<le> length (ib_events b)"
  shows "read \<le> read' \<and> read' \<le> length (ib_events b') \<and> events_grow b b'"
  using ib_run_grows by (rule_tac drain_reads [OF assms]) blast

lemma engine_cancel_extends:
  assumes "engine_cancel sc cid (read, b) = Inr (read', b')" "read \<le> length (ib_events b)"
  shows "read \<le> read' \<and> read' \<le> length (ib_events b') \<and> events_grow b b'"
proof -
  obtain r b1 where c: "ib_cancel cid (os_cancel_acquired sc) b = (r, b1)" by (cases "ib_cancel cid (os_cancel_acquired sc) b")
  have g: "events_grow b b1" using growsD [OF grows_calls(5), of b cid "os_cancel_acquired sc"] c by simp
  then have r1: "read \<le> length (ib_events b1)" using assms(2) by (auto simp: events_grow_def)
  obtain d where "ib_drain_order_lifecycle cid (os_final sc) drain_start read b1 = (d, read', b')"
    using assms(1) c by (cases "ib_drain_order_lifecycle cid (os_final sc) drain_start read b1")
      (auto simp: engine_cancel_def split: sum.splits exn.splits)
  from drain_extends [OF this r1] g show ?thesis by (auto intro: events_grow_trans)
qed

lemma conduct_order_books:
  assumes read: "lg_read led \<le> length (ib_events (lg_broker led))" and res: "conduct_order sc order led = Inr (out, acc, led')"
  shows "lg_cash led' = lg_cash led \<and> lg_positions led' = lg_positions led \<and> lg_read led' \<le> length (ib_events (lg_broker led')) \<and>
    (\<forall>f. out = Booked f \<longrightarrow> acc) \<and>
    (\<exists>new. event_fills (take (lg_read led') (ib_events (lg_broker led'))) = event_fills (take (lg_read led) (ib_events (lg_broker led))) @ new \<and>
       set (booked out) \<subseteq> set new)"
proof -
  obtain r placed where s: "submit_awaits sc order (lg_broker led) = (r, placed)" by (cases "submit_awaits sc order (lg_broker led)")
  obtain d read b where d: "ib_drain_order_lifecycle (o_id order) (os_wait sc) drain_start (lg_read led) placed = (d, read, b)"
    using prod_cases3 by blast
  obtain i where r: "r = Inr i" using res s by (cases r) (simp_all add: conduct_order_def)
  have p: "placed = ib_run (lg_broker led) (submit_inputs sc order (lg_broker led))"
    using submit_awaits_run [of sc order "lg_broker led"] s by simp
  have g0: "events_grow (lg_broker led) placed" unfolding p by (rule ib_run_grows)
  then have rp: "lg_read led \<le> length (ib_events placed)" using assms(1) by (auto simp: events_grow_def)
  note dx = drain_extends [OF d rp]
  obtain "is" rest over where h: "b = ib_run placed is" "drain_events (o_id order) (drop (lg_read led) (take read (ib_events b))) drain_start = (d, over)"
    by (rule drain_reads [OF d rp])
  note fill = drain_events_fill [OF h(2)]
  obtain read' b' where e: "(if order_outcome d = EngineCanceled then engine_cancel sc (o_id order) (read, b) else Inr (read, b)) = Inr (read', b')"
    "out = order_outcome d" "acc = dr_accepted d" "led' = led\<lparr>lg_read := read', lg_broker := b'\<rparr>"
    using res s d r by (auto simp: conduct_order_def)
  have x: "read \<le> read' \<and> read' \<le> length (ib_events b') \<and> events_grow b b'"
    using e(1) engine_cancel_extends [of sc "o_id order" read b read' b'] dx by (auto split: if_splits)
  let ?new = "drop (lg_read led) (take read (ib_events b))"
  have "take (lg_read led) (ib_events b') = take (lg_read led) (ib_events (lg_broker led))"
    "take read (ib_events b') = take read (ib_events b)"
    using g0 dx x assms(1) by (auto simp: events_grow_def)
  then have eq: "take read' (ib_events b') = take (lg_read led) (ib_events (lg_broker led)) @ ?new @ drop read (take read' (ib_events b'))"
    using dx x by (metis append_assoc append_take_drop_id min.absorb1 take_take)
  have "event_fills (take read' (ib_events b')) = event_fills (take (lg_read led) (ib_events (lg_broker led))) @
      (event_fills ?new @ event_fills (drop read (take read' (ib_events b'))))" 
    using arg_cong [OF eq, of event_fills] by (simp only: event_fills_append)
  moreover have "set (booked out) \<subseteq> set (event_fills ?new)"
  proof (cases out)
    case (Booked f)
    then obtain ev where "dr_fill d = Some ev" "e_fill ev = Some f" using order_outcome_cases(1) [of d f] e(2) by auto
    with fill(1) event_fills_mem show ?thesis by (auto simp: Booked drain_start_def)
  qed simp_all
  moreover have "\<forall>f. out = Booked f \<longrightarrow> acc"
    using fill(2) order_outcome_cases(1) [of d] e(2,3) by (auto simp: drain_start_def)
  ultimately show ?thesis using x by (auto simp: e(4))
qed

lemma book_ledger_inv:
  assumes inv: "ledger_inv sid key cash fills led" and res: "conduct_order sc order led = Inr (out, acc, led1)"
    and book: "book_outcome sid k t out led1 = Inr led2" and key: "\<And>f. out = Booked f \<Longrightarrow> key f = k"
  shows "ledger_inv sid key cash (fills @ booked out) led2"
proof -
  have read: "lg_read led \<le> length (ib_events (lg_broker led))" using inv by (simp add: ledger_inv_def)
  note c = conduct_order_books [OF read res]
  then obtain new where new: "event_fills (take (lg_read led1) (ib_events (lg_broker led1))) = event_fills (take (lg_read led) (ib_events (lg_broker led))) @ new"
    "set (booked out) \<subseteq> set new" by blast
  have "subseq (booked out) new" using new(2) by (cases out) (simp_all add: subseq_singleton_left)
  then have sub: "subseq (fills @ booked out) (event_fills (take (lg_read led1) (ib_events (lg_broker led1))))"
    using inv unfolding new(1) ledger_inv_def by (auto intro: list_emb_append_mono)
  show ?thesis
  proof (cases out)
    case (Booked f)
    then obtain p where p: "apply_fill (map_of (lg_positions led1) k) f sid t = Inr p"
      "led2 = led1\<lparr>lg_positions := AList.update k p (lg_positions led1), lg_cash := book_cash (lg_cash led1) f\<rparr>"
      using book by (auto simp: book_outcome_def)
    have kf: "key f = k" using key Booked by simp
    have "\<exists>ts. length ts = length (filter (\<lambda>f. key f = j) (fills @ [f])) \<and>
        apply_fills None (zip (filter (\<lambda>f. key f = j) (fills @ [f])) ts) sid = Inr (map_of (lg_positions led2) j)" for j
    proof -
      obtain ts where ts: "length ts = length (filter (\<lambda>f. key f = j) fills)"
          "apply_fills None (zip (filter (\<lambda>f. key f = j) fills) ts) sid = Inr (map_of (lg_positions led1) j)"
        using inv c unfolding ledger_inv_def by metis
      show ?thesis
      proof (cases "j = k")
        case True
        with ts p kf show ?thesis
          by (intro exI [of _ "ts @ [t]"]) (simp add: apply_fills_append update_conv')
      next
        case False
        with ts p kf show ?thesis by (intro exI [of _ ts]) (simp add: update_conv')
      qed
    qed
    then show ?thesis using sub c inv p by (simp add: ledger_inv_def Booked)
  qed (use sub c inv book in \<open>auto simp: ledger_inv_def book_outcome_def\<close>)
qed

lemma ledger_start_inv: "ledger_inv sid key cash [] (ledger_start cash b)"
  by (simp add: ledger_inv_def ledger_start_def drain_startup_events_def)

section \<open>Runs\<close>

definition single_inv :: "ib_setup \<Rightarrow> Fill list \<Rightarrow> ib_ledger \<times> IBRunResult \<Rightarrow> bool" where
  "single_inv su fills lr \<longleftrightarrow>
     ledger_inv (lc_strategy_id (iu_config su)) (\<lambda>_. i_symbol (iu_instrument su)) (iu_cash su) fills (fst lr) \<and>
     ir_fills (snd lr) = length fills \<and>
     ir_submitted (snd lr) = ir_fills (snd lr) + ir_canceled (snd lr) + ir_rejected (snd lr)"

lemma ib_process_order_inv:
  assumes inv: "single_inv su fills (led, r)" and res: "ib_process_order su n bar kd (led, r) = Inr (led', r')"
  shows "(\<exists>new. single_inv su (fills @ new) (led', r')) \<and> ir_curve r' = ir_curve r"
proof -
  obtain k desired where kd: "kd = (k, desired)" by (cases kd)
  obtain approved breaches where a: "approve (iu_artefacts su) (live_engine (iu_config su) (iu_kill su)) desired
      (ib_pipeline_inputs (iu_config su) bar None) (b_close_time bar) = Inr (approved, breaches)"
    using res by (auto simp: ib_process_order_def kd)
  show ?thesis
  proof (cases approved)
    case None
    then show ?thesis using inv res a by (auto simp: ib_process_order_def kd single_inv_def intro!: exI [of _ "[]"])
  next
    case (Some order)
    obtain sent out acc led1 where s: "conduct_order (iu_scripts su n k) sent led = Inr (out, acc, led1)"
      "book_outcome (lc_strategy_id (iu_config su)) (i_symbol (iu_instrument su)) (b_close_time bar) out led1 = Inr led'"
      "r' = count_outcome out (r\<lparr>ir_breaches := ir_breaches r @ breaches, ir_submitted := ir_submitted r + 1\<rparr>)"
      using res a Some by (auto simp: ib_process_order_def kd Let_def)
    have "ledger_inv (lc_strategy_id (iu_config su)) (\<lambda>_. i_symbol (iu_instrument su)) (iu_cash su) (fills @ booked out) led'"
      using inv by (intro book_ledger_inv [OF _ s(1,2)]) (simp_all add: single_inv_def)
    then show ?thesis using inv
      by (intro conjI exI [of _ "booked out"]) (cases out; simp add: single_inv_def s(3) count_outcome_def)+
  qed
qed

definition rebalances :: "(datetime \<times> 'v) list \<Rightarrow> Bar list \<Rightarrow> datetime list" where
  "rebalances series bars = map b_close_time (filter (\<lambda>bar. series_at series (b_close_time bar) \<noteq> None) bars)"

lemma ib_rebalance_bar_inv:
  assumes inv: "single_inv su fills lr" and res: "ib_rebalance_bar su (n, bar) lr = Inr lr'"
  shows "\<exists>new. single_inv su (fills @ new) lr' \<and>
    map ie_time (ir_curve (snd lr')) = map ie_time (ir_curve (snd lr)) @ rebalances (iu_series su) [bar]"
proof (cases "series_at (iu_series su) (b_close_time bar)")
  case None
  with assms show ?thesis by (auto simp: ib_rebalance_bar_def rebalances_def intro!: exI [of _ "[]"])
next
  case (Some v)
  then obtain orders mid where o: "forR (ib_process_order su n bar) (numbered orders) lr = Inr mid" "lr' = ib_mark_equity su bar mid"
    using res by (auto simp: ib_rebalance_bar_def)
  have "(\<exists>new. single_inv su (fills @ new) mid) \<and> ir_curve (snd mid) = ir_curve (snd lr)"
  proof (rule forR_invariant [where P = "\<lambda>_ s. (\<exists>new. single_inv su (fills @ new) s) \<and> ir_curve (snd s) = ir_curve (snd lr)", OF _ _ o(1)])
    show "(\<exists>new. single_inv su (fills @ new) lr) \<and> ir_curve (snd lr) = ir_curve (snd lr)"
      using inv by (auto intro: exI [of _ "[]"])
    fix x s s' assume "(\<exists>new. single_inv su (fills @ new) s) \<and> ir_curve (snd s) = ir_curve (snd lr)" and f: "ib_process_order su n bar x s = Inr s'"
    then obtain new where p: "single_inv su (fills @ new) s" "ir_curve (snd s) = ir_curve (snd lr)" by blast
    from ib_process_order_inv [of su "fills @ new" "fst s" "snd s" n bar x "fst s'" "snd s'"] p f
    show "(\<exists>new. single_inv su (fills @ new) s') \<and> ir_curve (snd s') = ir_curve (snd lr)" by auto
  qed
  then show ?thesis using o(2) Some
    by (cases mid) (auto simp: ib_mark_equity_def Let_def single_inv_def rebalances_def)
qed

lemma run_ib_pipeline_ledger:
  assumes "run_ib_pipeline su (Inr bars) b = Inr (led, r)"
  shows "\<exists>fills. ledger_inv (lc_strategy_id (iu_config su)) (\<lambda>_. i_symbol (iu_instrument su)) (iu_cash su) fills led \<and>
    ir_fills r = length fills \<and> ir_submitted r = ir_fills r + ir_canceled r + ir_rejected r \<and>
    map ie_time (ir_curve r) = rebalances (iu_series su) bars \<and>
    ir_final r = (if rebalances (iu_series su) bars = [] then iu_cash su else ie_equity (last (ir_curve r)))"
proof -
  define r0 where "r0 = \<lparr>ir_curve = [], ir_breaches = [], ir_fills = 0, ir_submitted = 0, ir_canceled = 0, ir_rejected = 0, ir_final = dzero\<rparr>"
  obtain r1 where l: "forR (ib_rebalance_bar su) (numbered bars) (ledger_start (iu_cash su) b, r0) = Inr (led, r1)"
      "r = r1\<lparr>ir_final := (if ir_curve r1 = [] then iu_cash su else ie_equity (last (ir_curve r1)))\<rparr>"
    using assms by (auto simp: run_ib_pipeline_def r0_def split: if_splits)
  let ?P = "\<lambda>(done :: (nat \<times> Bar) list) s. (\<exists>fills. single_inv su fills s) \<and> map ie_time (ir_curve (snd s)) = rebalances (iu_series su) (map snd done)"
  have "?P (numbered bars) (led, r1)"
  proof (rule forR_invariant [where P = ?P, OF _ _ l(1)])
    show "?P [] (ledger_start (iu_cash su) b, r0)"
      using ledger_start_inv by (auto simp: single_inv_def r0_def rebalances_def intro!: exI [of _ "[]"])
    fix ys x s s' assume p: "?P ys s" and f: "ib_rebalance_bar su x s = Inr s'"
    then obtain fills where "single_inv su fills s" by blast
    from ib_rebalance_bar_inv [OF this, of "fst x" "snd x" s'] f p show "?P (ys @ [x]) s'"
      by (auto simp: rebalances_def)
  qed
  moreover have "map snd (numbered bars) = bars" by (simp add: numbered_def)
  ultimately show ?thesis by (auto simp: single_inv_def l(2) rebalances_def)
qed

text \<open>The ledger of a run with IB: whatever IB and the event loop do, when the run over the bars returns, its curve has one
  point per bar of the position series, every submitted order is counted once as filled, cancelled or rejected, and the
  cash and the position are what replaying some of the fills published by the broker gives from the starting
  cash and a flat position, as many as it counts, none twice and in the order of publication.\<close>

theorem ib_run_accounts:
  "case run_ib_pipeline su (Inr bars) b of
     Inl _ \<Rightarrow> True
   | Inr (led, r) \<Rightarrow>
       \<exists>fills. ledger_inv (lc_strategy_id (iu_config su)) (\<lambda>_. i_symbol (iu_instrument su)) (iu_cash su) fills led \<and>
         ir_fills r = length fills \<and> ir_submitted r = ir_fills r + ir_canceled r + ir_rejected r \<and>
         map ie_time (ir_curve r) = rebalances (iu_series su) bars \<and>
         ir_final r = (if rebalances (iu_series su) bars = [] then iu_cash su else ie_equity (last (ir_curve r)))"
  using run_ib_pipeline_ledger [of su bars b] by (auto split: sum.split)

definition count_for :: "string \<Rightarrow> (string \<times> nat) list \<Rightarrow> nat" where
  "count_for symb counts = (case map_of counts symb of None \<Rightarrow> 0 | Some n \<Rightarrow> n)"

lemma count_symbol_count: "count_for s (count_symbol symb counts) = count_for s counts + (if s = symb then 1 else 0)"
  by (simp add: count_for_def count_symbol_def update_conv')

lemma count_symbol_total: "(\<Sum>x\<leftarrow>count_symbol symb counts. snd x) = (\<Sum>x\<leftarrow>counts. snd x) + 1"
proof -
  have "(\<Sum>x\<leftarrow>AList.update symb (count_for symb counts + 1) counts. snd x) = (\<Sum>x\<leftarrow>counts. snd x) + 1"
    by (induction counts) (auto simp: count_for_def)
  then show ?thesis by (simp add: count_symbol_def count_for_def)
qed

definition multi_inv :: "multi_setup \<Rightarrow> Fill list \<Rightarrow> ib_ledger \<times> IBMultiRunResult \<Rightarrow> bool" where
  "multi_inv su fills lr \<longleftrightarrow> (let r = snd lr in
     ledger_inv (lc_strategy_id (mu_config su)) (\<lambda>f. i_symbol (f_instrument f)) (mu_cash su) fills (fst lr) \<and>
     mr_fills r = length fills \<and> mr_submitted r = mr_fills r + mr_canceled r + mr_rejected r \<and>
     mr_fills r \<le> mr_accepted r \<and> mr_accepted r \<le> mr_submitted r \<and>
     (\<forall>s. count_for s (mr_fills_by r) = length (filter (\<lambda>f. i_symbol (f_instrument f) = s) fills)) \<and>
     (\<Sum>x\<leftarrow>mr_submitted_by r. snd x) = mr_submitted r)"

lemma multi_process_order_inv:
  assumes inv: "multi_inv su fills (led, r)" and res: "multi_process_order su n t bars marks kd (led, r) = Inr (led', r')"
  shows "(\<exists>new. multi_inv su (fills @ new) (led', r')) \<and> mr_curve r' = mr_curve r"
proof -
  obtain k desired where kd: "kd = (k, desired)" by (cases kd)
  let ?sym = "i_symbol (o_instrument desired)"
  obtain bar where bar: "map_of bars ?sym = Some bar"
    using res by (auto simp: multi_process_order_def kd Let_def split: option.splits)
  obtain approved breaches where a: "approve (mu_artefacts su) (live_engine (mu_config su) (mu_kill su)) desired
      (ib_pipeline_inputs (mu_config su) bar (map_of marks ?sym)) t = Inr (approved, breaches)"
    using res by (auto simp: multi_process_order_def kd bar Let_def)
  show ?thesis
  proof (cases approved)
    case None
    then show ?thesis using inv res a
      by (auto simp: multi_process_order_def kd bar multi_inv_def Let_def intro!: exI [of _ "[]"])
  next
    case (Some order)
    obtain sent out acc led1 where s: "conduct_order (mu_scripts su n k) sent led = Inr (out, acc, led1)"
      "book_outcome (lc_strategy_id (mu_config su)) (outcome_symbol out) t out led1 = Inr led'"
      "r' = count_multi_outcome out (count_submitted ?sym acc (r\<lparr>mr_breaches := mr_breaches r @ breaches\<rparr>))"
      using res a Some by (auto simp: multi_process_order_def kd bar Let_def)
    have l: "ledger_inv (lc_strategy_id (mu_config su)) (\<lambda>f. i_symbol (f_instrument f)) (mu_cash su) (fills @ booked out) led'"
      using inv by (intro book_ledger_inv [OF _ s(1,2)]) (simp_all add: multi_inv_def Let_def outcome_symbol_def)
    have acc: "acc" if "out = Booked f" for f
    proof -
      have "lg_read led \<le> length (ib_events (lg_broker led))" using inv by (simp add: multi_inv_def ledger_inv_def)
      from conduct_order_books [OF this s(1)] that show ?thesis by blast
    qed
    show ?thesis using inv l acc
      by (intro conjI exI [of _ "booked out"])
        (cases out; simp add: multi_inv_def Let_def s(3) count_multi_outcome_def count_submitted_def count_symbol_count count_symbol_total)+
  qed
qed

definition multi_times :: "multi_setup \<Rightarrow> PaperMarketData \<Rightarrow> Bar list \<Rightarrow> datetime list" where
  "multi_times su md bars = map b_close_time (filter (\<lambda>bar. series_at (mu_weights su) (b_close_time bar) \<noteq> None \<and>
     (case bars_by_symbol md (mu_instruments su) bar of Inl _ \<Rightarrow> False | Inr found \<Rightarrow> length found = length (mu_instruments su))) bars)"

lemma multi_rebalance_bar_inv:
  assumes inv: "multi_inv su fills lr" and res: "multi_rebalance_bar su md (n, bar) lr = Inr lr'"
  shows "\<exists>new. multi_inv su (fills @ new) lr' \<and>
    map me_time (mr_curve (snd lr')) = map me_time (mr_curve (snd lr)) @ multi_times su md [bar]"
proof (cases "series_at (mu_weights su) (b_close_time bar)")
  case None
  with assms show ?thesis by (auto simp: multi_rebalance_bar_def multi_times_def intro!: exI [of _ "[]"])
next
  case (Some row)
  obtain found where found: "bars_by_symbol md (mu_instruments su) bar = Inr found"
    using res Some by (auto simp: multi_rebalance_bar_def Let_def)
  show ?thesis
  proof (cases "length found = length (mu_instruments su)")
    case False
    with assms Some found show ?thesis by (auto simp: multi_rebalance_bar_def Let_def multi_times_def intro!: exI [of _ "[]"])
  next
    case True
    obtain marks orders mid where o: "forR (multi_process_order su n (b_close_time bar) found marks) (numbered orders) lr = Inr mid"
        "lr' = multi_mark_equity (b_close_time bar) marks mid"
      using res Some found True by (auto simp: multi_rebalance_bar_def Let_def)
    let ?P = "\<lambda>s. (\<exists>new. multi_inv su (fills @ new) s) \<and> mr_curve (snd s) = mr_curve (snd lr)"
    have "?P mid"
    proof (rule forR_invariant [where P = "\<lambda>_. ?P", OF _ _ o(1)])
      show "?P lr" using inv by (auto intro: exI [of _ "[]"])
      fix x s s' assume "?P s" and f: "multi_process_order su n (b_close_time bar) found marks x s = Inr s'"
      then obtain new where p: "multi_inv su (fills @ new) s" "mr_curve (snd s) = mr_curve (snd lr)" by blast
      from multi_process_order_inv [of su "fills @ new" "fst s" "snd s" n "b_close_time bar" found marks x "fst s'" "snd s'"] p f
      show "?P s'" by auto
    qed
    then show ?thesis using o(2) Some found True
      by (cases mid) (auto simp: multi_mark_equity_def multi_inv_def multi_times_def Let_def)
  qed
qed

lemma run_ib_multi_pipeline_ledger:
  assumes "run_ib_multi_pipeline su md b = Inr (led, r)" "market_bars md (hd (mu_instruments su)) = Inr bars"
  shows "\<exists>fills. ledger_inv (lc_strategy_id (mu_config su)) (\<lambda>f. i_symbol (f_instrument f)) (mu_cash su) fills led \<and>
    mr_fills r = length fills \<and> mr_submitted r = mr_fills r + mr_canceled r + mr_rejected r \<and>
    mr_fills r \<le> mr_accepted r \<and> mr_accepted r \<le> mr_submitted r \<and>
    (\<forall>s. count_for s (mr_fills_by r) = length (filter (\<lambda>f. i_symbol (f_instrument f) = s) fills)) \<and>
    (\<Sum>x\<leftarrow>mr_submitted_by r. snd x) = mr_submitted r \<and>
    map me_time (mr_curve r) = multi_times su md bars"
proof -
  define r0 where "r0 = \<lparr>mr_curve = [], mr_breaches = [], mr_fills = 0, mr_submitted = 0, mr_accepted = 0, mr_canceled = 0,
    mr_rejected = 0, mr_fills_by = [], mr_submitted_by = [], mr_codes = (\<lambda>_. 0), mr_final = dzero\<rparr>"
  obtain r1 where l: "forR (multi_rebalance_bar su md) (numbered bars) (ledger_start (mu_cash su) b, r0) = Inr (led, r1)"
      "r = r1\<lparr>mr_codes := mr_codes r, mr_final := mr_final r\<rparr>"
    using assms by (auto simp: run_ib_multi_pipeline_def r0_def multi_finish_def split: if_splits)
  let ?P = "\<lambda>(done :: (nat \<times> Bar) list) s. (\<exists>fills. multi_inv su fills s) \<and> map me_time (mr_curve (snd s)) = multi_times su md (map snd done)"
  have "?P (numbered bars) (led, r1)"
  proof (rule forR_invariant [where P = ?P, OF _ _ l(1)])
    show "?P [] (ledger_start (mu_cash su) b, r0)"
      using ledger_start_inv by (auto simp: multi_inv_def Let_def r0_def multi_times_def count_for_def intro!: exI [of _ "[]"])
    fix ys x s s' assume p: "?P ys s" and f: "multi_rebalance_bar su md x s = Inr s'"
    then obtain fills where "multi_inv su fills s" by blast
    from multi_rebalance_bar_inv [OF this, of md "fst x" "snd x" s'] f p show "?P (ys @ [x]) s'"
      by (auto simp: multi_times_def)
  qed
  moreover have "map snd (numbered bars) = bars" by (simp add: numbered_def)
  moreover have "mr_fills r = mr_fills r1" "mr_submitted r = mr_submitted r1" "mr_canceled r = mr_canceled r1" "mr_rejected r = mr_rejected r1"
    "mr_accepted r = mr_accepted r1" "mr_fills_by r = mr_fills_by r1" "mr_submitted_by r = mr_submitted_by r1" "mr_curve r = mr_curve r1"
    by (subst l(2), simp)+
  ultimately show ?thesis by (auto simp: multi_inv_def Let_def)
qed

text \<open>C9: the ledger of a multi-instrument run: whatever IB and the event loop do, when the run returns, the curve has one point
  per canonical bar with a weights row and a bar for every instrument; every submitted order is counted once as filled,
  cancelled or rejected and under its symbol; the fills counted were accepted; and cash, positions and the count of
  every symbol are those of a replay of that many of the fills published by the broker, none twice, each on
  the position of its own instrument.\<close>

theorem multi_run_accounts:
  "case run_ib_multi_pipeline su md b of
     Inl _ \<Rightarrow> True
   | Inr (led, r) \<Rightarrow>
       \<exists>fills bars. ledger_inv (lc_strategy_id (mu_config su)) (\<lambda>f. i_symbol (f_instrument f)) (mu_cash su) fills led \<and>
         mr_fills r = length fills \<and> mr_submitted r = mr_fills r + mr_canceled r + mr_rejected r \<and>
         mr_fills r \<le> mr_accepted r \<and> mr_accepted r \<le> mr_submitted r \<and>
         (\<forall>s. count_for s (mr_fills_by r) = length (filter (\<lambda>f. i_symbol (f_instrument f) = s) fills)) \<and>
         (\<Sum>x\<leftarrow>mr_submitted_by r. snd x) = mr_submitted r \<and>
         market_bars md (hd (mu_instruments su)) = Inr bars \<and> map me_time (mr_curve r) = multi_times su md bars"
proof (cases "run_ib_multi_pipeline su md b")
  case (Inr x)
  obtain led r where x: "x = (led, r)" by (cases x)
  obtain bars where bars: "market_bars md (hd (mu_instruments su)) = Inr bars"
    using Inr by (auto simp: run_ib_multi_pipeline_def split: if_splits)
  show ?thesis using run_ib_multi_pipeline_ledger [OF Inr [unfolded x] bars] by (simp add: Inr x bars)
qed simp

section \<open>Prices and orders\<close>

lemma update_fresh: "k \<notin> fst ` set al \<Longrightarrow> AList.update k v al = al @ [(k, v)]"
  by (induction al) auto

lemma update_known_length: "k \<in> fst ` set al \<Longrightarrow> length (AList.update k v al) = length al"
  by (induction al) auto

text \<open>The last bar of the instrument that has closed by \<open>t\<close>.\<close>

definition current_bar :: "PaperMarketData \<Rightarrow> datetime \<Rightarrow> Instrument \<Rightarrow> Bar \<Rightarrow> bool" where
  "current_bar md t i b \<longleftrightarrow> b_close_time b \<le> t \<and>
     (\<exists>bars. iter_bars md i = Inr bars \<and> b \<in> set bars \<and> (\<forall>c \<in> set bars. b_close_time c \<le> t \<longrightarrow> b_close_time c \<le> b_close_time b))"

text \<open>C22: a rebalance of several instruments prices each of them at its own last bar that has closed by the canonical one, and
  at no later one: on fixtures whose closing times do not decrease, whenever a bar is found for every instrument,
  the symbols are distinct and the bar under each symbol is the current one of that instrument.\<close>

theorem multi_prices_current:
  assumes "iter_bars md i = Inr canonical" "bar \<in> set canonical" "is_utc (b_close_time bar)"
    and "list_all (\<lambda>j. \<forall>bars. iter_bars md j = Inr bars \<longrightarrow> sorted (map (\<lambda>b. dt_instant (b_close_time b)) bars)) js"
    and "bars_by_symbol md (i # js) bar = Inr found" "length found = length (i # js)"
  shows "distinct (map i_symbol (i # js)) \<and> list_all2 (\<lambda>j (s, b). s = i_symbol j \<and> current_bar md (b_close_time bar) j b) (i # js) found"
proof -
  let ?t = "b_close_time bar"
  let ?Q = "\<lambda>j (s, b). s = i_symbol j \<and> current_bar md ?t j b"
  let ?P = "\<lambda>ys acc. length acc \<le> Suc (length ys) \<and> (length acc = Suc (length ys) \<longrightarrow>
      distinct (map i_symbol (i # ys)) \<and> list_all2 ?Q (i # ys) acc)"
  have keys: "fst ` set acc = i_symbol ` set ys" if "list_all2 ?Q ys acc" for ys acc
    using that by (induction ys acc rule: list_all2_induct) auto
  have "?P js found"
  proof (rule forR_invariant [where P = ?P])
    show "forR (other_bar md ?t) js [(i_symbol i, bar)] = Inr found" using assms(5) by (simp add: bars_by_symbol_def)
    show "?P [] [(i_symbol i, bar)]" using assms(1,2) by (auto simp: current_bar_def less_eq_datetime_def)
    fix ys j zs acc acc' assume js: "js = ys @ j # zs" and P: "?P ys acc" and step: "other_bar md ?t j acc = Inr acc'"
    obtain r where r: "latest md j ?t = Inr r" "acc' = (case r of None \<Rightarrow> acc | Some b \<Rightarrow> AList.update (i_symbol j) b acc)"
      using step by (auto simp: other_bar_def)
    obtain bars where bars: "iter_bars md j = Inr bars" using r(1) by (auto simp: latest_def)
    have "sorted (map (\<lambda>b. dt_instant (b_close_time b)) bars)" using assms(4) js bars by simp
    note l = latest_spec [OF bars assms(3) this]
    show "?P (ys @ [j]) acc'"
    proof (cases r)
      case None
      with P r show ?thesis by simp
    next
      case (Some b)
      have b: "current_bar md ?t j b" using l r(1) Some bars by (auto simp: current_bar_def)
      show ?thesis
      proof (cases "i_symbol j \<in> fst ` set acc")
        case True
        with P r Some show ?thesis by (simp add: update_known_length)
      next
        case False
        then have acc': "acc' = acc @ [(i_symbol j, b)]" using r Some by (simp add: update_fresh)
        have "list_all2 ?Q ((i # ys) @ [j]) (acc @ [(i_symbol j, b)])" if "list_all2 ?Q (i # ys) acc"
          by (rule list_all2_appendI [OF that]) (simp add: b)
        with P False keys [of "i # ys" acc] show ?thesis by (auto simp: acc')
      qed
    qed
  qed
  then show ?thesis using assms(6) by simp
qed



definition ex_bond :: Instrument where
  "ex_bond = \<lparr>i_symbol = ''IEF'', i_venue = ''XNAS'', i_currency = ''USD'', i_asset_class = ETF, i_multiplier = dint 1,
     i_tradability = ''spot''\<rparr>"

definition ex_markets :: PaperMarketData where
  "ex_markets = \<lparr>md_freq = ''1d'', md_frames =
     [(ex_etf, \<lparr>fx_columns = required_columns, fx_rows = [ex_fixture_row 0 (dint 30), ex_fixture_row 10 (dint 31)]\<rparr>),
      (ex_bond, \<lparr>fx_columns = required_columns, fx_rows = [ex_fixture_row 0 (dint 90), ex_fixture_row 20 (dint 91)]\<rparr>)]\<rparr>"

lemma ex_markets_bars:
  "iter_bars ex_markets ex_etf = Inr [ex_market_bar 0 (dint 30), ex_market_bar 10 (dint 31)]"
  "iter_bars ex_markets ex_bond = Inr [(ex_market_bar 0 (dint 90))\<lparr>b_instrument := ex_bond\<rparr>, (ex_market_bar 20 (dint 91))\<lparr>b_instrument := ex_bond\<rparr>]"
  by (simp_all add: iter_bars_def ex_markets_def bar_of_row_def ex_fixture_row_def ex_market_bar_def required_columns_def mk_Bar_def
      validated_def Bar_checks_def require_utc_def decimal_simps less_eq_datetime_def inst_eq_def ex_etf_def ex_bond_def)

theorem multi_prices_current_witness:
  "bars_by_symbol ex_markets [ex_etf, ex_bond] (ex_market_bar 10 (dint 31)) =
     Inr [(''CAC.PA'', ex_market_bar 10 (dint 31)), (''IEF'', (ex_market_bar 0 (dint 90))\<lparr>b_instrument := ex_bond\<rparr>)] \<and>
   current_bar ex_markets (utc 15) ex_bond ((ex_market_bar 0 (dint 90))\<lparr>b_instrument := ex_bond\<rparr>)"
proof -
  have t: "b_close_time (ex_market_bar 10 (dint 31)) = utc 15" by (simp add: ex_market_bar_def)
  have "dt_le (utc 5) (utc 15) = Inr True" "dt_le (utc 25) (utc 15) = Inr False" by code_simp+
  then have l: "latest ex_markets ex_bond (utc 15) = Inr (Some ((ex_market_bar 0 (dint 90))\<lparr>b_instrument := ex_bond\<rparr>))"
    by (simp add: latest_def ex_markets_bars) (auto simp: ex_market_bar_def intro: exI [of _ True] exI [of _ False])
  have f: "bars_by_symbol ex_markets [ex_etf, ex_bond] (ex_market_bar 10 (dint 31)) =
     Inr [(''CAC.PA'', ex_market_bar 10 (dint 31)), (''IEF'', (ex_market_bar 0 (dint 90))\<lparr>b_instrument := ex_bond\<rparr>)]"
    by (simp add: bars_by_symbol_def other_bar_def l t)
      (simp add: ex_etf_def ex_bond_def)
  have s: "list_all (\<lambda>j. \<forall>bars. iter_bars ex_markets j = Inr bars \<longrightarrow> sorted (map (\<lambda>b. dt_instant (b_close_time b)) bars)) [ex_bond]"
    by (simp add: ex_markets_bars ex_market_bar_def)
  from multi_prices_current [OF ex_markets_bars(1) _ _ s f] f show ?thesis by (simp add: t)
qed


end
