(* ===== verification/RunRecord.thy ===== *)
theory RunRecord
  imports IBRuns Clocks DecimalText
begin

text \<open>
  \<open>src/blive/runtime/m3_2_record.py\<close>: the row a multi-instrument run leaves in the results file; and
  \<open>src/blive/adapters/alert/log.py\<close>.  A float is its rational value.  The detail of a breach keeps its structured
  form, \<open>json.dumps\<close> is a parameter, and the results file is a map from paths to texts whose directories exist.
\<close>

section \<open>Rates\<close>

text \<open>\<open>a / b\<close> of two integers and \<open>round(x, 4)\<close>: the doubles nearest to the quotient and to the decimal with four places.\<close>

definition int_div :: "nat \<Rightarrow> nat \<Rightarrow> rat" where
  "int_div a b = fl (of_nat a / of_nat b)"

definition round4 :: "rat \<Rightarrow> rat" where
  "round4 x = (case quotient_of (x * 10000) of (n, d) \<Rightarrow> fl (of_int (round_half_even n d) / 10000))"

definition fill_rate_by_symbol :: "(string \<times> nat) list \<Rightarrow> (string \<times> nat) list \<Rightarrow> (string \<times> rat) list" where
  "fill_rate_by_symbol submitted_by_symbol fills_by_symbol =
     map (\<lambda>(symb, placed). (symb, round4 (int_div (count_for symb fills_by_symbol) placed)))
       (filter (\<lambda>(_, placed). 0 < placed) submitted_by_symbol)"

definition fsm_trace :: "nat \<Rightarrow> nat \<Rightarrow> nat \<Rightarrow> nat \<Rightarrow> nat \<Rightarrow> (string \<times> rat) list" where
  "fsm_trace submitted accepted filled canceled rejected =
     (if submitted = 0
      then [(''accepted_rate'', 0), (''filled_rate'', 0), (''canceled_rate'', 0), (''rejected_rate'', 0)]
      else [(''accepted_rate'', round4 (int_div accepted submitted)), (''filled_rate'', round4 (int_div filled submitted)),
            (''canceled_rate'', round4 (int_div canceled submitted)), (''rejected_rate'', round4 (int_div rejected submitted))])"

section \<open>The record\<close>

fun check_value :: "RiskCheckCode \<Rightarrow> string" where
  "check_value RC_08 = ''RC-08''"
| "check_value RC_09 = ''RC-09''"
| "check_value RC_10 = ''RC-10''"
| "check_value RC_12 = ''RC-12''"
| "check_value RC_13 = ''RC-13''"

fun breach_severity_value :: "RiskBreachSeverity \<Rightarrow> string" where
  "breach_severity_value BLOCK = ''block''"
| "breach_severity_value SCALE = ''scale''"
| "breach_severity_value WARN = ''warn''"

record RunRecord =
  rr_schema :: int
  rr_run_id :: string
  rr_recorded :: string
  rr_strategy :: string
  rr_instruments :: "string list"
  rr_order_type :: string
  rr_max_bars :: int
  rr_nav_slice :: string
  rr_cash :: string
  rr_final :: string
  rr_rows :: nat
  rr_flips :: nat
  rr_submitted :: nat
  rr_accepted :: nat
  rr_filled :: nat
  rr_canceled :: nat
  rr_rejected :: nat
  rr_breach_count :: nat
  rr_cap_binding :: nat
  rr_submitted_by :: "(string \<times> nat) list"
  rr_fills_by :: "(string \<times> nat) list"
  rr_fill_rates :: "(string \<times> rat) list"
  rr_codes :: "int \<Rightarrow> nat"
  rr_trace :: "(string \<times> rat) list"
  rr_breaches :: "(string \<times> string \<times> breach_detail) list"
  rr_note :: string

definition build_run_record :: "IBMultiRunResult \<Rightarrow> nat \<Rightarrow> nat \<Rightarrow> string \<Rightarrow> string list \<Rightarrow> string \<Rightarrow> int \<Rightarrow> decimal \<Rightarrow> decimal
    \<Rightarrow> string \<Rightarrow> string \<Rightarrow> string \<Rightarrow> RunRecord" where
  "build_run_record result flips rows strategy_id instruments order_type max_bars nav_slice starting_cash run_id recorded_at note =
     \<lparr>rr_schema = 1, rr_run_id = run_id, rr_recorded = recorded_at, rr_strategy = strategy_id, rr_instruments = instruments,
      rr_order_type = order_type, rr_max_bars = max_bars, rr_nav_slice = show_decimal nav_slice,
      rr_cash = show_decimal starting_cash, rr_final = show_decimal (mr_final result), rr_rows = rows, rr_flips = flips,
      rr_submitted = mr_submitted result, rr_accepted = mr_accepted result, rr_filled = mr_fills result,
      rr_canceled = mr_canceled result, rr_rejected = mr_rejected result, rr_breach_count = length (mr_breaches result),
      rr_cap_binding = mr_codes result 2161, rr_submitted_by = mr_submitted_by result, rr_fills_by = mr_fills_by result,
      rr_fill_rates = fill_rate_by_symbol (mr_submitted_by result) (mr_fills_by result), rr_codes = mr_codes result,
      rr_trace = fsm_trace (mr_submitted result) (mr_accepted result) (mr_fills result) (mr_canceled result) (mr_rejected result),
      rr_breaches = map (\<lambda>b. (check_value (r_check b), breach_severity_value (r_severity b), r_detail b)) (mr_breaches result),
      rr_note = note\<rparr>"

definition append_run_record :: "(RunRecord \<Rightarrow> string) \<Rightarrow> string \<Rightarrow> RunRecord \<Rightarrow> (string \<rightharpoonup> string) \<Rightarrow> (string \<rightharpoonup> string)" where
  "append_run_record dumps path record files =
     files(path \<mapsto> (case files path of None \<Rightarrow> [] | Some text \<Rightarrow> text) @ dumps record @ [CHR 0x0A])"

section \<open>The alert log\<close>

text \<open>What the logger is given: the level, the severity, the subject and the body.\<close>

type_synonym log_line = "int \<times> Severity \<times> string \<times> string"

fun LEVEL_MAP :: "Severity \<Rightarrow> int" where
  "LEVEL_MAP LOW = 20"
| "LEVEL_MAP MEDIUM = 30"
| "LEVEL_MAP HIGH = 40"
| "LEVEL_MAP CRITICAL = 50"

definition alert_send :: "Severity \<Rightarrow> string \<Rightarrow> string \<Rightarrow> (log_line list, unit) sx" where
  "alert_send severity subject body =
     (if subject = [] then raiseS (ValueError ''LogAlert.send: subject must be non-empty'')
      else modS (\<lambda>lines. lines @ [(LEVEL_MAP severity, severity, subject, body)]))"

section \<open>Lemmas\<close>

lemma round_half_even_mono: "0 < d \<Longrightarrow> 0 \<le> n \<Longrightarrow> 0 \<le> round_half_even n d"
  by (simp add: round_half_even_def Let_def pos_imp_zdiv_nonneg_iff)

lemma fl_nonneg: "0 \<le> x \<Longrightarrow> 0 \<le> fl x"
  using fl_error [of x] by (simp add: abs_if split: if_splits)

lemma round4_near:
  assumes "0 \<le> x"
  shows "\<bar>round4 (fl x) - x\<bar> \<le> 6 / 100000 * max 1 x" "0 \<le> round4 (fl x)"
proof -
  obtain n d where q: "quotient_of (fl x * 10000) = (n, d)" by (cases "quotient_of (fl x * 10000)")
  have d: "0 < d" using quotient_of_denom_pos [OF q] .
  have v: "fl x * 10000 = of_int n / of_int d" using quotient_of_div [OF q] .
  define k where "k = round_half_even n d"
  have "0 \<le> fl x * 10000" using fl_nonneg [OF assms] by simp
  then have "0 \<le> n" using v d by (simp add: zero_le_divide_iff)
  then have k0: "0 \<le> k" using round_half_even_mono d by (simp add: k_def)
  have k: "\<bar>of_int k - fl x * 10000\<bar> \<le> 1 / 2" using round_half_even_bounds [OF d, of n] by (simp add: k_def v)
  have r: "round4 (fl x) = fl (of_int k / 10000)" by (simp add: round4_def q k_def)
  have e1: "\<bar>fl x - x\<bar> \<le> x / 2 ^ 52" using fl_error [of x] assms by (simp add: field_simps)
  have e2: "\<bar>fl (of_int k / 10000) - of_int k / 10000\<bar> \<le> of_int k / 10000 / (2 ^ 52 :: rat)"
    using fl_error [of "of_int k / 10000"] k0 by (simp add: field_simps)
  show "0 \<le> round4 (fl x)" unfolding r by (rule fl_nonneg) (use k0 in simp)
  define m where "m = max 1 x"
  have m: "1 \<le> m" "x \<le> m" by (simp_all add: m_def)
  have "\<bar>fl (of_int k / 10000) - x\<bar> \<le> 6 / 100000 * m" using k e1 e2 m assms by (simp add: abs_if split: if_splits)
  then show "\<bar>round4 (fl x) - x\<bar> \<le> 6 / 100000 * max 1 x" by (simp add: r m_def)
qed

lemma round4_le_1:
  assumes "0 \<le> x" "x \<le> 1"
  shows "round4 (fl x) \<le> 1"
proof -
  obtain n d where q: "quotient_of (fl x * 10000) = (n, d)" by (cases "quotient_of (fl x * 10000)")
  have d: "0 < d" using quotient_of_denom_pos [OF q] .
  have v: "fl x * 10000 = of_int n / of_int d" using quotient_of_div [OF q] .
  define k where "k = round_half_even n d"
  have k: "of_int k \<le> fl x * 10000 + 1 / 2" using round_half_even_bounds [OF d, of n] by (simp add: k_def v abs_if split: if_splits)
  have "fl x \<le> 1 + 1 / 2 ^ 52" using fl_error [of x] assms by (simp add: abs_if split: if_splits)
  with k have "(of_int k :: rat) < 10001" by simp
  then have k1: "k \<le> 10000" by simp
  have r: "round4 (fl x) = fl (of_int k / 10000)" by (simp add: round4_def q k_def)
  show ?thesis
  proof (cases "k = 10000")
    case True
    have "fl 1 = 1" by code_simp
    with True r show ?thesis by simp
  next
    case False
    with k1 have "(of_int k :: rat) \<le> 9999" by simp
    then have y: "of_int k / 10000 \<le> (1 :: rat) - 1 / 10000" by simp
    have "fl (of_int k / 10000) \<le> 1"
    proof (cases "0 \<le> k")
      case True
      then show ?thesis using y fl_error [of "of_int k / 10000"] by (simp add: abs_if split: if_splits)
    next
      case False
      then have neg: "of_int k / 10000 < (0 :: rat)" by simp
      then show ?thesis using fl_error [of "of_int k / 10000"] by (simp add: abs_if split: if_splits)
    qed
    with r show ?thesis by simp
  qed
qed


section \<open>Properties\<close>

text \<open>A rate stands for \<open>a\<close> of \<open>n\<close>: it is within 0.00006 of the quotient, relative to it above 1.\<close>

definition stands_for :: "rat \<Rightarrow> nat \<Rightarrow> nat \<Rightarrow> bool" where
  "stands_for rate a n \<longleftrightarrow> 0 \<le> rate \<and> \<bar>rate - of_nat a / of_nat n\<bar> \<le> 6 / 100000 * max 1 (of_nat a / of_nat n)"

lemma int_div_stands_for: "stands_for (round4 (int_div a n)) a n"
  using round4_near [of "of_nat a / of_nat n"] by (simp add: stands_for_def int_div_def)

lemma rate_le_1: "a \<le> n \<Longrightarrow> round4 (int_div a n) \<le> 1"
  unfolding int_div_def by (rule round4_le_1) (auto simp: divide_le_eq_1)

lemma fsm_trace_spec:
  assumes "accepted \<le> n" "filled \<le> n" "canceled \<le> n" "rejected \<le> n"
  shows "list_all2 (\<lambda>(k, rate) (k', a). k = k' \<and> stands_for rate a n \<and> rate \<le> 1) (fsm_trace n accepted filled canceled rejected)
    [(''accepted_rate'', accepted), (''filled_rate'', filled), (''canceled_rate'', canceled), (''rejected_rate'', rejected)]"
  using assms int_div_stands_for rate_le_1 by (auto simp: fsm_trace_def stands_for_def [of 0])

lemma fill_rates_spec:
  "list_all2 (\<lambda>(s, rate) (s', placed). s = s' \<and> stands_for rate (count_for s fills) placed)
     (fill_rate_by_symbol submitted fills) (filter (\<lambda>(_, placed). 0 < placed) submitted)"
  by (auto simp: fill_rate_by_symbol_def list_all2_map1 list.rel_refl_strong list_all2_same int_div_stands_for)

text \<open>C36: the row of a run: for every finished run, whatever IB did, the filled, canceled and rejected orders of its row add up
  to the submitted ones, as do the submissions per symbol; each rate of the trace lies between 0 and 1 and is its count over the
  submitted orders to within 0.00006, as each fill rate is the fills of its symbol over the orders placed; and the
  texts of the amounts read back as the amounts.\<close>

theorem run_record_accounts:
  "case run_ib_multi_pipeline su md b of
     Inl _ \<Rightarrow> True
   | Inr (led, r) \<Rightarrow>
       let row = build_run_record r flips rows sid symbols kind max_bars nav cash run_id recorded note; n = rr_submitted row in
       rr_filled row + rr_canceled row + rr_rejected row = n \<and> (\<Sum>x\<leftarrow>rr_submitted_by row. snd x) = n \<and>
       list_all2 (\<lambda>(k, rate) (k', a). k = k' \<and> stands_for rate a n \<and> rate \<le> 1) (rr_trace row)
         [(''accepted_rate'', rr_accepted row), (''filled_rate'', rr_filled row), (''canceled_rate'', rr_canceled row),
          (''rejected_rate'', rr_rejected row)] \<and>
       list_all2 (\<lambda>(s, rate) (s', placed). s = s' \<and> stands_for rate (count_for s (rr_fills_by row)) placed)
         (rr_fill_rates row) (filter (\<lambda>(_, placed). 0 < placed) (rr_submitted_by row)) \<and>
       map parse_decimal [rr_final row, rr_cash row, rr_nav_slice row] = map Some [mr_final r, cash, nav]"
proof (cases "run_ib_multi_pipeline su md b")
  case (Inr x)
  obtain led r where x: "x = (led, r)" by (cases x)
  obtain bars where bars: "market_bars md (hd (mu_instruments su)) = Inr bars"
    using Inr by (auto simp: run_ib_multi_pipeline_def split: if_splits)
  from run_ib_multi_pipeline_ledger [OF Inr [unfolded x] bars]
  have run: "mr_submitted r = mr_fills r + mr_canceled r + mr_rejected r" "mr_accepted r \<le> mr_submitted r"
    "(\<Sum>x\<leftarrow>mr_submitted_by r. snd x) = mr_submitted r" by auto
  have trace: "list_all2 (\<lambda>(k, rate) (k', a). k = k' \<and> stands_for rate a (mr_submitted r) \<and> rate \<le> 1)
      (fsm_trace (mr_submitted r) (mr_accepted r) (mr_fills r) (mr_canceled r) (mr_rejected r))
      [(''accepted_rate'', mr_accepted r), (''filled_rate'', mr_fills r), (''canceled_rate'', mr_canceled r), (''rejected_rate'', mr_rejected r)]"
    by (rule fsm_trace_spec) (use run in simp_all)
  show ?thesis using run(1,3) trace fill_rates_spec [of "mr_fills_by r" "mr_submitted_by r"]
    by (simp add: Inr x build_run_record_def Let_def parse_show_decimal)
qed simp

lemma fold_append_text:
  "fold (append_run_record dumps path) rs files path =
    (if rs = [] then files path
     else Some ((case files path of None \<Rightarrow> [] | Some text \<Rightarrow> text) @ concat (map (\<lambda>r. dumps r @ [CHR 0x0A]) rs)))"
  by (induction rs arbitrary: files) (auto simp: append_run_record_def)

text \<open>The severities keep their order in the levels, so that a threshold on the levels is one on the severities.\<close>

lemma alert_levels: "sorted_wrt (<) (map LEVEL_MAP [LOW, MEDIUM, HIGH, CRITICAL])"
  by simp


lemma split_on_line: "sep \<notin> set line \<Longrightarrow> split_on sep cur (line @ sep # rest) = (rev cur @ line) # split_on sep [] rest"
  by (induction line arbitrary: cur) auto

lemma split_on_lines:
  "list_all (\<lambda>r. sep \<notin> set (f r)) rs \<Longrightarrow> split_on sep [] (concat (map (\<lambda>r. f r @ [sep]) rs)) = map f rs @ [[]]"
  by (induction rs) (simp_all add: split_on_line)

lemma fold_append_other: "p \<noteq> path \<Longrightarrow> fold (append_run_record dumps path) rs files p = files p"
proof (induction rs arbitrary: files)
  case (Cons r rs)
  then show ?case by (simp add: append_run_record_def)
qed simp

text \<open>The results file reads back: when no JSON text holds a line break, as \<open>json.dumps\<close> promises, the lines of the file after
  any number of runs were appended are exactly the rows in their order, and the other files are untouched.\<close>

theorem runs_file_reads_back:
  assumes "list_all (\<lambda>r. CHR 0x0A \<notin> set (dumps r)) rs" "files path = None"
  shows "(case fold (append_run_record dumps path) rs files path of
      None \<Rightarrow> rs = []
    | Some text \<Rightarrow> split_on CHR 0x0A [] text = map dumps rs @ [[]]) \<and>
    (\<forall>p. p = path \<or> fold (append_run_record dumps path) rs files p = files p)"
proof -
  have "p = path \<or> fold (append_run_record dumps path) rs files p = files p" for p
    using fold_append_other [of p path] by blast
  then show ?thesis using assms by (auto simp: fold_append_text split_on_lines)
qed

definition ex_row :: "nat \<Rightarrow> RunRecord" where
  "ex_row n = build_run_record \<lparr>mr_curve = [], mr_breaches = [], mr_fills = n, mr_submitted = 3, mr_accepted = 3, mr_canceled = 3 - n,
     mr_rejected = 0, mr_fills_by = [(''QQL3'', n)], mr_submitted_by = [(''QQL3'', 3)], mr_codes = (\<lambda>_. 0), mr_final = dint 100\<rparr>
     1 5 ''s'' [''QQL3''] ''MKT'' 60 (dint 1) (dint 100) ''r'' ''t'' []"

theorem runs_file_reads_back_witness:
  "\<exists>text. fold (append_run_record rr_note ''runs.jsonl'') [ex_row 2, ex_row 3] Map.empty ''runs.jsonl'' = Some text \<and>
     split_on CHR 0x0A [] text = [[], [], []]"
proof -
  have n: "rr_note (ex_row k) = []" for k by (simp add: ex_row_def build_run_record_def)
  have e: "list_all (\<lambda>r. CHR 0x0A \<notin> set (rr_note r)) [ex_row 2, ex_row 3]" by (simp add: n)
  have f: "\<exists>text. fold (append_run_record rr_note ''runs.jsonl'') [ex_row 2, ex_row 3] Map.empty ''runs.jsonl'' = Some text"
    unfolding fold_append_text by simp
  then obtain body
    where read: "fold (append_run_record rr_note ''runs.jsonl'') [ex_row 2, ex_row 3] Map.empty ''runs.jsonl'' = Some body" ..
  have "split_on CHR 0x0A [] body = map rr_note [ex_row 2, ex_row 3] @ [[]]"
    using runs_file_reads_back [OF e, of Map.empty "''runs.jsonl''"] unfolding read by simp
  with read show ?thesis by (simp only: list.map n append.simps) blast
qed

text \<open>Two of three orders filled: the rate is 0.6667.\<close>

lemma ex_row_rates: "rr_fill_rates (ex_row 2) = [(''QQL3'', fl (6667 / 10000))]"
  by code_simp

end
