(* ===== verification/Signals.thy ===== *)
theory Signals
  imports Clocks DomainTypes
begin

text \<open>
  \<open>src/blive/runtime/signals.py\<close>: the position signal of a single instrument, the eligibility of
  the three legs of the leveraged strategy, the target weights they give and the count of regime flips.

  A float is its rational value, or None for NaN; an arithmetic operation on floats is the exact
  operation followed by \<open>fl\<close>, a comparison with NaN is False.  A \<open>Series\<close> is the list
  of its index entries with their values, and a wide \<open>DataFrame\<close> its column names and rows.  The
  moving average is computed by pandas: \<open>rolling_mean w xs\<close> stands for
  \<open>xs.rolling(window=w, min_periods=w).mean()\<close>.
\<close>

section \<open>Floats and frames\<close>

type_synonym pyfloat = "rat option"

type_synonym series = "(datetime \<times> pyfloat) list"

definition float_less :: "pyfloat \<Rightarrow> pyfloat \<Rightarrow> bool" where
  "float_less a b = (case (a, b) of (Some x, Some y) \<Rightarrow> x < y | _ \<Rightarrow> False)"

definition float_add :: "pyfloat \<Rightarrow> pyfloat \<Rightarrow> pyfloat" where
  "float_add a b = (case (a, b) of (Some x, Some y) \<Rightarrow> Some (fl (x + y)) | _ \<Rightarrow> None)"

definition float_mul :: "pyfloat \<Rightarrow> pyfloat \<Rightarrow> pyfloat" where
  "float_mul a b = (case (a, b) of (Some x, Some y) \<Rightarrow> Some (fl (x * y)) | _ \<Rightarrow> None)"

definition float_of_bool :: "bool \<Rightarrow> pyfloat" where
  "float_of_bool b = Some (if b then 1 else 0)"

record frame =
  fr_columns :: "string list"
  fr_rows :: "(datetime \<times> pyfloat list) list"

section \<open>The position of one instrument\<close>

definition sma_crossover_position :: "(nat \<Rightarrow> pyfloat list \<Rightarrow> pyfloat list) \<Rightarrow> int \<Rightarrow> Bar list \<Rightarrow> (datetime \<times> int) list res" where
  "sma_crossover_position rolling_mean sma_window bars =
     (if sma_window < 2 then Inl (ValueError ''sma_window must be >= 2'')
      else if bars = [] then Inr []
      else let closes = map (\<lambda>b. Some (fl (dval (b_close b)))) bars;
               sma = rolling_mean (nat sma_window) closes;
               position = map (\<lambda>(c, s). if float_less s c then 1 else 0) (zip closes sma);
               warm = nat (sma_window - 1)
           in Inr (zip (map b_close_time bars)
                    (replicate (min warm (length position)) 0 @ drop warm position)))"

section \<open>Eligibility of the legs\<close>

text \<open>One step of the hysteresis of a leg: the state, the close and its moving average.\<close>

definition leg_step :: "pyfloat \<Rightarrow> pyfloat \<Rightarrow> bool \<Rightarrow> pyfloat \<Rightarrow> pyfloat \<Rightarrow> bool" where
  "leg_step exit_buffer enter_buffer state c s =
     (if state \<and> float_less c (float_mul s (float_add (Some 1) exit_buffer)) then False
      else if \<not> state \<and> float_less (float_mul s (float_add (Some 1) enter_buffer)) c then True
      else state)"

text \<open>The loop over the dates: the close and average of QQQ and of TLT; what is appended for the two legs.\<close>

fun eligibility_loop :: "pyfloat \<Rightarrow> pyfloat \<Rightarrow> bool \<times> bool \<Rightarrow> ((pyfloat \<times> pyfloat) \<times> pyfloat \<times> pyfloat) list \<Rightarrow> (bool \<times> bool) list" where
  "eligibility_loop ex en st [] = []"
| "eligibility_loop ex en st (((q, qs), (t, ts)) # rest) =
     (if qs = None \<or> q = None then (True, True) # eligibility_loop ex en st rest
      else let st' = (leg_step ex en (fst st) q qs, leg_step ex en (snd st) t ts)
           in st' # eligibility_loop ex en st' rest)"

definition leg_row :: "bool \<times> bool \<Rightarrow> pyfloat list" where
  "leg_row legs = (case legs of (tq, tm) \<Rightarrow> [float_of_bool tq, float_of_bool tm, float_of_bool (\<not> (tq \<and> tm))])"

definition LEGS :: "string list" where
  "LEGS = [''TQQQ'', ''TMF'', ''IEF'']"

definition triple_lev_sma_eligibility :: "(nat \<Rightarrow> pyfloat list \<Rightarrow> pyfloat list) \<Rightarrow> series \<Rightarrow> series \<Rightarrow> int \<Rightarrow> pyfloat \<Rightarrow> pyfloat
    \<Rightarrow> frame res" where
  "triple_lev_sma_eligibility rolling_mean qqq_closes tlt_closes sma_window exit_buffer enter_buffer =
     (if sma_window < 2 then Inl (ValueError ''sma_window must be >= 2'')
      else if map fst qqq_closes \<noteq> map fst tlt_closes
      then Inl (ValueError ''qqq_closes and tlt_closes must share the same index'')
      else if qqq_closes = [] then Inr \<lparr>fr_columns = LEGS, fr_rows = []\<rparr>
      else let qs = map snd qqq_closes; ts = map snd tlt_closes;
               qqq_sma = rolling_mean (nat sma_window) qs; tlt_sma = rolling_mean (nat sma_window) ts;
               legs = eligibility_loop exit_buffer enter_buffer (True, True) (zip (zip qs qqq_sma) (zip ts tlt_sma))
           in Inr \<lparr>fr_columns = LEGS, fr_rows = zip (map fst qqq_closes) (map leg_row legs)\<rparr>)"

section \<open>Target weights and regime flips\<close>

definition weight_row :: "pyfloat list \<Rightarrow> pyfloat list" where
  "weight_row row =
     (let mask = map (\<lambda>v. case v of None \<Rightarrow> False | Some x \<Rightarrow> 1 / 2 \<le> x) row;
          count = length (filter id mask);
          safe = (if count = 0 then 1 else count)
      in map (\<lambda>m. Some (fl ((if m then 1 else 0) / of_nat safe))) mask)"

definition eligibility_to_target_weights :: "frame \<Rightarrow> frame" where
  "eligibility_to_target_weights eligibility =
     (if fr_rows eligibility = [] \<or> fr_columns eligibility = [] then eligibility
      else eligibility\<lparr>fr_rows := map (\<lambda>(d, row). (d, weight_row row)) (fr_rows eligibility)\<rparr>)"

text \<open>\<open>target_weights[equity_leg]\<close>, for distinct column names.\<close>

fun column_index :: "string \<Rightarrow> string list \<Rightarrow> nat option" where
  "column_index c [] = None"
| "column_index c (x # xs) = (if x = c then Some 0 else map_option Suc (column_index c xs))"

fun transitions :: "int list \<Rightarrow> nat" where
  "transitions (a # b # xs) = (if b \<noteq> a then 1 else 0) + transitions (b # xs)"
| "transitions xs = 0"

definition sign_state :: "pyfloat \<Rightarrow> int" where
  "sign_state v = (case v of None \<Rightarrow> 0 | Some x \<Rightarrow> if 0 < x then 1 else if x < 0 then -1 else 0)"

definition equity_leg_regime_flips :: "frame \<Rightarrow> string \<Rightarrow> nat" where
  "equity_leg_regime_flips target_weights equity_leg =
     (case column_index equity_leg (fr_columns target_weights) of
        None \<Rightarrow> 0
      | Some i \<Rightarrow>
          let col = map (\<lambda>(_, row). row ! i) (fr_rows target_weights)
          in if length col < 2 then 0 else transitions (map sign_state col))"

section \<open>The hysteresis\<close>

text \<open>When a bar puts a leg out, and when it brings it back.\<close>

definition leg_exits :: "pyfloat \<Rightarrow> pyfloat \<times> pyfloat \<Rightarrow> bool" where
  "leg_exits exit_buffer x = float_less (fst x) (float_mul (snd x) (float_add (Some 1) exit_buffer))"

definition leg_enters :: "pyfloat \<Rightarrow> pyfloat \<times> pyfloat \<Rightarrow> bool" where
  "leg_enters enter_buffer x = float_less (float_mul (snd x) (float_add (Some 1) enter_buffer)) (fst x)"

text \<open>
  The reference: a leg is in after a history when no bar put it out that was not followed by one
  that brought it back.
\<close>

definition leg_in :: "pyfloat \<Rightarrow> pyfloat \<Rightarrow> (pyfloat \<times> pyfloat) list \<Rightarrow> bool" where
  "leg_in ex en hist \<longleftrightarrow>
     (\<forall>i < length hist. leg_exits ex (hist ! i) \<longrightarrow> (\<exists>j < length hist. i < j \<and> leg_enters en (hist ! j)))"

lemma leg_in_snoc:
  assumes "\<not> (leg_exits ex x \<and> leg_enters en x)"
  shows "leg_in ex en (hist @ [x]) \<longleftrightarrow> \<not> leg_exits ex x \<and> (leg_in ex en hist \<or> leg_enters en x)"
proof
  assume l: "leg_in ex en (hist @ [x])"
  have out: "\<not> leg_exits ex x"
    using l [unfolded leg_in_def, rule_format, of "length hist"] by auto
  moreover have "leg_in ex en hist" if "\<not> leg_enters en x"
    unfolding leg_in_def
  proof (intro allI impI)
    fix i
    assume i: "i < length hist" "leg_exits ex (hist ! i)"
    then obtain j where "j < length (hist @ [x])" "i < j" "leg_enters en ((hist @ [x]) ! j)"
      using l [unfolded leg_in_def, rule_format, of i] by (auto simp: nth_append)
    with that show "\<exists>j < length hist. i < j \<and> leg_enters en (hist ! j)"
      by (auto simp: nth_append less_Suc_eq split: if_splits)
  qed
  ultimately show "\<not> leg_exits ex x \<and> (leg_in ex en hist \<or> leg_enters en x)" by blast
next
  assume r: "\<not> leg_exits ex x \<and> (leg_in ex en hist \<or> leg_enters en x)"
  show "leg_in ex en (hist @ [x])"
    unfolding leg_in_def
  proof (intro allI impI)
    fix i
    assume i: "i < length (hist @ [x])" "leg_exits ex ((hist @ [x]) ! i)"
    with r have lt: "i < length hist" by (auto simp: nth_append split: if_splits)
    with i have e: "leg_exits ex (hist ! i)" by (simp add: nth_append)
    show "\<exists>j < length (hist @ [x]). i < j \<and> leg_enters en ((hist @ [x]) ! j)"
    proof (cases "leg_enters en x")
      case True
      with lt show ?thesis by (intro exI [of _ "length hist"]) simp
    next
      case False
      with r have "leg_in ex en hist" by blast
      with lt e obtain j where "j < length hist" "i < j" "leg_enters en (hist ! j)" by (auto simp: leg_in_def)
      then show ?thesis by (intro exI [of _ j]) (simp add: nth_append)
    qed
  qed
qed

lemma leg_step_in:
  assumes "\<not> (leg_exits ex (c, s) \<and> leg_enters en (c, s))"
  shows "leg_step ex en (leg_in ex en hist) c s = leg_in ex en (hist @ [(c, s)])"
  using assms leg_in_snoc [OF assms, of hist] by (auto simp: leg_step_def leg_exits_def leg_enters_def)

lemma length_eligibility_loop [simp]: "length (eligibility_loop ex en st xs) = length xs"
  by (induction ex en st xs rule: eligibility_loop.induct) (auto simp: Let_def)

text \<open>The bars the machines look at are those with a close and an average of QQQ.\<close>

definition bar_counts :: "(pyfloat \<times> pyfloat) \<times> pyfloat \<times> pyfloat \<Rightarrow> bool" where
  "bar_counts x \<longleftrightarrow> fst (fst x) \<noteq> None \<and> snd (fst x) \<noteq> None"

definition no_overlap :: "pyfloat \<Rightarrow> pyfloat \<Rightarrow> (pyfloat \<times> pyfloat) \<times> pyfloat \<times> pyfloat \<Rightarrow> bool" where
  "no_overlap ex en x \<longleftrightarrow> \<not> (leg_exits ex (fst x) \<and> leg_enters en (fst x)) \<and> \<not> (leg_exits ex (snd x) \<and> leg_enters en (snd x))"

definition seen_bars :: "nat \<Rightarrow> ((pyfloat \<times> pyfloat) \<times> pyfloat \<times> pyfloat) list \<Rightarrow> ((pyfloat \<times> pyfloat) \<times> pyfloat \<times> pyfloat) list" where
  "seen_bars k xs = filter bar_counts (take (Suc k) xs)"

lemma eligibility_loop_nth:
  assumes "list_all (no_overlap ex en) xs" "k < length xs"
  shows "eligibility_loop ex en (leg_in ex en h1, leg_in ex en h2) xs ! k =
    (if bar_counts (xs ! k)
     then (leg_in ex en (h1 @ map fst (seen_bars k xs)), leg_in ex en (h2 @ map snd (seen_bars k xs)))
     else (True, True))"
  using assms
proof (induction xs arbitrary: k h1 h2)
  case (Cons x xs)
  obtain q qs t ts where x: "x = ((q, qs), (t, ts))" by (metis surj_pair)
  have ov: "\<not> (leg_exits ex (q, qs) \<and> leg_enters en (q, qs))" "\<not> (leg_exits ex (t, ts) \<and> leg_enters en (t, ts))"
    using Cons.prems(1) by (simp_all add: x no_overlap_def)
  note st = leg_step_in [OF ov(1), of h1] leg_step_in [OF ov(2), of h2]
  have run: "eligibility_loop ex en (leg_in ex en h1, leg_in ex en h2) (x # xs) =
      (if bar_counts x then (leg_in ex en (h1 @ [fst x]), leg_in ex en (h2 @ [snd x])) #
         eligibility_loop ex en (leg_in ex en (h1 @ [fst x]), leg_in ex en (h2 @ [snd x])) xs
       else (True, True) # eligibility_loop ex en (leg_in ex en h1, leg_in ex en h2) xs)"
    using st by (auto simp: x bar_counts_def Let_def)
  show ?case
  proof (cases k)
    case 0
    then show ?thesis by (simp add: run seen_bars_def)
  next
    case (Suc k')
    with Cons.prems have "list_all (no_overlap ex en) xs" "k' < length xs" by simp_all
    from Cons.IH [OF this] Suc show ?thesis by (simp add: run seen_bars_def)
  qed
qed simp

text \<open>With the default buffers (0 and 0.05) and positive averages no bar puts a leg out and brings it back.\<close>

definition DEFAULT_EXIT :: pyfloat where "DEFAULT_EXIT = Some 0"

definition DEFAULT_ENTER :: pyfloat where "DEFAULT_ENTER = Some (fl (1 / 20))"

definition positive_double :: "pyfloat \<Rightarrow> bool" where
  "positive_double s \<longleftrightarrow> (case s of None \<Rightarrow> True | Some x \<Rightarrow> 0 < x \<and> fl x = x)"

lemma fl_values [simp]:
  "fl 0 = 0" "fl 1 = 1" "fl (1 / 2) = 1 / 2"
  by code_simp+

lemma default_no_overlap:
  assumes "positive_double (snd (fst x))" "positive_double (snd (snd x))"
  shows "no_overlap DEFAULT_EXIT DEFAULT_ENTER x"
proof -
  have "\<not> (leg_exits DEFAULT_EXIT (c, s) \<and> leg_enters DEFAULT_ENTER (c, s))" if s: "positive_double s" for c s
  proof (cases s)
    case (Some v)
    define e where "e = fl (1 / 20 :: rat)"
    define k where "k = fl (1 + e)"
    have v: "0 < v" "fl v = v" using s Some by (simp_all add: positive_double_def)
    have e: "1 / 40 \<le> e" using fl_error [of "1 / 20"] by (simp add: e_def abs_if split: if_splits)
    then have k: "1 + 1 / 80 \<le> k" using fl_error [of "1 + e"] by (simp add: k_def abs_if split: if_splits)
    then have vk: "v * (1 + 1 / 80) \<le> v * k" using v by (intro mult_left_mono) simp_all
    then have "0 < v * k" using v by simp
    then have "v * k * (1 - 1 / 2 ^ 52) \<le> fl (v * k)" using fl_error [of "v * k"] by (simp add: abs_if field_simps split: if_splits)
    moreover have "v * (1 + 1 / 80) * (1 - 1 / 2 ^ 52) \<le> v * k * (1 - 1 / 2 ^ 52)" using vk by (intro mult_right_mono) simp_all
    moreover have "v < v * (1 + 1 / 80) * (1 - 1 / 2 ^ 52)" using v by (simp add: field_simps)
    ultimately have "v < fl (v * k)" by linarith
    moreover have "fl (v * fl (1 + 0)) = v" using v by simp
    ultimately show ?thesis
      by (cases c) (auto simp: leg_exits_def leg_enters_def Some DEFAULT_EXIT_def DEFAULT_ENTER_def float_add_def
          float_mul_def float_less_def e_def [symmetric] k_def [symmetric])
  qed (simp add: leg_exits_def float_mul_def float_less_def split: option.split)
  with assms show ?thesis by (cases x) (auto simp: no_overlap_def)
qed

section \<open>Properties\<close>

definition keeps_length :: "(nat \<Rightarrow> pyfloat list \<Rightarrow> pyfloat list) \<Rightarrow> bool" where
  "keeps_length rolling_mean \<longleftrightarrow> (\<forall>w xs. length (rolling_mean w xs) = length xs)"

text \<open>The bars of the loop: closes and averages of QQQ and TLT, date by date.\<close>

definition loop_bars :: "(nat \<Rightarrow> pyfloat list \<Rightarrow> pyfloat list) \<Rightarrow> series \<Rightarrow> series \<Rightarrow> nat
    \<Rightarrow> ((pyfloat \<times> pyfloat) \<times> pyfloat \<times> pyfloat) list" where
  "loop_bars rolling_mean qqq tlt w =
     zip (zip (map snd qqq) (rolling_mean w (map snd qqq))) (zip (map snd tlt) (rolling_mean w (map snd tlt)))"

lemma leg_in_Nil [simp]: "leg_in ex en []"
  by (simp add: leg_in_def)

text \<open>C29: the legs follow their hysteresis: on series with one index, the eligibility frame has the columns TQQQ, TMF
  and IEF and a row for every date; at a date with a close and an average of QQQ a leg is in exactly when every earlier
  or equal bar that put it out was followed by one that brought it back, and IEF is in exactly when one of them is out;
  at a date without them both legs are reported in and IEF out, whatever happened before.\<close>

theorem eligibility_hysteresis:
  assumes "keeps_length rolling_mean" "2 \<le> w" "map fst qqq = map fst tlt" "qqq \<noteq> []"
    "list_all (no_overlap ex en) (loop_bars rolling_mean qqq tlt (nat w))"
  shows "\<exists>f. triple_lev_sma_eligibility rolling_mean qqq tlt w ex en = Inr f \<and>
    fr_columns f = [''TQQQ'', ''TMF'', ''IEF''] \<and> length (fr_rows f) = length qqq \<and>
    (\<forall>k < length qqq. \<exists>tq tm. fr_rows f ! k = (fst (qqq ! k), [float_of_bool tq, float_of_bool tm, float_of_bool (\<not> (tq \<and> tm))]) \<and>
       (let bars = loop_bars rolling_mean qqq tlt (nat w)
        in if bar_counts (bars ! k)
           then tq = leg_in ex en (map fst (seen_bars k bars)) \<and> tm = leg_in ex en (map snd (seen_bars k bars))
           else tq \<and> tm))"
proof -
  define bars where "bars = loop_bars rolling_mean qqq tlt (nat w)"
  define legs where "legs = eligibility_loop ex en (True, True) bars"
  have len: "length tlt = length qqq" by (metis assms(3) length_map)
  have lb: "length bars = length qqq" using assms(1) len by (simp add: bars_def loop_bars_def keeps_length_def)
  have run: "triple_lev_sma_eligibility rolling_mean qqq tlt w ex en =
      Inr \<lparr>fr_columns = LEGS, fr_rows = zip (map fst qqq) (map leg_row legs)\<rparr>"
    using assms(2-4) by (simp add: triple_lev_sma_eligibility_def Let_def legs_def bars_def loop_bars_def)
  have row: "legs ! k = (if bar_counts (bars ! k)
      then (leg_in ex en (map fst (seen_bars k bars)), leg_in ex en (map snd (seen_bars k bars))) else (True, True))"
    if "k < length qqq" for k
    using eligibility_loop_nth [OF assms(5) [folded bars_def], of k "[]" "[]"] that lb by (simp add: legs_def)
  have ll: "length legs = length qqq" using lb by (simp add: legs_def)
  have nth: "zip (map fst qqq) (map leg_row legs) ! k = (fst (qqq ! k), leg_row (legs ! k))" if "k < length qqq" for k
    using that ll by simp
  show ?thesis
    unfolding run bars_def [symmetric] Let_def
  proof (intro exI conjI allI impI)
    fix k
    assume k: "k < length qqq"
    show "fr_rows \<lparr>fr_columns = LEGS, fr_rows = zip (map fst qqq) (map leg_row legs)\<rparr> ! k =
        (fst (qqq ! k), [float_of_bool (fst (legs ! k)), float_of_bool (snd (legs ! k)),
           float_of_bool (\<not> (fst (legs ! k) \<and> snd (legs ! k)))])"
      using nth [OF k] by (simp add: leg_row_def split: prod.split)
    show "if bar_counts (bars ! k)
       then fst (legs ! k) = leg_in ex en (map fst (seen_bars k bars)) \<and> snd (legs ! k) = leg_in ex en (map snd (seen_bars k bars))
       else fst (legs ! k) \<and> snd (legs ! k)"
      using row [OF k] by simp
  qed (simp_all add: LEGS_def ll)
qed

text \<open>Two dates of history and an average that needs two closes, for the witnesses.\<close>

definition ex_rolling :: "nat \<Rightarrow> pyfloat list \<Rightarrow> pyfloat list" where
  "ex_rolling w xs = map (\<lambda>i. if Suc i < w then None else Some 100) [0..<length xs]"

definition ex_qqq :: series where
  "ex_qqq = [(utc 1, Some 100), (utc 2, Some 90), (utc 3, None), (utc 4, Some 101), (utc 5, Some 110)]"

definition ex_tlt :: series where
  "ex_tlt = [(utc 1, Some 100), (utc 2, Some 120), (utc 3, Some 80), (utc 4, Some 80), (utc 5, Some 80)]"

lemma ex_rolling_length: "keeps_length ex_rolling"
  by (simp add: keeps_length_def ex_rolling_def)

lemma ex_no_overlap:
  "list_all (no_overlap DEFAULT_EXIT DEFAULT_ENTER) (loop_bars ex_rolling ex_qqq ex_tlt (nat 2))"
proof -
  have "fl 100 = (100 :: rat)" by code_simp
  then have "positive_double s" if "s \<in> set (ex_rolling w xs)" for s w xs
    using that by (auto simp: ex_rolling_def positive_double_def)
  then show ?thesis
    unfolding list_all_iff loop_bars_def
    by (intro ballI default_no_overlap) (auto dest!: set_zip_leftD set_zip_rightD simp: in_set_zip, (metis nth_mem)+)
qed

theorem eligibility_hysteresis_witness:
  "\<exists>f. triple_lev_sma_eligibility ex_rolling ex_qqq ex_tlt 2 DEFAULT_EXIT DEFAULT_ENTER = Inr f \<and> length (fr_rows f) = 5 \<and>
     fr_rows f ! 2 = (utc 3, [Some 1, Some 1, Some 0])"
proof -
  have h: "map fst ex_qqq = map fst ex_tlt" "ex_qqq \<noteq> []" "length ex_qqq = 5" "fst (ex_qqq ! 2) = utc 3"
    "\<not> bar_counts (loop_bars ex_rolling ex_qqq ex_tlt (nat 2) ! 2)"
    by (simp_all add: ex_qqq_def ex_tlt_def bar_counts_def loop_bars_def ex_rolling_def)
  obtain f where f: "triple_lev_sma_eligibility ex_rolling ex_qqq ex_tlt 2 DEFAULT_EXIT DEFAULT_ENTER = Inr f"
      "length (fr_rows f) = 5" and rows: "\<forall>k < 5. \<exists>tq tm. fr_rows f ! k = (fst (ex_qqq ! k),
        [float_of_bool tq, float_of_bool tm, float_of_bool (\<not> (tq \<and> tm))]) \<and>
       (let bars = loop_bars ex_rolling ex_qqq ex_tlt (nat 2)
        in if bar_counts (bars ! k)
           then tq = leg_in DEFAULT_EXIT DEFAULT_ENTER (map fst (seen_bars k bars)) \<and>
                tm = leg_in DEFAULT_EXIT DEFAULT_ENTER (map snd (seen_bars k bars))
           else tq \<and> tm)"
    using eligibility_hysteresis [OF ex_rolling_length _ h(1,2) ex_no_overlap] h(3) by auto
  from rows [rule_format, of 2] h(4,5) have "fr_rows f ! 2 = (utc 3, [Some 1, Some 1, Some 0])"
    by (auto simp: Let_def float_of_bool_def)
  with f show ?thesis by blast
qed

text \<open>The weights of a row of eligibilities.\<close>

lemma weight_row_legs:
  "weight_row (leg_row (tq, tm)) =
    (if tq \<and> tm then [Some (1 / 2), Some (1 / 2), Some 0] else if tq then [Some (1 / 2), Some 0, Some (1 / 2)]
     else if tm then [Some 0, Some (1 / 2), Some (1 / 2)] else [Some 0, Some 0, Some 1])"
  by (cases tq; cases tm) (simp_all add: weight_row_def leg_row_def float_of_bool_def Let_def)

lemma eligibility_rows:
  assumes "triple_lev_sma_eligibility rolling_mean qqq tlt w ex en = Inr f"
  shows "fr_columns f = LEGS" "d \<in> set (fr_rows f) \<Longrightarrow> \<exists>legs. snd d = leg_row legs"
proof -
  show "fr_columns f = LEGS" using assms by (auto simp: triple_lev_sma_eligibility_def Let_def split: if_splits)
  have "snd d \<in> range leg_row" if "d \<in> set (zip xs (map leg_row ys))" for xs :: "datetime list" and ys
    using set_zip_rightD [of "fst d" "snd d" xs "map leg_row ys"] that by auto
  then show "d \<in> set (fr_rows f) \<Longrightarrow> \<exists>legs. snd d = leg_row legs"
    using assms by (fastforce simp: triple_lev_sma_eligibility_def Let_def split: if_splits)
qed

text \<open>The capital is always fully invested: whatever the prices, every row of the target weights of the
  eligibility frame puts one half on each of two legs, or everything on IEF when both leveraged legs are out (so that
  the number of eligible legs is two in the first case and one in the second); dates and order are kept.\<close>

theorem weights_fully_invested:
  assumes "triple_lev_sma_eligibility rolling_mean qqq tlt w ex en = Inr f"
  shows "map fst (fr_rows (eligibility_to_target_weights f)) = map fst (fr_rows f) \<and>
    (\<forall>k < length (fr_rows f). (snd (fr_rows f ! k), snd (fr_rows (eligibility_to_target_weights f) ! k)) \<in>
       {([Some 1, Some 1, Some 0], [Some (1 / 2), Some (1 / 2), Some 0]), ([Some 1, Some 0, Some 1], [Some (1 / 2), Some 0, Some (1 / 2)]),
        ([Some 0, Some 1, Some 1], [Some 0, Some (1 / 2), Some (1 / 2)]), ([Some 0, Some 0, Some 1], [Some 0, Some 0, Some 1])})"
proof -
  have rows: "fr_rows (eligibility_to_target_weights f) = map (\<lambda>(d, row). (d, weight_row row)) (fr_rows f)"
    using eligibility_rows(1) [OF assms] by (auto simp: eligibility_to_target_weights_def LEGS_def)
  have legs: "\<exists>tq tm. snd (fr_rows f ! k) = leg_row (tq, tm)" if "k < length (fr_rows f)" for k
    using eligibility_rows(2) [OF assms nth_mem, OF that] by (metis prod.exhaust)
  have "(snd (fr_rows f ! k), weight_row (snd (fr_rows f ! k))) \<in>
       {([Some 1, Some 1, Some 0], [Some (1 / 2), Some (1 / 2), Some 0]), ([Some 1, Some 0, Some 1], [Some (1 / 2), Some 0, Some (1 / 2)]),
        ([Some 0, Some 1, Some 1], [Some 0, Some (1 / 2), Some (1 / 2)]), ([Some 0, Some 0, Some 1], [Some 0, Some 0, Some 1])}"
    if k: "k < length (fr_rows f)" for k
  proof -
    obtain tq tm where e: "snd (fr_rows f ! k) = leg_row (tq, tm)" using legs [OF k] by blast
    show ?thesis
      unfolding e weight_row_legs by (cases tq; cases tm) (simp_all add: leg_row_def float_of_bool_def)
  qed
  then show ?thesis by (simp add: rows case_prod_beta comp_def)
qed

theorem weights_fully_invested_witness:
  "\<exists>f ws. triple_lev_sma_eligibility ex_rolling ex_qqq ex_tlt 2 DEFAULT_EXIT DEFAULT_ENTER = Inr f \<and>
     length (fr_rows (eligibility_to_target_weights f)) = 5 \<and> map fst (fr_rows (eligibility_to_target_weights f)) = ws"
proof -
  have "map fst ex_qqq = map fst ex_tlt" "ex_qqq \<noteq> []" "length ex_qqq = 5" "length ex_tlt = 5"
    by (simp_all add: ex_qqq_def ex_tlt_def)
  then obtain f where f: "triple_lev_sma_eligibility ex_rolling ex_qqq ex_tlt 2 DEFAULT_EXIT DEFAULT_ENTER = Inr f"
      "length (fr_rows f) = 5"
    by (simp add: triple_lev_sma_eligibility_def Let_def ex_rolling_def)
  with weights_fully_invested [OF f(1)] show ?thesis by (metis length_map)
qed

text \<open>The count of regime flips is the number of neighbouring rows whose weights differ in sign.\<close>

lemma transitions_count:
  "transitions xs = card {i. Suc i < length xs \<and> xs ! Suc i \<noteq> xs ! i}"
proof (induction xs rule: transitions.induct)
  case (1 a b xs)
  have "{i. Suc i < length (a # b # xs) \<and> (a # b # xs) ! Suc i \<noteq> (a # b # xs) ! i} =
      (if b \<noteq> a then {0} else {}) \<union> Suc ` {i. Suc i < length (b # xs) \<and> (b # xs) ! Suc i \<noteq> (b # xs) ! i}" (is "?L = ?R")
  proof (rule set_eqI)
    fix i
    show "i \<in> ?L \<longleftrightarrow> i \<in> ?R" by (cases i) auto
  qed
  moreover have "finite {i. Suc i < length (b # xs) \<and> (b # xs) ! Suc i \<noteq> (b # xs) ! i}"
    by (rule finite_subset [of _ "{..length xs}"]) auto
  ultimately show ?case using "1.IH" by (auto simp: card_insert_if card_image)
qed simp_all

lemma regime_flips_count:
  assumes "column_index leg (fr_columns f) = Some i"
  shows "equity_leg_regime_flips f leg =
    card {k. Suc k < length (fr_rows f) \<and> sign_state (snd (fr_rows f ! Suc k) ! i) \<noteq> sign_state (snd (fr_rows f ! k) ! i)}"
proof -
  let ?col = "map sign_state (map (\<lambda>(_, row). row ! i) (fr_rows f))"
  have "transitions xs = 0" if "length xs < 2" for xs :: "int list"
    using that by (cases xs rule: transitions.cases) auto
  then have "equity_leg_regime_flips f leg = transitions ?col"
    using assms by (auto simp: equity_leg_regime_flips_def Let_def)
  also have "\<dots> = card {k. Suc k < length (fr_rows f) \<and> sign_state (snd (fr_rows f ! Suc k) ! i) \<noteq> sign_state (snd (fr_rows f ! k) ! i)}"
    unfolding transitions_count by (rule arg_cong [where f = card]) (auto simp: case_prod_beta)
  finally show ?thesis .
qed

text \<open>The position of one instrument: 1 exactly at the bars past the warm-up that close above their average.\<close>

lemma sma_position:
  assumes "keeps_length rolling_mean" "2 \<le> w" "bars \<noteq> []" "k < length bars"
  defines "closes \<equiv> map (\<lambda>b. Some (fl (dval (b_close b)))) bars"
  shows "\<exists>ps. sma_crossover_position rolling_mean w bars = Inr ps \<and> length ps = length bars \<and>
    ps ! k = (b_close_time (bars ! k),
      if nat w \<le> Suc k \<and> float_less (rolling_mean (nat w) closes ! k) (closes ! k) then 1 else 0)"
proof -
  define pos :: "int list" where "pos = map (\<lambda>(c, s). if float_less s c then 1 else 0) (zip closes (rolling_mean (nat w) closes))"
  define warm where "warm = nat (w - 1)"
  define ps where "ps = zip (map b_close_time bars) (replicate (min warm (length pos)) 0 @ drop warm pos)"
  have len: "length pos = length bars" "length closes = length bars" "length (rolling_mean (nat w) closes) = length bars"
    using assms(1) by (simp_all add: pos_def closes_def keeps_length_def)
  have "sma_crossover_position rolling_mean w bars = Inr ps"
    using assms(2,3) by (simp add: sma_crossover_position_def Let_def ps_def pos_def closes_def warm_def)
  moreover have "length ps = length bars" using len by (simp add: ps_def min_def)
  moreover have "(replicate (min warm (length pos)) 0 @ drop warm pos) ! k = (if warm \<le> k then pos ! k else 0)"
    using assms(4) len by (auto simp: nth_append min_def)
  then have "ps ! k = (b_close_time (bars ! k), if warm \<le> k then pos ! k else 0)"
    using assms(4) len by (simp add: ps_def min_def)
  moreover have "warm \<le> k \<longleftrightarrow> nat w \<le> Suc k" using assms(2) by (auto simp: warm_def)
  moreover have "pos ! k = (if float_less (rolling_mean (nat w) closes ! k) (closes ! k) then 1 else 0)"
    using assms(4) len by (simp add: pos_def)
  ultimately show ?thesis by auto
qed

end
