(* ===== verification/Credentials.thy ===== *)
theory Credentials
  imports Prelude
begin

text \<open>
  \<open>src/blive/adapters/shared/credentials.py\<close>: the credential schema, the parser of
  \<open>{broker}.env\<close> files and the loader.  The process environment and the file are arguments:
  \<open>env\<close> is a partial map and \<open>file_text\<close> the content of the file, None when the path is not a
  file.
\<close>

section \<open>Schema\<close>

record CredentialField =
  cf_name :: string
  cf_required :: bool
  cf_secret :: bool

definition mk_CredentialField :: "CredentialField \<Rightarrow> CredentialField res" where
  "mk_CredentialField = validated (\<lambda>f. [(cf_name f = [], ValueError ''CredentialField.name must be non-empty'')])"

record CredentialSchema =
  cs_broker :: string
  cs_fields :: "CredentialField list"

fun has_duplicate :: "string list \<Rightarrow> CredentialField list \<Rightarrow> bool" where
  "has_duplicate seen [] = False"
| "has_duplicate seen (f # fs) = (cf_name f \<in> set seen \<or> has_duplicate (cf_name f # seen) fs)"

definition CredentialSchema_checks :: "CredentialSchema \<Rightarrow> (bool \<times> exn) list" where
  "CredentialSchema_checks s =
     [(cs_broker s = [], ValueError ''CredentialSchema.broker_name must be non-empty''),
      (has_duplicate [] (cs_fields s), ValueError ''CredentialSchema has duplicate field'')]"

definition mk_CredentialSchema :: "CredentialSchema \<Rightarrow> CredentialSchema res" where
  "mk_CredentialSchema = validated CredentialSchema_checks"

definition required_field_names :: "CredentialSchema \<Rightarrow> string list" where
  "required_field_names s = map cf_name (filter cf_required (cs_fields s))"

definition secret_field_names :: "CredentialSchema \<Rightarrow> string list" where
  "secret_field_names s = map cf_name (filter cf_secret (cs_fields s))"

definition redaction_keys :: "CredentialSchema list \<Rightarrow> string set" where
  "redaction_keys schemas = \<Union> (set (map (\<lambda>s. set (secret_field_names s)) schemas))"

section \<open>The env file\<close>

text \<open>\<open>str.splitlines()\<close>: a line ends at a line feed, a carriage return (with or without line feed) or one of
  the other line boundaries of Python; the last line is not reported when it is empty.\<close>

definition line_break :: "char \<Rightarrow> bool" where
  "line_break c = ((of_char c :: nat) \<in> {10, 11, 12, 13, 28, 29, 30, 133})"

fun splitlines_from :: "string \<Rightarrow> string \<Rightarrow> string list" where
  "splitlines_from cur [] = (if cur = [] then [] else [rev cur])"
| "splitlines_from cur (c # cs) =
     (if c = CHR 0x0D
      then rev cur # splitlines_from [] (if cs \<noteq> [] \<and> hd cs = CHR 0x0A then tl cs else cs)
      else if line_break c then rev cur # splitlines_from [] cs
      else splitlines_from (c # cur) cs)"

definition splitlines :: "string \<Rightarrow> string list" where
  "splitlines text = splitlines_from [] text"

text \<open>\<open>str.strip()\<close>, for characters up to U+00FF.\<close>

definition str_space :: "char \<Rightarrow> bool" where
  "str_space c = (c_space c \<or> (of_char c :: nat) \<in> {133, 160})"

definition str_strip :: "string \<Rightarrow> string" where
  "str_strip s = rev (dropWhile str_space (rev (dropWhile str_space s)))"

definition unquote :: "string \<Rightarrow> string" where
  "unquote value =
     (if 2 \<le> length value \<and>
         (hd value = CHR 0x22 \<and> last value = CHR 0x22 \<or> hd value = CHR 0x27 \<and> last value = CHR 0x27)
      then butlast (tl value) else value)"

definition dotenv_entry :: "string \<Rightarrow> (string \<times> string) option" where
  "dotenv_entry raw_line =
     (let line = str_strip raw_line
      in if line = [] \<or> hd line = CHR ''#'' then None
         else if CHR ''='' \<notin> set line then None
         else let key = str_strip (takeWhile (\<lambda>c. c \<noteq> CHR ''='') line);
                  value = str_strip (tl (dropWhile (\<lambda>c. c \<noteq> CHR ''='') line))
              in if key = [] then None else Some (key, unquote value))"

definition parse_dotenv :: "string \<Rightarrow> (string \<rightharpoonup> string)" where
  "parse_dotenv text =
     foldl (\<lambda>out line. case dotenv_entry line of None \<Rightarrow> out | Some (k, v) \<Rightarrow> out(k \<mapsto> v)) Map.empty (splitlines text)"

section \<open>The loader\<close>

fun resolve_fields :: "(string \<rightharpoonup> string) \<Rightarrow> (string \<rightharpoonup> string) \<Rightarrow> CredentialField list
    \<Rightarrow> (string \<times> string) list \<times> string list" where
  "resolve_fields env file [] = ([], [])"
| "resolve_fields env file (f # fs) =
     (let (out, missing) = resolve_fields env file fs
      in case env (cf_name f) of
           Some v \<Rightarrow> ((cf_name f, v) # out, missing)
         | None \<Rightarrow>
             (case file (cf_name f) of
                Some v \<Rightarrow> ((cf_name f, v) # out, missing)
              | None \<Rightarrow> (out, if cf_required f then cf_name f # missing else missing)))"

definition load_credentials :: "CredentialSchema \<Rightarrow> (string \<rightharpoonup> string) \<Rightarrow> string option \<Rightarrow> (string \<times> string) list res" where
  "load_credentials schema env file_text =
     (let file_values = (case file_text of None \<Rightarrow> Map.empty | Some text \<Rightarrow> parse_dotenv text);
          (out, missing) = resolve_fields env file_values (cs_fields schema)
      in if missing \<noteq> [] then Inl (CredentialsMissing (cs_broker schema) missing) else Inr out)"

section \<open>Lemmas\<close>

text \<open>The value of a field: the environment first, then the file.\<close>

definition resolved :: "(string \<rightharpoonup> string) \<Rightarrow> (string \<rightharpoonup> string) \<Rightarrow> string \<Rightarrow> string option" where
  "resolved env file name = (case env name of None \<Rightarrow> file name | Some v \<Rightarrow> Some v)"

lemma resolve_fields_spec:
  "resolve_fields env file fs =
     (List.map_filter (\<lambda>f. map_option (Pair (cf_name f)) (resolved env file (cf_name f))) fs,
      map cf_name (filter (\<lambda>f. cf_required f \<and> resolved env file (cf_name f) = None) fs))"
  by (induction fs) (auto simp: resolved_def List.map_filter_simps split: option.splits)

lemma map_of_resolved:
  "map_of (List.map_filter (\<lambda>f. map_option (Pair (cf_name f)) (resolved env file (cf_name f))) fs) name =
     (if name \<in> cf_name ` set fs then resolved env file name else None)"
  by (induction fs) (auto simp: List.map_filter_simps split: option.splits)

definition file_map :: "string option \<Rightarrow> (string \<rightharpoonup> string)" where
  "file_map file_text = (case file_text of None \<Rightarrow> Map.empty | Some text \<Rightarrow> parse_dotenv text)"

lemma has_duplicate_iff: "has_duplicate seen fs \<longleftrightarrow> \<not> distinct (map cf_name fs) \<or> set seen \<inter> cf_name ` set fs \<noteq> {}"
  by (induction seen fs rule: has_duplicate.induct) auto

text \<open>A file as an operator writes it: assignments, with or without quotes around the value and with white space where the
  parser allows it, between lines that assign nothing: blank ones, comments (which may hold an equals sign, as
  a commented assignment does), and lines without an equals sign or without a key.\<close>

datatype quoting = Bare | Single | Double

datatype env_item =
    Note string
  | Assign string quoting string "string \<times> string \<times> string \<times> string"

fun quoted_value :: "quoting \<Rightarrow> string \<Rightarrow> string" where
  "quoted_value Bare v = v"
| "quoted_value Single v = CHR 0x27 # v @ [CHR 0x27]"
| "quoted_value Double v = CHR 0x22 # v @ [CHR 0x22]"

fun env_line :: "env_item \<Rightarrow> string" where
  "env_line (Note l) = l"
| "env_line (Assign k q v (indent, before, after, trailing)) =
     indent @ k @ before @ CHR ''='' # after @ quoted_value q v @ trailing"

fun assigned :: "env_item \<Rightarrow> (string \<times> string) list" where
  "assigned (Note l) = []"
| "assigned (Assign k q v spaces) = [(k, v)]"

definition env_file :: "string \<Rightarrow> env_item list \<Rightarrow> string" where
  "env_file newline items = concat (map (\<lambda>item. env_line item @ newline) items)"

definition newline_ok :: "string \<Rightarrow> bool" where
  "newline_ok newline \<longleftrightarrow> newline = [CHR 0x0A] \<or> newline = [CHR 0x0D, CHR 0x0A]"

definition no_break :: "string \<Rightarrow> bool" where
  "no_break s = list_all (\<lambda>c. \<not> line_break c) s"

text \<open>A text without white space at its ends.\<close>

definition solid :: "string \<Rightarrow> bool" where
  "solid s \<longleftrightarrow> s = [] \<or> \<not> str_space (hd s) \<and> \<not> str_space (last s)"

definition env_key :: "string \<Rightarrow> bool" where
  "env_key k \<longleftrightarrow> k \<noteq> [] \<and> solid k \<and> no_break k \<and> CHR ''='' \<notin> set k \<and> hd k \<noteq> CHR ''#''"

definition looks_quoted :: "string \<Rightarrow> bool" where
  "looks_quoted v \<longleftrightarrow> 2 \<le> length v \<and> hd v = last v \<and> hd v \<in> {CHR 0x22, CHR 0x27}"

definition note_ok :: "string \<Rightarrow> bool" where
  "note_ok l \<longleftrightarrow> CHR ''='' \<notin> set l \<or>
     (case dropWhile str_space l of [] \<Rightarrow> True | c # _ \<Rightarrow> c = CHR ''#'' \<or> c = CHR ''='')"

fun item_ok :: "env_item \<Rightarrow> bool" where
  "item_ok (Note l) = (no_break l \<and> note_ok l)"
| "item_ok (Assign k q v (indent, before, after, trailing)) =
     (env_key k \<and> no_break v \<and> (q = Bare \<longrightarrow> solid v \<and> \<not> looks_quoted v) \<and>
      list_all (\<lambda>s. list_all str_space s \<and> no_break s) [indent, before, after, trailing])"

lemma str_strip_solid: "solid s \<Longrightarrow> str_strip s = s"
  by (cases "s = []") (simp_all add: solid_def str_strip_def dropWhile_eq_self_iff [THEN iffD2] hd_rev)

lemma dropWhile_pad: "list_all P xs \<Longrightarrow> dropWhile P (xs @ ys) = dropWhile P ys"
  by (induction xs) simp_all

lemma dropWhile_snoc: "\<not> P x \<Longrightarrow> dropWhile P (xs @ x # ys) = dropWhile P xs @ x # ys"
  by (induction xs) simp_all

lemma str_strip_blank: "list_all str_space s \<Longrightarrow> str_strip s = []"
  by (auto simp: str_strip_def list_all_iff dest: set_dropWhileD)

lemma str_strip_pad:
  assumes "list_all str_space a" "list_all str_space b"
  shows "str_strip (a @ s @ b) = str_strip s"
proof (cases "list_all str_space s")
  case True
  with assms show ?thesis by (simp add: str_strip_blank)
next
  case False
  then obtain x where x: "x \<in> set s" "\<not> str_space x" by (auto simp: list_all_iff)
  have "dropWhile str_space (s @ b) = dropWhile str_space s @ b" by (rule dropWhile_append1 [of x s str_space b, OF x])
  moreover have "list_all str_space (rev b)" using assms(2) by simp
  ultimately show ?thesis using dropWhile_pad [OF assms(1), of "s @ b"] by (simp add: str_strip_def dropWhile_pad)
qed

lemma unquote_quoted_value: "(q = Bare \<longrightarrow> \<not> looks_quoted v) \<Longrightarrow> unquote (quoted_value q v) = v"
  by (cases q) (auto simp: unquote_def looks_quoted_def)

lemma solid_quoted_value: "(q = Bare \<longrightarrow> solid v) \<Longrightarrow> solid (quoted_value q v)"
  by (cases q) (auto simp: solid_def str_space_def c_space_def)

text \<open>What the parser makes of a line.\<close>

lemma str_strip_head:
  assumes "dropWhile str_space l = c # cs"
  shows "\<exists>tail. str_strip l = c # tail \<and> set tail \<subseteq> set cs"
proof -
  have "\<not> str_space c" using assms by (simp add: dropWhile_eq_Cons_conv)
  then have "str_strip l = c # rev (dropWhile str_space (rev cs))"
    using dropWhile_snoc [of str_space c "rev cs" "[]"] by (simp add: str_strip_def assms)
  then show ?thesis by (auto dest: set_dropWhileD)
qed

lemma dotenv_entry_note:
  assumes "note_ok l"
  shows "dotenv_entry l = None"
proof (cases "dropWhile str_space l")
  case Nil
  then have "str_strip l = []" by (simp only: str_strip_def) simp
  then show ?thesis by (simp add: dotenv_entry_def)
next
  case (Cons c cs)
  obtain tail where t: "str_strip l = c # tail" "set tail \<subseteq> set cs" using str_strip_head [OF Cons] by blast
  have "set (c # cs) \<subseteq> set l" using set_dropWhileD [of _ str_space l] Cons by auto
  then show ?thesis using assms t Cons by (auto simp: dotenv_entry_def note_ok_def Let_def str_strip_blank)
qed

lemma dotenv_entry_assign:
  assumes "item_ok (Assign k q v (indent, before, after, trailing))"
  shows "dotenv_entry (env_line (Assign k q v (indent, before, after, trailing))) = Some (k, v)"
proof -
  let ?rhs = "quoted_value q v"
  have k: "k \<noteq> []" "solid k" "CHR ''='' \<notin> set k" "hd k \<noteq> CHR ''#''" using assms by (auto simp: env_key_def)
  have sp: "list_all str_space indent" "list_all str_space before" "list_all str_space after" "list_all str_space trailing"
    using assms by simp_all
  have eq: "\<not> str_space CHR ''=''" by (simp add: str_space_def c_space_def)
  have rhs: "solid ?rhs" "unquote ?rhs = v" using assms by (auto intro: solid_quoted_value unquote_quoted_value)
  obtain tail where line: "str_strip (env_line (Assign k q v (indent, before, after, trailing))) = k @ before @ CHR ''='' # tail"
    and tail: "str_strip tail = ?rhs"
  proof (cases "?rhs = []")
    case True
    have "solid (k @ before @ [CHR ''=''])" using k eq by (auto simp: solid_def)
    with str_strip_pad [OF sp(1), of "after @ trailing" "k @ before @ [CHR ''='']"] sp True
    show thesis by (intro that [of "[]"]) (simp_all add: str_strip_solid str_strip_blank)
  next
    case False
    then have "solid (k @ before @ CHR ''='' # after @ ?rhs)" using k rhs(1) by (auto simp: solid_def)
    moreover have "str_strip (after @ ?rhs) = ?rhs" using str_strip_pad [OF sp(3), of "[]" ?rhs] rhs(1) by (simp add: str_strip_solid)
    ultimately show thesis
      using str_strip_pad [OF sp(1,4), of "k @ before @ CHR ''='' # after @ ?rhs"] that [of "after @ ?rhs"] by (simp add: str_strip_solid)
  qed
  have c: "c \<noteq> CHR ''=''" if "c \<in> set (k @ before)" for c using that k(3) sp(2) eq by (auto simp: list_all_iff)
  have split: "takeWhile (\<lambda>c. c \<noteq> CHR ''='') ((k @ before) @ CHR ''='' # tail) = k @ before"
    "dropWhile (\<lambda>c. c \<noteq> CHR ''='') ((k @ before) @ CHR ''='' # tail) = CHR ''='' # tail"
    using takeWhile_append2 [of "k @ before" "\<lambda>c. c \<noteq> CHR ''=''"] dropWhile_append2 [of "k @ before" "\<lambda>c. c \<noteq> CHR ''=''"] c
    by fastforce+
  have "str_strip (k @ before) = k" using str_strip_pad [of "[]" before k] sp(2) k(2) by (simp add: str_strip_solid)
  then show ?thesis using k(1,4) split tail rhs(2) by (simp add: dotenv_entry_def Let_def line del: env_line.simps)
qed

lemma splitlines_line:
  assumes "no_break l" "newline_ok newline"
  shows "splitlines_from cur (l @ newline @ rest) = (rev cur @ l) # splitlines_from [] rest"
  using assms(1)
proof (induction l arbitrary: cur)
  case Nil
  then show ?case using assms(2) by (auto simp: newline_ok_def line_break_def)
next
  case (Cons c l)
  then have "c \<noteq> CHR 0x0D" by (auto simp: no_break_def line_break_def)
  with Cons show ?case by (simp add: no_break_def)
qed

lemma env_line_no_break: "item_ok item \<Longrightarrow> no_break (env_line item)"
proof (cases item)
  case (Assign k q v spaces)
  assume "item_ok item"
  then show ?thesis by (cases spaces; cases q) (auto simp: Assign no_break_def env_key_def line_break_def)
qed simp

lemma splitlines_env_file: "list_all item_ok items \<Longrightarrow> newline_ok newline \<Longrightarrow> splitlines (env_file newline items) = map env_line items"
  by (induction items) (simp_all add: splitlines_def env_file_def splitlines_line env_line_no_break)

lemma foldl_entries:
  "list_all item_ok items \<Longrightarrow>
    foldl (\<lambda>out line. case dotenv_entry line of None \<Rightarrow> out | Some (k, v) \<Rightarrow> out(k \<mapsto> v)) m (map env_line items)
    = m ++ map_of (rev (concat (map assigned items)))"
proof (induction items arbitrary: m)
  case (Cons item items)
  show ?case
  proof (cases item)
    case (Note l)
    with Cons show ?thesis by (simp add: dotenv_entry_note)
  next
    case (Assign k q v spaces)
    obtain a b c d where "spaces = (a, b, c, d)" by (cases spaces)
    with Cons Assign dotenv_entry_assign [of k q v a b c d] show ?thesis by (simp del: env_line.simps)
  qed
qed simp

section \<open>Properties\<close>

text \<open>C40: what an operator writes is what the loader reads.  For a file of assignments whose values are written bare (as in the
  templates of the repository), in single or in double quotes, with white space around the key and the value as the
  parser allows it, between blank lines, comments and lines that assign nothing, and with line ends of Unix or
  Windows, the parser returns exactly the values written and no other key, the last assignment of a key winning.  A value in
  quotes is any text without a line break (quotes, hashes, equals signs and white space included); a bare one may be
  empty, has no white space at its ends and does not look like a quoted one.\<close>

theorem dotenv_roundtrip:
  assumes "list_all item_ok items" "newline_ok newline"
  shows "parse_dotenv (env_file newline items) = map_of (rev (concat (map assigned items)))"
  using foldl_entries [OF assms(1), of Map.empty] by (simp add: parse_dotenv_def splitlines_env_file [OF assms])

definition ex_env_items :: "env_item list" where
  "ex_env_items = [Note ''# Required fields:'', Note ''  # IG_ENVIRONMENT=live'', Note [],
     Assign ''IG_API_KEY'' Bare ''replace-with-your-ig-api-key'' ([], [], [], []),
     Assign ''IG_USERNAME'' Single ''it = # me '' ('' '', '' '', '' '', '' ''),
     Assign ''IG_PASSWORD'' Double (''a '' @ [CHR 0x22]) ([], [], '' '', []),
     Assign ''IG_ENVIRONMENT'' Bare [] ([], [], '' '', []), Note ''half a line'', Note ''= no key'',
     Assign ''IG_ENVIRONMENT'' Bare ''demo'' ([], [], [], '' '')]"

theorem dotenv_roundtrip_witness:
  "\<exists>read. parse_dotenv (env_file [CHR 0x0D, CHR 0x0A] ex_env_items) = read \<and>
     read ''IG_API_KEY'' = Some ''replace-with-your-ig-api-key'' \<and> read ''IG_USERNAME'' = Some ''it = # me '' \<and>
     read ''IG_PASSWORD'' = Some (''a '' @ [CHR 0x22]) \<and> read ''IG_ENVIRONMENT'' = Some ''demo'' \<and> read ''# IG_ENVIRONMENT'' = None"
proof -
  have "list_all item_ok ex_env_items" by code_simp
  moreover have "newline_ok [CHR 0x0D, CHR 0x0A]" by (simp add: newline_ok_def)
  ultimately show ?thesis by (simp add: dotenv_roundtrip ex_env_items_def)
qed

text \<open>The loader's contract: it fails exactly when some required field is neither in the environment nor in the
  file, naming all of them in the order of the schema; otherwise every field of the schema has the value of the
  environment, or else of the file, optional fields without a value are absent, and nothing outside the schema is
  returned.\<close>

theorem load_credentials_contract:
  "(case load_credentials schema env file_text of
      Inl e \<Rightarrow> \<exists>missing. e = CredentialsMissing (cs_broker schema) missing \<and> missing \<noteq> [] \<and>
        missing = filter (\<lambda>n. resolved env (file_map file_text) n = None) (required_field_names schema)
    | Inr out \<Rightarrow> list_all (\<lambda>n. resolved env (file_map file_text) n \<noteq> None) (required_field_names schema) \<and>
        (\<forall>name. map_of out name = (if name \<in> cf_name ` set (cs_fields schema) then resolved env (file_map file_text) name else None)))"
proof -
  let ?missing = "map cf_name (filter (\<lambda>f. cf_required f \<and> resolved env (file_map file_text) (cf_name f) = None) (cs_fields schema))"
  have m: "?missing = filter (\<lambda>n. resolved env (file_map file_text) n = None) (required_field_names schema)"
    by (simp add: required_field_names_def filter_map o_def conj_commute)
  have l: "load_credentials schema env file_text = (if ?missing \<noteq> [] then Inl (CredentialsMissing (cs_broker schema) ?missing)
      else Inr (List.map_filter (\<lambda>f. map_option (Pair (cf_name f)) (resolved env (file_map file_text) (cf_name f))) (cs_fields schema)))"
    unfolding load_credentials_def Let_def file_map_def [symmetric] resolve_fields_spec by simp
  show ?thesis
  proof (cases "?missing = []")
    case True
    with m have "filter (\<lambda>n. resolved env (file_map file_text) n = None) (required_field_names schema) = []" by simp
    then have "list_all (\<lambda>n. resolved env (file_map file_text) n \<noteq> None) (required_field_names schema)"
      by (simp add: filter_empty_conv list_all_iff)
    with True l show ?thesis by (simp add: map_of_resolved)
  next
    case False
    then show ?thesis unfolding l using m by simp
  qed
qed

end
