(* ===== verification/BrokerSetup.thy ===== *)
theory BrokerSetup
  imports Credentials DecimalText "HOL-Library.AList" "HOL-Library.List_Lexorder" "HOL-Library.Char_ord"
begin

text \<open>
  What brings a broker up: the credentials of IG and IB over the shared loader (\<open>src/blive/adapters/ig/credentials.py\<close>,
  \<open>src/blive/adapters/ib/credentials.py\<close>), the connection of the IB client (\<open>src/blive/adapters/ib/client.py\<close>) and the
  registry of factories (\<open>src/blive/runtime/broker_registry.py\<close>).  The socket library and the factories themselves are
  parameters: a call of one is its outcome, a factory is whatever the table holds.
\<close>

section \<open>IG credentials\<close>

definition field :: "string \<Rightarrow> bool \<Rightarrow> CredentialField" where
  "field name secret = \<lparr>cf_name = name, cf_required = True, cf_secret = secret\<rparr>"

definition IG_SCHEMA :: CredentialSchema where
  "IG_SCHEMA = \<lparr>cs_broker = ''ig'', cs_fields = [field ''IG_API_KEY'' True, field ''IG_USERNAME'' True, field ''IG_PASSWORD'' True,
     field ''IG_ACCOUNT_ID'' False, field ''IG_ENVIRONMENT'' False]\<rparr>"

record IGCredentials =
  igc_api_key :: string
  igc_username :: string
  igc_password :: string
  igc_account_id :: string
  igc_environment :: string

definition mk_IGCredentials :: "IGCredentials \<Rightarrow> IGCredentials res" where
  "mk_IGCredentials = validated (\<lambda>c.
     [(igc_api_key c = [], ValueError ''IGCredentials.api_key must be non-empty''),
      (igc_username c = [], ValueError ''IGCredentials.username must be non-empty''),
      (igc_password c = [], ValueError ''IGCredentials.password must be non-empty''),
      (igc_account_id c = [], ValueError ''IGCredentials.account_id must be non-empty''),
      (igc_environment c \<notin> {''demo'', ''live''}, ValueError ''IGCredentials.environment must be demo or live'')])"

definition validate_environment :: "string \<Rightarrow> string res" where
  "validate_environment text =
     (if text = ''demo'' then Inr ''demo'' else if text = ''live'' then Inr ''live''
      else Inl (ValueError ''IG_ENVIRONMENT must be demo or live''))"

definition raw_value :: "(string \<times> string) list \<Rightarrow> string \<Rightarrow> string res" where
  "raw_value raw name = (case map_of raw name of None \<Rightarrow> Inl (KeyError name) | Some v \<Rightarrow> Inr v)"

definition load_ig_credentials :: "(string \<rightharpoonup> string) \<Rightarrow> string option \<Rightarrow> IGCredentials res" where
  "load_ig_credentials env file_text =
     bindR (load_credentials IG_SCHEMA env file_text) (\<lambda>raw.
     bindR (raw_value raw ''IG_API_KEY'') (\<lambda>api_key.
     bindR (raw_value raw ''IG_USERNAME'') (\<lambda>username.
     bindR (raw_value raw ''IG_PASSWORD'') (\<lambda>password.
     bindR (raw_value raw ''IG_ACCOUNT_ID'') (\<lambda>account_id.
     bindR (raw_value raw ''IG_ENVIRONMENT'') (\<lambda>environment_text.
     bindR (validate_environment environment_text) (\<lambda>environment.
     mk_IGCredentials \<lparr>igc_api_key = api_key, igc_username = username, igc_password = password, igc_account_id = account_id,
       igc_environment = environment\<rparr>)))))))"

definition ig_is_demo :: "IGCredentials \<Rightarrow> bool" where
  "ig_is_demo c \<longleftrightarrow> igc_environment c = ''demo''"

definition ig_is_live :: "IGCredentials \<Rightarrow> bool" where
  "ig_is_live c \<longleftrightarrow> igc_environment c = ''live''"

section \<open>IB credentials\<close>

definition IB_SCHEMA :: CredentialSchema where
  "IB_SCHEMA = \<lparr>cs_broker = ''ib'', cs_fields = [field ''IB_HOST'' False, field ''IB_PORT'' False, field ''IB_CLIENT_ID'' False,
     field ''IB_PAPER_ACCOUNT_ID'' True]\<rparr>"

record IBCredentials =
  ibc_host :: string
  ibc_port :: int
  ibc_client_id :: int
  ibc_account_id :: string

definition mk_IBCredentials :: "IBCredentials \<Rightarrow> IBCredentials res" where
  "mk_IBCredentials = validated (\<lambda>c.
     [(ibc_host c = [], ValueError ''IBCredentials.host must be non-empty''),
      (\<not> (1 \<le> ibc_port c \<and> ibc_port c \<le> 65535), ValueError ''IBCredentials.port must be in [1, 65535]''),
      (ibc_client_id c < 0, ValueError ''IBCredentials.client_id must be >= 0''),
      (ibc_account_id c = [], ValueError ''IBCredentials.account_id must be non-empty'')])"

definition int_value :: "string \<Rightarrow> string \<Rightarrow> int res" where
  "int_value text field_name = (case parse_int text of None \<Rightarrow> Inl (ValueError (field_name @ '' must be an integer'')) | Some n \<Rightarrow> Inr n)"

definition load_ib_credentials :: "(string \<rightharpoonup> string) \<Rightarrow> string option \<Rightarrow> IBCredentials res" where
  "load_ib_credentials env file_text =
     bindR (load_credentials IB_SCHEMA env file_text) (\<lambda>raw.
     bindR (raw_value raw ''IB_HOST'') (\<lambda>host.
     bindR (bindR (raw_value raw ''IB_PORT'') (\<lambda>text. int_value text ''IB_PORT'')) (\<lambda>port.
     bindR (bindR (raw_value raw ''IB_CLIENT_ID'') (\<lambda>text. int_value text ''IB_CLIENT_ID'')) (\<lambda>client_id.
     bindR (raw_value raw ''IB_PAPER_ACCOUNT_ID'') (\<lambda>account_id.
     mk_IBCredentials \<lparr>ibc_host = host, ibc_port = port, ibc_client_id = client_id, ibc_account_id = account_id\<rparr>)))))"

section \<open>The IB client\<close>

text \<open>What \<open>wait_for(connectAsync(...))\<close> may come to; a raised exception that is not an \<open>OSError\<close> passes through.\<close>

datatype connect_outcome = Connected | ConnectTimeout | ConnectRefused | ConnectOSError | ConnectRaised exn

definition ib_client_connect :: "unit res \<Rightarrow> connect_outcome \<Rightarrow> (bool, unit) sx" where
  "ib_client_connect acquired outcome =
     bindS (getS id) (\<lambda>is_connected.
     if is_connected then retS ()
     else bindS (liftS acquired) (\<lambda>_.
          case outcome of
            Connected \<Rightarrow> modS (\<lambda>_. True)
          | ConnectTimeout \<Rightarrow> raiseS (IBConnectionError ''IB connect timed out'')
          | ConnectRefused \<Rightarrow> raiseS (IBConnectionError ''IB connect refused'')
          | ConnectOSError \<Rightarrow> raiseS (IBConnectionError ''IB connect failed'')
          | ConnectRaised e \<Rightarrow> raiseS e))"

text \<open>\<open>disconnect\<close>: the outcome says whether the library's call raised, and \<open>open_after\<close> whether the socket is then still open.\<close>

definition ib_client_disconnect :: "bool res \<Rightarrow> bool \<Rightarrow> (bool, unit) sx" where
  "ib_client_disconnect outcome open_after =
     bindS (getS id) (\<lambda>is_connected.
     if \<not> is_connected then retS ()
     else case outcome of Inl e \<Rightarrow> modS (\<lambda>_. open_after) | Inr _ \<Rightarrow> modS (\<lambda>_. False))"

section \<open>The registry\<close>

record 'f registry =
  rg_brokers :: "(string \<times> 'f) list"
  rg_market_data :: "(string \<times> 'f) list"

definition bootstrap :: "string registry" where
  "bootstrap = \<lparr>rg_brokers = [(''paper'', ''PaperBroker''), (''ig'', ''create_ig_broker''), (''ib'', ''create_ib_broker'')],
     rg_market_data = [(''paper'', ''PaperMarketData''), (''ig'', ''create_ig_market_data''), (''ib'', ''create_ib_market_data'')]\<rparr>"

text \<open>Calling the factory is left to the caller.\<close>

definition get_broker :: "'f registry \<Rightarrow> string \<Rightarrow> 'f res" where
  "get_broker r name = (case map_of (rg_brokers r) name of None \<Rightarrow> Inl (UnknownBroker name ''broker'') | Some f \<Rightarrow> Inr f)"

definition get_market_data :: "'f registry \<Rightarrow> string \<Rightarrow> 'f res" where
  "get_market_data r name =
     (case map_of (rg_market_data r) name of None \<Rightarrow> Inl (UnknownBroker name ''market_data'') | Some f \<Rightarrow> Inr f)"

definition register_broker :: "string \<Rightarrow> 'f \<Rightarrow> 'f registry \<Rightarrow> 'f registry" where
  "register_broker name factory r = r\<lparr>rg_brokers := AList.update name factory (rg_brokers r)\<rparr>"

definition register_market_data :: "string \<Rightarrow> 'f \<Rightarrow> 'f registry \<Rightarrow> 'f registry" where
  "register_market_data name factory r = r\<lparr>rg_market_data := AList.update name factory (rg_market_data r)\<rparr>"

definition known_brokers :: "'f registry \<Rightarrow> string list" where
  "known_brokers r = sort (map fst (rg_brokers r))"

definition known_market_data :: "'f registry \<Rightarrow> string list" where
  "known_market_data r = sort (map fst (rg_market_data r))"

definition reset_registries :: "'f registry \<Rightarrow> 'f registry \<Rightarrow> 'f registry" where
  "reset_registries boot r = r\<lparr>rg_brokers := rg_brokers boot, rg_market_data := rg_market_data boot\<rparr>"

section \<open>Lemmas\<close>

lemma load_values:
  assumes "load_credentials schema env file_text = Inr raw" "f \<in> set (cs_fields schema)" "cf_required f"
  shows "raw_value raw (cf_name f) = Inr v \<longleftrightarrow> resolved env (file_map file_text) (cf_name f) = Some v"
proof -
  have raw: "raw = List.map_filter (\<lambda>f. map_option (Pair (cf_name f)) (resolved env (file_map file_text) (cf_name f))) (cs_fields schema)"
    using assms(1) by (auto simp: load_credentials_def file_map_def resolve_fields_spec Let_def split: if_splits)
  show ?thesis using assms(2) unfolding raw raw_value_def map_of_resolved by (auto split: option.split)
qed

lemma load_ok_iff:
  "is_ok (load_credentials schema env file_text) \<longleftrightarrow>
     list_all (\<lambda>f. cf_required f \<longrightarrow> resolved env (file_map file_text) (cf_name f) \<noteq> None) (cs_fields schema)"
  by (auto simp: load_credentials_def file_map_def resolve_fields_spec Let_def filter_empty_conv list_all_iff is_ok_def split: if_splits)

text \<open>Every broker the registry knows after any registrations: the ones it knew and the registered ones.\<close>

lemma get_registered:
  "get_broker (register_broker name factory r) other = (if other = name then Inr factory else get_broker r other)"
  by (simp add: get_broker_def register_broker_def update_conv')

lemma reset_known: "known_brokers (reset_registries boot r) = known_brokers boot"
  by (simp add: known_brokers_def reset_registries_def)

lemma bootstrap_known: "known_brokers bootstrap = [''ib'', ''ig'', ''paper'']" "known_market_data bootstrap = [''ib'', ''ig'', ''paper'']"
  by code_simp+

section \<open>Properties\<close>

text \<open>The credentials of IG load exactly when the environment or the file gives all five fields, none of the first four
  is empty and the environment is demo or live; they are then the values given, the process environment first.\<close>

theorem ig_credentials_load:
  "load_ig_credentials env file_text = Inr c \<longleftrightarrow>
     (let given = resolved env (file_map file_text) in
      given ''IG_API_KEY'' = Some (igc_api_key c) \<and> given ''IG_USERNAME'' = Some (igc_username c) \<and>
      given ''IG_PASSWORD'' = Some (igc_password c) \<and> given ''IG_ACCOUNT_ID'' = Some (igc_account_id c) \<and>
      given ''IG_ENVIRONMENT'' = Some (igc_environment c) \<and>
      [] \<notin> {igc_api_key c, igc_username c, igc_password c, igc_account_id c} \<and> igc_environment c \<in> {''demo'', ''live''})"
proof -
  have env: "validate_environment x = Inr y \<longleftrightarrow> y = x \<and> x \<in> {''demo'', ''live''}" for x y
    by (auto simp: validate_environment_def)
  have mk: "mk_IGCredentials x = Inr y \<longleftrightarrow> y = x \<and> [] \<notin> {igc_api_key x, igc_username x, igc_password x, igc_account_id x} \<and>
      igc_environment x \<in> {''demo'', ''live''}" for x y
    unfolding mk_IGCredentials_def validated_eq_Inr checks_ok_iff by auto
  show ?thesis
  proof (cases "load_credentials IG_SCHEMA env file_text")
    case (Inl e)
    then have "\<not> is_ok (load_credentials IG_SCHEMA env file_text)" by simp
    then have "\<exists>f \<in> set (cs_fields IG_SCHEMA). resolved env (file_map file_text) (cf_name f) = None"
      by (auto simp: load_ok_iff list_all_iff)
    then have "None \<in> resolved env (file_map file_text) ` {''IG_API_KEY'', ''IG_USERNAME'', ''IG_PASSWORD'', ''IG_ACCOUNT_ID'', ''IG_ENVIRONMENT''}"
      by (auto simp: IG_SCHEMA_def field_def)
    with Inl show ?thesis by (auto simp: load_ig_credentials_def Let_def)
  next
    case (Inr raw)
    note rv = load_values [OF Inr]
    have "raw_value raw ''IG_API_KEY'' = Inr v \<longleftrightarrow> resolved env (file_map file_text) ''IG_API_KEY'' = Some v"
      "raw_value raw ''IG_USERNAME'' = Inr v \<longleftrightarrow> resolved env (file_map file_text) ''IG_USERNAME'' = Some v"
      "raw_value raw ''IG_PASSWORD'' = Inr v \<longleftrightarrow> resolved env (file_map file_text) ''IG_PASSWORD'' = Some v"
      "raw_value raw ''IG_ACCOUNT_ID'' = Inr v \<longleftrightarrow> resolved env (file_map file_text) ''IG_ACCOUNT_ID'' = Some v"
      "raw_value raw ''IG_ENVIRONMENT'' = Inr v \<longleftrightarrow> resolved env (file_map file_text) ''IG_ENVIRONMENT'' = Some v" for v
      using rv [of "field ''IG_API_KEY'' True" v] rv [of "field ''IG_USERNAME'' True" v] rv [of "field ''IG_PASSWORD'' True" v]
        rv [of "field ''IG_ACCOUNT_ID'' False" v] rv [of "field ''IG_ENVIRONMENT'' False" v]
      by (simp_all add: IG_SCHEMA_def field_def)
    note this [simp]
    show ?thesis unfolding load_ig_credentials_def Inr Let_def bindR_simps bindR_eq_Inr env mk by (cases c) auto
  qed
qed

text \<open>The credentials of IB load exactly when the environment or the file gives all four fields, the host and the account are not
  empty, and the port and the client id are texts of integers in range.\<close>

theorem ib_credentials_load:
  "load_ib_credentials env file_text = Inr c \<longleftrightarrow>
     (let given = resolved env (file_map file_text) in
      given ''IB_HOST'' = Some (ibc_host c) \<and> Option.bind (given ''IB_PORT'') parse_int = Some (ibc_port c) \<and>
      Option.bind (given ''IB_CLIENT_ID'') parse_int = Some (ibc_client_id c) \<and> given ''IB_PAPER_ACCOUNT_ID'' = Some (ibc_account_id c) \<and>
      ibc_host c \<noteq> [] \<and> ibc_account_id c \<noteq> [] \<and> 1 \<le> ibc_port c \<and> ibc_port c \<le> 65535 \<and> 0 \<le> ibc_client_id c)"
proof -
  have int: "int_value x n = Inr y \<longleftrightarrow> parse_int x = Some y" for x n y
    by (auto simp: int_value_def split: option.split)
  have mk: "mk_IBCredentials x = Inr y \<longleftrightarrow> y = x \<and> ibc_host x \<noteq> [] \<and> ibc_account_id x \<noteq> [] \<and> 1 \<le> ibc_port x \<and> ibc_port x \<le> 65535 \<and>
      0 \<le> ibc_client_id x" for x y
    unfolding mk_IBCredentials_def validated_eq_Inr checks_ok_iff by auto
  show ?thesis
  proof (cases "load_credentials IB_SCHEMA env file_text")
    case (Inl e)
    then have "\<not> is_ok (load_credentials IB_SCHEMA env file_text)" by simp
    then have "\<exists>f \<in> set (cs_fields IB_SCHEMA). resolved env (file_map file_text) (cf_name f) = None"
      by (auto simp: load_ok_iff list_all_iff)
    then have "None \<in> resolved env (file_map file_text) ` {''IB_HOST'', ''IB_PORT'', ''IB_CLIENT_ID'', ''IB_PAPER_ACCOUNT_ID''}"
      by (auto simp: IB_SCHEMA_def field_def)
    with Inl show ?thesis by (auto simp: load_ib_credentials_def Let_def)
  next
    case (Inr raw)
    note rv = load_values [OF Inr]
    have "raw_value raw ''IB_HOST'' = Inr v \<longleftrightarrow> resolved env (file_map file_text) ''IB_HOST'' = Some v"
      "raw_value raw ''IB_PORT'' = Inr v \<longleftrightarrow> resolved env (file_map file_text) ''IB_PORT'' = Some v"
      "raw_value raw ''IB_CLIENT_ID'' = Inr v \<longleftrightarrow> resolved env (file_map file_text) ''IB_CLIENT_ID'' = Some v"
      "raw_value raw ''IB_PAPER_ACCOUNT_ID'' = Inr v \<longleftrightarrow> resolved env (file_map file_text) ''IB_PAPER_ACCOUNT_ID'' = Some v" for v
      using rv [of "field ''IB_HOST'' False" v] rv [of "field ''IB_PORT'' False" v] rv [of "field ''IB_CLIENT_ID'' False" v]
        rv [of "field ''IB_PAPER_ACCOUNT_ID'' True" v]
      by (simp_all add: IB_SCHEMA_def field_def)
    note this [simp]
    show ?thesis unfolding load_ib_credentials_def Inr Let_def bindR_simps bindR_eq_Inr int mk bind_eq_Some_conv by (cases c) auto
  qed
qed

end
