(* ===== verification/IGTime.thy ===== *)
theory IGTime
  imports PyTime
begin

text \<open>
  The timestamps of IG: \<open>_parse_ig_timestamp\<close> of \<open>src/blive/adapters/ig/broker.py\<close> and its twin
  \<open>_parse_ig_snapshot\<close> of \<open>market_data.py\<close>, over what they use of \<open>datetime.fromisoformat\<close> and
  \<open>datetime.strptime\<close>.  Of the ISO texts, calendar dates with and without separators, a time of one to three fields
  with an optional fraction, and an offset are read; week dates, and malformed texts CPython happens to accept, are not.
\<close>

section \<open>Fields\<close>

definition c_val :: "char \<Rightarrow> int" where
  "c_val c = of_char c - 48"

definition two_digits :: "string \<Rightarrow> (int \<times> string) option" where
  "two_digits s = (case s of a # b # r \<Rightarrow> (if c_digit a \<and> c_digit b then Some (10 * c_val a + c_val b, r) else None) | _ \<Rightarrow> None)"

definition four_digits :: "string \<Rightarrow> (int \<times> string) option" where
  "four_digits s =
     (case two_digits s of
        None \<Rightarrow> None
      | Some (a, r) \<Rightarrow> (case two_digits r of None \<Rightarrow> None | Some (b, r') \<Rightarrow> Some (100 * a + b, r')))"

definition skip_char :: "char \<Rightarrow> string \<Rightarrow> string option" where
  "skip_char c s = (case s of a # r \<Rightarrow> (if a = c then Some r else None) | [] \<Rightarrow> None)"

definition is_leap :: "int \<Rightarrow> bool" where
  "is_leap y \<longleftrightarrow> 4 dvd y \<and> (\<not> 100 dvd y \<or> 400 dvd y)"

definition days_in_month :: "int \<Rightarrow> int \<Rightarrow> int" where
  "days_in_month y m = (if m = 2 then (if is_leap y then 29 else 28) else if m \<in> {4, 6, 9, 11} then 30 else 31)"

definition days_from_civil :: "int \<Rightarrow> int \<Rightarrow> int \<Rightarrow> int" where
  "days_from_civil y m d =
     (let y' = (if m \<le> 2 then y - 1 else y); era = y' div 400; yoe = y' mod 400;
          mp = (m + 9) mod 12; doy = (153 * mp + 2) div 5 + d - 1;
          doe = yoe * 365 + yoe div 4 - yoe div 100 + doy
      in era * 146097 + doe - 719468)"

text \<open>\<open>datetime(y, m, d, h, mi, s, us, tzinfo)\<close>; None for the \<open>ValueError\<close> of a field out of range.\<close>

definition mk_datetime :: "int \<times> int \<times> int \<Rightarrow> int \<times> int \<times> int \<times> int \<Rightarrow> int option \<Rightarrow> datetime option" where
  "mk_datetime date tm off =
     (case (date, tm) of ((y, m, d), (h, mi, s, us)) \<Rightarrow>
        if 1 \<le> y \<and> 1 \<le> m \<and> m \<le> 12 \<and> 1 \<le> d \<and> d \<le> days_in_month y m \<and> h \<le> 23 \<and> mi \<le> 59 \<and> s \<le> 59
        then Some (Datetime (days_from_civil y m d * 86400000000 + ((h * 60 + mi) * 60 + s) * 1000000 + us) off)
        else None)"

section \<open>fromisoformat\<close>

definition iso_date :: "string \<Rightarrow> ((int \<times> int \<times> int) \<times> string) option" where
  "iso_date s =
     (case four_digits s of
        None \<Rightarrow> None
      | Some (y, r) \<Rightarrow>
          let sep = (case r of c # _ \<Rightarrow> c = CHR ''-'' | [] \<Rightarrow> False);
              next_field = (\<lambda>t. if sep then Option.bind (skip_char CHR ''-'' t) two_digits else two_digits t)
          in (case next_field r of
                None \<Rightarrow> None
              | Some (m, r1) \<Rightarrow> (case next_field r1 of None \<Rightarrow> None | Some (d, r2) \<Rightarrow> Some ((y, m, d), r2))))"

text \<open>The next field of a time: None for an error, \<open>Some None\<close> when there is none.\<close>

definition next_clock_field :: "bool \<Rightarrow> string \<Rightarrow> (int \<times> string) option option" where
  "next_clock_field colon s =
     (case s of
        [] \<Rightarrow> Some None
      | c # r \<Rightarrow>
          if colon then (if c = CHR '':'' then map_option Some (two_digits r) else Some None)
          else if c_digit c then map_option Some (two_digits s) else Some None)"

definition micros :: "string \<Rightarrow> int" where
  "micros ds = fold (\<lambda>c n. 10 * n + c_val c) (take 6 (ds @ replicate 6 CHR ''0'')) 0"

definition clock_fraction :: "string \<Rightarrow> (int \<times> string) option" where
  "clock_fraction s =
     (case s of
        [] \<Rightarrow> Some (0, [])
      | c # r \<Rightarrow>
          if c = CHR ''.'' \<or> c = CHR '',''
          then (if takeWhile c_digit r = [] then None else Some (micros (takeWhile c_digit r), dropWhile c_digit r))
          else Some (0, s))"

definition iso_clock :: "string \<Rightarrow> ((int \<times> int \<times> int \<times> int) \<times> string) option" where
  "iso_clock s =
     (case two_digits s of
        None \<Rightarrow> None
      | Some (h, r) \<Rightarrow>
          let colon = (case r of c # _ \<Rightarrow> c = CHR '':'' | [] \<Rightarrow> False)
          in (case next_clock_field colon r of
                None \<Rightarrow> None
              | Some None \<Rightarrow> Some ((h, 0, 0, 0), r)
              | Some (Some (mi, r1)) \<Rightarrow>
                  (case next_clock_field colon r1 of
                     None \<Rightarrow> None
                   | Some None \<Rightarrow> Some ((h, mi, 0, 0), r1)
                   | Some (Some (sec, r2)) \<Rightarrow>
                       (case clock_fraction r2 of None \<Rightarrow> None | Some (us, r3) \<Rightarrow> Some ((h, mi, sec, us), r3)))))"

text \<open>What follows the time: nothing, \<open>Z\<close>, or a signed offset of less than a day.\<close>

definition iso_offset :: "string \<Rightarrow> int option option" where
  "iso_offset s =
     (case s of
        [] \<Rightarrow> Some None
      | c # r \<Rightarrow>
          if s = ''Z'' then Some (Some 0)
          else if c = CHR ''+'' \<or> c = CHR ''-''
          then (case iso_clock r of
                  Some ((h, mi, sec, us), []) \<Rightarrow>
                    let off = ((h * 60 + mi) * 60 + sec) * 1000000 + us
                    in if off < 86400000000 then Some (Some (if c = CHR ''-'' then - off else off)) else None
                | _ \<Rightarrow> None)
          else None)"

definition fromisoformat :: "string \<Rightarrow> datetime option" where
  "fromisoformat s =
     (case iso_date s of
        None \<Rightarrow> None
      | Some (date, rest) \<Rightarrow>
          (case drop 1 rest of
             [] \<Rightarrow> mk_datetime date (0, 0, 0, 0) None
           | t \<Rightarrow> (case iso_clock t of
                     None \<Rightarrow> None
                   | Some (tm, r) \<Rightarrow> (case iso_offset r of None \<Rightarrow> None | Some off \<Rightarrow> mk_datetime date tm off))))"

section \<open>The slash format\<close>

text \<open>A field of one or two digits, and the white space between the date and the time.\<close>

definition short_field :: "string \<Rightarrow> (int \<times> string) option" where
  "short_field s =
     (let ds = takeWhile c_digit s
      in if ds = [] \<or> 2 < length ds then None else Some (fold (\<lambda>c n. 10 * n + c_val c) ds 0, dropWhile c_digit s))"

definition day_field :: "string \<Rightarrow> (int \<times> string) option" where
  "day_field s =
     (case s of
        c # d # r \<Rightarrow> if c = CHR '' '' then (if c_digit d then (case r of e # _ \<Rightarrow> if c_digit e then None else Some (c_val d, r) | [] \<Rightarrow> Some (c_val d, r)) else None)
                     else short_field s
      | _ \<Rightarrow> short_field s)"

definition skip_spaces :: "string \<Rightarrow> string option" where
  "skip_spaces s = (case s of c # _ \<Rightarrow> (if c_space c then Some (dropWhile c_space s) else None) | [] \<Rightarrow> None)"

definition strptime_slash :: "string \<Rightarrow> datetime option" where
  "strptime_slash s =
     Option.bind (four_digits s) (\<lambda>(y, r).
     Option.bind (skip_char CHR ''/'' r) (\<lambda>r.
     Option.bind (short_field r) (\<lambda>(m, r).
     Option.bind (skip_char CHR ''/'' r) (\<lambda>r.
     Option.bind (day_field r) (\<lambda>(d, r).
     Option.bind (skip_spaces r) (\<lambda>r.
     Option.bind (short_field r) (\<lambda>(h, r).
     Option.bind (skip_char CHR '':'' r) (\<lambda>r.
     Option.bind (short_field r) (\<lambda>(mi, r).
     Option.bind (skip_char CHR '':'' r) (\<lambda>r.
     Option.bind (short_field r) (\<lambda>(sec, r).
     if r = [] then mk_datetime (y, m, d) (h, mi, sec, 0) (Some 0) else None)))))))))))"

section \<open>The parser\<close>

definition as_utc :: "datetime \<Rightarrow> datetime" where
  "as_utc d = Datetime (wall_us d) (Some 0)"

definition parse_ig_timestamp :: "string \<Rightarrow> datetime res" where
  "parse_ig_timestamp text =
     (let s = py_strip text;
          iso = (if s \<noteq> [] \<and> last s = CHR ''Z'' then map_option as_utc (fromisoformat (butlast s))
                 else map_option (\<lambda>dt. if utc_off dt = None then as_utc dt else dt) (fromisoformat s))
      in case iso of
           Some dt \<Rightarrow> Inr dt
         | None \<Rightarrow> (case strptime_slash s of Some dt \<Rightarrow> Inr dt | None \<Rightarrow> Inl (ValueError ''unrecognised IG timestamp'')))"

text \<open>A timestamp read is never naive; it is in UTC unless the text carries another offset.\<close>

lemma mk_datetime_off: "mk_datetime date tm off = Some d \<Longrightarrow> utc_off d = off"
  by (auto simp: mk_datetime_def split: prod.splits if_splits)

lemma strptime_slash_utc: "strptime_slash s = Some d \<Longrightarrow> is_utc d"
  by (auto simp: strptime_slash_def is_utc_def bind_eq_Some_conv split: if_splits dest!: mk_datetime_off)

lemma as_utc_off [simp]: "utc_off (as_utc d) = Some 0" "d = as_utc d \<longleftrightarrow> utc_off d = Some 0"
  by (cases d; simp add: as_utc_def)+

lemma parse_ig_timestamp_aware:
  assumes "parse_ig_timestamp s = Inr d"
  shows "utc_off d \<noteq> None"
  using assms strptime_slash_utc [of "py_strip s" d]
  by (auto simp: parse_ig_timestamp_def Let_def is_utc_def split: option.splits if_splits)

lemma parse_ig_timestamp_error: "parse_ig_timestamp s = Inl e \<Longrightarrow> \<exists>m. e = ValueError m"
  by (auto simp: parse_ig_timestamp_def Let_def split: option.splits)

lemma timestamp_examples:
  "parse_ig_timestamp ''2026-04-28T09:00:00'' = Inr (utc 1777366800000000)"
  "parse_ig_timestamp ''2026/04/28 09:00:00'' = Inr (utc 1777366800000000)"
  "parse_ig_timestamp ''2026-04-28T09:00:00Z'' = Inr (utc 1777366800000000)"
  "parse_ig_timestamp ''2026-04-28T11:00:00.000+02:00'' = Inr (Datetime 1777374000000000 (Some 7200000000))"
  by code_simp+

end
