(* ===== verification/CaptureRun.thy ===== *)
theory CaptureRun
  imports RunRecord Signals BrokerSetup StrategyConfig IGTime
begin

text \<open>
  \<open>scripts/run_m2ib6_ib_paper.py\<close>: the driver that replays the eligibility signals of the three tradable instruments against
  IB and records the run.  It puts together the signals, the paper market data, the credentials, the broker, the
  multi-instrument pipeline and the record.  The inputs are what the driver finds: the parquets as pandas reads
  them (None when the file is missing), the signals frame (its index increasing), the environment and the secrets file, what the
  connection and its end come to, the scripts of the run, and \<open>cell x\<close>, which is \<open>Decimal(str(x))\<close> of a double.  A parquet
  written and read back holds the same doubles.  Printing has no effect here; of the options, those that only choose paths are
  in the inputs, and the wait is in the scripts.
\<close>

section \<open>The instruments and the options\<close>

definition lse_etf :: "string \<Rightarrow> string \<Rightarrow> Instrument" where
  "lse_etf symb currency = \<lparr>i_symbol = symb, i_venue = ''XLON'', i_currency = currency, i_asset_class = ETF,
     i_multiplier = dint 1, i_tradability = ''spot''\<rparr>"

definition TRADABLES :: "Instrument list" where
  "TRADABLES = [lse_etf ''QQL3'' ''USD'', lse_etf ''IBTL'' ''GBP'', lse_etf ''IBTM'' ''GBP'']"

record capture_args =
  ca_cash :: decimal
  ca_nav_slice :: decimal
  ca_order_type :: string
  ca_offset_bps :: decimal
  ca_max_bars :: int
  ca_strategy :: string
  ca_no_record :: bool
  ca_dry_run :: bool
  ca_note :: string

record capture_inputs =
  cw_prices :: "string \<Rightarrow> fixture option"
  cw_signals :: "frame option"
  cw_env :: "string \<rightharpoonup> string"
  cw_secrets :: "string option"
  cw_client_connect :: "unit res"
  cw_values :: "AccountValue list"
  cw_client_disconnect :: "unit res"
  cw_connect_time :: datetime
  cw_disconnect_time :: datetime
  cw_cell :: "rat \<Rightarrow> decimal"
  cw_artefacts :: "string \<Rightarrow> int option"
  cw_uuids :: "nat \<Rightarrow> nat \<Rightarrow> uuid"
  cw_scripts :: "nat \<Rightarrow> nat \<Rightarrow> order_script"
  cw_run_id :: string
  cw_recorded :: string

text \<open>What a call of the driver comes to: its exit code or the exception that escapes; the regime flips and rebalance rows it
  announces; whether the broker is left connected; the rows appended to the results file.\<close>

record capture_outcome =
  co_exit :: "int res"
  co_preview :: "(nat \<times> nat) option"
  co_connected :: bool
  co_rows :: "RunRecord list"

section \<open>The replay window\<close>

definition last_bars :: "int \<Rightarrow> 'a list \<Rightarrow> 'a list" where
  "last_bars max_bars bars =
     (if 0 < max_bars \<and> max_bars < int (length bars) then drop (length bars - nat max_bars) bars else bars)"

text \<open>\<open>tz_localize("UTC")\<close> of an index without a time zone.\<close>

definition localize_index :: "frame \<Rightarrow> frame" where
  "localize_index fr = fr\<lparr>fr_rows := map (\<lambda>(d, row). (if utc_off d = None then as_utc d else d, row)) (fr_rows fr)\<rparr>"

definition closes_at :: "Bar list \<Rightarrow> datetime \<Rightarrow> bool" where
  "closes_at bars t \<longleftrightarrow> list_ex (\<lambda>b. dt_instant (b_close_time b) = dt_instant t) bars"

text \<open>The rows of the index that are closing times of the bars: \<open>loc[index.intersection(capped_index)]\<close>.\<close>

definition aligned_rows :: "Bar list \<Rightarrow> frame \<Rightarrow> frame" where
  "aligned_rows bars fr = fr\<lparr>fr_rows := filter (\<lambda>(d, _). closes_at bars d) (fr_rows fr)\<rparr>"

record capture_window =
  wn_market :: PaperMarketData
  wn_canonical :: "Bar list"
  wn_capped :: "Bar list"
  wn_weights :: frame

definition wn_flips :: "capture_window \<Rightarrow> nat" where
  "wn_flips win = equity_leg_regime_flips (wn_weights win) ''QQL3''"

definition canonical_market :: "(Instrument \<times> fixture) list \<Rightarrow> (PaperMarketData \<times> Bar list) res" where
  "canonical_market fixtures =
     bindR (market_data_init fixtures ''1d'') (\<lambda>md.
     bindR (market_bars md (hd TRADABLES)) (\<lambda>bars.
     if bars = [] then Inl (IndexError ''list index out of range'') else Inr (md, bars)))"

definition prepare_capture :: "int \<Rightarrow> capture_inputs \<Rightarrow> int res + capture_window" where
  "prepare_capture max_bars w =
     (case cw_signals w of
        None \<Rightarrow> Inl (Inr 2)
      | Some eligibility \<Rightarrow>
          if list_ex (\<lambda>i. cw_prices w (i_symbol i) = None) TRADABLES then Inl (Inr 2)
          else case canonical_market (List.map_filter (\<lambda>i. map_option (Pair i) (cw_prices w (i_symbol i))) TRADABLES) of
            Inl e \<Rightarrow> Inl (Inl e)
          | Inr (md, canonical) \<Rightarrow>
              if fr_rows eligibility = [] \<or> fr_columns eligibility = [] then Inl (Inr 5)
              else let capped = last_bars max_bars canonical;
                       weights = aligned_rows capped (eligibility_to_target_weights (localize_index eligibility))
                   in if fr_rows weights = [] then Inl (Inr 5)
                      else Inr \<lparr>wn_market = md, wn_canonical = canonical, wn_capped = capped, wn_weights = weights\<rparr>)"

section \<open>The run\<close>

text \<open>The bars of the window, written to a parquet of doubles and read back.\<close>

definition rewritten_row :: "(rat \<Rightarrow> decimal) \<Rightarrow> Bar \<Rightarrow> fixture_row" where
  "rewritten_row cell b =
     \<lparr>fw_open_time = b_open_time b, fw_close_time = b_close_time b, fw_open = cell (fl (dval (b_open b))),
      fw_high = cell (fl (dval (b_high b))), fw_low = cell (fl (dval (b_low b))), fw_close = cell (fl (dval (b_close b))),
      fw_volume = cell (fl (dval (b_volume b))), fw_vwap = None\<rparr>"

definition capped_fixture :: "(rat \<Rightarrow> decimal) \<Rightarrow> Bar list \<Rightarrow> fixture" where
  "capped_fixture cell bars = \<lparr>fx_columns = (if bars = [] then [] else required_columns), fx_rows = map (rewritten_row cell) bars\<rparr>"

definition capped_market :: "(rat \<Rightarrow> decimal) \<Rightarrow> capture_window \<Rightarrow> PaperMarketData res" where
  "capped_market cell win =
     (if length (wn_capped win) = length (wn_canonical win) then Inr (wn_market win)
      else bindR (mapR (\<lambda>i. bindR (market_bars (wn_market win) i) (\<lambda>bars.
               Inr (i, capped_fixture cell (filter (\<lambda>b. closes_at (wn_capped win) (b_close_time b)) bars)))) TRADABLES)
             (\<lambda>fixtures. market_data_init fixtures ''1d''))"

definition build_live_strategy :: "string \<Rightarrow> string \<Rightarrow> decimal \<Rightarrow> LiveStrategyConfig res" where
  "build_live_strategy strategy_module strategy_id nav_slice =
     mk_LiveStrategyConfig \<lparr>lc_strategy_id = strategy_id, lc_strategy_module = strategy_module, lc_kwargs = [], lc_nav_slice = nav_slice,
       lc_broker = PAPER_BROKER,
       lc_overrides = \<lparr>lo_time_in_force = None, lo_routing = Some SMART, lo_direct_venue = None, lo_ib_algo = None,
         lo_ib_algo_params = [], lo_outside_rth = False\<rparr>,
       lc_borrow = None, lc_financing = None, lc_kill_switch = None, lc_artefact_paths = [], lc_risk_overrides = default_overrides\<rparr>"

definition capture_order_type :: "string \<Rightarrow> OrderType" where
  "capture_order_type order_type = (if order_type = ''MKT'' then MKT else LMT)"

definition weight_cells :: "(rat \<Rightarrow> decimal) \<Rightarrow> frame \<Rightarrow> (datetime \<times> (string \<times> decimal) list) list" where
  "weight_cells cell fr = map (\<lambda>(d, row). (d, zip (fr_columns fr) (map cell (List.map_filter id row)))) (fr_rows fr)"

definition capture_setup :: "capture_args \<Rightarrow> capture_inputs \<Rightarrow> capture_window \<Rightarrow> LiveStrategyConfig \<Rightarrow> multi_setup" where
  "capture_setup a w win live =
     \<lparr>mu_config = live, mu_instruments = TRADABLES, mu_weights = weight_cells (cw_cell w) (wn_weights win), mu_cash = ca_cash a,
      mu_type = capture_order_type (ca_order_type a),
      mu_types = (if capture_order_type (ca_order_type a) = MKT then Some [(''QQL3'', ADAPTIVE_MKT)] else None),
      mu_offset_bps = ca_offset_bps a, mu_kill = fresh_kill_switch, mu_artefacts = cw_artefacts w, mu_uuids = cw_uuids w,
      mu_scripts = cw_scripts w\<rparr>"

definition capture_row :: "capture_args \<Rightarrow> capture_inputs \<Rightarrow> capture_window \<Rightarrow> IBMultiRunResult \<Rightarrow> RunRecord" where
  "capture_row a w win result =
     build_run_record result (wn_flips win) (length (fr_rows (wn_weights win))) (ca_strategy a) (map i_symbol TRADABLES)
       (ca_order_type a) (ca_max_bars a) (ca_nav_slice a) (ca_cash a) (cw_run_id w) (cw_recorded w) (ca_note a)"

definition capture_connected :: "capture_args \<Rightarrow> capture_inputs \<Rightarrow> capture_window \<Rightarrow> IBBroker \<Rightarrow> capture_outcome \<Rightarrow> capture_outcome" where
  "capture_connected a w win b out =
     (case bindR (capped_market (cw_cell w) win) (\<lambda>md.
           bindR (build_live_strategy ''scripts.run_m2ib6_ib_paper'' (ca_strategy a) (ca_nav_slice a)) (\<lambda>live. Inr (md, live))) of
        Inl e \<Rightarrow> out\<lparr>co_exit := Inl e, co_connected := is_connected b\<rparr>
      | Inr (md, live) \<Rightarrow>
          (case run_ib_multi_pipeline (capture_setup a w win live) md b of
             Inl e \<Rightarrow> out\<lparr>co_exit := Inr 5, co_connected := is_connected (snd (ib_disconnect (cw_client_disconnect w) (cw_disconnect_time w) b))\<rparr>
           | Inr (led, result) \<Rightarrow>
               (case ib_disconnect (cw_client_disconnect w) (cw_disconnect_time w) (lg_broker led) of (gone, b') \<Rightarrow>
                out\<lparr>co_exit := bindR gone (\<lambda>_. Inr 0), co_connected := is_connected b',
                    co_rows := (if ca_no_record a then [] else [capture_row a w win result])\<rparr>)))"

text \<open>The exceptions the driver turns into exit codes.\<close>

fun bad_credentials :: "exn \<Rightarrow> bool" where
  "bad_credentials (CredentialsMissing _ _) = True"
| "bad_credentials (ValueError _) = True"
| "bad_credentials _ = False"

fun connection_failed :: "exn \<Rightarrow> bool" where
  "connection_failed (IBConnectionError _) = True"
| "connection_failed _ = False"

definition exit_for :: "(exn \<Rightarrow> bool) \<Rightarrow> int \<Rightarrow> exn \<Rightarrow> int res" where
  "exit_for handled code e = (if handled e then Inr code else Inl e)"

definition run_capture :: "capture_args \<Rightarrow> capture_inputs \<Rightarrow> capture_outcome" where
  "run_capture a w =
     (case prepare_capture (ca_max_bars a) w of
        Inl code \<Rightarrow> \<lparr>co_exit = code, co_preview = None, co_connected = False, co_rows = []\<rparr>
      | Inr win \<Rightarrow>
          let out = \<lparr>co_exit = Inr 0, co_preview = Some (wn_flips win, length (fr_rows (wn_weights win))), co_connected = False, co_rows = []\<rparr>
          in if ca_dry_run a then out
             else case load_ib_credentials (cw_env w) (cw_secrets w) of
               Inl e \<Rightarrow> out\<lparr>co_exit := exit_for bad_credentials 2 e\<rparr>
             | Inr cred \<Rightarrow>
                 (case ib_connect (cw_client_connect w) (cw_values w) (cw_connect_time w)
                     (ib_init (ibc_account_id cred) (ibc_host cred) (ibc_port cred) NEAREST) of
                    (Inl e, b) \<Rightarrow> out\<lparr>co_exit := exit_for connection_failed 3 e, co_connected := is_connected b\<rparr>
                  | (Inr _, b) \<Rightarrow> capture_connected a w win b out))"

section \<open>Lemmas\<close>

lemma transitions_less: "xs \<noteq> [] \<Longrightarrow> transitions xs < length xs"
  by (induction xs rule: transitions.induct) auto

lemma flips_less: "fr_rows fr \<noteq> [] \<Longrightarrow> equity_leg_regime_flips fr leg < length (fr_rows fr)"
  using transitions_less [of "map sign_state (map (\<lambda>(_, row). row ! i) (fr_rows fr))" for i]
  by (auto simp: equity_leg_regime_flips_def Let_def split: option.split)

lemma prepare_capture_rows: "prepare_capture n w = Inr win \<Longrightarrow> fr_rows (wn_weights win) \<noteq> []"
  by (auto simp: prepare_capture_def Let_def split: option.splits if_splits sum.splits prod.splits)

lemma capture_connected_row:
  assumes "row \<in> set (co_rows (capture_connected a w win b out))" "co_rows out = []"
  shows "\<exists>md live led result. run_ib_multi_pipeline (capture_setup a w win live) md b = Inr (led, result) \<and> row = capture_row a w win result"
  using assms by (force simp: capture_connected_def split: sum.splits prod.splits if_splits)

lemma capture_connected_out:
  "length (co_rows (capture_connected a w win b out)) \<le> max 1 (length (co_rows out))"
  "co_preview (capture_connected a w win b out) = co_preview out"
  by (auto simp: capture_connected_def split: sum.splits prod.splits)

lemma run_capture_cases [case_names early previewed connected]:
  assumes "\<And>code. prepare_capture (ca_max_bars a) w = Inl code \<Longrightarrow>
      run_capture a w = \<lparr>co_exit = code, co_preview = None, co_connected = False, co_rows = []\<rparr> \<Longrightarrow> P"
    and "\<And>win out. prepare_capture (ca_max_bars a) w = Inr win \<Longrightarrow> run_capture a w = out \<Longrightarrow> co_rows out = [] \<Longrightarrow>
      co_preview out = Some (wn_flips win, length (fr_rows (wn_weights win))) \<Longrightarrow> P"
    and "\<And>win b out. prepare_capture (ca_max_bars a) w = Inr win \<Longrightarrow> run_capture a w = capture_connected a w win b out \<Longrightarrow>
      \<not> ca_dry_run a \<Longrightarrow> co_rows out = [] \<Longrightarrow> co_preview out = Some (wn_flips win, length (fr_rows (wn_weights win))) \<Longrightarrow> P"
  shows P
proof (cases "prepare_capture (ca_max_bars a) w")
  case (Inl code)
  from assms(1) [OF Inl] show ?thesis by (simp add: run_capture_def Inl)
next
  case (Inr win)
  define out where "out = \<lparr>co_exit = Inr 0, co_preview = Some (wn_flips win, length (fr_rows (wn_weights win))), co_connected = False, co_rows = []\<rparr>"
  have "(\<exists>b. \<not> ca_dry_run a \<and> run_capture a w = capture_connected a w win b out) \<or>
      co_rows (run_capture a w) = [] \<and> co_preview (run_capture a w) = co_preview out"
    by (auto simp: run_capture_def Inr out_def Let_def split: sum.split prod.split)
  then show ?thesis
  proof
    assume "\<exists>b. \<not> ca_dry_run a \<and> run_capture a w = capture_connected a w win b out"
    with assms(3) [OF Inr] show ?thesis by (auto simp: out_def)
  next
    assume "co_rows (run_capture a w) = [] \<and> co_preview (run_capture a w) = co_preview out"
    with assms(2) [OF Inr refl] show ?thesis by (simp add: out_def)
  qed
qed

lemma dry_run:
  "prepare_capture (ca_max_bars a) w = Inr win \<Longrightarrow> ca_dry_run a \<Longrightarrow>
     run_capture a w = \<lparr>co_exit = Inr 0, co_preview = Some (wn_flips win, length (fr_rows (wn_weights win))), co_connected = False, co_rows = []\<rparr>"
  by (simp add: run_capture_def)

text \<open>A bar whose prices are the texts of doubles, as those of a parquet are: reading them as doubles and back gives the
  same decimals, and the same volume up to its exponent.\<close>

definition reads_back :: "(rat \<Rightarrow> decimal) \<Rightarrow> Bar \<Rightarrow> bool" where
  "reads_back cell b \<longleftrightarrow> list_all (\<lambda>p. cell (fl (dval p)) = p) [b_open b, b_high b, b_low b, b_close b] \<and>
     dval (cell (fl (dval (b_volume b)))) = dval (b_volume b)"

definition rewritten_bar :: "(rat \<Rightarrow> decimal) \<Rightarrow> Bar \<Rightarrow> Bar" where
  "rewritten_bar cell b = b\<lparr>b_volume := cell (fl (dval (b_volume b))), b_vwap := None\<rparr>"

lemma rewritten_row_bar:
  assumes "Bar_ok b" "b_instrument b = i" "reads_back cell b"
  shows "bar_of_row i False (rewritten_row cell b) = Inr (rewritten_bar cell b)"
proof -
  have "checks (Bar_checks (rewritten_bar cell b)) = Inr ()"
    using assms(1,3) by (auto simp: Bar_ok_def Bar_checks_def require_utc_def rewritten_bar_def reads_back_def decimal_simps split: if_splits)
  moreover have "\<lparr>b_instrument = i, b_open_time = b_open_time b, b_close_time = b_close_time b, b_open = b_open b, b_high = b_high b,
      b_low = b_low b, b_close = b_close b, b_volume = cell (fl (dval (b_volume b))), b_vwap = None\<rparr> = rewritten_bar cell b"
    using assms(2) by (simp add: rewritten_bar_def)
  ultimately show ?thesis using assms(3)
    by (simp add: bar_of_row_def rewritten_row_def reads_back_def mk_Bar_def validated_ok)
qed

lemma load_frames_get:
  assumes "load_frames fixtures frames = Inr frames'" "sorted_wrt (\<lambda>x y. \<not> inst_eq (fst x) (fst y)) fixtures" "(i, df) \<in> set fixtures"
  shows "\<exists>f. read_fixture df = Inr f \<and> cache_get frames' i = Some f"
  using assms
proof (induction fixtures frames rule: load_frames.induct)
  case (2 j g rest frames)
  from "2.prems"(1) obtain f where f: "read_fixture g = Inr f" "load_frames rest (cache_put j f frames) = Inr frames'" by auto
  have keep: "load_frames rest fr = Inr frames' \<Longrightarrow> \<forall>x \<in> set rest. \<not> inst_eq j (fst x) \<Longrightarrow> cache_get frames' j = cache_get fr j" for fr
    by (induction rest arbitrary: fr) (auto simp: cache_get_put inst_eq_sym)
  show ?case
  proof (cases "(i, df) \<in> set rest")
    case True
    with "2.IH" [OF f(2)] "2.prems"(2) show ?thesis by simp
  next
    case False
    with "2.prems"(3) have "i = j" "df = g" by auto
    with keep [OF f(2)] f(1) "2.prems"(2) show ?thesis by (auto simp: cache_get_put)
  qed
qed auto

lemma prepare_capture_market:
  assumes "prepare_capture max_bars w = Inr win"
  shows "\<exists>fixtures. market_data_init fixtures ''1d'' = Inr (wn_market win)" "wn_capped win = last_bars max_bars (wn_canonical win)"
proof -
  obtain md canonical fixtures where m: "canonical_market fixtures = Inr (md, canonical)" "wn_market win = md"
      "wn_canonical win = canonical" "wn_capped win = last_bars max_bars canonical"
    using assms by (auto simp: prepare_capture_def Let_def split: option.splits if_splits sum.splits)
  then show "\<exists>fixtures. market_data_init fixtures ''1d'' = Inr (wn_market win)" "wn_capped win = last_bars max_bars (wn_canonical win)"
    by (auto simp: canonical_market_def split: if_splits)
qed

lemma capped_bars:
  assumes init: "market_data_init fixtures ''1d'' = Inr md0" and full: "market_bars md0 i = Inr full" and again: "list_all (reads_back cell) full"
    and new: "cache_get (md_frames md) i = Some f" "read_fixture (capped_fixture cell (filter P full)) = Inr f"
  shows "market_bars md i = Inr (map (rewritten_bar cell) (filter P full))"
proof -
  have ok: "list_all (\<lambda>b. Bar_ok b \<and> b_instrument b = i) full" by (rule iter_bars_ok [OF full [unfolded market_bars_def]])
  have srt: "sorted (map (\<lambda>b. dt_instant (b_open_time b)) full)" by (rule bars_in_order [OF init full [unfolded market_bars_def]])
  have open_time: "(\<lambda>r. dt_instant (fw_open_time r)) \<circ> rewritten_row cell = (\<lambda>b. dt_instant (b_open_time b))"
    by (auto simp: rewritten_row_def)
  have "sorted (map (\<lambda>r. dt_instant (fw_open_time r)) (map (rewritten_row cell) (filter P full)))"
    using sorted_filter [OF srt, of P] by (simp add: open_time)
  then have rows: "sort_key (\<lambda>r. dt_instant (fw_open_time r)) (map (rewritten_row cell) (filter P full)) = map (rewritten_row cell) (filter P full)"
    by (rule sort_key_id_if_sorted)
  have f: "f = capped_fixture cell (filter P full)" "filter P full \<noteq> []"
    using new(2) rows by (auto simp: read_fixture_def capped_fixture_def required_columns_def split: if_splits)
  have bars: "mapR (bar_of_row i False) (map (rewritten_row cell) (filter P full)) = Inr (map (rewritten_bar cell) (filter P full))"
    using ok again rewritten_row_bar by (auto simp: mapR_eq_Inr list_all2_map1 list_all2_map2 list_all2_same list_all_iff)
  have "''vwap'' \<notin> set (fx_columns f)" using f by (simp add: capped_fixture_def required_columns_def)
  with new(1) f(1) bars show ?thesis by (simp add: market_bars_def iter_bars_def capped_fixture_def)
qed

lemma tradables_distinct: "sorted_wrt (\<lambda>i j. \<not> inst_eq i j) TRADABLES"
  by (simp add: TRADABLES_def lse_etf_def inst_eq_def)

section \<open>Properties\<close>

text \<open>C10: a recorded row was announced: whatever IB does, a run appends at most one row; the dry run with the same options and files
  exits with 0, connects to nothing, records nothing and announces the very regime flips and rebalance rows that the row holds,
  the flips being fewer than the rows; and the row's orders add up.\<close>

theorem capture_run_previewed:
  "case (run_capture (a\<lparr>ca_dry_run := True\<rparr>) w, run_capture a w) of (preview, out) \<Rightarrow>
     \<not> co_connected preview \<and> co_rows preview = [] \<and> length (co_rows out) \<le> 1 \<and>
     list_all (\<lambda>row. co_exit preview = Inr 0 \<and> co_preview preview = Some (rr_flips row, rr_rows row) \<and> rr_flips row < rr_rows row \<and>
       rr_filled row + rr_canceled row + rr_rejected row = rr_submitted row) (co_rows out)"
proof (cases rule: run_capture_cases [of a w])
  case (early code)
  then show ?thesis by (simp add: run_capture_def)
next
  case (previewed win out)
  then show ?thesis using dry_run [of "a\<lparr>ca_dry_run := True\<rparr>" w win] by simp
next
  case (connected win b out)
  have "rr_flips row = wn_flips win \<and> rr_rows row = length (fr_rows (wn_weights win)) \<and>
      rr_filled row + rr_canceled row + rr_rejected row = rr_submitted row" if row: "row \<in> set (co_rows (capture_connected a w win b out))" for row
  proof -
    obtain md live led result where run: "run_ib_multi_pipeline (capture_setup a w win live) md b = Inr (led, result)" "row = capture_row a w win result"
      using capture_connected_row [OF row connected(4)] by blast
    obtain bars where "market_bars md (hd (mu_instruments (capture_setup a w win live))) = Inr bars"
      using run(1) by (auto simp: run_ib_multi_pipeline_def split: if_splits)
    from run_ib_multi_pipeline_ledger [OF run(1) this] run(2) show ?thesis
      by (auto simp: capture_row_def build_run_record_def)
  qed
  then show ?thesis
    using connected dry_run [of "a\<lparr>ca_dry_run := True\<rparr>" w win] capture_connected_out(1) [of a w win b out]
      flips_less [OF prepare_capture_rows [OF connected(1)]]
    by (simp add: list_all_iff wn_flips_def)
qed


text \<open>C19: the window replays: with a cap the driver replays, for each of the three instruments, exactly the bars of the whole
  history that close with one of the last bars of the canonical instrument, in order and at their very prices, only the
  average price and the exponent of the volume being lost; without one, the history itself.  The bars kept of the canonical instrument
  are its last ones, no more than the cap.\<close>

theorem capture_replays_window:
  assumes "prepare_capture max_bars w = Inr win" "capped_market cell win = Inr md" "i \<in> set TRADABLES"
    and "market_bars (wn_market win) i = Inr full" "list_all (reads_back cell) full"
  shows "market_bars md i = Inr (if 0 < max_bars \<and> max_bars < int (length (wn_canonical win))
      then map (rewritten_bar cell) (filter (\<lambda>b. closes_at (wn_capped win) (b_close_time b)) full) else full) \<and>
    wn_capped win = (if 0 < max_bars \<and> max_bars < int (length (wn_canonical win))
      then rev (take (nat max_bars) (rev (wn_canonical win))) else wn_canonical win)"
proof -
  obtain fixtures where init: "market_data_init fixtures ''1d'' = Inr (wn_market win)" using prepare_capture_market(1) [OF assms(1)] ..
  have capped: "wn_capped win = last_bars max_bars (wn_canonical win)" by (rule prepare_capture_market(2) [OF assms(1)])
  show ?thesis
  proof (cases "0 < max_bars \<and> max_bars < int (length (wn_canonical win))")
    case True
    let ?P = "\<lambda>b. closes_at (wn_capped win) (b_close_time b)"
    have "length (wn_capped win) \<noteq> length (wn_canonical win)" using True by (auto simp: capped last_bars_def)
    with assms(2) obtain fxs where fxs: "mapR (\<lambda>i. bindR (market_bars (wn_market win) i) (\<lambda>bars. Inr (i, capped_fixture cell (filter ?P bars)))) TRADABLES = Inr fxs"
        "market_data_init fxs ''1d'' = Inr md"
      by (auto simp: capped_market_def)
    have all2: "list_all2 (\<lambda>i x. \<exists>bars. market_bars (wn_market win) i = Inr bars \<and> x = (i, capped_fixture cell (filter ?P bars))) TRADABLES fxs"
      using fxs(1) [unfolded mapR_eq_Inr] by (rule list_all2_mono) auto
    then have keys: "map fst fxs = TRADABLES" by (auto simp: list_all2_conv_all_nth intro!: nth_equalityI)
    have mem: "(i, capped_fixture cell (filter ?P full)) \<in> set fxs"
      using all2 assms(3,4) by (force simp: list_all2_conv_all_nth in_set_conv_nth)
    obtain frames where "load_frames fxs [] = Inr frames" "md_frames md = frames"
      using fxs(2) by (auto simp: market_data_init_def)
    moreover have "sorted_wrt (\<lambda>x y. \<not> inst_eq (fst x) (fst y)) fxs"
      using tradables_distinct unfolding keys [symmetric] by (simp add: sorted_wrt_map)
    ultimately obtain f where "read_fixture (capped_fixture cell (filter ?P full)) = Inr f" "cache_get (md_frames md) i = Some f"
      using load_frames_get [OF _ _ mem] by blast
    from capped_bars [OF init assms(4,5) this(2,1)] True show ?thesis
      by (simp add: capped last_bars_def rev_take)
  next
    case False
    then have "wn_capped win = wn_canonical win" by (auto simp: capped last_bars_def)
    moreover from this assms(2) have "md = wn_market win" by (simp add: capped_market_def)
    ultimately show ?thesis using False assms(4) by auto
  qed
qed


section \<open>Exits\<close>

lemma ib_disconnect_closes: "\<not> is_connected (snd (ib_disconnect (Inr ()) now b))"
  by (simp add: is_connected_def ib_disconnect_def put_ib_connection_def put_ib_def bindS_def getS_def liftS_def retS_def modS_def split: sum.split prod.split)

lemma ib_connect_refused:
  assumes "ib_connect r vs now b = (Inl e, b')" "connection_failed e"
  shows "is_connected b' = is_connected b"
  using assms
  by (auto simp: is_connected_def ib_connect_def put_ib_connection_def put_ib_def mk_ConnectionStatus_def validated_def ConnectionStatus_checks_def
      require_utc_def bindS_def getS_def liftS_def retS_def modS_def split: sum.splits prod.splits if_splits)


lemma closed_after:
  assumes "is_ok (cw_client_disconnect w)"
  shows "\<not> is_connected (snd (ib_disconnect (cw_client_disconnect w) now b))"
  using assms ib_disconnect_closes by (cases "cw_client_disconnect w") (simp_all add: is_ok_def)

lemma capture_connected_exit:
  assumes "co_exit out = Inr 0" "co_rows out = []"
  shows "case co_exit (capture_connected a w win b out) of
      Inl _ \<Rightarrow> True
    | Inr code \<Rightarrow> code \<in> {0, 5} \<and> (co_connected (capture_connected a w win b out) \<longrightarrow> \<not> is_ok (cw_client_disconnect w)) \<and>
        (co_rows (capture_connected a w win b out) \<noteq> [] \<longrightarrow> code = 0)"
proof -
  note closed = closed_after [of w "cw_disconnect_time w"]
  let ?ready = "bindR (capped_market (cw_cell w) win) (\<lambda>md.
    bindR (build_live_strategy ''scripts.run_m2ib6_ib_paper'' (ca_strategy a) (ca_nav_slice a)) (\<lambda>live. Inr (md, live)))"
  show ?thesis
  proof (cases ?ready)
    case (Inr x)
    obtain md live where x: "x = (md, live)" by (cases x)
    show ?thesis
    proof (cases "run_ib_multi_pipeline (capture_setup a w win live) md b")
      case (Inl e)
      with \<open>?ready = Inr x\<close> x assms closed show ?thesis by (auto simp: capture_connected_def)
    next
      case (Inr y)
      obtain led result where y: "y = (led, result)" by (cases y)
      obtain gone b' where gone: "ib_disconnect (cw_client_disconnect w) (cw_disconnect_time w) (lg_broker led) = (gone, b')" by force
      from closed [of "lg_broker led"] gone have c: "is_ok (cw_client_disconnect w) \<Longrightarrow> \<not> is_connected b'" by simp
      from \<open>?ready = Inr x\<close> x Inr y gone c show ?thesis by (cases gone) (auto simp: capture_connected_def)
    qed
  qed (simp add: capture_connected_def)
qed

text \<open>How the driver exits: unless an exception escapes, the exit code is 0, 2, 3 or 5, a row has been recorded only with 0, and
  the broker is not left connected, unless closing the connection itself fails.\<close>

theorem capture_exits_clean:
  "case co_exit (run_capture a w) of
     Inl _ \<Rightarrow> True
   | Inr code \<Rightarrow> code \<in> {0, 2, 3, 5} \<and> (if is_ok (cw_client_disconnect w) then \<not> co_connected (run_capture a w) else True) \<and>
       (if co_rows (run_capture a w) = [] then True else code = 0)"
proof (cases "prepare_capture (ca_max_bars a) w")
  case (Inl r)
  have "case r of Inl _ \<Rightarrow> True | Inr code \<Rightarrow> code \<in> {2, 5}"
    using Inl by (auto simp: prepare_capture_def Let_def split: option.splits if_splits sum.splits prod.splits)
  then show ?thesis by (auto simp: run_capture_def Inl split: sum.split)
next
  case (Inr win)
  define out where "out = \<lparr>co_exit = Inr 0, co_preview = Some (wn_flips win, length (fr_rows (wn_weights win))), co_connected = False, co_rows = []\<rparr>"
  note run = run_capture_def Inr out_def [symmetric]
  show ?thesis
  proof (cases "ca_dry_run a")
    case True
    then show ?thesis by (simp add: run_capture_def Inr)
  next
    case False
    show ?thesis
    proof (cases "load_ib_credentials (cw_env w) (cw_secrets w)")
      case (Inl e)
      then show ?thesis using False by (simp add: run exit_for_def) (simp add: out_def)
    next
      case (Inr cred)
      define b0 where "b0 = ib_init (ibc_account_id cred) (ibc_host cred) (ibc_port cred) NEAREST"
      obtain r b where conn: "ib_connect (cw_client_connect w) (cw_values w) (cw_connect_time w) b0 = (r, b)" by force
      show ?thesis
      proof (cases r)
        case (Inl e)
        have "connection_failed e \<Longrightarrow> \<not> is_connected b"
          using ib_connect_refused [OF conn [unfolded Inl]] by (simp add: b0_def ib_init_def is_connected_def)
        then show ?thesis using False Inr conn Inl by (simp add: run b0_def [symmetric] exit_for_def) (simp add: out_def)
      next
        case (Inr u)
        have "run_capture a w = capture_connected a w win b out"
          using False \<open>load_ib_credentials _ _ = Inr cred\<close> conn Inr by (simp add: run b0_def [symmetric])
        then show ?thesis using capture_connected_exit [of out a w win b] by (auto simp: out_def split: sum.splits)
      qed
    qed
  qed
qed

text \<open>The strategy is built after the connection: an option it refuses leaves the broker connected.\<close>

lemma refused_option_leaves_connected:
  "capped_market (cw_cell w) win = Inr md \<Longrightarrow>
   build_live_strategy ''scripts.run_m2ib6_ib_paper'' (ca_strategy a) (ca_nav_slice a) = Inl e \<Longrightarrow>
   capture_connected a w win b out = out\<lparr>co_exit := Inl e, co_connected := is_connected b\<rparr>"
  by (simp add: capture_connected_def)

lemma half_slice_refused: "\<not> is_ok (build_live_strategy ''scripts.run_m2ib6_ib_paper'' ''triple_lev_sma_filter_dsl'' (Dec 5 (- 1)))"
  by code_simp

section \<open>Witness\<close>

definition ex_prices :: fixture where
  "ex_prices = \<lparr>fx_columns = required_columns, fx_rows = [ex_fixture_row 0 (dint 30), ex_fixture_row 10 (dint 31)]\<rparr>"

definition ex_cell :: "rat \<Rightarrow> decimal" where
  "ex_cell x = dint \<lfloor>x\<rfloor>"

definition ex_capture :: capture_inputs where
  "ex_capture = \<lparr>cw_prices = (\<lambda>_. Some ex_prices),
     cw_signals = Some \<lparr>fr_columns = [''QQL3'', ''IBTL'', ''IBTM''], fr_rows = [(utc 5, [Some 1, Some 0, Some 1]), (utc 15, [Some 0, Some 1, Some 1])]\<rparr>,
     cw_env = Map.empty, cw_secrets = None, cw_client_connect = Inr (), cw_values = [], cw_client_disconnect = Inr (),
     cw_connect_time = utc 0, cw_disconnect_time = utc 1, cw_cell = ex_cell, cw_artefacts = Map.empty, cw_uuids = (\<lambda>_ _. 0),
     cw_scripts = (\<lambda>_ _. undefined), cw_run_id = ''r'', cw_recorded = ''t''\<rparr>"

lemma ex_capture_window:
  "case prepare_capture 1 ex_capture of
     Inl _ \<Rightarrow> False
   | Inr win \<Rightarrow> is_ok (capped_market ex_cell win) \<and> length (wn_canonical win) = 2 \<and>
       (case market_bars (wn_market win) (hd TRADABLES) of
          Inl _ \<Rightarrow> False
        | Inr full \<Rightarrow> list_all (reads_back ex_cell) full \<and>
            map b_open_time (filter (\<lambda>b. closes_at (wn_capped win) (b_close_time b)) full) = [utc 10])"
  by code_simp

theorem capture_replays_window_witness:
  "\<exists>win md bars. prepare_capture 1 ex_capture = Inr win \<and> capped_market ex_cell win = Inr md \<and>
     market_bars md (hd TRADABLES) = Inr bars \<and> map b_open_time bars = [utc 10]"
proof -
  obtain win where win: "prepare_capture 1 ex_capture = Inr win"
    using ex_capture_window by (auto split: sum.splits)
  obtain full where full: "market_bars (wn_market win) (hd TRADABLES) = Inr full" "list_all (reads_back ex_cell) full"
      "map b_open_time (filter (\<lambda>b. closes_at (wn_capped win) (b_close_time b)) full) = [utc 10]" "length (wn_canonical win) = 2"
    using ex_capture_window by (auto simp: win split: sum.splits)
  obtain md where md: "capped_market ex_cell win = Inr md" using ex_capture_window by (auto simp: win is_ok_iff)
  have mem: "hd TRADABLES \<in> set TRADABLES" by (simp add: TRADABLES_def)
  have "b_open_time \<circ> rewritten_bar ex_cell = b_open_time" by (auto simp: rewritten_bar_def)
  with capture_replays_window [OF win md mem full(1,2)] full(3,4) win md show ?thesis by simp
qed

end
