(* ===== verification/StubRun.thy ===== *)
theory StubRun
  imports CaptureRun
begin

text \<open>
  \<open>scripts/run_m2ib5_paper.py\<close>: the driver that replays a moving-average signal of one instrument against IB.  Inputs and
  conventions are those of \<open>CaptureRun\<close>; \<open>rolling_mean\<close> is the moving average of pandas.  Unlike that driver
  it connects before it looks at the market data.
\<close>

definition CAC_PA :: Instrument where
  "CAC_PA = \<lparr>i_symbol = ''CAC.PA'', i_venue = ''XPAR'', i_currency = ''EUR'', i_asset_class = ETF, i_multiplier = dint 1,
     i_tradability = ''spot''\<rparr>"

record stub_args =
  sa_sma_window :: int
  sa_cash :: decimal
  sa_nav_slice :: decimal
  sa_order_type :: string
  sa_offset_bps :: decimal
  sa_max_bars :: int
  sa_strategy :: string

text \<open>The bars replayed, and the position series restricted to them.\<close>

record stub_window =
  sw_market :: PaperMarketData
  sw_positions :: "(datetime \<times> int) list"

definition stub_market :: "(rat \<Rightarrow> decimal) \<Rightarrow> PaperMarketData \<Rightarrow> Bar list \<Rightarrow> Bar list \<Rightarrow> PaperMarketData res" where
  "stub_market cell md bars capped =
     (if length capped = length bars then Inr md else market_data_init [(CAC_PA, capped_fixture cell capped)] ''1d'')"

definition stub_positions :: "Bar list \<Rightarrow> (datetime \<times> int) list \<Rightarrow> (datetime \<times> int) list" where
  "stub_positions capped full_position = filter (\<lambda>(t, _). closes_at capped t) full_position"

definition prepare_stub :: "(nat \<Rightarrow> pyfloat list \<Rightarrow> pyfloat list) \<Rightarrow> (rat \<Rightarrow> decimal) \<Rightarrow> int \<Rightarrow> int \<Rightarrow> fixture \<Rightarrow> stub_window res" where
  "prepare_stub rolling_mean cell sma_window max_bars parquet =
     bindR (market_data_init [(CAC_PA, parquet)] ''1d'') (\<lambda>md.
     bindR (market_bars md CAC_PA) (\<lambda>bars.
     if bars = [] then Inl (IndexError ''list index out of range'')
     else bindR (sma_crossover_position rolling_mean sma_window bars) (\<lambda>full_position.
          bindR (stub_market cell md bars (last_bars max_bars bars)) (\<lambda>capped_md.
          Inr \<lparr>sw_market = capped_md, sw_positions = stub_positions (last_bars max_bars bars) full_position\<rparr>))))"

definition stub_setup :: "stub_args \<Rightarrow> capture_inputs \<Rightarrow> stub_window \<Rightarrow> LiveStrategyConfig \<Rightarrow> ib_setup" where
  "stub_setup a w win live =
     \<lparr>iu_config = live, iu_instrument = CAC_PA, iu_series = sw_positions win, iu_cash = sa_cash a, iu_leverage = dint 1,
      iu_type = capture_order_type (sa_order_type a), iu_offset_bps = sa_offset_bps a, iu_kill = fresh_kill_switch,
      iu_artefacts = cw_artefacts w, iu_uuids = cw_uuids w, iu_scripts = cw_scripts w\<rparr>"

text \<open>The exit and whether the broker is left connected, for a run on a connected broker.\<close>

definition stub_connected :: "(nat \<Rightarrow> pyfloat list \<Rightarrow> pyfloat list) \<Rightarrow> stub_args \<Rightarrow> capture_inputs \<Rightarrow> fixture \<Rightarrow> IBBroker \<Rightarrow> int res \<times> bool" where
  "stub_connected rolling_mean a w parquet b =
     (case bindR (prepare_stub rolling_mean (cw_cell w) (sa_sma_window a) (sa_max_bars a) parquet) (\<lambda>win.
           bindR (build_live_strategy ''scripts.run_m2ib5_paper'' (sa_strategy a) (sa_nav_slice a)) (\<lambda>live. Inr (win, live))) of
        Inl e \<Rightarrow> (Inl e, is_connected b)
      | Inr (win, live) \<Rightarrow>
          (case run_ib_pipeline (stub_setup a w win live) (market_bars (sw_market win) CAC_PA) b of
             Inl e \<Rightarrow> (Inr 5, is_connected (snd (ib_disconnect (cw_client_disconnect w) (cw_disconnect_time w) b)))
           | Inr (led, result) \<Rightarrow>
               (case ib_disconnect (cw_client_disconnect w) (cw_disconnect_time w) (lg_broker led) of (gone, b') \<Rightarrow>
                (bindR gone (\<lambda>_. Inr 0), is_connected b'))))"

definition run_stub :: "(nat \<Rightarrow> pyfloat list \<Rightarrow> pyfloat list) \<Rightarrow> stub_args \<Rightarrow> capture_inputs \<Rightarrow> int res \<times> bool" where
  "run_stub rolling_mean a w =
     (case cw_prices w ''CAC.PA'' of
        None \<Rightarrow> (Inr 2, False)
      | Some parquet \<Rightarrow>
          (case load_ib_credentials (cw_env w) (cw_secrets w) of
             Inl e \<Rightarrow> (exit_for bad_credentials 2 e, False)
           | Inr cred \<Rightarrow>
               (case ib_connect (cw_client_connect w) (cw_values w) (cw_connect_time w)
                   (ib_init (ibc_account_id cred) (ibc_host cred) (ibc_port cred) NEAREST) of
                  (Inl e, b) \<Rightarrow> (exit_for connection_failed 3 e, is_connected b)
                | (Inr _, b) \<Rightarrow> stub_connected rolling_mean a w parquet b)))"

section \<open>Exits\<close>

lemma stub_connected_exit:
  "case stub_connected rolling_mean a w parquet b of (r, conn) \<Rightarrow>
     (case r of Inl _ \<Rightarrow> True | Inr code \<Rightarrow> code \<in> {0, 5} \<and> (is_ok (cw_client_disconnect w) \<longrightarrow> \<not> conn))"
proof -
  let ?ready = "bindR (prepare_stub rolling_mean (cw_cell w) (sa_sma_window a) (sa_max_bars a) parquet) (\<lambda>win.
    bindR (build_live_strategy ''scripts.run_m2ib5_paper'' (sa_strategy a) (sa_nav_slice a)) (\<lambda>live. Inr (win, live)))"
  show ?thesis
  proof (cases ?ready)
    case (Inr x)
    obtain win live where x: "x = (win, live)" by (cases x)
    show ?thesis
    proof (cases "run_ib_pipeline (stub_setup a w win live) (market_bars (sw_market win) CAC_PA) b")
      case (Inl e)
      with \<open>?ready = Inr x\<close> x closed_after [of w "cw_disconnect_time w" b] show ?thesis by (auto simp: stub_connected_def)
    next
      case (Inr y)
      obtain led result where y: "y = (led, result)" by (cases y)
      obtain gone b' where gone: "ib_disconnect (cw_client_disconnect w) (cw_disconnect_time w) (lg_broker led) = (gone, b')" by force
      from closed_after [of w "cw_disconnect_time w" "lg_broker led"] gone have c: "is_ok (cw_client_disconnect w) \<Longrightarrow> \<not> is_connected b'" by simp
      from \<open>?ready = Inr x\<close> x Inr y gone c show ?thesis by (cases gone) (auto simp: stub_connected_def)
    qed
  qed (simp add: stub_connected_def)
qed

text \<open>How this driver exits: unless an exception escapes, the exit code is 0, 2, 3 or 5, and the broker is not left
  connected, unless closing the connection itself fails.\<close>

theorem stub_exits_clean:
  "case run_stub rolling_mean a w of (r, conn) \<Rightarrow>
     (case r of
        Inl _ \<Rightarrow> True
      | Inr code \<Rightarrow> code \<in> {0, 2, 3, 5} \<and> (if is_ok (cw_client_disconnect w) then \<not> conn else True))"
proof (cases "cw_prices w ''CAC.PA''")
  case (Some parquet)
  show ?thesis
  proof (cases "load_ib_credentials (cw_env w) (cw_secrets w)")
    case (Inl e)
    then show ?thesis by (simp add: run_stub_def Some exit_for_def)
  next
    case (Inr cred)
    define b0 where "b0 = ib_init (ibc_account_id cred) (ibc_host cred) (ibc_port cred) NEAREST"
    obtain r b where conn: "ib_connect (cw_client_connect w) (cw_values w) (cw_connect_time w) b0 = (r, b)" by force
    show ?thesis
    proof (cases r)
      case (Inl e)
      have "connection_failed e \<Longrightarrow> \<not> is_connected b"
        using ib_connect_refused [OF conn [unfolded Inl]] by (simp add: b0_def ib_init_def is_connected_def)
      then show ?thesis using Inr conn Inl by (simp add: run_stub_def Some b0_def [symmetric] exit_for_def)
    next
      case (Inr u)
      have "run_stub rolling_mean a w = stub_connected rolling_mean a w parquet b"
        using \<open>load_ib_credentials _ _ = Inr cred\<close> conn Inr by (simp add: run_stub_def Some b0_def [symmetric])
      then show ?thesis using stub_connected_exit [where rolling_mean = rolling_mean and a = a and w = w and parquet = parquet and b = b] by (auto split: sum.splits)
    qed
  qed
qed (simp add: run_stub_def)

text \<open>A window below 2 is refused only after the connection, and leaves the broker connected.\<close>

lemma refused_window_leaves_connected:
  assumes "cw_prices w ''CAC.PA'' = Some parquet" "load_ib_credentials (cw_env w) (cw_secrets w) = Inr cred"
    and "ib_connect (cw_client_connect w) (cw_values w) (cw_connect_time w)
      (ib_init (ibc_account_id cred) (ibc_host cred) (ibc_port cred) NEAREST) = (Inr (), b)"
    and "market_data_init [(CAC_PA, parquet)] ''1d'' = Inr md" "market_bars md CAC_PA = Inr bars" "bars \<noteq> []" "sa_sma_window a < 2"
  shows "run_stub rolling_mean a w = (Inl (ValueError ''sma_window must be >= 2''), is_connected b)"
  using assms by (simp add: run_stub_def stub_connected_def prepare_stub_def sma_crossover_position_def)

end
