(* ===== verification/Flatten.thy ===== *)
theory Flatten
  imports CaptureRun
begin

text \<open>
  \<open>scripts/flatten_ib_paper.py\<close>: the market orders that close the positions of chosen symbols.  What \<open>ib_async\<close> reports as
  positions is the input, as are the outcomes of loading the credentials and of connecting; a float is its rational value.
\<close>

record ib_position =
  ip_symbol :: string
  ip_position :: rat

text \<open>\<open>str.upper\<close> on ASCII.\<close>

definition upper_char :: "char \<Rightarrow> char" where
  "upper_char c = (let n = (of_char c :: nat) in if 97 \<le> n \<and> n \<le> 122 then char_of (n - 32) else c)"

definition symbols_of :: "string \<Rightarrow> string list" where
  "symbols_of arg = map (\<lambda>s. map upper_char (py_strip s)) (filter (\<lambda>s. py_strip s \<noteq> []) (py_split CHR '','' arg))"

definition in_scope :: "string list \<Rightarrow> ib_position list \<Rightarrow> ib_position list" where
  "in_scope symbols positions = filter (\<lambda>p. ip_symbol p \<in> set symbols \<and> ip_position p \<noteq> 0) positions"

definition flatten_order :: "ib_position \<Rightarrow> string \<times> OrderSide \<times> rat" where
  "flatten_order p = (ip_symbol p, if 0 < ip_position p then SELL else BUY, \<bar>ip_position p\<bar>)"

definition bad_flatten_credentials :: "exn \<Rightarrow> bool" where
  "bad_flatten_credentials e \<longleftrightarrow> bad_credentials e \<or> connection_failed e"

text \<open>The exit, whether a connection was opened and closed, and the orders placed, in their order.\<close>

definition run_flatten :: "string \<Rightarrow> bool \<Rightarrow> IBCredentials res \<Rightarrow> bool \<Rightarrow> ib_position list \<Rightarrow> int res \<times> (string \<times> OrderSide \<times> rat) list" where
  "run_flatten symbols_arg dry_run credentials connects positions =
     (case credentials of
        Inl e \<Rightarrow> (exit_for bad_flatten_credentials 2 e, [])
      | Inr creds \<Rightarrow>
          if \<not> connects then (Inr 3, [])
          else let scope = in_scope (symbols_of symbols_arg) positions
               in (Inr 0, if scope = [] \<or> dry_run then [] else map flatten_order scope))"

text \<open>What an order adds to the position.\<close>

definition order_effect :: "string \<times> OrderSide \<times> rat \<Rightarrow> rat" where
  "order_effect order = (case order of (_, side, qty) \<Rightarrow> if side = BUY then qty else - qty)"

text \<open>The orders close the chosen positions exactly: outside a dry run, for every symbol asked for, the orders and the positions add up
  to nothing; no order concerns another symbol, and each is for a positive quantity.\<close>

theorem flatten_closes:
  "case run_flatten arg dry_run (Inr creds) True positions of (code, orders) \<Rightarrow>
     code = Inr 0 \<and> list_all (\<lambda>(s, side, qty). s \<in> set (symbols_of arg) \<and> 0 < qty) orders \<and>
     list_all (\<lambda>s. (\<Sum>x\<leftarrow>filter (\<lambda>x. fst x = s) orders. order_effect x) =
       (if dry_run then 0 else - (\<Sum>p\<leftarrow>filter (\<lambda>p. ip_symbol p = s) positions. ip_position p))) (symbols_of arg)"
proof -
  have sums: "(\<Sum>x\<leftarrow>filter (\<lambda>x. fst x = s) (map flatten_order (in_scope symbols positions)). order_effect x) =
      - (\<Sum>p\<leftarrow>filter (\<lambda>p. ip_symbol p = s) positions. ip_position p)" if "s \<in> set symbols" for s symbols
    by (induction positions) (use that in \<open>auto simp: in_scope_def flatten_order_def order_effect_def\<close>)
  have scope: "list_all (\<lambda>(s, side, qty). s \<in> set symbols \<and> 0 < qty) (map flatten_order (in_scope symbols positions))" for symbols
    by (auto simp: list_all_iff in_scope_def flatten_order_def)
  have empty: "in_scope (symbols_of arg) positions = [] \<Longrightarrow> s \<in> set (symbols_of arg) \<Longrightarrow>
      (\<Sum>p\<leftarrow>filter (\<lambda>p. ip_symbol p = s) positions. ip_position p) = 0" for s
    using sums [of s "symbols_of arg"] by simp
  show ?thesis
  proof (cases "in_scope (symbols_of arg) positions = [] \<or> dry_run")
    case True
    then show ?thesis using empty by (auto simp: run_flatten_def list_all_iff)
  next
    case False
    then show ?thesis using sums [of _ "symbols_of arg"] scope [of "symbols_of arg"] by (simp add: run_flatten_def list_all_iff)
  qed
qed

lemma ex_flatten: "run_flatten '' qql3, ibtl'' False (Inr creds) True [\<lparr>ip_symbol = ''QQL3'', ip_position = -3\<rparr>, \<lparr>ip_symbol = ''TQQQ'', ip_position = 2\<rparr>]
    = (Inr 0, [(''QQL3'', BUY, 3)])"
proof -
  have "symbols_of '' qql3, ibtl'' = [''QQL3'', ''IBTL'']" by code_simp
  then show ?thesis by (simp add: run_flatten_def in_scope_def flatten_order_def)
qed

end
