(* ===== verification/OrderProbes.thy ===== *)
theory OrderProbes
  imports CaptureRun "HOL-Library.Sublist"
begin

text \<open>
  The scripts that send one order to IB and watch what becomes of it: \<open>scripts/probe_ib_submit.py\<close>,
  \<open>scripts/probe_tqqq_us_rth.py\<close>, \<open>scripts/probe_qql3_lmt_cap.py\<close> and \<open>scripts/probe_tqqq_diag.py\<close>.
  They put together the credentials and the broker of \<open>IBOrders\<close>; as in \<open>IBPipeline\<close>, what IB and the event loop do
  during each await is a script.  Printing, and the trades they print, have no effect here.
\<close>

section \<open>Inputs and outcomes\<close>

text \<open>\<open>pw_order\<close> holds the id of the order, what happens while it is submitted, while its fate is awaited, and after the
  cancellation; \<open>pw_submitted\<close> what happens while SUBMITTED is awaited.\<close>

record probe_inputs =
  pw_env :: "string \<rightharpoonup> string"
  pw_secrets :: "string option"
  pw_client_connect :: "unit res"
  pw_values :: "AccountValue list"
  pw_connect_time :: datetime
  pw_created :: datetime
  pw_order :: order_script
  pw_submitted :: "wait_move list"
  pw_client_disconnect :: "unit res"
  pw_disconnect_time :: datetime

text \<open>The exit code or the exception that escapes, and the broker as it is left, if one was built.\<close>

record probe_outcome =
  po_exit :: "int res"
  po_broker :: "IBBroker option"

definition escape :: "exn \<Rightarrow> IBBroker \<Rightarrow> probe_outcome" where
  "escape e b = \<lparr>po_exit = Inl e, po_broker = Some b\<rparr>"

text \<open>\<open>await broker.disconnect()\<close>, then \<open>return code\<close>.\<close>

definition leave :: "probe_inputs \<Rightarrow> int \<Rightarrow> IBBroker \<Rightarrow> probe_outcome" where
  "leave w code b =
     (case ib_disconnect (pw_client_disconnect w) (pw_disconnect_time w) b of
        (gone, b') \<Rightarrow> \<lparr>po_exit = bindR gone (\<lambda>_. Inr code), po_broker = Some b'\<rparr>)"

section \<open>Up to the connected broker\<close>

definition PLACEHOLDER_ACCOUNT :: string where
  "PLACEHOLDER_ACCOUNT = ''replace-with-your-ib-paper-account-id''"

definition connect_probe :: "probe_inputs \<Rightarrow> IBCredentials \<Rightarrow> unit res \<times> IBBroker" where
  "connect_probe w cred =
     ib_connect (pw_client_connect w) (pw_values w) (pw_connect_time w)
       (ib_init (ibc_account_id cred) (ibc_host cred) (ibc_port cred) NEAREST)"

text \<open>The connection status is taken off the queue: the number of events read, or the timeout.\<close>

definition first_event :: "IBBroker \<Rightarrow> nat res" where
  "first_event b = (if ib_events b = [] then Inl TimeoutError else Inr 1)"

text \<open>The two ways the scripts start: with exit codes for what may go wrong, or with none.\<close>

definition probe_credentials :: "(string \<rightharpoonup> string) \<Rightarrow> string option \<Rightarrow> int res + IBCredentials" where
  "probe_credentials env secrets =
     (case load_ib_credentials env secrets of
        Inl e \<Rightarrow> Inl (exit_for bad_credentials 2 e)
      | Inr cred \<Rightarrow> if ibc_account_id cred = PLACEHOLDER_ACCOUNT then Inl (Inr 2) else Inr cred)"

definition checked_start :: "probe_inputs \<Rightarrow> (nat \<Rightarrow> IBBroker \<Rightarrow> probe_outcome) \<Rightarrow> probe_outcome" where
  "checked_start w go_on =
     (case probe_credentials (pw_env w) (pw_secrets w) of
        Inl code \<Rightarrow> \<lparr>po_exit = code, po_broker = None\<rparr>
      | Inr cred \<Rightarrow>
          (case connect_probe w cred of
            (Inl e, b) \<Rightarrow> \<lparr>po_exit = exit_for connection_failed 3 e, po_broker = Some b\<rparr>
          | (Inr _, b) \<Rightarrow> (case first_event b of Inl e \<Rightarrow> escape e b | Inr read \<Rightarrow> go_on read b)))"

definition bare_start :: "probe_inputs \<Rightarrow> (nat \<Rightarrow> IBBroker \<Rightarrow> probe_outcome) \<Rightarrow> probe_outcome" where
  "bare_start w go_on =
     (case load_ib_credentials (pw_env w) (pw_secrets w) of
        Inl e \<Rightarrow> \<lparr>po_exit = Inl e, po_broker = None\<rparr>
      | Inr cred \<Rightarrow>
          (case connect_probe w cred of
            (Inl e, b) \<Rightarrow> escape e b
          | (Inr _, b) \<Rightarrow> (case first_event b of Inl e \<Rightarrow> escape e b | Inr read \<Rightarrow> go_on read b)))"

section \<open>The order\<close>

definition PHASE_1_INSTRUMENT :: Instrument where
  "PHASE_1_INSTRUMENT = \<lparr>i_symbol = ''CAC.PA'', i_venue = ''XPAR'', i_currency = ''EUR'', i_asset_class = ETF,
     i_multiplier = dint 1, i_tradability = ''spot''\<rparr>"

definition TQQQ :: Instrument where
  "TQQQ = \<lparr>i_symbol = ''TQQQ'', i_venue = ''XNAS'', i_currency = ''USD'', i_asset_class = ETF,
     i_multiplier = dint 1, i_tradability = ''spot''\<rparr>"

definition QQL3 :: Instrument where
  "QQL3 = \<lparr>i_symbol = ''QQL3'', i_venue = ''XLON'', i_currency = ''USD'', i_asset_class = ETF,
     i_multiplier = dint 1, i_tradability = ''spot''\<rparr>"

text \<open>A limit order for one share, for the day.\<close>

definition probe_order :: "probe_inputs \<Rightarrow> string \<Rightarrow> Instrument \<Rightarrow> decimal \<Rightarrow> string \<Rightarrow> Order res" where
  "probe_order w strategy_id i limit_price tag =
     mk_Order \<lparr>o_id = os_id (pw_order w), o_strategy = strategy_id, o_instrument = i, o_side = BUY, o_quantity = dint 1,
       o_type = LMT, o_tif = DAY, o_limit = Some limit_price, o_stop = None, o_parent = None, o_tags = [(''probe'', tag)],
       o_created = pw_created w\<rparr>"

section \<open>Waiting\<close>

text \<open>The script running out is the timeout.\<close>

fun wait_for_kinds :: "OrderEventKind set \<Rightarrow> wait_move list \<Rightarrow> nat \<Rightarrow> IBBroker \<Rightarrow> OrderEvent option \<times> nat \<times> IBBroker" where
  "wait_for_kinds kinds [] read b = (None, read, b)"
| "wait_for_kinds kinds (Happen i # moves) read b = wait_for_kinds kinds moves read (ib_step b i)"
| "wait_for_kinds kinds (Receive # moves) read b =
     (if length (ib_events b) \<le> read then wait_for_kinds kinds moves read b
      else case ib_events b ! read of
        BE_Order event \<Rightarrow>
          if e_kind event \<in> kinds then (Some event, read + 1, b) else wait_for_kinds kinds moves (read + 1) b
      | _ \<Rightarrow> wait_for_kinds kinds moves (read + 1) b)"

section \<open>probe\_ib\_submit\<close>

definition submit_probe_decided :: "probe_inputs \<Rightarrow> uuid \<Rightarrow> OrderEvent \<Rightarrow> nat \<Rightarrow> IBBroker \<Rightarrow> probe_outcome" where
  "submit_probe_decided w cid event read b =
     (if e_kind event = EV_REJECTED then leave w 0 b
      else case ib_cancel cid (os_cancel_acquired (pw_order w)) b of
        (Inl e, b1) \<Rightarrow> leave w 6 b1
      | (Inr _, b1) \<Rightarrow>
          (case wait_for_kinds {EV_CANCELED, EV_REJECTED} (os_final (pw_order w)) read b1 of
             (None, _, b2) \<Rightarrow> leave w 7 b2
           | (Some _, _, b2) \<Rightarrow> leave w 0 b2))"

text \<open>Submitting and the two waits, as the first two scripts do it.\<close>

definition send_and_watch :: "probe_inputs \<Rightarrow> Order res \<Rightarrow> int \<Rightarrow> OrderEventKind set \<Rightarrow>
    (uuid \<Rightarrow> OrderEvent \<Rightarrow> nat \<Rightarrow> IBBroker \<Rightarrow> probe_outcome) \<Rightarrow> nat \<Rightarrow> IBBroker \<Rightarrow> probe_outcome" where
  "send_and_watch w order refused kinds decided read b =
     (case order of
        Inl e \<Rightarrow> escape e b
      | Inr r \<Rightarrow>
          (case submit_awaits (pw_order w) r b of
             (Inl e, b1) \<Rightarrow> leave w refused b1
           | (Inr _, b1) \<Rightarrow>
               (case wait_for_kinds {EV_SUBMITTED} (pw_submitted w) read b1 of
                  (None, _, b2) \<Rightarrow> leave w 5 b2
                | (Some _, read2, b2) \<Rightarrow>
                    (case wait_for_kinds kinds (os_wait (pw_order w)) read2 b2 of
                       (None, _, b3) \<Rightarrow> leave w 5 b3
                     | (Some event, read3, b3) \<Rightarrow> decided (o_id r) event read3 b3))))"

definition submit_probe :: "probe_inputs \<Rightarrow> probe_outcome" where
  "submit_probe w =
     checked_start w (send_and_watch w (probe_order w ''probe'' PHASE_1_INSTRUMENT (Dec 100 (- 2)) ''M2-IB.4a'') 4
       {EV_ACCEPTED, EV_REJECTED} (submit_probe_decided w))"

section \<open>probe\_tqqq\_us\_rth\<close>

definition PRIIPS_REASON_FRAGMENTS :: "string list" where
  "PRIIPS_REASON_FRAGMENTS =
     [''kid in english'', ''language approved for your country'', ''customer ineligible'', ''no trading permission'']"

text \<open>\<open>str.lower\<close> on ASCII.\<close>

definition lower_char :: "char \<Rightarrow> char" where
  "lower_char c = (let n = (of_char c :: nat) in if 65 \<le> n \<and> n \<le> 90 then char_of (n + 32) else c)"

definition classify_reason :: "string option \<Rightarrow> string" where
  "classify_reason reason =
     (case reason of
        None \<Rightarrow> ''no-reason''
      | Some r \<Rightarrow>
          if r = [] then ''no-reason''
          else if list_ex (\<lambda>frag. sublist frag (map lower_char r)) PRIIPS_REASON_FRAGMENTS then ''priips''
          else ''other-rejection'')"

definition us_rth_decided :: "probe_inputs \<Rightarrow> uuid \<Rightarrow> OrderEvent \<Rightarrow> nat \<Rightarrow> IBBroker \<Rightarrow> probe_outcome" where
  "us_rth_decided w cid event read b =
     (if e_kind event = EV_REJECTED then
        (let classification = classify_reason (e_reason event)
         in leave w (if classification = ''priips'' then 0 else if classification = ''other-rejection'' then 1 else 5) b)
      else if e_kind event = EV_CANCELED then leave w 5 b
      else case ib_cancel cid (os_cancel_acquired (pw_order w)) b of
        (_, b1) \<Rightarrow>
          (case wait_for_kinds {EV_CANCELED, EV_REJECTED} (os_final (pw_order w)) read b1 of
             (_, _, b2) \<Rightarrow> leave w 4 b2))"

definition us_rth_probe :: "probe_inputs \<Rightarrow> probe_outcome" where
  "us_rth_probe w =
     checked_start w (send_and_watch w (probe_order w ''probe-priips'' TQQQ (Dec 100 (- 2)) ''priips-validation'') 3
       {EV_ACCEPTED, EV_REJECTED, EV_CANCELED} (us_rth_decided w))"

section \<open>probe\_qql3\_lmt\_cap and probe\_tqqq\_diag\<close>

definition ENDED_KINDS :: "OrderEventKind set" where
  "ENDED_KINDS = {EV_FILLED, EV_CANCELED, EV_REJECTED}"

definition lmt_cap_connected :: "probe_inputs \<Rightarrow> nat \<Rightarrow> IBBroker \<Rightarrow> probe_outcome" where
  "lmt_cap_connected w read b =
     (case probe_order w ''probe-qql3-lmt-cap'' QQL3 (Dec 5000 (- 2)) ''qql3-lmt-cap'' of
        Inl e \<Rightarrow> escape e b
      | Inr r \<Rightarrow>
          (case submit_awaits (pw_order w) r b of
             (Inl e, b1) \<Rightarrow> escape e b1
           | (Inr _, b1) \<Rightarrow>
               (case wait_for_kinds ENDED_KINDS (os_wait (pw_order w)) read b1 of
                  (Some _, _, b2) \<Rightarrow> leave w 0 b2
                | (None, _, b2) \<Rightarrow>
                    (case ib_cancel (o_id r) (os_cancel_acquired (pw_order w)) b2 of
                       (_, b3) \<Rightarrow> leave w 0 (ib_run b3 (happenings (os_final (pw_order w))))))))"

definition lmt_cap_probe :: "probe_inputs \<Rightarrow> probe_outcome" where
  "lmt_cap_probe w = bare_start w (lmt_cap_connected w)"

definition diag_connected :: "probe_inputs \<Rightarrow> nat \<Rightarrow> IBBroker \<Rightarrow> probe_outcome" where
  "diag_connected w read b =
     (case probe_order w ''probe-diag'' TQQQ (Dec 100 (- 2)) ''diag-201'' of
        Inl e \<Rightarrow> escape e b
      | Inr r \<Rightarrow>
          (case submit_awaits (pw_order w) r b of
             (Inl e, b1) \<Rightarrow> escape e b1
           | (Inr _, b1) \<Rightarrow> (case wait_for_kinds ENDED_KINDS (os_wait (pw_order w)) read b1 of (_, _, b2) \<Rightarrow> leave w 0 b2)))"

definition diag_probe :: "probe_inputs \<Rightarrow> probe_outcome" where
  "diag_probe w = bare_start w (diag_connected w)"

section \<open>What IB pushes\<close>

text \<open>The inputs that are not calls of the broker's methods.\<close>

fun pushed :: "ib_input \<Rightarrow> bool" where
  "pushed (I_Trade _ _) = True"
| "pushed (I_Status _ _) = True"
| "pushed (I_Fill _ _ _) = True"
| "pushed (I_Error _ _ _) = True"
| "pushed (I_Task _) = True"
| "pushed (I_Value _) = True"
| "pushed (I_Wake _) = True"
| "pushed _ = False"

fun quiet :: "wait_move list \<Rightarrow> bool" where
  "quiet [] = True"
| "quiet (Receive # moves) = quiet moves"
| "quiet (Happen i # moves) = (pushed i \<and> quiet moves)"

definition probe_quiet :: "probe_inputs \<Rightarrow> bool" where
  "probe_quiet w \<longleftrightarrow> list_all pushed (os_pricing (pw_order w)) \<and> list_all pushed (os_limiting (pw_order w)) \<and>
     quiet (pw_submitted w) \<and> quiet (os_wait (pw_order w)) \<and> quiet (os_final (pw_order w))"

text \<open>A broker that knows of one order only.\<close>

definition about :: "uuid \<Rightarrow> IBBroker \<Rightarrow> bool" where
  "about cid b \<longleftrightarrow> (\<forall>c. c \<noteq> cid \<longrightarrow> ib_trades b c = None) \<and> (\<forall>e. BE_Order e \<in> set (ib_events b) \<longrightarrow> e_order e = cid) \<and>
     (\<forall>t \<in> set (ib_tasks b). task_id t = cid)"

definition pushes :: "uuid \<Rightarrow> IBBroker \<Rightarrow> IBBroker \<Rightarrow> bool" where
  "pushes cid b b' \<longleftrightarrow> ib_placed b' = ib_placed b \<and> ib_cancelled b' = ib_cancelled b \<and> ib_connected b' = ib_connected b \<and>
     dom (ib_trades b') = dom (ib_trades b) \<and> events_grow b b' \<and> (about cid b \<longrightarrow> about cid b')"

lemma pushes_refl [simp]: "pushes cid b b"
  by (simp add: pushes_def)

lemma pushes_trans: "pushes cid b b1 \<Longrightarrow> pushes cid b1 b2 \<Longrightarrow> pushes cid b b2"
  by (auto simp: pushes_def intro: events_grow_trans)

definition pushing :: "uuid \<Rightarrow> (IBBroker, 'a) sx \<Rightarrow> bool" where
  "pushing cid m \<longleftrightarrow> (\<forall>b. pushes cid b (snd (m b)))"

lemma pushingD: "pushing cid m \<Longrightarrow> pushes cid b (snd (m b))"
  by (simp add: pushing_def)

lemma pushing_bind [intro]:
  assumes "pushing cid m" and "\<And>x b b'. m b = (Inr x, b') \<Longrightarrow> pushing cid (f x)"
  shows "pushing cid (bindS m f)"
  unfolding pushing_def
proof
  fix b
  obtain r b1 where mb: "m b = (r, b1)" by (cases "m b")
  have "pushes cid b b1" using pushingD [OF assms(1), of b] mb by simp
  moreover have "pushes cid b1 (snd (f x b1))" if "r = Inr x" for x using assms(2) mb that by (blast intro: pushingD)
  ultimately show "pushes cid b (snd (bindS m f b))" by (cases r) (auto simp: bindS_eq mb intro: pushes_trans)
qed

lemma pushing_basic [intro, simp]:
  "pushing cid (retS x)" "pushing cid (raiseS e)" "pushing cid (getS g)" "pushing cid (liftS r)"
  by (simp_all add: pushing_def)

lemma pushing_modS: "pushing cid (modS g) \<longleftrightarrow> (\<forall>b. pushes cid b (g b))"
  by (simp add: pushing_def)

lemma pushing_mods [intro, simp]:
  "pushing cid (modS (set_tracking c t))" "pushing cid (modS (pop_error n))" "pushing cid (modS id)"
  "pushing cid (modS (\<lambda>b. b\<lparr>ib_last_snapshot := l\<rparr>))" "pushing cid (modS (put_ib (BE_Account u)))"
  "task_id k = cid \<Longrightarrow> pushing cid (modS (spawn k))" "e_order e = cid \<Longrightarrow> pushing cid (modS (put_ib (BE_Order e)))"
  by (auto simp: pushing_modS pushes_def events_grow_def about_def set_tracking_def pop_error_def put_ib_def spawn_def)

lemma ib_order_event_id: "ib_order_event cid venue kind reason fill now = Inr e \<Longrightarrow> e_order e = cid"
  by (auto simp: ib_order_event_def mk_OrderEvent_def validated_eq_Inr)

lemma pushing_spawn_event [intro, simp]: "pushing cid (spawn_event cid trade kind r f now)"
  unfolding spawn_event_def by (rule pushing_bind) (auto dest: ib_order_event_id)

lemma pushing_handlers:
  "pushing cid (on_order_status cid trade now)" "pushing cid (on_order_fill cid trade fill ticks)"
  "pushing cid (emit_rejected_via_inactive cid trade now)" "pushing cid (account_update_tick ticks)"
proof -
  show "pushing cid (on_order_status cid trade now)" unfolding on_order_status_def
    by (intro pushing_bind pushing_basic) (auto intro!: pushing_bind split: option.split prod.split)
  show "pushing cid (on_order_fill cid trade fill ticks)" unfolding on_order_fill_def imply_accepted_def report_fill_def Let_def
    by (intro pushing_bind pushing_basic) (auto intro!: pushing_bind split: option.split)
  show "pushing cid (emit_rejected_via_inactive cid trade now)" unfolding emit_rejected_via_inactive_def
    by (intro pushing_bind pushing_basic pushing_mods) (auto dest: ib_order_event_id)
  show "pushing cid (account_update_tick ticks)" unfolding account_update_tick_def
    by (intro pushing_bind pushing_basic) (auto intro!: pushing_bind split: sum.split exn.split)
qed


lemma pushed_step:
  assumes "pushed i" "about cid b"
  shows "pushes cid b (ib_step b i)"
proof -
  have own: "c = cid" if "ib_trades b c = Some trade" for c trade
    using assms(2) that by (auto simp: about_def)
  note h = pushing_handlers [THEN pushingD]
  show ?thesis
  proof (cases i)
    case (I_Status c now)
    show ?thesis
    proof (cases "ib_trades b c")
      case (Some trade)
      then show ?thesis using own [OF Some] h(1) by (simp add: I_Status)
    qed (simp add: I_Status)
  next
    case (I_Fill c fill now)
    show ?thesis
    proof (cases "ib_trades b c")
      case (Some trade)
      then show ?thesis using own [OF Some] h(2) by (simp add: I_Fill)
    qed (simp add: I_Fill)
  next
    case (I_Task now)
    show ?thesis
    proof (cases "ib_tasks b")
      case (Cons t ts)
      have t: "task_id t = cid" using assms(2) Cons by (simp add: about_def)
      have pop: "pushes cid b (b\<lparr>ib_tasks := ts\<rparr>)" by (auto simp: pushes_def about_def Cons)
      have next_step: "pushes cid (b\<lparr>ib_tasks := ts\<rparr>) (run_task now b)"
      proof (cases t)
        case (PutOrderEvent e)
        then show ?thesis using pushingD [OF pushing_mods(7) [of e cid], of "b\<lparr>ib_tasks := ts\<rparr>"] t by (simp add: run_task_def Cons)
      next
        case (EmitRejected c k)
        then show ?thesis using t h(3) pushingD [OF pushing_mods(6) [of "EmitRejected c (k - 1)" cid], of "b\<lparr>ib_tasks := ts\<rparr>"]
          by (cases k) (auto simp: run_task_def Cons Let_def split: option.split)
      qed
      show ?thesis using pushes_trans [OF pop next_step] by (simp add: I_Task)
    qed (simp add: I_Task run_task_def)
  next
    case (I_Wake now)
    obtain r b1 where tick: "account_update_tick now b = (r, b1)" by (cases "account_update_tick now b")
    have "pushes cid b (snd (account_update_tick now b))" by (rule h(4))
    then have "pushes cid b b1" by (simp add: tick)
    moreover have "pushes cid c (c\<lparr>ib_update_task := False\<rparr>)" for c by (simp add: pushes_def about_def)
    ultimately show ?thesis by (cases r) (auto simp: I_Wake account_update_wake_def tick intro: pushes_trans)
  next
    case (I_Trade c trade)
    show ?thesis
    proof (cases "ib_trades b c")
      case (Some old)
      then have "dom ((ib_trades b)(c \<mapsto> trade)) = dom (ib_trades b)" by auto
      with Some own [OF Some] show ?thesis by (simp add: I_Trade pushes_def about_def)
    qed (simp add: I_Trade)
  qed (use assms(1) in \<open>simp_all add: on_ib_error_def on_account_value_def pushes_def about_def\<close>)
qed

lemma pushed_run: "list_all pushed is \<Longrightarrow> about cid b \<Longrightarrow> pushes cid b (ib_run b is)"
proof (induction "is" arbitrary: b)
  case (Cons i "is")
  have step: "pushes cid b (ib_step b i)" using pushed_step Cons.prems by simp
  moreover have "about cid (ib_step b i)" using step Cons.prems(2) by (simp add: pushes_def)
  ultimately show ?case using Cons pushes_trans by auto
qed simp

lemma quiet_happenings: "quiet moves \<Longrightarrow> list_all pushed (happenings moves)"
  by (induction moves rule: quiet.induct) auto

text \<open>What a wait does: it lets IB push, and what it returns is an event of the kinds waited for.\<close>

lemma wait_for_kinds_run:
  "\<exists>is. b' = ib_run b is \<and> (quiet moves \<longrightarrow> list_all pushed is) \<and>
     (\<forall>event. r = Some event \<longrightarrow> BE_Order event \<in> set (ib_events b') \<and> e_kind event \<in> kinds)"
  if "wait_for_kinds kinds moves read b = (r, read', b')"
  using that
proof (induction kinds moves read b rule: wait_for_kinds.induct)
  case (1 kinds read b)
  then show ?case by (intro exI [of _ "[]"]) auto
next
  case (2 kinds i moves read b)
  then obtain "is" where "b' = ib_run (ib_step b i) is" "quiet moves \<longrightarrow> list_all pushed is"
    "\<forall>event. r = Some event \<longrightarrow> BE_Order event \<in> set (ib_events b') \<and> e_kind event \<in> kinds" by auto
  then show ?case by (intro exI [of _ "i # is"]) simp
next
  case (3 kinds moves read b)
  show ?case
  proof (cases "length (ib_events b) \<le> read")
    case True
    then show ?thesis using 3 by simp
  next
    case False
    show ?thesis
    proof (cases "\<exists>event. ib_events b ! read = BE_Order event \<and> e_kind event \<in> kinds")
      case True
      then obtain event where e: "ib_events b ! read = BE_Order event" "e_kind event \<in> kinds" by blast
      then have "r = Some event" "b' = b" using "3.prems" False by auto
      moreover have "BE_Order event \<in> set (ib_events b)" using False e(1) by (metis linorder_le_less_linear nth_mem)
      ultimately show ?thesis using e(2) by (intro exI [of _ "[]"]) auto
    next
      case no: False
      have skip: "wait_for_kinds kinds (Receive # moves) read b = wait_for_kinds kinds moves (read + 1) b"
        using False no by (auto split: BrokerEvent.split)
      have go: "wait_for_kinds kinds moves (read + 1) b = (r, read', b')" using "3.prems" by (simp only: skip)
      show ?thesis
      proof (cases "ib_events b ! read")
        case (BE_Order event)
        with no have "e_kind event \<notin> kinds" by blast
        from "3.IH"(2) [OF False BE_Order this go] show ?thesis by simp
      next
        case (BE_Connection c)
        from "3.IH"(3) [OF False BE_Connection go] show ?thesis by simp
      next
        case (BE_Account u)
        from "3.IH"(4) [OF False BE_Account go] show ?thesis by simp
      qed
    qed
  qed
qed

lemma quiet_wait:
  assumes "wait_for_kinds kinds moves read b = (r, read', b')" "quiet moves" "about cid b"
  shows "pushes cid b b'" "r = Some event \<Longrightarrow> BE_Order event \<in> set (ib_events b') \<and> e_kind event \<in> kinds \<and> e_order event = cid"
proof -
  obtain "is" where i: "b' = ib_run b is" "list_all pushed is"
    "\<forall>event. r = Some event \<longrightarrow> BE_Order event \<in> set (ib_events b') \<and> e_kind event \<in> kinds"
    using wait_for_kinds_run [OF assms(1)] assms(2) by auto
  show p: "pushes cid b b'" unfolding i(1) by (rule pushed_run [OF i(2) assms(3)])
  show "BE_Order event \<in> set (ib_events b') \<and> e_kind event \<in> kinds \<and> e_order event = cid" if "r = Some event"
  proof -
    have e: "BE_Order event \<in> set (ib_events b')" "e_kind event \<in> kinds" using i(3) that by blast+
    have "about cid b'" using p assms(3) by (simp add: pushes_def)
    with e show ?thesis by (simp add: about_def)
  qed
qed


text \<open>What submitting and cancelling do.\<close>

definition sent :: "uuid \<Rightarrow> IBBroker \<Rightarrow> IBBroker \<Rightarrow> bool" where
  "sent cid b b' \<longleftrightarrow> length (ib_placed b') \<le> length (ib_placed b) + 1 \<and> ib_cancelled b' = ib_cancelled b \<and>
     ib_connected b' = ib_connected b \<and> events_grow b b' \<and> about cid b'"

definition refused_here :: "uuid \<Rightarrow> IBBroker \<Rightarrow> bool" where
  "refused_here cid b \<longleftrightarrow> (\<exists>e. BE_Order e \<in> set (ib_events b) \<and> e_order e = cid \<and> e_kind e = EV_REJECTED)"

lemma pushes_sent: "pushes cid b b' \<Longrightarrow> about cid b \<Longrightarrow> sent cid b b'"
  by (simp add: pushes_def sent_def)

lemma sent_pushes: "sent cid b b1 \<Longrightarrow> pushes cid b1 b2 \<Longrightarrow> sent cid b b2"
  by (auto simp: pushes_def sent_def intro: events_grow_trans)

lemma pushes_sent_trans: "pushes cid b b1 \<Longrightarrow> sent cid b1 b2 \<Longrightarrow> sent cid b b2"
  by (auto simp: pushes_def sent_def intro: events_grow_trans)

lemma submit_check_same: "snd (submit_check order b) = b"
  by (simp add: submit_check_def require_connected_def bindS_def getS_def retS_def raiseS_def split: option.split)

lemma submit_priced_effect:
  assumes "submit_priced increments order now b = (r, b')" "o_id order = cid" "about cid b"
  shows "pushes cid b b'" "r = Inr None \<Longrightarrow> refused_here cid b'" "r = Inr (Some (s, c, i)) \<Longrightarrow> o_id s = cid"
proof -
  have ev: "pushing cid (bindS (liftS (ib_order_event cid None EV_REJECTED reason None now)) (\<lambda>e. bindS (modS (put_ib (BE_Order e))) (\<lambda>_. retS x)))"
    for reason and x :: "(Order \<times> Contract \<times> IbOrder) option"
    by (intro pushing_bind pushing_basic pushing_mods) (auto dest: ib_order_event_id)
  have "pushing cid (submit_priced increments order now)" unfolding submit_priced_def assms(2)
    by (intro pushing_bind pushing_basic) (auto intro!: pushing_bind ev split: sum.split exn.split)
  from pushingD [OF this, of b] assms(1) show "pushes cid b b'" by simp
  show "r = Inr None \<Longrightarrow> refused_here cid b'"
    using assms(1,2) by (auto simp: submit_priced_def refused_here_def bindS_def liftS_def raiseS_def retS_def getS_def modS_def put_ib_def
        ib_order_event_def mk_OrderEvent_def validated_eq_Inr split: sum.splits exn.splits prod.splits)
  show "r = Inr (Some (s, c, i)) \<Longrightarrow> o_id s = cid"
    using assms(1,2) by (auto simp: submit_priced_def bindS_def liftS_def raiseS_def retS_def getS_def modS_def
        snap_order_prices_def mk_Order_def validated_eq_Inr split: sum.splits exn.splits prod.splits if_splits)
qed

lemma submit_place_effect:
  assumes "submit_place acquired order c i trade now b = (r, b')" "o_id order = cid" "about cid b"
  shows "sent cid b b'" "r = Inr u \<Longrightarrow> ib_trades b' cid \<noteq> None"
  using assms
  by (auto simp: submit_place_def sent_def about_def events_grow_def bindS_def liftS_def modS_def retS_def set_tracking_def put_ib_def
      dest!: ib_order_event_id split: sum.splits prod.splits)

lemma submit_awaits_effect:
  assumes "submit_awaits sc order b = (r, b')" "o_id order = cid" "about cid b"
    "list_all pushed (os_pricing sc)" "list_all pushed (os_limiting sc)"
  shows "sent cid b b'" "r = Inr u \<Longrightarrow> ib_trades b' cid \<noteq> None \<or> refused_here cid b'"
proof -
  have self: "sent cid b b" using assms(3) by (simp add: sent_def)
  define b1 where "b1 = ib_run b (os_pricing sc)"
  have p1: "pushes cid b b1" unfolding b1_def by (rule pushed_run [OF assms(4,3)])
  have a1: "about cid b1" using p1 assms(3) by (simp add: pushes_def)
  obtain r2 b2 where pr: "submit_priced (os_increments sc) order (os_priced_at sc) b1 = (r2, b2)"
    by (cases "submit_priced (os_increments sc) order (os_priced_at sc) b1")
  note priced = submit_priced_effect [OF pr assms(2) a1]
  have p2: "pushes cid b b2" using p1 priced(1) by (rule pushes_trans)
  have a2: "about cid b2" using p2 assms(3) by (simp add: pushes_def)
  obtain rc where c: "submit_check order b = (rc, b)" using submit_check_same [of order b] by (metis prod.collapse)
  have "sent cid b b' \<and> (r = Inr u \<longrightarrow> ib_trades b' cid \<noteq> None \<or> refused_here cid b')"
  proof (cases rc)
    case (Inl e)
    then show ?thesis using assms(1) c self by (auto simp: submit_awaits_def bindS_eq)
  next
    case rc: (Inr v)
    have run: "bindS (submit_priced (os_increments sc) order (os_priced_at sc)) (\<lambda>r. case r of
          None \<Rightarrow> retS (o_id order)
        | Some (snapped, contract, ib_order) \<Rightarrow> bindS (modS (\<lambda>b. ib_run b (os_limiting sc)))
            (\<lambda>_. submit_place (os_acquired sc) snapped contract ib_order (os_trade sc) (os_placed_at sc))) b1 = (r, b')"
      using assms(1) c rc by (simp add: submit_awaits_def bindS_eq b1_def)
    show ?thesis
    proof (cases r2)
      case (Inl e)
      then show ?thesis using run pr pushes_sent [OF p2 assms(3)] by (auto simp: bindS_eq)
    next
      case (Inr x)
      show ?thesis
      proof (cases x)
        case None
        then show ?thesis using run pr Inr pushes_sent [OF p2 assms(3)] priced(2) by (auto simp: bindS_eq)
      next
        case (Some y)
        obtain s ct w where y: "y = (s, ct, w)" by (cases y)
        define b3 where "b3 = ib_run b2 (os_limiting sc)"
        have p3: "pushes cid b2 b3" unfolding b3_def by (rule pushed_run [OF assms(5) a2])
        have a3: "about cid b3" using p3 a2 by (simp add: pushes_def)
        have pl: "submit_place (os_acquired sc) s ct w (os_trade sc) (os_placed_at sc) b3 = (r, b')"
          using run pr Inr Some y by (simp add: bindS_eq b3_def)
        have s: "o_id s = cid" by (rule priced(3)) (simp add: Inr Some y)
        from submit_place_effect [OF pl s a3] pushes_sent_trans [OF pushes_trans [OF p2 p3]] show ?thesis by blast
      qed
    qed
  qed
  then show "sent cid b b'" "r = Inr u \<Longrightarrow> ib_trades b' cid \<noteq> None \<or> refused_here cid b'" by blast+
qed

text \<open>A cancellation of an order the broker knows is requested once, unless the rate limiter refuses.\<close>

lemma ib_cancel_effect:
  assumes "ib_cancel cid acquired b = (r, b')" "about cid b"
  shows "ib_placed b' = ib_placed b" "ib_connected b' = ib_connected b" "about cid b'" "ib_events b' = ib_events b"
    "length (ib_cancelled b') \<le> length (ib_cancelled b) + 1"
    "ib_connected b \<Longrightarrow> acquired = Inr () \<Longrightarrow> ib_trades b cid \<noteq> None \<Longrightarrow> r = Inr () \<and> ib_cancelled b' \<noteq> []"
    "r = Inr () \<Longrightarrow> ib_cancelled b' \<noteq> []"
  using assms by (auto simp: ib_cancel_def require_connected_def about_def bindS_def liftS_def modS_def retS_def getS_def raiseS_def
      split: sum.splits prod.splits option.splits if_splits)


text \<open>The broker a script submits its order with.\<close>

definition ready :: "uuid \<Rightarrow> IBBroker \<Rightarrow> bool" where
  "ready cid b \<longleftrightarrow> about cid b \<and> ib_placed b = [] \<and> ib_cancelled b = [] \<and> ib_connected b"

definition untouched :: "IBBroker \<Rightarrow> bool" where
  "untouched b \<longleftrightarrow> ib_placed b = [] \<and> ib_cancelled b = []"

lemma on_account_values_same:
  "ib_placed (fold on_account_value vs b) = ib_placed b" "ib_cancelled (fold on_account_value vs b) = ib_cancelled b"
  "ib_trades (fold on_account_value vs b) = ib_trades b" "ib_tasks (fold on_account_value vs b) = ib_tasks b"
  "ib_events (fold on_account_value vs b) = ib_events b" "ib_connected (fold on_account_value vs b) = ib_connected b"
  by (induction vs arbitrary: b) (simp_all add: on_account_value_def)

lemma connect_probe_effect:
  assumes "connect_probe w cred = (r, b)"
  shows "untouched b" "r = Inr u \<Longrightarrow> ready cid b \<and> first_event b = Inr 1" "r = Inl e \<Longrightarrow> connection_failed e \<Longrightarrow> \<not> ib_connected b"
  using assms
  by (auto simp: connect_probe_def ib_connect_def put_ib_connection_def ib_init_def untouched_def ready_def first_event_def about_def
      on_account_values_same bindS_def getS_def liftS_def retS_def modS_def put_ib_def mk_ConnectionStatus_def validated_def
      ConnectionStatus_checks_def require_utc_def split: sum.splits prod.splits if_splits)

text \<open>A return that does not come to submitting.\<close>

definition no_order :: "probe_outcome \<Rightarrow> bool" where
  "no_order out \<longleftrightarrow> (\<forall>b. po_broker out = Some b \<longrightarrow> untouched b \<and> (\<forall>code. po_exit out = Inr code \<longrightarrow> code = 3 \<and> \<not> ib_connected b))"

lemma checked_start_cases:
  obtains "no_order (checked_start w go_on)" | b where "ready cid b" "checked_start w go_on = go_on 1 b"
proof (cases "probe_credentials (pw_env w) (pw_secrets w)")
  case (Inl code)
  then show ?thesis using that(1) by (simp add: checked_start_def no_order_def)
next
  case (Inr cred)
  obtain r b where c: "connect_probe w cred = (r, b)" by (cases "connect_probe w cred")
  note eff = connect_probe_effect [OF c]
  show ?thesis
  proof (cases r)
    case (Inl e)
    then show ?thesis using that(1) Inr c eff(1) eff(3) [of e] by (auto simp: checked_start_def no_order_def exit_for_def)
  next
    case r: (Inr u)
    then show ?thesis using that(2) [of b] Inr c eff(2) [OF r, of cid] by (simp add: checked_start_def)
  qed
qed

lemma bare_start_cases:
  obtains "no_order (bare_start w go_on)" | b where "ready cid b" "bare_start w go_on = go_on 1 b"
proof (cases "load_ib_credentials (pw_env w) (pw_secrets w)")
  case (Inl e)
  then show ?thesis using that(1) by (simp add: bare_start_def no_order_def)
next
  case (Inr cred)
  obtain r b where c: "connect_probe w cred = (r, b)" by (cases "connect_probe w cred")
  note eff = connect_probe_effect [OF c]
  show ?thesis
  proof (cases r)
    case (Inl e)
    then show ?thesis using that(1) Inr c eff(1) by (simp add: bare_start_def no_order_def escape_def)
  next
    case r: (Inr u)
    then show ?thesis using that(2) [of b] Inr c eff(2) [OF r, of cid] by (simp add: bare_start_def)
  qed
qed

text \<open>Leaving keeps the record of what was done.\<close>

lemma leave_effect:
  "\<exists>b'. po_broker (leave w code b) = Some b' \<and> ib_placed b' = ib_placed b \<and> ib_cancelled b' = ib_cancelled b \<and> events_grow b b' \<and>
     (\<forall>c. po_exit (leave w code b) = Inr c \<longrightarrow> c = code \<and> \<not> ib_connected b')"
  by (auto simp: leave_def ib_disconnect_def put_ib_connection_def events_grow_def bindS_def getS_def liftS_def retS_def modS_def put_ib_def
      split: sum.split prod.split)

lemma ready_sent: "ready cid b \<Longrightarrow> sent cid b b' \<Longrightarrow>
    length (ib_placed b') \<le> 1 \<and> ib_cancelled b' = [] \<and> ib_connected b' \<and> about cid b'"
  by (simp add: ready_def sent_def)

definition order_seen :: "uuid \<Rightarrow> OrderEventKind set \<Rightarrow> IBBroker \<Rightarrow> bool" where
  "order_seen cid kinds b \<longleftrightarrow> (\<exists>e. BE_Order e \<in> set (ib_events b) \<and> e_order e = cid \<and> e_kind e \<in> kinds)"

lemma order_seen_grows: "order_seen cid kinds b \<Longrightarrow> events_grow b b' \<Longrightarrow> order_seen cid kinds b'"
  by (auto simp: order_seen_def events_grow_def)

text \<open>The order as it stands when its fate is known: placed, or refused before it was.\<close>

definition watched :: "uuid \<Rightarrow> IBBroker \<Rightarrow> bool" where
  "watched cid b \<longleftrightarrow> length (ib_placed b) \<le> 1 \<and> ib_cancelled b = [] \<and> ib_connected b \<and> about cid b \<and>
     (ib_trades b cid = None \<longrightarrow> order_seen cid {EV_REJECTED} b)"

lemma submitted_watched:
  assumes "submit_awaits (pw_order w) r b = (Inr u, b1)" "o_id r = cid" "ready cid b" "probe_quiet w"
  shows "watched cid b1"
proof -
  have ab: "about cid b" using assms(3) by (simp add: ready_def)
  note q = assms(4) [unfolded probe_quiet_def]
  note eff = submit_awaits_effect [OF assms(1,2) ab]
  have "sent cid b b1" using eff(1) q by blast
  moreover have "ib_trades b1 cid \<noteq> None \<or> refused_here cid b1" using eff(2) q by blast
  ultimately show ?thesis using ready_sent [OF assms(3)] by (auto simp: watched_def refused_here_def order_seen_def)
qed

lemma watched_wait:
  assumes "wait_for_kinds kinds moves read b = (r, read', b')" "quiet moves" "watched cid b"
  shows "watched cid b'" "r = Some event \<Longrightarrow> BE_Order event \<in> set (ib_events b') \<and> e_kind event \<in> kinds \<and> e_order event = cid"
proof -
  have ab: "about cid b" using assms(3) by (simp add: watched_def)
  note w = quiet_wait [OF assms(1,2) ab]
  have d: "dom (ib_trades b') = dom (ib_trades b)" and g: "events_grow b b'" using w(1) by (simp_all add: pushes_def)
  have "ib_trades b' cid = None \<longleftrightarrow> ib_trades b cid = None" using d by (metis domIff)
  then show "watched cid b'" using assms(3) w(1) order_seen_grows [OF _ g] by (auto simp: watched_def pushes_def)
  show "r = Some event \<Longrightarrow> BE_Order event \<in> set (ib_events b') \<and> e_kind event \<in> kinds \<and> e_order event = cid" by (rule w(2))
qed

lemma probe_order_id: "probe_order w sid i p tag = Inr r \<Longrightarrow> o_id r = os_id (pw_order w)"
  by (auto simp: probe_order_def mk_Order_def validated_eq_Inr)


text \<open>At most one order and one cancellation, none unless \<open>may_cancel\<close>.\<close>

definition at_most_one :: "bool \<Rightarrow> IBBroker \<Rightarrow> bool" where
  "at_most_one may_cancel b \<longleftrightarrow> length (ib_placed b) \<le> 1 \<and> length (ib_cancelled b) \<le> (if may_cancel then 1 else 0)"

lemma at_most_one_mono: "at_most_one False b \<Longrightarrow> at_most_one c b"
  by (simp add: at_most_one_def)

lemma watched_once: "watched cid b \<Longrightarrow> at_most_one False b"
  by (simp add: watched_def at_most_one_def)

lemma send_and_watch_cases:
  assumes rd: "ready cid b" and q: "probe_quiet w" and id: "\<And>r. order = Inr r \<Longrightarrow> o_id r = cid"
    and out: "out = send_and_watch w order refused kinds decided read b"
  obtains (ended) e b' where "at_most_one False b'" "out = escape e b' \<or> out = leave w refused b' \<or> out = leave w 5 b'"
  | (decided) event read' b' where "watched cid b'" "BE_Order event \<in> set (ib_events b')" "e_kind event \<in> kinds" "e_order event = cid"
      "out = decided cid event read' b'"
proof (cases order)
  case (Inl e)
  have none: "at_most_one False b" using rd by (simp add: ready_def at_most_one_def)
  have "out = escape e b" using out Inl by (simp add: send_and_watch_def)
  then show ?thesis using ended [OF none] by blast
next
  case (Inr r)
  note cid = id [OF Inr]
  obtain r1 b1 where s: "submit_awaits (pw_order w) r b = (r1, b1)" by (cases "submit_awaits (pw_order w) r b")
  show ?thesis
  proof (cases r1)
    case (Inl e)
    have "about cid b" using rd by (simp add: ready_def)
    from submit_awaits_effect(1) [OF s cid this] q have "sent cid b b1" by (simp add: probe_quiet_def)
    then have none: "at_most_one False b1" using ready_sent [OF rd] by (simp add: at_most_one_def)
    have "out = leave w refused b1" using out Inr s Inl by (simp add: send_and_watch_def)
    then show ?thesis using ended [OF none] by blast
  next
    case r1: (Inr u)
    note w1 = submitted_watched [OF s [unfolded r1] cid rd q]
    obtain x2 k2 b2 where a2: "wait_for_kinds {EV_SUBMITTED} (pw_submitted w) read b1 = (x2, k2, b2)"
      by (cases "wait_for_kinds {EV_SUBMITTED} (pw_submitted w) read b1")
    have q2: "quiet (pw_submitted w)" "quiet (os_wait (pw_order w))" using q by (simp_all add: probe_quiet_def)
    note w2 = watched_wait(1) [OF a2 q2(1) w1]
    obtain x3 k3 b3 where a3: "wait_for_kinds kinds (os_wait (pw_order w)) k2 b2 = (x3, k3, b3)"
      by (cases "wait_for_kinds kinds (os_wait (pw_order w)) k2 b2")
    note w3 = watched_wait [OF a3 q2(2) w2]
    note o = out [unfolded send_and_watch_def Inr sum.case s r1 prod.case a2]
    show ?thesis
    proof (cases x2)
      case None
      then have "out = leave w 5 b2" using o by simp
      then show ?thesis using ended [OF watched_once [OF w2]] by blast
    next
      case (Some e2)
      show ?thesis
      proof (cases x3)
        case None
        then have "out = leave w 5 b3" using o Some a3 by simp
        then show ?thesis using ended [OF watched_once [OF w3(1)]] by blast
      next
        case e3: (Some event)
        then have "out = decided cid event k3 b3" using o Some a3 cid by simp
        then show ?thesis using decided [OF w3(1)] w3(2) [OF e3] by blast
      qed
    qed
  qed
qed

text \<open>Cancelling a watched order.\<close>

lemma watched_cancel:
  assumes "ib_cancel cid acquired b = (r, b')" "watched cid b"
  shows "at_most_one True b'" "about cid b'" "ib_events b' = ib_events b"
    "ib_cancelled b' \<noteq> [] \<or> acquired \<noteq> Inr () \<or> order_seen cid {EV_REJECTED} b'" "r = Inr () \<Longrightarrow> ib_cancelled b' \<noteq> []"
proof -
  have ab: "about cid b" using assms(2) by (simp add: watched_def)
  note eff = ib_cancel_effect [OF assms(1) ab]
  show "at_most_one True b'" using eff(1,5) assms(2) by (simp add: at_most_one_def watched_def)
  show "about cid b'" "ib_events b' = ib_events b" "r = Inr () \<Longrightarrow> ib_cancelled b' \<noteq> []" using eff by simp_all
  show "ib_cancelled b' \<noteq> [] \<or> acquired \<noteq> Inr () \<or> order_seen cid {EV_REJECTED} b'"
    using eff(4,6) assms(2) by (auto simp: watched_def order_seen_def)
qed

lemma watched_cancel_refused:
  assumes "ib_cancel cid acquired b = (Inl e, b')" "watched cid b"
  shows "acquired \<noteq> Inr () \<or> order_seen cid {EV_REJECTED} b'"
proof -
  have b: "about cid b" "ib_connected b" using assms(2) by (simp_all add: watched_def)
  have "acquired = Inr () \<Longrightarrow> ib_trades b cid = None" using ib_cancel_effect(6) [OF assms(1) b] by (cases "ib_trades b cid") auto
  then show ?thesis using assms(2) watched_cancel(3) [OF assms] by (auto simp: watched_def order_seen_def)
qed

lemma at_most_one_pushes: "at_most_one c b \<Longrightarrow> pushes cid b b' \<Longrightarrow> at_most_one c b' \<and> ib_cancelled b' = ib_cancelled b \<and> events_grow b b'"
  by (simp add: at_most_one_def pushes_def)

text \<open>How a script ends: a claim on its exit code that survives the disconnection.\<close>

definition returns_with :: "bool \<Rightarrow> (int \<Rightarrow> IBBroker \<Rightarrow> bool) \<Rightarrow> probe_outcome \<Rightarrow> bool" where
  "returns_with may_cancel claim out \<longleftrightarrow> (\<forall>b. po_broker out = Some b \<longrightarrow> at_most_one may_cancel b \<and>
     (case po_exit out of Inl e \<Rightarrow> True | Inr code \<Rightarrow> \<not> is_connected b \<and> claim code b))"

lemma escape_ends: "at_most_one False b \<Longrightarrow> returns_with c claim (escape e b)"
  using at_most_one_mono by (auto simp: returns_with_def escape_def)

lemma leave_ends:
  assumes "at_most_one c b" "\<And>b'. events_grow b b' \<Longrightarrow> ib_cancelled b' = ib_cancelled b \<Longrightarrow> claim code b'"
  shows "returns_with c claim (leave w code b)"
proof -
  obtain b' where b': "po_broker (leave w code b) = Some b'" "ib_placed b' = ib_placed b" "ib_cancelled b' = ib_cancelled b" "events_grow b b'"
    "\<forall>c. po_exit (leave w code b) = Inr c \<longrightarrow> c = code \<and> \<not> ib_connected b'"
    using leave_effect by blast
  then show ?thesis using assms by (auto simp: returns_with_def at_most_one_def is_connected_def split: sum.split)
qed

lemma no_order_ends: "no_order out \<Longrightarrow> (\<And>b. ib_cancelled b = [] \<Longrightarrow> claim 3 b) \<Longrightarrow> returns_with c claim out"
  by (auto simp: returns_with_def no_order_def untouched_def at_most_one_def is_connected_def split: sum.split)


text \<open>The first two scripts end as claimed when they do so after the decision.\<close>

lemma send_and_watch_ends:
  assumes q: "probe_quiet w" and id: "\<And>r. order = Inr r \<Longrightarrow> o_id r = cid"
    and early: "\<And>code b. code \<in> {3, refused, 5} \<Longrightarrow> ib_cancelled b = [] \<Longrightarrow> claim code b"
    and late: "\<And>event read b. watched cid b \<Longrightarrow> BE_Order event \<in> set (ib_events b) \<Longrightarrow> e_kind event \<in> kinds \<Longrightarrow> e_order event = cid \<Longrightarrow>
      returns_with True claim (decided cid event read b)"
  shows "returns_with True claim (checked_start w (send_and_watch w order refused kinds decided))"
    (is "returns_with True claim ?out")
proof -
  consider (none) "no_order ?out" | (go) b where "ready cid b" "?out = send_and_watch w order refused kinds decided 1 b"
    by (rule checked_start_cases)
  then show ?thesis
  proof cases
    case none
    then show ?thesis by (rule no_order_ends) (simp add: early)
  next
    case (go b)
    show ?thesis
    proof (rule send_and_watch_cases [OF go(1) q id go(2)])
      fix e b'
      assume b': "at_most_one False b'" and out: "?out = escape e b' \<or> ?out = leave w refused b' \<or> ?out = leave w 5 b'"
      have "ib_cancelled b' = []" using b' by (simp add: at_most_one_def)
      then show ?thesis using out escape_ends [OF b'] by (auto intro!: leave_ends at_most_one_mono [OF b'] early)
    next
      fix event read' b'
      assume b': "watched cid b'" "BE_Order event \<in> set (ib_events b')" "e_kind event \<in> kinds" "e_order event = cid"
        and out: "?out = decided cid event read' b'"
      show ?thesis unfolding out by (rule late [OF b'])
    qed
  qed
qed

section \<open>Properties\<close>

text \<open>What an exit code of \<open>probe_tqqq_us_rth\<close> says of the events published and of the cancellation.\<close>

definition rejected_as :: "string \<Rightarrow> uuid \<Rightarrow> IBBroker \<Rightarrow> bool" where
  "rejected_as class cid b \<longleftrightarrow> (\<exists>e. BE_Order e \<in> set (ib_events b) \<and> e_order e = cid \<and> e_kind e = EV_REJECTED \<and> classify_reason (e_reason e) = class)"

lemma rejected_as_grows: "rejected_as class cid b \<Longrightarrow> events_grow b b' \<Longrightarrow> rejected_as class cid b'"
  by (auto simp: rejected_as_def events_grow_def)

text \<open>A cancellation was requested, or there is nothing to cancel, or the rate limiter refused it.\<close>

definition cancel_tried :: "probe_inputs \<Rightarrow> IBBroker \<Rightarrow> bool" where
  "cancel_tried w b \<longleftrightarrow> ib_cancelled b \<noteq> [] \<or> order_seen (os_id (pw_order w)) {EV_REJECTED} b \<or> os_cancel_acquired (pw_order w) \<noteq> Inr ()"

lemma cancel_tried_grows: "cancel_tried w b \<Longrightarrow> events_grow b b' \<Longrightarrow> ib_cancelled b' = ib_cancelled b \<Longrightarrow> cancel_tried w b'"
  by (auto simp: cancel_tried_def intro: order_seen_grows)

definition us_rth_claim :: "probe_inputs \<Rightarrow> int \<Rightarrow> IBBroker \<Rightarrow> bool" where
  "us_rth_claim w code b \<longleftrightarrow>
     (if code = 0 then rejected_as ''priips'' (os_id (pw_order w)) b \<and> ib_cancelled b = []
      else if code = 1 then rejected_as ''other-rejection'' (os_id (pw_order w)) b \<and> ib_cancelled b = []
      else if code = 4 then order_seen (os_id (pw_order w)) {EV_ACCEPTED} b \<and> cancel_tried w b
      else code \<in> {3, 5} \<and> ib_cancelled b = [])"

lemma us_rth_decided_ends:
  assumes q: "probe_quiet w" and b: "watched (os_id (pw_order w)) b" "BE_Order event \<in> set (ib_events b)"
    "e_kind event \<in> {EV_ACCEPTED, EV_REJECTED, EV_CANCELED}" "e_order event = os_id (pw_order w)"
  shows "returns_with True (us_rth_claim w) (us_rth_decided w (os_id (pw_order w)) event read b)" (is "returns_with True _ ?out")
proof -
  let ?id = "os_id (pw_order w)"
  note once = at_most_one_mono [OF watched_once [OF b(1)], of True]
  have none: "ib_cancelled b = []" using b(1) by (simp add: watched_def)
  consider (rej) "e_kind event = EV_REJECTED" | (can) "e_kind event = EV_CANCELED" | (acc) "e_kind event = EV_ACCEPTED" using b(3) by blast
  then show ?thesis
  proof cases
    case rej
    have "rejected_as (classify_reason (e_reason event)) ?id b" using b(2,4) rej by (auto simp: rejected_as_def)
    then show ?thesis unfolding us_rth_decided_def Let_def if_P [OF rej]
      by (intro leave_ends once) (auto simp: us_rth_claim_def none intro: rejected_as_grows)
  next
    case can
    then show ?thesis unfolding us_rth_decided_def by (auto intro!: leave_ends once simp: us_rth_claim_def none)
  next
    case acc
    obtain r b1 where c: "ib_cancel ?id (os_cancel_acquired (pw_order w)) b = (r, b1)" by (cases "ib_cancel ?id (os_cancel_acquired (pw_order w)) b")
    note wc = watched_cancel [OF c b(1)]
    obtain x k b2 where f: "wait_for_kinds {EV_CANCELED, EV_REJECTED} (os_final (pw_order w)) read b1 = (x, k, b2)"
      by (cases "wait_for_kinds {EV_CANCELED, EV_REJECTED} (os_final (pw_order w)) read b1")
    have "quiet (os_final (pw_order w))" using q by (simp add: probe_quiet_def)
    note p = at_most_one_pushes [OF wc(1) quiet_wait(1) [OF f this wc(2)]]
    have "order_seen ?id {EV_ACCEPTED} b1" using b(2,4) acc wc(3) by (auto simp: order_seen_def)
    then have seen: "order_seen ?id {EV_ACCEPTED} b2" using p order_seen_grows by blast
    have tried: "cancel_tried w b2" using p cancel_tried_grows [of w b1 b2] wc(4) by (auto simp: cancel_tried_def)
    have "?out = leave w 4 b2" unfolding us_rth_decided_def using acc c f by simp
    then show ?thesis using p by (auto intro!: leave_ends simp: us_rth_claim_def order_seen_grows [OF seen] cancel_tried_grows [OF tried])
  qed
qed

lemma us_rth_ends:
  assumes "probe_quiet w"
  shows "returns_with True (us_rth_claim w) (us_rth_probe w)"
  unfolding us_rth_probe_def
proof (rule send_and_watch_ends [OF assms probe_order_id])
qed (auto simp: us_rth_claim_def intro!: us_rth_decided_ends [OF assms])

text \<open>What the exit codes of the other scripts say.\<close>

definition submit_claim :: "probe_inputs \<Rightarrow> int \<Rightarrow> IBBroker \<Rightarrow> bool" where
  "submit_claim w code b \<longleftrightarrow>
     (if code = 0 then order_seen (os_id (pw_order w)) {EV_REJECTED, EV_CANCELED} b
      else if code = 7 then ib_cancelled b \<noteq> []
      else if code = 6 then os_cancel_acquired (pw_order w) \<noteq> Inr () \<or> order_seen (os_id (pw_order w)) {EV_REJECTED} b
      else code \<in> {3, 4, 5} \<and> ib_cancelled b = [])"

lemma submit_decided_ends:
  assumes q: "probe_quiet w" and b: "watched (os_id (pw_order w)) b" "BE_Order event \<in> set (ib_events b)"
    "e_kind event \<in> {EV_ACCEPTED, EV_REJECTED}" "e_order event = os_id (pw_order w)"
  shows "returns_with True (submit_claim w) (submit_probe_decided w (os_id (pw_order w)) event read b)" (is "returns_with True _ ?out")
proof -
  let ?id = "os_id (pw_order w)"
  note once = at_most_one_mono [OF watched_once [OF b(1)], of True]
  obtain r b1 where c: "ib_cancel ?id (os_cancel_acquired (pw_order w)) b = (r, b1)" by (cases "ib_cancel ?id (os_cancel_acquired (pw_order w)) b")
  note wc = watched_cancel [OF c b(1)]
  obtain x k b2 where f: "wait_for_kinds {EV_CANCELED, EV_REJECTED} (os_final (pw_order w)) read b1 = (x, k, b2)"
    by (cases "wait_for_kinds {EV_CANCELED, EV_REJECTED} (os_final (pw_order w)) read b1")
  have qf: "quiet (os_final (pw_order w))" using q by (simp add: probe_quiet_def)
  note fw = quiet_wait [OF f qf wc(2)]
  note p = at_most_one_pushes [OF wc(1) fw(1)]
  show ?thesis
  proof (cases "e_kind event = EV_REJECTED")
    case True
    then have "order_seen ?id {EV_REJECTED, EV_CANCELED} b" using b(2,4) by (auto simp: order_seen_def)
    from order_seen_grows [OF this] show ?thesis unfolding submit_probe_decided_def if_P [OF True]
      by (auto intro!: leave_ends once simp: submit_claim_def)
  next
    case live: False
    show ?thesis
    proof (cases r)
      case (Inl e)
      have six: "os_cancel_acquired (pw_order w) \<noteq> Inr () \<or> order_seen ?id {EV_REJECTED} b1"
        using watched_cancel_refused [OF c [unfolded Inl] b(1)] .
      have "?out = leave w 6 b1" unfolding submit_probe_decided_def using live c Inl by simp
      then show ?thesis using wc(1) six by (auto intro!: leave_ends intro: order_seen_grows simp: submit_claim_def)
    next
      case (Inr u)
      show ?thesis
      proof (cases x)
        case None
        then have "?out = leave w 7 b2" unfolding submit_probe_decided_def using live c Inr f by simp
        then show ?thesis using p wc(5) Inr by (auto intro!: leave_ends simp: submit_claim_def)
      next
        case (Some ev)
        then have "?out = leave w 0 b2" unfolding submit_probe_decided_def using live c Inr f by simp
        moreover have "order_seen ?id {EV_REJECTED, EV_CANCELED} b2" using fw(2) [OF Some] by (auto simp: order_seen_def)
        ultimately show ?thesis using p order_seen_grows by (auto intro!: leave_ends simp: submit_claim_def)
      qed
    qed
  qed
qed

lemma submit_ends:
  assumes "probe_quiet w"
  shows "returns_with True (submit_claim w) (submit_probe w)"
  unfolding submit_probe_def
proof (rule send_and_watch_ends [OF assms probe_order_id])
qed (auto simp: submit_claim_def intro!: submit_decided_ends [OF assms])

definition lmt_cap_claim :: "probe_inputs \<Rightarrow> int \<Rightarrow> IBBroker \<Rightarrow> bool" where
  "lmt_cap_claim w code b \<longleftrightarrow> code = 0 \<longrightarrow> order_seen (os_id (pw_order w)) ENDED_KINDS b \<or> cancel_tried w b"

lemma lmt_cap_ends:
  assumes q: "probe_quiet w"
  shows "returns_with True (lmt_cap_claim w) (lmt_cap_probe w)"
proof -
  let ?id = "os_id (pw_order w)"
  consider (none) "no_order (lmt_cap_probe w)" | (go) b where "ready ?id b" "lmt_cap_probe w = lmt_cap_connected w 1 b"
    unfolding lmt_cap_probe_def by (rule bare_start_cases)
  then show ?thesis
  proof cases
    case none
    then show ?thesis by (rule no_order_ends) (simp add: lmt_cap_claim_def)
  next
    case (go b)
    have first: "at_most_one False b" "about ?id b" using go(1) by (simp_all add: ready_def at_most_one_def)
    show ?thesis
    proof (cases "probe_order w ''probe-qql3-lmt-cap'' QQL3 (Dec 5000 (- 2)) ''qql3-lmt-cap''")
      case (Inl e)
      then show ?thesis using go(2) escape_ends [OF first(1)] by (simp add: lmt_cap_connected_def)
    next
      case (Inr r)
      note cid = probe_order_id [OF Inr]
      obtain r1 b1 where s: "submit_awaits (pw_order w) r b = (r1, b1)" by (cases "submit_awaits (pw_order w) r b")
      show ?thesis
      proof (cases r1)
        case (Inl e)
        have "sent ?id b b1" using submit_awaits_effect(1) [OF s cid first(2)] q by (simp add: probe_quiet_def)
        then have "at_most_one False b1" using ready_sent [OF go(1)] by (simp add: at_most_one_def)
        from escape_ends [OF this] show ?thesis using go(2) Inr s Inl by (simp add: lmt_cap_connected_def)
      next
        case r1: (Inr u)
        note w1 = submitted_watched [OF s [unfolded r1] cid go(1) q]
        obtain x k b2 where f: "wait_for_kinds ENDED_KINDS (os_wait (pw_order w)) 1 b1 = (x, k, b2)"
          by (cases "wait_for_kinds ENDED_KINDS (os_wait (pw_order w)) 1 b1")
        have qs: "quiet (os_wait (pw_order w))" "quiet (os_final (pw_order w))" using q by (simp_all add: probe_quiet_def)
        note w2 = watched_wait [OF f qs(1) w1]
        note o = go(2) [unfolded lmt_cap_connected_def Inr sum.case s r1 prod.case f]
        show ?thesis
        proof (cases x)
          case (Some event)
          then have "order_seen ?id ENDED_KINDS b2" using w2(2) by (auto simp: order_seen_def)
          from order_seen_grows [OF this] show ?thesis using o Some
            by (auto intro!: leave_ends at_most_one_mono [OF watched_once [OF w2(1)]] simp: lmt_cap_claim_def)
        next
          case None
          obtain r3 b3 where c: "ib_cancel ?id (os_cancel_acquired (pw_order w)) b2 = (r3, b3)" by (cases "ib_cancel ?id (os_cancel_acquired (pw_order w)) b2")
          note wc = watched_cancel [OF c w2(1)]
          let ?b4 = "ib_run b3 (happenings (os_final (pw_order w)))"
          note p = at_most_one_pushes [OF wc(1) pushed_run [OF quiet_happenings [OF qs(2)] wc(2)]]
          have "cancel_tried w b3" using wc(4) by (auto simp: cancel_tried_def)
          then have tried: "cancel_tried w ?b4" using p cancel_tried_grows by blast
          have "lmt_cap_probe w = leave w 0 ?b4" using o None c cid by simp
          then show ?thesis using p by (auto intro!: leave_ends simp: lmt_cap_claim_def cancel_tried_grows [OF tried])
        qed
      qed
    qed
  qed
qed

lemma diag_ends:
  assumes q: "probe_quiet w"
  shows "returns_with False (\<lambda>_ _. True) (diag_probe w)"
proof -
  let ?id = "os_id (pw_order w)"
  consider (none) "no_order (diag_probe w)" | (go) b where "ready ?id b" "diag_probe w = diag_connected w 1 b"
    unfolding diag_probe_def by (rule bare_start_cases)
  then show ?thesis
  proof cases
    case none
    then show ?thesis by (rule no_order_ends) simp
  next
    case (go b)
    have first: "at_most_one False b" "about ?id b" using go(1) by (simp_all add: ready_def at_most_one_def)
    show ?thesis
    proof (cases "probe_order w ''probe-diag'' TQQQ (Dec 100 (- 2)) ''diag-201''")
      case (Inl e)
      then show ?thesis using go(2) escape_ends [OF first(1)] by (simp add: diag_connected_def)
    next
      case (Inr r)
      note cid = probe_order_id [OF Inr]
      obtain r1 b1 where s: "submit_awaits (pw_order w) r b = (r1, b1)" by (cases "submit_awaits (pw_order w) r b")
      have "sent ?id b b1" using submit_awaits_effect(1) [OF s cid first(2)] q by (simp add: probe_quiet_def)
      then have b1: "at_most_one False b1" "about ?id b1" using ready_sent [OF go(1)] by (simp_all add: at_most_one_def)
      show ?thesis
      proof (cases r1)
        case (Inl e)
        from escape_ends [OF b1(1)] show ?thesis using go(2) Inr s Inl by (simp add: diag_connected_def)
      next
        case r1: (Inr u)
        obtain x k b2 where f: "wait_for_kinds ENDED_KINDS (os_wait (pw_order w)) 1 b1 = (x, k, b2)"
          by (cases "wait_for_kinds ENDED_KINDS (os_wait (pw_order w)) 1 b1")
        have "quiet (os_wait (pw_order w))" using q by (simp add: probe_quiet_def)
        note p = at_most_one_pushes [OF b1(1) quiet_wait(1) [OF f this b1(2)]]
        have "diag_probe w = leave w 0 b2" using go(2) Inr s r1 f by (simp add: diag_connected_def)
        then show ?thesis using p by (auto intro!: leave_ends)
      qed
    qed
  qed
qed


definition ex_reject_log :: "TradeLogEntry list" where
  "ex_reject_log = [\<lparr>le_errorCode = 201, le_message = ''No Trading Permission''\<rparr>]"

definition ex_probe :: "wait_move list \<Rightarrow> probe_inputs" where
  "ex_probe decision = \<lparr>pw_env = map_of [(''IB_HOST'', ''localhost''), (''IB_PORT'', ''4002''), (''IB_CLIENT_ID'', ''1''), (''IB_PAPER_ACCOUNT_ID'', ''DU1'')],
     pw_secrets = None, pw_client_connect = Inr (), pw_values = [], pw_connect_time = utc 0, pw_created = utc 0,
     pw_order = ex_script\<lparr>os_increments := Inr [\<lparr>low_edge = Dec 0 0, increment = Dec 1 (- 2)\<rparr>], os_wait := decision\<rparr>,
     pw_submitted = [Receive], pw_client_disconnect = Inr (), pw_disconnect_time = utc 9\<rparr>"

definition ex_rejection :: "wait_move list" where
  "ex_rejection = [Happen (I_Trade 7 (ex_trade ''Cancelled'' ex_reject_log)), Happen (I_Status 7 (utc 2)), Happen (I_Task (utc 2)), Receive]"

lemma ex_probe_quiet: "probe_quiet (ex_probe ex_rejection)" "probe_quiet (ex_probe [])"
  by (simp_all add: probe_quiet_def ex_probe_def ex_rejection_def ex_script_def)

definition left_working :: "probe_outcome \<Rightarrow> bool" where
  "left_working out \<longleftrightarrow> (case po_broker out of None \<Rightarrow> False | Some b \<Rightarrow> length (ib_placed b) = 1 \<and> ib_cancelled b = [])"

definition ex_rth_order :: Order where
  "ex_rth_order = \<lparr>o_id = 7, o_strategy = ''probe-priips'', o_instrument = TQQQ, o_side = BUY, o_quantity = dint 1, o_type = LMT, o_tif = DAY,
     o_limit = Some (Dec 100 (- 2)), o_stop = None, o_parent = None, o_tags = [(''probe'', ''priips-validation'')], o_created = utc 0\<rparr>"

lemma ex_rth_order_made: "probe_order (ex_probe d) ''probe-priips'' TQQQ (Dec 100 (- 2)) ''priips-validation'' = Inr ex_rth_order"
proof -
  have "mk_Order ex_rth_order = Inr ex_rth_order" by code_simp
  then show ?thesis by (simp add: probe_order_def ex_probe_def ex_script_def ex_rth_order_def)
qed

lemma ex_snap: "snap_order_prices NEAREST (Inr [\<lparr>low_edge = Dec 0 0, increment = Dec 1 (- 2)\<rparr>]) ex_rth_order = Inr ex_rth_order"
proof -
  have d: "dsub (Dec 100 (- 2)) (dint 0) = Dec 100 (- 2)" "ddiv (Dec 100 (- 2)) (Dec 1 (- 2)) = Inr (dint 100)"
    "dto_integral ROUND_HALF_UP (dint 100) = dint 100" "dmul (dint 100) (Dec 1 (- 2)) = Dec 100 (- 2)"
    "dadd (dint 0) (Dec 100 (- 2)) = Dec 100 (- 2)" "dquantize ROUND_HALF_EVEN (Dec 100 (- 2)) (Dec 1 (- 2)) = Inr (Dec 100 (- 2))"
    by code_simp+
  have b: "band_for (Dec 100 (- 2)) [\<lparr>low_edge = Dec 0 0, increment = Dec 1 (- 2)\<rparr>] = \<lparr>low_edge = Dec 0 0, increment = Dec 1 (- 2)\<rparr>"
    by code_simp
  have o: "\<not> Dec 100 (- 2) \<le> dzero" "dec_eq (Dec 100 (- 2)) (Dec 100 (- 2))" by (simp_all add: decimal_simps)
  have s: "snap_price (Dec 100 (- 2)) [\<lparr>low_edge = Dec 0 0, increment = Dec 1 (- 2)\<rparr>] BUY NEAREST = Inr (Dec 100 (- 2))"
    unfolding snap_price_def by (simp add: b d o rounding_for_def)
  show ?thesis by (simp add: snap_order_prices_def ex_rth_order_def snap_optional_def s same_price_def o(2))
qed

lemma ex_routed: "\<exists>c i. to_contract TQQQ = Inr c \<and> blive_to_ib_order ex_rth_order = Inr i"
proof -
  have "is_ok (to_contract TQQQ)" "is_ok (blive_to_ib_order ex_rth_order)" by code_simp+
  then show ?thesis by (auto simp: is_ok_def split: sum.splits)
qed

definition ex_connected_ib :: IBBroker where
  "ex_connected_ib = (ib_init ''DU1'' ''localhost'' 4002 NEAREST)\<lparr>ib_connected := True, ib_update_task := True,
     ib_events := [BE_Connection \<lparr>c_connected = True, c_detail = ''IB broker connected (account DU1 via localhost:4002)'', c_time = utc 0\<rparr>]\<rparr>"

lemma ex_credentials: "probe_credentials (pw_env (ex_probe d)) None = Inr \<lparr>ibc_host = ''localhost'', ibc_port = 4002, ibc_client_id = 1, ibc_account_id = ''DU1''\<rparr>"
  unfolding ex_probe_def by code_simp

lemma ex_connect: "connect_probe (ex_probe d) \<lparr>ibc_host = ''localhost'', ibc_port = 4002, ibc_client_id = 1, ibc_account_id = ''DU1''\<rparr> = (Inr (), ex_connected_ib)"
proof -
  have p: "show_int 4002 = ''4002''" by code_simp
  show ?thesis
    by (simp add: connect_probe_def ib_connect_def put_ib_connection_def ib_init_def ex_probe_def bindS_def mk_ConnectionStatus_def
        validated_def ConnectionStatus_checks_def require_utc_def put_ib_def p ex_connected_ib_def)
qed

lemma ex_started: "checked_start (ex_probe d) go_on = go_on 1 ex_connected_ib"
proof -
  have s: "pw_secrets (ex_probe d) = None" by (simp add: ex_probe_def)
  show ?thesis by (simp add: checked_start_def s ex_credentials ex_connect first_event_def) (simp add: ex_connected_ib_def)
qed

lemma ex_sent: "\<exists>k. \<forall>d. submit_awaits (pw_order (ex_probe d)) ex_rth_order ex_connected_ib =
    (Inr 7, ex_connected_ib\<lparr>ib_placed := [k], ib_trades := [7 \<mapsto> ex_trade ''Submitted'' []], ib_tracking := [7 \<mapsto> new_tracking ex_rth_order],
       ib_events := ib_events ex_connected_ib @
         [BE_Order \<lparr>e_order = 7, e_venue_order = Some ''5'', e_kind = EV_SUBMITTED, e_reason = None, e_time = utc 1, e_fill = None\<rparr>]\<rparr>)"
proof -
  obtain c i where r: "to_contract TQQQ = Inr c" "blive_to_ib_order ex_rth_order = Inr i" using ex_routed by blast
  have e: "ib_order_event 7 (venue_order_id (ex_trade ''Submitted'' [])) EV_SUBMITTED None None (utc 1) =
    Inr \<lparr>e_order = 7, e_venue_order = Some ''5'', e_kind = EV_SUBMITTED, e_reason = None, e_time = utc 1, e_fill = None\<rparr>" by code_simp
  have o: "o_id ex_rth_order = 7" "o_instrument ex_rth_order = TQQQ" by (simp_all add: ex_rth_order_def)
  show ?thesis
    by (simp add: submit_awaits_def bindS_def submit_check_def require_connected_def ex_connected_ib_def ib_init_def ex_probe_def ex_script_def
        submit_priced_def ex_snap o r submit_place_def e put_ib_def set_tracking_def)
qed


lemma ex_left: "ib_connected b \<Longrightarrow> length (ib_placed b) = 1 \<Longrightarrow> ib_cancelled b = [] \<Longrightarrow>
    po_exit (leave (ex_probe d) code b) = Inr code \<and> left_working (leave (ex_probe d) code b)"
  by (simp add: leave_def ex_probe_def ib_disconnect_def put_ib_connection_def bindS_def mk_ConnectionStatus_def validated_def
      ConnectionStatus_checks_def require_utc_def put_ib_def left_working_def)

definition ex_event :: "OrderEventKind \<Rightarrow> string option \<Rightarrow> datetime \<Rightarrow> OrderEvent" where
  "ex_event kind reason t = \<lparr>e_order = 7, e_venue_order = Some ''5'', e_kind = kind, e_reason = reason, e_time = t, e_fill = None\<rparr>"

definition ex_sent_ib :: "Contract \<times> IbOrder \<Rightarrow> IBBroker" where
  "ex_sent_ib k = ex_connected_ib\<lparr>ib_placed := [k], ib_trades := [7 \<mapsto> ex_trade ''Submitted'' []], ib_tracking := [7 \<mapsto> new_tracking ex_rth_order],
     ib_events := ib_events ex_connected_ib @ [BE_Order (ex_event EV_SUBMITTED None (utc 1))]\<rparr>"

lemma ex_submitted_wait:
  "wait_for_kinds {EV_SUBMITTED} [Receive] 1 (ex_sent_ib k) = (Some (ex_event EV_SUBMITTED None (utc 1)), 2, ex_sent_ib k)"
  by (simp add: ex_sent_ib_def ex_connected_ib_def ex_event_def)

lemma ex_rejected_wait:
  "\<exists>b reason. wait_for_kinds {EV_ACCEPTED, EV_REJECTED, EV_CANCELED} ex_rejection 2 (ex_sent_ib k) = (Some (ex_event EV_REJECTED (Some reason) (utc 2)), 3, b) \<and>
     classify_reason (Some reason) = ''priips'' \<and> ib_connected b \<and> length (ib_placed b) = 1 \<and> ib_cancelled b = []"
proof -
  let ?entry = "\<lparr>le_errorCode = 201, le_message = ''No Trading Permission''\<rparr>"
  have v: "venue_order_id (ex_trade s l) = Some ''5''" for s l by (simp add: ex_trade_def) code_simp
  have t: "it_status (ex_trade s l) = s" "it_log (ex_trade s l) = l" "it_orderId (ex_trade s l) = 5" for s l by (simp_all add: ex_trade_def)
  have c: "classify_reason (Some (rejected_reason_from_log_entry ?entry)) = ''priips''" by code_simp
  have o: "cancel_outcome (new_tracking ex_rth_order) (ex_trade ''Cancelled'' ex_reject_log) = (EV_REJECTED, rejected_reason_from_log_entry ?entry)"
    by (simp add: cancel_outcome_def new_tracking_def last_error_log_entry_def t ex_reject_log_def)
  have live: "\<not> ot_terminal (new_tracking ex_rth_order)" "\<not> ot_accepted (new_tracking ex_rth_order)" by (simp_all add: new_tracking_def)
  let ?reason = "rejected_reason_from_log_entry ?entry" and ?trade = "ex_trade ''Cancelled'' ex_reject_log"
  have e: "ib_order_event 7 (Some ''5'') EV_REJECTED (Some ?reason) None (utc 2) = Inr (ex_event EV_REJECTED (Some ?reason) (utc 2))"
    by code_simp
  let ?b1 = "ex_sent_ib k\<lparr>ib_trades := [7 \<mapsto> ?trade]\<rparr>"
  let ?b2 = "pop_error 5 (set_tracking 7 (new_tracking ex_rth_order\<lparr>ot_terminal := True\<rparr>) ?b1)"
  have trades: "ib_tracking (ex_sent_ib k) = [7 \<mapsto> new_tracking ex_rth_order]" "ib_tasks (ex_sent_ib k) = []"
    "ib_events (ex_sent_ib k) = ib_events ex_connected_ib @ [BE_Order (ex_event EV_SUBMITTED None (utc 1))]" "length (ib_events ex_connected_ib) = 1"
    by (simp_all add: ex_sent_ib_def ex_connected_ib_def ib_init_def)
  have st: "on_order_status 7 ?trade (utc 2) ?b1 = (Inr (), spawn (PutOrderEvent (ex_event EV_REJECTED (Some ?reason) (utc 2))) ?b2)"
    by (simp add: on_order_status_def trades live t v accepted_status_def cancelled_status_def o spawn_event_def e)
  let ?b3 = "put_ib (BE_Order (ex_event EV_REJECTED (Some ?reason) (utc 2))) (?b2\<lparr>ib_tasks := []\<rparr>)"
  have task: "run_task (utc 2) (spawn (PutOrderEvent (ex_event EV_REJECTED (Some ?reason) (utc 2))) ?b2) = ?b3"
    by (simp add: run_task_def trades) (simp add: spawn_def)
  have known: "ib_trades (ex_sent_ib k) = [7 \<mapsto> ex_trade ''Submitted'' []]" by (simp add: ex_sent_ib_def)
  have "wait_for_kinds {EV_ACCEPTED, EV_REJECTED, EV_CANCELED} ex_rejection 2 (ex_sent_ib k) =
      wait_for_kinds {EV_ACCEPTED, EV_REJECTED, EV_CANCELED} [Receive] 2 ?b3"
    using st task by (simp add: ex_rejection_def known)
  also have "\<dots> = (Some (ex_event EV_REJECTED (Some ?reason) (utc 2)), 3, ?b3)"
    by (simp add: trades nth_append) (simp add: ex_event_def)
  finally show ?thesis using c by (auto simp: ex_sent_ib_def ex_connected_ib_def ib_init_def pop_error_def set_tracking_def put_ib_def)
qed

lemma ex_probe_runs:
  "po_exit (us_rth_probe (ex_probe ex_rejection)) = Inr 0 \<and> left_working (us_rth_probe (ex_probe ex_rejection))"
  "po_exit (us_rth_probe (ex_probe [])) = Inr 5 \<and> left_working (us_rth_probe (ex_probe []))"
proof -
  obtain k where k: "submit_awaits (pw_order (ex_probe d)) ex_rth_order ex_connected_ib = (Inr 7, ex_sent_ib k)" for d
    using ex_sent by (auto simp only: ex_sent_ib_def ex_event_def)
  have f: "pw_submitted (ex_probe d) = [Receive]" "os_wait (pw_order (ex_probe d)) = d" "o_id ex_rth_order = 7" for d
    by (simp_all add: ex_probe_def ex_rth_order_def)
  have left: "ib_connected (ex_sent_ib k)" "length (ib_placed (ex_sent_ib k)) = 1" "ib_cancelled (ex_sent_ib k) = []"
    by (simp_all add: ex_sent_ib_def ex_connected_ib_def ib_init_def)
  obtain b reason where r: "wait_for_kinds {EV_ACCEPTED, EV_REJECTED, EV_CANCELED} ex_rejection 2 (ex_sent_ib k) =
      (Some (ex_event EV_REJECTED (Some reason) (utc 2)), 3, b)" "classify_reason (Some reason) = ''priips''"
    "ib_connected b" "length (ib_placed b) = 1" "ib_cancelled b = []" using ex_rejected_wait by blast
  show "po_exit (us_rth_probe (ex_probe ex_rejection)) = Inr 0 \<and> left_working (us_rth_probe (ex_probe ex_rejection))"
    unfolding us_rth_probe_def ex_started send_and_watch_def ex_rth_order_made sum.case k prod.case f ex_submitted_wait option.case r(1)
    using ex_left [OF r(3-5)] by (simp add: us_rth_decided_def ex_event_def r(2))
  show "po_exit (us_rth_probe (ex_probe [])) = Inr 5 \<and> left_working (us_rth_probe (ex_probe []))"
    unfolding us_rth_probe_def ex_started send_and_watch_def ex_rth_order_made sum.case k prod.case f ex_submitted_wait option.case
    using ex_left [OF left] by simp
qed

text \<open>C27: the verdict of \<open>probe_tqqq_us_rth\<close>, whatever IB pushes and when: at most one order is placed and at most one cancellation
  requested; an exit code 0 or 1 means that the order was rejected with a reason of that class, and 4 that it was accepted and
  a cancellation was requested or could not be; with any other code the order is not cancelled.  The broker is
  disconnected whenever the script returns.\<close>

theorem us_rth_verdict:
  assumes "probe_quiet w" and "po_broker (us_rth_probe w) = Some b"
  shows "length (ib_placed b) \<le> 1 \<and> length (ib_cancelled b) \<le> 1 \<and>
    (case po_exit (us_rth_probe w) of
       Inl e \<Rightarrow> True
     | Inr code \<Rightarrow> \<not> is_connected b \<and>
         (if code = 0 then rejected_as ''priips'' (os_id (pw_order w)) b \<and> ib_cancelled b = []
          else if code = 1 then rejected_as ''other-rejection'' (os_id (pw_order w)) b \<and> ib_cancelled b = []
          else if code = 4 then order_seen (os_id (pw_order w)) {EV_ACCEPTED} b \<and> cancel_tried w b
          else code \<in> {3, 5} \<and> ib_cancelled b = []))"
  using us_rth_ends [OF assms(1)] assms(2) by (auto simp: returns_with_def at_most_one_def us_rth_claim_def split: sum.splits if_splits)

theorem us_rth_verdict_witness:
  "\<exists>b. po_broker (us_rth_probe (ex_probe ex_rejection)) = Some b \<and> rejected_as ''priips'' 7 b \<and> \<not> is_connected b"
proof -
  obtain b where b: "po_broker (us_rth_probe (ex_probe ex_rejection)) = Some b"
    using ex_probe_runs(1) by (auto simp: left_working_def split: option.splits)
  have "os_id (pw_order (ex_probe ex_rejection)) = 7" by (simp add: ex_probe_def ex_script_def)
  then show ?thesis using us_rth_verdict [OF ex_probe_quiet(1) b] ex_probe_runs(1) b by simp
qed

text \<open>The other scripts: \<open>probe_ib_submit\<close> succeeds only when the order was rejected or cancelled, and
  \<open>probe_qql3_lmt_cap\<close> only when it ended or a cancellation was tried.  Each places at most one order, requests at most
  one cancellation and has disconnected when it returns; \<open>probe_tqqq_diag\<close> never cancels.\<close>

theorem order_probes_end:
  assumes "probe_quiet w"
  shows "returns_with True (\<lambda>code b. code = 0 \<longrightarrow> order_seen (os_id (pw_order w)) {EV_REJECTED, EV_CANCELED} b) (submit_probe w) \<and>
    returns_with True (\<lambda>code b. code = 0 \<longrightarrow> order_seen (os_id (pw_order w)) ENDED_KINDS b \<or> cancel_tried w b) (lmt_cap_probe w) \<and>
    returns_with False (\<lambda>_ _. True) (diag_probe w)"
  using submit_ends [OF assms] lmt_cap_ends [OF assms] diag_ends [OF assms]
  by (auto simp: returns_with_def submit_claim_def lmt_cap_claim_def split: sum.splits)

theorem order_probes_end_witness:
  "returns_with False (\<lambda>_ _. True) (diag_probe (ex_probe []))"
  using order_probes_end [OF ex_probe_quiet(2)] by simp

text \<open>An order IB says nothing about is left working: the scripts return without a cancellation.\<close>

theorem silence_leaves_order:
  "\<exists>w. probe_quiet w \<and> po_exit (us_rth_probe w) = Inr 5 \<and> left_working (us_rth_probe w)"
  using ex_probe_quiet(2) ex_probe_runs(2) by blast

end
