(* ===== verification/IGClient.thy ===== *)
theory IGClient
  imports Json
begin

text \<open>
  \<open>src/blive/adapters/ig/client.py\<close>: the REST client of IG, its session tokens and the recovery of an expired session.
  The network is a parameter, the answer to every HTTP call in order (None for a transport error); so is the rate limiter,
  which says whether it knows a bucket (waiting for a token is \<open>RateLimiter\<close>).  The log records the calls made.
\<close>

section \<open>Calls and answers\<close>

record http_request =
  rq_method :: string
  rq_path :: string
  rq_version :: "int option"
  rq_auth :: "(string \<times> string) option"
  rq_params :: "(string \<times> string) list"
  rq_body :: "json option"

record http_response =
  rs_status :: int
  rs_content :: bool
  rs_json :: "json option"
  rs_cst :: "string option"
  rs_token :: "string option"

record ig_wire =
  wi_answer :: "nat \<Rightarrow> http_request \<Rightarrow> http_response option"
  wi_bucket :: "string \<Rightarrow> bool"

record IGClient =
  ic_environment :: string
  ic_username :: string
  ic_password :: string
  ic_cst :: "string option"
  ic_token :: "string option"
  ic_log :: "http_request list"

definition base_url_for :: "string \<Rightarrow> string res" where
  "base_url_for environment =
     (if environment = ''demo'' then Inr ''https://demo-api.ig.com/gateway/deal''
      else if environment = ''live'' then Inr ''https://api.ig.com/gateway/deal''
      else Inl (ValueError ''unknown IG environment''))"

definition client_init :: "string \<Rightarrow> string \<Rightarrow> string \<Rightarrow> IGClient res" where
  "client_init environment username password =
     bindR (base_url_for environment) (\<lambda>_.
     Inr \<lparr>ic_environment = environment, ic_username = username, ic_password = password, ic_cst = None, ic_token = None, ic_log = []\<rparr>)"

definition client_connected :: "IGClient \<Rightarrow> bool" where
  "client_connected c \<longleftrightarrow> ic_cst c \<noteq> None \<and> ic_token c \<noteq> None"

section \<open>Errors\<close>

definition AUTH_ERROR_CODES :: "string list" where
  "AUTH_ERROR_CODES = [''error.security.invalid-details'', ''error.security.api-key-revoked'', ''error.public-api.failure.kyc.required'']"

definition SESSION_EXPIRED_CODES :: "string list" where
  "SESSION_EXPIRED_CODES = [''error.security.client-token-invalid'', ''error.public-api.client-token-invalid'']"

definition RATE_LIMIT_CODES :: "string list" where
  "RATE_LIMIT_CODES = [''error.public-api.exceeded-api-key-allowance'', ''error.public-api.exceeded-account-allowance'',
     ''error.public-api.exceeded-trading-allowance'', ''error.public-api.exceeded-historical-data-allowance'']"

definition REJECTED_CODES :: "string list" where
  "REJECTED_CODES = [''error.confirms.deal-rejected'']"

definition classify_error :: "string option \<Rightarrow> int \<Rightarrow> ig_failure" where
  "classify_error error_code http_status =
     (let known = (\<lambda>codes. case error_code of None \<Rightarrow> False | Some code \<Rightarrow> code \<in> set codes)
      in if known AUTH_ERROR_CODES then IGAuthError
         else if known SESSION_EXPIRED_CODES then IGSessionExpired
         else if known RATE_LIMIT_CODES then IGRateLimited
         else if known REJECTED_CODES then IGOrderRejected
         else if 500 \<le> http_status then IGConnectionError
         else IGRequestInvalid)"

definition error_code_of :: "http_response \<Rightarrow> string option" where
  "error_code_of response = (case rs_json response of Some (JObj payload) \<Rightarrow> as_str (jget payload ''errorCode'') | _ \<Rightarrow> None)"

definition handle_response :: "bool \<Rightarrow> http_response \<Rightarrow> json res" where
  "handle_response raise_on_session_expired response =
     (if 200 \<le> rs_status response \<and> rs_status response < 300 then
        (if rs_content response then
           (case rs_json response of None \<Rightarrow> Inl (IGError IGRequestInvalid None (Some (rs_status response))) | Some j \<Rightarrow> Inr j)
         else Inr (JObj []))
      else
        let error_code = error_code_of response;
            exc_type = classify_error error_code (rs_status response);
            raised = (if exc_type = IGSessionExpired \<and> \<not> raise_on_session_expired then IGAuthError else exc_type)
        in Inl (IGError raised error_code (Some (rs_status response))))"

section \<open>Calls\<close>

definition acquire_bucket :: "ig_wire \<Rightarrow> string \<Rightarrow> (IGClient, unit) sx" where
  "acquire_bucket w bucket = (if wi_bucket w bucket then retS () else raiseS (UnknownBucket bucket))"

definition http_call :: "ig_wire \<Rightarrow> http_request \<Rightarrow> (IGClient, http_response) sx" where
  "http_call w rq c =
     (case wi_answer w (length (ic_log c)) rq of
        None \<Rightarrow> (Inl TransportError, c\<lparr>ic_log := ic_log c @ [rq]\<rparr>)
      | Some response \<Rightarrow> (Inr response, c\<lparr>ic_log := ic_log c @ [rq]\<rparr>))"

definition auth_headers :: "(IGClient, string \<times> string) sx" where
  "auth_headers c =
     (case (ic_cst c, ic_token c) of
        (Some cst, Some token) \<Rightarrow> (Inr (cst, token), c)
      | _ \<Rightarrow> (Inl (IGError IGAuthError None None), c))"

definition no_header :: "string option \<Rightarrow> bool" where
  "no_header h \<longleftrightarrow> h = None \<or> h = Some []"

definition client_connect :: "ig_wire \<Rightarrow> (IGClient, unit) sx" where
  "client_connect w =
     bindS (getS client_connected) (\<lambda>already.
     if already then retS ()
     else bindS (acquire_bucket w ''general'') (\<lambda>_.
          bindS (getS (\<lambda>c. \<lparr>rq_method = ''POST'', rq_path = ''/session'', rq_version = Some 2, rq_auth = None, rq_params = [],
              rq_body = Some (JObj [(''identifier'', JStr (ic_username c)), (''password'', JStr (ic_password c))])\<rparr>)) (\<lambda>rq.
          bindS (http_call w rq) (\<lambda>response.
          bindS (liftS (handle_response False response)) (\<lambda>_.
          bindS (modS (\<lambda>c. c\<lparr>ic_cst := rs_cst response, ic_token := rs_token response\<rparr>)) (\<lambda>_.
          if no_header (rs_cst response) \<or> no_header (rs_token response)
          then raiseS (IGError IGAuthError None (Some (rs_status response)))
          else retS ()))))))"

text \<open>Logging out is best effort: an error of the call is swallowed, and the tokens are forgotten in any case.\<close>

definition client_disconnect :: "ig_wire \<Rightarrow> (IGClient, unit) sx" where
  "client_disconnect w c =
     (if client_connected c then
        let (_, c') = bindS (acquire_bucket w ''general'') (\<lambda>_.
              bindS auth_headers (\<lambda>auth.
              http_call w \<lparr>rq_method = ''DELETE'', rq_path = ''/session'', rq_version = None, rq_auth = Some auth, rq_params = [], rq_body = None\<rparr>)) c
        in (Inr (), c'\<lparr>ic_cst := None, ic_token := None\<rparr>)
      else (Inr (), c))"

definition send_once :: "ig_wire \<Rightarrow> http_request \<Rightarrow> string \<Rightarrow> (IGClient, json) sx" where
  "send_once w rq bucket =
     bindS (acquire_bucket w bucket) (\<lambda>_.
     bindS auth_headers (\<lambda>auth.
     bindS (http_call w (rq\<lparr>rq_auth := Some auth\<rparr>)) (\<lambda>response.
     liftS (handle_response True response))))"

definition refresh_session :: "ig_wire \<Rightarrow> (IGClient, unit) sx" where
  "refresh_session w =
     bindS (acquire_bucket w ''general'') (\<lambda>_.
     bindS auth_headers (\<lambda>auth.
     bindS (http_call w \<lparr>rq_method = ''POST'', rq_path = ''/session/refresh-token'', rq_version = Some 1, rq_auth = Some auth, rq_params = [],
         rq_body = Some (JObj [(''refreshToken'', JStr [])])\<rparr>) (\<lambda>response.
     bindS (liftS (handle_response True response)) (\<lambda>_.
     if no_header (rs_cst response) \<or> no_header (rs_token response)
     then raiseS (IGError IGSessionExpired None (Some (rs_status response)))
     else modS (\<lambda>c. c\<lparr>ic_cst := rs_cst response, ic_token := rs_token response\<rparr>)))))"

section \<open>Recovery\<close>

definition is_expired :: "exn \<Rightarrow> bool" where
  "is_expired e = (case e of IGError IGSessionExpired _ _ \<Rightarrow> True | _ \<Rightarrow> False)"

text \<open>One pass of the loop: the flags say whether a refresh and a new login were tried.\<close>

function dispatch_loop :: "ig_wire \<Rightarrow> http_request \<Rightarrow> string \<Rightarrow> bool \<Rightarrow> bool \<Rightarrow> IGClient \<Rightarrow> json res \<times> IGClient" where
  "dispatch_loop w rq bucket refresh_attempted reauth_attempted c =
     (case send_once w rq bucket c of
        (Inr j, c1) \<Rightarrow> (Inr j, c1)
      | (Inl e, c1) \<Rightarrow>
          if \<not> is_expired e then (Inl e, c1)
          else
            let (refreshed, c2) = (if refresh_attempted then (Inl e, c1) else refresh_session w c1)
            in case refreshed of
                 Inr _ \<Rightarrow> if refresh_attempted then (Inl e, c2) else dispatch_loop w rq bucket True reauth_attempted c2
               | Inl e2 \<Rightarrow>
                   if \<not> is_expired e2 then (Inl e2, c2)
                   else if \<not> reauth_attempted then
                     (case client_connect w (c2\<lparr>ic_cst := None, ic_token := None\<rparr>) of
                        (Inl e3, c3) \<Rightarrow> (Inl e3, c3)
                      | (Inr _, c3) \<Rightarrow> dispatch_loop w rq bucket True True c3)
                   else (Inl (IGError IGAuthError None None), c2))"
  by pat_completeness auto
termination
  by (relation "measure (\<lambda>(w, rq, bucket, refresh, reauth, c). (if refresh then 0 else 1) + (if reauth then 0 else 1))") auto

definition ig_request :: "ig_wire \<Rightarrow> http_request \<Rightarrow> string \<Rightarrow> (IGClient, json) sx" where
  "ig_request w rq bucket =
     bindS (getS client_connected) (\<lambda>connected.
     if \<not> connected then raiseS (IGError IGAuthError None None)
     else dispatch_loop w rq bucket False False)"

definition client_get :: "ig_wire \<Rightarrow> string \<Rightarrow> int \<Rightarrow> (string \<times> string) list \<Rightarrow> string \<Rightarrow> (IGClient, json) sx" where
  "client_get w path version params bucket = ig_request w \<lparr>rq_method = ''GET'', rq_path = path, rq_version = Some version, rq_auth = None, rq_params = params, rq_body = None\<rparr> bucket"

definition client_post :: "ig_wire \<Rightarrow> string \<Rightarrow> int \<Rightarrow> json \<Rightarrow> string \<Rightarrow> (IGClient, json) sx" where
  "client_post w path version body bucket = ig_request w \<lparr>rq_method = ''POST'', rq_path = path, rq_version = Some version, rq_auth = None, rq_params = [], rq_body = Some body\<rparr> bucket"

definition client_put :: "ig_wire \<Rightarrow> string \<Rightarrow> int \<Rightarrow> json \<Rightarrow> string \<Rightarrow> (IGClient, json) sx" where
  "client_put w path version body bucket = ig_request w \<lparr>rq_method = ''PUT'', rq_path = path, rq_version = Some version, rq_auth = None, rq_params = [], rq_body = Some body\<rparr> bucket"

definition client_delete :: "ig_wire \<Rightarrow> string \<Rightarrow> int \<Rightarrow> string \<Rightarrow> (IGClient, json) sx" where
  "client_delete w path version bucket = ig_request w \<lparr>rq_method = ''DELETE'', rq_path = path, rq_version = Some version, rq_auth = None, rq_params = [], rq_body = None\<rparr> bucket"

declare dispatch_loop.simps [simp del]

section \<open>Lemmas\<close>

definition expired_answer :: "json res \<Rightarrow> bool" where
  "expired_answer r \<longleftrightarrow> (case r of Inl e \<Rightarrow> is_expired e | Inr _ \<Rightarrow> False)"

text \<open>The requests of a kind that took effect as far as the client can know: all but those IG refused for an expired session,
  those whose answer was lost included.\<close>

fun effective :: "ig_wire \<Rightarrow> (http_request \<Rightarrow> bool) \<Rightarrow> nat \<Rightarrow> http_request list \<Rightarrow> http_request list" where
  "effective w P n [] = []"
| "effective w P n (q # qs) =
     (if P q \<and> \<not> (case wi_answer w n q of None \<Rightarrow> False | Some response \<Rightarrow> expired_answer (handle_response True response))
      then [q] else []) @ effective w P (Suc n) qs"

lemma effective_append [simp]: "effective w P n (xs @ ys) = effective w P n xs @ effective w P (n + length xs) ys"
  by (induction xs arbitrary: n) simp_all

text \<open>A step of the client: it appends at most \<open>n\<close> calls to the log, at most \<open>k\<close> of the kind \<open>P\<close> took effect, and it
  never touches the credentials.\<close>

definition calls_within :: "ig_wire \<Rightarrow> (http_request \<Rightarrow> bool) \<Rightarrow> nat \<Rightarrow> nat \<Rightarrow> IGClient \<Rightarrow> IGClient \<Rightarrow> bool" where
  "calls_within w P n k c c' \<longleftrightarrow> (\<exists>new. ic_log c' = ic_log c @ new \<and> length new \<le> n \<and>
       length (effective w P (length (ic_log c)) new) \<le> k) \<and>
     ic_username c' = ic_username c \<and> ic_password c' = ic_password c \<and> ic_environment c' = ic_environment c"

text \<open>A kind of requests that the session's own calls are not of.\<close>

definition not_session :: "(http_request \<Rightarrow> bool) \<Rightarrow> bool" where
  "not_session P \<longleftrightarrow> (\<forall>q. P q \<longrightarrow> rq_path q \<notin> {''/session'', ''/session/refresh-token''})"

lemma calls_within_refl [simp]: "calls_within w P n k c c"
  by (simp add: calls_within_def)

lemma calls_within_tokens [simp]: "calls_within w P n k c (c'\<lparr>ic_cst := x, ic_token := y\<rparr>) = calls_within w P n k c c'"
  "calls_within w P n k (c\<lparr>ic_cst := x, ic_token := y\<rparr>) c' = calls_within w P n k c c'"
  by (simp_all add: calls_within_def)

lemma calls_within_trans: "calls_within w P m j c c1 \<Longrightarrow> calls_within w P n k c1 c2 \<Longrightarrow> m + n \<le> m' \<Longrightarrow> j + k \<le> k' \<Longrightarrow> calls_within w P m' k' c c2"
  by (fastforce simp: calls_within_def)

lemma calls_within_mono: "calls_within w P m j c c' \<Longrightarrow> m \<le> n \<Longrightarrow> j \<le> k \<Longrightarrow> calls_within w P n k c c'"
  by (fastforce simp: calls_within_def)

lemma acquire_bucket_keeps: "snd (acquire_bucket w bucket c) = c"
  by (simp add: acquire_bucket_def)

lemma auth_headers_keeps: "snd (auth_headers c) = c"
  by (simp add: auth_headers_def split: option.split)

lemma send_once_cases:
  obtains (refused) e where "send_once w rq bucket c = (Inl e, c)" "\<not> is_expired e"
  | (lost) auth where "ic_cst c = Some (fst auth)" "ic_token c = Some (snd auth)"
      "wi_answer w (length (ic_log c)) (rq\<lparr>rq_auth := Some auth\<rparr>) = None"
      "send_once w rq bucket c = (Inl TransportError, c\<lparr>ic_log := ic_log c @ [rq\<lparr>rq_auth := Some auth\<rparr>]\<rparr>)"
  | (answered) auth response where "ic_cst c = Some (fst auth)" "ic_token c = Some (snd auth)"
      "wi_answer w (length (ic_log c)) (rq\<lparr>rq_auth := Some auth\<rparr>) = Some response"
      "send_once w rq bucket c = (handle_response True response, c\<lparr>ic_log := ic_log c @ [rq\<lparr>rq_auth := Some auth\<rparr>]\<rparr>)"
proof (cases "wi_bucket w bucket")
  case False
  then show thesis by (intro refused [of "UnknownBucket bucket"]) (simp_all add: send_once_def acquire_bucket_def is_expired_def)
next
  case bucket: True
  show thesis
  proof (cases "client_connected c")
    case False
    then have "send_once w rq bucket c = (Inl (IGError IGAuthError None None), c)"
      using bucket by (auto simp: send_once_def acquire_bucket_def auth_headers_def client_connected_def bindS_def split: option.split)
    then show thesis by (rule refused) (simp add: is_expired_def)
  next
    case True
    then obtain cst token where t: "ic_cst c = Some cst" "ic_token c = Some token" by (auto simp: client_connected_def)
    let ?rq = "rq\<lparr>rq_auth := Some (cst, token)\<rparr>"
    show thesis
    proof (cases "wi_answer w (length (ic_log c)) ?rq")
      case None
      then show thesis using t bucket
        by (intro lost [of "(cst, token)"]) (simp_all add: send_once_def acquire_bucket_def auth_headers_def http_call_def bindS_def)
    next
      case (Some response)
      then show thesis using t bucket
        by (intro answered [of "(cst, token)" response]) (simp_all add: send_once_def acquire_bucket_def auth_headers_def http_call_def bindS_def)
    qed
  qed
qed

lemma send_once_within:
  assumes "send_once w rq bucket c = (r, c1)" "\<And>auth. P (rq\<lparr>rq_auth := Some auth\<rparr>) \<Longrightarrow> 1 \<le> k"
  shows "calls_within w P 1 (if expired_answer r then 0 else k) c c1"
  using assms by (cases rule: send_once_cases [of w rq bucket c])
    (auto simp: calls_within_def expired_answer_def is_expired_def Suc_le_eq)

lemma refresh_session_within: "not_session P \<Longrightarrow> calls_within w P 1 0 c (snd (refresh_session w c))"
proof (cases "wi_bucket w ''general'' \<and> client_connected c")
  case True
  then obtain cst token where t: "ic_cst c = Some cst" "ic_token c = Some token" by (auto simp: client_connected_def)
  assume "not_session P"
  then show ?thesis using True t
    by (auto simp: refresh_session_def acquire_bucket_def auth_headers_def http_call_def bindS_def calls_within_def not_session_def split: option.split sum.split)
next
  case False
  then show ?thesis
    by (auto simp: refresh_session_def acquire_bucket_def auth_headers_def client_connected_def bindS_def calls_within_def split: option.split)
qed

lemma client_connect_within: "not_session P \<Longrightarrow> calls_within w P 1 0 c (snd (client_connect w c))"
  by (auto simp: client_connect_def acquire_bucket_def http_call_def bindS_def calls_within_def not_session_def split: option.split sum.split)

lemma handle_response_login: "handle_response False response = Inl e \<Longrightarrow> \<not> is_expired e"
  by (auto simp: handle_response_def is_expired_def Let_def split: if_splits option.splits ig_failure.splits)

lemma client_connect_error: "client_connect w c = (Inl e, c') \<Longrightarrow> \<not> is_expired e"
  by (auto simp: client_connect_def acquire_bucket_def http_call_def bindS_def is_expired_def
      split: option.splits sum.splits if_splits dest: handle_response_login [unfolded is_expired_def])

lemma client_connect_tokens:
  assumes "client_connect w c = (Inr u, c')" "\<not> client_connected c"
  shows "client_connected c'"
  using assms by (auto simp: client_connect_def acquire_bucket_def http_call_def bindS_def client_connected_def no_header_def
      split: option.splits sum.splits if_splits)

text \<open>What a request comes to: a bounded number of calls, never the internal error of an expired session, and a body only
  from an answer to this request under the tokens the client then holds.\<close>

definition answered_by :: "ig_wire \<Rightarrow> http_request \<Rightarrow> json \<Rightarrow> IGClient \<Rightarrow> bool" where
  "answered_by w rq j c \<longleftrightarrow> (\<exists>before cst token response. ic_cst c = Some cst \<and> ic_token c = Some token \<and>
     ic_log c = before @ [rq\<lparr>rq_auth := Some (cst, token)\<rparr>] \<and>
     wi_answer w (length before) (rq\<lparr>rq_auth := Some (cst, token)\<rparr>) = Some response \<and> handle_response True response = Inr j)"

definition request_outcome :: "ig_wire \<Rightarrow> http_request \<Rightarrow> json res \<Rightarrow> IGClient \<Rightarrow> bool" where
  "request_outcome w rq r c \<longleftrightarrow> (case r of Inl e \<Rightarrow> \<not> is_expired e | Inr j \<Rightarrow> answered_by w rq j c)"

definition recoveries :: "bool \<Rightarrow> bool \<Rightarrow> nat" where
  "recoveries refresh reauth = (if refresh then 0 else 1) + (if reauth then 0 else 1)"

lemma dispatch_done:
  assumes "send_once w rq bucket c = (r, c1)" "\<not> expired_answer r"
  shows "dispatch_loop w rq bucket refresh reauth c = (r, c1)"
  using assms by (subst dispatch_loop.simps) (auto simp: expired_answer_def split: sum.splits)

lemma dispatch_refreshed:
  assumes "send_once w rq bucket c = (r, c1)" "expired_answer r" "refresh_session w c1 = (Inr u, c2)"
  shows "dispatch_loop w rq bucket False reauth c = dispatch_loop w rq bucket True reauth c2"
  using assms by (subst dispatch_loop.simps) (auto simp: expired_answer_def split: sum.splits)

lemma dispatch_refresh_failed:
  assumes "send_once w rq bucket c = (r, c1)" "expired_answer r" "refresh_session w c1 = (Inl e, c2)" "\<not> is_expired e"
  shows "dispatch_loop w rq bucket False reauth c = (Inl e, c2)"
  using assms by (subst dispatch_loop.simps) (auto simp: expired_answer_def split: sum.splits)

text \<open>The session is lost: the refresh was tried before, or ended with the session expired as well.\<close>

definition session_lost :: "ig_wire \<Rightarrow> bool \<Rightarrow> IGClient \<Rightarrow> IGClient \<Rightarrow> bool" where
  "session_lost w refresh c1 c2 \<longleftrightarrow> (if refresh then c2 = c1 else \<exists>e. refresh_session w c1 = (Inl e, c2) \<and> is_expired e)"

lemma dispatch_lost:
  assumes "send_once w rq bucket c = (r, c1)" "expired_answer r" "session_lost w refresh c1 c2"
  shows "dispatch_loop w rq bucket refresh True c = (Inl (IGError IGAuthError None None), c2)"
  using assms by (subst dispatch_loop.simps) (auto simp: expired_answer_def session_lost_def split: sum.splits if_splits)

lemma dispatch_login:
  assumes "send_once w rq bucket c = (r, c1)" "expired_answer r" "session_lost w refresh c1 c2"
  shows "dispatch_loop w rq bucket refresh False c =
    (case client_connect w (c2\<lparr>ic_cst := None, ic_token := None\<rparr>) of
       (Inl e, c3) \<Rightarrow> (Inl e, c3) | (Inr _, c3) \<Rightarrow> dispatch_loop w rq bucket True True c3)"
  using assms by (subst dispatch_loop.simps) (auto simp: expired_answer_def session_lost_def split: sum.splits if_splits)

lemma dispatch_cases:
  obtains (returned) r c1 where "send_once w rq bucket c = (r, c1)" "\<not> expired_answer r" "dispatch_loop w rq bucket refresh reauth c = (r, c1)"
  | (refreshed) r c1 u c2 where "send_once w rq bucket c = (r, c1)" "expired_answer r" "\<not> refresh" "refresh_session w c1 = (Inr u, c2)"
      "dispatch_loop w rq bucket refresh reauth c = dispatch_loop w rq bucket True reauth c2"
  | (failed) r c1 e c2 where "send_once w rq bucket c = (r, c1)" "expired_answer r" "\<not> refresh" "refresh_session w c1 = (Inl e, c2)" "\<not> is_expired e"
      "dispatch_loop w rq bucket refresh reauth c = (Inl e, c2)"
  | (lost) r c1 c2 where "send_once w rq bucket c = (r, c1)" "expired_answer r" "session_lost w refresh c1 c2" "reauth"
      "dispatch_loop w rq bucket refresh reauth c = (Inl (IGError IGAuthError None None), c2)"
  | (refused) r c1 c2 e c3 where "send_once w rq bucket c = (r, c1)" "expired_answer r" "session_lost w refresh c1 c2" "\<not> reauth"
      "client_connect w (c2\<lparr>ic_cst := None, ic_token := None\<rparr>) = (Inl e, c3)" "dispatch_loop w rq bucket refresh reauth c = (Inl e, c3)"
  | (login) r c1 c2 u c3 where "send_once w rq bucket c = (r, c1)" "expired_answer r" "session_lost w refresh c1 c2" "\<not> reauth"
      "client_connect w (c2\<lparr>ic_cst := None, ic_token := None\<rparr>) = (Inr u, c3)"
      "dispatch_loop w rq bucket refresh reauth c = dispatch_loop w rq bucket True True c3"
proof -
  obtain r c1 where s: "send_once w rq bucket c = (r, c1)" by (cases "send_once w rq bucket c")
  obtain rr c2 where f: "refresh_session w c1 = (rr, c2)" by (cases "refresh_session w c1")
  show thesis
  proof (cases "expired_answer r")
    case False
    from returned [OF s False dispatch_done [OF s False]] show thesis .
  next
    case x: True
    show thesis
    proof (cases "refresh \<or> (\<exists>e. rr = Inl e \<and> is_expired e)")
      case False
      then show thesis
        using dispatch_refreshed [OF s x] dispatch_refresh_failed [OF s x] refreshed [OF s x] failed [OF s x] f by (cases rr) auto
    next
      case True
      define c2' where "c2' = (if refresh then c1 else c2)"
      have l: "session_lost w refresh c1 c2'" using True f by (auto simp: session_lost_def c2'_def)
      obtain r3 c3 where k: "client_connect w (c2'\<lparr>ic_cst := None, ic_token := None\<rparr>) = (r3, c3)"
        by (cases "client_connect w (c2'\<lparr>ic_cst := None, ic_token := None\<rparr>)")
      show thesis
      proof (cases reauth)
        case True
        then show thesis using lost [OF s x l] dispatch_lost [OF s x l] by simp
      next
        case False
        then show thesis using refused [OF s x l False] login [OF s x l False] dispatch_login [OF s x l] k by (cases r3) auto
      qed
    qed
  qed
qed

lemma send_once_outcome:
  assumes "send_once w rq bucket c = (r, c1)" "\<not> expired_answer r"
  shows "request_outcome w rq r c1"
  using assms by (cases rule: send_once_cases [of w rq bucket c])
    (auto simp: request_outcome_def answered_by_def expired_answer_def is_expired_def split: sum.splits)

lemma session_lost_within:
  "not_session P \<Longrightarrow> session_lost w refresh c1 c2 \<Longrightarrow> calls_within w P (if refresh then 0 else 1) 0 c1 c2"
  using refresh_session_within [of P w c1] by (auto simp: session_lost_def split: if_splits)

lemma dispatch_loop_outcome:
  assumes "not_session P" "\<And>auth. P (rq\<lparr>rq_auth := Some auth\<rparr>) \<Longrightarrow> 1 \<le> k"
  shows "calls_within w P (1 + 2 * recoveries refresh reauth) k c (snd (dispatch_loop w rq bucket refresh reauth c)) \<and>
   request_outcome w rq (fst (dispatch_loop w rq bucket refresh reauth c)) (snd (dispatch_loop w rq bucket refresh reauth c))"
proof (induction "recoveries refresh reauth" arbitrary: refresh reauth c rule: less_induct)
  case less
  have send: "calls_within w P 1 0 c c1" if "send_once w rq bucket c = (r, c1)" "expired_answer r" for r c1
    using send_once_within [where P = P, OF that(1) assms(2)] that(2) by simp
  have conn: "calls_within w P 1 0 c2 c3" if "client_connect w (c2\<lparr>ic_cst := None, ic_token := None\<rparr>) = (r, c3)" for c2 r c3
    using client_connect_within [OF assms(1), of w "c2\<lparr>ic_cst := None, ic_token := None\<rparr>"] that by simp
  have ref: "calls_within w P 1 0 c1 c2" if "refresh_session w c1 = (r, c2)" for c1 r c2
    using refresh_session_within [OF assms(1), of w c1] that by simp
  note lose = session_lost_within [OF assms(1)]
  show ?case
  proof (cases rule: dispatch_cases [of w rq bucket c refresh reauth])
    case (returned r c1)
    from send_once_within [where P = P, OF returned(1) assms(2)] returned(2) have "calls_within w P 1 k c c1" by simp
    then show ?thesis using returned send_once_outcome calls_within_mono by fastforce
  next
    case (refreshed r c1 u c2)
    have "recoveries True reauth < recoveries refresh reauth" using refreshed(3) by (simp add: recoveries_def)
    note IH = less [OF this, of c2]
    have "calls_within w P (1 + 2 * recoveries refresh reauth) k c (snd (dispatch_loop w rq bucket True reauth c2))"
      by (rule calls_within_trans [OF calls_within_trans [OF send [OF refreshed(1,2)] ref [OF refreshed(4)] order_refl order_refl] conjunct1 [OF IH]])
        (use refreshed(3) in \<open>simp_all add: recoveries_def\<close>)
    with IH show ?thesis by (simp add: refreshed(5))
  next
    case (failed r c1 e c2)
    have "calls_within w P (1 + 2 * recoveries refresh reauth) k c c2"
      by (rule calls_within_trans [OF send [OF failed(1,2)] ref [OF failed(4)]]) (use failed(3) in \<open>simp_all add: recoveries_def\<close>)
    then show ?thesis using failed(5,6) by (simp add: request_outcome_def)
  next
    case (lost r c1 c2)
    have "calls_within w P (1 + 2 * recoveries refresh reauth) k c c2"
      by (rule calls_within_trans [OF send [OF lost(1,2)] lose [OF lost(3)]]) (simp_all add: recoveries_def)
    then show ?thesis using lost(5) by (simp add: request_outcome_def is_expired_def)
  next
    case (refused r c1 c2 e c3)
    have "calls_within w P (1 + 2 * recoveries refresh reauth) k c c3"
      by (rule calls_within_trans [OF calls_within_trans [OF send [OF refused(1,2)] lose [OF refused(3)] order_refl order_refl] conn [OF refused(5)]])
        (use refused(4) in \<open>simp_all add: recoveries_def\<close>)
    then show ?thesis using client_connect_error [OF refused(5)] refused(6) by (simp add: request_outcome_def)
  next
    case (login r c1 c2 u c3)
    have "recoveries True True < recoveries refresh reauth" using login(4) by (simp add: recoveries_def)
    note IH = less [OF this, of c3]
    have "calls_within w P (1 + 2 * recoveries refresh reauth) k c (snd (dispatch_loop w rq bucket True True c3))"
      by (rule calls_within_trans [OF calls_within_trans [OF calls_within_trans [OF send [OF login(1,2)] lose [OF login(3)] order_refl order_refl]
          conn [OF login(5)] order_refl order_refl] conjunct1 [OF IH]])
        (use login(4) in \<open>simp_all add: recoveries_def\<close>)
    with IH show ?thesis by (simp add: login(6))
  qed
qed

lemma ig_request_within:
  assumes "not_session P" "\<And>auth. P (rq\<lparr>rq_auth := Some auth\<rparr>) \<Longrightarrow> 1 \<le> k" "ig_request w rq bucket c = (r, c')"
  shows "calls_within w P 5 k c c'" "request_outcome w rq r c'"
proof -
  have d: "calls_within w P (1 + 2 * recoveries False False) k c (snd (dispatch_loop w rq bucket False False c)) \<and>
     request_outcome w rq (fst (dispatch_loop w rq bucket False False c)) (snd (dispatch_loop w rq bucket False False c))"
    by (rule dispatch_loop_outcome) (use assms in auto)
  show "calls_within w P 5 k c c'" "request_outcome w rq r c'"
    using d assms(3) by (auto simp: ig_request_def recoveries_def request_outcome_def is_expired_def split: if_splits sum.splits)
qed

section \<open>Properties\<close>

text \<open>C14: what a request comes to: whatever the network answers, a request makes at most five calls, whatever was expired
  and recovered on the way; it never raises the internal error of an expired session; and a body it returns is the
  answer of IG to this very request, sent last and under the tokens the client then holds.\<close>

theorem ig_request_contract:
  "case ig_request w rq bucket c of (r, c') \<Rightarrow>
     (\<exists>calls. ic_log c' = ic_log c @ calls \<and> length calls \<le> 5) \<and> ic_username c' = ic_username c \<and> ic_password c' = ic_password c \<and>
     (case r of Inl e \<Rightarrow> \<not> is_expired e | Inr j \<Rightarrow> answered_by w rq j c')"
proof (cases "ig_request w rq bucket c")
  case (Pair r c')
  have "not_session (\<lambda>_. False)" by (simp add: not_session_def)
  from ig_request_within [OF this _ Pair] Pair show ?thesis
    by (auto simp: calls_within_def request_outcome_def)
qed

text \<open>C34: an expired session is recovered: when IG answers the request with an expired session under any tokens but the fresh
  ones, may refuse to refresh the session for that reason, but grants a new login, the request succeeds.\<close>

theorem ig_session_recovers:
  assumes conn: "client_connected c" and bucket: "wi_bucket w bucket" "wi_bucket w ''general''"
    and send: "\<And>n auth. \<exists>response. wi_answer w n (rq\<lparr>rq_auth := Some auth\<rparr>) = Some response \<and>
        (if auth = (cst, token) then handle_response True response = Inr j
         else expired_answer (handle_response True response) \<or> handle_response True response = Inr j)"
    and refresh: "\<And>n q. rq_path q = ''/session/refresh-token'' \<Longrightarrow> \<exists>response. wi_answer w n q = Some response \<and>
        (expired_answer (handle_response True response) \<or> is_ok (handle_response True response))"
    and login: "\<And>n q. rq_path q = ''/session'' \<Longrightarrow> \<exists>response. wi_answer w n q = Some response \<and>
        is_ok (handle_response False response) \<and> rs_cst response = Some cst \<and> rs_token response = Some token"
    and fresh: "cst \<noteq> []" "token \<noteq> []"
  shows "fst (ig_request w rq bucket c) = Inr j"
proof -
  have sent: "\<exists>r c1. send_once w rq bucket c = (r, c1) \<and> client_connected c1 \<and> (r = Inr j \<or> expired_answer r \<and> (ic_cst c, ic_token c) \<noteq> (Some cst, Some token))"
    if "client_connected c" for c
  proof (cases rule: send_once_cases [of w rq bucket c])
    case (refused e)
    then have False using that bucket(1) send [of "length (ic_log c)" "(the (ic_cst c), the (ic_token c))"]
      by (auto simp: send_once_def acquire_bucket_def auth_headers_def client_connected_def http_call_def bindS_def
          dest!: arg_cong [where f = ic_log] split: option.splits)
    then show ?thesis ..
  next
    case (lost auth)
    then show ?thesis using send [of "length (ic_log c)" auth] by auto
  next
    case (answered auth response)
    then show ?thesis using send [of "length (ic_log c)" auth] that
      by (cases auth) (auto simp: client_connected_def split: if_splits)
  qed
  have last: "fst (dispatch_loop w rq bucket True True c) = Inr j" if "ic_cst c = Some cst" "ic_token c = Some token" for c
  proof -
    have "client_connected c" using that by (simp add: client_connected_def)
    then obtain r c1 where s: "send_once w rq bucket c = (r, c1)" "r = Inr j \<or> (ic_cst c, ic_token c) \<noteq> (Some cst, Some token)"
      using sent by blast
    from dispatch_done [OF s(1)] s(2) that show ?thesis by (simp add: expired_answer_def)
  qed
  have logged: "fst (dispatch_loop w rq bucket refresh False c) = Inr j"
    if s: "send_once w rq bucket c = (r, c1)" "expired_answer r" "session_lost w refresh c1 c2" for refresh c r c1 c2
  proof -
    have "\<exists>u c3. client_connect w (c2\<lparr>ic_cst := None, ic_token := None\<rparr>) = (Inr u, c3) \<and> ic_cst c3 = Some cst \<and> ic_token c3 = Some token"
    proof -
      let ?rq = "\<lparr>rq_method = ''POST'', rq_path = ''/session'', rq_version = Some 2, rq_auth = None, rq_params = [],
              rq_body = Some (JObj [(''identifier'', JStr (ic_username c2)), (''password'', JStr (ic_password c2))])\<rparr>"
      obtain response where "wi_answer w (length (ic_log c2)) ?rq = Some response" "is_ok (handle_response False response)"
          "rs_cst response = Some cst" "rs_token response = Some token" using login [of ?rq "length (ic_log c2)"] by auto
      then show ?thesis using bucket(2) fresh
        by (auto simp: client_connect_def client_connected_def acquire_bucket_def http_call_def bindS_def no_header_def is_ok_iff)
    qed
    then show ?thesis using dispatch_login [OF s] last by auto
  qed
  have refreshed: "\<exists>r2 c2. refresh_session w c1 = (r2, c2) \<and> ((\<exists>u. r2 = Inr u) \<and> client_connected c2 \<or> (\<exists>e. r2 = Inl e \<and> is_expired e))" if cc: "client_connected c1" for c1
  proof -
    obtain a b where ab: "ic_cst c1 = Some a" "ic_token c1 = Some b" using cc by (auto simp: client_connected_def)
    let ?rq = "\<lparr>rq_method = ''POST'', rq_path = ''/session/refresh-token'', rq_version = Some 1, rq_auth = Some (a, b), rq_params = [],
         rq_body = Some (JObj [(''refreshToken'', JStr [])])\<rparr>"
    obtain response where "wi_answer w (length (ic_log c1)) ?rq = Some response"
        "expired_answer (handle_response True response) \<or> is_ok (handle_response True response)" using refresh [of ?rq "length (ic_log c1)"] by auto
    then show ?thesis using bucket(2) ab
      by (cases "handle_response True response")
        (auto simp: refresh_session_def acquire_bucket_def auth_headers_def http_call_def bindS_def expired_answer_def client_connected_def no_header_def is_expired_def)
  qed
  have second: "fst (dispatch_loop w rq bucket True False c) = Inr j" if cc: "client_connected c" for c
  proof -
    obtain r c1 where s: "send_once w rq bucket c = (r, c1)" "r = Inr j \<or> expired_answer r" using sent [OF cc] by blast
    then show ?thesis using dispatch_done [OF s(1)] logged [OF s(1), of True c1] by (auto simp: expired_answer_def session_lost_def)
  qed
  obtain r c1 where s: "send_once w rq bucket c = (r, c1)" "client_connected c1" "r = Inr j \<or> expired_answer r" using sent [OF conn] by blast
  obtain r2 c2 where f: "refresh_session w c1 = (r2, c2)" "(\<exists>u. r2 = Inr u) \<and> client_connected c2 \<or> (\<exists>e. r2 = Inl e \<and> is_expired e)"
    using refreshed [OF s(2)] by blast
  have "fst (dispatch_loop w rq bucket False False c) = Inr j"
    using s(3) f dispatch_done [OF s(1)] dispatch_refreshed [OF s(1), of _ c2] second [of c2] logged [OF s(1), of False c2]
    by (auto simp: expired_answer_def session_lost_def)
  then show ?thesis using conn by (simp add: ig_request_def)
qed

text \<open>A login whose answer carries empty token headers raises, and still leaves the client taking itself for connected:
  the next \<open>connect\<close> returns at once, without a call.\<close>

theorem empty_tokens_count_as_connected:
  assumes "\<not> client_connected c" "wi_bucket w ''general''"
    and "\<And>n q. wi_answer w n q = Some response" "rs_status response = 200" "\<not> rs_content response"
    and "rs_cst response = Some []" "rs_token response = Some []"
  shows "\<exists>e c'. client_connect w c = (Inl e, c') \<and> client_connected c' \<and> client_connect w c' = (Inr (), c')"
  using assms by (simp add: client_connect_def acquire_bucket_def http_call_def bindS_def handle_response_def no_header_def client_connected_def)

section \<open>Witnesses\<close>

text \<open>A server that lets every session but the newest expire, does not refresh it, and logs in with the tokens of the newest.\<close>

definition igx_response :: "int \<Rightarrow> json \<Rightarrow> (string \<times> string) option \<Rightarrow> http_response" where
  "igx_response status body tokens =
     \<lparr>rs_status = status, rs_content = True, rs_json = Some body, rs_cst = map_option fst tokens, rs_token = map_option snd tokens\<rparr>"

definition igx_expired :: http_response where
  "igx_expired = igx_response 401 (JObj [(''errorCode'', JStr ''error.security.client-token-invalid'')]) None"

definition igx_wire :: ig_wire where
  "igx_wire = \<lparr>wi_answer = (\<lambda>n q. Some (
       if rq_path q = ''/session'' then igx_response 200 (JObj []) (Some (''C2'', ''T2''))
       else if rq_path q = ''/session/refresh-token'' then igx_expired
       else if rq_auth q = Some (''C2'', ''T2'') then igx_response 200 (JObj [(''positions'', JArr [])]) None
       else igx_expired)), wi_bucket = (\<lambda>b. True)\<rparr>"

definition igx_client :: IGClient where
  "igx_client = \<lparr>ic_environment = ''demo'', ic_username = ''u'', ic_password = ''p'', ic_cst = Some ''C1'', ic_token = Some ''T1'', ic_log = []\<rparr>"

definition igx_request :: http_request where
  "igx_request = \<lparr>rq_method = ''GET'', rq_path = ''/positions'', rq_version = Some 2, rq_auth = None, rq_params = [], rq_body = None\<rparr>"

lemma igx_expired_handled: "expired_answer (handle_response True igx_expired)"
  by (simp add: igx_expired_def igx_response_def handle_response_def error_code_of_def classify_error_def jget_def as_str_def
      AUTH_ERROR_CODES_def SESSION_EXPIRED_CODES_def expired_answer_def is_expired_def)

lemma igx_answered: "handle_response b (igx_response 200 body tokens) = Inr body"
  by (simp add: igx_response_def handle_response_def)

theorem ig_session_recovers_witness:
  "fst (ig_request igx_wire igx_request ''general'' igx_client) = Inr (JObj [(''positions'', JArr [])])"
proof (rule ig_session_recovers [where cst = "''C2''" and token = "''T2''"])
  show "client_connected igx_client" by (simp add: igx_client_def client_connected_def)
next
  fix n auth
  show "\<exists>response. wi_answer igx_wire n (igx_request\<lparr>rq_auth := Some auth\<rparr>) = Some response \<and>
        (if auth = (''C2'', ''T2'') then handle_response True response = Inr (JObj [(''positions'', JArr [])])
         else expired_answer (handle_response True response) \<or> handle_response True response = Inr (JObj [(''positions'', JArr [])]))"
    using igx_expired_handled by (simp add: igx_wire_def igx_request_def igx_answered)
next
  fix n and q :: http_request assume "rq_path q = ''/session/refresh-token''"
  then show "\<exists>response. wi_answer igx_wire n q = Some response \<and>
        (expired_answer (handle_response True response) \<or> is_ok (handle_response True response))"
    using igx_expired_handled by (simp add: igx_wire_def)
next
  fix n and q :: http_request assume "rq_path q = ''/session''"
  then show "\<exists>response. wi_answer igx_wire n q = Some response \<and>
        is_ok (handle_response False response) \<and> rs_cst response = Some ''C2'' \<and> rs_token response = Some ''T2''"
    by (simp add: igx_wire_def igx_answered is_ok_def) (simp add: igx_response_def)
qed (simp_all add: igx_wire_def)

end
