(* ===== verification/IGResolver.thy ===== *)
theory IGResolver
  imports IGClient InstrumentCache
begin

text \<open>
  \<open>src/blive/adapters/ig/instrument_resolver.py\<close>: the epic families of IG, the guessed epic of an instrument, its
  confirmation by \<open>GET /markets/{epic}\<close>, the search that replaces a guess IG does not know, and the two caches.
  The resolver shares its client with the broker, so its state contains the client's.
\<close>

section \<open>Epics\<close>

definition epic_family :: "AssetClass \<Rightarrow> string \<Rightarrow> string res" where
  "epic_family asset_class tradability =
     (if tradability = ''spot'' then Inl (InstrumentNotResolvable ''IG resolver does not support tradability=spot instruments'')
      else if asset_class = INDEX then Inr ''IX.D''
      else if asset_class \<in> {EQUITY, ETF} then Inr ''KC.D''
      else if asset_class = FX then Inr ''CS.D''
      else if asset_class = FUTURE then Inr ''IX.D''
      else if asset_class = OPTION then Inl (InstrumentNotResolvable ''IG OPTION resolution not yet supported'')
      else Inl (InstrumentNotResolvable ''IG resolver has no family mapping''))"

definition epic_settlement_segment :: "string \<Rightarrow> string res" where
  "epic_settlement_segment tradability =
     (if tradability = ''cfd'' then Inr ''CASH.IP''
      else if tradability = ''spread_bet'' then Inr ''CASH.IP''
      else Inl (InstrumentNotResolvable ''_epic_settlement_segment unreachable''))"

definition guess_epic :: "Instrument \<Rightarrow> string res" where
  "guess_epic i =
     bindR (epic_family (i_asset_class i) (i_tradability i)) (\<lambda>family.
     bindR (epic_settlement_segment (i_tradability i)) (\<lambda>settlement.
     Inr (family @ ''.'' @ i_symbol i @ ''.'' @ settlement)))"

definition starts_with :: "string \<Rightarrow> string \<Rightarrow> bool" where
  "starts_with s p \<longleftrightarrow> take (length p) s = p"

section \<open>Metadata\<close>

record IGMarketMetadata =
  mm_epic :: string
  mm_name :: string
  mm_currency :: string
  mm_lot_size :: decimal
  mm_min_deal_size :: decimal

definition invalid_body :: exn where
  "invalid_body = IGError IGRequestInvalid None None"

definition first_currency_code :: "json \<Rightarrow> string res" where
  "first_currency_code currencies =
     (case currencies of
        JArr (first_currency # _) \<Rightarrow>
          (case first_currency of
             JObj kvs \<Rightarrow> (case jget kvs ''code'' of JStr code \<Rightarrow> Inr code | _ \<Rightarrow> Inl invalid_body)
           | _ \<Rightarrow> Inl invalid_body)
      | _ \<Rightarrow> Inl invalid_body)"

definition deal_size_of :: "json \<Rightarrow> decimal res" where
  "deal_size_of min_deal_size_obj =
     (case min_deal_size_obj of
        JObj kvs \<Rightarrow> (case map_of kvs ''value'' of None \<Rightarrow> Inl invalid_body | Some v \<Rightarrow> json_decimal v)
      | _ \<Rightarrow> Inl invalid_body)"

definition parse_market_metadata :: "string \<Rightarrow> (string \<times> json) list \<Rightarrow> IGMarketMetadata res" where
  "parse_market_metadata epic body =
     (case (jget body ''instrument'', jget body ''dealingRules'') of
        (JObj instrument, JObj dealing_rules) \<Rightarrow>
          let name = json_str (jget_default instrument ''name'' (JStr []))
          in if name = [] then Inl invalid_body
             else bindR (first_currency_code (jget instrument ''currencies'')) (\<lambda>currency.
                  bindR (json_decimal (jget_default instrument ''lotSize'' (JNum ''1''))) (\<lambda>lot_size.
                  bindR (deal_size_of (jget dealing_rules ''minDealSize'')) (\<lambda>min_deal_size.
                  Inr \<lparr>mm_epic = epic, mm_name = name, mm_currency = currency, mm_lot_size = lot_size,
                       mm_min_deal_size = min_deal_size\<rparr>)))
      | _ \<Rightarrow> Inl invalid_body)"

section \<open>The resolver\<close>

record IGResolver =
  rv_client :: IGClient
  rv_epics :: "string inst_cache"
  rv_meta :: "string \<rightharpoonup> IGMarketMetadata"

definition via_client :: "(IGClient, 'a) sx \<Rightarrow> (IGResolver, 'a) sx" where
  "via_client m s = (case m (rv_client s) of (r, c) \<Rightarrow> (r, s\<lparr>rv_client := c\<rparr>))"

definition fetch_and_cache_metadata :: "ig_wire \<Rightarrow> string \<Rightarrow> (IGResolver, unit) sx" where
  "fetch_and_cache_metadata w epic =
     bindS (via_client (client_get w (''/markets/'' @ epic) 3 [] ''general'')) (\<lambda>body.
     case body of
       JObj kvs \<Rightarrow>
         bindS (liftS (parse_market_metadata epic kvs)) (\<lambda>metadata.
         modS (\<lambda>s. s\<lparr>rv_meta := (rv_meta s)(epic \<mapsto> metadata)\<rparr>))
     | _ \<Rightarrow> raiseS invalid_body)"

text \<open>The elements a \<open>for\<close> loop sees in a JSON value.\<close>

definition json_iter :: "json \<Rightarrow> json list res" where
  "json_iter j =
     (case j of
        JArr xs \<Rightarrow> Inr xs
      | JObj kvs \<Rightarrow> Inr (map (JStr \<circ> fst) kvs)
      | JStr s \<Rightarrow> Inr (map (\<lambda>c. JStr [c]) s)
      | _ \<Rightarrow> Inl (TypeError ''object is not iterable''))"

definition candidate_epic :: "string \<Rightarrow> json \<Rightarrow> string option" where
  "candidate_epic family m =
     (case m of
        JObj kvs \<Rightarrow> (case jget kvs ''epic'' of JStr e \<Rightarrow> (if starts_with e (family @ ''.'') then Some e else None) | _ \<Rightarrow> None)
      | _ \<Rightarrow> None)"

definition pick_epic :: "string list \<Rightarrow> string res" where
  "pick_epic candidates =
     (case candidates of
        [] \<Rightarrow> Inl (InstrumentNotResolvable ''IG search returned no candidates'')
      | [epic] \<Rightarrow> Inr epic
      | _ \<Rightarrow> Inl (InstrumentAmbiguous (length candidates)))"

definition resolve_via_search :: "ig_wire \<Rightarrow> Instrument \<Rightarrow> (IGResolver, string) sx" where
  "resolve_via_search w i =
     bindS (liftS (epic_family (i_asset_class i) (i_tradability i))) (\<lambda>family.
     bindS (via_client (client_get w ''/markets'' 1 [(''searchTerm'', i_symbol i)] ''general'')) (\<lambda>body.
     bindS (liftS (case body of JObj kvs \<Rightarrow> json_iter (jget_default kvs ''markets'' (JArr [])) | _ \<Rightarrow> Inr [])) (\<lambda>candidates_raw.
     bindS (liftS (pick_epic (List.map_filter (candidate_epic family) candidates_raw))) (\<lambda>epic.
     bindS (fetch_and_cache_metadata w epic) (\<lambda>_.
     retS epic)))))"

definition unknown_instrument :: "exn \<Rightarrow> bool" where
  "unknown_instrument e = (case e of IGError IGRequestInvalid code _ \<Rightarrow> code = Some ''error.invalid.instrument'' | _ \<Rightarrow> False)"

definition try_resolve_via_guess_then_search :: "ig_wire \<Rightarrow> Instrument \<Rightarrow> string \<Rightarrow> (IGResolver, string) sx" where
  "try_resolve_via_guess_then_search w i epic_guess s =
     (case fetch_and_cache_metadata w epic_guess s of
        (Inr _, s1) \<Rightarrow> (Inr epic_guess, s1)
      | (Inl e, s1) \<Rightarrow> if unknown_instrument e then resolve_via_search w i s1 else (Inl e, s1))"

definition ig_resolve :: "ig_wire \<Rightarrow> Instrument \<Rightarrow> (IGResolver, string) sx" where
  "ig_resolve w i =
     bindS (getS (\<lambda>s. cache_get (rv_epics s) i)) (\<lambda>cached.
     case cached of
       Some epic \<Rightarrow> retS epic
     | None \<Rightarrow>
         bindS (liftS (guess_epic i)) (\<lambda>epic_guess.
         bindS (try_resolve_via_guess_then_search w i epic_guess) (\<lambda>epic.
         bindS (modS (\<lambda>s. s\<lparr>rv_epics := cache_put i epic (rv_epics s)\<rparr>)) (\<lambda>_.
         retS epic))))"

definition market_metadata :: "ig_wire \<Rightarrow> Instrument \<Rightarrow> (IGResolver, IGMarketMetadata) sx" where
  "market_metadata w i =
     bindS (ig_resolve w i) (\<lambda>epic.
     bindS (getS (\<lambda>s. rv_meta s epic)) (\<lambda>known.
     bindS (if known = None then fetch_and_cache_metadata w epic else retS ()) (\<lambda>_.
     bindS (getS (\<lambda>s. rv_meta s epic)) (\<lambda>found.
     case found of Some metadata \<Rightarrow> retS metadata | None \<Rightarrow> raiseS (KeyError epic)))))"

definition precision_for :: "ig_wire \<Rightarrow> Instrument \<Rightarrow> (IGResolver, decimal) sx" where
  "precision_for w i =
     (if i_tradability i = ''spot'' then retS (dint 1)
      else bindS (market_metadata w i) (\<lambda>meta. retS (mm_min_deal_size meta)))"

definition ig_clear_cache :: "Instrument option \<Rightarrow> IGResolver \<Rightarrow> IGResolver" where
  "ig_clear_cache which s =
     (case which of
        None \<Rightarrow> s\<lparr>rv_epics := [], rv_meta := Map.empty\<rparr>
      | Some i \<Rightarrow>
          (case cache_get (rv_epics s) i of
             None \<Rightarrow> s
           | Some epic \<Rightarrow> s\<lparr>rv_epics := cache_pop i (rv_epics s), rv_meta := (rv_meta s)(epic := None)\<rparr>))"

section \<open>What the caches hold\<close>

text \<open>Every cached epic is of the family of the instrument it is cached for, and metadata is stored under its own epic.\<close>

definition epic_fits :: "Instrument \<Rightarrow> string \<Rightarrow> bool" where
  "epic_fits i epic \<longleftrightarrow> (\<exists>family. epic_family (i_asset_class i) (i_tradability i) = Inr family \<and> starts_with epic (family @ ''.''))"

definition resolver_ok :: "IGResolver \<Rightarrow> bool" where
  "resolver_ok s \<longleftrightarrow> cache_wf (rv_epics s) \<and> (\<forall>i epic. cache_get (rv_epics s) i = Some epic \<longrightarrow> epic_fits i epic) \<and>
     (\<forall>epic m. rv_meta s epic = Some m \<longrightarrow> mm_epic m = epic \<and> mm_name m \<noteq> [])"

lemma cache_get_same: "inst_eq i j \<Longrightarrow> cache_get c i = cache_get c j"
proof (induction c i rule: cache_get.induct)
  case (2 k v c i)
  then show ?case using inst_eq_subst [of i j k] inst_eq_sym [of k i] inst_eq_sym [of k j] by simp
qed simp

lemma epic_fits_eq: "inst_eq i j \<Longrightarrow> epic_fits i e = epic_fits j e"
  by (simp add: epic_fits_def inst_eq_def)

lemma guess_fits: "guess_epic i = Inr e \<Longrightarrow> epic_fits i e"
  by (auto simp: guess_epic_def epic_fits_def starts_with_def)

lemma parse_metadata_epic: "parse_market_metadata epic body = Inr m \<Longrightarrow> mm_epic m = epic \<and> mm_name m \<noteq> []"
  by (auto simp: parse_market_metadata_def Let_def split: json.splits if_splits)

lemma via_client_keeps: "rv_epics (snd (via_client m s)) = rv_epics s" "rv_meta (snd (via_client m s)) = rv_meta s"
  by (simp_all add: via_client_def split: prod.split)

lemma fetch_cases:
  obtains (failed) e c where "fetch_and_cache_metadata w epic s = (Inl e, s\<lparr>rv_client := c\<rparr>)"
  | (stored) m c where "fetch_and_cache_metadata w epic s = (Inr (), s\<lparr>rv_client := c, rv_meta := (rv_meta s)(epic \<mapsto> m)\<rparr>)"
      "mm_epic m = epic" "mm_name m \<noteq> []"
proof -
  obtain r c where g: "client_get w (''/markets/'' @ epic) 3 [] ''general'' (rv_client s) = (r, c)" by (cases "client_get w (''/markets/'' @ epic) 3 [] ''general'' (rv_client s)")
  show thesis
  proof (cases "\<exists>kvs m. r = Inr (JObj kvs) \<and> parse_market_metadata epic kvs = Inr m")
    case True
    then obtain kvs m where m: "r = Inr (JObj kvs)" "parse_market_metadata epic kvs = Inr m" by blast
    then show thesis using stored [of m c] parse_metadata_epic [OF m(2)] g
      by (simp add: fetch_and_cache_metadata_def via_client_def bindS_def)
  next
    case False
    then have "\<exists>e. fetch_and_cache_metadata w epic s = (Inl e, s\<lparr>rv_client := c\<rparr>)"
      using g by (cases r) (auto simp: fetch_and_cache_metadata_def via_client_def bindS_def split: json.split sum.split)
    then show thesis using failed by blast
  qed
qed

lemma candidate_epic_fits: "candidate_epic family m = Some e \<Longrightarrow> starts_with e (family @ ''.'')"
  by (auto simp: candidate_epic_def split: json.splits if_splits)

lemma map_filter_candidates: "List.map_filter (candidate_epic family) xs = e # es \<Longrightarrow> starts_with e (family @ ''.'')"
proof (induction xs)
  case (Cons x xs)
  then show ?case by (cases "candidate_epic family x") (simp_all add: List.map_filter_simps candidate_epic_fits)
qed (simp add: List.map_filter_simps)

lemma pick_epic_Inr: "pick_epic cs = Inr e \<longleftrightarrow> cs = [e]"
  by (auto simp: pick_epic_def split: list.splits)

text \<open>A search or a guess leaves the epics alone, and may add metadata under the epic asked for.\<close>

definition only_meta :: "IGResolver \<Rightarrow> IGResolver \<Rightarrow> bool" where
  "only_meta s s' \<longleftrightarrow> rv_epics s' = rv_epics s \<and>
     (\<forall>e m. rv_meta s' e = Some m \<longrightarrow> rv_meta s e = Some m \<or> mm_epic m = e \<and> mm_name m \<noteq> [])"

lemma only_meta_refl [simp]: "only_meta s s" "only_meta s (s\<lparr>rv_client := c\<rparr>)"
  by (simp_all add: only_meta_def)

lemma only_meta_trans: "only_meta s s1 \<Longrightarrow> only_meta s1 s2 \<Longrightarrow> only_meta s s2"
  unfolding only_meta_def by metis

lemma via_client_only: "via_client m s = (r, s') \<Longrightarrow> only_meta s s'"
  by (auto simp: via_client_def split: prod.splits)

lemma fetch_only: "fetch_and_cache_metadata w epic s = (r, s') \<Longrightarrow> only_meta s s' \<and> (is_ok r \<longrightarrow> rv_meta s' epic \<noteq> None)"
  by (cases rule: fetch_cases [of w epic s]) (auto simp: only_meta_def split: if_splits)

lemma search_only:
  assumes "resolve_via_search w i s = (r, s')"
  shows "only_meta s s' \<and> (\<forall>e. r = Inr e \<longrightarrow> epic_fits i e \<and> rv_meta s' e \<noteq> None)"
proof -
  obtain fam where fam: "epic_family (i_asset_class i) (i_tradability i) = fam" by blast
  obtain rb s1 where b: "via_client (client_get w ''/markets'' 1 [(''searchTerm'', i_symbol i)] ''general'') s = (rb, s1)"
    by (cases "via_client (client_get w ''/markets'' 1 [(''searchTerm'', i_symbol i)] ''general'') s")
  show ?thesis
  proof (cases "\<exists>family body raw e. fam = Inr family \<and> rb = Inr body \<and>
      (case body of JObj kvs \<Rightarrow> json_iter (jget_default kvs ''markets'' (JArr [])) | _ \<Rightarrow> Inr []) = Inr raw \<and>
      pick_epic (List.map_filter (candidate_epic family) raw) = Inr e")
    case True
    then obtain family body raw e where x: "fam = Inr family" "rb = Inr body"
      "(case body of JObj kvs \<Rightarrow> json_iter (jget_default kvs ''markets'' (JArr [])) | _ \<Rightarrow> Inr []) = Inr raw"
      "pick_epic (List.map_filter (candidate_epic family) raw) = Inr e" by blast
    have fits: "epic_fits i e" using x(1,4) fam map_filter_candidates by (auto simp: epic_fits_def pick_epic_Inr)
    obtain rf s2 where f: "fetch_and_cache_metadata w e s1 = (rf, s2)" by (cases "fetch_and_cache_metadata w e s1")
    have "resolve_via_search w i s = bindS (fetch_and_cache_metadata w e) (\<lambda>_. retS e) s1"
      using fam b x by (simp add: resolve_via_search_def bindS_def)
    with assms f fetch_only [OF f] fits only_meta_trans [OF via_client_only [OF b]] show ?thesis
      by (cases rf) (auto simp: bindS_def)
  next
    case False
    then have "(\<exists>e. r = Inl e) \<and> (s' = s \<or> s' = s1)" using assms fam b
      by (auto simp: resolve_via_search_def bindS_def split: sum.splits prod.splits dest: sym [where s = "Inl _"])
    with via_client_only [OF b] show ?thesis by auto
  qed
qed

lemma try_resolve_only:
  assumes "try_resolve_via_guess_then_search w i g s = (r, s')" "epic_fits i g"
  shows "only_meta s s' \<and> (\<forall>e. r = Inr e \<longrightarrow> epic_fits i e \<and> rv_meta s' e \<noteq> None)"
proof -
  obtain rf s1 where f: "fetch_and_cache_metadata w g s = (rf, s1)" by (cases "fetch_and_cache_metadata w g s")
  from assms f fetch_only [OF f] search_only [of w i s1 r s'] only_meta_trans [of s s1 s'] show ?thesis
    by (auto simp: try_resolve_via_guess_then_search_def split: sum.splits if_splits)
qed

lemma resolver_ok_only: "resolver_ok s \<Longrightarrow> only_meta s s' \<Longrightarrow> resolver_ok s'"
  unfolding resolver_ok_def only_meta_def by metis

lemma resolver_ok_put:
  assumes "resolver_ok s" "epic_fits i e"
  shows "resolver_ok (s\<lparr>rv_epics := cache_put i e (rv_epics s)\<rparr>)"
  using assms epic_fits_eq by (auto simp: resolver_ok_def cache_wf_put cache_get_put)

lemma ig_resolve_spec:
  assumes "ig_resolve w i s = (r, s')" "resolver_ok s"
  shows "resolver_ok s' \<and> (case r of
      Inl _ \<Rightarrow> cache_get (rv_epics s) i = None \<and> rv_epics s' = rv_epics s
    | Inr e \<Rightarrow> epic_fits i e \<and> cache_get (rv_epics s') i = Some e \<and>
        (cache_get (rv_epics s) i = None \<longrightarrow> rv_meta s' e \<noteq> None) \<and> (cache_get (rv_epics s) i \<noteq> None \<longrightarrow> s' = s))"
proof (cases "cache_get (rv_epics s) i")
  case (Some e)
  then have "r = Inr e" "s' = s" using assms(1) by (simp_all add: ig_resolve_def)
  with assms(2) Some show ?thesis by (auto simp: resolver_ok_def)
next
  case None
  show ?thesis
  proof (cases "guess_epic i")
    case (Inl e)
    with None assms(1) have "r = Inl e" "s' = s" by (simp_all add: ig_resolve_def)
    with None assms(2) show ?thesis by simp
  next
    case (Inr g)
    obtain rt s1 where t: "try_resolve_via_guess_then_search w i g s = (rt, s1)" by (cases "try_resolve_via_guess_then_search w i g s")
    note o = try_resolve_only [OF t guess_fits [OF Inr]]
    have ok1: "resolver_ok s1" using resolver_ok_only [OF assms(2)] o by blast
    show ?thesis
    proof (cases rt)
      case (Inl e)
      with None Inr t assms(1) ok1 o show ?thesis by (auto simp: ig_resolve_def bindS_def only_meta_def)
    next
      case e: (Inr e)
      then have "r = Inr e" "s' = s1\<lparr>rv_epics := cache_put i e (rv_epics s1)\<rparr>"
        using None Inr t assms(1) by (auto simp: ig_resolve_def bindS_def)
      with resolver_ok_put [OF ok1] o e None show ?thesis by (auto simp: cache_get_put)
    qed
  qed
qed

lemma market_metadata_ok:
  assumes "market_metadata w i s = (r, s')" "resolver_ok s"
  shows "resolver_ok s' \<and> (\<forall>m. r = Inr m \<longrightarrow> (\<exists>e. cache_get (rv_epics s') i = Some e \<and> rv_meta s' e = Some m))"
proof -
  obtain re s1 where e: "ig_resolve w i s = (re, s1)" by (cases "ig_resolve w i s")
  note sp = ig_resolve_spec [OF e assms(2)]
  show ?thesis
  proof (cases re)
    case (Inl x)
    with e sp assms(1) show ?thesis by (auto simp: market_metadata_def bindS_def)
  next
    case (Inr epic)
    show ?thesis
    proof (cases "rv_meta s1 epic")
      case (Some m)
      with Inr e sp assms(1) show ?thesis by (auto simp: market_metadata_def bindS_def)
    next
      case None
      obtain rf s2 where f: "fetch_and_cache_metadata w epic s1 = (rf, s2)" by (cases "fetch_and_cache_metadata w epic s1")
      note o = fetch_only [OF f]
      have ok: "resolver_ok s2" using resolver_ok_only sp o by (auto split: sum.splits)
      show ?thesis
      proof (cases rf)
        case (Inl x)
        with Inr e f None assms(1) ok show ?thesis by (auto simp: market_metadata_def bindS_def)
      next
        case u: (Inr u)
        with o obtain m where m: "rv_meta s2 epic = Some m" by auto
        with u Inr e f None assms(1) have "r = Inr m" "s' = s2" by (auto simp: market_metadata_def bindS_def)
        with ok m o sp Inr show ?thesis by (auto simp: only_meta_def)
      qed
    qed
  qed
qed

lemma clear_ok: "resolver_ok s \<Longrightarrow> resolver_ok (ig_clear_cache which s)"
  by (auto simp: resolver_ok_def ig_clear_cache_def cache_wf_pop cache_get_pop split: option.split if_splits)

section \<open>Properties\<close>

text \<open>C33: what the resolver of IG promises: an epic it returns is in the family of the instrument's asset class, was
  confirmed by IG in this very call or comes from the cache, and is remembered, so that the next resolution of an equal
  instrument returns it without a call; a failure changes no entry, and the caches stay well formed.\<close>

theorem ig_resolution_contract:
  assumes "resolver_ok s" "ig_resolve w i s = (r, s')"
  shows "resolver_ok s' \<and> (case r of
      Inl _ \<Rightarrow> rv_epics s' = rv_epics s
    | Inr epic \<Rightarrow> epic_fits i epic \<and> (cache_get (rv_epics s) i = None \<longrightarrow> rv_meta s' epic \<noteq> None) \<and>
        (\<forall>j. inst_eq i j \<longrightarrow> ig_resolve w j s' = (Inr epic, s')))"
proof -
  note sp = ig_resolve_spec [OF assms(2,1)]
  show ?thesis
  proof (cases r)
    case (Inr epic)
    have "cache_get (rv_epics s') j = Some epic" if "inst_eq i j" for j
      using sp Inr cache_get_same [OF that, of "rv_epics s'"] by simp
    with sp Inr show ?thesis by (simp add: ig_resolve_def)
  qed (use sp in simp)
qed

section \<open>Witness\<close>

definition igx_market :: json where
  "igx_market = JObj [(''instrument'', JObj [(''name'', JStr ''France 40''), (''currencies'', JArr [JObj [(''code'', JStr ''EUR'')]]),
     (''lotSize'', JNum ''1.0'')]), (''dealingRules'', JObj [(''minDealSize'', JObj [(''value'', JNum ''0.5'')])])]"

definition igx_market_wire :: ig_wire where
  "igx_market_wire = \<lparr>wi_answer = (\<lambda>n q. if rq_path q = ''/markets/IX.D.CAC40.CASH.IP'' then Some (igx_response 200 igx_market None) else None),
     wi_bucket = (\<lambda>b. True)\<rparr>"

definition igx_cac :: Instrument where
  "igx_cac = \<lparr>i_symbol = ''CAC40'', i_venue = ''IG'', i_currency = ''EUR'', i_asset_class = INDEX, i_multiplier = dint 1, i_tradability = ''cfd''\<rparr>"

definition igx_resolver :: IGResolver where
  "igx_resolver = \<lparr>rv_client = igx_client, rv_epics = [], rv_meta = Map.empty\<rparr>"

text \<open>The epic family has no segment for the delivery month: a future is sent to the cash contract of its symbol.\<close>

lemma guess_future_is_cash:
  "i_asset_class i = FUTURE \<Longrightarrow> i_tradability i = ''cfd'' \<Longrightarrow> guess_epic i = Inr (''IX.D.'' @ i_symbol i @ ''.CASH.IP'')"
  by (simp add: guess_epic_def epic_family_def epic_settlement_segment_def)

lemma igx_resolves: "fst (ig_resolve igx_market_wire igx_cac igx_resolver) = Inr ''IX.D.CAC40.CASH.IP''"
  by code_simp

theorem ig_resolution_contract_witness:
  "\<exists>s'. ig_resolve igx_market_wire igx_cac igx_resolver = (Inr ''IX.D.CAC40.CASH.IP'', s') \<and> resolver_ok s' \<and>
     rv_meta s' ''IX.D.CAC40.CASH.IP'' \<noteq> None \<and> ig_resolve igx_market_wire igx_cac s' = (Inr ''IX.D.CAC40.CASH.IP'', s')"
proof -
  have ok: "resolver_ok igx_resolver" by (simp add: resolver_ok_def igx_resolver_def)
  obtain s' where r: "ig_resolve igx_market_wire igx_cac igx_resolver = (Inr ''IX.D.CAC40.CASH.IP'', s')"
    using igx_resolves by (metis prod.collapse)
  from ig_resolution_contract [OF ok r] show ?thesis using r by (auto simp: igx_resolver_def)
qed

end
