(* ===== verification/IGBroker.thy ===== *)
theory IGBroker
  imports IGResolver IGTime OrderFsm PriceRules
begin

text \<open>
  \<open>src/blive/adapters/ig/broker.py\<close>: the broker of IG over its client and resolver.  The queue of events is the list
  of what was put; the clock readings of a method, a fresh UUID and \<open>datetime.now\<close> are arguments.  \<open>_IGShapeError\<close> is
  a \<open>ValueError\<close> and \<open>_IGConfirmTimeout\<close> a \<open>RuntimeError\<close>, as their classes are.
\<close>

section \<open>Reading IG's answers\<close>

definition epic_to_symbol :: "string \<Rightarrow> string" where
  "epic_to_symbol epic = (let parts = split_on CHR ''.'' [] epic in if 5 \<le> length parts then parts ! 2 else epic)"

definition epic_to_asset_class :: "string \<Rightarrow> AssetClass" where
  "epic_to_asset_class epic =
     (let family = takeWhile (\<lambda>c. c \<noteq> CHR ''.'') epic
      in if family = ''IX'' then INDEX
         else if family = ''KC'' \<or> family = ''KX'' then EQUITY
         else if family = ''CS'' then FX
         else if family = ''CC'' then FUTURE
         else if family = ''IR'' then FUTURE
         else if family = ''KA'' \<or> family = ''KB'' then OPTION
         else INDEX)"

definition ig_order_type_to_blive :: "string \<Rightarrow> OrderType \<times> bool \<times> bool" where
  "ig_order_type_to_blive ig_order_type =
     (if ig_order_type = ''LIMIT'' then (LMT, True, False)
      else if ig_order_type = ''STOP'' then (STP, False, True)
      else if ig_order_type = ''MARKET'' then (MKT, False, False)
      else (LMT, True, False))"

definition ig_tif_to_blive :: "string \<Rightarrow> TimeInForce" where
  "ig_tif_to_blive ig_tif =
     (if ig_tif = ''GOOD_TILL_CANCELLED'' then GTC
      else if ig_tif = ''EXECUTE_AND_ELIMINATE'' then IOC
      else if ig_tif = ''FILL_OR_KILL'' then FOK
      else if ig_tif = ''GOOD_TILL_DATE'' then GTC
      else GTC)"

text \<open>\<open>int(s, 16)\<close>: an optional sign, an optional \<open>0x\<close>, hexadecimal digits with single underscores between them.\<close>

definition hex_digit_value :: "char \<Rightarrow> int option" where
  "hex_digit_value c =
     (let n = (of_char c :: int)
      in if 48 \<le> n \<and> n \<le> 57 then Some (n - 48) else if 65 \<le> n \<and> n \<le> 70 then Some (n - 55)
         else if 97 \<le> n \<and> n \<le> 102 then Some (n - 87) else None)"

fun hex_run :: "bool \<Rightarrow> int \<Rightarrow> string \<Rightarrow> int option" where
  "hex_run digit acc [] = (if digit then Some acc else None)"
| "hex_run digit acc (c # cs) =
     (if c = CHR ''_'' then (if digit then hex_run False acc cs else None)
      else (case hex_digit_value c of None \<Rightarrow> None | Some v \<Rightarrow> hex_run True (16 * acc + v) cs))"

definition parse_hex :: "string \<Rightarrow> int option" where
  "parse_hex text =
     (case take_sign (py_strip text) of
        (sg, s) \<Rightarrow>
          (case s of
             a # x # r \<Rightarrow>
               if a = CHR ''0'' \<and> (x = CHR ''x'' \<or> x = CHR ''X'')
               then map_option ((*) sg) (hex_run False 0 (case r of u # r' \<Rightarrow> if u = CHR ''_'' then r' else r | [] \<Rightarrow> []))
               else map_option ((*) sg) (hex_run False 0 s)
           | _ \<Rightarrow> map_option ((*) sg) (hex_run False 0 s)))"

definition hex_like :: "string \<Rightarrow> bool" where
  "hex_like s \<longleftrightarrow> s \<noteq> [] \<and> parse_hex s \<noteq> None"

definition deal_uuid :: "string \<Rightarrow> uuid \<Rightarrow> uuid" where
  "deal_uuid deal_id fresh =
     (if hex_like deal_id then (case parse_hex deal_id of Some n \<Rightarrow> nat (n mod 2 ^ 128) | None \<Rightarrow> fresh) else fresh)"

definition required_decimal :: "(string \<times> json) list \<Rightarrow> string \<Rightarrow> decimal res" where
  "required_decimal obj key =
     (case jget obj key of JNull \<Rightarrow> Inl (ValueError (''IG entry missing '' @ key)) | v \<Rightarrow> json_decimal v)"

definition created_text :: "(string \<times> json) list \<Rightarrow> string option" where
  "created_text obj =
     (case json_or (jget obj ''createdDate'') (jget obj ''createdDateUTC'') of
        JStr s \<Rightarrow> (if s = [] then None else Some s)
      | _ \<Rightarrow> None)"

definition created_time :: "(string \<times> json) list \<Rightarrow> datetime option" where
  "created_time obj =
     (case created_text obj of
        None \<Rightarrow> None
      | Some s \<Rightarrow> (case parse_ig_timestamp s of Inl _ \<Rightarrow> None | Inr d \<Rightarrow> Some d))"

definition str_field :: "(string \<times> json) list \<Rightarrow> string \<Rightarrow> string" where
  "str_field obj key = json_str (jget_default obj key (JStr []))"

definition parse_position :: "(string \<times> json) list \<Rightarrow> (string \<times> json) list \<Rightarrow> string \<Rightarrow> datetime \<Rightarrow> Position res" where
  "parse_position position_obj market_obj strategy_id updated_at =
     (let epic = str_field market_obj ''epic'';
          direction = str_field position_obj ''direction''
      in if epic = [] then Inl (ValueError ''IG position market entry missing epic'')
         else if direction \<noteq> ''BUY'' \<and> direction \<noteq> ''SELL'' then Inl (ValueError ''IG position direction must be BUY/SELL'')
         else bindR (required_decimal position_obj ''size'') (\<lambda>size.
         let signed_qty = (if direction = ''BUY'' then size else dneg size) in
         bindR (required_decimal position_obj ''level'') (\<lambda>avg_cost.
         let currency = str_field position_obj ''currency'' in
         if currency = [] then Inl (ValueError ''IG position missing currency'')
         else
           let opened_at = (case created_time position_obj of
                 Some d \<Rightarrow> Some d
               | None \<Rightarrow> if dec_eq signed_qty dzero then None else Some updated_at)
           in bindR (mk_Instrument \<lparr>i_symbol = epic_to_symbol epic, i_venue = ''IG'', i_currency = currency,
                       i_asset_class = epic_to_asset_class epic, i_multiplier = dint 1, i_tradability = ''cfd''\<rparr>) (\<lambda>instrument.
              mk_Position \<lparr>p_instrument = instrument, p_strategy = strategy_id, p_quantity = signed_qty, p_avg_cost = avg_cost,
                 p_currency = currency, p_opened = opened_at, p_updated = updated_at\<rparr>))))"

definition decimal_field :: "(string \<times> json) list \<Rightarrow> string \<Rightarrow> decimal res" where
  "decimal_field obj key = json_decimal (jget_default obj key (JStr ''0''))"

definition parse_account_snapshot :: "(string \<times> json) list \<Rightarrow> datetime \<Rightarrow> AccountSnapshot res" where
  "parse_account_snapshot account_obj taken_at =
     (case jget account_obj ''balance'' of
        JObj balance \<Rightarrow>
          let base_currency = str_field account_obj ''currency''
          in if base_currency = [] then Inl (ValueError ''IG account entry missing currency'')
             else bindR (decimal_field balance ''available'') (\<lambda>available.
                  bindR (decimal_field balance ''balance'') (\<lambda>balance_amount.
                  bindR (decimal_field balance ''profitLoss'') (\<lambda>profit_loss.
                  bindR (decimal_field balance ''deposit'') (\<lambda>deposit.
                  mk_AccountSnapshot
                    \<lparr>a_equity = dadd balance_amount profit_loss, a_cash = [(base_currency, available)], a_buying_power = available,
                     a_gross = dzero, a_net = dzero, a_leverage = dzero, a_margin = deposit, a_base = base_currency,
                     a_taken = taken_at\<rparr>))))
      | _ \<Rightarrow> Inl (ValueError ''IG account entry missing balance object''))"

text \<open>The currency of a working order: \<open>currencies[0].get("code", "EUR")\<close>, which needs the first element to be a dict.\<close>

definition market_currency :: "(string \<times> json) list \<Rightarrow> string res" where
  "market_currency market_obj =
     (case jget market_obj ''currencies'' of
        JArr (c # _) \<Rightarrow>
          (case c of
             JObj kvs \<Rightarrow> Inr (json_str (jget_default kvs ''code'' (JStr ''EUR'')))
           | _ \<Rightarrow> Inl (AttributeError ''object has no attribute get''))
      | _ \<Rightarrow> Inr ''EUR'')"

definition parse_working_order :: "(string \<times> json) list \<Rightarrow> (string \<times> json) list \<Rightarrow> string \<Rightarrow> uuid \<Rightarrow> datetime \<Rightarrow> Order res" where
  "parse_working_order order_obj market_obj strategy_id fresh now =
     (let epic = str_field market_obj ''epic'';
          direction = str_field order_obj ''direction''
      in if epic = [] then Inl (ValueError ''IG working order market entry missing epic'')
         else if direction \<noteq> ''BUY'' \<and> direction \<noteq> ''SELL'' then Inl (ValueError ''IG working order direction must be BUY/SELL'')
         else bindR (required_decimal order_obj ''orderSize'') (\<lambda>quantity.
              bindR (required_decimal order_obj ''orderLevel'') (\<lambda>price.
              let order_type_raw = str_field order_obj ''orderType'';
                  (blive_order_type, has_limit, has_stop) = ig_order_type_to_blive order_type_raw;
                  tif_raw = json_str (jget_default order_obj ''timeInForce'' (JStr ''GOOD_TILL_CANCELLED''));
                  created_at = (case created_time order_obj of Some d \<Rightarrow> d | None \<Rightarrow> now);
                  deal_id = str_field order_obj ''dealId'';
                  deal_reference = str_field order_obj ''dealReference''
              in bindR (market_currency market_obj) (\<lambda>currency.
                 bindR (mk_Instrument \<lparr>i_symbol = epic_to_symbol epic, i_venue = ''IG'', i_currency = currency,
                          i_asset_class = epic_to_asset_class epic, i_multiplier = dint 1, i_tradability = ''cfd''\<rparr>) (\<lambda>instrument.
                 mk_Order \<lparr>o_id = deal_uuid deal_id fresh, o_strategy = strategy_id, o_instrument = instrument,
                    o_side = (if direction = ''BUY'' then BUY else SELL), o_quantity = quantity, o_type = blive_order_type,
                    o_tif = ig_tif_to_blive tif_raw, o_limit = (if has_limit then Some price else None),
                    o_stop = (if has_stop then Some price else None), o_parent = None,
                    o_tags = [(''ig_deal_id'', deal_id), (''ig_deal_reference'', deal_reference), (''ig_order_type_raw'', order_type_raw)],
                    o_created = created_at\<rparr>)))))"

definition parse_fill_from_confirm :: "Order \<Rightarrow> string \<Rightarrow> (string \<times> json) list \<Rightarrow> datetime \<Rightarrow> Fill res" where
  "parse_fill_from_confirm order deal_id confirm time_utc =
     bindR (required_decimal confirm ''size'') (\<lambda>quantity.
     if quantity \<le> dzero then Inl (ValueError ''IG /confirms size must be > 0'')
     else bindR (required_decimal confirm ''level'') (\<lambda>price.
          if price \<le> dzero then Inl (ValueError ''IG /confirms level must be > 0'')
          else mk_Fill \<lparr>f_order = o_id order, f_venue_order = deal_id, f_exec = deal_id, f_instrument = o_instrument order,
                 f_side = o_side order, f_quantity = quantity, f_price = price, f_commission = dzero,
                 f_currency = i_currency (o_instrument order), f_time = time_utc\<rparr>))"

text \<open>What \<open>except (KeyError, ValueError, TypeError)\<close> catches.\<close>

fun parse_failure :: "exn \<Rightarrow> bool" where
  "parse_failure (KeyError _) = True"
| "parse_failure (ValueError _) = True"
| "parse_failure (TypeError _) = True"
| "parse_failure _ = False"

text \<open>The loops of \<open>positions()\<close> and \<open>open_orders()\<close>: an entry that is not an object of two objects is passed over.\<close>

fun parse_entries :: "(nat \<Rightarrow> (string \<times> json) list \<Rightarrow> (string \<times> json) list \<Rightarrow> 'a res) \<Rightarrow> string \<Rightarrow> string \<Rightarrow> nat \<Rightarrow> json list \<Rightarrow> 'a list res" where
  "parse_entries f key1 key2 n [] = Inr []"
| "parse_entries f key1 key2 n (entry # entries) =
     (case entry of
        JObj kvs \<Rightarrow>
          (case (jget kvs key1, jget kvs key2) of
             (JObj a, JObj b) \<Rightarrow>
               (case f n a b of
                  Inl e \<Rightarrow> if parse_failure e then parse_entries f key1 key2 (Suc n) entries else Inl e
                | Inr y \<Rightarrow> bindR (parse_entries f key1 key2 (Suc n) entries) (\<lambda>ys. Inr (y # ys)))
           | _ \<Rightarrow> parse_entries f key1 key2 (Suc n) entries)
      | _ \<Rightarrow> parse_entries f key1 key2 (Suc n) entries)"

definition entries_of :: "json \<Rightarrow> string \<Rightarrow> json list" where
  "entries_of body key =
     (case body of JObj kvs \<Rightarrow> (case jget_default kvs key (JArr []) of JArr xs \<Rightarrow> xs | _ \<Rightarrow> []) | _ \<Rightarrow> [])"

section \<open>The broker\<close>

record IGBroker =
  gb_resolver :: IGResolver
  gb_environment :: string
  gb_account :: string
  gb_attempts :: int
  gb_connected :: bool
  gb_events :: "BrokerEvent list"
  gb_deals :: "string \<rightharpoonup> uuid"

definition ig_init :: "IGResolver \<Rightarrow> string \<Rightarrow> string \<Rightarrow> int \<Rightarrow> IGBroker" where
  "ig_init resolver environment account attempts =
     \<lparr>gb_resolver = resolver, gb_environment = environment, gb_account = account, gb_attempts = attempts, gb_connected = False,
      gb_events = [], gb_deals = Map.empty\<rparr>"

definition via_resolver :: "(IGResolver, 'a) sx \<Rightarrow> (IGBroker, 'a) sx" where
  "via_resolver m b = (case m (gb_resolver b) of (r, s) \<Rightarrow> (r, b\<lparr>gb_resolver := s\<rparr>))"

abbreviation ig_client :: "(IGClient, 'a) sx \<Rightarrow> (IGBroker, 'a) sx" where
  "ig_client m \<equiv> via_resolver (via_client m)"

definition ig_put :: "BrokerEvent \<Rightarrow> IGBroker \<Rightarrow> IGBroker" where
  "ig_put e b = b\<lparr>gb_events := gb_events b @ [e]\<rparr>"

definition ig_put_order :: "uuid \<Rightarrow> string \<Rightarrow> OrderEventKind \<Rightarrow> string option \<Rightarrow> Fill option \<Rightarrow> datetime \<Rightarrow> (IGBroker, unit) sx" where
  "ig_put_order cid venue kind reason fill now =
     bindS (liftS (mk_OrderEvent \<lparr>e_order = cid, e_venue_order = Some venue, e_kind = kind, e_reason = reason,
         e_time = now, e_fill = fill\<rparr>)) (\<lambda>e. modS (ig_put (BE_Order e)))"

definition ig_put_connection :: "bool \<Rightarrow> string \<Rightarrow> datetime \<Rightarrow> (IGBroker, unit) sx" where
  "ig_put_connection conn detail now =
     bindS (liftS (mk_ConnectionStatus \<lparr>c_connected = conn, c_detail = detail, c_time = now\<rparr>))
       (\<lambda>s. modS (ig_put (BE_Connection s)))"

definition ig_strategy_id :: "IGBroker \<Rightarrow> string" where
  "ig_strategy_id b = ''ig_'' @ gb_account b"

definition ig_require_connected :: "(IGBroker, unit) sx" where
  "ig_require_connected =
     bindS (getS gb_connected) (\<lambda>c.
     if c then retS () else raiseS (RuntimeError ''IGBroker.<read> called before connect()''))"

definition ig_connect :: "ig_wire \<Rightarrow> datetime \<Rightarrow> (IGBroker, unit) sx" where
  "ig_connect w now =
     bindS (getS gb_connected) (\<lambda>c.
     if c then retS ()
     else bindS (ig_client (client_connect w)) (\<lambda>_.
          bindS (getS gb_account) (\<lambda>account.
          bindS (ig_client (client_put w ''/session'' 1 (JObj [(''accountId'', JStr account)]) ''general'')) (\<lambda>_.
          bindS (modS (\<lambda>b. b\<lparr>gb_connected := True\<rparr>)) (\<lambda>_.
          bindS (getS (\<lambda>b. ''IG broker connected ('' @ gb_environment b @ '' account '' @ gb_account b @ '')'')) (\<lambda>detail.
          ig_put_connection True detail now))))))"

definition ig_disconnect :: "ig_wire \<Rightarrow> datetime \<Rightarrow> (IGBroker, unit) sx" where
  "ig_disconnect w now =
     bindS (getS gb_connected) (\<lambda>c.
     if \<not> c then retS ()
     else bindS (ig_client (client_disconnect w)) (\<lambda>_.
          bindS (modS (\<lambda>b. b\<lparr>gb_connected := False\<rparr>)) (\<lambda>_.
          bindS (getS (\<lambda>b. ''IG broker disconnected (account '' @ gb_account b @ '')'')) (\<lambda>detail.
          ig_put_connection False detail now))))"

section \<open>Reads\<close>

definition ig_positions :: "ig_wire \<Rightarrow> datetime \<Rightarrow> (IGBroker, Position list) sx" where
  "ig_positions w now =
     bindS ig_require_connected (\<lambda>_.
     bindS (ig_client (client_get w ''/positions'' 2 [] ''general'')) (\<lambda>body.
     bindS (getS ig_strategy_id) (\<lambda>sid.
     liftS (parse_entries (\<lambda>_ position_obj market_obj. parse_position position_obj market_obj sid now)
       ''position'' ''market'' 0 (entries_of body ''positions'')))))"

fun find_account :: "string \<Rightarrow> json list \<Rightarrow> (string \<times> json) list option" where
  "find_account account [] = None"
| "find_account account (acc # accounts) =
     (case acc of
        JObj kvs \<Rightarrow> if jget kvs ''accountId'' = JStr account then Some kvs else find_account account accounts
      | _ \<Rightarrow> find_account account accounts)"

definition account_of :: "string \<Rightarrow> json \<Rightarrow> (string \<times> json) list res" where
  "account_of account body =
     (case body of
        JObj kvs \<Rightarrow>
          (case jget kvs ''accounts'' of
             JArr (a # as) \<Rightarrow>
               (case find_account account (a # as) of
                  None \<Rightarrow> Inl (ValueError ''IG account not found in /accounts response'')
                | Some acc \<Rightarrow> Inr acc)
           | _ \<Rightarrow> Inl (ValueError ''IG /accounts returned no accounts''))
      | _ \<Rightarrow> Inl (ValueError ''IG /accounts returned non-dict''))"

definition ig_account_snapshot :: "ig_wire \<Rightarrow> datetime \<Rightarrow> (IGBroker, AccountSnapshot) sx" where
  "ig_account_snapshot w now =
     bindS ig_require_connected (\<lambda>_.
     bindS (ig_client (client_get w ''/accounts'' 1 [] ''general'')) (\<lambda>body.
     bindS (getS gb_account) (\<lambda>account.
     liftS (bindR (account_of account body) (\<lambda>acc. parse_account_snapshot acc now)))))"

definition ig_open_orders :: "ig_wire \<Rightarrow> (nat \<Rightarrow> uuid) \<Rightarrow> (nat \<Rightarrow> datetime) \<Rightarrow> (IGBroker, Order list) sx" where
  "ig_open_orders w fresh now =
     bindS ig_require_connected (\<lambda>_.
     bindS (ig_client (client_get w ''/workingorders'' 2 [] ''general'')) (\<lambda>body.
     bindS (getS ig_strategy_id) (\<lambda>sid.
     liftS (parse_entries (\<lambda>n order_obj market_obj. parse_working_order order_obj market_obj sid (fresh n) (now n))
       ''workingOrderData'' ''marketData'' 0 (entries_of body ''workingOrders'')))))"

section \<open>Orders\<close>

fun ig_side_value :: "OrderSide \<Rightarrow> string" where
  "ig_side_value BUY = ''BUY''"
| "ig_side_value SELL = ''SELL''"

definition otc_body :: "Order \<Rightarrow> string \<Rightarrow> json" where
  "otc_body order epic =
     JObj [(''direction'', JStr (ig_side_value (o_side order))), (''epic'', JStr epic), (''expiry'', JStr ''-''),
           (''size'', JStr (show_decimal (o_quantity order))), (''currencyCode'', JStr (i_currency (o_instrument order))),
           (''orderType'', JStr ''MARKET''), (''guaranteedStop'', JBool False), (''forceOpen'', JBool True)]"

definition deal_reference_of :: "json \<Rightarrow> string res" where
  "deal_reference_of response =
     (case response of
        JObj kvs \<Rightarrow>
          (case jget kvs ''dealReference'' of
             JStr s \<Rightarrow> (if s = [] then Inl (ValueError ''IG /positions/otc response missing dealReference'') else Inr s)
           | _ \<Rightarrow> Inl (ValueError ''IG /positions/otc response missing dealReference''))
      | _ \<Rightarrow> Inl (ValueError ''IG /positions/otc returned non-dict body''))"

definition final_confirm :: "json \<Rightarrow> (string \<times> json) list option" where
  "final_confirm payload =
     (case payload of
        JObj kvs \<Rightarrow> (if jget kvs ''dealStatus'' \<in> {JStr ''ACCEPTED'', JStr ''REJECTED''} then Some kvs else None)
      | _ \<Rightarrow> None)"

definition invalid_request :: "exn \<Rightarrow> bool" where
  "invalid_request e = (case e of IGError IGRequestInvalid _ _ \<Rightarrow> True | _ \<Rightarrow> False)"

text \<open>\<open>n\<close> attempts are left; \<open>bound\<close> says whether the variable \<open>payload\<close> of the final message has a value.\<close>

fun poll_confirm :: "ig_wire \<Rightarrow> string \<Rightarrow> nat \<Rightarrow> bool \<Rightarrow> (IGClient, (string \<times> json) list) sx" where
  "poll_confirm w deal_reference 0 bound c =
     (Inl (if bound then RuntimeError ''IG /confirms did not resolve'' else UnboundLocalError ''payload''), c)"
| "poll_confirm w deal_reference (Suc n) bound c =
     (case client_get w (''/confirms/'' @ deal_reference) 1 [] ''general'' c of
        (Inl e, c1) \<Rightarrow> if invalid_request e then poll_confirm w deal_reference n True c1 else (Inl e, c1)
      | (Inr payload, c1) \<Rightarrow>
          (case final_confirm payload of
             Some confirm \<Rightarrow> (Inr confirm, c1)
           | None \<Rightarrow> poll_confirm w deal_reference n True c1))"

definition reject_reason :: "(string \<times> json) list \<Rightarrow> string" where
  "reject_reason confirm =
     json_str (json_or (json_or (jget confirm ''reason'') (jget confirm ''reasonCode'')) (JStr ''REJECTED_NO_REASON''))"

definition confirm_deal_id :: "(string \<times> json) list \<Rightarrow> string \<Rightarrow> string" where
  "confirm_deal_id confirm deal_reference =
     (let d = str_field confirm ''dealId'' in if d = [] then deal_reference else d)"

definition emit_terminal_events :: "Order \<Rightarrow> string \<Rightarrow> (string \<times> json) list \<Rightarrow> datetime \<Rightarrow> (IGBroker, unit) sx" where
  "emit_terminal_events order deal_reference confirm now =
     (let deal_id = confirm_deal_id confirm deal_reference
      in if jget confirm ''dealStatus'' = JStr ''REJECTED''
         then ig_put_order (o_id order) deal_id EV_REJECTED (Some (reject_reason confirm)) None now
         else bindS (ig_put_order (o_id order) deal_id EV_ACCEPTED None None now) (\<lambda>_.
              case parse_fill_from_confirm order deal_id confirm now of
                Inl e \<Rightarrow> if parse_failure e then retS () else raiseS e
              | Inr fill \<Rightarrow> ig_put_order (o_id order) deal_id EV_FILLED None (Some fill) now))"

text \<open>\<open>submit\<close>, from the POST on; the clock is read once before the poll and once after it, and the bound \<open>n\<close> of the poll
  is fixed with the broker.\<close>

definition ig_place_and_wait :: "ig_wire \<Rightarrow> Order \<Rightarrow> datetime \<Rightarrow> datetime \<Rightarrow> nat \<Rightarrow> string \<Rightarrow> (IGBroker, uuid) sx" where
  "ig_place_and_wait w order now1 now2 n epic =
     bindS (ig_client (client_post w ''/positions/otc'' 2 (otc_body order epic) ''trading'')) (\<lambda>response.
     bindS (liftS (deal_reference_of response)) (\<lambda>deal_reference.
     bindS (modS (\<lambda>b. b\<lparr>gb_deals := (gb_deals b)(deal_reference \<mapsto> o_id order)\<rparr>)) (\<lambda>_.
     bindS (ig_put_order (o_id order) deal_reference EV_SUBMITTED None None now1) (\<lambda>_.
     bindS (ig_client (poll_confirm w deal_reference n False)) (\<lambda>confirm.
     bindS (emit_terminal_events order deal_reference confirm now2) (\<lambda>_.
     retS (o_id order)))))))"

definition ig_submit :: "ig_wire \<Rightarrow> Order \<Rightarrow> datetime \<Rightarrow> datetime \<Rightarrow> (IGBroker, uuid) sx" where
  "ig_submit w order now1 now2 =
     bindS ig_require_connected (\<lambda>_.
     bindS (getS gb_attempts) (\<lambda>attempts.
     if o_type order \<noteq> MKT then raiseS (NotImplementedError ''IGBroker.submit currently supports OrderType.MKT only'')
     else bindS (via_resolver (ig_resolve w (o_instrument order))) (\<lambda>epic.
          ig_place_and_wait w order now1 now2 (nat attempts) epic)))"

definition ig_cancel :: "uuid \<Rightarrow> (IGBroker, unit) sx" where
  "ig_cancel cid = raiseS (NotImplementedError ''IGBroker.cancel'')"

definition ig_replace :: "uuid \<Rightarrow> OrderUpdate \<Rightarrow> (IGBroker, unit) sx" where
  "ig_replace cid new = raiseS (NotImplementedError ''IGBroker.replace'')"

section \<open>Calls\<close>

text \<open>A kind of requests that neither the session nor a read makes.\<close>

definition writes_only :: "(http_request \<Rightarrow> bool) \<Rightarrow> bool" where
  "writes_only P \<longleftrightarrow> not_session P \<and> (\<forall>q. P q \<longrightarrow> rq_method q \<noteq> ''GET'')"

definition ran :: "('s \<Rightarrow> IGClient) \<Rightarrow> ig_wire \<Rightarrow> (http_request \<Rightarrow> bool) \<Rightarrow> nat \<Rightarrow> nat \<Rightarrow> 's \<Rightarrow> 's \<Rightarrow> bool" where
  "ran vw w P n k s s' = calls_within w P n k (vw s) (vw s')"

definition runs :: "('s \<Rightarrow> IGClient) \<Rightarrow> ig_wire \<Rightarrow> (http_request \<Rightarrow> bool) \<Rightarrow> nat \<Rightarrow> nat \<Rightarrow> ('s, 'a) sx \<Rightarrow> bool" where
  "runs vw w P n k m \<longleftrightarrow> (\<forall>s. ran vw w P n k s (snd (m s)))"

lemma ran_refl [simp]: "ran vw w P n k s s"
  by (simp add: ran_def)

lemma ran_trans: "ran vw w P m j s s1 \<Longrightarrow> ran vw w P n k s1 s2 \<Longrightarrow> m + n \<le> m' \<Longrightarrow> j + k \<le> k' \<Longrightarrow> ran vw w P m' k' s s2"
  unfolding ran_def by (rule calls_within_trans)

lemma ran_mono: "ran vw w P m j s s' \<Longrightarrow> m \<le> n \<Longrightarrow> j \<le> k \<Longrightarrow> ran vw w P n k s s'"
  unfolding ran_def by (rule calls_within_mono)

lemma runs_silent [simp]: "runs vw w P n k (retS x)" "runs vw w P n k (raiseS e)" "runs vw w P n k (liftS r)" "runs vw w P n k (getS g)"
  "(\<And>s. vw (f s) = vw s) \<Longrightarrow> runs vw w P n k (modS f)"
  by (simp_all add: runs_def) (simp add: ran_def)

lemma runs_bind:
  assumes "runs vw w P a i m" "\<And>x. runs vw w P b j (f x)" "a + b \<le> n" "i + j \<le> k"
  shows "runs vw w P n k (bindS m f)"
  unfolding runs_def
proof
  fix s
  obtain r s1 where m: "m s = (r, s1)" by (cases "m s")
  have 1: "ran vw w P a i s s1" using assms(1) m unfolding runs_def by (metis snd_conv)
  show "ran vw w P n k s (snd (bindS m f s))"
  proof (cases r)
    case (Inl e)
    with m 1 assms(3,4) show ?thesis by (simp add: bindS_def ran_mono)
  next
    case (Inr x)
    have "ran vw w P b j s1 (snd (f x s1))" using assms(2) unfolding runs_def by blast
    with Inr m 1 assms(3,4) show ?thesis by (simp add: bindS_def ran_trans)
  qed
qed

text \<open>A step that makes no call before or after another.\<close>

lemma runs_before: "runs vw w P 0 0 m \<Longrightarrow> (\<And>x. runs vw w P n k (f x)) \<Longrightarrow> runs vw w P n k (bindS m f)"
  by (rule runs_bind [where a = 0 and b = n and i = 0 and j = k]) simp_all

lemma runs_after: "runs vw w P n k m \<Longrightarrow> (\<And>x. runs vw w P 0 0 (f x)) \<Longrightarrow> runs vw w P n k (bindS m f)"
  by (rule runs_bind [where a = n and b = 0 and i = k and j = 0]) simp_all

lemma get_within:
  assumes "writes_only P" "client_get w path v ps bucket c = (r, c')"
  shows "calls_within w P 5 0 c c'"
proof (rule ig_request_within(1) [OF _ _ assms(2) [unfolded client_get_def]])
  fix auth
  let ?q = "\<lparr>rq_method = ''GET'', rq_path = path, rq_version = Some v, rq_auth = None, rq_params = ps, rq_body = None\<rparr>\<lparr>rq_auth := Some auth\<rparr>"
  assume "P ?q"
  with assms(1) have "rq_method ?q \<noteq> ''GET''" unfolding writes_only_def by blast
  then show "1 \<le> (0::nat)" by simp
qed (use assms(1) in \<open>simp add: writes_only_def\<close>)

lemma runs_get: "writes_only P \<Longrightarrow> runs rv_client w P 5 0 (via_client (client_get w path v ps bucket))"
  by (auto simp: runs_def ran_def via_client_def intro: get_within split: prod.split)

lemma runs_fetch: "writes_only P \<Longrightarrow> runs rv_client w P 5 0 (fetch_and_cache_metadata w epic)"
  unfolding fetch_and_cache_metadata_def
  by (rule runs_after, erule runs_get) (auto intro!: runs_before split: json.split)

lemma runs_search: "writes_only P \<Longrightarrow> runs rv_client w P 10 0 (resolve_via_search w i)"
  unfolding resolve_via_search_def
  by (intro runs_before [OF runs_silent(3)] runs_bind [where a = 5 and b = 5 and i = 0 and j = 0] runs_get
      runs_after [OF runs_fetch] runs_silent) simp_all

lemma runs_try:
  assumes "writes_only P"
  shows "runs rv_client w P 15 0 (try_resolve_via_guess_then_search w i g)"
  unfolding runs_def
proof
  fix s
  obtain r s1 where f: "fetch_and_cache_metadata w g s = (r, s1)" by (cases "fetch_and_cache_metadata w g s")
  have 1: "ran rv_client w P 5 0 s s1" using runs_fetch [OF assms, of w g] f unfolding runs_def by (metis snd_conv)
  have 2: "ran rv_client w P 10 0 s1 (snd (resolve_via_search w i s1))" using runs_search [OF assms, of w i] unfolding runs_def by blast
  have "ran rv_client w P 15 0 s s1" "ran rv_client w P 15 0 s (snd (resolve_via_search w i s1))"
    by (rule ran_mono [OF 1], simp, simp, rule ran_trans [OF 1 2], simp, simp)
  with f show "ran rv_client w P 15 0 s (snd (try_resolve_via_guess_then_search w i g s))"
    by (simp add: try_resolve_via_guess_then_search_def split: sum.split)
qed

lemma runs_resolve: "writes_only P \<Longrightarrow> runs rv_client w P 15 0 (ig_resolve w i)"
  unfolding ig_resolve_def
  by (rule runs_before, simp) (auto intro!: runs_before runs_after [OF runs_try] split: option.split)

lemma poll_within:
  assumes "writes_only P"
  shows "calls_within w P (5 * n) 0 c (snd (poll_confirm w ref n b c))"
proof (induction n arbitrary: b c)
  case (Suc n)
  obtain r c1 where g: "client_get w (''/confirms/'' @ ref) 1 [] ''general'' c = (r, c1)"
    by (cases "client_get w (''/confirms/'' @ ref) 1 [] ''general'' c")
  note c1 = get_within [OF assms g]
  have "calls_within w P (5 * Suc n) 0 c c1" "calls_within w P (5 * Suc n) 0 c (snd (poll_confirm w ref n True c1))"
    by (rule calls_within_mono [OF c1], simp, simp, rule calls_within_trans [OF c1 Suc], simp, simp)
  with g show ?case by (auto split: sum.split option.split)
qed simp

lemma runs_poll: "writes_only P \<Longrightarrow> runs rv_client w P (5 * n) 0 (via_client (poll_confirm w ref n b))"
  using poll_within [of P w n _ ref b] by (auto simp: runs_def ran_def via_client_def split: prod.split) (metis snd_conv)

lemma runs_post:
  assumes "not_session P" "\<And>auth. P (\<lparr>rq_method = ''POST'', rq_path = path, rq_version = Some v, rq_auth = Some auth, rq_params = [], rq_body = Some body\<rparr>) \<Longrightarrow> 1 \<le> k"
  shows "runs rv_client w P 5 k (via_client (client_post w path v body bucket))"
proof -
  have "calls_within w P 5 k c c'" if "client_post w path v body bucket c = (r, c')" for c r c'
    by (rule ig_request_within(1) [OF assms(1) _ that [unfolded client_post_def]]) (use assms(2) in simp)
  then show ?thesis by (auto simp: runs_def ran_def via_client_def split: prod.split)
qed

definition broker_client :: "IGBroker \<Rightarrow> IGClient" where
  "broker_client b = rv_client (gb_resolver b)"

lemma broker_client_keeps [simp]: "broker_client (b\<lparr>gb_deals := d\<rparr>) = broker_client b" "broker_client (b\<lparr>gb_events := es\<rparr>) = broker_client b"
  by (simp_all add: broker_client_def)

lemma runs_via_resolver: "runs rv_client w P n k m \<Longrightarrow> runs broker_client w P n k (via_resolver m)"
  by (auto simp: runs_def ran_def via_resolver_def broker_client_def split: prod.split) (metis snd_conv)

lemma runs_put_order: "runs broker_client w P 0 0 (ig_put_order cid venue kind reason fill now)"
  unfolding ig_put_order_def by (intro runs_before) (simp_all add: ig_put_def)

lemma runs_emit: "runs broker_client w P 0 0 (emit_terminal_events order ref confirm now)"
  by (auto simp: emit_terminal_events_def Let_def intro: runs_put_order intro!: runs_before [OF runs_put_order] split: sum.split)

text \<open>The order in flight: at most one request to open a position takes effect, with the order's own body.\<close>

definition places :: "http_request \<Rightarrow> bool" where
  "places q \<longleftrightarrow> rq_method q = ''POST'' \<and> rq_path q = ''/positions/otc''"

lemma writes_only_places: "writes_only (\<lambda>q. places q \<and> Q q)" "not_session (\<lambda>q. places q \<and> Q q)"
  by (auto simp: writes_only_def not_session_def places_def)

lemma ig_submit_split:
  "ig_submit w order now1 now2 b =
     (if \<not> gb_connected b then (Inl (RuntimeError ''IGBroker.<read> called before connect()''), b)
      else if o_type order \<noteq> MKT then (Inl (NotImplementedError ''IGBroker.submit currently supports OrderType.MKT only''), b)
      else bindS (via_resolver (ig_resolve w (o_instrument order))) (ig_place_and_wait w order now1 now2 (nat (gb_attempts b))) b)"
  by (simp add: ig_submit_def ig_require_connected_def bindS_def)

lemma ig_place_and_wait_runs:
  assumes "\<And>auth. Q (\<lparr>rq_method = ''POST'', rq_path = ''/positions/otc'', rq_version = Some 2, rq_auth = Some auth, rq_params = [],
      rq_body = Some (otc_body order epic)\<rparr>) \<Longrightarrow> 1 \<le> k"
  shows "runs broker_client w (\<lambda>q. places q \<and> Q q) (5 + 5 * n) k (ig_place_and_wait w order now1 now2 n epic)"
  unfolding ig_place_and_wait_def
  apply (rule runs_bind [where a = 5 and b = "5 * n" and i = k and j = 0])
     apply (rule runs_via_resolver [OF runs_post [OF writes_only_places(2)]])
     apply (use assms in auto)[1]
    apply (rule runs_before, simp)
    apply (rule runs_before, simp)
    apply (rule runs_before, rule runs_put_order)
    apply (rule runs_after, rule runs_via_resolver [OF runs_poll [OF writes_only_places(1)]])
    apply (rule runs_after, rule runs_emit)
    apply simp_all
  done

lemma effective_filter: "effective w (\<lambda>q. P q \<and> Q q) n qs = filter Q (effective w P n qs)"
  by (induction qs arbitrary: n) simp_all

lemma calls_of_kind:
  assumes "calls_within w (\<lambda>q. P q \<and> True) n k c c'" "calls_within w (\<lambda>q. P q \<and> \<not> R q) n 0 c c'"
  shows "\<exists>new. ic_log c' = ic_log c @ new \<and> length new \<le> n \<and> length (effective w P (length (ic_log c)) new) \<le> k \<and>
    (\<forall>q \<in> set (effective w P (length (ic_log c)) new). R q)"
  using assms by (auto simp: calls_within_def effective_filter filter_empty_conv)

text \<open>What a submission may send: a bounded number of calls, one of which at most places the order.\<close>

definition placed_once :: "ig_wire \<Rightarrow> Order \<Rightarrow> nat \<Rightarrow> IGClient \<Rightarrow> IGClient \<Rightarrow> bool" where
  "placed_once w order n c c' \<longleftrightarrow> (\<exists>calls. ic_log c' = ic_log c @ calls \<and> length calls \<le> n \<and>
     (let placed = effective w places (length (ic_log c)) calls in
      length placed \<le> 1 \<and> (\<forall>q \<in> set placed. \<exists>epic. epic_fits (o_instrument order) epic \<and> rq_body q = Some (otc_body order epic))))"

lemma placed_once_from:
  assumes "\<And>Q k. (\<And>q. Q q \<Longrightarrow> rq_body q = Some (otc_body order epic) \<Longrightarrow> 1 \<le> k) \<Longrightarrow> calls_within w (\<lambda>q. places q \<and> Q q) n k c c'"
    and "epic_fits (o_instrument order) epic"
  shows "placed_once w order n c c'"
proof -
  have "calls_within w (\<lambda>q. places q \<and> True) n 1 c c'" "calls_within w (\<lambda>q. places q \<and> \<not> rq_body q = Some (otc_body order epic)) n 0 c c'"
    by (rule assms(1); simp)+
  from calls_of_kind [OF this] assms(2) show ?thesis unfolding placed_once_def Let_def by blast
qed

lemma placed_once_none:
  assumes "\<And>Q. calls_within w (\<lambda>q. places q \<and> Q q) n 0 c c'"
  shows "placed_once w order n c c'"
  using assms [of "\<lambda>_. True"] unfolding placed_once_def by (auto simp: calls_within_def)

lemma ig_submit_places:
  assumes ok: "resolver_ok (gb_resolver b)" and run: "ig_submit w order now1 now2 b = (r, b')"
  shows "placed_once w order (20 + 5 * nat (gb_attempts b)) (broker_client b) (broker_client b')"
proof (cases "gb_connected b \<and> o_type order = MKT")
  case False
  then have "b' = b" using run by (auto simp: ig_submit_split split: if_splits)
  then show ?thesis by (simp add: placed_once_none)
next
  case True
  obtain re s where e: "ig_resolve w (o_instrument order) (gb_resolver b) = (re, s)" by (cases "ig_resolve w (o_instrument order) (gb_resolver b)")
  let ?b1 = "b\<lparr>gb_resolver := s\<rparr>"
  have res: "ran broker_client w (\<lambda>q. places q \<and> Q q) 15 0 b ?b1" for Q
    using runs_via_resolver [OF runs_resolve [OF writes_only_places(1)], of w Q "o_instrument order"] e
    unfolding runs_def by (auto simp: via_resolver_def dest: spec [of _ b])
  show ?thesis
  proof (cases re)
    case (Inl x)
    then have "b' = ?b1" using True e run by (simp add: ig_submit_split bindS_def via_resolver_def)
    then have "calls_within w (\<lambda>q. places q \<and> Q q) (20 + 5 * nat (gb_attempts b)) 0 (broker_client b) (broker_client b')" for Q
      using ran_mono [OF res, of "20 + 5 * nat (gb_attempts b)" 0 Q] by (simp add: ran_def)
    then show ?thesis by (rule placed_once_none)
  next
    case (Inr epic)
    have b': "b' = snd (ig_place_and_wait w order now1 now2 (nat (gb_attempts b)) epic ?b1)"
      using True e run Inr by (simp add: ig_submit_split bindS_def via_resolver_def)
    have "calls_within w (\<lambda>q. places q \<and> Q q) (20 + 5 * nat (gb_attempts b)) k (broker_client b) (broker_client b')"
      if "\<And>q. Q q \<Longrightarrow> rq_body q = Some (otc_body order epic) \<Longrightarrow> 1 \<le> k" for Q k
    proof -
      have "runs broker_client w (\<lambda>q. places q \<and> Q q) (5 + 5 * nat (gb_attempts b)) k
          (ig_place_and_wait w order now1 now2 (nat (gb_attempts b)) epic)"
        by (rule ig_place_and_wait_runs) (use that in auto)
      then have "ran broker_client w (\<lambda>q. places q \<and> Q q) (5 + 5 * nat (gb_attempts b)) k ?b1 b'"
        unfolding runs_def b' by blast
      from ran_trans [OF res this] show ?thesis by (simp add: ran_def)
    qed
    moreover have "epic_fits (o_instrument order) epic" using ig_resolve_spec [OF e ok] Inr by simp
    ultimately show ?thesis by (rule placed_once_from)
  qed
qed

section \<open>Events\<close>

text \<open>The fill of a confirmation, and what is reported after it.\<close>

definition is_deal_fill :: "Order \<Rightarrow> Fill \<Rightarrow> bool" where
  "is_deal_fill order f \<longleftrightarrow> f_order f = o_id order \<and> f_instrument f = o_instrument order \<and> f_side f = o_side order \<and>
     0 < dval (f_quantity f) \<and> 0 < dval (f_price f) \<and> f_exec f \<noteq> []"

lemma mk_Fill_same: "mk_Fill f = Inr g \<Longrightarrow> g = f \<and> f_exec f \<noteq> []"
  by (auto simp: mk_Fill_def validated_eq_Inr Fill_checks_def split: if_splits)

lemma parse_fill_for: "parse_fill_from_confirm order d confirm t = Inr f \<Longrightarrow> is_deal_fill order f"
  by (auto simp: parse_fill_from_confirm_def is_deal_fill_def dec_le_iff split: if_splits dest!: mk_Fill_same)

definition reported :: "Order \<Rightarrow> uuid res \<Rightarrow> OrderEvent list \<Rightarrow> bool" where
  "reported order r es \<longleftrightarrow>
     (case map e_kind es of
        [] \<Rightarrow> \<not> is_ok r
      | [EV_SUBMITTED] \<Rightarrow> \<not> is_ok r
      | [EV_SUBMITTED, EV_REJECTED] \<Rightarrow> is_ok r
      | [EV_SUBMITTED, EV_ACCEPTED] \<Rightarrow> True
      | [EV_SUBMITTED, EV_ACCEPTED, EV_FILLED] \<Rightarrow> is_ok r
      | _ \<Rightarrow> False) \<and>
     (\<forall>e \<in> set es. e_order e = o_id order \<and> (\<forall>f. e_fill e = Some f \<longrightarrow> is_deal_fill order f))"

lemma mk_OrderEvent_same: "mk_OrderEvent e = Inr e' \<Longrightarrow> e' = e"
  by (auto simp: mk_OrderEvent_def validated_eq_Inr)

lemma put_order_obtain:
  obtains (failed) e where "ig_put_order cid venue kind reason fill now b = (Inl e, b)"
  | (put) ev where "ig_put_order cid venue kind reason fill now b = (Inr (), ig_put (BE_Order ev) b)"
      "e_order ev = cid" "e_kind ev = kind" "e_fill ev = fill"
proof (cases "mk_OrderEvent \<lparr>e_order = cid, e_venue_order = Some venue, e_kind = kind, e_reason = reason, e_time = now, e_fill = fill\<rparr>")
  case (Inl e)
  then show thesis by (intro failed) (simp add: ig_put_order_def)
next
  case (Inr ev)
  note ev = mk_OrderEvent_same [OF Inr]
  show thesis by (rule put [of ev]) (use Inr in \<open>simp_all add: ig_put_order_def\<close>, simp_all add: ev)
qed

text \<open>\<open>tail\<close> is what \<open>emit_terminal_events\<close> may add after SUBMITTED.\<close>

lemma emit_reported:
  assumes "emit_terminal_events order ref confirm now b = (r, b')"
  shows "\<exists>es. b' = b\<lparr>gb_events := gb_events b @ map BE_Order es\<rparr> \<and>
    (map e_kind es \<in> (if is_ok r then {[EV_REJECTED], [EV_ACCEPTED], [EV_ACCEPTED, EV_FILLED]} else {[], [EV_ACCEPTED]})) \<and>
    (\<forall>e \<in> set es. e_order e = o_id order \<and> (\<forall>f. e_fill e = Some f \<longrightarrow> is_deal_fill order f))"
proof (cases "jget confirm ''dealStatus'' = JStr ''REJECTED''")
  case True
  show ?thesis
  proof (cases rule: put_order_obtain [of "o_id order" "confirm_deal_id confirm ref" EV_REJECTED "Some (reject_reason confirm)" None now b])
    case (failed e)
    with True assms show ?thesis by (intro exI [of _ "[]"]) (auto simp: emit_terminal_events_def)
  next
    case (put ev)
    with True assms show ?thesis by (intro exI [of _ "[ev]"]) (auto simp: emit_terminal_events_def ig_put_def)
  qed
next
  case False
  show ?thesis
  proof (cases rule: put_order_obtain [of "o_id order" "confirm_deal_id confirm ref" EV_ACCEPTED None None now b])
    case (failed e)
    with False assms show ?thesis by (intro exI [of _ "[]"]) (auto simp: emit_terminal_events_def Let_def bindS_def)
  next
    case acc: (put ev)
    let ?b1 = "ig_put (BE_Order ev) b"
    show ?thesis
    proof (cases "parse_fill_from_confirm order (confirm_deal_id confirm ref) confirm now")
      case (Inl e)
      with False acc assms show ?thesis
        by (intro exI [of _ "[ev]"]) (auto simp: emit_terminal_events_def Let_def bindS_def ig_put_def split: if_splits)
    next
      case (Inr f)
      note fill = parse_fill_for [OF Inr]
      show ?thesis
      proof (cases rule: put_order_obtain [of "o_id order" "confirm_deal_id confirm ref" EV_FILLED None "Some f" now ?b1])
        case (failed e)
        with False acc assms Inr show ?thesis
          by (intro exI [of _ "[ev]"]) (auto simp: emit_terminal_events_def Let_def bindS_def ig_put_def)
      next
        case (put fe)
        with False acc assms Inr fill show ?thesis
          by (intro exI [of _ "[ev, fe]"]) (auto simp: emit_terminal_events_def Let_def bindS_def ig_put_def)
      qed
    qed
  qed
qed

lemma reported_Cons:
  assumes "e_kind ev = EV_SUBMITTED" "e_order ev = o_id order" "e_fill ev = None"
    and es: "map e_kind es \<in> (if is_ok r then {[EV_REJECTED], [EV_ACCEPTED], [EV_ACCEPTED, EV_FILLED]} else {[], [EV_ACCEPTED]})"
    and "\<forall>e \<in> set es. e_order e = o_id order \<and> (\<forall>f. e_fill e = Some f \<longrightarrow> is_deal_fill order f)"
  shows "reported order r (ev # es)"
proof -
  consider "is_ok r" "map e_kind es = [EV_REJECTED]" | "map e_kind es = [EV_ACCEPTED]"
    | "is_ok r" "map e_kind es = [EV_ACCEPTED, EV_FILLED]" | "\<not> is_ok r" "map e_kind es = []"
    using es by (cases "is_ok r") (simp_all only: if_True if_False simp_thms insert_iff empty_iff, blast+)
  then have "case EV_SUBMITTED # map e_kind es of
        [] \<Rightarrow> \<not> is_ok r
      | [EV_SUBMITTED] \<Rightarrow> \<not> is_ok r
      | [EV_SUBMITTED, EV_REJECTED] \<Rightarrow> is_ok r
      | [EV_SUBMITTED, EV_ACCEPTED] \<Rightarrow> True
      | [EV_SUBMITTED, EV_ACCEPTED, EV_FILLED] \<Rightarrow> is_ok r
      | _ \<Rightarrow> False"
    by cases (simp_all del: map_eq_Cons_conv Nil_is_map_conv map_is_Nil_conv)
  with assms show ?thesis by (simp add: reported_def)
qed

lemma via_resolver_keeps:
  "via_resolver m b = (r, b') \<Longrightarrow> gb_events b' = gb_events b \<and> gb_deals b' = gb_deals b \<and> gb_attempts b' = gb_attempts b \<and> gb_connected b' = gb_connected b \<and> gb_account b' = gb_account b"
  by (auto simp: via_resolver_def split: prod.splits)

lemma ig_place_and_wait_reported:
  assumes "ig_place_and_wait w order now1 now2 n epic b = (r, b')"
  shows "\<exists>es. gb_events b' = gb_events b @ map BE_Order es \<and> reported order r es"
proof -
  let ?post = "ig_client (client_post w ''/positions/otc'' 2 (otc_body order epic) ''trading'')"
  obtain rp b1 where p: "?post b = (rp, b1)" by (cases "?post b")
  note k1 = via_resolver_keeps [OF p]
  show ?thesis
  proof (cases "\<exists>j ref. rp = Inr j \<and> deal_reference_of j = Inr ref")
    case False
    then have "gb_events b' = gb_events b \<and> (\<exists>e. r = Inl e)" using assms p k1
      by (cases rp) (auto simp: ig_place_and_wait_def bindS_def split: sum.splits)
    then show ?thesis by (intro exI [of _ "[]"]) (auto simp: reported_def)
  next
    case True
    then obtain j ref where j: "rp = Inr j" "deal_reference_of j = Inr ref" by blast
    define b2 where "b2 = b1\<lparr>gb_deals := (gb_deals b1)(ref \<mapsto> o_id order)\<rparr>"
    let ?rest = "\<lambda>_ :: unit. bindS (ig_client (poll_confirm w ref n False)) (\<lambda>confirm.
       bindS (emit_terminal_events order ref confirm now2) (\<lambda>_. retS (o_id order)))"
    have run: "bindS (ig_put_order (o_id order) ref EV_SUBMITTED None None now1) ?rest b2 = (r, b')"
      using assms p j by (simp add: ig_place_and_wait_def bindS_def b2_def)
    show ?thesis
    proof (cases rule: put_order_obtain [of "o_id order" ref EV_SUBMITTED None None now1 b2])
      case (failed e)
      with run k1 show ?thesis by (intro exI [of _ "[]"]) (auto simp: reported_def bindS_def b2_def)
    next
      case (put ev)
      let ?b3 = "ig_put (BE_Order ev) b2"
      obtain rc b4 where c: "ig_client (poll_confirm w ref n False) ?b3 = (rc, b4)" by (cases "ig_client (poll_confirm w ref n False) ?b3")
      have ev4: "gb_events b4 = gb_events b @ [BE_Order ev]" using via_resolver_keeps [OF c] k1 by (simp add: ig_put_def b2_def)
      show ?thesis
      proof (cases rc)
        case (Inl e)
        with run put c ev4 show ?thesis by (intro exI [of _ "[ev]"]) (auto simp: reported_def bindS_def)
      next
        case (Inr confirm)
        obtain rr b5 where e: "emit_terminal_events order ref confirm now2 b4 = (rr, b5)" by (cases "emit_terminal_events order ref confirm now2 b4")
        obtain es where es: "b5 = b4\<lparr>gb_events := gb_events b4 @ map BE_Order es\<rparr>"
          "map e_kind es \<in> (if is_ok rr then {[EV_REJECTED], [EV_ACCEPTED], [EV_ACCEPTED, EV_FILLED]} else {[], [EV_ACCEPTED]})"
          "\<forall>e \<in> set es. e_order e = o_id order \<and> (\<forall>f. e_fill e = Some f \<longrightarrow> is_deal_fill order f)"
          using emit_reported [OF e] by blast
        have "bindS (emit_terminal_events order ref confirm now2) (\<lambda>_. retS (o_id order)) b4 = (r, b')"
          using run bindS_eq(1) [where m = "ig_put_order (o_id order) ref EV_SUBMITTED None None now1", OF put(1), of ?rest]
            bindS_eq(1) [where m = "ig_client (poll_confirm w ref n False)", OF c [unfolded Inr],
              of "\<lambda>confirm. bindS (emit_terminal_events order ref confirm now2) (\<lambda>_. retS (o_id order))"] by simp
        then have b': "b' = b5" "is_ok r = is_ok rr" using e by (auto simp: bindS_def split: sum.splits)
        have "gb_events b' = gb_events b @ map BE_Order (ev # es)" using es(1) ev4 b' by simp
        moreover have "reported order r (ev # es)" using put es(2,3) b'(2) by (intro reported_Cons) simp_all
        ultimately show ?thesis by blast
      qed
    qed
  qed
qed

lemma ig_submit_reported:
  assumes "ig_submit w order now1 now2 b = (r, b')"
  shows "\<exists>es. gb_events b' = gb_events b @ map BE_Order es \<and> reported order r es"
proof (cases "gb_connected b \<and> o_type order = MKT")
  case False
  then have "b' = b" "\<exists>e. r = Inl e" using assms by (auto simp: ig_submit_split split: if_splits)
  then show ?thesis by (intro exI [of _ "[]"]) (auto simp: reported_def)
next
  case True
  let ?res = "via_resolver (ig_resolve w (o_instrument order))"
  obtain re b1 where e: "?res b = (re, b1)" by (cases "?res b")
  note k = via_resolver_keeps [OF e]
  show ?thesis
  proof (cases re)
    case (Inl x)
    with True e assms k show ?thesis by (intro exI [of _ "[]"]) (auto simp: ig_submit_split bindS_def reported_def)
  next
    case (Inr epic)
    with True e assms have "ig_place_and_wait w order now1 now2 (nat (gb_attempts b)) epic b1 = (r, b')"
      by (simp add: ig_submit_split bindS_def)
    from ig_place_and_wait_reported [OF this] k show ?thesis by simp
  qed
qed

section \<open>The reads\<close>

text \<open>What one entry comes to: None for an entry passed over unread.\<close>

definition entry_outcome :: "((string \<times> json) list \<Rightarrow> (string \<times> json) list \<Rightarrow> 'a res) \<Rightarrow> string \<Rightarrow> string \<Rightarrow> json \<Rightarrow> 'a res option" where
  "entry_outcome f key1 key2 entry =
     (case entry of
        JObj kvs \<Rightarrow> (case (jget kvs key1, jget kvs key2) of (JObj a, JObj b) \<Rightarrow> Some (f a b) | _ \<Rightarrow> None)
      | _ \<Rightarrow> None)"

fun read_ok :: "'a res option \<Rightarrow> 'a option" where
  "read_ok (Some (Inr y)) = Some y"
| "read_ok _ = None"

fun uncaught :: "'a res option \<Rightarrow> exn option" where
  "uncaught (Some (Inl e)) = (if parse_failure e then None else Some e)"
| "uncaught _ = None"

lemma parse_entries_step:
  "parse_entries (\<lambda>_. f) key1 key2 n (entry # entries) =
     (case uncaught (entry_outcome f key1 key2 entry) of
        Some e \<Rightarrow> Inl e
      | None \<Rightarrow> (case read_ok (entry_outcome f key1 key2 entry) of
                   None \<Rightarrow> parse_entries (\<lambda>_. f) key1 key2 (Suc n) entries
                 | Some y \<Rightarrow> bindR (parse_entries (\<lambda>_. f) key1 key2 (Suc n) entries) (\<lambda>ys. Inr (y # ys))))"
  by (simp add: entry_outcome_def split: json.split sum.split)

lemma parse_entries_spec:
  "parse_entries (\<lambda>_. f) key1 key2 n entries =
     (case List.map_filter (uncaught \<circ> entry_outcome f key1 key2) entries of
        e # _ \<Rightarrow> Inl e
      | [] \<Rightarrow> Inr (List.map_filter (read_ok \<circ> entry_outcome f key1 key2) entries))"
proof (induction entries arbitrary: n)
  case Nil
  show ?case by (simp add: List.map_filter_simps)
next
  case (Cons entry entries)
  show ?case
    unfolding parse_entries_step Cons List.map_filter_simps
    by (cases "entry_outcome f key1 key2 entry" rule: uncaught.cases) (auto split: list.split)
qed

lemma checks_ValueError: "checks cs = Inl e \<Longrightarrow> \<forall>(b, x) \<in> set cs. \<exists>m. x = ValueError m \<Longrightarrow> \<exists>m. e = ValueError m"
  by (induction cs rule: checks.induct) (auto split: if_splits)

lemma mk_errors:
  "mk_Instrument i = Inl e \<Longrightarrow> \<exists>m. e = ValueError m" "mk_Position p = Inl e \<Longrightarrow> \<exists>m. e = ValueError m"
proof -
  assume "mk_Instrument i = Inl e"
  then have "checks (Instrument_checks i) = Inl e" by (simp add: mk_Instrument_def validated_def split: sum.splits)
  then show "\<exists>m. e = ValueError m" by (rule checks_ValueError) (simp add: Instrument_checks_def require_iso_currency_def)
next
  assume "mk_Position p = Inl e"
  then have "checks (Position_checks p) = Inl e" by (simp add: mk_Position_def validated_def split: sum.splits)
  then show "\<exists>m. e = ValueError m"
    by (rule checks_ValueError) (auto simp: Position_checks_def require_iso_currency_def require_utc_def split: option.split)
qed

lemma required_decimal_error: "required_decimal obj key = Inl e \<Longrightarrow> e = InvalidOperation \<or> (\<exists>m. e = ValueError m)"
  by (auto simp: required_decimal_def split: json.splits dest: json_decimal_error)

lemma parse_position_error: "parse_position a b sid now = Inl e \<Longrightarrow> e = InvalidOperation \<or> (\<exists>m. e = ValueError m)"
  by (auto simp: parse_position_def Let_def bindR_eq_Inl split: if_splits dest: mk_errors required_decimal_error)

text \<open>What a position read is: a position of this account, at the instrument of the entry's epic, signed by its direction.\<close>

definition ig_position_of :: "string \<Rightarrow> datetime \<Rightarrow> Position \<Rightarrow> bool" where
  "ig_position_of sid now p \<longleftrightarrow> mk_Position p = Inr p \<and> mk_Instrument (p_instrument p) = Inr (p_instrument p) \<and>
     p_strategy p = sid \<and> i_venue (p_instrument p) = ''IG'' \<and> i_tradability (p_instrument p) = ''cfd'' \<and> p_updated p = now"

lemma parse_position_of:
  "parse_position a b sid now = Inr p \<Longrightarrow> ig_position_of sid now p"
  by (auto simp: parse_position_def ig_position_of_def Let_def mk_Position_def mk_Instrument_def validated_eq_Inr split: if_splits)

definition position_outcomes :: "string \<Rightarrow> datetime \<Rightarrow> json \<Rightarrow> Position res option list" where
  "position_outcomes sid now body =
     map (entry_outcome (\<lambda>a m. parse_position a m sid now) ''position'' ''market'') (entries_of body ''positions'')"

lemma in_map_filter: "x \<in> set (List.map_filter f xs) \<longleftrightarrow> (\<exists>y \<in> set xs. f y = Some x)"
  by (induction xs) (auto simp: List.map_filter_simps split: option.splits)

lemma read_ok_Some: "read_ok o' = Some y \<longleftrightarrow> o' = Some (Inr y)"
  by (cases o' rule: read_ok.cases) auto

lemma uncaught_Some: "uncaught o' = Some e \<longleftrightarrow> o' = Some (Inl e) \<and> \<not> parse_failure e"
  by (cases o' rule: uncaught.cases) auto

lemma entry_position_error:
  "entry_outcome (\<lambda>a m. parse_position a m sid now) k1 k2 x = Some (Inl e) \<Longrightarrow> \<not> parse_failure e \<Longrightarrow> e = InvalidOperation"
  by (auto simp: entry_outcome_def dest!: parse_position_error split: json.splits)

lemma parse_positions_outcomes:
  "parse_entries (\<lambda>_ a m. parse_position a m sid now) ''position'' ''market'' 0 (entries_of body ''positions'') =
     (if Some (Inl InvalidOperation) \<in> set (position_outcomes sid now body) then Inl InvalidOperation
      else Inr (List.map_filter read_ok (position_outcomes sid now body)))"
proof -
  let ?o = "entry_outcome (\<lambda>a m. parse_position a m sid now) ''position'' ''market''"
  let ?bad = "List.map_filter (uncaught \<circ> ?o) (entries_of body ''positions'')"
  have all: "e = InvalidOperation" if "e \<in> set ?bad" for e
    using that by (auto simp: in_map_filter uncaught_Some dest: entry_position_error)
  have bad: "Some (Inl InvalidOperation) \<in> set (position_outcomes sid now body) \<longleftrightarrow> ?bad \<noteq> []"
  proof
    assume "Some (Inl InvalidOperation) \<in> set (position_outcomes sid now body)"
    then have "InvalidOperation \<in> set ?bad" by (force simp: position_outcomes_def in_map_filter uncaught_Some)
    then show "?bad \<noteq> []" by auto
  next
    assume "?bad \<noteq> []"
    then obtain e where "e \<in> set ?bad" by (cases ?bad) auto
    with all have "InvalidOperation \<in> set ?bad" by blast
    then show "Some (Inl InvalidOperation) \<in> set (position_outcomes sid now body)"
      by (force simp: position_outcomes_def in_map_filter uncaught_Some)
  qed
  have "List.map_filter read_ok (position_outcomes sid now body) = List.map_filter (read_ok \<circ> ?o) (entries_of body ''positions'')"
    unfolding position_outcomes_def List.map_filter_def by (simp add: filter_map comp_def)
  with bad all show ?thesis by (simp add: parse_entries_spec split: list.split)
qed

section \<open>Properties\<close>

text \<open>C6: an order is placed at most once: whatever IG answers, however often the session is lost and recovered on the
  way, a submission makes a bounded number of calls, and among them at most one request to open a position that IG did not
  refuse for an expired session, a request whose answer was lost counting; it carries this order's side, size and currency
  and an epic of the instrument's family.\<close>

theorem ig_order_placed_once:
  assumes "resolver_ok (gb_resolver b)"
  shows "case ig_submit w order now1 now2 b of (r, b') \<Rightarrow>
    \<exists>calls. ic_log (broker_client b') = ic_log (broker_client b) @ calls \<and> length calls \<le> 20 + 5 * nat (gb_attempts b) \<and>
      (let placed = effective w places (length (ic_log (broker_client b))) calls in
       length placed \<le> 1 \<and>
       list_all (\<lambda>q. \<exists>epic. epic_fits (o_instrument order) epic \<and> rq_body q = Some (otc_body order epic)) placed)"
proof (cases "ig_submit w order now1 now2 b")
  case (Pair r b')
  from ig_submit_places [OF assms Pair] Pair show ?thesis by (simp add: placed_once_def list_all_iff)
qed

text \<open>C7: the events of a submission: they are a run of the order machine from SUBMIT_PENDING, about this order only, and a
  fill among them has the order's instrument and side and a positive quantity and price.  A submission that returns has
  reported the order rejected, filled, or accepted without a fill; one that raises has left it pending, submitted or
  accepted, never in a terminal state.\<close>

theorem ig_submit_conforms:
  "case ig_submit w order now1 now2 b of (r, b') \<Rightarrow>
     \<exists>es s. gb_events b' = gb_events b @ map BE_Order es \<and> kinds_run SUBMIT_PENDING (map e_kind es) = Some s \<and>
       s \<in> (if is_ok r then {REJECTED, ACCEPTED, FILLED} else {SUBMIT_PENDING, SUBMITTED, ACCEPTED}) \<and>
       list_all (\<lambda>e. e_order e = o_id order \<and> (case e_fill e of None \<Rightarrow> True | Some f \<Rightarrow> is_deal_fill order f)) es"
proof (cases "ig_submit w order now1 now2 b")
  case (Pair r b')
  obtain es where es: "gb_events b' = gb_events b @ map BE_Order es" "reported order r es" using ig_submit_reported [OF Pair] by blast
  have "\<exists>s. kinds_run SUBMIT_PENDING (map e_kind es) = Some s \<and>
      s \<in> (if is_ok r then {REJECTED, ACCEPTED, FILLED} else {SUBMIT_PENDING, SUBMITTED, ACCEPTED})"
    using es(2) unfolding reported_def by (auto split: list.splits OrderEventKind.splits)
  with es Pair show ?thesis by (auto simp: reported_def list_all_iff split: option.split)
qed

text \<open>C24: reading the positions: every entry of IG's answer that can be read gives one position, in IG's order, of this
  account and at the time of the read; entries of another shape are skipped.  But one number IG sends that is not
  a decimal, in whichever entry, makes the whole read raise.\<close>

theorem ig_positions_read:
  assumes "gb_connected b" "ig_client (client_get w ''/positions'' 2 [] ''general'') b = (Inr body, b1)"
  shows "ig_positions w now b =
      (if Some (Inl InvalidOperation) \<in> set (position_outcomes (ig_strategy_id b) now body) then Inl InvalidOperation
       else Inr (List.map_filter read_ok (position_outcomes (ig_strategy_id b) now body)), b1) \<and>
    list_all (ig_position_of (ig_strategy_id b) now) (List.map_filter read_ok (position_outcomes (ig_strategy_id b) now body))"
proof
  have "ig_strategy_id b1 = ig_strategy_id b" using via_resolver_keeps [OF assms(2)] by (simp add: ig_strategy_id_def)
  then show "ig_positions w now b =
      (if Some (Inl InvalidOperation) \<in> set (position_outcomes (ig_strategy_id b) now body) then Inl InvalidOperation
       else Inr (List.map_filter read_ok (position_outcomes (ig_strategy_id b) now body)), b1)"
    using assms by (simp add: ig_positions_def ig_require_connected_def bindS_def parse_positions_outcomes)
next
  show "list_all (ig_position_of (ig_strategy_id b) now) (List.map_filter read_ok (position_outcomes (ig_strategy_id b) now body))"
    by (auto simp: list_all_iff in_map_filter read_ok_Some position_outcomes_def entry_outcome_def parse_position_of split: json.splits)
qed

section \<open>Witnesses\<close>

text \<open>A server that has lost the session, logs the client in again, accepts the deal and reports two positions.\<close>

definition igx_position :: "string \<Rightarrow> string \<Rightarrow> json" where
  "igx_position direction amount =
     JObj [(''position'', JObj [(''size'', JNum amount), (''direction'', JStr direction), (''level'', JNum ''7500.5''), (''currency'', JStr ''EUR''),
             (''createdDateUTC'', JStr ''2026-04-28T09:00:00'')]),
           (''market'', JObj [(''epic'', JStr ''IX.D.CAC40.CASH.IP'')])]"

definition igx_positions :: "json list \<Rightarrow> json" where
  "igx_positions entries = JObj [(''positions'', JArr entries)]"

definition igx_server :: ig_wire where
  "igx_server = \<lparr>wi_answer = (\<lambda>n q. Some (
       if rq_path q = ''/session'' then igx_response 200 (JObj []) (Some (''C2'', ''T2''))
       else if rq_path q = ''/session/refresh-token'' \<or> rq_auth q \<noteq> Some (''C2'', ''T2'') then igx_expired
       else if rq_path q = ''/markets/IX.D.CAC40.CASH.IP'' then igx_response 200 igx_market None
       else if rq_path q = ''/positions/otc'' then igx_response 200 (JObj [(''dealReference'', JStr ''R1'')]) None
       else if rq_path q = ''/confirms/R1'' then igx_response 200 (JObj [(''dealStatus'', JStr ''ACCEPTED''), (''dealId'', JStr ''D1''),
          (''size'', JNum ''2''), (''level'', JNum ''7501'')]) None
       else if rq_path q = ''/positions'' then igx_response 200 (igx_positions [igx_position ''BUY'' ''2'', JNull, igx_position ''SELL'' ''0.5'']) None
       else igx_response 404 (JObj []) None)), wi_bucket = (\<lambda>b. True)\<rparr>"

definition igx_order :: Order where
  "igx_order = \<lparr>o_id = 7, o_strategy = ''s'', o_instrument = igx_cac, o_side = BUY, o_quantity = dint 2, o_type = MKT, o_tif = DAY, o_limit = None,
     o_stop = None, o_parent = None, o_tags = [], o_created = utc 0\<rparr>"

definition igx_broker :: IGBroker where
  "igx_broker = (ig_init igx_resolver ''demo'' ''ACC'' 30)\<lparr>gb_connected := True\<rparr>"

lemma igx_submitted: "fst (ig_submit igx_server igx_order (utc 0) (utc 1) igx_broker) = Inr 7 \<and>
    kinds_of 7 (gb_events (snd (ig_submit igx_server igx_order (utc 0) (utc 1) igx_broker))) = [EV_SUBMITTED, EV_ACCEPTED, EV_FILLED] \<and>
    length (ic_log (broker_client (snd (ig_submit igx_server igx_order (utc 0) (utc 1) igx_broker)))) = 6"
  by code_simp

theorem ig_order_placed_once_witness:
  "case ig_submit igx_server igx_order (utc 0) (utc 1) igx_broker of (r, b') \<Rightarrow>
     r = Inr 7 \<and> (\<exists>calls. ic_log (broker_client b') = calls \<and> length (effective igx_server places 0 calls) \<le> 1)"
proof -
  have "resolver_ok (gb_resolver igx_broker)" by (simp add: resolver_ok_def igx_broker_def ig_init_def igx_resolver_def)
  from ig_order_placed_once [OF this, of igx_server igx_order "utc 0" "utc 1"] igx_submitted show ?thesis
    by (auto simp: broker_client_def igx_broker_def ig_init_def igx_resolver_def igx_client_def Let_def split: prod.splits)
qed

lemma igx_positions_answer:
  "fst (ig_client (client_get igx_server ''/positions'' 2 [] ''general'') igx_broker)
     = Inr (igx_positions [igx_position ''BUY'' ''2'', JNull, igx_position ''SELL'' ''0.5''])"
  by code_simp

lemma igx_two_positions:
  "map p_quantity (List.map_filter read_ok (position_outcomes (ig_strategy_id igx_broker) (utc 5)
      (igx_positions [igx_position ''BUY'' ''2'', JNull, igx_position ''SELL'' ''0.5'']))) = [dint 2, Dec (- 5) (- 1)]"
  "Some (Inl InvalidOperation) \<notin> set (position_outcomes (ig_strategy_id igx_broker) (utc 5)
      (igx_positions [igx_position ''BUY'' ''2'', JNull, igx_position ''SELL'' ''0.5'']))"
  by code_simp+

theorem ig_positions_read_witness:
  "\<exists>ps. fst (ig_positions igx_server (utc 5) igx_broker) = Inr ps \<and> map p_quantity ps = [dint 2, Dec (- 5) (- 1)] \<and>
     list_all (ig_position_of ''ig_ACC'' (utc 5)) ps"
proof -
  have conn: "gb_connected igx_broker" by (simp add: igx_broker_def)
  have sid: "ig_strategy_id igx_broker = ''ig_ACC''" by (simp add: ig_strategy_id_def igx_broker_def ig_init_def)
  obtain b1 where "ig_client (client_get igx_server ''/positions'' 2 [] ''general'') igx_broker
      = (Inr (igx_positions [igx_position ''BUY'' ''2'', JNull, igx_position ''SELL'' ''0.5'']), b1)"
    using igx_positions_answer by (metis prod.collapse)
  from ig_positions_read [OF conn this, of "utc 5"] igx_two_positions sid show ?thesis by auto
qed

text \<open>One unreadable number hides every position of the account.\<close>

lemma igx_unreadable_number:
  "parse_entries (\<lambda>_ a m. parse_position a m ''ig_ACC'' (utc 5)) ''position'' ''market'' 0
     (entries_of (igx_positions [igx_position ''BUY'' ''2'', igx_position ''SELL'' ''n/a'']) ''positions'') = Inl InvalidOperation"
  by code_simp

text \<open>A creation time with an offset other than UTC is read as it is, and the position is refused for it.\<close>

lemma offset_time_refused:
  "parse_position [(''size'', JNum ''2''), (''direction'', JStr ''BUY''), (''level'', JNum ''7500''), (''currency'', JStr ''EUR''),
       (''createdDate'', JStr ''2026-04-28T11:00:00+02:00'')] [(''epic'', JStr ''IX.D.CAC40.CASH.IP'')] ''ig_ACC'' (utc 5)
     = Inl (ValueError ''Position.opened_at must be timezone-aware UTC'')"
  by code_simp

text \<open>An accepted deal whose size is unreadable: the order has been reported accepted when the submission raises.\<close>

lemma unreadable_fill_raises:
  assumes "jget confirm ''dealStatus'' = JStr ''ACCEPTED''" "jget confirm ''size'' = JStr ''n/a''" "is_utc now"
  shows "fst (emit_terminal_events order ref confirm now b) = Inl InvalidOperation"
proof -
  have "read_decimal ''n/a'' = Inl InvalidOperation" by code_simp
  then have "parse_fill_from_confirm order d confirm now = Inl InvalidOperation" for d
    using assms(2) by (simp add: parse_fill_from_confirm_def required_decimal_def json_decimal_def json_str_def)
  moreover have "mk_OrderEvent \<lparr>e_order = o_id order, e_venue_order = Some d, e_kind = EV_ACCEPTED, e_reason = None, e_time = now, e_fill = None\<rparr> \<noteq> Inl e"
    for d e using assms(3) mk_OrderEvent_ok [of "\<lparr>e_order = o_id order, e_venue_order = Some d, e_kind = EV_ACCEPTED, e_reason = None, e_time = now, e_fill = None\<rparr>"]
    by (simp add: payload_ok_def needs_fill_def)
  ultimately show ?thesis using assms(1)
    by (cases rule: put_order_obtain [of "o_id order" "confirm_deal_id confirm ref" EV_ACCEPTED None None now b])
      (auto simp: emit_terminal_events_def Let_def bindS_def ig_put_order_def split: sum.splits)
qed

text \<open>With no attempt allowed, the final message refers to a variable that was never bound.\<close>

lemma no_attempts: "poll_confirm w ref 0 False c = (Inl (UnboundLocalError ''payload''), c)"
  by simp

end
