(* ===== verification/IGMarketData.thy ===== *)
theory IGMarketData
  imports IGBroker
begin

text \<open>
  \<open>src/blive/adapters/ig/market_data.py\<close>: historical bars over REST, the bars built from a stream of field updates, and
  the subscriptions under their budget.  The streaming source is a parameter: what it delivers is a list of updates, and
  connecting or subscribing succeeds or raises.  Subscribing and unsubscribing are split at their awaits, so that several calls
  may be under way and any of them cancelled.
\<close>

section \<open>Tables\<close>

definition FREQ_TO_IG_RESOLUTION :: "(string \<times> string) list" where
  "FREQ_TO_IG_RESOLUTION = [(''1m'', ''MINUTE''), (''5m'', ''MINUTE_5''), (''15m'', ''MINUTE_15''), (''1h'', ''HOUR''), (''1d'', ''DAY'')]"

definition FREQ_TO_LIGHTSTREAMER_RESOLUTION :: "(string \<times> string) list" where
  "FREQ_TO_LIGHTSTREAMER_RESOLUTION = [(''1m'', ''1MINUTE''), (''5m'', ''5MINUTE''), (''15m'', ''15MINUTE''), (''1h'', ''HOUR''), (''1d'', ''DAY'')]"

definition FREQ_TO_TIMEDELTA :: "(string \<times> int) list" where
  "FREQ_TO_TIMEDELTA = [(''1m'', 60000000), (''5m'', 300000000), (''15m'', 900000000), (''1h'', 3600000000), (''1d'', 86400000000)]"

definition lookup_freq :: "(string \<times> 'v) list \<Rightarrow> string \<Rightarrow> 'v res" where
  "lookup_freq table freq = (case map_of table freq of None \<Rightarrow> Inl (KeyError freq) | Some v \<Rightarrow> Inr v)"

definition lightstreamer_chart_item :: "string \<Rightarrow> string \<Rightarrow> string res" where
  "lightstreamer_chart_item epic freq =
     bindR (lookup_freq FREQ_TO_LIGHTSTREAMER_RESOLUTION freq) (\<lambda>r. Inr (''CHART:'' @ epic @ '':'' @ r))"

text \<open>\<open>strftime("%Y-%m-%dT%H:%M:%S")\<close> of the instant in UTC, for years of four digits.\<close>

definition format_ig_datetime :: "datetime \<Rightarrow> string res" where
  "format_ig_datetime dt =
     (if utc_off dt = None then Inl (ValueError ''IGMarketData expects timezone-aware datetimes'')
      else let day_us = 86400000000; us = dt_instant dt; (y, m, d) = civil_from_days (us div day_us)
           in Inr (zero_pad 4 y @ ''-'' @ zero_pad 2 m @ ''-'' @ zero_pad 2 d @ ''T'' @ show_hms (us mod day_us - us mod 1000000)))"

section \<open>Historical bars\<close>

definition mid_price :: "decimal \<Rightarrow> decimal \<Rightarrow> decimal res" where
  "mid_price bid ask = ddiv (dadd bid ask) (dint 2)"

definition ohlc_value :: "(string \<times> json) list \<Rightarrow> string \<Rightarrow> decimal res" where
  "ohlc_value entry field =
     (case jget entry field of
        JObj obj \<Rightarrow>
          (case jget obj ''lastTraded'' of
             JNull \<Rightarrow>
               (if jget obj ''bid'' = JNull \<or> jget obj ''ask'' = JNull then Inl (ValueError ''IG /prices missing bid / ask'')
                else bindR (json_decimal (jget obj ''bid'')) (\<lambda>bid_d.
                     bindR (json_decimal (jget obj ''ask'')) (\<lambda>ask_d. mid_price bid_d ask_d)))
           | last_traded \<Rightarrow> json_decimal last_traded)
      | _ \<Rightarrow> Inl (ValueError ''IG /prices entry missing dict''))"

definition floor_volume :: "decimal \<Rightarrow> decimal" where
  "floor_volume volume = (if volume < dzero then dzero else volume)"

definition parse_price_bar :: "Instrument \<Rightarrow> int \<Rightarrow> (string \<times> json) list \<Rightarrow> Bar res" where
  "parse_price_bar i bar_duration entry =
     (case json_or (jget entry ''snapshotTimeUTC'') (jget entry ''snapshotTime'') of
        JStr snapshot \<Rightarrow>
          if snapshot = [] then Inl (ValueError ''IG /prices entry missing snapshotTime[UTC]'')
          else bindR (parse_ig_timestamp snapshot) (\<lambda>open_time.
               bindR (ohlc_value entry ''openPrice'') (\<lambda>open_price.
               bindR (ohlc_value entry ''highPrice'') (\<lambda>high_price.
               bindR (ohlc_value entry ''lowPrice'') (\<lambda>low_price.
               bindR (ohlc_value entry ''closePrice'') (\<lambda>close_price.
               bindR (json_decimal (jget_default entry ''lastTradedVolume'' (JNum ''0''))) (\<lambda>volume.
               mk_Bar \<lparr>b_instrument = i, b_open_time = open_time, b_close_time = dt_add_us open_time bar_duration, b_open = open_price,
                  b_high = high_price, b_low = low_price, b_close = close_price, b_volume = floor_volume volume, b_vwap = None\<rparr>))))))
      | _ \<Rightarrow> Inl (ValueError ''IG /prices entry missing snapshotTime[UTC]''))"

fun parse_bars :: "Instrument \<Rightarrow> int \<Rightarrow> json list \<Rightarrow> Bar list res" where
  "parse_bars i dur [] = Inr []"
| "parse_bars i dur (entry # entries) =
     (case entry of
        JObj kvs \<Rightarrow>
          (case parse_price_bar i dur kvs of
             Inl e \<Rightarrow> if parse_failure e then parse_bars i dur entries else Inl e
           | Inr bar \<Rightarrow> bindR (parse_bars i dur entries) (\<lambda>bars. Inr (bar # bars)))
      | _ \<Rightarrow> parse_bars i dur entries)"

definition ig_historical_bars :: "ig_wire \<Rightarrow> Instrument \<Rightarrow> string \<Rightarrow> datetime \<Rightarrow> datetime \<Rightarrow> (IGResolver, Bar list) sx" where
  "ig_historical_bars w i freq start_time end_time =
     (if utc_off start_time = None \<or> utc_off end_time = None
      then raiseS (ValueError ''IGMarketData.historical_bars requires UTC-aware start / end'')
      else if end_time \<le> start_time then raiseS (ValueError ''IGMarketData.historical_bars: start must be < end'')
      else bindS (ig_resolve w i) (\<lambda>epic.
           bindS (liftS (lookup_freq FREQ_TO_IG_RESOLUTION freq)) (\<lambda>resolution.
           bindS (liftS (lookup_freq FREQ_TO_TIMEDELTA freq)) (\<lambda>bar_duration.
           bindS (liftS (format_ig_datetime start_time)) (\<lambda>from_text.
           bindS (liftS (format_ig_datetime end_time)) (\<lambda>to_text.
           bindS (via_client (client_get w (''/prices/'' @ epic @ ''/'' @ resolution @ ''/'' @ from_text @ ''/'' @ to_text) 3 [] ''historical_prices'')) (\<lambda>body.
           bindS (liftS (parse_bars i bar_duration (entries_of body ''prices''))) (\<lambda>bars.
           retS (sort_key (\<lambda>b. dt_instant (b_open_time b)) bars)))))))))"

section \<open>The stream\<close>

type_synonym chart_state = "string \<rightharpoonup> string"

type_synonym chart_update = "(string \<times> string option) list"

fun set_field :: "string \<times> string option \<Rightarrow> chart_state \<Rightarrow> chart_state" where
  "set_field (k, None) st = st"
| "set_field (k, Some v) st = st(k \<mapsto> v)"

definition merge_update :: "chart_update \<Rightarrow> chart_state \<Rightarrow> chart_state" where
  "merge_update update st = fold set_field update st"

definition has_text :: "string option \<Rightarrow> bool" where
  "has_text v \<longleftrightarrow> v \<noteq> None \<and> v \<noteq> Some []"

definition stream_ohlc :: "chart_state \<Rightarrow> string \<Rightarrow> decimal res" where
  "stream_ohlc st suffix =
     (case st (''LTP_'' @ suffix) of
        Some (c # cs) \<Rightarrow> read_decimal (c # cs)
      | _ \<Rightarrow>
          (case (st (''BID_'' @ suffix), st (''OFR_'' @ suffix)) of
             (Some (b # bs), Some (a # as)) \<Rightarrow>
               bindR (read_decimal (b # bs)) (\<lambda>bid_d. bindR (read_decimal (a # as)) (\<lambda>ask_d. mid_price bid_d ask_d))
           | _ \<Rightarrow> Inl (ValueError ''Lightstreamer chart state missing BID / OFR and no LTP fallback'')))"

definition build_bar_from_state :: "Instrument \<Rightarrow> int \<Rightarrow> chart_state \<Rightarrow> Bar res" where
  "build_bar_from_state i bar_duration st =
     (if \<not> has_text (st ''UTM'') then Inl (ValueError ''Lightstreamer chart state missing UTM (update timestamp)'')
      else case parse_int (the (st ''UTM'')) of
        None \<Rightarrow> Inl (ValueError ''Lightstreamer UTM not an integer'')
      | Some utm_ms \<Rightarrow>
          let close_time = utc (utm_ms * 1000)
          in bindR (stream_ohlc st ''OPEN'') (\<lambda>open_price.
             bindR (stream_ohlc st ''HIGH'') (\<lambda>high_price.
             bindR (stream_ohlc st ''LOW'') (\<lambda>low_price.
             bindR (stream_ohlc st ''CLOSE'') (\<lambda>close_price.
             bindR (read_decimal (case st ''LTV'' of None \<Rightarrow> ''0'' | Some v \<Rightarrow> v)) (\<lambda>volume.
             mk_Bar \<lparr>b_instrument = i, b_open_time = dt_add_us close_time (- bar_duration), b_close_time = close_time, b_open = open_price,
                b_high = high_price, b_low = low_price, b_close = close_price, b_volume = floor_volume volume, b_vwap = None\<rparr>))))))"

text \<open>One update: the new state, and what it yields, a bar or the exception that ends the stream.\<close>

definition stream_step :: "Instrument \<Rightarrow> int \<Rightarrow> chart_update \<Rightarrow> chart_state \<Rightarrow> chart_state \<times> Bar res option" where
  "stream_step i bar_duration update st =
     (let st1 = merge_update update st
      in if st1 ''CONS_END'' \<noteq> Some ''1'' then (st1, None)
         else case build_bar_from_state i bar_duration st1 of
           Inl e \<Rightarrow> if parse_failure e then (Map.empty, None) else (st1, Some (Inl e))
         | Inr bar \<Rightarrow> (Map.empty, Some (Inr bar)))"

fun bar_stream :: "Instrument \<Rightarrow> int \<Rightarrow> chart_state \<Rightarrow> chart_update list \<Rightarrow> Bar list \<times> exn option" where
  "bar_stream i dur st [] = ([], None)"
| "bar_stream i dur st (u # us) =
     (case stream_step i dur u st of
        (st1, None) \<Rightarrow> bar_stream i dur st1 us
      | (st1, Some (Inl e)) \<Rightarrow> ([], Some e)
      | (st1, Some (Inr bar)) \<Rightarrow> (case bar_stream i dur st1 us of (bars, e) \<Rightarrow> (bar # bars, e)))"

section \<open>Subscriptions\<close>

text \<open>The state of the budget and of the subscriptions: the semaphore's free slots and its waiters in the order they came (True
  once a released slot was handed to one that has not gone on yet), the subscriptions under way that hold a slot, the live ones,
  and those whose cancellation the source has yet to answer.\<close>

record IGSubscriptions =
  ms_free :: nat
  ms_waiters :: "(Instrument \<times> bool) list"
  ms_pending :: "Instrument list"
  ms_active :: "string inst_cache"
  ms_closing :: "Instrument list"

definition subscriptions_init :: "nat \<Rightarrow> IGSubscriptions" where
  "subscriptions_init max_concurrent = \<lparr>ms_free = max_concurrent, ms_waiters = [], ms_pending = [], ms_active = [], ms_closing = []\<rparr>"

text \<open>\<open>asyncio.Semaphore\<close>: \<open>acquire\<close> takes a free slot when nobody waits and otherwise waits; \<open>release\<close> hands the slot to
  the first waiter that has none; a waiter that goes on hands over another free slot; a waiter that is cancelled leaves,
  giving back the slot it may have been handed.\<close>

definition take_slot :: "Instrument \<Rightarrow> IGSubscriptions \<Rightarrow> IGSubscriptions" where
  "take_slot i s =
     (if 0 < ms_free s \<and> ms_waiters s = [] then s\<lparr>ms_free := ms_free s - 1, ms_pending := ms_pending s @ [i]\<rparr>
      else s\<lparr>ms_waiters := ms_waiters s @ [(i, False)]\<rparr>)"

fun wake_first :: "(Instrument \<times> bool) list \<Rightarrow> (Instrument \<times> bool) list" where
  "wake_first [] = []"
| "wake_first ((i, woken) # ws) = (if woken then (i, woken) # wake_first ws else (i, True) # ws)"

definition wake_up_next :: "IGSubscriptions \<Rightarrow> IGSubscriptions" where
  "wake_up_next s =
     (if list_all snd (ms_waiters s) then s
      else s\<lparr>ms_free := ms_free s - 1, ms_waiters := wake_first (ms_waiters s)\<rparr>)"

definition release_slot :: "IGSubscriptions \<Rightarrow> IGSubscriptions" where
  "release_slot s = wake_up_next (s\<lparr>ms_free := ms_free s + 1\<rparr>)"

definition resume_waiter :: "Instrument \<Rightarrow> IGSubscriptions \<Rightarrow> IGSubscriptions" where
  "resume_waiter i s =
     (let s' = s\<lparr>ms_waiters := remove1 (i, True) (ms_waiters s), ms_pending := ms_pending s @ [i]\<rparr>
      in if 0 < ms_free s' then wake_up_next s' else s')"

definition waiter_cancelled :: "Instrument \<Rightarrow> bool \<Rightarrow> IGSubscriptions \<Rightarrow> IGSubscriptions" where
  "waiter_cancelled i woken s =
     (let s' = s\<lparr>ms_waiters := remove1 (i, woken) (ms_waiters s)\<rparr> in if woken then release_slot s' else s')"

text \<open>\<open>subscribe_bars\<close> up to the slot, and its end once the source has answered.  Cancelling the task meanwhile
  raises \<open>CancelledError\<close>, which \<open>except Exception\<close> does not catch: the slot is not released.\<close>

definition subscribe_begin :: "bool \<Rightarrow> Instrument \<Rightarrow> (IGSubscriptions, unit) sx" where
  "subscribe_begin source_given i =
     (if \<not> source_given then raiseS (NotImplementedError ''IGMarketData.subscribe_bars requires a LightstreamerSource'')
      else bindS (getS (\<lambda>s. cache_get (ms_active s) i)) (\<lambda>live.
           if live \<noteq> None then raiseS (RuntimeError ''IGMarketData.subscribe_bars: already subscribed'')
           else modS (take_slot i)))"

definition subscribe_end :: "Instrument \<Rightarrow> string res \<Rightarrow> (IGSubscriptions, string) sx" where
  "subscribe_end i answer =
     bindS (modS (\<lambda>s. s\<lparr>ms_pending := remove1 i (ms_pending s)\<rparr>)) (\<lambda>_.
     case answer of
       Inl e \<Rightarrow> bindS (modS release_slot) (\<lambda>_. raiseS e)
     | Inr subscription \<Rightarrow>
         bindS (modS (\<lambda>s. s\<lparr>ms_active := cache_put i subscription (ms_active s)\<rparr>)) (\<lambda>_. retS subscription))"

definition subscribe_cancelled :: "Instrument \<Rightarrow> IGSubscriptions \<Rightarrow> IGSubscriptions" where
  "subscribe_cancelled i s = s\<lparr>ms_pending := remove1 i (ms_pending s)\<rparr>"

text \<open>\<open>unsubscribe\<close> up to its await, with whether there is one, and its end once the source has answered; the slot is
  released in the \<open>finally\<close>, whatever the answer, a cancellation of the task included.\<close>

definition unsubscribe_begin :: "bool \<Rightarrow> Instrument \<Rightarrow> (IGSubscriptions, bool) sx" where
  "unsubscribe_begin source_given i =
     bindS (getS (\<lambda>s. cache_get (ms_active s) i)) (\<lambda>live.
     if live = None then retS False
     else bindS (modS (\<lambda>s. s\<lparr>ms_active := cache_pop i (ms_active s)\<rparr>)) (\<lambda>_.
          if \<not> source_given then bindS (modS release_slot) (\<lambda>_. retS False)
          else bindS (modS (\<lambda>s. s\<lparr>ms_closing := ms_closing s @ [i]\<rparr>)) (\<lambda>_. retS True)))"

definition unsubscribe_end :: "Instrument \<Rightarrow> unit res \<Rightarrow> (IGSubscriptions, unit) sx" where
  "unsubscribe_end i answer =
     bindS (modS (\<lambda>s. s\<lparr>ms_closing := remove1 i (ms_closing s)\<rparr>)) (\<lambda>_.
     bindS (modS release_slot) (\<lambda>_. liftS answer))"

text \<open>The whole call when nothing else runs during its await.\<close>

definition ig_unsubscribe :: "bool \<Rightarrow> Instrument \<Rightarrow> unit res \<Rightarrow> (IGSubscriptions, unit) sx" where
  "ig_unsubscribe source_given i answer =
     bindS (unsubscribe_begin source_given i) (\<lambda>awaits. if awaits then unsubscribe_end i answer else retS ())"

definition ig_subscribe_trades :: "Instrument \<Rightarrow> (IGSubscriptions, unit) sx" where
  "ig_subscribe_trades i = raiseS (NotImplementedError ''IGMarketData.subscribe_trades is out of scope for v1'')"

section \<open>Historical bars read\<close>

lemma mk_Bar_error: "mk_Bar b = Inl e \<Longrightarrow> \<exists>m. e = ValueError m"
proof -
  assume "mk_Bar b = Inl e"
  then have "checks (Bar_checks b) = Inl e" by (simp add: mk_Bar_def validated_def split: sum.splits)
  then show ?thesis by (rule checks_ValueError) (simp add: Bar_checks_def require_utc_def)
qed

lemma mid_price_ok: "mid_price a b \<noteq> Inl e"
  using ddiv_pos [of "dint 2" "dadd a b"] by (auto simp: mid_price_def)

lemma ohlc_value_error: "ohlc_value entry field = Inl e \<Longrightarrow> e = InvalidOperation \<or> (\<exists>m. e = ValueError m)"
  by (auto simp: ohlc_value_def bindR_eq_Inl mid_price_ok split: json.splits if_splits dest: json_decimal_error)

lemma parse_price_bar_error: "parse_price_bar i dur entry = Inl e \<Longrightarrow> e = InvalidOperation \<or> (\<exists>m. e = ValueError m)"
  by (auto simp: parse_price_bar_def bindR_eq_Inl split: json.splits if_splits
      dest: ohlc_value_error json_decimal_error mk_Bar_error parse_ig_timestamp_error)

definition bar_outcomes :: "Instrument \<Rightarrow> int \<Rightarrow> json \<Rightarrow> Bar res option list" where
  "bar_outcomes i dur body =
     map (\<lambda>entry. case entry of JObj kvs \<Rightarrow> Some (parse_price_bar i dur kvs) | _ \<Rightarrow> None) (entries_of body ''prices'')"

lemma parse_bars_spec:
  "parse_bars i dur entries =
     (let outcomes = map (\<lambda>entry. case entry of JObj kvs \<Rightarrow> Some (parse_price_bar i dur kvs) | _ \<Rightarrow> None) entries
      in if Some (Inl InvalidOperation) \<in> set outcomes then Inl InvalidOperation else Inr (List.map_filter read_ok outcomes))"
proof (induction entries)
  case (Cons entry entries)
  show ?case
  proof (cases "\<exists>kvs. entry = JObj kvs")
    case True
    then obtain kvs where kvs: "entry = JObj kvs" by blast
    show ?thesis
    proof (cases "parse_price_bar i dur kvs")
      case (Inl e)
      from parse_price_bar_error [OF Inl] Inl kvs Cons show ?thesis by (auto simp: Let_def List.map_filter_simps)
    next
      case (Inr bar)
      with kvs Cons show ?thesis by (auto simp: Let_def List.map_filter_simps)
    qed
  next
    case False
    with Cons show ?thesis by (auto simp: Let_def List.map_filter_simps split: json.splits)
  qed
qed (simp add: List.map_filter_simps)

definition bar_of :: "Instrument \<Rightarrow> int \<Rightarrow> Bar \<Rightarrow> bool" where
  "bar_of i dur b \<longleftrightarrow> mk_Bar b = Inr b \<and> b_instrument b = i \<and> dt_instant (b_close_time b) = dt_instant (b_open_time b) + dur"

lemma mk_Bar_bar_of:
  "mk_Bar b = Inr b' \<Longrightarrow> b_instrument b = i \<Longrightarrow> dt_instant (b_close_time b) = dt_instant (b_open_time b) + dur \<Longrightarrow> bar_of i dur b'"
  by (auto simp: mk_Bar_def validated_eq_Inr bar_of_def)

lemma parse_price_bar_of: "parse_price_bar i dur entry = Inr b \<Longrightarrow> bar_of i dur b"
  by (auto simp: parse_price_bar_def split: json.splits if_splits elim!: mk_Bar_bar_of)

section \<open>The stream read\<close>

text \<open>The value a field was last given.\<close>

definition last_value :: "chart_update \<Rightarrow> chart_state" where
  "last_value us k = (case rev (filter (\<lambda>(k', v). k' = k \<and> v \<noteq> None) us) of [] \<Rightarrow> None | kv # _ \<Rightarrow> snd kv)"

lemma set_field_last: "set_field x (last_value us) = last_value (us @ [x])"
proof
  fix k
  show "set_field x (last_value us) k = last_value (us @ [x]) k"
    by (cases x; cases "snd x") (auto simp: last_value_def)
qed

lemma merge_update_last: "merge_update u (last_value us) = last_value (us @ u)"
  unfolding merge_update_def
proof (induction u arbitrary: us)
  case (Cons x u)
  from Cons [of "us @ [x]"] show ?case by (simp add: set_field_last)
qed simp

lemma last_value_Nil [simp]: "last_value [] = Map.empty"
  by (rule ext) (simp add: last_value_def)

text \<open>The updates between two consolidations, put together; updates after the last one are not in any segment.\<close>

fun segments :: "chart_update \<Rightarrow> chart_update list \<Rightarrow> chart_update list" where
  "segments cur [] = []"
| "segments cur (u # us) =
     (if last_value (cur @ u) ''CONS_END'' = Some ''1'' then (cur @ u) # segments [] us else segments (cur @ u) us)"

fun yields :: "Bar res list \<Rightarrow> Bar list \<times> exn option" where
  "yields [] = ([], None)"
| "yields (Inr bar # rs) = (case yields rs of (bars, e) \<Rightarrow> (bar # bars, e))"
| "yields (Inl e # rs) = (if parse_failure e then yields rs else ([], Some e))"

lemma bar_stream_segments:
  "bar_stream i dur (last_value cur) us = yields (map (build_bar_from_state i dur \<circ> last_value) (segments cur us))"
proof (induction us arbitrary: cur)
  case (Cons u us)
  show ?case
  proof (cases "last_value (cur @ u) ''CONS_END'' = Some ''1''")
    case False
    with Cons [of "cur @ u"] show ?thesis by (simp add: stream_step_def merge_update_last)
  next
    case True
    with Cons [of "[]"] show ?thesis
      by (cases "build_bar_from_state i dur (last_value (cur @ u))") (simp_all add: stream_step_def merge_update_last)
  qed
qed simp

lemma build_bar_of: "build_bar_from_state i dur st = Inr b \<Longrightarrow> bar_of i dur b"
  by (auto simp: build_bar_from_state_def Let_def split: option.splits if_splits elim!: mk_Bar_bar_of)

lemma yields_all: "list_all (\<lambda>r. case r of Inl _ \<Rightarrow> True | Inr b \<Rightarrow> P b) rs \<Longrightarrow> list_all P (fst (yields rs))"
  by (induction rs rule: yields.induct) (auto split: prod.split)

section \<open>The budget\<close>

definition under_way :: "IGSubscriptions \<Rightarrow> Instrument list" where
  "under_way s = ms_pending s @ map fst (ms_waiters s)"

text \<open>What may happen between two awaits, and how many subscriptions were cancelled while they held a slot.\<close>

inductive subs_run :: "nat \<Rightarrow> nat \<Rightarrow> IGSubscriptions \<Rightarrow> bool" for n where
  Start: "subs_run n 0 (subscriptions_init n)"
| Begin: "subs_run n k s \<Longrightarrow> list_all (\<lambda>j. \<not> inst_eq i j) (under_way s) \<Longrightarrow> subs_run n k (snd (subscribe_begin source_given i s))"
| Resume: "subs_run n k s \<Longrightarrow> (i, True) \<in> set (ms_waiters s) \<Longrightarrow> subs_run n k (resume_waiter i s)"
| GiveUp: "subs_run n k s \<Longrightarrow> (i, woken) \<in> set (ms_waiters s) \<Longrightarrow> subs_run n k (waiter_cancelled i woken s)"
| Finish: "subs_run n k s \<Longrightarrow> i \<in> set (ms_pending s) \<Longrightarrow> subs_run n k (snd (subscribe_end i answer s))"
| Cancelled: "subs_run n k s \<Longrightarrow> i \<in> set (ms_pending s) \<Longrightarrow> subs_run n (Suc k) (subscribe_cancelled i s)"
| Unsubscribe: "subs_run n k s \<Longrightarrow> subs_run n k (snd (unsubscribe_begin source_given' i s))"
| Closed: "subs_run n k s \<Longrightarrow> i \<in> set (ms_closing s) \<Longrightarrow> subs_run n k (snd (unsubscribe_end i answer' s))"

definition slots_held :: "IGSubscriptions \<Rightarrow> nat" where
  "slots_held s = length (filter snd (ms_waiters s)) + length (ms_pending s) + length (ms_active s) + length (ms_closing s)"

definition waits_served :: "IGSubscriptions \<Rightarrow> bool" where
  "waits_served s \<longleftrightarrow> ms_free s = 0 \<or> ms_waiters s = [] \<or> list_ex snd (ms_waiters s)"

definition subs_apart :: "IGSubscriptions \<Rightarrow> bool" where
  "subs_apart s \<longleftrightarrow> cache_wf (ms_active s) \<and> list_all (\<lambda>i. cache_get (ms_active s) i = None) (under_way s) \<and>
     sorted_wrt (\<lambda>i j. \<not> inst_eq i j) (under_way s)"

definition subs_ok :: "nat \<Rightarrow> IGSubscriptions \<Rightarrow> bool" where
  "subs_ok m s \<longleftrightarrow> ms_free s + slots_held s = m \<and> waits_served s \<and> subs_apart s"

lemma length_cache_put: "length (cache_put i v c) = (if cache_get c i = None then Suc (length c) else length c)"
  by (induction i v c rule: cache_put.induct) auto

lemma length_cache_pop: "length (cache_pop i c) = (if cache_get c i = None then length c else length c - 1)"
proof (induction i c rule: cache_pop.induct)
  case (2 i k w c)
  then show ?case by (cases c) auto
qed simp

lemma sorted_wrt_remove1: "sorted_wrt P xs \<Longrightarrow> sorted_wrt P (remove1 x xs)"
  by (induction xs) (auto dest: notin_set_remove1)

lemma remove1_apart:
  assumes "sorted_wrt (\<lambda>i j. \<not> inst_eq i j) xs" "i \<in> set xs"
  shows "list_all (\<lambda>j. \<not> inst_eq i j) (remove1 i xs)"
proof -
  from assms(2) obtain ys zs where s: "xs = ys @ i # zs" "i \<notin> set ys" using split_list_first by metis
  then have "remove1 i xs = ys @ zs" by (simp add: remove1_append)
  with s assms(1) show ?thesis using inst_eq_sym by (auto simp: sorted_wrt_append list_all_iff)
qed

lemma wake_first_facts [simp]:
  "map fst (wake_first ws) = map fst ws" "list_all snd ws \<Longrightarrow> wake_first ws = ws"
  "\<not> list_all snd ws \<Longrightarrow> length (filter snd (wake_first ws)) = Suc (length (filter snd ws)) \<and> list_ex snd (wake_first ws)"
  by (induction ws rule: wake_first.induct) auto

lemma wake_up_next_ok:
  assumes "0 < ms_free s" "ms_free s + slots_held s = m" "subs_apart s"
  shows "subs_ok m (wake_up_next s)"
  using assms
  by (cases "ms_waiters s") (auto simp: subs_ok_def wake_up_next_def slots_held_def waits_served_def subs_apart_def under_way_def)

lemma release_slot_ok: "Suc (ms_free s + slots_held s) = m \<Longrightarrow> subs_apart s \<Longrightarrow> subs_ok m (release_slot s)"
  unfolding release_slot_def by (rule wake_up_next_ok) (simp_all add: slots_held_def subs_apart_def under_way_def)

lemma take_slot_ok:
  assumes "subs_ok m s" "list_all (\<lambda>j. \<not> inst_eq i j) (under_way s)" "cache_get (ms_active s) i = None"
  shows "subs_ok m (take_slot i s)"
  using assms inst_eq_sym
  by (auto simp: subs_ok_def slots_held_def waits_served_def subs_apart_def take_slot_def under_way_def sorted_wrt_append list_all_iff)

text \<open>A waiter leaves the queue, for its slot or for good.\<close>

lemma waiter_leaves:
  assumes "(i, w) \<in> set (ms_waiters s)" "subs_apart s"
  shows "subs_apart (s\<lparr>ms_waiters := remove1 (i, w) (ms_waiters s)\<rparr>)"
    "subs_apart (s\<lparr>ms_waiters := remove1 (i, w) (ms_waiters s), ms_pending := ms_pending s @ [i]\<rparr>)"
    "length (filter snd (ms_waiters s)) = length (filter snd (remove1 (i, w) (ms_waiters s))) + (if w then 1 else 0)"
proof -
  from assms(1) obtain ys zs where s: "ms_waiters s = ys @ (i, w) # zs" "(i, w) \<notin> set ys" using split_list_first by metis
  then have r: "remove1 (i, w) (ms_waiters s) = ys @ zs" by (simp add: remove1_append)
  show "subs_apart (s\<lparr>ms_waiters := remove1 (i, w) (ms_waiters s)\<rparr>)"
    "subs_apart (s\<lparr>ms_waiters := remove1 (i, w) (ms_waiters s), ms_pending := ms_pending s @ [i]\<rparr>)"
    unfolding r using assms(2) inst_eq_sym by (auto simp: subs_apart_def under_way_def s(1) sorted_wrt_append list_all_iff)
  show "length (filter snd (ms_waiters s)) = length (filter snd (remove1 (i, w) (ms_waiters s))) + (if w then 1 else 0)"
    unfolding r by (simp add: s(1))
qed

lemma resume_waiter_ok:
  assumes "subs_ok m s" "(i, True) \<in> set (ms_waiters s)"
  shows "subs_ok m (resume_waiter i s)"
proof -
  let ?s = "s\<lparr>ms_waiters := remove1 (i, True) (ms_waiters s), ms_pending := ms_pending s @ [i]\<rparr>"
  have a: "subs_apart ?s" "ms_free ?s + slots_held ?s = m"
    using assms waiter_leaves [OF assms(2)] by (simp_all add: subs_ok_def slots_held_def)
  show ?thesis
  proof (cases "0 < ms_free s")
    case True
    with wake_up_next_ok [OF _ a(2,1)] show ?thesis by (simp add: resume_waiter_def)
  next
    case False
    with a show ?thesis by (simp add: resume_waiter_def subs_ok_def waits_served_def)
  qed
qed

lemma waiter_cancelled_ok:
  assumes "subs_ok m s" "(i, w) \<in> set (ms_waiters s)"
  shows "subs_ok m (waiter_cancelled i w s)"
proof -
  let ?s = "s\<lparr>ms_waiters := remove1 (i, w) (ms_waiters s)\<rparr>"
  note l = waiter_leaves [OF assms(2)]
  have a: "subs_apart ?s" using assms l by (simp add: subs_ok_def)
  show ?thesis
  proof (cases w)
    case True
    then have "Suc (ms_free ?s + slots_held ?s) = m" using assms l by (simp add: subs_ok_def slots_held_def)
    from release_slot_ok [OF this a] True show ?thesis by (simp add: waiter_cancelled_def)
  next
    case False
    have "waits_served ?s"
    proof (cases "list_ex snd (ms_waiters s)")
      case True
      then obtain j where "(j, True) \<in> set (ms_waiters s)" by (auto simp: list_ex_iff)
      then have "(j, True) \<in> set (remove1 (i, w) (ms_waiters s))" using False by (simp add: in_set_remove1)
      then show ?thesis by (force simp: waits_served_def list_ex_iff)
    qed (use assms in \<open>auto simp: subs_ok_def waits_served_def\<close>)
    then show ?thesis using False a l assms by (simp add: waiter_cancelled_def subs_ok_def slots_held_def)
  qed
qed

text \<open>A subscription under way ends: it fails, it is live, or its task was cancelled and its slot is lost.\<close>

lemma pending_ends:
  assumes "subs_ok m s" "i \<in> set (ms_pending s)"
  shows "subs_apart (subscribe_cancelled i s)" "Suc (ms_free s + slots_held (subscribe_cancelled i s)) = m"
    "list_all (\<lambda>j. \<not> inst_eq i j) (under_way (subscribe_cancelled i s))" "cache_get (ms_active s) i = None"
proof -
  have uw: "under_way (subscribe_cancelled i s) = remove1 i (under_way s)"
    using assms(2) by (simp add: under_way_def subscribe_cancelled_def remove1_append)
  have len: "length (ms_pending s) = Suc (length (remove1 i (ms_pending s)))"
    using assms(2) length_pos_if_in_set [OF assms(2)] by (simp add: length_remove1)
  show "subs_apart (subscribe_cancelled i s)"
    using assms(1) unfolding subs_apart_def uw
    by (auto simp: subs_ok_def subs_apart_def subscribe_cancelled_def sorted_wrt_remove1 list_all_iff dest: notin_set_remove1)
  show "Suc (ms_free s + slots_held (subscribe_cancelled i s)) = m"
    using assms(1) len by (simp add: subs_ok_def slots_held_def subscribe_cancelled_def)
  show "list_all (\<lambda>j. \<not> inst_eq i j) (under_way (subscribe_cancelled i s))"
    unfolding uw using assms by (intro remove1_apart) (auto simp: subs_ok_def subs_apart_def under_way_def)
  show "cache_get (ms_active s) i = None" using assms by (auto simp: subs_ok_def subs_apart_def under_way_def list_all_iff)
qed

lemma subscribe_end_ok:
  assumes "subs_ok m s" "i \<in> set (ms_pending s)"
  shows "subs_ok m (snd (subscribe_end i answer s))"
proof (cases answer)
  case (Inl e)
  have "subs_ok m (release_slot (subscribe_cancelled i s))"
    using pending_ends [OF assms] by (intro release_slot_ok) (simp_all add: subscribe_cancelled_def)
  with Inl show ?thesis by (simp add: subscribe_end_def subscribe_cancelled_def)
next
  case (Inr item)
  have "subs_ok m (subscribe_cancelled i s\<lparr>ms_active := cache_put i item (ms_active s)\<rparr>)"
    using assms(1) pending_ends [OF assms]
    by (auto simp: subs_ok_def slots_held_def waits_served_def subs_apart_def under_way_def subscribe_cancelled_def length_cache_put
        cache_wf_put cache_get_put list_all_iff)
  with Inr show ?thesis by (simp add: subscribe_end_def subscribe_cancelled_def)
qed

lemma subscribe_cancelled_ok:
  assumes "subs_ok (Suc m) s" "i \<in> set (ms_pending s)"
  shows "subs_ok m (subscribe_cancelled i s)"
  using assms(1) pending_ends [OF assms] by (simp add: subs_ok_def waits_served_def subscribe_cancelled_def)

lemma unsubscribe_begin_ok:
  assumes "subs_ok m s"
  shows "subs_ok m (snd (unsubscribe_begin source_given i s))"
proof (cases "cache_get (ms_active s) i")
  case (Some item)
  let ?s = "s\<lparr>ms_active := cache_pop i (ms_active s)\<rparr>"
  have "length (ms_active s) = Suc (length (cache_pop i (ms_active s)))"
    using Some by (cases "ms_active s") (auto simp: length_cache_pop)
  then have a: "subs_apart ?s" "Suc (ms_free ?s + slots_held ?s) = m"
    using assms by (auto simp: subs_ok_def slots_held_def subs_apart_def under_way_def cache_wf_pop cache_get_pop list_all_iff)
  then have "subs_ok m (?s\<lparr>ms_closing := ms_closing s @ [i]\<rparr>)"
    using assms by (simp add: subs_ok_def slots_held_def waits_served_def subs_apart_def under_way_def)
  with release_slot_ok [OF a(2,1)] Some show ?thesis by (simp add: unsubscribe_begin_def)
qed (use assms in \<open>simp add: unsubscribe_begin_def\<close>)

lemma unsubscribe_end_ok:
  assumes "subs_ok m s" "i \<in> set (ms_closing s)"
  shows "subs_ok m (snd (unsubscribe_end i answer s))"
proof -
  let ?s = "s\<lparr>ms_closing := remove1 i (ms_closing s)\<rparr>"
  have "length (ms_closing s) = Suc (length (remove1 i (ms_closing s)))"
    using assms(2) length_pos_if_in_set [OF assms(2)] by (simp add: length_remove1)
  then have "subs_ok m (release_slot ?s)"
    using assms by (intro release_slot_ok) (auto simp: subs_ok_def slots_held_def subs_apart_def under_way_def)
  then show ?thesis by (simp add: unsubscribe_end_def)
qed

lemma subs_run_ok: "subs_run n k s \<Longrightarrow> k \<le> n \<and> subs_ok (n - k) s"
proof (induction rule: subs_run.induct)
  case Start
  then show ?case by (simp add: subs_ok_def subscriptions_init_def slots_held_def waits_served_def subs_apart_def under_way_def)
next
  case (Begin k s i source_given)
  then show ?case by (simp add: subscribe_begin_def take_slot_ok)
next
  case (Cancelled k s i)
  then have "0 < length (ms_pending s)" "length (ms_pending s) \<le> n - k"
    using length_pos_if_in_set [of i "ms_pending s"] by (auto simp: subs_ok_def slots_held_def)
  then have "Suc (n - Suc k) = n - k" by arith
  with Cancelled subscribe_cancelled_ok [of "n - Suc k" s i] show ?case by auto
qed (simp_all add: resume_waiter_ok waiter_cancelled_ok subscribe_end_ok unsubscribe_begin_ok unsubscribe_end_ok)

section \<open>Properties\<close>

text \<open>The bars read from IG: they come in the order of their opening, one per entry that can be read, each a valid
  bar of the instrument lasting the bar's length; entries of another shape are skipped.  But one number that is not
  a decimal, in whichever entry, makes the whole read raise.\<close>

theorem ig_history_read:
  assumes "utc_off t0 \<noteq> None" "utc_off t1 \<noteq> None" "t0 < t1"
    and "ig_resolve w i s = (Inr epic, s1)" "(freq, resolution) \<in> set FREQ_TO_IG_RESOLUTION" "(freq, dur) \<in> set FREQ_TO_TIMEDELTA"
    and "format_ig_datetime t0 = Inr from_text" "format_ig_datetime t1 = Inr to_text"
    and "via_client (client_get w (''/prices/'' @ epic @ ''/'' @ resolution @ ''/'' @ from_text @ ''/'' @ to_text) 3 [] ''historical_prices'') s1
      = (Inr body, s2)"
  shows "ig_historical_bars w i freq t0 t1 s =
      (if Some (Inl InvalidOperation) \<in> set (bar_outcomes i dur body) then Inl InvalidOperation
       else Inr (sort_key (\<lambda>b. dt_instant (b_open_time b)) (List.map_filter read_ok (bar_outcomes i dur body))), s2) \<and>
    list_all (bar_of i dur) (List.map_filter read_ok (bar_outcomes i dur body))"
proof
  have "lookup_freq FREQ_TO_IG_RESOLUTION freq = Inr resolution" "lookup_freq FREQ_TO_TIMEDELTA freq = Inr dur"
    using assms(5,6) by (auto simp: lookup_freq_def FREQ_TO_IG_RESOLUTION_def FREQ_TO_TIMEDELTA_def)
  moreover have "\<not> t1 \<le> t0" using assms(3) by (simp add: less_eq_datetime_def less_datetime_def)
  ultimately show "ig_historical_bars w i freq t0 t1 s =
      (if Some (Inl InvalidOperation) \<in> set (bar_outcomes i dur body) then Inl InvalidOperation
       else Inr (sort_key (\<lambda>b. dt_instant (b_open_time b)) (List.map_filter read_ok (bar_outcomes i dur body))), s2)"
    using assms(1,2,4,7-9) by (simp add: ig_historical_bars_def bindS_def parse_bars_spec bar_outcomes_def Let_def)
next
  show "list_all (bar_of i dur) (List.map_filter read_ok (bar_outcomes i dur body))"
    by (auto simp: list_all_iff in_map_filter read_ok_Some bar_outcomes_def parse_price_bar_of split: json.splits)
qed

text \<open>C15: the streamed bars: cutting the updates after every one that ends a consolidation, the stream yields for each piece
  the bar built from the value each field was last given in it, skipping the pieces that make no bar, and stops at the first
  one with an unreadable number; no value crosses from one bar into the next, and every bar is a valid bar of the instrument
  lasting the bar's length.\<close>

theorem stream_bars_of_segments:
  "bar_stream i dur Map.empty updates = yields (map (build_bar_from_state i dur \<circ> last_value) (segments [] updates)) \<and>
    list_all (bar_of i dur) (fst (bar_stream i dur Map.empty updates))"
proof -
  have eq: "bar_stream i dur Map.empty updates = yields (map (build_bar_from_state i dur \<circ> last_value) (segments [] updates))"
    using bar_stream_segments [of i dur "[]" updates] by simp
  have "list_all (\<lambda>r. case r of Inl _ \<Rightarrow> True | Inr b \<Rightarrow> bar_of i dur b) (map (build_bar_from_state i dur \<circ> last_value) (segments [] updates))"
    by (auto simp: list_all_iff build_bar_of split: sum.split)
  with eq yields_all show ?thesis by simp
qed

text \<open>C25: the subscription budget: as long as no instrument is subscribed to while a subscription to it is under way, however
  subscriptions, their failures, cancellations of waiting ones, unsubscriptions and the answers to all of these interleave,
  every slot of the budget is free, handed to a waiter that has yet to go on, or held by a subscription under way, a live one or
  one being unsubscribed from, except one slot for each subscription whose task was cancelled while it held it, lost for good;
  and nobody waits while a slot is free unless a waiter that was handed one has yet to go on (and then hands on the next).\<close>

theorem subscription_budget_kept:
  assumes "subs_run n lost s"
  shows "ms_free s + length (filter snd (ms_waiters s)) + length (ms_pending s) + length (ms_active s) + length (ms_closing s) + lost = n \<and>
    (ms_free s = 0 \<or> ms_waiters s = [] \<or> list_ex snd (ms_waiters s))"
  using subs_run_ok [OF assms] by (auto simp: subs_ok_def slots_held_def waits_served_def)

section \<open>Slots lost\<close>

text \<open>Two subscriptions to one instrument that overlap both pass the check; the second answer replaces the first, and unsubscribing
  gives back one of the two slots: the other is lost for good.\<close>

definition overlapped :: "nat \<Rightarrow> Instrument \<Rightarrow> string \<Rightarrow> string \<Rightarrow> IGSubscriptions" where
  "overlapped n i a b =
     snd (ig_unsubscribe True i (Inr ()) (snd (subscribe_end i (Inr b) (snd (subscribe_end i (Inr a)
       (snd (subscribe_begin True i (snd (subscribe_begin True i (subscriptions_init n))))))))))"

lemma overlapping_subscriptions_leak:
  "2 \<le> n \<Longrightarrow> ms_active (overlapped n i a b) = [] \<and> ms_pending (overlapped n i a b) = [] \<and> ms_waiters (overlapped n i a b) = [] \<and>
     ms_closing (overlapped n i a b) = [] \<and> ms_free (overlapped n i a b) = n - 1"
  by (auto simp: overlapped_def subscribe_begin_def subscribe_end_def ig_unsubscribe_def unsubscribe_begin_def unsubscribe_end_def bindS_def
      take_slot_def release_slot_def wake_up_next_def subscriptions_init_def)

text \<open>Every subscription cancelled while it waits for IG (by a timeout around it, say) takes a slot with it: after as many as the
  budget has slots, nothing is subscribed to and no slot is free.\<close>

lemma cancelled_subscriptions_leak:
  "k \<le> n \<Longrightarrow> ((\<lambda>s. subscribe_cancelled i (snd (subscribe_begin True i s))) ^^ k) (subscriptions_init n) = (subscriptions_init n)\<lparr>ms_free := n - k\<rparr>"
  by (induction k) (simp_all add: subscribe_begin_def subscribe_cancelled_def take_slot_def subscriptions_init_def)

section \<open>Witnesses\<close>

definition igx_price :: "string \<Rightarrow> json" where
  "igx_price t = JObj [(''bid'', JNum t), (''ask'', JNum t)]"

definition igx_bar_entry :: "string \<Rightarrow> json" where
  "igx_bar_entry time = JObj [(''snapshotTimeUTC'', JStr time), (''openPrice'', igx_price ''10''), (''highPrice'', igx_price ''12''),
     (''lowPrice'', igx_price ''9''), (''closePrice'', igx_price ''11''), (''lastTradedVolume'', JNum ''100'')]"

definition igx_prices :: json where
  "igx_prices = JObj [(''prices'', JArr [igx_bar_entry ''2026-04-28T09:01:00'', JNull, igx_bar_entry ''2026-04-28T09:00:00''])]"

definition igx_price_wire :: ig_wire where
  "igx_price_wire = \<lparr>wi_answer = (\<lambda>n q. Some (
     if rq_path q = ''/markets/IX.D.CAC40.CASH.IP'' then igx_response 200 igx_market None
     else if rq_path q = ''/prices/IX.D.CAC40.CASH.IP/MINUTE/2026-04-28T09:00:00/2026-04-28T09:02:00'' then igx_response 200 igx_prices None
     else igx_response 404 (JObj []) None)), wi_bucket = (\<lambda>b. True)\<rparr>"

definition igx_path :: string where
  "igx_path = ''/prices/IX.D.CAC40.CASH.IP/MINUTE/2026-04-28T09:00:00/2026-04-28T09:02:00''"

lemma igx_history_epic: "fst (ig_resolve igx_price_wire igx_cac igx_resolver) = Inr ''IX.D.CAC40.CASH.IP''"
  by code_simp

lemma igx_history_from: "format_ig_datetime (utc 1777366800000000) = Inr ''2026-04-28T09:00:00''"
  by code_simp

lemma igx_history_to: "format_ig_datetime (utc 1777366920000000) = Inr ''2026-04-28T09:02:00''"
  by code_simp

lemma igx_history_body: "fst (via_client (client_get igx_price_wire igx_path 3 [] ''historical_prices'') (snd (ig_resolve igx_price_wire igx_cac igx_resolver))) = Inr igx_prices"
  by code_simp

lemma igx_history_readable: "Some (Inl InvalidOperation) \<notin> set (bar_outcomes igx_cac 60000000 igx_prices)"
  by code_simp

lemma igx_history_sorted: "map b_open_time (sort_key (\<lambda>b. dt_instant (b_open_time b)) (List.map_filter read_ok (bar_outcomes igx_cac 60000000 igx_prices)))
     = [utc 1777366800000000, utc 1777366860000000]"
  by code_simp

theorem ig_history_read_witness:
  "\<exists>bars. fst (ig_historical_bars igx_price_wire igx_cac ''1m'' (utc 1777366800000000) (utc 1777366920000000) igx_resolver) = Inr bars \<and>
     map b_open_time bars = [utc 1777366800000000, utc 1777366860000000]"
proof -
  obtain s1 where r: "ig_resolve igx_price_wire igx_cac igx_resolver = (Inr ''IX.D.CAC40.CASH.IP'', s1)"
    using igx_history_epic by (metis prod.collapse)
  obtain s2 where g: "via_client (client_get igx_price_wire igx_path 3 [] ''historical_prices'') s1 = (Inr igx_prices, s2)"
    using igx_history_body r by (metis prod.collapse snd_conv)
  have t: "utc 1777366800000000 < utc 1777366920000000" by (simp add: less_datetime_def)
  have path: "''/prices/'' @ ''IX.D.CAC40.CASH.IP'' @ ''/'' @ ''MINUTE'' @ ''/'' @ ''2026-04-28T09:00:00'' @ ''/'' @ ''2026-04-28T09:02:00'' = igx_path"
    by (simp add: igx_path_def)
  have freq: "(''1m'', ''MINUTE'') \<in> set FREQ_TO_IG_RESOLUTION" "(''1m'', 60000000) \<in> set FREQ_TO_TIMEDELTA"
    by (simp_all add: FREQ_TO_IG_RESOLUTION_def FREQ_TO_TIMEDELTA_def)
  have off: "utc_off (utc n) \<noteq> None" for n by simp
  note h = conjunct1 [OF ig_history_read [OF off off t r freq igx_history_from igx_history_to, unfolded path, OF g]]
  have "fst (ig_historical_bars igx_price_wire igx_cac ''1m'' (utc 1777366800000000) (utc 1777366920000000) igx_resolver) =
      Inr (sort_key (\<lambda>b. dt_instant (b_open_time b)) (List.map_filter read_ok (bar_outcomes igx_cac 60000000 igx_prices)))"
    unfolding h fst_conv if_not_P [OF igx_history_readable] ..
  with igx_history_sorted show ?thesis by (intro exI conjI)
qed

text \<open>A budget of one slot: a subscription is live, a second one waits and, while the first is unsubscribed from, is handed the slot.\<close>

definition igx_live :: IGSubscriptions where
  "igx_live = snd (subscribe_end igx_cac (Inr ''CHART'') (snd (subscribe_begin True igx_cac (subscriptions_init 1))))"

definition igx_handed :: IGSubscriptions where
  "igx_handed = snd (unsubscribe_end igx_cac (Inr ()) (snd (unsubscribe_begin True igx_cac
     (snd (subscribe_begin True (igx_cac\<lparr>i_symbol := ''DAX''\<rparr>) igx_live)))))"

theorem subscription_budget_kept_witness:
  "ms_waiters igx_handed = [(igx_cac\<lparr>i_symbol := ''DAX''\<rparr>, True)] \<and> ms_active igx_handed = [] \<and>
    ms_free igx_handed + length (filter snd (ms_waiters igx_handed)) = 1"
proof -
  let ?s = "snd (subscribe_begin True (igx_cac\<lparr>i_symbol := ''DAX''\<rparr>) igx_live)"
  note defs = igx_live_def subscribe_begin_def subscribe_end_def take_slot_def subscriptions_init_def under_way_def
  have "subs_run 1 0 (snd (subscribe_begin True igx_cac (subscriptions_init 1)))"
    by (rule Begin [OF Start]) (simp add: under_way_def subscriptions_init_def)
  then have "subs_run 1 0 igx_live" unfolding igx_live_def by (rule Finish) (simp add: defs)
  then have "subs_run 1 0 ?s" by (rule Begin) (simp add: defs)
  then have u: "subs_run 1 0 (snd (unsubscribe_begin True igx_cac ?s))" by (rule Unsubscribe)
  have "subs_run 1 0 igx_handed" unfolding igx_handed_def by (rule Closed [OF u]) code_simp
  from subscription_budget_kept [OF this] have "ms_free igx_handed + length (filter snd (ms_waiters igx_handed)) \<le> 1" by simp
  moreover have "ms_waiters igx_handed = [(igx_cac\<lparr>i_symbol := ''DAX''\<rparr>, True)] \<and> ms_active igx_handed = []" by code_simp
  ultimately show ?thesis by simp
qed

end
