(* ===== verification/IBMarketData.thy ===== *)
theory IBMarketData
  imports IGMarketData IBContracts
begin

text \<open>
  \<open>src/blive/adapters/ib/market_data.py\<close>: the historical bars of IB.  The library's \<open>reqHistoricalDataAsync\<close> is a
  parameter, from its arguments to the bars or an exception; so is the outcome of the rate
  limiter for a number of tokens.  A bar holds the texts of IB's numbers; the span of a request is computed exactly, which
  double precision does for spans of less than a century; a text that is no finite number is unreadable.
\<close>

section \<open>Requests\<close>

definition BAR_FREQ_TO_IB_BAR_SIZE :: "(string \<times> string) list" where
  "BAR_FREQ_TO_IB_BAR_SIZE = [(''1m'', ''1 min''), (''5m'', ''5 mins''), (''15m'', ''15 mins''), (''1h'', ''1 hour''), (''1d'', ''1 day'')]"

definition duration_for_freq :: "string \<Rightarrow> int res" where
  "duration_for_freq freq =
     (if freq = ''1m'' then Inr 60000000
      else if freq = ''5m'' then Inr 300000000
      else if freq = ''15m'' then Inr 900000000
      else if freq = ''1h'' then Inr 3600000000
      else if freq = ''1d'' then Inr 86400000000
      else Inl (ValueError ''Unknown BarFreq''))"

text \<open>The number and the unit of \<open>durationStr\<close>.\<close>

definition duration_for_range :: "datetime \<Rightarrow> datetime \<Rightarrow> string \<Rightarrow> int \<times> char" where
  "duration_for_range start_time end_time freq =
     (let delta = dt_instant end_time - dt_instant start_time
      in if delta \<le> 0 then (1, CHR ''D'')
         else if freq = ''1d'' then
           let days = max 1 ((delta + 86399000000) div 86400000000)
           in if 365 < days then (max 1 ((days + 364) div 365), CHR ''Y'') else (days, CHR ''D'')
         else (min (max 60 (delta div 1000000)) 86400, CHR ''S''))"

definition duration_str_for_range :: "datetime \<Rightarrow> datetime \<Rightarrow> string \<Rightarrow> string" where
  "duration_str_for_range start_time end_time freq = (case duration_for_range start_time end_time freq of (n, u) \<Rightarrow> show_int n @ [CHR '' '', u])"

section \<open>Bars\<close>

text \<open>The date of a bar: a \<open>datetime\<close>, or a \<open>date\<close> as the day counted from 1970-01-01.\<close>

datatype ib_date = IbDatetime datetime | IbDate int

record IbBar =
  ibb_date :: ib_date
  ibb_open :: string
  ibb_high :: string
  ibb_low :: string
  ibb_close :: string
  ibb_volume :: string
  ibb_average :: "string option"

definition ib_open_time :: "ib_date \<Rightarrow> datetime" where
  "ib_open_time d =
     (case d of
        IbDatetime t \<Rightarrow> if utc_off t = None then as_utc t else utc (dt_instant t)
      | IbDate day \<Rightarrow> utc (day * 86400000000))"

definition ib_vwap :: "string option \<Rightarrow> decimal option res" where
  "ib_vwap average =
     (case average of
        None \<Rightarrow> Inr None
      | Some text \<Rightarrow>
          bindR (read_decimal text) (\<lambda>v. if dec_eq v dzero \<or> dec_eq v (dint (- 1)) then Inr None else Inr (Some v)))"

definition parse_ib_bar :: "Instrument \<Rightarrow> string \<Rightarrow> IbBar \<Rightarrow> Bar res" where
  "parse_ib_bar i freq ib_bar =
     bindR (duration_for_freq freq) (\<lambda>bar_duration.
     bindR (read_decimal (ibb_open ib_bar)) (\<lambda>open_p.
     bindR (read_decimal (ibb_high ib_bar)) (\<lambda>high_p.
     bindR (read_decimal (ibb_low ib_bar)) (\<lambda>low_p.
     bindR (read_decimal (ibb_close ib_bar)) (\<lambda>close_p.
     bindR (read_decimal (ibb_volume ib_bar)) (\<lambda>volume.
     bindR (ib_vwap (ibb_average ib_bar)) (\<lambda>vwap.
     mk_Bar \<lparr>b_instrument = i, b_open_time = ib_open_time (ibb_date ib_bar),
       b_close_time = dt_add_us (ib_open_time (ibb_date ib_bar)) bar_duration, b_open = open_p, b_high = high_p, b_low = low_p,
       b_close = close_p, b_volume = floor_volume volume, b_vwap = vwap\<rparr>)))))))"

text \<open>What \<open>except (ValueError, TypeError, AttributeError)\<close> catches.\<close>

fun bar_skipped :: "exn \<Rightarrow> bool" where
  "bar_skipped (ValueError _) = True"
| "bar_skipped (TypeError _) = True"
| "bar_skipped (AttributeError _) = True"
| "bar_skipped _ = False"

definition ib_in_window :: "datetime \<Rightarrow> datetime \<Rightarrow> Bar \<Rightarrow> bool" where
  "ib_in_window start_time end_time bar \<longleftrightarrow> \<not> (b_close_time bar < start_time \<or> end_time \<le> b_open_time bar)"

fun collect_bars :: "Instrument \<Rightarrow> string \<Rightarrow> datetime \<Rightarrow> datetime \<Rightarrow> IbBar list \<Rightarrow> Bar list res" where
  "collect_bars i freq t0 t1 [] = Inr []"
| "collect_bars i freq t0 t1 (x # xs) =
     (case parse_ib_bar i freq x of
        Inl e \<Rightarrow> if bar_skipped e then collect_bars i freq t0 t1 xs else Inl e
      | Inr bar \<Rightarrow> bindR (collect_bars i freq t0 t1 xs) (\<lambda>bars. Inr (if ib_in_window t0 t1 bar then bar # bars else bars)))"

definition history_tokens :: "string \<Rightarrow> nat" where
  "history_tokens what_to_show = (if what_to_show = ''BID_ASK'' then 2 else 1)"

definition ib_historical_bars :: "(nat \<Rightarrow> unit res) \<Rightarrow> (Contract \<Rightarrow> datetime \<Rightarrow> string \<Rightarrow> string \<Rightarrow> string \<Rightarrow> bool \<Rightarrow> IbBar list res)
    \<Rightarrow> Instrument \<Rightarrow> string \<Rightarrow> datetime \<Rightarrow> datetime \<Rightarrow> string \<Rightarrow> bool \<Rightarrow> Bar list res" where
  "ib_historical_bars acquired request i freq start_time end_time what_to_show use_rth =
     (if utc_off start_time = None \<or> utc_off end_time = None then Inl (ValueError ''historical_bars requires tz-aware start / end (UTC)'')
      else if end_time < start_time then Inl (ValueError ''historical_bars start must be <= end'')
      else case map_of BAR_FREQ_TO_IB_BAR_SIZE freq of
        None \<Rightarrow> Inl (ValueError ''Unsupported BarFreq for IB historical'')
      | Some bar_size \<Rightarrow>
          bindR (to_contract i) (\<lambda>contract.
          bindR (acquired (history_tokens what_to_show)) (\<lambda>_.
          case request contract end_time (duration_str_for_range start_time end_time freq) bar_size what_to_show use_rth of
            Inl _ \<Rightarrow> Inl (IBMarketDataError ''reqHistoricalDataAsync failed'')
          | Inr ib_bars \<Rightarrow>
              bindR (collect_bars i freq start_time end_time ib_bars) (\<lambda>bars.
              Inr (sort_key (\<lambda>b. dt_instant (b_open_time b)) bars)))))"

definition ib_subscribe_bars :: "Instrument \<Rightarrow> string \<Rightarrow> unit res" where
  "ib_subscribe_bars i freq = Inl (NotImplementedError ''IBMarketData.subscribe_bars is not implemented at M2-IB.3b-ii'')"

definition ib_subscribe_trades :: "Instrument \<Rightarrow> unit res" where
  "ib_subscribe_trades i = Inl (NotImplementedError ''IBMarketData.subscribe_trades is not implemented at v1'')"

definition ib_unsubscribe :: "Instrument \<Rightarrow> unit res" where
  "ib_unsubscribe i = Inr ()"

section \<open>Lemmas\<close>

lemma read_decimal_error: "read_decimal s = Inl e \<Longrightarrow> e = InvalidOperation"
  by (auto simp: read_decimal_def split: option.splits)

lemma parse_ib_bar_error: "parse_ib_bar i freq x = Inl e \<Longrightarrow> e = InvalidOperation \<or> (\<exists>m. e = ValueError m)"
  by (auto simp: parse_ib_bar_def bindR_eq_Inl duration_for_freq_def ib_vwap_def split: if_splits option.splits
      dest: read_decimal_error mk_Bar_error)

lemma parse_ib_bar_of:
  "parse_ib_bar i freq x = Inr b \<Longrightarrow> duration_for_freq freq = Inr dur \<Longrightarrow> bar_of i dur b"
  by (auto simp: parse_ib_bar_def elim!: mk_Bar_bar_of)

lemma collect_bars_spec:
  "collect_bars i freq t0 t1 xs =
     (if Inl InvalidOperation \<in> set (map (parse_ib_bar i freq) xs) then Inl InvalidOperation
      else Inr (filter (ib_in_window t0 t1) (List.map_filter (read_ok \<circ> Some \<circ> parse_ib_bar i freq) xs)))"
proof (induction xs)
  case (Cons x xs)
  show ?case
  proof (cases "parse_ib_bar i freq x")
    case (Inl e)
    from parse_ib_bar_error [OF Inl] Inl Cons show ?thesis by (auto simp: List.map_filter_simps comp_def)
  qed (use Cons in \<open>auto simp: List.map_filter_simps comp_def\<close>)
qed (simp add: List.map_filter_simps)

lemma ceiling_div:
  fixes k d :: int
  assumes "0 < d"
  shows "k \<le> (k + (d - 1)) div d * d" "((k + (d - 1)) div d - 1) * d < k"
proof -
  have split: "(k + (d - 1)) div d * d + (k + (d - 1)) mod d = k + (d - 1)" by simp
  have bound: "0 \<le> (k + (d - 1)) mod d" "(k + (d - 1)) mod d < d" using assms by simp_all
  from split bound show "k \<le> (k + (d - 1)) div d * d" by linarith
  have "((k + (d - 1)) div d - 1) * d = (k + (d - 1)) div d * d - d" by (simp add: left_diff_distrib)
  with split bound show "((k + (d - 1)) div d - 1) * d < k" by linarith
qed

lemma seconds_div: "(k * 1000000 + 86399000000) div 86400000000 = (k + (86399::int)) div 86400"
proof -
  have "(k * 1000000 + 86399000000) = (k + 86399) * (1000000::int)" by (simp add: distrib_right)
  moreover have "86400000000 = 86400 * (1000000::int)" by simp
  ultimately show ?thesis using div_mult_mult2 [of "1000000::int" "k + 86399" 86400] by presburger
qed

section \<open>Properties\<close>

text \<open>C35: the bars read from IB: of the bars IB sends, those that can be read and do not lie outside the window asked for, in
  the order of their opening, each a valid bar of the instrument lasting the bar's length and meeting the window; but one
  number that is not a decimal makes the whole read raise.\<close>

theorem ib_history_read:
  assumes "utc_off t0 \<noteq> None" "utc_off t1 \<noteq> None" "t0 \<le> t1" "(freq, bar_size) \<in> set BAR_FREQ_TO_IB_BAR_SIZE"
    and "to_contract i = Inr contract" "acquired (history_tokens what) = Inr ()"
    and "request contract t1 (duration_str_for_range t0 t1 freq) bar_size what rth = Inr ib_bars"
  shows "\<exists>dur bars. duration_for_freq freq = Inr dur \<and>
    bars = sort_key (\<lambda>b. dt_instant (b_open_time b)) (filter (ib_in_window t0 t1) (List.map_filter (read_ok \<circ> Some \<circ> parse_ib_bar i freq) ib_bars)) \<and>
    ib_historical_bars acquired request i freq t0 t1 what rth =
      (if Inl InvalidOperation \<in> set (map (parse_ib_bar i freq) ib_bars) then Inl InvalidOperation else Inr bars) \<and>
    list_all (\<lambda>b. bar_of i dur b \<and> \<not> b_close_time b < t0 \<and> b_open_time b < t1) bars"
proof -
  obtain dur where dur: "duration_for_freq freq = Inr dur"
    using assms(4) by (auto simp: BAR_FREQ_TO_IB_BAR_SIZE_def duration_for_freq_def)
  have size: "map_of BAR_FREQ_TO_IB_BAR_SIZE freq = Some bar_size" using assms(4) by (auto simp: BAR_FREQ_TO_IB_BAR_SIZE_def)
  have "\<not> t1 < t0" using assms(3) by (simp add: less_eq_datetime_def less_datetime_def)
  then have run: "ib_historical_bars acquired request i freq t0 t1 what rth =
      (if Inl InvalidOperation \<in> set (map (parse_ib_bar i freq) ib_bars) then Inl InvalidOperation
       else Inr (sort_key (\<lambda>b. dt_instant (b_open_time b)) (filter (ib_in_window t0 t1) (List.map_filter (read_ok \<circ> Some \<circ> parse_ib_bar i freq) ib_bars))))"
    using assms(1,2,5,6,7) size by (simp add: ib_historical_bars_def collect_bars_spec)
  have "list_all (\<lambda>b. bar_of i dur b \<and> \<not> b_close_time b < t0 \<and> b_open_time b < t1)
      (sort_key (\<lambda>b. dt_instant (b_open_time b)) (filter (ib_in_window t0 t1) (List.map_filter (read_ok \<circ> Some \<circ> parse_ib_bar i freq) ib_bars)))"
    using parse_ib_bar_of [OF _ dur]
    by (auto simp: list_all_iff in_map_filter read_ok_Some ib_in_window_def less_eq_datetime_def less_datetime_def)
  with dur run show ?thesis by blast
qed

text \<open>The span asked of IB: for daily bars over a span of whole seconds, the days, or years of 365 days, asked for cover
  the span and exceed it by less than one unit; for shorter bars the seconds asked for are between a minute and a day, and
  cover the whole seconds of the span exactly when it is shorter than a day and a second.\<close>

theorem ib_duration_covers:
  assumes "dt_instant t1 - dt_instant t0 = delta" "0 < delta"
  shows "case duration_for_range t0 t1 freq of (n, u) \<Rightarrow>
    if freq \<noteq> ''1d'' then u = CHR ''S'' \<and> 60 \<le> n \<and> n \<le> 86400 \<and> (delta div 1000000 \<le> n \<longleftrightarrow> delta < 86401000000)
    else if delta mod 1000000 \<noteq> 0 then True
    else if u = CHR ''Y'' then delta \<le> n * 31536000000000 \<and> (n - 1) * 31536000000000 < delta
    else u = CHR ''D'' \<and> n \<le> 365 \<and> delta \<le> n * 86400000000 \<and> (n - 1) * 86400000000 < delta"
proof (cases "freq = ''1d''")
  case False
  have "delta div 1000000 \<le> 86400 \<longleftrightarrow> delta < 86401000000" by linarith
  with False assms show ?thesis by (auto simp: duration_for_range_def Let_def)
next
  case True
  define days where "days = max 1 ((delta + 86399000000) div 86400000000)"
  define years where "years = (days + 364) div 365"
  have pos: "1 \<le> days" by (simp add: days_def)
  have pos': "1 \<le> years" using pos unfolding years_def by linarith
  have eq: "duration_for_range t0 t1 freq = (if 365 < days then (years, CHR ''Y'') else (days, CHR ''D''))"
    using True assms pos pos' by (auto simp: duration_for_range_def Let_def days_def [symmetric] years_def [symmetric])
  have d: "delta \<le> days * 86400000000 \<and> (days - 1) * 86400000000 < delta" if "delta mod 1000000 = 0"
  proof -
    define k where "k = delta div 1000000"
    have k: "delta = k * 1000000" using that div_mult_mod_eq [of delta 1000000] by (simp add: k_def)
    then have "1 \<le> (k + 86399) div 86400" using assms(2) by (simp add: pos_imp_zdiv_pos_iff int_one_le_iff_zero_less)
    then have "days = (k + 86399) div 86400" by (simp only: days_def k seconds_div max_absorb2)
    with ceiling_div [of 86400 k] k show ?thesis by simp
  qed
  have y: "days \<le> years * 365" "(years - 1) * 365 < days"
    using ceiling_div [of 365 days] by (simp_all add: years_def)
  show ?thesis
  proof (cases "delta mod 1000000 = 0")
    case whole: True
    have in_days: "delta \<le> days * 86400000000" "(days - 1) * 86400000000 < delta" using d [OF whole] by blast+
    have "(years - 1) * 365 \<le> days - 1" using y(2) by linarith
    then have "((years - 1) * 365) * 86400000000 \<le> (days - 1) * 86400000000" by (rule mult_right_mono) simp
    with in_days(2) have "(years - 1) * 31536000000000 < delta" by (simp add: mult.assoc)
    moreover have "delta \<le> years * 31536000000000" using in_days(1) y(1) by linarith
    ultimately show ?thesis using True whole d eq by simp
  qed (use True eq in \<open>simp split: if_split\<close>)
qed

section \<open>Boundaries\<close>

text \<open>A span a little over a day asks for one day only: the fraction of a second is lost before rounding up.\<close>

lemma fraction_of_second_lost: "duration_for_range (utc 0) (utc 86400500000) ''1d'' = (1, CHR ''D'')"
  by code_simp

text \<open>A bar that closed exactly when the window opens is kept, though all of it lies before the window.\<close>

lemma bar_before_window_kept:
  "dt_instant (b_close_time bar) = dt_instant t0 \<Longrightarrow> dt_instant (b_open_time bar) < dt_instant t1 \<Longrightarrow> ib_in_window t0 t1 bar"
  by (simp add: ib_in_window_def less_datetime_def less_eq_datetime_def)

section \<open>Witnesses\<close>

definition ex_ib_bar :: "int \<Rightarrow> IbBar" where
  "ex_ib_bar day = \<lparr>ibb_date = IbDate day, ibb_open = ''10'', ibb_high = ''12'', ibb_low = ''9'', ibb_close = ''11'', ibb_volume = ''-1'', ibb_average = Some ''-1.0''\<rparr>"

definition ex_ib_etf :: Instrument where
  "ex_ib_etf = \<lparr>i_symbol = ''CAC.PA'', i_venue = ''XPAR'', i_currency = ''EUR'', i_asset_class = ETF, i_multiplier = dint 1, i_tradability = ''spot''\<rparr>"

definition ex_ib_request :: "Contract \<Rightarrow> datetime \<Rightarrow> string \<Rightarrow> string \<Rightarrow> string \<Rightarrow> bool \<Rightarrow> IbBar list res" where
  "ex_ib_request contract end_time duration_text bar_size what_to_show use_rth =
     (if duration_text = ''2 D'' \<and> bar_size = ''1 day'' then Inr [ex_ib_bar 19, ex_ib_bar 21, ex_ib_bar 20] else Inl (RuntimeError ''no data''))"

lemma ex_ib_contract: "is_ok (to_contract ex_ib_etf)"
  by code_simp

lemma ex_ib_duration: "duration_str_for_range (utc 1728000000000) (utc 1900800000000) ''1d'' = ''2 D''"
  by code_simp

lemma ex_ib_bars_read: "Inl InvalidOperation \<notin> set (map (parse_ib_bar ex_ib_etf ''1d'') [ex_ib_bar 19, ex_ib_bar 21, ex_ib_bar 20])"
  by code_simp

lemma ex_ib_bars_sorted:
  "map b_open_time (sort_key (\<lambda>b. dt_instant (b_open_time b)) (filter (ib_in_window (utc 1728000000000) (utc 1900800000000))
     (List.map_filter (read_ok \<circ> Some \<circ> parse_ib_bar ex_ib_etf ''1d'') [ex_ib_bar 19, ex_ib_bar 21, ex_ib_bar 20])))
   = [utc 1641600000000, utc 1728000000000, utc 1814400000000]"
  by code_simp

theorem ib_history_read_witness:
  "\<exists>bars. ib_historical_bars (\<lambda>_. Inr ()) ex_ib_request ex_ib_etf ''1d'' (utc 1728000000000) (utc 1900800000000) ''TRADES'' True = Inr bars \<and>
     map b_open_time bars = [utc 1641600000000, utc 1728000000000, utc 1814400000000]"
proof -
  obtain contract where c: "to_contract ex_ib_etf = Inr contract" using ex_ib_contract by (auto simp: is_ok_iff)
  have off: "utc_off (utc n) \<noteq> None" for n by simp
  have le: "utc 1728000000000 \<le> utc 1900800000000" by (simp add: less_eq_datetime_def)
  have freq: "(''1d'', ''1 day'') \<in> set BAR_FREQ_TO_IB_BAR_SIZE" by (simp add: BAR_FREQ_TO_IB_BAR_SIZE_def)
  have req: "ex_ib_request contract (utc 1900800000000) (duration_str_for_range (utc 1728000000000) (utc 1900800000000) ''1d'') ''1 day'' ''TRADES'' True
      = Inr [ex_ib_bar 19, ex_ib_bar 21, ex_ib_bar 20]"
    unfolding ex_ib_duration by (simp add: ex_ib_request_def)
  have lines: "(\<lambda>_. Inr ()) (history_tokens ''TRADES'') = (Inr () :: unit res)" by simp
  note read = ib_history_read [where acquired = "\<lambda>_. Inr ()" and request = ex_ib_request, OF off off le freq c lines req]
  from read obtain dur bars where "bars = sort_key (\<lambda>b. dt_instant (b_open_time b)) (filter (ib_in_window (utc 1728000000000) (utc 1900800000000))
      (List.map_filter (read_ok \<circ> Some \<circ> parse_ib_bar ex_ib_etf ''1d'') [ex_ib_bar 19, ex_ib_bar 21, ex_ib_bar 20]))"
    and "ib_historical_bars (\<lambda>_. Inr ()) ex_ib_request ex_ib_etf ''1d'' (utc 1728000000000) (utc 1900800000000) ''TRADES'' True = Inr bars"
    unfolding if_not_P [OF ex_ib_bars_read] by blast
  with ex_ib_bars_sorted show ?thesis by auto
qed

theorem ib_duration_covers_witness: "duration_for_range (utc 0) (utc 172800000000) ''1d'' = (2, CHR ''D'') \<and> 172800000000 \<le> (2::int) * 86400000000"
proof -
  have r: "duration_for_range (utc 0) (utc 172800000000) ''1d'' = (2, CHR ''D'')" by code_simp
  have d: "dt_instant (utc 172800000000) - dt_instant (utc 0) = 172800000000" by simp
  from ib_duration_covers [OF d, of "''1d''"] r show ?thesis by simp
qed

end
