(* ===== verification/ReadProbes.thy ===== *)
theory ReadProbes
  imports OrderProbes IBMarketData
begin

text \<open>
  The scripts that try the connection to IB and its reads: \<open>scripts/probe_ib_handshake.py\<close>,
  \<open>scripts/probe_ib_resolve_contract.py\<close>, \<open>scripts/probe_ib_market_data.py\<close>, \<open>scripts/probe_ib_read.py\<close> and the
  reconnection drill \<open>scripts/probe_ib_reconnect.py\<close>.  They put together the credentials, the client, the resolver, the
  market data and the broker.  Printing, the readings of the rate limiter and of the clock it prints have no effect here.
\<close>

section \<open>Over the client\<close>

record client_inputs =
  ci_env :: "string \<rightharpoonup> string"
  ci_secrets :: "string option"
  ci_connect_acquired :: "unit res"
  ci_connect :: connect_outcome
  ci_disconnect :: "bool res"
  ci_open_after :: bool

text \<open>What a script over the client comes to: the exit code or exception, and whether the client is left connected.\<close>

type_synonym client_exit = "int res \<times> bool"

definition leave_client :: "client_inputs \<Rightarrow> int \<Rightarrow> bool \<Rightarrow> client_exit" where
  "leave_client w code conn =
     (case ib_client_disconnect (ci_disconnect w) (ci_open_after w) conn of (gone, c) \<Rightarrow> (bindR gone (\<lambda>_. Inr code), c))"

definition client_start :: "client_inputs \<Rightarrow> (bool \<Rightarrow> client_exit) \<Rightarrow> client_exit" where
  "client_start w go_on =
     (case probe_credentials (ci_env w) (ci_secrets w) of
        Inl code \<Rightarrow> (code, False)
      | Inr cred \<Rightarrow>
          (case ib_client_connect (ci_connect_acquired w) (ci_connect w) False of
             (Inl e, c) \<Rightarrow> (exit_for connection_failed 3 e, c)
           | (Inr _, c) \<Rightarrow> go_on c))"

definition handshake_probe :: "client_inputs \<Rightarrow> client_exit" where
  "handshake_probe w = client_start w (leave_client w 0)"

record resolve_inputs = client_inputs +
  ri_acquired :: "nat \<Rightarrow> unit res"
  ri_qualify :: "nat \<Rightarrow> Contract \<Rightarrow> Contract option list res"

fun not_resolvable :: "exn \<Rightarrow> bool" where
  "not_resolvable (InstrumentNotResolvable _) = True"
| "not_resolvable _ = False"

fun ambiguous :: "exn \<Rightarrow> bool" where
  "ambiguous (InstrumentAmbiguous _) = True"
| "ambiguous _ = False"

definition resolve_connected :: "resolve_inputs \<Rightarrow> bool \<Rightarrow> client_exit" where
  "resolve_connected w c =
     (case to_contract PHASE_1_INSTRUMENT of
        Inl e \<Rightarrow> if not_resolvable e then leave_client (client_inputs.truncate w) 4 c else (Inl e, c)
      | Inr _ \<Rightarrow>
          (case resolve (ri_acquired w 0) (ri_qualify w 0) PHASE_1_INSTRUMENT [] of
             (Inl e, _) \<Rightarrow>
               if not_resolvable e then leave_client (client_inputs.truncate w) 5 c
               else if ambiguous e then leave_client (client_inputs.truncate w) 6 c
               else (Inl e, c)
           | (Inr conid, cache) \<Rightarrow>
               (case resolve (ri_acquired w 1) (ri_qualify w 1) PHASE_1_INSTRUMENT cache of
                  (Inl e, _) \<Rightarrow> (Inl e, c)
                | (Inr cached_conid, _) \<Rightarrow>
                    leave_client (client_inputs.truncate w) (if cached_conid \<noteq> conid then 7 else 0) c)))"

definition resolve_probe :: "resolve_inputs \<Rightarrow> client_exit" where
  "resolve_probe w = client_start (client_inputs.truncate w) (resolve_connected w)"

record history_inputs = client_inputs +
  hi_now :: datetime
  hi_acquired :: "nat \<Rightarrow> unit res"
  hi_request :: "Contract \<Rightarrow> datetime \<Rightarrow> string \<Rightarrow> string \<Rightarrow> string \<Rightarrow> bool \<Rightarrow> IbBar list res"

fun market_data_failed :: "exn \<Rightarrow> bool" where
  "market_data_failed (IBMarketDataError _) = True"
| "market_data_failed _ = False"

definition history_connected :: "history_inputs \<Rightarrow> bool \<Rightarrow> client_exit" where
  "history_connected w c =
     (case ib_historical_bars (hi_acquired w) (hi_request w) PHASE_1_INSTRUMENT ''1d'' (dt_add_us (hi_now w) (- 30 * 86400000000)) (hi_now w)
         ''TRADES'' True of
        Inl e \<Rightarrow> if market_data_failed e then leave_client (client_inputs.truncate w) 4 c else (Inl e, c)
      | Inr bars \<Rightarrow> leave_client (client_inputs.truncate w) 0 c)"

definition market_data_probe :: "history_inputs \<Rightarrow> client_exit" where
  "market_data_probe w = client_start (client_inputs.truncate w) (history_connected w)"

section \<open>Over the broker\<close>

text \<open>\<open>except (IBShapeError, RuntimeError)\<close>; \<open>NotImplementedError\<close> is a \<open>RuntimeError\<close>.\<close>

fun shape_or_runtime :: "exn \<Rightarrow> bool" where
  "shape_or_runtime (IBShapeError _) = True"
| "shape_or_runtime (RuntimeError _) = True"
| "shape_or_runtime (NotImplementedError _) = True"
| "shape_or_runtime _ = False"

fun shape_error :: "exn \<Rightarrow> bool" where
  "shape_error (IBShapeError _) = True"
| "shape_error _ = False"

definition read_positions :: "unit res \<Rightarrow> IbPosition option list res \<Rightarrow> datetime \<Rightarrow> (IBBroker, Position list) sx" where
  "read_positions acquired answer now =
     bindS require_connected (\<lambda>_. bindS (getS broker_strategy_id) (\<lambda>sid. liftS (ib_positions sid acquired answer now)))"

definition read_open_orders :: "unit res \<Rightarrow> IbOpenTrade option list res \<Rightarrow> (nat \<Rightarrow> uuid) \<Rightarrow> (nat \<Rightarrow> datetime) \<Rightarrow> (IBBroker, Order list) sx" where
  "read_open_orders acquired answer fresh now =
     bindS require_connected (\<lambda>_. bindS (getS broker_strategy_id) (\<lambda>sid. liftS (ib_open_orders sid acquired answer fresh now)))"

text \<open>The connection of the broker reuses the fields of \<open>probe_inputs\<close>; its order is not used.\<close>

record read_inputs = probe_inputs +
  rw_acquired :: "nat \<Rightarrow> unit res"
  rw_positions :: "IbPosition option list res"
  rw_trailing :: "ib_input list"
  rw_open_orders :: "IbOpenTrade option list res"
  rw_fresh :: "nat \<Rightarrow> uuid"
  rw_now :: "nat \<Rightarrow> datetime"

definition read_last :: "read_inputs \<Rightarrow> IBBroker \<Rightarrow> probe_outcome" where
  "read_last w b =
     (case read_open_orders (rw_acquired w 1) (rw_open_orders w) (rw_fresh w) (rw_now w) b of
        (Inl e, b1) \<Rightarrow> if shape_or_runtime e then leave (probe_inputs.truncate w) 6 b1 else escape e b1
      | (Inr _, b1) \<Rightarrow> leave (probe_inputs.truncate w) 0 b1)"

text \<open>The snapshot is tried again after two seconds, during which account values may come.\<close>

definition read_snapshot :: "read_inputs \<Rightarrow> IBBroker \<Rightarrow> probe_outcome" where
  "read_snapshot w b =
     (case ib_account_snapshot (rw_now w 0) b of
        (Inr _, b1) \<Rightarrow> read_last w b1
      | (Inl e, b1) \<Rightarrow>
          if \<not> shape_error e then escape e b1
          else (case ib_account_snapshot (rw_now w 1) (ib_run b1 (rw_trailing w)) of
                  (Inr _, b2) \<Rightarrow> read_last w b2
                | (Inl e2, b2) \<Rightarrow> if shape_error e2 then leave (probe_inputs.truncate w) 5 b2 else escape e2 b2))"

definition read_connected :: "read_inputs \<Rightarrow> IBBroker \<Rightarrow> probe_outcome" where
  "read_connected w b =
     (case read_positions (rw_acquired w 0) (rw_positions w) (rw_now w 0) b of
        (Inl e, b1) \<Rightarrow> if shape_or_runtime e then leave (probe_inputs.truncate w) 4 b1 else escape e b1
      | (Inr _, b1) \<Rightarrow> read_snapshot w b1)"

definition read_probe :: "read_inputs \<Rightarrow> probe_outcome" where
  "read_probe w =
     (case probe_credentials (pw_env w) (pw_secrets w) of
        Inl code \<Rightarrow> \<lparr>po_exit = code, po_broker = None\<rparr>
      | Inr cred \<Rightarrow>
          (case connect_probe (probe_inputs.truncate w) cred of
             (Inl e, b) \<Rightarrow> \<lparr>po_exit = exit_for connection_failed 3 e, po_broker = Some b\<rparr>
           | (Inr _, b) \<Rightarrow> read_connected w b))"

section \<open>The reconnection drill\<close>

text \<open>\<open>str\<close> of a \<open>Decimal\<close> determines sign, digits and exponent, so the key keeps the decimal itself.\<close>

definition positions_key :: "Position list \<Rightarrow> (string \<times> decimal) set" where
  "positions_key positions = set (map (\<lambda>p. (i_symbol (p_instrument p), p_quantity p)) positions)"

definition snapshot_positions :: "unit res \<Rightarrow> IbPosition option list res \<Rightarrow> datetime \<Rightarrow> (IBBroker, (string \<times> decimal) set) sx" where
  "snapshot_positions acquired answer now b =
     (case read_positions acquired answer now b of
        (Inl e, b1) \<Rightarrow> if shape_or_runtime e then (Inr {}, b1) else (Inl e, b1)
      | (Inr positions, b1) \<Rightarrow> (Inr (positions_key positions), b1))"

text \<open>One poll: what IB pushes while the drill sleeps, whether the socket is up, and what the calls of a recovery come to.\<close>

record drill_poll =
  dp_pushes :: "ib_input list"
  dp_socket_up :: bool
  dp_disconnect :: "unit res"
  dp_disconnect_time :: datetime
  dp_connect :: "unit res"
  dp_values :: "AccountValue list"
  dp_connect_time :: datetime
  dp_acquired :: "unit res"
  dp_positions :: "IbPosition option list res"
  dp_read_time :: datetime

text \<open>The summary, and the flag \<open>broker.is_connected\<close> reported when the drop is noticed.\<close>

record drill_summary =
  ds_dropped :: bool
  ds_recovered :: bool
  ds_reconciled :: "bool option"
  ds_flag :: "bool option"

definition attempt_recovery :: "drill_poll \<Rightarrow> IBBroker \<Rightarrow> bool \<times> IBBroker" where
  "attempt_recovery p b =
     (case ib_disconnect (dp_disconnect p) (dp_disconnect_time p) b of
        (_, b1) \<Rightarrow>
          (case ib_connect (dp_connect p) (dp_values p) (dp_connect_time p) b1 of
             (Inl _, b2) \<Rightarrow> (False, b2)
           | (Inr _, b2) \<Rightarrow> (True, b2)))"

text \<open>The result says whether the loop breaks.\<close>

definition drill_step :: "(string \<times> decimal) set \<Rightarrow> drill_poll \<Rightarrow> drill_summary \<Rightarrow> (IBBroker, drill_summary \<times> bool) sx" where
  "drill_step baseline p d b =
     (let b1 = ib_run b (dp_pushes p)
      in if dp_socket_up p then (Inr (d, ds_dropped d \<and> ds_recovered d), b1)
         else let d1 = (if ds_dropped d then d else d\<lparr>ds_dropped := True, ds_flag := Some (is_connected b1)\<rparr>)
              in case attempt_recovery p b1 of
                   (False, b2) \<Rightarrow> (Inr (d1, False), b2)
                 | (True, b2) \<Rightarrow>
                     (case snapshot_positions (dp_acquired p) (dp_positions p) (dp_read_time p) b2 of
                        (Inl e, b3) \<Rightarrow> (Inl e, b3)
                      | (Inr after, b3) \<Rightarrow> (Inr (d1\<lparr>ds_recovered := True, ds_reconciled := Some (after = baseline)\<rparr>, False), b3)))"

fun drill_loop :: "(string \<times> decimal) set \<Rightarrow> drill_poll list \<Rightarrow> drill_summary \<Rightarrow> (IBBroker, drill_summary) sx" where
  "drill_loop baseline [] d b = (Inr d, b)"
| "drill_loop baseline (p # ps) d b =
     (case drill_step baseline p d b of
        (Inl e, b1) \<Rightarrow> (Inl e, b1)
      | (Inr (d1, over), b1) \<Rightarrow> if over then (Inr d1, b1) else drill_loop baseline ps d1 b1)"

record drill_inputs = probe_inputs +
  di_window_seconds :: int
  di_poll_seconds :: int
  di_acquired :: "unit res"
  di_positions :: "IbPosition option list res"
  di_read_time :: datetime
  di_polls :: "nat \<Rightarrow> drill_poll"

definition drill_start :: drill_summary where
  "drill_start = \<lparr>ds_dropped = False, ds_recovered = False, ds_reconciled = None, ds_flag = None\<rparr>"

definition iterations :: "int \<Rightarrow> int \<Rightarrow> nat res" where
  "iterations window_seconds poll_seconds =
     (if poll_seconds = 0 then Inl (ZeroDivisionError ''integer division or modulo by zero'')
      else Inr (nat (max 1 (window_seconds div poll_seconds))))"

definition drill_connected :: "drill_inputs \<Rightarrow> IBBroker \<Rightarrow> probe_outcome \<times> drill_summary option" where
  "drill_connected w b =
     (case snapshot_positions (di_acquired w) (di_positions w) (di_read_time w) b of
        (Inl e, b1) \<Rightarrow> (escape e b1, None)
      | (Inr baseline, b1) \<Rightarrow>
          (case iterations (di_window_seconds w) (di_poll_seconds w) of
             Inl e \<Rightarrow> (escape e b1, None)
           | Inr n \<Rightarrow>
               (case drill_loop baseline (map (di_polls w) [0..<n]) drill_start b1 of
                  (Inl e, b2) \<Rightarrow> (escape e b2, None)
                | (Inr d, b2) \<Rightarrow>
                    (\<lparr>po_exit = Inr 0, po_broker = Some (snd (ib_disconnect (pw_client_disconnect w) (pw_disconnect_time w) b2))\<rparr>, Some d))))"

definition reconnect_drill :: "drill_inputs \<Rightarrow> probe_outcome \<times> drill_summary option" where
  "reconnect_drill w =
     (case load_ib_credentials (pw_env w) (pw_secrets w) of
        Inl e \<Rightarrow> (\<lparr>po_exit = exit_for bad_credentials 2 e, po_broker = None\<rparr>, None)
      | Inr cred \<Rightarrow>
          (case connect_probe (probe_inputs.truncate w) cred of
             (Inl e, b) \<Rightarrow> (\<lparr>po_exit = exit_for connection_failed 3 e, po_broker = Some b\<rparr>, None)
           | (Inr _, b) \<Rightarrow> drill_connected w b))"


section \<open>Lemmas\<close>

lemma leave_client_exit: "leave_client w code conn = (e, c) \<Longrightarrow> e = Inr code \<and> (c \<longrightarrow> \<not> is_ok (ci_disconnect w))"
  by (auto simp: leave_client_def ib_client_disconnect_def bindS_def getS_def retS_def modS_def is_ok_def split: sum.splits if_splits)

lemma client_start_cases:
  assumes "client_start w go_on = (e, c)"
  obtains code where "e = Inl code" "\<not> c" | code where "e = Inr code" "code \<in> {2, 3}" "\<not> c" | "go_on True = (e, c)"
proof -
  have "(\<exists>code. e = Inl code \<and> \<not> c) \<or> (\<exists>code. e = Inr code \<and> code \<in> {2, 3} \<and> \<not> c) \<or> go_on True = (e, c)"
    using assms by (auto simp: client_start_def probe_credentials_def exit_for_def ib_client_connect_def bindS_def getS_def liftS_def
        modS_def raiseS_def retS_def split: sum.splits prod.splits connect_outcome.splits if_splits)
  then show thesis using that by blast
qed

lemma reads_keep_broker:
  "snd (read_positions acquired answer now b) = b" "snd (read_open_orders acquired orders fresh clocks b) = b"
  "snd (ib_account_snapshot t b) = b"
  by (simp_all add: read_positions_def read_open_orders_def ib_account_snapshot_def require_connected_def bindS_def getS_def liftS_def
      retS_def raiseS_def)

lemma snapshot_positions_keeps: "snd (snapshot_positions acquired answer now b) = b"
  using reads_keep_broker(1) [of acquired answer now b] by (auto simp: snapshot_positions_def split: prod.split sum.split)

lemma no_orders_about: "ready cid b \<Longrightarrow> about c b \<Longrightarrow> untouched b"
  by (simp add: ready_def untouched_def)

section \<open>Properties\<close>

text \<open>The resolution of the fixed instrument: of the codes the script knows, 4 (it cannot be routed) and 7 (the cache answers another
  id) never occur; success means that IB answered with exactly one candidate, and that whatever IB would answer afterwards the
  second lookup gave the same id; the client is left connected only by an exception or a disconnection that fails.\<close>

theorem resolve_probe_codes:
  assumes "resolve_probe w = (Inr code, c)"
  shows "code \<in> {0, 2, 3, 5, 6} \<and> (c \<longrightarrow> \<not> is_ok (ci_disconnect w)) \<and>
    (code = 0 \<longrightarrow> (\<exists>conid. conid \<noteq> 0 \<and> qualify_wire (ri_acquired w 0) (ri_qualify w 0) PHASE_1_INSTRUMENT = Inr conid))"
proof (rule client_start_cases [OF assms [unfolded resolve_probe_def]])
  assume go: "resolve_connected w True = (Inr code, c)"
  have route: "is_ok (to_contract PHASE_1_INSTRUMENT)" by code_simp
  obtain k where k: "to_contract PHASE_1_INSTRUMENT = Inr k" using route by (auto simp: is_ok_def split: sum.splits)
  obtain r cache where r: "resolve (ri_acquired w 0) (ri_qualify w 0) PHASE_1_INSTRUMENT [] = (r, cache)"
    by (cases "resolve (ri_acquired w 0) (ri_qualify w 0) PHASE_1_INSTRUMENT []")
  have d: "ci_disconnect (client_inputs.truncate w) = ci_disconnect w" by (simp add: client_inputs.truncate_def)
  note left = leave_client_exit [of "client_inputs.truncate w", unfolded d]
  show ?thesis
  proof (cases r)
    case (Inl e)
    then show ?thesis using go k r by (auto simp: resolve_connected_def dest!: left split: if_splits)
  next
    case (Inr conid)
    have wire: "qualify_wire (ri_acquired w 0) (ri_qualify w 0) PHASE_1_INSTRUMENT = Inr conid"
      using r Inr by (auto simp: resolve_def split: sum.splits)
    then have "conid \<noteq> 0" by (auto simp: qualify_wire_def pick_candidate_Inr)
    have again: "resolve (ri_acquired w 1) (ri_qualify w 1) PHASE_1_INSTRUMENT cache = (Inr conid, cache)"
      using r Inr by (auto simp: resolve_def cache_get_put split: sum.splits option.splits)
    then have "leave_client (client_inputs.truncate w) 0 True = (Inr code, c)"
      using go k r Inr by (simp add: resolve_connected_def)
    with wire \<open>conid \<noteq> 0\<close> show ?thesis by (auto dest!: left)
  qed
qed (use assms in auto)


definition ex_resolve :: resolve_inputs where
  "ex_resolve = \<lparr>ci_env = pw_env (ex_probe []), ci_secrets = None, ci_connect_acquired = Inr (), ci_connect = Connected, ci_disconnect = Inr True,
     ci_open_after = False, ri_acquired = (\<lambda>_. Inr ()), ri_qualify = (\<lambda>n c. Inr [Some (c\<lparr>ct_conId := 100 + int n\<rparr>)])\<rparr>"

lemma ex_resolve_runs: "resolve_probe ex_resolve = (Inr 0, False)"
proof -
  have r: "resolve_connected ex_resolve True = (Inr 0, False)" by code_simp
  show ?thesis
    by (simp add: resolve_probe_def client_start_def client_inputs.truncate_def ex_resolve_def ex_credentials ib_client_connect_def r [unfolded ex_resolve_def])
qed

theorem resolve_probe_codes_witness:
  "\<exists>conid. qualify_wire (ri_acquired ex_resolve 0) (ri_qualify ex_resolve 0) PHASE_1_INSTRUMENT = Inr conid \<and> conid \<noteq> 0"
  using resolve_probe_codes [OF ex_resolve_runs] by auto

text \<open>The read probe only reads: it never places nor cancels an order; when it returns a code, that code is documented and the broker is
  disconnected.\<close>

definition read_ends :: "int set \<Rightarrow> probe_outcome \<Rightarrow> bool" where
  "read_ends codes out \<longleftrightarrow> (\<forall>b. po_broker out = Some b \<longrightarrow> untouched b \<and> (\<forall>code. po_exit out = Inr code \<longrightarrow> code \<in> codes \<and> \<not> is_connected b))"

lemma escape_read_ends: "untouched b \<Longrightarrow> read_ends codes (escape e b)"
  by (simp add: read_ends_def escape_def)

lemma leave_read_ends: "untouched b \<Longrightarrow> code \<in> codes \<Longrightarrow> read_ends codes (leave w code b)"
  using leave_effect [of w code b] by (auto simp: read_ends_def untouched_def is_connected_def)

lemma read_last_ends: "untouched b \<Longrightarrow> read_ends {0, 3, 4, 5, 6} (read_last w b)"
  using reads_keep_broker(2) [of "rw_acquired w 1" "rw_open_orders w" "rw_fresh w" "rw_now w" b]
  by (auto simp: read_last_def intro!: escape_read_ends leave_read_ends split: prod.split sum.split)

lemma untouched_pushed: "untouched b \<Longrightarrow> about cid b \<Longrightarrow> list_all pushed is \<Longrightarrow> untouched (ib_run b is)"
  using pushed_run [of "is" cid b] by (simp add: pushes_def untouched_def)

lemma read_snapshot_ends:
  assumes "untouched b" "about cid b" "list_all pushed (rw_trailing w)"
  shows "read_ends {0, 3, 4, 5, 6} (read_snapshot w b)"
proof -
  obtain r b1 where s: "ib_account_snapshot (rw_now w 0) b = (r, b1)" by (cases "ib_account_snapshot (rw_now w 0) b")
  have b1: "b1 = b" using reads_keep_broker(3) [of "rw_now w 0" b] s by simp
  let ?b2 = "ib_run b (rw_trailing w)"
  obtain r2 b2 where s2: "ib_account_snapshot (rw_now w 1) ?b2 = (r2, b2)" by (cases "ib_account_snapshot (rw_now w 1) ?b2")
  have b2: "b2 = ?b2" using reads_keep_broker(3) [of "rw_now w 1" ?b2] s2 by simp
  have u: "untouched ?b2" by (rule untouched_pushed [OF assms])
  show ?thesis using assms(1) u
    by (auto simp: read_snapshot_def s b1 s2 b2 simp del: One_nat_def intro!: escape_read_ends leave_read_ends read_last_ends split: sum.split)
qed

theorem read_probe_reads:
  assumes "list_all pushed (rw_trailing w)" and "po_broker (read_probe w) = Some b"
  shows "untouched b \<and> (\<forall>code. po_exit (read_probe w) = Inr code \<longrightarrow> code \<in> {0, 3, 4, 5, 6} \<and> \<not> is_connected b)"
proof -
  have "read_ends {0, 3, 4, 5, 6} (read_probe w)"
  proof (cases "probe_credentials (pw_env w) (pw_secrets w)")
    case (Inl code)
    then show ?thesis by (simp add: read_probe_def read_ends_def)
  next
    case (Inr cred)
    obtain r b0 where c: "connect_probe (probe_inputs.truncate w) cred = (r, b0)" by (cases "connect_probe (probe_inputs.truncate w) cred")
    note eff = connect_probe_effect [OF c]
    show ?thesis
    proof (cases r)
      case (Inl e)
      then show ?thesis using Inr c eff(1) eff(3) [of e] by (auto simp: read_probe_def read_ends_def exit_for_def is_connected_def)
    next
      case r: (Inr u)
      have b0: "about 0 b0" using eff(2) [OF r, of 0] by (simp add: ready_def)
      obtain x b1 where p: "read_positions (rw_acquired w 0) (rw_positions w) (rw_now w 0) b0 = (x, b1)"
        by (cases "read_positions (rw_acquired w 0) (rw_positions w) (rw_now w 0) b0")
      have "b1 = b0" using reads_keep_broker(1) [of "rw_acquired w 0" "rw_positions w" "rw_now w 0" b0] p by simp
      then show ?thesis using Inr c r p eff(1) read_snapshot_ends [OF eff(1) b0 assms(1)]
        by (auto simp: read_probe_def read_connected_def intro!: escape_read_ends leave_read_ends split: sum.split)
    qed
  qed
  then show ?thesis using assms(2) by (simp add: read_ends_def)
qed


text \<open>An invariant of the drill: the summary is consistent, and until the drop is noticed the broker believes it is connected and
  holds nothing but what connecting left.\<close>

definition drill_ok :: "drill_summary \<Rightarrow> IBBroker \<Rightarrow> bool" where
  "drill_ok d b \<longleftrightarrow> about 0 b \<and> (ds_recovered d \<longrightarrow> ds_dropped d) \<and> (ds_reconciled d \<noteq> None \<longleftrightarrow> ds_recovered d) \<and>
     ds_flag d = (if ds_dropped d then Some True else None) \<and> (ds_dropped d \<or> ib_connected b)"

lemma about_connection: "about cid b \<Longrightarrow> about cid (snd (put_ib_connection c detail t b))"
  by (auto simp: put_ib_connection_def bindS_def liftS_def modS_def put_ib_def about_def split: sum.split)

lemma about_reconnect:
  assumes "about cid b"
  shows "about cid (snd (ib_disconnect cd t b))" "about cid (snd (ib_connect cc vs t b))"
proof -
  have "about cid (b\<lparr>ib_update_task := False\<rparr>)" using assms by (simp add: about_def)
  moreover have "about cid (b\<lparr>ib_update_task := False, ib_connected := False, ib_values := [], ib_last_snapshot := None, ib_errors := Map.empty\<rparr>)"
    using assms by (simp add: about_def)
  ultimately show "about cid (snd (ib_disconnect cd t b))"
    using assms by (cases cd) (simp_all add: ib_disconnect_def bindS_def about_connection split: prod.split)
  have "about cid ((fold on_account_value vs b)\<lparr>ib_connected := True, ib_update_task := True\<rparr>)"
    using assms by (simp add: about_def on_account_values_same)
  then show "about cid (snd (ib_connect cc vs t b))"
    using assms by (cases cc) (simp_all add: ib_connect_def bindS_def about_connection split: prod.split)
qed

lemma attempt_recovery_about:
  assumes "attempt_recovery p b = (r, b')" "about cid b"
  shows "about cid b'"
proof -
  have "about cid (snd (ib_connect (dp_connect p) (dp_values p) (dp_connect_time p) (snd (ib_disconnect (dp_disconnect p) (dp_disconnect_time p) b))))"
    by (intro about_reconnect assms(2))
  with assms(1) show ?thesis by (auto simp: attempt_recovery_def split: prod.splits sum.splits)
qed

lemma drill_step_ok:
  assumes "drill_step baseline p d b = (Inr (d', over), b')" "drill_ok d b" "list_all pushed (dp_pushes p)"
  shows "drill_ok d' b'"
proof -
  let ?b1 = "ib_run b (dp_pushes p)"
  have p: "pushes 0 b ?b1" using pushed_run [OF assms(3)] assms(2) by (simp add: drill_ok_def)
  have b1: "about 0 ?b1" "ib_connected ?b1 = ib_connected b" using p assms(2) by (simp_all add: pushes_def drill_ok_def)
  obtain r b2 where rec: "attempt_recovery p ?b1 = (r, b2)" by (cases "attempt_recovery p ?b1")
  have b2: "about 0 b2" by (rule attempt_recovery_about [OF rec b1(1)])
  obtain x b3 where sn: "snapshot_positions (dp_acquired p) (dp_positions p) (dp_read_time p) b2 = (x, b3)"
    by (cases "snapshot_positions (dp_acquired p) (dp_positions p) (dp_read_time p) b2")
  have b3: "b3 = b2" using snapshot_positions_keeps [of "dp_acquired p" "dp_positions p" "dp_read_time p" b2] sn by simp
  show ?thesis
    using assms(1,2) b1 b2 b3
    by (auto simp: drill_step_def Let_def rec sn drill_ok_def is_connected_def split: if_splits bool.splits sum.splits)
qed

lemma drill_loop_ok:
  "drill_loop baseline ps d b = (Inr d', b') \<Longrightarrow> drill_ok d b \<Longrightarrow> list_all (\<lambda>p. list_all pushed (dp_pushes p)) ps \<Longrightarrow> drill_ok d' b'"
proof (induction baseline ps d b rule: drill_loop.induct)
  case (2 baseline p ps d b)
  obtain x b1 where s: "drill_step baseline p d b = (x, b1)" by (cases "drill_step baseline p d b")
  show ?case
  proof (cases x)
    case (Inr y)
    obtain d1 over where y: "y = (d1, over)" by (cases y)
    have "drill_ok d1 b1" using drill_step_ok s Inr y "2.prems"(2,3) by auto
    then show ?thesis using "2.IH" [OF s [symmetric] Inr y [symmetric]] "2.prems"(1,3) s Inr y by (cases over) auto
  qed (use "2.prems"(1) s in auto)
qed simp

lemma drill_run:
  assumes "reconnect_drill w = (out, Some d)"
  obtains b b2 baseline n where "ready 0 b" "snapshot_positions (di_acquired w) (di_positions w) (di_read_time w) b = (Inr baseline, b)"
    "drill_loop baseline (map (di_polls w) [0..<n]) drill_start b = (Inr d, b2)" "po_exit out = Inr 0"
proof -
  obtain cred r b where c: "connect_probe (probe_inputs.truncate w) cred = (r, b)" "r = Inr ()" "drill_connected w b = (out, Some d)"
    using assms by (auto simp: reconnect_drill_def split: sum.splits prod.splits)
  obtain x b1 where s: "snapshot_positions (di_acquired w) (di_positions w) (di_read_time w) b = (x, b1)"
    by (cases "snapshot_positions (di_acquired w) (di_positions w) (di_read_time w) b")
  have "b1 = b" using snapshot_positions_keeps [of "di_acquired w" "di_positions w" "di_read_time w" b] s by simp
  moreover have "ready 0 b" using connect_probe_effect(2) [OF c(1,2)] by blast
  ultimately show thesis using that c(3) s by (auto simp: drill_connected_def split: sum.splits prod.splits)
qed

lemma drill_ends_ok:
  assumes "\<forall>n. list_all pushed (dp_pushes (di_polls w n))" and "ready 0 b" and "drill_loop baseline (map (di_polls w) [0..<n]) drill_start b = (Inr d, b2)"
  shows "drill_ok d b2"
proof (rule drill_loop_ok [OF assms(3)])
  show "drill_ok drill_start b" using assms(2) by (simp add: drill_ok_def drill_start_def ready_def)
  show "list_all (\<lambda>p. list_all pushed (dp_pushes p)) (map (di_polls w) [0..<n])" using assms(1) by (simp add: list_all_iff)
qed

text \<open>C38: the drill, whatever IB does while it sleeps: a recovery is only reported after a drop, positions are compared exactly when a
  recovery succeeded, and at the moment the drop is noticed the broker still claims to be connected: nothing IB pushes
  clears its flag.\<close>

theorem drill_reports:
  assumes "\<forall>n. list_all pushed (dp_pushes (di_polls w n))" and "reconnect_drill w = (out, Some d)"
  shows "po_exit out = Inr 0 \<and> (ds_recovered d \<longrightarrow> ds_dropped d) \<and> (ds_reconciled d \<noteq> None \<longleftrightarrow> ds_recovered d) \<and>
    ds_flag d = (if ds_dropped d then Some True else None)"
proof (rule drill_run [OF assms(2)])
  fix b b2 baseline n
  assume "ready 0 b" "drill_loop baseline (map (di_polls w) [0..<n]) drill_start b = (Inr d, b2)" "po_exit out = Inr 0"
  with drill_ends_ok [OF assms(1)] show ?thesis by (simp add: drill_ok_def)
qed

text \<open>A read that fails counts as no positions, so a drill in which every read fails reports that the positions agree.\<close>

lemma failed_loop:
  assumes "\<forall>n. dp_positions (ps n) = Inl (RuntimeError m) \<and> dp_acquired (ps n) = Inr ()"
  shows "drill_loop {} (map ps ns) d b = (Inr d', b') \<Longrightarrow> (ds_reconciled d \<noteq> Some False) \<Longrightarrow> ds_reconciled d' \<noteq> Some False"
proof (induction ns arbitrary: d b)
  case (Cons n ns)
  have fail: "snapshot_positions (dp_acquired (ps n)) (dp_positions (ps n)) t c = (Inr {}, c)" for t c
    using assms by (simp add: snapshot_positions_def read_positions_def require_connected_def ib_positions_def bindS_def getS_def retS_def raiseS_def liftS_def)
  obtain x b1 where s: "drill_step {} (ps n) d b = (x, b1)" by (cases "drill_step {} (ps n) d b")
  show ?case
  proof (cases x)
    case (Inr y)
    obtain d1 over where y: "y = (d1, over)" by (cases y)
    have "ds_reconciled d1 \<noteq> Some False" using s Inr y Cons.prems(2)
      by (auto simp: drill_step_def Let_def fail split: if_splits prod.splits bool.splits)
    then show ?thesis using Cons s Inr y by (cases over) auto
  qed (use Cons.prems(1) s in auto)
qed simp


theorem failed_reads_agree:
  assumes "\<forall>n. list_all pushed (dp_pushes (di_polls w n))" and "reconnect_drill w = (out, Some d)" and "ds_recovered d"
    and "di_acquired w = Inr ()" "di_positions w = Inl (RuntimeError m)"
    and "\<forall>n. dp_positions (di_polls w n) = Inl (RuntimeError m) \<and> dp_acquired (di_polls w n) = Inr ()"
  shows "ds_reconciled d = Some True"
proof (rule drill_run [OF assms(2)])
  fix b b2 baseline n
  assume r: "ready 0 b" "snapshot_positions (di_acquired w) (di_positions w) (di_read_time w) b = (Inr baseline, b)"
    "drill_loop baseline (map (di_polls w) [0..<n]) drill_start b = (Inr d, b2)"
  have "baseline = {}" using r(2) assms(4,5)
    by (simp add: snapshot_positions_def read_positions_def require_connected_def ib_positions_def bindS_def getS_def retS_def raiseS_def liftS_def
        split: if_splits)
  then have "ds_reconciled d \<noteq> Some False" using failed_loop [OF assms(6)] r(3) by (simp add: drill_start_def)
  moreover have "ds_reconciled d \<noteq> None" using drill_ends_ok [OF assms(1) r(1,3)] assms(3) by (simp add: drill_ok_def)
  ultimately show ?thesis by auto
qed

definition ex_down :: drill_poll where
  "ex_down = \<lparr>dp_pushes = [], dp_socket_up = False, dp_disconnect = Inr (), dp_disconnect_time = utc 1, dp_connect = Inr (), dp_values = [],
     dp_connect_time = utc 2, dp_acquired = Inr (), dp_positions = Inl (RuntimeError ''down''), dp_read_time = utc 3\<rparr>"

definition ex_drill :: drill_inputs where
  "ex_drill = probe_inputs.extend (ex_probe [])
     (drill_inputs.fields 5 5 (Inr ()) (Inl (RuntimeError ''down'')) (utc 1) (\<lambda>_. ex_down))"

lemma ex_drill_fields:
  "di_acquired ex_drill = Inr ()" "di_positions ex_drill = Inl (RuntimeError ''down'')" "di_polls ex_drill = (\<lambda>_. ex_down)"
  "di_window_seconds ex_drill = 5" "di_poll_seconds ex_drill = 5" "probe_inputs.truncate ex_drill = ex_probe []"
  "pw_env ex_drill = pw_env (ex_probe [])" "pw_secrets ex_drill = None"
  by (simp_all add: ex_drill_def probe_inputs.defs drill_inputs.defs ex_probe_def)

lemma ex_drill_runs: "\<exists>out d. reconnect_drill ex_drill = (out, Some d) \<and> ds_recovered d"
proof -
  have cred: "load_ib_credentials (pw_env (ex_probe [])) None = Inr \<lparr>ibc_host = ''localhost'', ibc_port = 4002, ibc_client_id = 1, ibc_account_id = ''DU1''\<rparr>"
    using ex_credentials [of "[]"] by (auto simp: probe_credentials_def split: sum.splits if_splits)
  have fail: "snapshot_positions (Inr ()) (Inl (RuntimeError ''down'')) t c = (Inr {}, c)" for t c
    by (simp add: snapshot_positions_def read_positions_def require_connected_def ib_positions_def bindS_def getS_def retS_def raiseS_def liftS_def)
  obtain b2 where rec: "attempt_recovery ex_down ex_connected_ib = (True, b2)"
    by (simp add: attempt_recovery_def ex_down_def ib_disconnect_def ib_connect_def put_ib_connection_def bindS_def mk_ConnectionStatus_def
        validated_def ConnectionStatus_checks_def require_utc_def put_ib_def ex_connected_ib_def ib_init_def)
  have "drill_loop {} [ex_down] drill_start ex_connected_ib =
      (Inr (drill_start\<lparr>ds_dropped := True, ds_flag := Some True, ds_recovered := True, ds_reconciled := Some True\<rparr>), b2)"
    using rec fail by (simp add: drill_step_def ex_down_def drill_start_def is_connected_def) (simp add: ex_connected_ib_def)
  then show ?thesis
    by (simp add: reconnect_drill_def ex_drill_fields cred ex_connect drill_connected_def fail iterations_def)
qed

lemma ex_drill_quiet: "\<forall>n. list_all pushed (dp_pushes (di_polls ex_drill n))"
  by (simp add: ex_drill_fields ex_down_def)

theorem drill_reports_witness:
  "\<exists>d :: drill_summary. ds_recovered d \<and> ds_flag d = Some True \<and> ds_reconciled d \<noteq> None"
proof -
  obtain out d where r: "reconnect_drill ex_drill = (out, Some d)" "ds_recovered d" using ex_drill_runs by blast
  have "ds_recovered d \<and> ds_flag d = Some True \<and> ds_reconciled d \<noteq> None"
    using drill_reports [OF ex_drill_quiet r(1)] r(2) by simp
  then show ?thesis by blast
qed

theorem failed_reads_agree_witness:
  "\<exists>out d. reconnect_drill ex_drill = (out, Some d) \<and> ds_reconciled d = Some True"
proof -
  obtain out d where r: "reconnect_drill ex_drill = (out, Some d)" "ds_recovered d" using ex_drill_runs by blast
  have "\<forall>n. dp_positions (di_polls ex_drill n) = Inl (RuntimeError ''down'') \<and> dp_acquired (di_polls ex_drill n) = Inr ()"
    by (simp add: ex_drill_fields ex_down_def)
  from failed_reads_agree [OF ex_drill_quiet r ex_drill_fields(1,2) this] r(1) show ?thesis by blast
qed

end
