(* ===== verification/EodhdRefresh.thy ===== *)
theory EodhdRefresh
  imports CaptureRun Json
begin

text \<open>
  \<open>scripts/refresh_eodhd_parquet.py\<close> and \<open>scripts/refresh_eodhd_signals.py\<close>: fetching daily bars from EODHD, turning them
  into the parquets \<open>PaperMarketData\<close> reads, and computing the eligibility signals from the closes of QQQ and TLT.
  The answer of EODHD, the conversions of pandas, the moving average and the file system are parameters: \<open>pd_records\<close> is the
  records of a list of objects, \<open>pd_day\<close> the date of a cell counted from 1970-01-01, \<open>pd_float\<close> and \<open>pd_int\<close> the cell as a
  double and as an integer, each possibly an exception.  A frame written is read back as it is.
\<close>

section \<open>Fetching\<close>

text \<open>No response at all, or a status and a body, None when it is not JSON.  \<open>TransportError\<close> stands for \<open>httpx.HTTPError\<close>, of
  which the error for a status other than 2xx is one.\<close>

datatype eod_response = NoResponse | Response int "json option"

definition fetch_eod :: "eod_response \<Rightarrow> json list res" where
  "fetch_eod response =
     (case response of
        NoResponse \<Rightarrow> Inl TransportError
      | Response status body \<Rightarrow>
          if \<not> (200 \<le> status \<and> status < 300) then Inl TransportError
          else case body of
            None \<Rightarrow> Inl (ValueError ''Expecting value'')
          | Some (JArr xs) \<Rightarrow> Inr xs
          | Some _ \<Rightarrow> Inl (ValueError ''EODHD response was not a JSON array''))"

definition EODHD_SCHEMA :: CredentialSchema where
  "EODHD_SCHEMA = \<lparr>cs_broker = ''eodhd'', cs_fields = [field ''EODHD_API_KEY'' True]\<rparr>"

text \<open>\<open>date.fromisoformat\<close>, as the day counted from 1970-01-01.\<close>

definition date_fromisoformat :: "string \<Rightarrow> int option" where
  "date_fromisoformat s =
     (case iso_date s of
        Some (ymd, []) \<Rightarrow> map_option (\<lambda>d. wall_us d div 86400000000) (mk_datetime ymd (0, 0, 0, 0) None)
      | _ \<Rightarrow> None)"

text \<open>The checks both scripts start with: the exit code of the first that fails, or the key and the range.\<close>

definition refresh_request :: "(string \<rightharpoonup> string) \<Rightarrow> string option \<Rightarrow> string \<Rightarrow> string \<Rightarrow> int res + string \<times> int \<times> int" where
  "refresh_request env secrets from_date to_date =
     (case load_credentials EODHD_SCHEMA env secrets of
        Inl e \<Rightarrow> Inl (Inr 2)
      | Inr creds \<Rightarrow>
          (case map_of creds ''EODHD_API_KEY'' of
             None \<Rightarrow> Inl (Inl (KeyError ''EODHD_API_KEY''))
           | Some api_key \<Rightarrow>
               if api_key = ''replace-with-your-eodhd-api-key'' then Inl (Inr 2)
               else case (date_fromisoformat from_date, date_fromisoformat to_date) of
                 (Some start, Some stop) \<Rightarrow> if stop < start then Inl (Inr 2) else Inr (api_key, start, stop)
               | _ \<Rightarrow> Inl (Inr 2)))"

section \<open>Frames\<close>

type_synonym eod_row = "(string \<times> json) list"

record pandas_cells =
  pd_records :: "json list \<Rightarrow> eod_row list res"
  pd_day :: "json \<Rightarrow> int res"
  pd_float :: "json \<Rightarrow> rat res"
  pd_int :: "json \<Rightarrow> int res"

record eod_bar =
  eb_day :: int
  eb_open :: rat
  eb_high :: rat
  eb_low :: rat
  eb_close :: rat
  eb_volume :: int

record eod_frame =
  ef_columns :: "string list"
  ef_bars :: "eod_bar list"

definition VALUE_FIELDS :: "string list" where
  "VALUE_FIELDS = [''open'', ''high'', ''low'', ''close'', ''volume'']"

definition eod_open_time :: "int \<Rightarrow> datetime" where
  "eod_open_time day = utc (day * 86400000000 + 32400000000)"

definition eod_close_time :: "int \<Rightarrow> datetime" where
  "eod_close_time day = utc (day * 86400000000 + 55800000000)"

definition convert_rows :: "pandas_cells \<Rightarrow> bool \<Rightarrow> (eod_row \<times> int) list \<Rightarrow> eod_bar list res" where
  "convert_rows p adjusted kept =
     (let column = (\<lambda>key. mapR (\<lambda>(row, _). pd_float p (jget row key)) kept)
      in bindR (column ''open'') (\<lambda>opens. bindR (column ''high'') (\<lambda>highs. bindR (column ''low'') (\<lambda>lows. bindR (column ''close'') (\<lambda>closes.
         bindR (mapR (\<lambda>(row, _). pd_int p (jget row ''volume'')) kept) (\<lambda>volumes.
         bindR (if adjusted then mapR (\<lambda>(row, _). if jget row ''adjusted_close'' = JNull then Inr 0 else pd_float p (jget row ''adjusted_close'')) kept
                else Inr []) (\<lambda>_.
         Inr (map (\<lambda>(day, opn, hgh, lw, cls, vol). \<lparr>eb_day = day, eb_open = opn, eb_high = hgh, eb_low = lw, eb_close = cls, eb_volume = vol\<rparr>)
           (zip (map snd kept) (zip opens (zip highs (zip lows (zip closes volumes)))))))))))))"

definition rows_to_frame :: "pandas_cells \<Rightarrow> json list \<Rightarrow> eod_frame res" where
  "rows_to_frame p body =
     (if body = [] then Inr \<lparr>ef_columns = required_columns @ [''adjusted_close''], ef_bars = []\<rparr>
      else bindR (pd_records p body) (\<lambda>rows.
        let columns = concat (map (map fst) rows); adjusted = ''adjusted_close'' \<in> set columns
        in if \<not> set (''date'' # VALUE_FIELDS) \<subseteq> set columns then Inl (ValueError ''EODHD response missing required field(s)'')
           else bindR (mapR (\<lambda>row. pd_day p (jget row ''date'')) rows) (\<lambda>days.
                bindR (convert_rows p adjusted (filter (\<lambda>(row, _). list_all (\<lambda>key. jget row key \<noteq> JNull) VALUE_FIELDS) (zip rows days))) (\<lambda>bars.
                Inr \<lparr>ef_columns = required_columns @ (if adjusted then [''adjusted_close''] else []), ef_bars = sort_key eb_day bars\<rparr>))))"

text \<open>The parquet as \<open>PaperMarketData\<close> reads it: \<open>Decimal(str(v))\<close> of the cells.\<close>

definition eod_parquet :: "(rat \<Rightarrow> decimal) \<Rightarrow> eod_frame \<Rightarrow> fixture" where
  "eod_parquet cell fr = \<lparr>fx_columns = ef_columns fr,
     fx_rows = map (\<lambda>b. \<lparr>fw_open_time = eod_open_time (eb_day b), fw_close_time = eod_close_time (eb_day b), fw_open = cell (eb_open b),
       fw_high = cell (eb_high b), fw_low = cell (eb_low b), fw_close = cell (eb_close b), fw_volume = dint (eb_volume b), fw_vwap = None\<rparr>)
       (ef_bars fr)\<rparr>"

text \<open>Fetching one ticker: the exit code or exception that ends the script, or the frame.\<close>

definition fetch_frame :: "pandas_cells \<Rightarrow> eod_response \<Rightarrow> int res + eod_frame" where
  "fetch_frame p response =
     (case fetch_eod response of
        Inl e \<Rightarrow> Inl (if e = TransportError then Inr 3 else Inl e)
      | Inr body \<Rightarrow>
          if body = [] then Inl (Inr 4)
          else case rows_to_frame p body of
            Inl (ValueError m) \<Rightarrow> Inl (Inr 5)
          | Inl (KeyError m) \<Rightarrow> Inl (Inr 5)
          | Inl e \<Rightarrow> Inl (Inl e)
          | Inr fr \<Rightarrow> if ef_bars fr = [] then Inl (Inr 4) else Inr fr)"

section \<open>One ticker\<close>

text \<open>The exit of \<open>refresh_eodhd_parquet.py\<close> and the parquet it writes; \<open>writes\<close> says whether writing succeeds.\<close>

definition refresh_parquet :: "pandas_cells \<Rightarrow> (rat \<Rightarrow> decimal) \<Rightarrow> (string \<rightharpoonup> string) \<Rightarrow> string option \<Rightarrow> string \<Rightarrow> string
    \<Rightarrow> (string \<Rightarrow> int \<Rightarrow> int \<Rightarrow> eod_response) \<Rightarrow> bool \<Rightarrow> bool \<Rightarrow> int res \<times> fixture option" where
  "refresh_parquet p cell env secrets from_date to_date answer dry_run writes =
     (case refresh_request env secrets from_date to_date of
        Inl code \<Rightarrow> (code, None)
      | Inr (api_key, start, stop) \<Rightarrow>
          (case fetch_frame p (answer api_key start stop) of
             Inl code \<Rightarrow> (code, None)
           | Inr fr \<Rightarrow>
               if dry_run then (Inr 0, None)
               else if \<not> writes then (Inr 5, None)
               else (Inr (if is_ok (read_fixture (eod_parquet cell fr)) then 0 else 5), Some (eod_parquet cell fr))))"


section \<open>The five tickers and the signals\<close>

definition TICKERS :: "(string \<times> string) list" where
  "TICKERS = [(''QQQ3.LSE'', ''QQL3''), (''IBTL.LSE'', ''IBTL''), (''IBTM.LSE'', ''IBTM''), (''QQQ'', ''QQQ''), (''TLT'', ''TLT'')]"

definition ELIGIBILITY_COLUMN_RENAME :: "(string \<times> string) list" where
  "ELIGIBILITY_COLUMN_RENAME = [(''TQQQ'', ''QQL3''), (''TMF'', ''IBTL''), (''IEF'', ''IBTM'')]"

fun fetch_all :: "pandas_cells \<Rightarrow> (string \<Rightarrow> eod_response) \<Rightarrow> (string \<times> string) list \<Rightarrow> int res + (string \<times> eod_frame) list" where
  "fetch_all p answer [] = Inr []"
| "fetch_all p answer ((ticker, symb) # tickers) =
     (case fetch_frame p (answer ticker) of
        Inl code \<Rightarrow> Inl code
      | Inr fr \<Rightarrow> (case fetch_all p answer tickers of Inl code \<Rightarrow> Inl code | Inr frames \<Rightarrow> Inr ((symb, fr) # frames)))"

definition closes_series :: "eod_frame \<Rightarrow> series" where
  "closes_series fr = map (\<lambda>b. (eod_close_time (eb_day b), Some (eb_close b))) (ef_bars fr)"

text \<open>\<open>series.reindex(index)\<close> for an index of the series' own labels: an exception when they repeat.\<close>

definition reindex :: "datetime list \<Rightarrow> series \<Rightarrow> series res" where
  "reindex index s =
     (if distinct (map fst s) then Inr (map (\<lambda>t. (t, case map_of s t of None \<Rightarrow> None | Some v \<Rightarrow> v)) index)
      else Inl (ValueError ''cannot reindex on an axis with duplicate labels''))"

definition align_closes :: "series \<Rightarrow> series \<Rightarrow> (series \<times> series) res" where
  "align_closes qqq_closes tlt_closes =
     (let common_idx = remdups (filter (\<lambda>t. t \<in> set (map fst tlt_closes)) (map fst qqq_closes))
      in bindR (reindex common_idx qqq_closes) (\<lambda>q. bindR (reindex common_idx tlt_closes) (\<lambda>t. Inr (q, t))))"

definition rename_columns :: "frame \<Rightarrow> frame" where
  "rename_columns fr = fr\<lparr>fr_columns := map (\<lambda>c. case map_of ELIGIBILITY_COLUMN_RENAME c of None \<Rightarrow> c | Some d \<Rightarrow> d) (fr_columns fr)\<rparr>"

definition compute_eligibility :: "(nat \<Rightarrow> pyfloat list \<Rightarrow> pyfloat list) \<Rightarrow> int \<Rightarrow> pyfloat \<Rightarrow> (string \<times> eod_frame) list \<Rightarrow> int res + frame" where
  "compute_eligibility rolling_mean sma_window enter_buffer frames =
     (case (map_of frames ''QQQ'', map_of frames ''TLT'') of
        (Some qqq_df, Some tlt_df) \<Rightarrow>
          (case align_closes (closes_series qqq_df) (closes_series tlt_df) of
             Inl e \<Rightarrow> Inl (Inl e)
           | Inr (qqq_closes, tlt_closes) \<Rightarrow>
               if int (length qqq_closes) < sma_window then Inl (Inr 5)
               else case triple_lev_sma_eligibility rolling_mean qqq_closes tlt_closes sma_window DEFAULT_EXIT enter_buffer of
                 Inl (ValueError m) \<Rightarrow> Inl (Inr 5)
               | Inl e \<Rightarrow> Inl (Inl e)
               | Inr eligibility \<Rightarrow> Inr (rename_columns eligibility))
      | _ \<Rightarrow> Inl (Inl (KeyError ''QQQ'')))"

text \<open>Writing the parquets in their order until one fails.\<close>

fun write_all :: "(string \<Rightarrow> bool) \<Rightarrow> (string \<times> fixture) list \<Rightarrow> bool \<times> (string \<times> fixture) list" where
  "write_all writes [] = (True, [])"
| "write_all writes ((symb, fx) # rest) =
     (if writes symb then (case write_all writes rest of (whole, written) \<Rightarrow> (whole, (symb, fx) # written)) else (False, []))"

record refresh_result =
  rf_exit :: "int res"
  rf_prices :: "(string \<times> fixture) list"
  rf_signals :: "frame option"

definition write_refresh :: "(string \<Rightarrow> bool) \<Rightarrow> (string \<times> fixture) list \<Rightarrow> frame \<Rightarrow> refresh_result" where
  "write_refresh writes parquets signals =
     (case write_all writes parquets of
        (whole, written) \<Rightarrow>
          if \<not> whole \<or> \<not> writes ''triple_lev_sma_eligible'' then \<lparr>rf_exit = Inr 5, rf_prices = written, rf_signals = None\<rparr>
          else \<lparr>rf_exit = Inr (if list_all (\<lambda>(_, fx). is_ok (read_fixture fx)) written then 0 else 5), rf_prices = written,
                rf_signals = Some signals\<rparr>)"

definition refresh_signals :: "pandas_cells \<Rightarrow> (rat \<Rightarrow> decimal) \<Rightarrow> (nat \<Rightarrow> pyfloat list \<Rightarrow> pyfloat list) \<Rightarrow> (string \<rightharpoonup> string) \<Rightarrow> string option
    \<Rightarrow> string \<Rightarrow> string \<Rightarrow> (string \<Rightarrow> int \<Rightarrow> int \<Rightarrow> string \<Rightarrow> eod_response) \<Rightarrow> int \<Rightarrow> pyfloat \<Rightarrow> bool \<Rightarrow> (string \<Rightarrow> bool) \<Rightarrow> refresh_result" where
  "refresh_signals p cell rolling_mean env secrets from_date to_date answer sma_window enter_buffer dry_run writes =
     (case (case refresh_request env secrets from_date to_date of
              Inl code \<Rightarrow> Inl code
            | Inr (api_key, start, stop) \<Rightarrow>
                (case fetch_all p (answer api_key start stop) TICKERS of
                   Inl code \<Rightarrow> Inl code
                 | Inr frames \<Rightarrow>
                     (case compute_eligibility rolling_mean sma_window enter_buffer frames of
                        Inl code \<Rightarrow> Inl code
                      | Inr eligibility \<Rightarrow> Inr (map (\<lambda>(symb, fr). (symb, eod_parquet cell fr)) frames, eligibility)))) of
        Inl code \<Rightarrow> \<lparr>rf_exit = code, rf_prices = [], rf_signals = None\<rparr>
      | Inr (parquets, signals) \<Rightarrow>
          if dry_run then \<lparr>rf_exit = Inr 0, rf_prices = [], rf_signals = None\<rparr> else write_refresh writes parquets signals)"

section \<open>Lemmas\<close>

definition good_parquet :: "fixture \<Rightarrow> bool" where
  "good_parquet fx \<longleftrightarrow> fx_rows fx \<noteq> [] \<and> read_fixture fx = Inr fx"

lemma fetch_frame_good:
  assumes "fetch_frame p response = Inr fr"
  shows "good_parquet (eod_parquet cell fr)"
proof -
  obtain body where "rows_to_frame p body = Inr fr" "body \<noteq> []" "ef_bars fr \<noteq> []"
    using assms by (auto simp: fetch_frame_def split: sum.splits exn.splits if_splits)
  then have fr: "set required_columns \<subseteq> set (ef_columns fr)" "sorted (map eb_day (ef_bars fr))" "ef_bars fr \<noteq> []"
    by (auto simp: rows_to_frame_def Let_def split: if_splits)
  have "sorted (map (\<lambda>r. dt_instant (fw_open_time r)) (fx_rows (eod_parquet cell fr)))"
    using fr(2) by (auto simp: eod_parquet_def sorted_map sorted_wrt_map eod_open_time_def comp_def elim!: sorted_wrt_mono_rel [rotated])
  then have "sort_key (\<lambda>r. dt_instant (fw_open_time r)) (fx_rows (eod_parquet cell fr)) = fx_rows (eod_parquet cell fr)"
    by (rule sort_key_id_if_sorted)
  with fr(1,3) show ?thesis by (simp add: good_parquet_def read_fixture_def eod_parquet_def)
qed

lemma fetch_all_good:
  "fetch_all p answer tickers = Inr frames \<Longrightarrow>
    map fst frames = map snd tickers \<and> list_all (\<lambda>(_, fr). good_parquet (eod_parquet cell fr)) frames"
proof (induction tickers arbitrary: frames)
  case (Cons t ts)
  obtain ticker symb where t: "t = (ticker, symb)" by (cases t)
  from Cons.prems obtain fr rest where r: "fetch_frame p (answer ticker) = Inr fr" "fetch_all p answer ts = Inr rest" "frames = (symb, fr) # rest"
    by (auto simp: t split: sum.splits)
  from Cons.IH [OF r(2)] fetch_frame_good [OF r(1)] r(3) show ?case by (simp add: t)
qed simp

lemma write_all_prefix: "write_all writes fxs = (whole, written) \<Longrightarrow> \<exists>rest. fxs = written @ rest \<and> (whole \<longleftrightarrow> rest = [])"
  by (induction writes fxs arbitrary: written rule: write_all.induct) (auto split: if_splits prod.splits)

lemma write_all_complete: "(\<And>s. writes s) \<Longrightarrow> write_all writes fxs = (True, fxs)"
  by (induction writes fxs rule: write_all.induct) auto

lemma compute_eligibility_columns:
  assumes "compute_eligibility rolling_mean w enter frames = Inr fr"
  shows "fr_columns fr = map i_symbol TRADABLES \<and>
    (\<exists>qqq_df. map_of frames ''QQQ'' = Some qqq_df \<and> set (map fst (fr_rows fr)) \<subseteq> set (map fst (closes_series qqq_df)))"
proof -
  obtain qqq_df tlt_df q t e where e: "map_of frames ''QQQ'' = Some qqq_df" "align_closes (closes_series qqq_df) (closes_series tlt_df) = Inr (q, t)"
      "triple_lev_sma_eligibility rolling_mean q t w DEFAULT_EXIT enter = Inr e" "fr = rename_columns e"
    using assms by (auto simp: compute_eligibility_def split: option.splits sum.splits prod.splits if_splits exn.splits)
  have "set (map fst q) \<subseteq> set (map fst (closes_series qqq_df))"
    using e(2) by (auto simp: align_closes_def reindex_def Let_def comp_def split: if_splits)
  moreover have "fr_columns e = LEGS \<and> set (map fst (fr_rows e)) \<subseteq> set (map fst q)"
  proof -
    have zip_keys: "set (map fst (zip (map fst q) ys)) \<subseteq> set (map fst q)" for ys :: "pyfloat list list"
      using set_zip_leftD by fastforce
    have "fr_columns e = LEGS \<and> (fr_rows e = [] \<or> (\<exists>ys. fr_rows e = zip (map fst q) ys))"
      using e(3) unfolding triple_lev_sma_eligibility_def Let_def by (auto split: if_splits)
    then show ?thesis
    proof (elim conjE disjE exE)
      fix ys assume "fr_columns e = LEGS" "fr_rows e = zip (map fst q) ys"
      with zip_keys [of ys] show ?thesis by simp
    qed simp
  qed
  ultimately have "fr_columns e = LEGS" "set (map fst (fr_rows fr)) \<subseteq> set (map fst (closes_series qqq_df))"
    using subset_trans by (simp_all add: e(4) rename_columns_def) blast
  then show ?thesis using e(1)
    by (simp add: e(4) rename_columns_def LEGS_def ELIGIBILITY_COLUMN_RENAME_def TRADABLES_def lse_etf_def)
qed


lemma fetch_frame_exit: "fetch_frame p response = Inl (Inr code) \<Longrightarrow> code \<in> {3, 4, 5}"
  by (auto simp: fetch_frame_def split: sum.splits exn.splits if_splits)

lemma fetch_all_exit: "fetch_all p answer tickers = Inl (Inr code) \<Longrightarrow> code \<in> {3, 4, 5}"
  by (induction tickers rule: fetch_all.induct) (auto split: sum.splits dest: fetch_frame_exit)

lemma refresh_request_exit: "refresh_request env secrets from_date to_date = Inl (Inr code) \<Longrightarrow> code = 2"
  by (auto simp: refresh_request_def split: sum.splits option.splits if_splits)

lemma compute_eligibility_exit: "compute_eligibility rolling_mean w enter frames = Inl (Inr code) \<Longrightarrow> code = 5"
  by (auto simp: compute_eligibility_def split: option.splits sum.splits prod.splits if_splits exn.splits)

lemma write_refresh_files:
  assumes "list_all (good_parquet \<circ> snd) parquets"
  shows "case write_refresh writes parquets signals of r \<Rightarrow>
    (\<exists>rest. parquets = rf_prices r @ rest \<and> (rf_signals r = Some signals \<and> rest = [] \<and> rf_exit r = Inr 0 \<or> rf_signals r = None \<and> rf_exit r = Inr 5))"
proof -
  obtain whole written where w: "write_all writes parquets = (whole, written)" by force
  from write_all_prefix [OF w] obtain rest where rest: "parquets = written @ rest" "whole \<longleftrightarrow> rest = []" by blast
  have "is_ok (read_fixture (snd x))" if "x \<in> set written" for x
    using assms that rest(1) by (simp add: list_all_iff good_parquet_def is_ok_def)
  then have "list_all (\<lambda>(_, fx). is_ok (read_fixture fx)) written" by (simp add: list_all_iff case_prod_beta)
  with w rest show ?thesis by (auto simp: write_refresh_def)
qed

text \<open>The outcomes of a refresh: nothing written, or a run of the parquets and perhaps the signals.\<close>

lemma refresh_signals_outcome:
  assumes r_def: "refresh_signals p cell rolling_mean env secrets from_date to_date answer w enter dry_run writes = r"
  obtains (unwritten) "rf_prices r = []" "rf_signals r = None" "case rf_exit r of Inl _ \<Rightarrow> True | Inr code \<Rightarrow> code \<in> {0, 2, 3, 4, 5} \<and> (code = 0 \<longrightarrow> dry_run)"
  | (files) parquets signals where "r = write_refresh writes parquets signals" "list_all (good_parquet \<circ> snd) parquets" "\<not> dry_run"
      "map fst parquets = map snd TICKERS" "fr_columns signals = map i_symbol TRADABLES"
      "set (map fst (fr_rows signals)) \<subseteq> fw_close_time ` set (fx_rows (the (map_of parquets ''QQQ'')))"
proof (cases "refresh_request env secrets from_date to_date")
  case (Inl code)
  then show thesis using unwritten by (cases code) (auto simp: r_def [symmetric] refresh_signals_def dest: refresh_request_exit)
next
  case (Inr x)
  obtain api_key start stop where x: "x = (api_key, start, stop)" by (metis surj_pair)
  show thesis
  proof (cases "fetch_all p (answer api_key start stop) TICKERS")
    case (Inl code)
    with Inr x show thesis using unwritten by (cases code) (auto simp: r_def [symmetric] refresh_signals_def dest: fetch_all_exit)
  next
    case frames: (Inr frames)
    show thesis
    proof (cases "compute_eligibility rolling_mean w enter frames")
      case (Inl code)
      with Inr x frames show thesis using unwritten by (cases code) (auto simp: r_def [symmetric] refresh_signals_def dest: compute_eligibility_exit)
    next
      case signals: (Inr signals)
      define parquets where "parquets = map (\<lambda>(symb, fr). (symb, eod_parquet cell fr)) frames"
      have r: "r = (if dry_run then \<lparr>rf_exit = Inr 0, rf_prices = [], rf_signals = None\<rparr> else write_refresh writes parquets signals)"
        using Inr x frames signals by (simp add: r_def [symmetric] refresh_signals_def parquets_def)
      note good = fetch_all_good [OF frames, of cell]
      have keys: "map fst parquets = map snd TICKERS" using good by (simp add: parquets_def comp_def case_prod_beta)
      have all: "list_all (good_parquet \<circ> snd) parquets" using good by (auto simp: parquets_def list_all_iff)
      obtain qqq_df where q: "map_of frames ''QQQ'' = Some qqq_df" "set (map fst (fr_rows signals)) \<subseteq> set (map fst (closes_series qqq_df))"
          "fr_columns signals = map i_symbol TRADABLES"
        using compute_eligibility_columns [OF signals] by blast
      have "map_of parquets ''QQQ'' = Some (eod_parquet cell qqq_df)" using q(1) by (simp add: parquets_def map_of_map)
      then have rows: "set (map fst (fr_rows signals)) \<subseteq> fw_close_time ` set (fx_rows (the (map_of parquets ''QQQ'')))"
        using q(2) by (auto simp: closes_series_def eod_parquet_def image_image)
      show thesis
      proof (cases dry_run)
        case True
        with r unwritten show thesis by simp
      next
        case False
        with r files [OF _ all False keys q(3) rows] show thesis by simp
      qed
    qed
  qed
qed

section \<open>Properties\<close>

text \<open>C26: what a refresh leaves: unless an exception escapes, the exit code is 0, 2, 3, 4 or 5; a dry run, and a run that fails
  before it writes, writes nothing; what was written is an initial run of the five parquets, all of them with the signals when the
  exit is 0; and every parquet written has bars and reads back through the loader of the paper market data as it is.\<close>

theorem refresh_leaves_consistent_files:
  "case refresh_signals p cell rolling_mean env secrets from_date to_date answer w enter dry_run writes of r \<Rightarrow>
     (case rf_exit r of
        Inl _ \<Rightarrow> rf_prices r = [] \<and> rf_signals r = None
      | Inr code \<Rightarrow> code \<in> {0, 2, 3, 4, 5} \<and>
          (if code \<in> {2, 3, 4} then rf_prices r = [] \<and> rf_signals r = None else True) \<and>
          (if code = 0 \<and> \<not> dry_run then rf_signals r \<noteq> None else rf_signals r = None)) \<and>
     (if dry_run then rf_prices r = [] else True) \<and>
     (\<exists>rest. map snd TICKERS = map fst (rf_prices r) @ rest \<and> (rf_signals r = None \<or> rest = [])) \<and>
     list_all (\<lambda>(_, fx). fx_rows fx \<noteq> [] \<and> read_fixture fx = Inr fx) (rf_prices r)"
using refl [of "refresh_signals p cell rolling_mean env secrets from_date to_date answer w enter dry_run writes"]
proof (cases rule: refresh_signals_outcome)
  case unwritten
  then show ?thesis by (auto split: sum.splits)
next
  case (files parquets signals)
  obtain rest where rest: "parquets = rf_prices (write_refresh writes parquets signals) @ rest"
      "rf_signals (write_refresh writes parquets signals) = Some signals \<and> rest = [] \<and> rf_exit (write_refresh writes parquets signals) = Inr 0 \<or>
       rf_signals (write_refresh writes parquets signals) = None \<and> rf_exit (write_refresh writes parquets signals) = Inr 5"
    using write_refresh_files [OF files(2), of writes signals] by auto
  have "map snd TICKERS = map fst (rf_prices (write_refresh writes parquets signals)) @ map fst rest"
    using files(4) rest(1) by (metis map_append)
  moreover have "list_all (\<lambda>(_, fx). fx_rows fx \<noteq> [] \<and> read_fixture fx = Inr fx) (rf_prices (write_refresh writes parquets signals))"
    using files(2) by (subst (asm) rest(1)) (simp add: list_all_iff good_parquet_def case_prod_beta)
  ultimately show ?thesis using rest(2) files(3) unfolding files(1) by auto
qed

text \<open>C20: the refresh feeds the capture: when a refresh has exited with 0 and written its files, the capture driver finds every
  input it looks for, whatever its other inputs; the signals are those of its three instruments by name, and each is dated at the
  close of a bar of QQQ.\<close>

theorem refresh_feeds_capture:
  "case refresh_signals p cell rolling_mean env secrets from_date to_date answer w enter dry_run writes of r \<Rightarrow>
     (case rf_signals r of
        None \<Rightarrow> True
      | Some signals \<Rightarrow>
          prepare_capture max_bars (inputs\<lparr>cw_prices := map_of (rf_prices r), cw_signals := Some signals\<rparr>) \<noteq> Inl (Inr 2) \<and>
          fr_columns signals = map i_symbol TRADABLES \<and>
          list_all (\<lambda>(t, _). t \<in> fw_close_time ` set (fx_rows (the (map_of (rf_prices r) ''QQQ'')))) (fr_rows signals))"
using refl [of "refresh_signals p cell rolling_mean env secrets from_date to_date answer w enter dry_run writes"]
proof (cases rule: refresh_signals_outcome)
  case (files parquets signals)
  show ?thesis
  proof (cases "rf_signals (write_refresh writes parquets signals)")
    case (Some sg)
    with write_refresh_files [OF files(2), of writes signals] have all: "rf_prices (write_refresh writes parquets signals) = parquets" "sg = signals" by auto
    have found: "map_of parquets (i_symbol i) \<noteq> None" if "i \<in> set TRADABLES" for i
    proof -
      have "i_symbol i \<in> set (map fst parquets)" using that by (auto simp: files(4) TICKERS_def TRADABLES_def lse_etf_def)
      then show ?thesis by (simp add: map_of_eq_None_iff)
    qed
    have "prepare_capture max_bars (inputs\<lparr>cw_prices := map_of parquets, cw_signals := Some signals\<rparr>) \<noteq> Inl (Inr 2)"
      using found by (auto simp: prepare_capture_def Let_def list_ex_iff split: sum.splits prod.splits)
    with files(5,6) Some all show ?thesis unfolding files(1) by (auto simp: list_all_iff)
  qed (simp add: files(1))
qed simp


section \<open>Boundaries\<close>

text \<open>An error that EODHD reports as a JSON object is no HTTP error: it ends the script with a traceback, not with the exit code 3.\<close>

lemma error_object_escapes:
  "refresh_request env secrets from_date to_date = Inr (api_key, start, stop) \<Longrightarrow>
   answer api_key start stop = Response 200 (Some (JObj kvs)) \<Longrightarrow>
   refresh_parquet p cell env secrets from_date to_date answer dry_run writes = (Inl (ValueError ''EODHD response was not a JSON array''), None)"
  by (simp add: refresh_parquet_def fetch_frame_def fetch_eod_def)

text \<open>A refresh over two days that writes its files.\<close>

definition ex_cells :: pandas_cells where
  "ex_cells = \<lparr>pd_records = mapR (\<lambda>j. case j of JObj kvs \<Rightarrow> Inr kvs | _ \<Rightarrow> Inl (ValueError ''not an object'')),
     pd_day = (\<lambda>j. case j of JStr s \<Rightarrow> (case date_fromisoformat s of None \<Rightarrow> Inl (ValueError ''date'') | Some d \<Rightarrow> Inr d) | _ \<Rightarrow> Inl (TypeError ''date'')),
     pd_float = (\<lambda>j. case j of JNum t \<Rightarrow> bindR (read_decimal t) (\<lambda>d. Inr (fl (dval d))) | _ \<Rightarrow> Inl (TypeError ''float'')),
     pd_int = (\<lambda>j. case j of JNum t \<Rightarrow> (case parse_int t of None \<Rightarrow> Inl (ValueError ''int'') | Some n \<Rightarrow> Inr n) | _ \<Rightarrow> Inl (TypeError ''int''))\<rparr>"

definition ex_eod_row :: "string \<Rightarrow> string \<Rightarrow> json" where
  "ex_eod_row day price = JObj [(''date'', JStr day), (''open'', JNum price), (''high'', JNum price), (''low'', JNum price), (''close'', JNum price), (''volume'', JNum ''7'')]"

definition ex_refresh :: refresh_result where
  "ex_refresh = refresh_signals ex_cells ex_cell (\<lambda>_ xs. xs) [''EODHD_API_KEY'' \<mapsto> ''k''] None ''2026-04-01'' ''2026-04-02''
     (\<lambda>_ _ _ _. Response 200 (Some (JArr [ex_eod_row ''2026-04-02'' ''31'', ex_eod_row ''2026-04-01'' ''30'']))) 2 (Some 0) False (\<lambda>_. True)"

lemma ex_refresh_writes:
  "case rf_signals ex_refresh of None \<Rightarrow> False | Some signals \<Rightarrow> map fst (fr_rows signals) = [eod_close_time 20544, eod_close_time 20545]"
  by code_simp

end
