(* ===== verification/QuoteProbe.thy ===== *)
theory QuoteProbe
  imports EodhdRefresh
begin

text \<open>
  \<open>scripts/probe_qql3_unit_of_quote.py\<close>: which explanation of a price that differs between EODHD and IB the answers of EODHD
  support.  As in \<open>EodhdRefresh\<close> a response is an input; the ratio of the last close to the adjusted one, which pandas computes
  (None without the column), and the outcome of reading the local parquet are parameters.  Printing has no effect here, and
  comparisons are those of doubles.
\<close>

definition eodhd_call :: "eod_response \<Rightarrow> json res" where
  "eodhd_call response =
     (case response of
        NoResponse \<Rightarrow> Inl TransportError
      | Response status body \<Rightarrow>
          if \<not> (200 \<le> status \<and> status < 300) then Inl TransportError
          else case body of None \<Rightarrow> Inl (ValueError ''Expecting value'') | Some j \<Rightarrow> Inr j)"

text \<open>\<open>except httpx.HTTPError\<close> with a default.\<close>

definition or_default :: "json \<Rightarrow> json res \<Rightarrow> json res" where
  "or_default d r = (case r of Inl e \<Rightarrow> if e = TransportError then Inr d else Inl e | Inr j \<Rightarrow> Inr j)"

text \<open>Listing the last ten splits calls \<open>get\<close> on each row.\<close>

definition list_splits :: "json \<Rightarrow> unit res" where
  "list_splits splits =
     (if \<not> json_truthy splits then Inr ()
      else case splits of
        JArr rows \<Rightarrow> if list_all (\<lambda>row. as_dict row \<noteq> None) (drop (length rows - 10) rows) then Inr () else Inl (AttributeError ''get'')
      | JStr _ \<Rightarrow> Inl (AttributeError ''get'')
      | _ \<Rightarrow> Inl (TypeError ''not subscriptable''))"

definition general_section :: "json \<Rightarrow> (string \<times> json) list res" where
  "general_section fundamentals =
     (case as_dict fundamentals of
        None \<Rightarrow> Inr []
      | Some kvs \<Rightarrow> (case as_dict (jget_default kvs ''General'' (JObj [])) of None \<Rightarrow> Inl (AttributeError ''get'') | Some g \<Rightarrow> Inr g))"

datatype hypothesis_status = CONFIRMED | PARTIAL | REFUTED | INCONCLUSIVE

definition h1_status :: "rat \<Rightarrow> bool \<Rightarrow> hypothesis_status" where
  "h1_status latest_ratio has_split =
     (let deviation = \<bar>fl (latest_ratio - 1)\<bar>
      in if fl (1 / 100) < deviation \<and> has_split then (if 3 / 2 < latest_ratio \<or> latest_ratio < fl (7 / 10) then CONFIRMED else PARTIAL)
         else if deviation \<le> fl (1 / 100) then REFUTED
         else INCONCLUSIVE)"

definition h2_status :: "json \<Rightarrow> hypothesis_status" where
  "h2_status currency =
     (if currency \<in> {JStr ''GBX'', JStr ''GBp'', JStr ''GBX/GBp''} then CONFIRMED
      else if currency = JStr ''USD'' then REFUTED
      else if currency = JNull then INCONCLUSIVE
      else REFUTED)"

datatype remedy = UseAdjustedClose | ConvertPence | ManualScale

definition decision_input :: "hypothesis_status \<Rightarrow> hypothesis_status \<Rightarrow> remedy" where
  "decision_input h1 h2 = (if h1 = CONFIRMED then UseAdjustedClose else if h2 = CONFIRMED then ConvertPence else ManualScale)"

record quote_inputs =
  qi_env :: "string \<rightharpoonup> string"
  qi_secrets :: "string option"
  qi_eod :: eod_response
  qi_splits :: eod_response
  qi_fundamentals :: eod_response
  qi_ratio :: "json list \<Rightarrow> rat option res"
  qi_local :: "unit res"

definition refutation_matrix :: "quote_inputs \<Rightarrow> json list \<Rightarrow> (hypothesis_status \<times> hypothesis_status) res" where
  "refutation_matrix w eod_rows =
     bindR (qi_ratio w eod_rows) (\<lambda>ratio.
     bindR (or_default (JArr []) (eodhd_call (qi_splits w))) (\<lambda>splits.
     bindR (list_splits splits) (\<lambda>_.
     bindR (or_default (JObj []) (eodhd_call (qi_fundamentals w))) (\<lambda>fundamentals.
     bindR (general_section fundamentals) (\<lambda>general.
     bindR (qi_local w) (\<lambda>_.
     Inr (h1_status (case ratio of None \<Rightarrow> 1 | Some r \<Rightarrow> r) (json_truthy splits), h2_status (jget general ''CurrencyCode''))))))))"

text \<open>The exit code or the exception, and the remedy announced.\<close>

definition quote_probe :: "quote_inputs \<Rightarrow> int res \<times> remedy option" where
  "quote_probe w =
     (case load_credentials EODHD_SCHEMA (qi_env w) (qi_secrets w) of
        Inl e \<Rightarrow> (Inr 2, None)
      | Inr _ \<Rightarrow>
          (case eodhd_call (qi_eod w) of
             Inl e \<Rightarrow> (if e = TransportError then Inr 3 else Inl e, None)
           | Inr body \<Rightarrow>
               (case as_list body of
                  None \<Rightarrow> (Inr 3, None)
                | Some eod_rows \<Rightarrow>
                    if eod_rows = [] then (Inr 3, None)
                    else case refutation_matrix w eod_rows of
                      Inl e \<Rightarrow> (Inl e, None)
                    | Inr (h1, h2) \<Rightarrow> (Inr 0, Some (decision_input h1 h2)))))"

section \<open>Lemmas\<close>

definition pence_code :: "json \<Rightarrow> bool" where
  "pence_code currency \<longleftrightarrow> currency \<in> {JStr ''GBX'', JStr ''GBp'', JStr ''GBX/GBp''}"

lemma h1_confirmed:
  assumes "h1_status (case ratio of None \<Rightarrow> 1 | Some r \<Rightarrow> r) s = CONFIRMED"
  shows "s \<and> (\<exists>r. ratio = Some r \<and> (3 / 2 < r \<or> r < fl (7 / 10)))"
proof -
  have "fl 0 = 0" by (simp add: fl_def)
  moreover have "0 \<le> fl (1 / 100)" by code_simp
  ultimately show ?thesis using assms by (cases ratio) (auto simp: h1_status_def Let_def split: if_splits)
qed

lemma splits_reported:
  "or_default (JArr []) r = Inr splits \<Longrightarrow> json_truthy splits \<Longrightarrow> r = Inr splits"
  by (auto simp: or_default_def json_truthy_def split: sum.splits if_splits)

lemma pence_reported:
  assumes "or_default (JObj []) r = Inr f" "general_section f = Inr g" "h2_status (jget g ''CurrencyCode'') = CONFIRMED"
  shows "\<exists>kvs. r = Inr (JObj kvs) \<and> jget kvs ''General'' = JObj g \<and> pence_code (jget g ''CurrencyCode'')"
proof -
  have c: "pence_code (jget g ''CurrencyCode'')" using assms(3) by (auto simp: h2_status_def pence_code_def split: if_splits)
  then have ne: "g \<noteq> []" by (auto simp: jget_def pence_code_def)
  obtain kvs where k: "f = JObj kvs" "jget_default kvs ''General'' (JObj []) = JObj g"
    using assms(2) ne by (cases f) (auto simp: general_section_def as_dict_def split: option.splits json.splits)
  have "kvs \<noteq> []" using k(2) ne by (auto simp: jget_default_def)
  then have "r = Inr (JObj kvs)" using assms(1) k(1) by (auto simp: or_default_def split: sum.splits if_splits)
  moreover have "jget kvs ''General'' = JObj g" using k(2) ne by (auto simp: jget_def jget_default_def split: option.splits)
  ultimately show ?thesis using c by blast
qed

lemma matrix_confirmed:
  assumes "refutation_matrix w rows = Inr (h1, h2)"
  shows "h1 = CONFIRMED \<Longrightarrow> \<exists>ratio splits. qi_ratio w rows = Inr (Some ratio) \<and> (3 / 2 < ratio \<or> ratio < fl (7 / 10)) \<and>
      eodhd_call (qi_splits w) = Inr splits \<and> json_truthy splits"
    and "h2 = CONFIRMED \<Longrightarrow> \<exists>kvs g. eodhd_call (qi_fundamentals w) = Inr (JObj kvs) \<and> jget kvs ''General'' = JObj g \<and>
      pence_code (jget g ''CurrencyCode'')"
proof -
  obtain ratio splits f g where m: "qi_ratio w rows = Inr ratio" "or_default (JArr []) (eodhd_call (qi_splits w)) = Inr splits"
    "or_default (JObj []) (eodhd_call (qi_fundamentals w)) = Inr f" "general_section f = Inr g"
    "h1 = h1_status (case ratio of None \<Rightarrow> 1 | Some r \<Rightarrow> r) (json_truthy splits)" "h2 = h2_status (jget g ''CurrencyCode'')"
    using assms by (auto simp: refutation_matrix_def)
  show "\<exists>ratio splits. qi_ratio w rows = Inr (Some ratio) \<and> (3 / 2 < ratio \<or> ratio < fl (7 / 10)) \<and>
      eodhd_call (qi_splits w) = Inr splits \<and> json_truthy splits" if "h1 = CONFIRMED"
    using h1_confirmed [of ratio "json_truthy splits"] splits_reported [OF m(2)] m(1,5) that by auto
  show "\<exists>kvs g. eodhd_call (qi_fundamentals w) = Inr (JObj kvs) \<and> jget kvs ''General'' = JObj g \<and> pence_code (jget g ''CurrencyCode'')"
    if "h2 = CONFIRMED"
    using pence_reported [OF m(3,4)] m(6) that by blast
qed

section \<open>Properties\<close>

text \<open>A remedy is announced exactly with exit code 0; the adjusted close is proposed only when EODHD reports a split and its last close is
  more than three halves, or less than seven tenths, of the adjusted one, the conversion of pence only under a pence currency
  code; a failure to fetch splits or fundamentals decides for neither.\<close>

theorem quote_probe_remedy:
  "case quote_probe w of (exit, r) \<Rightarrow>
      (exit = Inr 0 \<longleftrightarrow> r \<noteq> None) \<and> (\<forall>code. exit = Inr code \<longrightarrow> code \<in> {0, 2, 3}) \<and>
      (r = Some UseAdjustedClose \<longrightarrow> (\<exists>rows ratio splits. eodhd_call (qi_eod w) = Inr (JArr rows) \<and> qi_ratio w rows = Inr (Some ratio) \<and>
         (3 / 2 < ratio \<or> ratio < fl (7 / 10)) \<and> eodhd_call (qi_splits w) = Inr splits \<and> json_truthy splits)) \<and>
      (r = Some ConvertPence \<longrightarrow> (\<exists>kvs g. eodhd_call (qi_fundamentals w) = Inr (JObj kvs) \<and> jget kvs ''General'' = JObj g \<and>
         pence_code (jget g ''CurrencyCode'')))"
proof -
  have rows: "as_list j = Some rows \<longleftrightarrow> j = JArr rows" for j rows by (cases j) (auto simp: as_list_def)
  have fails: "quote_probe w = (exit, None) \<Longrightarrow> exit \<noteq> Inr 0 \<Longrightarrow> \<forall>code. exit = Inr code \<longrightarrow> code \<in> {2, 3} \<Longrightarrow> ?thesis" for exit
    by simp
  have "(\<exists>exit. quote_probe w = (exit, None) \<and> (\<forall>code. exit = Inr code \<longrightarrow> code \<in> {2, 3})) \<or>
    (\<exists>rows h1 h2. eodhd_call (qi_eod w) = Inr (JArr rows) \<and> refutation_matrix w rows = Inr (h1, h2) \<and> quote_probe w = (Inr 0, Some (decision_input h1 h2)))"
    by (auto simp: quote_probe_def rows split: sum.split option.split)
  then show ?thesis
  proof (elim disjE exE conjE)
    fix rows h1 h2
    assume m: "eodhd_call (qi_eod w) = Inr (JArr rows)" "refutation_matrix w rows = Inr (h1, h2)" "quote_probe w = (Inr 0, Some (decision_input h1 h2))"
    from matrix_confirmed [OF m(2)] m(1,3) show ?thesis by (auto simp: decision_input_def split: if_splits)
  qed (rule fails, auto)
qed

end
