(* ===== verification/StrategyLoader.thy ===== *)
theory StrategyLoader
  imports StrategyConfig "HOL-Library.Char_ord" "HOL-Library.List_Lexorder"
begin

text \<open>
  \<open>src/blive/strategy/loader.py\<close>: from the YAML file of a strategy to the bundle the pipelines run.  The strategy
  object comes from the backtesting package: a record of factors by name, of which the loader touches the field
  \<open>path\<close> when there is one (\<open>fc_path\<close> is None when the object has no such field, \<open>Some None\<close> when it holds
  None).  The file system, the YAML parser, the import of the strategy module and SHA-256 are fields of
  \<open>loader_env\<close>.  Text handed to SHA-256 is ASCII: \<open>json.dumps\<close> escapes everything else.
\<close>

section \<open>The code\<close>

record 'a factor =
  fc_path :: "string option option"
  fc_rest :: 'a

record 'a btest_strategy =
  bs_factors :: "(string \<times> 'a factor) list"

record 'a loader_env =
  le_is_file :: "string \<Rightarrow> bool"
  le_exists :: "string \<Rightarrow> bool"
  le_read :: "string \<Rightarrow> string"
  le_parse :: "string \<Rightarrow> LiveStrategyConfig option"
  le_parent :: "string \<Rightarrow> string"
  le_builder :: "string \<Rightarrow> ((string \<times> string) list \<Rightarrow> 'a btest_strategy res) option res"
  le_sha256 :: "string \<Rightarrow> string"
  le_btest_version :: "string option"
  le_blive_version :: string

record 'a LiveStrategy =
  lv_strategy :: "'a btest_strategy"
  lv_config :: LiveStrategyConfig
  lv_spec_id :: string
  lv_artefacts :: "(string \<times> string) list"

text \<open>\<open>factors[name] = factor\<close> on a dictionary that has the name.\<close>

definition set_factor :: "string \<Rightarrow> 'a factor \<Rightarrow> (string \<times> 'a factor) list \<Rightarrow> (string \<times> 'a factor) list" where
  "set_factor name f = map (\<lambda>(k, g). (k, if k = name then f else g))"

fun override_loop :: "(string \<Rightarrow> bool) \<Rightarrow> (string \<times> string) list \<Rightarrow> (string \<times> 'a factor) list \<Rightarrow> (string \<times> 'a factor) list res" where
  "override_loop exists [] factors = Inr factors"
| "override_loop exists ((name, new_path) # rest) factors =
     (if \<not> exists new_path then Inl (FileNotFoundError ''artefact_paths points to a non-existent file'')
      else case map_of factors name of
        None \<Rightarrow> Inl (KeyError name)
      | Some factor \<Rightarrow>
          if fc_path factor = None then Inl (TypeError ''artefact_paths only valid for factors with a path field'')
          else override_loop exists rest (set_factor name (factor\<lparr>fc_path := Some (Some new_path)\<rparr>) factors))"

definition apply_artefact_overrides :: "(string \<Rightarrow> bool) \<Rightarrow> 'a btest_strategy \<Rightarrow> (string \<times> string) list \<Rightarrow> 'a btest_strategy res" where
  "apply_artefact_overrides exists strategy overrides =
     (if overrides = [] then Inr strategy
      else if \<not> set (map fst overrides) \<subseteq> set (map fst (bs_factors strategy))
      then Inl (ValueError ''artefact_paths references unknown factor(s)'')
      else bindR (override_loop exists overrides (bs_factors strategy)) (\<lambda>factors. Inr (strategy\<lparr>bs_factors := factors\<rparr>)))"

definition hash_factor :: "(string \<Rightarrow> bool) \<Rightarrow> (string \<Rightarrow> string) \<Rightarrow> (string \<Rightarrow> string) \<Rightarrow> string \<times> 'a factor \<Rightarrow> (string \<times> string) list" where
  "hash_factor is_file read sha256 nf =
     (case fc_path (snd nf) of
        Some (Some path) \<Rightarrow> if is_file path then [(fst nf, sha256 (read path))] else []
      | _ \<Rightarrow> [])"

definition hash_external_artefacts :: "(string \<Rightarrow> bool) \<Rightarrow> (string \<Rightarrow> string) \<Rightarrow> (string \<Rightarrow> string) \<Rightarrow> 'a btest_strategy
    \<Rightarrow> (string \<times> string) list" where
  "hash_external_artefacts is_file read sha256 strategy = concat (map (hash_factor is_file read sha256) (bs_factors strategy))"

text \<open>\<open>json.dumps\<close> of strings and of the payload, with sorted keys and no spaces.\<close>

definition json_hex_digit :: "nat \<Rightarrow> char" where
  "json_hex_digit n = char_of (if n < 10 then 48 + n else 87 + n)"

definition json_char :: "char \<Rightarrow> string" where
  "json_char c =
     (if c = CHR 0x22 then [CHR 0x5C, CHR 0x22] else if c = CHR 0x5C then [CHR 0x5C, CHR 0x5C]
      else if c = CHR 0x0A then [CHR 0x5C, CHR ''n''] else if c = CHR 0x0D then [CHR 0x5C, CHR ''r'']
      else if c = CHR 0x09 then [CHR 0x5C, CHR ''t''] else if c = CHR 0x0C then [CHR 0x5C, CHR ''f'']
      else if c = CHR 0x08 then [CHR 0x5C, CHR ''b'']
      else let n = (of_char c :: nat)
           in if n < 32 \<or> 126 < n then [CHR 0x5C, CHR ''u'', CHR ''0'', CHR ''0'', json_hex_digit (n div 16), json_hex_digit (n mod 16)]
              else [c])"

definition json_string :: "string \<Rightarrow> string" where
  "json_string s = CHR 0x22 # concat (map json_char s) @ [CHR 0x22]"

fun json_members :: "(string \<times> string) list \<Rightarrow> string" where
  "json_members [] = []"
| "json_members [(k, v)] = json_string k @ '':'' @ json_string v"
| "json_members ((k, v) # m # ms) = json_string k @ '':'' @ json_string v @ '','' @ json_members (m # ms)"

definition spec_payload :: "string \<Rightarrow> string \<Rightarrow> string \<Rightarrow> string \<Rightarrow> (string \<times> string) list \<Rightarrow> string" where
  "spec_payload yaml_sha strategy_module btest_version blive_version artefacts =
     ''{'' @ json_string ''artefact_sha256_by_factor'' @ '':{'' @ json_members (sort_key fst artefacts) @ ''},'' @
     json_members [(''blive_version'', blive_version), (''btest_version'', btest_version),
       (''strategy_module'', strategy_module), (''yaml_sha256'', yaml_sha)] @ ''}''"

definition compute_spec_id :: "(string \<Rightarrow> string) \<Rightarrow> string \<Rightarrow> string \<Rightarrow> string \<Rightarrow> string \<Rightarrow> (string \<times> string) list \<Rightarrow> string" where
  "compute_spec_id sha256 canonical_yaml_bytes strategy_module btest_version blive_version artefacts =
     sha256 (spec_payload (sha256 canonical_yaml_bytes) strategy_module btest_version blive_version artefacts)"

definition pkg_version :: "string option \<Rightarrow> string" where
  "pkg_version found = (case found of None \<Rightarrow> ''unknown'' | Some v \<Rightarrow> v)"

definition load_live_strategy :: "'a loader_env \<Rightarrow> string \<Rightarrow> 'a LiveStrategy res" where
  "load_live_strategy env path =
     (if \<not> le_is_file env path then Inl (FileNotFoundError ''live strategy YAML not found'')
      else let raw = le_read env path
      in case le_parse env raw of
        None \<Rightarrow> Inl (ValueError ''live strategy YAML must be a mapping at the top level'')
      | Some parsed \<Rightarrow>
          bindR (mk_LiveStrategyConfig parsed) (\<lambda>cfg.
            if le_parent env path \<noteq> lc_strategy_id cfg then Inl (ValueError ''strategy_id mismatch'')
            else bindR (le_builder env (lc_strategy_module cfg)) (\<lambda>found.
              case found of
                None \<Rightarrow> Inl (AttributeError ''strategy module does not expose a callable build_strategy()'')
              | Some builder \<Rightarrow>
                  bindR (builder (lc_kwargs cfg)) (\<lambda>built.
                  bindR (apply_artefact_overrides (le_exists env) built (lc_artefact_paths cfg)) (\<lambda>strategy.
                    let artefacts = hash_external_artefacts (le_is_file env) (le_read env) (le_sha256 env) strategy
                    in Inr \<lparr>lv_strategy = strategy, lv_config = cfg,
                         lv_spec_id = compute_spec_id (le_sha256 env) raw (lc_strategy_module cfg)
                           (pkg_version (le_btest_version env)) (le_blive_version env) artefacts,
                         lv_artefacts = artefacts\<rparr>)))))"

section \<open>The rendering can be read back\<close>

text \<open>One escaped character at the front of a text.\<close>

definition hex_value :: "char \<Rightarrow> nat" where
  "hex_value c = (let n = of_char c in if n < 58 then n - 48 else n - 87)"

definition unescape :: "char \<Rightarrow> char" where
  "unescape c = (if c = CHR ''n'' then CHR 0x0A else if c = CHR ''r'' then CHR 0x0D else if c = CHR ''t'' then CHR 0x09
     else if c = CHR ''f'' then CHR 0x0C else if c = CHR ''b'' then CHR 0x08 else c)"

fun read_char :: "string \<Rightarrow> (char \<times> string) option" where
  "read_char [] = None"
| "read_char (a # s) =
     (if a \<noteq> CHR 0x5C then Some (a, s)
      else case s of
        [] \<Rightarrow> None
      | b # s' \<Rightarrow>
          if b \<noteq> CHR ''u'' then Some (unescape b, s')
          else (case s' of _ # _ # h # l # r \<Rightarrow> Some (char_of (hex_value h * 16 + hex_value l), r) | _ \<Rightarrow> None))"

lemma json_hex_digit_value: "n < 16 \<Longrightarrow> hex_value (json_hex_digit n) = n"
  by (auto simp: hex_value_def json_hex_digit_def Let_def)

lemma json_char_cases:
  obtains (two) b where "json_char c = [CHR 0x5C, b]" "b \<noteq> CHR ''u''" "unescape b = c"
  | (six) "json_char c = [CHR 0x5C, CHR ''u'', CHR ''0'', CHR ''0'', json_hex_digit (of_char c div 16), json_hex_digit (of_char c mod 16)]"
  | (plain) "json_char c = [c]" "c \<noteq> CHR 0x5C" "c \<noteq> CHR 0x22"
proof -
  consider "c = CHR 0x22" | "c = CHR 0x5C" | "c = CHR 0x0A" | "c = CHR 0x0D" | "c = CHR 0x09" | "c = CHR 0x0C" | "c = CHR 0x08"
    | "c \<notin> {CHR 0x22, CHR 0x5C, CHR 0x0A, CHR 0x0D, CHR 0x09, CHR 0x0C, CHR 0x08}" by blast
  then show thesis
  proof cases
    case 1
    then show thesis by (intro two [of "CHR 0x22"]) (simp_all add: json_char_def unescape_def)
  next
    case 2
    then show thesis by (intro two [of "CHR 0x5C"]) (simp_all add: json_char_def unescape_def)
  next
    case 3
    then show thesis by (intro two [of "CHR ''n''"]) (simp_all add: json_char_def unescape_def)
  next
    case 4
    then show thesis by (intro two [of "CHR ''r''"]) (simp_all add: json_char_def unescape_def)
  next
    case 5
    then show thesis by (intro two [of "CHR ''t''"]) (simp_all add: json_char_def unescape_def)
  next
    case 6
    then show thesis by (intro two [of "CHR ''f''"]) (simp_all add: json_char_def unescape_def)
  next
    case 7
    then show thesis by (intro two [of "CHR ''b''"]) (simp_all add: json_char_def unescape_def)
  next
    case 8
    then have j: "json_char c = (let n = (of_char c :: nat)
           in if n < 32 \<or> 126 < n then [CHR 0x5C, CHR ''u'', CHR ''0'', CHR ''0'', json_hex_digit (n div 16), json_hex_digit (n mod 16)] else [c])"
      by (simp add: json_char_def)
    with 8 six plain show thesis by (cases "of_char c < (32 :: nat) \<or> 126 < (of_char c :: nat)") (simp_all add: Let_def)
  qed
qed

lemma json_char_read: "read_char (json_char c @ x) = Some (c, x)"
proof (cases c rule: json_char_cases)
  case six
  have "(of_char c :: nat) div 16 < 16" using nat_of_char_less_256 [of c] by (simp add: less_mult_imp_div_less)
  then have "hex_value (json_hex_digit (of_char c div 16)) * 16 + hex_value (json_hex_digit (of_char c mod 16)) = of_char c"
    by (simp add: json_hex_digit_value)
  then show ?thesis by (simp add: six)
qed simp_all

lemma json_char_head: "json_char c \<noteq> []" "hd (json_char c) \<noteq> CHR 0x22"
  by (cases c rule: json_char_cases; simp)+

lemma json_body_inj:
  "concat (map json_char s) @ CHR 0x22 # x = concat (map json_char t) @ CHR 0x22 # y \<Longrightarrow> s = t \<and> x = y"
proof (induction s arbitrary: t)
  case Nil
  then show ?case
  proof (cases t)
    case (Cons d t')
    with Nil json_char_head [of d] show ?thesis by (cases "json_char d") auto
  qed simp
next
  case (Cons c s)
  show ?case
  proof (cases t)
    case Nil
    with Cons.prems json_char_head [of c] show ?thesis by (cases "json_char c") auto
  next
    case t: (Cons d t')
    have "json_char c @ (concat (map json_char s) @ CHR 0x22 # x) = json_char d @ (concat (map json_char t') @ CHR 0x22 # y)"
      using Cons.prems by (simp add: t)
    then have "Some (c, concat (map json_char s) @ CHR 0x22 # x) = Some (d, concat (map json_char t') @ CHR 0x22 # y)"
      by (metis json_char_read)
    with Cons.IH [of t'] t show ?thesis by simp
  qed
qed

lemma json_string_inj: "json_string s @ x = json_string t @ y \<longleftrightarrow> s = t \<and> x = y"
  using json_body_inj [of s x t y] by (auto simp: json_string_def)

lemma json_string_inj' [simp]: "json_string s = json_string t \<longleftrightarrow> s = t"
  using json_string_inj [of s "[]" t "[]"] by simp

lemma json_string_head: "json_string s @ x \<noteq> CHR ''}'' # y" "json_string s \<noteq> []"
  by (simp_all add: json_string_def)

lemma json_members_inj:
  "json_members ms @ ''}'' @ x = json_members ns @ ''}'' @ y \<Longrightarrow> ms = ns \<and> x = y"
proof (induction ms arbitrary: ns rule: json_members.induct)
  case 1
  then show ?case
    by (cases ns rule: json_members.cases) (auto simp: json_string_head(1) [symmetric] json_string_def)
next
  case (2 k v)
  then show ?case
    by (cases ns rule: json_members.cases) (auto simp: json_string_inj, auto simp: json_string_def)
next
  case (3 k v m ms)
  show ?case
  proof (cases ns rule: json_members.cases)
    case (3 k' v' m' ms')
    with "3.prems" "3.IH" [of "m' # ms'"] show ?thesis by (auto simp: json_string_inj)
  qed (use "3.prems" in \<open>auto simp: json_string_inj, auto simp: json_string_def\<close>)
qed

section \<open>Properties\<close>

text \<open>The text hashed for the artefacts depends only on the map from names to digests.\<close>

lemma sort_key_map_of:
  assumes "distinct (map fst xs)" "distinct (map fst ys)"
  shows "sort_key fst xs = sort_key fst ys \<longleftrightarrow> map_of xs = map_of (ys :: (string \<times> string) list)"
proof
  assume e: "sort_key fst xs = sort_key fst ys"
  have "map_of zs = map_of (sort_key fst zs)" if "distinct (map fst zs)" for zs :: "(string \<times> string) list"
  proof -
    have "distinct (map fst (sort_key fst zs))" using that by (simp add: distinct_map)
    then show ?thesis using that by (metis map_of_inject_set set_sort)
  qed
  with assms e show "map_of xs = map_of ys" by metis
next
  assume "map_of xs = map_of ys"
  then have s: "set xs = set ys" using assms by (simp add: map_of_inject_set)
  show "sort_key fst xs = sort_key fst ys"
  proof (rule map_sorted_distinct_set_unique [where f = fst])
    show "inj_on fst (set (sort_key fst xs) \<union> set (sort_key fst ys))"
      using assms(1) s by (simp add: distinct_map)
  qed (use assms s in \<open>simp_all add: distinct_map\<close>)
qed

lemma spec_payload_inj:
  assumes "distinct (map fst as)" "distinct (map fst bs)"
  shows "spec_payload y m bt bl as = spec_payload y' m' bt' bl' bs \<longleftrightarrow>
    y = y' \<and> m = m' \<and> bt = bt' \<and> bl = bl' \<and> map_of as = map_of bs"
proof
  assume "spec_payload y m bt bl as = spec_payload y' m' bt' bl' bs"
  then have "json_members (sort_key fst as) @ ''}'' @ (CHR '','' # json_members [(''blive_version'', bl), (''btest_version'', bt), (''strategy_module'', m), (''yaml_sha256'', y)] @ ''}'') =
     json_members (sort_key fst bs) @ ''}'' @ (CHR '','' # json_members [(''blive_version'', bl'), (''btest_version'', bt'), (''strategy_module'', m'), (''yaml_sha256'', y')] @ ''}'')"
    by (simp add: spec_payload_def)
  from json_members_inj [OF this] have e: "sort_key fst as = sort_key fst bs"
    "json_members [(''blive_version'', bl), (''btest_version'', bt), (''strategy_module'', m), (''yaml_sha256'', y)] @ ''}'' @ [] =
     json_members [(''blive_version'', bl'), (''btest_version'', bt'), (''strategy_module'', m'), (''yaml_sha256'', y')] @ ''}'' @ []"
    by simp_all
  from json_members_inj [OF e(2)] e(1) show "y = y' \<and> m = m' \<and> bt = bt' \<and> bl = bl' \<and> map_of as = map_of bs"
    using sort_key_map_of [OF assms] by auto
next
  assume "y = y' \<and> m = m' \<and> bt = bt' \<and> bl = bl' \<and> map_of as = map_of bs"
  then show "spec_payload y m bt bl as = spec_payload y' m' bt' bl' bs"
    using sort_key_map_of [OF assms] by (simp add: spec_payload_def)
qed

text \<open>C31: the spec id names the specification: if SHA-256 does not collide on the texts involved, two loads get the
  same id exactly when the YAML bytes, the strategy module, both package versions and the digests of the artefacts
  agree; the order in which the factors come does not matter.\<close>

theorem spec_id_identifies:
  assumes "inj_on sha256 {yaml, yaml', spec_payload (sha256 yaml) m bt bl as, spec_payload (sha256 yaml') m' bt' bl' bs}"
    and "distinct (map fst as)" "distinct (map fst bs)"
  shows "compute_spec_id sha256 yaml m bt bl as = compute_spec_id sha256 yaml' m' bt' bl' bs \<longleftrightarrow>
    yaml = yaml' \<and> m = m' \<and> bt = bt' \<and> bl = bl' \<and> map_of as = map_of bs"
proof -
  have "compute_spec_id sha256 yaml m bt bl as = compute_spec_id sha256 yaml' m' bt' bl' bs \<longleftrightarrow>
      spec_payload (sha256 yaml) m bt bl as = spec_payload (sha256 yaml') m' bt' bl' bs"
    unfolding compute_spec_id_def by (rule inj_on_eq_iff [OF assms(1)]) simp_all
  moreover have "sha256 yaml = sha256 yaml' \<longleftrightarrow> yaml = yaml'" by (rule inj_on_eq_iff [OF assms(1)]) simp_all
  ultimately show ?thesis using spec_payload_inj [OF assms(2,3)] by simp
qed

theorem spec_id_identifies_witness:
  "compute_spec_id rev ''y'' ''m'' ''1'' ''2'' [(''b'', ''x''), (''a'', ''z'')] =
     compute_spec_id rev ''y'' ''m'' ''1'' ''2'' [(''a'', ''z''), (''b'', ''x'')] \<and>
   compute_spec_id rev ''y'' ''m'' ''1'' ''2'' [(''a'', ''x'')] \<noteq> compute_spec_id rev ''y'' ''m'' ''1'' ''2'' [(''a'', ''z'')]"
proof
  have i: "inj_on rev (S :: string set)" for S by (simp add: inj_on_def)
  show "compute_spec_id rev ''y'' ''m'' ''1'' ''2'' [(''b'', ''x''), (''a'', ''z'')] =
     compute_spec_id rev ''y'' ''m'' ''1'' ''2'' [(''a'', ''z''), (''b'', ''x'')]"
    by (subst spec_id_identifies [OF i]) (simp_all add: fun_eq_iff)
  show "compute_spec_id rev ''y'' ''m'' ''1'' ''2'' [(''a'', ''x'')] \<noteq> compute_spec_id rev ''y'' ''m'' ''1'' ''2'' [(''a'', ''z'')]"
    by (subst spec_id_identifies [OF i]) (simp_all add: fun_eq_iff)
qed

text \<open>What the overrides do to the factors: the names keep their order, an overridden factor gets its new path and
  nothing else, and the others are untouched.\<close>

definition overridden :: "(string \<times> string) list \<Rightarrow> string \<times> 'a factor \<Rightarrow> string \<times> 'a factor" where
  "overridden overrides nf =
     (case map_of overrides (fst nf) of None \<Rightarrow> nf | Some p \<Rightarrow> (fst nf, (snd nf)\<lparr>fc_path := Some (Some p)\<rparr>))"

lemma overridden_Nil [simp]: "map (overridden []) xs = xs"
  by (induction xs) (simp_all add: overridden_def)

lemma override_loop_ok:
  assumes "override_loop exists overrides factors = Inr factors'" "distinct (map fst overrides)" "distinct (map fst factors)"
  shows "factors' = map (overridden overrides) factors"
  using assms
proof (induction exists overrides factors rule: override_loop.induct)
  case (2 exists name new_path rest factors)
  then obtain f where f: "exists new_path" "map_of factors name = Some f" "fc_path f \<noteq> None"
    by (auto split: if_splits option.splits)
  let ?fs = "set_factor name (f\<lparr>fc_path := Some (Some new_path)\<rparr>) factors"
  have "map fst ?fs = map fst factors" by (simp add: set_factor_def case_prod_beta comp_def)
  with "2.IH" [of f] "2.prems" f have IH: "factors' = map (overridden rest) ?fs" by simp
  have n: "map_of rest name = None" using "2.prems"(2) by (simp add: map_of_eq_None_iff)
  have "overridden rest (k, if k = name then f\<lparr>fc_path := Some (Some new_path)\<rparr> else g) = overridden ((name, new_path) # rest) (k, g)"
    if "(k, g) \<in> set factors" for k g
  proof (cases "k = name")
    case True
    with f(2) that "2.prems"(3) have "g = f" by (metis map_of_is_SomeI option.inject)
    with True n show ?thesis by (simp add: overridden_def)
  qed (simp add: overridden_def)
  then show ?case by (auto simp: IH set_factor_def)
qed simp

lemma overrides_spec:
  assumes "apply_artefact_overrides exists strategy overrides = Inr strategy'"
    "distinct (map fst overrides)" "distinct (map fst (bs_factors strategy))"
  shows "bs_factors strategy' = map (overridden overrides) (bs_factors strategy)"
  using assms override_loop_ok [of exists overrides "bs_factors strategy"]
  by (auto simp: apply_artefact_overrides_def overridden_def split: if_splits)

end
