(* ===== verification/RateLimiter.thy ===== *)
theory RateLimiter
  imports Clocks
begin

text \<open>
  \<open>src/blive/adapters/shared/rate_limiter.py\<close> and the defaults of
  \<open>adapters/ib/rate_limiter.py\<close>.  The limiter's state is the token count and the last refill
  time of every bucket; \<open>acquire\<close> is one guard sequence followed by a loop of attempts, each of
  which reads the clock, refills and either takes the tokens or computes how long to sleep.  Between
  two attempts other tasks may run attempts of their own, so the safety lemmas are about attempts
  in any order; the loop itself is modelled with fuel, and two rounds are enough when nobody
  interferes.
\<close>

section \<open>Configuration\<close>

record RateLimitBucket =
  bk_capacity :: int
  bk_rate :: decimal

definition RateLimitBucket_checks :: "RateLimitBucket \<Rightarrow> (bool \<times> exn) list" where
  "RateLimitBucket_checks b =
     [(bk_capacity b \<le> 0, ValueError ''RateLimitBucket.capacity must be > 0''),
      (bk_rate b \<le> dzero, ValueError ''RateLimitBucket.refill_per_second must be > 0'')]"

definition mk_RateLimitBucket :: "RateLimitBucket \<Rightarrow> RateLimitBucket res" where
  "mk_RateLimitBucket = validated RateLimitBucket_checks"

type_synonym buckets = "(string \<times> RateLimitBucket) list"

definition RateLimitConfig_checks :: "buckets \<Rightarrow> (bool \<times> exn) list" where
  "RateLimitConfig_checks bs =
     [(bs = [], ValueError ''RateLimitConfig.buckets must declare at least one bucket''),
      (list_ex (\<lambda>(name, _). name = []) bs, ValueError ''RateLimitConfig bucket names must be non-empty'')]"

definition mk_RateLimitConfig :: "buckets \<Rightarrow> buckets res" where
  "mk_RateLimitConfig = validated RateLimitConfig_checks"

text \<open>The IB adapter's table: 20 tokens at 20/s, and 50 tokens at 50/600 per second.\<close>

definition IB_DEFAULT_RATE_LIMITS :: "buckets res" where
  "IB_DEFAULT_RATE_LIMITS =
     bindR (ddiv (dint 50) (dint 600)) (\<lambda>historical_refill.
     bindR (mk_RateLimitBucket \<lparr>bk_capacity = 20, bk_rate = dint 20\<rparr>) (\<lambda>g.
     bindR (mk_RateLimitBucket \<lparr>bk_capacity = 50, bk_rate = historical_refill\<rparr>) (\<lambda>h.
     mk_RateLimitConfig [(''global'', g), (''historical'', h)])))"

section \<open>The limiter\<close>

record RateLimiter =
  lim_config :: buckets
  lim_available :: "string \<rightharpoonup> decimal"
  lim_last :: "string \<rightharpoonup> datetime"

definition limiter_init :: "buckets \<Rightarrow> datetime \<Rightarrow> RateLimiter" where
  "limiter_init config now =
     \<lparr>lim_config = config,
      lim_available = (\<lambda>name. map_option (\<lambda>b. dint (bk_capacity b)) (map_of config name)),
      lim_last = (\<lambda>name. map_option (\<lambda>_. now) (map_of config name))\<rparr>"

text \<open>\<open>Decimal(str(elapsed))\<close> for an elapsed time of \<open>us\<close> microseconds.\<close>

definition elapsed_decimal :: "int \<Rightarrow> decimal" where
  "elapsed_decimal us = Dec us (-6)"

definition refilled :: "RateLimitBucket \<Rightarrow> decimal \<Rightarrow> int \<Rightarrow> decimal" where
  "refilled cfg available elapsed_us =
     (let added = dmul (bk_rate cfg) (elapsed_decimal elapsed_us);
          total = dadd available added
      in if total < dint (bk_capacity cfg) then total else dint (bk_capacity cfg))"

definition refill :: "RateLimiter \<Rightarrow> string \<Rightarrow> datetime \<Rightarrow> RateLimiter res" where
  "refill rl bucket now =
     (case (map_of (lim_config rl) bucket, lim_last rl bucket, lim_available rl bucket) of
        (Some cfg, Some last_us, Some available) \<Rightarrow>
          bindR (dt_sub now last_us) (\<lambda>elapsed.
            if elapsed \<le> 0 then Inr rl
            else Inr (rl\<lparr>lim_available := (lim_available rl)(bucket \<mapsto> refilled cfg available elapsed),
                          lim_last := (lim_last rl)(bucket \<mapsto> now)\<rparr>))
      | _ \<Rightarrow> Inl (KeyError bucket))"

text \<open>The waiting time \<open>float(deficit / rate) + 1e-6\<close>.  One pass of the loop: the tokens are taken (None), or how many seconds to sleep.\<close>

definition wait_seconds :: "decimal \<Rightarrow> rat" where
  "wait_seconds w = fl (fl (dval w) + fl (1 / 1000000))"

definition acquire_attempt :: "RateLimiter \<Rightarrow> string \<Rightarrow> int \<Rightarrow> datetime \<Rightarrow> (RateLimiter \<times> rat option) res" where
  "acquire_attempt rl bucket tokens now =
     bindR (refill rl bucket now) (\<lambda>rl'.
     case (map_of (lim_config rl') bucket, lim_available rl' bucket) of
       (Some cfg, Some available) \<Rightarrow>
         if dint tokens \<le> available
         then Inr (rl'\<lparr>lim_available := (lim_available rl')(bucket \<mapsto> dsub available (dint tokens))\<rparr>, None)
         else bindR (ddiv (dsub (dint tokens) available) (bk_rate cfg)) (\<lambda>wait.
                Inr (rl', Some (wait_seconds wait)))
     | _ \<Rightarrow> Inl (KeyError bucket))"

definition acquire_guard :: "RateLimiter \<Rightarrow> string \<Rightarrow> int \<Rightarrow> unit res" where
  "acquire_guard rl bucket tokens =
     (case map_of (lim_config rl) bucket of
        None \<Rightarrow> Inl (UnknownBucket bucket)
      | Some cfg \<Rightarrow>
          checks [(tokens \<le> 0, ValueError ''acquire(tokens) must be > 0''),
                  (bk_capacity cfg < tokens, ValueError ''exceeds bucket capacity'')])"

fun acquire_loop :: "('c \<Rightarrow> datetime) \<Rightarrow> ('c \<Rightarrow> rat \<Rightarrow> 'c res) \<Rightarrow> nat \<Rightarrow> RateLimiter \<Rightarrow> 'c \<Rightarrow> string \<Rightarrow> int
    \<Rightarrow> (RateLimiter \<times> 'c) option res" where
  "acquire_loop now sleep 0 rl c bucket tokens = Inr None"
| "acquire_loop now sleep (Suc fuel) rl c bucket tokens =
     bindR (acquire_attempt rl bucket tokens (now c)) (\<lambda>(rl', wait).
     case wait of
       None \<Rightarrow> Inr (Some (rl', c))
     | Some w \<Rightarrow> bindR (sleep c w) (\<lambda>c'. acquire_loop now sleep fuel rl' c' bucket tokens))"

definition acquire :: "('c \<Rightarrow> datetime) \<Rightarrow> ('c \<Rightarrow> rat \<Rightarrow> 'c res) \<Rightarrow> nat \<Rightarrow> RateLimiter \<Rightarrow> 'c \<Rightarrow> string \<Rightarrow> int
    \<Rightarrow> (RateLimiter \<times> 'c) option res" where
  "acquire now sleep fuel rl c bucket tokens =
     bindR (acquire_guard rl bucket tokens) (\<lambda>_. acquire_loop now sleep fuel rl c bucket tokens)"

record BucketMetrics =
  bm_bucket :: string
  bm_available :: decimal
  bm_capacity :: int
  bm_rate :: decimal
  bm_last :: datetime

fun metrics_loop :: "RateLimiter \<Rightarrow> datetime \<Rightarrow> buckets \<Rightarrow> (RateLimiter \<times> BucketMetrics list) res" where
  "metrics_loop rl now [] = Inr (rl, [])"
| "metrics_loop rl now ((name, cfg) # rest) =
     bindR (refill rl name now) (\<lambda>rl'.
     case (lim_available rl' name, lim_last rl' name) of
       (Some a, Some t) \<Rightarrow>
         bindR (metrics_loop rl' now rest) (\<lambda>(rl'', ms).
           Inr (rl'', \<lparr>bm_bucket = name, bm_available = a, bm_capacity = bk_capacity cfg,
                        bm_rate = bk_rate cfg, bm_last = t\<rparr> # ms))
     | _ \<Rightarrow> Inl (KeyError name))"

definition metrics :: "RateLimiter \<Rightarrow> datetime \<Rightarrow> (RateLimiter \<times> BucketMetrics list) res" where
  "metrics rl now = metrics_loop rl now (lim_config rl)"

section \<open>The invariant\<close>

definition bucket_ok :: "RateLimitBucket \<Rightarrow> bool" where
  "bucket_ok b \<longleftrightarrow> 0 < bk_capacity b \<and> bk_capacity b < 10 ^ 28 \<and> 0 < dval (bk_rate b)"

definition level_ok :: "RateLimitBucket \<Rightarrow> decimal \<Rightarrow> bool" where
  "level_ok cfg a \<longleftrightarrow> 0 \<le> dval a \<and> dval a \<le> of_int (bk_capacity cfg) \<and> repr28 (dval a)"

definition limiter_ok :: "RateLimiter \<Rightarrow> bool" where
  "limiter_ok rl \<longleftrightarrow> (\<forall>name cfg. map_of (lim_config rl) name = Some cfg \<longrightarrow> bucket_ok cfg \<and>
     (\<exists>a t. lim_available rl name = Some a \<and> level_ok cfg a \<and> lim_last rl name = Some t \<and> utc_off t \<noteq> None))"

lemma limiter_okD:
  assumes "limiter_ok rl" "map_of (lim_config rl) name = Some cfg"
  obtains a t where "bucket_ok cfg" "lim_available rl name = Some a" "level_ok cfg a"
    "lim_last rl name = Some t" "utc_off t \<noteq> None"
  using assms unfolding limiter_ok_def by blast

lemma limiter_init_ok:
  "utc_off now \<noteq> None \<Longrightarrow> list_all (\<lambda>(n, b). bucket_ok b) config \<Longrightarrow> limiter_ok (limiter_init config now)"
  using repr28_of_int
  by (auto simp: limiter_ok_def limiter_init_def level_ok_def bucket_ok_def list_all_iff dest!: map_of_SomeD)

lemma refilled_ok:
  assumes b: "bucket_ok cfg" and a: "level_ok cfg a" and e: "0 \<le> us"
  shows "level_ok cfg (refilled cfg a us)" "dval a \<le> dval (refilled cfg a us)"
proof -
  let ?add = "dmul (bk_rate cfg) (elapsed_decimal us)" and ?tot = "dadd a (dmul (bk_rate cfg) (elapsed_decimal us))"
  have cap: "repr28 (of_int (bk_capacity cfg))" using b by (intro repr28_of_int) (simp add: bucket_ok_def)
  have "0 \<le> dval (bk_rate cfg) * dval (elapsed_decimal us)" using b e by (simp add: bucket_ok_def elapsed_decimal_def)
  then have add0: "0 \<le> dval ?add" using rounded_lower [OF dmul_rounded repr28_0] by simp
  have le: "dval a \<le> dval ?tot" using a add0 by (intro rounded_lower [OF dadd_rounded]) (simp_all add: level_ok_def)
  show "level_ok cfg (refilled cfg a us)" "dval a \<le> dval (refilled cfg a us)"
    using a b le cap by (auto simp: refilled_def Let_def level_ok_def decimal_simps)
qed

lemma refill_cases:
  assumes ok: "limiter_ok rl" and cfg: "map_of (lim_config rl) bucket = Some cfg" and now: "utc_off now \<noteq> None"
    and a: "lim_available rl bucket = Some a" and t: "lim_last rl bucket = Some t"
  shows "refill rl bucket now = Inr (if dt_instant now - dt_instant t \<le> 0 then rl
     else rl\<lparr>lim_available := (lim_available rl)(bucket \<mapsto> refilled cfg a (dt_instant now - dt_instant t)),
              lim_last := (lim_last rl)(bucket \<mapsto> now)\<rparr>)"
proof -
  have "utc_off t \<noteq> None" using limiter_okD [OF ok cfg] t by (metis option.inject)
  with now have "dt_sub now t = Inr (dt_instant now - dt_instant t)" by (simp add: dt_sub_def same_awareness_def)
  with cfg a t show ?thesis by (simp add: refill_def)
qed

lemma refill_ok:
  assumes ok: "limiter_ok rl" and cfg: "map_of (lim_config rl) bucket = Some cfg" and now: "utc_off now \<noteq> None"
  obtains rl' where "refill rl bucket now = Inr rl'" "limiter_ok rl'" "lim_config rl' = lim_config rl"
proof -
  obtain a t where h: "bucket_ok cfg" "lim_available rl bucket = Some a" "level_ok cfg a" "lim_last rl bucket = Some t"
    by (rule limiter_okD [OF ok cfg])
  note rc = refill_cases [OF ok cfg now h(2,4)]
  have "level_ok cfg (refilled cfg a (dt_instant now - dt_instant t))" if "0 < dt_instant now - dt_instant t"
    using refilled_ok(1) [OF h(1,3)] that by simp
  with ok cfg now show ?thesis
    by (intro that [OF rc]) (auto simp: limiter_ok_def)
qed

text \<open>Every attempt, of whichever task, keeps every bucket between zero and its capacity.\<close>

lemma acquire_attempt_ok:
  assumes ok: "limiter_ok rl" and cfg: "map_of (lim_config rl) bucket = Some cfg" and now: "utc_off now \<noteq> None"
    and tok: "0 < tokens" "tokens \<le> bk_capacity cfg"
  obtains rl' w where "acquire_attempt rl bucket tokens now = Inr (rl', w)" "limiter_ok rl'"
    "lim_config rl' = lim_config rl"
proof -
  obtain l where l: "refill rl bucket now = Inr l" "limiter_ok l" "lim_config l = lim_config rl"
    by (rule refill_ok [OF ok cfg now])
  then obtain a t where h: "bucket_ok cfg" "lim_available l bucket = Some a" "level_ok cfg a" "lim_last l bucket = Some t"
    using limiter_okD cfg by metis
  show ?thesis
  proof (cases "dint tokens \<le> a")
    case True
    let ?r = "dsub a (dint tokens)"
    have "of_int tokens \<le> dval a" using True by (simp add: decimal_simps)
    then have "0 \<le> dval ?r" by (intro rounded_lower [OF dsub_rounded]) simp_all
    moreover have "dval ?r \<le> dval a" using tok h(3) by (intro rounded_upper [OF dsub_rounded]) (simp_all add: level_ok_def)
    ultimately have "level_ok cfg ?r" using h(3) by (simp add: level_ok_def)
    then have "limiter_ok (l\<lparr>lim_available := (lim_available l)(bucket \<mapsto> ?r)\<rparr>)"
      using l(2,3) cfg by (auto simp: limiter_ok_def)
    moreover have "acquire_attempt rl bucket tokens now = Inr (l\<lparr>lim_available := (lim_available l)(bucket \<mapsto> ?r)\<rparr>, None)"
      using l cfg h True by (simp add: acquire_attempt_def)
    ultimately show ?thesis using l(3) that by simp
  next
    case False
    obtain q where "ddiv (dsub (dint tokens) a) (bk_rate cfg) = Inr q"
      using ddiv_pos [of "bk_rate cfg"] h(1) by (auto simp: bucket_ok_def)
    with l cfg h False show ?thesis using that by (simp add: acquire_attempt_def)
  qed
qed

section \<open>The rate\<close>

text \<open>The relative error of one decimal operation.\<close>

definition ulp :: rat where
  "ulp = 1 / (2 * 10 ^ 27)"

lemma ulp_bounds: "0 \<le> ulp" "0 < ulp" "ulp \<le> 1"
  by (simp_all add: ulp_def)

lemma rounded_up: "rounded x r \<Longrightarrow> 0 \<le> x \<Longrightarrow> r \<le> (1 + ulp) * x"
  using rounded_error [of x r] by (simp add: ulp_def field_simps abs_if split: if_splits)

lemma rounded_down: "rounded x r \<Longrightarrow> 0 \<le> x \<Longrightarrow> (1 - ulp) * x \<le> r"
  using rounded_error [of x r] by (simp add: ulp_def field_simps abs_if split: if_splits)

lemma dval_elapsed: "dval (elapsed_decimal us) = of_int us / 10 ^ 6"
  by (simp add: elapsed_decimal_def power_int_def power_divide)

lemma refilled_upper:
  assumes b: "bucket_ok cfg" and a: "level_ok cfg a" and e: "0 \<le> us"
  shows "dval (refilled cfg a us)
    \<le> dval a + ulp * of_int (bk_capacity cfg) + (1 + ulp)\<^sup>2 * dval (bk_rate cfg) * (of_int us / 10 ^ 6)"
proof -
  let ?add = "dmul (bk_rate cfg) (elapsed_decimal us)" and ?x = "dval (bk_rate cfg) * (of_int us / 10 ^ 6)"
  let ?c = "of_int (bk_capacity cfg) :: rat"
  have x: "0 \<le> ?x" using b e by (simp add: bucket_ok_def)
  have add: "dval ?add \<le> (1 + ulp) * ?x" "0 \<le> dval ?add"
    using rounded_up [OF dmul_rounded, of "bk_rate cfg" "elapsed_decimal us"]
      rounded_lower [OF dmul_rounded repr28_0, of "bk_rate cfg" "elapsed_decimal us"] x
    by (simp_all add: dval_elapsed)
  have a0: "0 \<le> dval a" "dval a \<le> ?c" using a by (simp_all add: level_ok_def)
  have "dval (dadd a ?add) \<le> (1 + ulp) * (dval a + dval ?add)"
    using rounded_up [OF dadd_rounded] a0 add by simp
  also have "\<dots> \<le> (1 + ulp) * (dval a + (1 + ulp) * ?x)"
    using add ulp_bounds by (intro mult_left_mono add_left_mono) simp_all
  also have "\<dots> = dval a + ulp * dval a + (1 + ulp)\<^sup>2 * ?x"
    by (simp add: algebra_simps power2_eq_square)
  also have "\<dots> \<le> dval a + ulp * ?c + (1 + ulp)\<^sup>2 * ?x"
    using a0 ulp_bounds by (intro add_right_mono add_left_mono mult_left_mono) simp_all
  finally show ?thesis by (auto simp: refilled_def Let_def decimal_simps mult_ac)
qed

lemma refill_step:
  assumes ok: "limiter_ok rl" and cfg: "map_of (lim_config rl) bucket = Some cfg" and now: "utc_off now \<noteq> None"
    and a: "lim_available rl bucket = Some a" and t: "lim_last rl bucket = Some t"
  obtains rl' a' t' where "refill rl bucket now = Inr rl'" "limiter_ok rl'" "lim_config rl' = lim_config rl"
    "lim_available rl' = (lim_available rl)(bucket \<mapsto> a')" "lim_last rl' = (lim_last rl)(bucket \<mapsto> t')"
    "dt_instant t' = max (dt_instant t) (dt_instant now)"
    "dval a' \<le> dval a + ulp * of_int (bk_capacity cfg)
      + (1 + ulp)\<^sup>2 * dval (bk_rate cfg) * (of_int (dt_instant t' - dt_instant t) / 10 ^ 6)"
proof -
  have h: "bucket_ok cfg" "level_ok cfg a" using limiter_okD [OF ok cfg] a by (metis option.inject)+
  obtain rl' where r: "refill rl bucket now = Inr rl'" "limiter_ok rl'" "lim_config rl' = lim_config rl"
    by (rule refill_ok [OF ok cfg now])
  have c0: "0 \<le> ulp * of_int (bk_capacity cfg)" using h(1) ulp_bounds by (simp add: bucket_ok_def)
  show thesis
  proof (cases "dt_instant now - dt_instant t \<le> 0")
    case True
    with r refill_cases [OF ok cfg now a t] have "rl' = rl" by simp
    with r a t True c0 show thesis by (intro that [OF r, of a t]) (auto simp: fun_upd_idem)
  next
    case False
    with r refill_cases [OF ok cfg now a t]
    have "rl' = rl\<lparr>lim_available := (lim_available rl)(bucket \<mapsto> refilled cfg a (dt_instant now - dt_instant t)),
              lim_last := (lim_last rl)(bucket \<mapsto> now)\<rparr>" by simp
    with False refilled_upper [OF h, of "dt_instant now - dt_instant t"] show thesis
      by (intro that [OF r, of "refilled cfg a (dt_instant now - dt_instant t)" now]) auto
  qed
qed

definition granted :: "string \<Rightarrow> (string \<times> int) list \<Rightarrow> int" where
  "granted bucket gs = (\<Sum>(b, n)\<leftarrow>gs. if b = bucket then n else 0)"

text \<open>One attempt moves a bucket's level by the tokens it grants and the time it refills.\<close>

lemma acquire_attempt_step:
  assumes ok: "limiter_ok rl" and cfg: "map_of (lim_config rl) bucket = Some cfg" and now: "utc_off now \<noteq> None"
    and tok: "0 < tokens" "tokens \<le> bk_capacity cfg"
    and a: "lim_available rl bucket = Some a" and t: "lim_last rl bucket = Some t"
  obtains rl' w a' t' where "acquire_attempt rl bucket tokens now = Inr (rl', w)" "limiter_ok rl'"
    "lim_config rl' = lim_config rl"
    "lim_available rl' = (lim_available rl)(bucket \<mapsto> a')" "lim_last rl' = (lim_last rl)(bucket \<mapsto> t')"
    "dt_instant t' = max (dt_instant t) (dt_instant now)"
    "dval a' + of_int (if w = None then tokens else 0) \<le> dval a + 2 * ulp * of_int (bk_capacity cfg)
      + (1 + ulp)\<^sup>2 * dval (bk_rate cfg) * (of_int (dt_instant t' - dt_instant t) / 10 ^ 6)"
proof -
  obtain rl' w where acq: "acquire_attempt rl bucket tokens now = Inr (rl', w)" "limiter_ok rl'"
      "lim_config rl' = lim_config rl"
    by (rule acquire_attempt_ok [OF ok cfg now tok])
  obtain l a' t' where l: "refill rl bucket now = Inr l" "limiter_ok l" "lim_config l = lim_config rl"
      "lim_available l = (lim_available rl)(bucket \<mapsto> a')" "lim_last l = (lim_last rl)(bucket \<mapsto> t')"
      "dt_instant t' = max (dt_instant t) (dt_instant now)"
      "dval a' \<le> dval a + ulp * of_int (bk_capacity cfg)
        + (1 + ulp)\<^sup>2 * dval (bk_rate cfg) * (of_int (dt_instant t' - dt_instant t) / 10 ^ 6)"
    by (rule refill_step [OF ok cfg now a t])
  have cfg': "map_of (lim_config l) bucket = Some cfg" using cfg l(3) by simp
  have lev: "bucket_ok cfg" "level_ok cfg a'" using limiter_okD [OF l(2) cfg'] l(4) by (metis fun_upd_same option.inject)+
  have c0: "0 \<le> ulp * of_int (bk_capacity cfg)" using lev ulp_bounds by (simp add: bucket_ok_def)
  show thesis
  proof (cases "dint tokens \<le> a'")
    case True
    let ?r = "dsub a' (dint tokens)"
    have le: "of_int tokens \<le> dval a'" using True by (simp add: decimal_simps)
    have r: "rl' = l\<lparr>lim_available := (lim_available l)(bucket \<mapsto> ?r)\<rparr>" "w = None"
      using acq(1) l cfg True by (auto simp: acquire_attempt_def)
    have "dval ?r \<le> (1 + ulp) * (dval a' - of_int tokens)" using rounded_up [OF dsub_rounded, of a' "dint tokens"] le by simp
    also have "\<dots> \<le> dval a' - of_int tokens + ulp * of_int (bk_capacity cfg)"
    proof -
      have "ulp * (dval a' - of_int tokens) \<le> ulp * of_int (bk_capacity cfg)"
        using ulp_bounds lev tok by (intro mult_left_mono) (simp_all add: level_ok_def)
      then show ?thesis by (simp add: algebra_simps)
    qed
    finally show thesis using r l(3-) by (intro that [OF acq, of ?r t']) auto
  next
    case False
    then have "rl' = l" "w \<noteq> None" using acq(1) l cfg by (auto simp: acquire_attempt_def)
    with l(3-) c0 show thesis by (intro that [OF acq, of a' t']) auto
  qed
qed

text \<open>Attempts of any number of tasks on any buckets, in the order the event loop runs them.\<close>

fun attempts :: "RateLimiter \<Rightarrow> (string \<times> int \<times> datetime) list \<Rightarrow> (RateLimiter \<times> (string \<times> int) list) res" where
  "attempts rl [] = Inr (rl, [])"
| "attempts rl ((bucket, tokens, now) # as) =
     bindR (acquire_attempt rl bucket tokens now) (\<lambda>(rl', w).
     bindR (attempts rl' as) (\<lambda>(rl'', gs). Inr (rl'', if w = None then (bucket, tokens) # gs else gs)))"

definition attempt_ok :: "RateLimiter \<Rightarrow> string \<times> int \<times> datetime \<Rightarrow> bool" where
  "attempt_ok rl = (\<lambda>(bucket, tokens, now). is_ok (acquire_guard rl bucket tokens) \<and> utc_off now \<noteq> None)"

lemma acquire_guard_ok_iff:
  "is_ok (acquire_guard rl bucket tokens) \<longleftrightarrow>
     (\<exists>cfg. map_of (lim_config rl) bucket = Some cfg \<and> 0 < tokens \<and> tokens \<le> bk_capacity cfg)"
  by (auto simp: acquire_guard_def is_ok_def split: option.splits)

lemma attempt_ok_cong: "lim_config rl' = lim_config rl \<Longrightarrow> attempt_ok rl' = attempt_ok rl"
  by (simp add: attempt_ok_def acquire_guard_def)

lemma attempts_bound:
  assumes "limiter_ok rl" "map_of (lim_config rl) bucket = Some cfg" "lim_available rl bucket = Some a"
    "lim_last rl bucket = Some t" "list_all (attempt_ok rl) as"
    "\<forall>(_, _, now) \<in> set as. dt_instant now \<le> T" "dt_instant t \<le> T"
  shows "\<exists>rl' gs a'. attempts rl as = Inr (rl', gs) \<and> limiter_ok rl' \<and> lim_available rl' bucket = Some a' \<and>
    dval a' + of_int (granted bucket gs) \<le> dval a + 2 * of_nat (length as) * ulp * of_int (bk_capacity cfg)
      + (1 + ulp)\<^sup>2 * dval (bk_rate cfg) * (of_int (T - dt_instant t) / 10 ^ 6)"
  using assms
proof (induction as arbitrary: rl a t)
  case Nil
  then have "bucket_ok cfg" using limiter_okD by metis
  then have "0 \<le> (1 + ulp)\<^sup>2 * dval (bk_rate cfg) * (of_int (T - dt_instant t) / 10 ^ 6)"
    using Nil by (intro mult_nonneg_nonneg) (simp_all add: bucket_ok_def)
  with Nil show ?case by (simp add: granted_def)
next
  case (Cons x as)
  obtain b n now where x: "x = (b, n, now)" by (cases x)
  with Cons.prems obtain cb where cb: "map_of (lim_config rl) b = Some cb" "0 < n" "n \<le> bk_capacity cb" "utc_off now \<noteq> None"
    by (auto simp: attempt_ok_def acquire_guard_ok_iff)
  obtain ab tb where tb: "lim_available rl b = Some ab" "lim_last rl b = Some tb"
    using limiter_okD [OF Cons.prems(1) cb(1)] by metis
  obtain rl' w a' t' where st: "acquire_attempt rl b n now = Inr (rl', w)" "limiter_ok rl'"
    "lim_config rl' = lim_config rl"
    "lim_available rl' = (lim_available rl)(b \<mapsto> a')" "lim_last rl' = (lim_last rl)(b \<mapsto> t')"
    "dt_instant t' = max (dt_instant tb) (dt_instant now)"
    "dval a' + of_int (if w = None then n else 0) \<le> dval ab + 2 * ulp * of_int (bk_capacity cb)
      + (1 + ulp)\<^sup>2 * dval (bk_rate cb) * (of_int (dt_instant t' - dt_instant tb) / 10 ^ 6)"
    by (rule acquire_attempt_step [OF Cons.prems(1) cb(1,4,2,3) tb])
  have cb0: "bucket_ok cfg" using limiter_okD [OF Cons.prems(1,2)] by metis
  have c0: "0 \<le> 2 * ulp * of_int (bk_capacity cfg)" using cb0 ulp_bounds by (simp add: bucket_ok_def)
  have pre: "list_all (attempt_ok rl') as" "\<forall>(_, _, now) \<in> set as. dt_instant now \<le> T"
    using Cons.prems by (simp_all add: attempt_ok_cong [OF st(3)])
  have cfg': "map_of (lim_config rl') bucket = Some cfg" using Cons.prems(2) st(3) by simp
  show ?case
  proof (cases "b = bucket")
    case True
    have "dt_instant t' \<le> T" using Cons.prems(4,6,7) tb True st(6) x by auto
    then obtain rl'' gs a'' where IH: "attempts rl' as = Inr (rl'', gs)" "limiter_ok rl''" "lim_available rl'' bucket = Some a''"
      "dval a'' + of_int (granted bucket gs) \<le> dval a' + 2 * of_nat (length as) * ulp * of_int (bk_capacity cfg)
        + (1 + ulp)\<^sup>2 * dval (bk_rate cfg) * (of_int (T - dt_instant t') / 10 ^ 6)"
      using Cons.IH [OF st(2) cfg' _ _ pre, of a' t'] st(4,5) True by auto
    have e: "ab = a" "tb = t" "cb = cfg" using True tb cb Cons.prems by auto
    have "(1 + ulp)\<^sup>2 * dval (bk_rate cfg) * (of_int (T - dt_instant t) / 10 ^ 6)
       = (1 + ulp)\<^sup>2 * dval (bk_rate cfg) * (of_int (dt_instant t' - dt_instant t) / 10 ^ 6)
       + (1 + ulp)\<^sup>2 * dval (bk_rate cfg) * (of_int (T - dt_instant t') / 10 ^ 6)"
      by (simp add: field_simps)
    moreover have "2 * of_nat (length (x # as)) * ulp * of_int (bk_capacity cfg)
       = 2 * ulp * of_int (bk_capacity cfg) + 2 * of_nat (length as) * ulp * of_int (bk_capacity cfg)"
      by (simp add: algebra_simps)
    ultimately have "dval a'' + of_int (granted bucket gs) + of_int (if w = None then n else 0)
      \<le> dval a + 2 * of_nat (length (x # as)) * ulp * of_int (bk_capacity cfg)
        + (1 + ulp)\<^sup>2 * dval (bk_rate cfg) * (of_int (T - dt_instant t) / 10 ^ 6)"
      using IH(4) st(7) unfolding e by linarith
    with IH st(1) True x show ?thesis by (cases w) (simp_all add: granted_def add_ac)
  next
    case False
    then obtain rl'' gs a'' where IH: "attempts rl' as = Inr (rl'', gs)" "limiter_ok rl''" "lim_available rl'' bucket = Some a''"
      "dval a'' + of_int (granted bucket gs) \<le> dval a + 2 * of_nat (length as) * ulp * of_int (bk_capacity cfg)
        + (1 + ulp)\<^sup>2 * dval (bk_rate cfg) * (of_int (T - dt_instant t) / 10 ^ 6)"
      using Cons.IH [OF st(2) cfg' _ _ pre, of a t] st(4,5) Cons.prems by auto
    moreover have "2 * of_nat (length (x # as)) * ulp * of_int (bk_capacity cfg)
       = 2 * ulp * of_int (bk_capacity cfg) + 2 * of_nat (length as) * ulp * of_int (bk_capacity cfg)"
      by (simp add: algebra_simps)
    ultimately have "dval a'' + of_int (granted bucket gs)
      \<le> dval a + 2 * of_nat (length (x # as)) * ulp * of_int (bk_capacity cfg)
        + (1 + ulp)\<^sup>2 * dval (bk_rate cfg) * (of_int (T - dt_instant t) / 10 ^ 6)"
      using c0 by linarith
    with IH st(1) False x show ?thesis by (cases "w = None") (simp_all add: granted_def)
  qed
qed


section \<open>Waiting\<close>

text \<open>
  The waiting time covers the deficit in spite of the rounding of the division, of the
  conversion to a double and of the clock: the cushion of one microsecond is enough as long as a
  request can be served within \<open>10 ^ 9\<close> seconds.
\<close>

lemma fl_down: "0 \<le> x \<Longrightarrow> (1 - 1 / 2 ^ 52) * x \<le> fl x"
  using fl_error [of x] by (simp add: field_simps abs_if split: if_splits)

lemma wait_bounds:
  fixes d r q :: rat
  assumes d: "0 < d" and r: "0 < r" and def: "rounded d d'" and w: "rounded (d' / r) (dval wait)"
  shows "0 \<le> wait_seconds wait"
    "(1 - 1 / 2 ^ 52) * ((1 - 1 / 2 ^ 52) * ((1 - ulp) * ((1 - ulp) * (d / r)) + 1 / 1000000)) \<le> wait_seconds wait"
proof -
  define x where "x = d / r"
  have x: "0 < x" using d r by (simp add: x_def)
  have u: "0 \<le> 1 - ulp" by (simp add: ulp_def)
  let ?v = "1 - 1 / 2 ^ 52 :: rat"
  have "(1 - ulp) * d \<le> d'" using rounded_down [OF def] d by simp
  then have "(1 - ulp) * d / r \<le> d' / r" using r by (simp add: divide_right_mono)
  then have d': "(1 - ulp) * x \<le> d' / r" by (simp add: x_def)
  then have d0: "0 \<le> d' / r" using mult_nonneg_nonneg [OF u, of x] x by linarith
  have "(1 - ulp) * ((1 - ulp) * x) \<le> (1 - ulp) * (d' / r)" using d' u by (rule mult_left_mono)
  also have "\<dots> \<le> dval wait" using rounded_down [OF w d0] .
  finally have w1: "(1 - ulp) * ((1 - ulp) * x) \<le> dval wait" .
  then have w0: "0 \<le> dval wait" using mult_nonneg_nonneg [OF u mult_nonneg_nonneg [OF u, of x]] x by linarith
  have "?v * dval wait \<le> fl (dval wait)" by (rule fl_down [OF w0])
  moreover have "?v * (1 / 1000000) \<le> fl (1 / 1000000)" by (rule fl_down) simp
  ultimately have s: "?v * (dval wait + 1 / 1000000) \<le> fl (dval wait) + fl (1 / 1000000)"
    by (simp add: distrib_left)
  have v: "0 \<le> ?v" by simp
  have s0: "0 \<le> ?v * (dval wait + 1 / 1000000)" using w0 v by (intro mult_nonneg_nonneg) simp_all
  have "?v * (?v * (dval wait + 1 / 1000000)) \<le> ?v * (fl (dval wait) + fl (1 / 1000000))"
    using s v by (rule mult_left_mono)
  also have "\<dots> \<le> wait_seconds wait" unfolding wait_seconds_def using s s0 by (intro fl_down) linarith
  finally have ws: "?v * (?v * (dval wait + 1 / 1000000)) \<le> wait_seconds wait" .
  have ws0: "0 \<le> wait_seconds wait" using ws mult_nonneg_nonneg [OF v s0] by linarith
  have "?v * (?v * ((1 - ulp) * ((1 - ulp) * x) + 1 / 1000000)) \<le> ?v * (?v * (dval wait + 1 / 1000000))"
    using w1 v by (intro mult_left_mono add_right_mono)
  with ws show "?v * (?v * ((1 - ulp) * ((1 - ulp) * (d / r)) + 1 / 1000000)) \<le> wait_seconds wait"
    by (simp add: x_def)
  show "0 \<le> wait_seconds wait" by (rule ws0)
qed

lemma wait_covers:
  fixes d r D :: rat
  assumes d: "0 < d" "d \<le> 10 ^ 9 * r" and r: "0 < r"
    and def: "rounded d d'" and w: "rounded (d' / r) (dval wait)"
    and D: "wait_seconds wait * 1000000 - 1 / 2 \<le> D"
    and add: "rounded (r * (D / 10 ^ 6)) add"
  shows "0 < D \<and> d \<le> add"
proof -
  define x where "x = d / r"
  have x: "0 < x" "x \<le> 10 ^ 9" using d r by (simp_all add: x_def field_simps)
  have u: "0 \<le> 1 - ulp" by (simp add: ulp_def)
  let ?v = "1 - 1 / 2 ^ 52 :: rat"
  have Dl: "?v * (?v * ((1 - ulp) * ((1 - ulp) * x) + 1 / 1000000)) * 1000000 - 1 / 2 \<le> D"
    using wait_bounds(2) [OF d(1) r def w] D unfolding x_def by linarith
  have num: "x * 10 ^ 6 \<le> (1 - ulp) * (?v * (?v * ((1 - ulp) * ((1 - ulp) * x) + 1 / 1000000)) * 1000000 - 1 / 2)"
    using x by (simp add: ulp_def algebra_simps)
  also have "\<dots> \<le> (1 - ulp) * D" using Dl u by (rule mult_left_mono)
  finally have xD: "x * 10 ^ 6 \<le> (1 - ulp) * D" .
  have D0: "0 < D"
  proof (rule ccontr)
    assume "\<not> 0 < D"
    then have "(1 - ulp) * D \<le> 0" using u by (simp add: mult_nonneg_nonpos)
    with xD x show False by simp
  qed
  have "d = r * (x * 10 ^ 6 / 10 ^ 6)" using r by (simp add: x_def)
  also have "\<dots> \<le> r * ((1 - ulp) * D / 10 ^ 6)" using xD r by (intro mult_left_mono divide_right_mono) simp_all
  also have "\<dots> = (1 - ulp) * (r * (D / 10 ^ 6))" by simp
  also have "\<dots> \<le> add" using rounded_down [OF add] D0 r by simp
  finally show ?thesis using D0 by simp
qed

lemma acquire_attempt_waits:
  assumes ok: "limiter_ok rl" and cfg: "map_of (lim_config rl) bucket = Some cfg" and now: "utc_off now \<noteq> None"
    and last: "lim_last rl bucket = Some t" "dt_instant t \<le> dt_instant now"
    and acq: "acquire_attempt rl bucket tokens now = Inr (rl', Some s)"
  obtains a t' q where "limiter_ok rl'" "lim_config rl' = lim_config rl" "lim_available rl' bucket = Some a"
    "lim_last rl' bucket = Some t'" "dt_instant t' = dt_instant now" "dval a < of_int tokens"
    "ddiv (dsub (dint tokens) a) (bk_rate cfg) = Inr q" "s = wait_seconds q"
proof -
  obtain a0 where a0: "lim_available rl bucket = Some a0" using limiter_okD [OF ok cfg] by metis
  obtain l a t' where l: "refill rl bucket now = Inr l" "limiter_ok l" "lim_config l = lim_config rl"
      "lim_available l = (lim_available rl)(bucket \<mapsto> a)" "lim_last l = (lim_last rl)(bucket \<mapsto> t')"
      "dt_instant t' = max (dt_instant t) (dt_instant now)"
    by (rule refill_step [OF ok cfg now a0 last(1)])
  have "\<not> dint tokens \<le> a" using acq l cfg by (auto simp: acquire_attempt_def)
  then obtain q where "ddiv (dsub (dint tokens) a) (bk_rate cfg) = Inr q" "rl' = l" "s = wait_seconds q" "dval a < of_int tokens"
    using acq l(1,3-5) cfg by (auto simp: acquire_attempt_def decimal_simps)
  with l(2-) last(2) show thesis by (intro that [of a t' q]) simp_all
qed

text \<open>When nobody interferes, a request is served after at most one sleep.\<close>

context clock_port
begin

lemma acquire_two_rounds:
  assumes ok: "limiter_ok rl" and cfg: "map_of (lim_config rl) bucket = Some cfg"
    and tok: "0 < tokens" "tokens \<le> bk_capacity cfg"
    and served: "of_int tokens \<le> 10 ^ 9 * dval (bk_rate cfg)"
    and c: "aware c" and last: "lim_last rl bucket = Some t" "dt_instant t \<le> dt_instant (now c)"
  shows "\<exists>rl' c'. acquire now sleep 2 rl c bucket tokens = Inr (Some (rl', c')) \<and> limiter_ok rl'"
proof -
  have two: "(2 :: nat) = Suc (Suc 0)" by simp
  have guard: "acquire_guard rl bucket tokens = Inr ()" using cfg tok by (simp add: acquire_guard_def)
  obtain rl1 w where a1: "acquire_attempt rl bucket tokens (now c) = Inr (rl1, w)" "limiter_ok rl1"
      "lim_config rl1 = lim_config rl"
    by (rule acquire_attempt_ok [OF ok cfg now_aware [OF c] tok])
  show ?thesis
  proof (cases w)
    case None
    with guard a1 show ?thesis by (simp add: acquire_def two)
  next
    case (Some s)
    obtain a t1 q where h: "lim_available rl1 bucket = Some a" "lim_last rl1 bucket = Some t1"
        "dt_instant t1 = dt_instant (now c)" "dval a < of_int tokens"
        "ddiv (dsub (dint tokens) a) (bk_rate cfg) = Inr q" "s = wait_seconds q"
      using acquire_attempt_waits [OF ok cfg now_aware [OF c] last a1(1) [unfolded Some]] by metis
    have cfg1: "map_of (lim_config rl1) bucket = Some cfg" using cfg a1(3) by simp
    have lev: "bucket_ok cfg" "level_ok cfg a" using limiter_okD [OF a1(2) cfg1] h(1) by (metis option.inject)+
    have d: "0 < of_int tokens - dval a" "of_int tokens - dval a \<le> 10 ^ 9 * dval (bk_rate cfg)"
      using h(4) served lev by (simp_all add: level_ok_def)
    have r: "0 < dval (bk_rate cfg)" using lev by (simp add: bucket_ok_def)
    have rd: "rounded (of_int tokens - dval a) (dval (dsub (dint tokens) a))" using dsub_rounded [of "dint tokens" a] by simp
    have rw: "rounded (dval (dsub (dint tokens) a) / dval (bk_rate cfg)) (dval q)" by (rule ddiv_Inr_rounded [OF h(5)])
    note cov = wait_covers [OF d r rd rw]
    have s0: "0 \<le> s" unfolding h(6) by (rule wait_bounds(1) [OF d(1) r rd rw])
    obtain c' where c': "sleep c s = Inr c'" "aware c'"
        "of_int (dt_instant (now c)) + s * 1000000 - 1 / 2 \<le> (of_int (dt_instant (now c')) :: rat)"
      using sleep_ok [OF c s0] by blast
    let ?us = "dt_instant (now c') - dt_instant t1"
    have D: "wait_seconds q * 1000000 - 1 / 2 \<le> of_int ?us" using c'(3) h(3,6) by simp
    have "rounded (dval (bk_rate cfg) * (of_int ?us / 10 ^ 6)) (dval (dmul (bk_rate cfg) (elapsed_decimal ?us)))"
      using dmul_rounded [of "bk_rate cfg" "elapsed_decimal ?us"] by (simp only: dval_elapsed)
    from cov [OF D this] have us: "0 < ?us" "of_int tokens \<le> dval a + dval (dmul (bk_rate cfg) (elapsed_decimal ?us))"
      by simp_all
    have rep: "repr28 (of_int tokens)" using tok lev by (intro repr28_of_int) (simp add: bucket_ok_def)
    have full: "of_int tokens \<le> dval (refilled cfg a ?us)"
      using rounded_lower [OF dadd_rounded rep us(2)] tok by (simp add: refilled_def Let_def)
    obtain rl2 w2 where a2: "acquire_attempt rl1 bucket tokens (now c') = Inr (rl2, w2)" "limiter_ok rl2"
      by (rule acquire_attempt_ok [OF a1(2) cfg1 now_aware [OF c'(2)] tok])
    have "w2 = None"
      using us(1) refill_cases [OF a1(2) cfg1 now_aware [OF c'(2)] h(1,2)] full a2(1) cfg1
      by (auto simp: acquire_attempt_def decimal_simps)
    with guard a1(1) Some c'(1) a2 show ?thesis by (simp add: acquire_def two)
  qed
qed

end
section \<open>Properties\<close>

definition ex_bucket :: RateLimitBucket where
  "ex_bucket = \<lparr>bk_capacity = 20, bk_rate = dint 20\<rparr>"

definition ex_limiter :: RateLimiter where
  "ex_limiter = limiter_init [(''global'', ex_bucket)] (utc 0)"

lemma ex_limiter_simps [simp]:
  "limiter_ok ex_limiter" "map_of (lim_config ex_limiter) ''global'' = Some ex_bucket"
  "lim_available ex_limiter ''global'' = Some (dint 20)" "lim_last ex_limiter ''global'' = Some (utc 0)"
  "bk_capacity ex_bucket = 20" "bk_rate ex_bucket = dint 20"
  unfolding ex_limiter_def by (rule limiter_init_ok) (simp_all add: limiter_init_def ex_bucket_def bucket_ok_def)

lemma refill_config: "refill rl bucket now = Inr rl' \<Longrightarrow> lim_config rl' = lim_config rl"
  by (auto simp: refill_def split: option.splits if_splits)

lemma acquire_attempt_config: "acquire_attempt rl bucket tokens now = Inr (rl', w) \<Longrightarrow> lim_config rl' = lim_config rl"
  apply (simp add: acquire_attempt_def)
  apply (elim exE conjE)
  subgoal for l
    using refill_config [of rl bucket now l] by (auto split: option.splits if_splits)
  done

lemma attempts_config: "attempts rl as = Inr (rl', gs) \<Longrightarrow> lim_config rl' = lim_config rl"
  by (induction rl as arbitrary: rl' gs rule: attempts.induct) (fastforce dest: acquire_attempt_config)+

text \<open>C12: the rate holds: whatever attempts any number of tasks make on the limiter, in whatever order and with
  whatever clock readings up to time \<open>T\<close>, none of them fails, every bucket stays between zero and its
  capacity, and the tokens a bucket has granted never exceed what it held at first plus its rate times the time
  since its last refill, up to the rounding of the decimals (one part in 2 * 10 ^ 27 per operation).\<close>

theorem rate_bound:
  assumes "limiter_ok rl" "map_of (lim_config rl) bucket = Some cfg" "lim_available rl bucket = Some a"
    "lim_last rl bucket = Some t" "list_all (attempt_ok rl) as" "list_all (\<lambda>(_, _, now). dt_instant now \<le> T) as"
    "dt_instant t \<le> T"
  shows "\<exists>rl' gs. attempts rl as = Inr (rl', gs) \<and> limiter_ok rl' \<and>
    of_int (granted bucket gs) \<le> dval a + (1 + ulp)\<^sup>2 * dval (bk_rate cfg) * (of_int (T - dt_instant t) / 10 ^ 6)
      + 2 * of_nat (length as) * ulp * of_int (bk_capacity cfg)"
proof -
  have T: "\<forall>(_, _, now) \<in> set as. dt_instant now \<le> T" using assms(6) by (auto simp: list_all_iff)
  obtain rl' gs a' where h: "attempts rl as = Inr (rl', gs)" "limiter_ok rl'" "lim_available rl' bucket = Some a'"
    "dval a' + of_int (granted bucket gs) \<le> dval a + 2 * of_nat (length as) * ulp * of_int (bk_capacity cfg)
      + (1 + ulp)\<^sup>2 * dval (bk_rate cfg) * (of_int (T - dt_instant t) / 10 ^ 6)"
    using attempts_bound [OF assms(1-5) T assms(7)] by blast
  have "map_of (lim_config rl') bucket = Some cfg" using assms(2) attempts_config [OF h(1)] by simp
  then have "0 \<le> dval a'" using limiter_okD [OF h(2)] h(3) unfolding level_ok_def by (metis option.inject)
  with h(4) have "of_int (granted bucket gs) \<le> dval a + (1 + ulp)\<^sup>2 * dval (bk_rate cfg) * (of_int (T - dt_instant t) / 10 ^ 6)
      + 2 * of_nat (length as) * ulp * of_int (bk_capacity cfg)" by linarith
  with h(1,2) show ?thesis by blast
qed

theorem rate_bound_witness:
  "\<exists>rl' gs. attempts ex_limiter [(''global'', 15, utc 100000), (''global'', 10, utc 200000)] = Inr (rl', gs) \<and> limiter_ok rl' \<and>
    of_int (granted ''global'' gs) \<le> (25 :: rat)"
proof -
  let ?as = "[(''global'', 15, utc 100000), (''global'', 10, utc 200000)]"
  have "list_all (attempt_ok ex_limiter) ?as"
    by (simp add: attempt_ok_def acquire_guard_def)
  with rate_bound [of ex_limiter "''global''" ex_bucket "dint 20" "utc 0" ?as 200000]
  obtain rl' gs where g: "attempts ex_limiter ?as = Inr (rl', gs)" "limiter_ok rl'"
    "of_int (granted ''global'' gs) \<le> (20 :: rat) + (1 + ulp)\<^sup>2 * 20 * (200000 / 10 ^ 6) + 2 * 2 * ulp * 20"
    by auto
  have "(20 :: rat) + (1 + ulp)\<^sup>2 * 20 * (200000 / 10 ^ 6) + 2 * 2 * ulp * 20 \<le> 25"
    by (simp add: ulp_def power2_eq_square)
  with g show ?thesis by (intro exI conjI) auto
qed

text \<open>C37: no starvation: on the simulated clock an \<open>acquire\<close> that nobody interferes with returns after at
  most one sleep, for every valid request that the refill rate can serve within 10 ^ 9 seconds: the computed
  waiting time survives the decimal division, the conversion to a double and the rounding of the clock.\<close>

theorem acquire_returns:
  assumes "limiter_ok rl" "map_of (lim_config rl) bucket = Some cfg" "0 < tokens" "tokens \<le> bk_capacity cfg"
    "of_int tokens \<le> 10 ^ 9 * dval (bk_rate cfg)" "sim_aware c"
    "lim_last rl bucket = Some t" "dt_instant t \<le> dt_instant (sim_now c)"
  shows "\<exists>rl' c'. acquire sim_now sim_sleep 2 rl c bucket tokens = Inr (Some (rl', c')) \<and> limiter_ok rl'"
  by (rule sim.acquire_two_rounds [OF assms])

theorem acquire_returns_witness:
  "\<exists>rl' c'. acquire sim_now sim_sleep 2 ex_limiter \<lparr>clk_now = utc 5\<rparr> ''global'' 20 = Inr (Some (rl', c')) \<and> limiter_ok rl'"
  by (rule acquire_returns [of _ _ ex_bucket _ _ "utc 0"]) (simp_all add: sim_aware_def sim_now_def)

text \<open>The guards of \<open>acquire\<close>: an unknown bucket, a non-positive count and a count above the capacity
  are refused with the right error, whatever the clock and the fuel, before any token moves.\<close>

theorem acquire_guards:
  "(map_of (lim_config rl) bucket = None \<and> acquire now sleep fuel rl c bucket tokens = Inl (UnknownBucket bucket)) \<or>
   (\<exists>cfg. map_of (lim_config rl) bucket = Some cfg \<and>
      acquire now sleep fuel rl c bucket tokens =
        (if tokens \<le> 0 then Inl (ValueError ''acquire(tokens) must be > 0'')
         else if bk_capacity cfg < tokens then Inl (ValueError ''exceeds bucket capacity'')
         else acquire_loop now sleep fuel rl c bucket tokens))"
  by (cases "map_of (lim_config rl) bucket") (simp_all add: acquire_def acquire_guard_def)

end
