(* ===== verification/MemoryPorts.thy ===== *)
theory MemoryPorts
  imports DomainEvents
begin

text \<open>
  \<open>src/blive/adapters/memory/bus.py\<close> and \<open>persistence.py\<close>: the in-memory event bus and the
  in-memory event log.  A handler is any value of type \<open>'h\<close>; what \<open>publish\<close> does is return the
  handler tasks it creates, in order.  The log is the interface \<open>PersistencePort\<close>, stated as
  the locale \<open>event_store\<close> and interpreted on the model.  The asyncio lock of the log makes each
  operation one step.
\<close>

section \<open>The bus\<close>

record 'h EventBus =
  eb_subs :: "string \<rightharpoonup> (nat \<times> 'h) list"
  eb_next :: nat

definition bus_init :: "'h EventBus" where
  "bus_init = \<lparr>eb_subs = Map.empty, eb_next = 0\<rparr>"

definition subscribers :: "'h EventBus \<Rightarrow> string \<Rightarrow> (nat \<times> 'h) list" where
  "subscribers b topic = (case eb_subs b topic of None \<Rightarrow> [] | Some l \<Rightarrow> l)"

definition bus_publish :: "'h EventBus \<Rightarrow> string \<Rightarrow> DomainEvent \<Rightarrow> ('h \<times> DomainEvent) list" where
  "bus_publish b topic event = map (\<lambda>(_, handler). (handler, event)) (subscribers b topic)"

definition bus_subscribe :: "'h EventBus \<Rightarrow> string \<Rightarrow> 'h \<Rightarrow> nat \<times> 'h EventBus" where
  "bus_subscribe b topic handler =
     (let sid = eb_next b
      in (sid, b\<lparr>eb_next := sid + 1, eb_subs := (eb_subs b)(topic \<mapsto> subscribers b topic @ [(sid, handler)])\<rparr>))"

definition bus_unsubscribe :: "'h EventBus \<Rightarrow> nat \<Rightarrow> 'h EventBus" where
  "bus_unsubscribe b sid =
     b\<lparr>eb_subs := (\<lambda>topic. map_option (filter (\<lambda>(s, _). s \<noteq> sid)) (eb_subs b topic))\<rparr>"

datatype 'h bus_op = Subscribe string 'h | Unsubscribe nat

fun bus_step :: "'h EventBus \<Rightarrow> 'h bus_op \<Rightarrow> 'h EventBus" where
  "bus_step b (Subscribe topic handler) = snd (bus_subscribe b topic handler)"
| "bus_step b (Unsubscribe sid) = bus_unsubscribe b sid"

text \<open>
  What a bus promises, abstractly: one flat list of the live subscriptions in the order they were
  made, and a counter.
\<close>

type_synonym 'h subscriptions = "nat \<times> (nat \<times> string \<times> 'h) list"

fun abs_bus_step :: "'h subscriptions \<Rightarrow> 'h bus_op \<Rightarrow> 'h subscriptions" where
  "abs_bus_step (n, subs) (Subscribe topic handler) = (n + 1, subs @ [(n, topic, handler)])"
| "abs_bus_step (n, subs) (Unsubscribe sid) = (n, filter (\<lambda>(i, _, _). i \<noteq> sid) subs)"

definition live_on :: "string \<Rightarrow> (nat \<times> string \<times> 'h) list \<Rightarrow> (nat \<times> 'h) list" where
  "live_on topic subs = map (\<lambda>(i, _, h). (i, h)) (filter (\<lambda>(_, t, _). t = topic) subs)"

definition bus_refines :: "'h EventBus \<Rightarrow> 'h subscriptions \<Rightarrow> bool" where
  "bus_refines b a \<longleftrightarrow> eb_next b = fst a \<and> (\<forall>topic. subscribers b topic = live_on topic (snd a))"

lemma bus_refines_init: "bus_refines bus_init (0, [])"
  by (simp add: bus_refines_def bus_init_def subscribers_def live_on_def)

lemma live_on_unsubscribe:
  "filter (\<lambda>(s, _). s \<noteq> sid) (live_on topic subs) = live_on topic (filter (\<lambda>(i, _, _). i \<noteq> sid) subs)"
  by (induction subs) (auto simp: live_on_def)

lemma bus_refines_step: "bus_refines b a \<Longrightarrow> bus_refines (bus_step b op) (abs_bus_step a op)"
proof (cases op)
  case (Subscribe topic handler)
  moreover assume "bus_refines b a"
  ultimately show ?thesis
    by (cases a) (auto simp: bus_refines_def bus_subscribe_def Let_def subscribers_def live_on_def)
next
  case (Unsubscribe sid)
  moreover assume "bus_refines b a"
  moreover have "subscribers (bus_unsubscribe b sid) topic = filter (\<lambda>(s, _). s \<noteq> sid) (subscribers b topic)" for topic
    by (simp add: subscribers_def bus_unsubscribe_def split: option.splits)
  ultimately show ?thesis
    by (cases a) (simp add: bus_refines_def live_on_unsubscribe, simp add: bus_unsubscribe_def)
qed

lemma abs_bus_ids:
  assumes "distinct (map fst (snd a))" "\<forall>x \<in> set (snd a). fst x < fst a"
  shows "distinct (map fst (snd (abs_bus_step a op))) \<and> (\<forall>x \<in> set (snd (abs_bus_step a op)). fst x < fst (abs_bus_step a op))"
proof (cases a)
  case (Pair n subs)
  show ?thesis
  proof (cases op)
    case (Subscribe topic h)
    have "n \<notin> fst ` set subs" using assms(2) Pair by auto
    with assms Pair Subscribe show ?thesis by (auto intro: less_SucI)
  next
    case (Unsubscribe sid)
    with assms Pair show ?thesis by (simp add: distinct_map_filter)
  qed
qed

section \<open>The event log\<close>

record Persistence =
  ps_events :: "DomainEvent list"
  ps_snapshots :: "string \<rightharpoonup> string"

definition persistence_init :: Persistence where
  "persistence_init = \<lparr>ps_events = [], ps_snapshots = Map.empty\<rparr>"

definition ps_append :: "Persistence \<Rightarrow> DomainEvent \<Rightarrow> int \<times> Persistence" where
  "ps_append p event = (int (length (ps_events p)), p\<lparr>ps_events := ps_events p @ [event]\<rparr>)"

text \<open>A Python slice \<open>xs[offset:]\<close>: a negative offset counts from the end.\<close>

definition slice_from :: "int \<Rightarrow> 'a list \<Rightarrow> 'a list" where
  "slice_from offset xs = (if 0 \<le> offset then drop (nat offset) xs else drop (nat (int (length xs) + offset)) xs)"

definition ps_read_from :: "Persistence \<Rightarrow> int \<Rightarrow> DomainEvent list" where
  "ps_read_from p offset = slice_from offset (ps_events p)"

definition ps_snapshot :: "Persistence \<Rightarrow> string \<Rightarrow> string \<Rightarrow> Persistence res" where
  "ps_snapshot p key blob =
     (if key = [] then Inl (ValueError ''snapshot key must be non-empty'')
      else Inr (p\<lparr>ps_snapshots := (ps_snapshots p)(key \<mapsto> blob)\<rparr>))"

definition ps_load_snapshot :: "Persistence \<Rightarrow> string \<Rightarrow> string option" where
  "ps_load_snapshot p key = ps_snapshots p key"

section \<open>The port\<close>

text \<open>
  An event store: reading from the offset an append returned starts with that event, and reading
  from any offset below the end is only extended by later appends.
\<close>

locale event_store =
  fixes append_event :: "'s \<Rightarrow> 'e \<Rightarrow> int \<times> 's"
    and read_events :: "'s \<Rightarrow> int \<Rightarrow> 'e list"
    and end_offset :: "'s \<Rightarrow> int"
  assumes end_nonneg: "0 \<le> end_offset s"
    and append_offset: "append_event s e = (o', s') \<Longrightarrow> o' = end_offset s \<and> end_offset s' = end_offset s + 1"
    and append_extends: "append_event s e = (o', s') \<Longrightarrow> 0 \<le> i \<Longrightarrow> i \<le> end_offset s \<Longrightarrow> read_events s' i = read_events s i @ [e]"
    and read_end: "read_events s (end_offset s) = []"
begin

fun append_all :: "'s \<Rightarrow> 'e list \<Rightarrow> int list \<times> 's" where
  "append_all s [] = ([], s)"
| "append_all s (e # es) = (let (o', s1) = append_event s e; (os, s2) = append_all s1 es in (o' # os, s2))"

lemma append_all_end: "end_offset (snd (append_all s es)) = end_offset s + int (length es)"
proof (induction es arbitrary: s)
  case (Cons e es)
  obtain o' s1 where a: "append_event s e = (o', s1)" by (cases "append_event s e")
  with append_offset [OF a] Cons show ?case by (simp add: split_beta)
qed simp

lemma append_all_reads:
  "0 \<le> i \<Longrightarrow> i \<le> end_offset s \<Longrightarrow> read_events (snd (append_all s es)) i = read_events s i @ es"
proof (induction es arbitrary: s)
  case (Cons e es)
  obtain o' s1 where a: "append_event s e = (o', s1)" by (cases "append_event s e")
  with append_offset [OF a] append_extends [OF a Cons.prems] Cons.IH [of s1] Cons.prems show ?case
    by (simp add: split_beta)
qed simp

text \<open>Replay: from the offset of the k-th appended event the store returns the events from the k-th on.\<close>

lemma append_all_offsets:
  "k < length es \<Longrightarrow> fst (append_all s es) ! k = end_offset s + int k \<and>
    read_events (snd (append_all s es)) (fst (append_all s es) ! k) = drop k es"
proof (induction es arbitrary: s k)
  case (Cons e es)
  obtain o' s1 where a: "append_event s e = (o', s1)" by (cases "append_event s e")
  note ao = append_offset [OF a]
  show ?case
  proof (cases k)
    case 0
    have "read_events s1 (end_offset s) = [e]"
      using append_extends [OF a, of "end_offset s"] end_nonneg [of s] by (simp add: read_end)
    with append_all_reads [of "end_offset s" s1 es] ao end_nonneg [of s] a 0 show ?thesis
      by (simp add: split_beta)
  next
    case (Suc j)
    have "j < length es" using Suc Cons.prems by simp
    note IH = Cons.IH [OF this, of s1]
    have "fst (append_all s1 es) ! j = end_offset s + (1 + int j)" using conjunct1 [OF IH] by (simp add: ao)
    moreover note conjunct2 [OF IH]
    moreover have "fst (append_all s (e # es)) ! k = fst (append_all s1 es) ! j"
      "snd (append_all s (e # es)) = snd (append_all s1 es)" by (simp_all add: a Suc split_beta)
    ultimately show ?thesis by (simp only: Suc drop_Suc_Cons) simp
  qed
qed simp

end

interpretation log: event_store ps_append ps_read_from "\<lambda>p. int (length (ps_events p))"
  by unfold_locales (auto simp: ps_append_def ps_read_from_def slice_from_def)

section \<open>Properties\<close>

text \<open>The bus delivers to exactly the live subscriptions: after any sequence of subscribe and unsubscribe
  calls, \<open>publish\<close> creates one task for each subscription to the topic that was made and not cancelled
  since, in the order they were made, and no two subscriptions share an id.\<close>

theorem bus_delivers_to_live:
  "bus_publish (foldl bus_step bus_init ops) topic event =
     map (\<lambda>(_, h). (h, event)) (live_on topic (snd (foldl abs_bus_step (0, []) ops))) \<and>
   distinct (map fst (snd (foldl abs_bus_step (0, []) ops))) \<and>
   eb_next (foldl bus_step bus_init ops) = fst (foldl abs_bus_step (0, []) ops)"
proof -
  have r: "bus_refines (foldl bus_step bus_init ops) (foldl abs_bus_step (0, []) ops)"
    by (induction ops rule: rev_induct) (simp_all add: bus_refines_init bus_refines_step)
  have "distinct (map fst (snd (foldl abs_bus_step (0, []) ops))) \<and>
      (\<forall>x \<in> set (snd (foldl abs_bus_step (0, []) ops)). fst x < fst (foldl abs_bus_step (0, []) ops))"
    by (induction ops rule: rev_induct) (simp_all add: abs_bus_ids del: abs_bus_step.simps)
  with r show ?thesis by (simp add: bus_refines_def bus_publish_def)
qed

text \<open>The log replays: appending events one after another returns consecutive offsets, reading from the offset
  of one of them returns it and everything appended after it, and what was read before is only extended.\<close>

theorem log_replays:
  assumes "k < length es" "0 \<le> i" "i \<le> int (length (ps_events p))"
  shows "fst (log.append_all p es) ! k = int (length (ps_events p)) + int k \<and>
    ps_read_from (snd (log.append_all p es)) (fst (log.append_all p es) ! k) = drop k es \<and>
    ps_read_from (snd (log.append_all p es)) i = ps_read_from p i @ es"
  using log.append_all_offsets [OF assms(1)] log.append_all_reads [OF assms(2,3)] by blast

definition ex_connection :: "bool \<Rightarrow> DomainEvent" where
  "ex_connection c = DE_Connection \<lparr>c_connected = c, c_detail = ''d'', c_time = utc 0\<rparr>"

theorem log_replays_witness:
  "ps_read_from (snd (log.append_all persistence_init [ex_connection True, ex_connection False]))
     (fst (log.append_all persistence_init [ex_connection True, ex_connection False]) ! 1) = [ex_connection False]"
proof -
  let ?es = "[ex_connection True, ex_connection False]"
  have "1 < length ?es" "0 \<le> (0 :: int)" "0 \<le> int (length (ps_events persistence_init))" by simp_all
  note r = log_replays [OF this]
  have "drop 1 ?es = [ex_connection False]" by simp
  with conjunct1 [OF conjunct2 [OF r]] show ?thesis by (rule trans)
qed

end
