(* ===== verification/Spec2Isabelle.thy ===== *)
theory Spec2Isabelle
  imports StubRun Flatten ReadProbes QuoteProbe Signals StrategyLoader IBRuns RiskChecks PriceGrid RateLimiter IGMarketData IBMarketData BrokerSetup OrderFsm PaperBroker DecimalText MemoryPorts Credentials EodhdConventions IBOrders
begin

text \<open>
  A verification library of \<open>blive\<close>, a Python program that trades the strategies of a backtesting package live: it turns
  position signals into orders, checks them against risk limits, sends them to a simulated broker, to Interactive Brokers (IB)
  or to IG, follows every order to its end, and keeps cash, positions and an equity curve.

  \<^bold>\<open>The program and its theories.\<close>  Paths are relative to \<open>src/blive\<close> unless they start with \<open>scripts\<close>.

  \<^item> Python itself.  \<open>Prelude\<close>: exceptions as values (\<open>exn\<close>), the result type \<open>res\<close> of everything fallible, the guards of
    a \<open>__post_init__\<close>, sequencing with a state that survives an exception (\<open>bindS\<close>), string predicates.
    \<open>Decimals\<close>, \<open>DecimalText\<close>: \<open>decimal.Decimal\<close> with precision 28 and rounding half to even, and
    \<open>Decimal(text)\<close>.  \<open>PyTime\<close>, \<open>IGTime\<close>: \<open>datetime\<close> and the timestamps that are parsed.  \<open>Json\<close>: bodies
    as \<open>json\<close> returns them.
  \<^item> The domain.  \<open>DomainTypes\<close> (\<open>domain/types.py\<close>), \<open>DomainEvents\<close> (\<open>domain/events.py\<close>), \<open>OrderFsm\<close>
    (\<open>domain/order_fsm.py\<close>, the order machine), \<open>Positions\<close> (\<open>domain/positions.py\<close>, \<open>apply_fill\<close>).
  \<^item> From a signal to an approved order.  \<open>Signals\<close> (\<open>runtime/signals.py\<close>), \<open>Sizer\<close> (\<open>sizing/sizer.py\<close>),
    \<open>RiskChecks\<close> (\<open>risk/checks.py\<close>, the kill switch and the gate), \<open>StrategyConfig\<close> and \<open>StrategyLoader\<close>
    (\<open>strategy/config.py\<close>, \<open>strategy/loader.py\<close>).
  \<^item> Shared by the adapters.  \<open>Clocks\<close> (\<open>adapters/clock/sim.py\<close>), \<open>RateLimiter\<close>, \<open>PriceGrid\<close> and
    \<open>Credentials\<close> (\<open>adapters/shared\<close>), \<open>EodhdConventions\<close> (\<open>adapters/eodhd/conventions.py\<close>),
    \<open>InstrumentCache\<close> (the dictionaries keyed by instruments), \<open>MemoryPorts\<close> (\<open>adapters/memory\<close>).
  \<^item> The paper adapters.  \<open>PaperBroker\<close>, \<open>PaperMarketData\<close> (\<open>adapters/paper\<close>) and the loop that drives them,
    \<open>PaperPipeline\<close> (\<open>runtime/paper_pipeline.py\<close>).
  \<^item> The IB adapters (\<open>adapters/ib\<close>).  \<open>IBContracts\<close> (\<open>instrument_resolver.py\<close>), \<open>PriceRules\<close>
    (\<open>price_rules.py\<close>), \<open>IBShapes\<close>, \<open>IBAccount\<close> and \<open>IBOrders\<close> (\<open>broker.py\<close>: parsers, connection and
    account, orders), \<open>IBMarketData\<close> (\<open>market_data.py\<close>), and \<open>BrokerSetup\<close> (the credentials of both brokers,
    \<open>ib/client.py\<close>, \<open>runtime/broker_registry.py\<close>).  \<open>IBPipeline\<close> models \<open>runtime/ib_pipeline.py\<close>;
    \<open>IBRuns\<close> holds what a whole run adds up to.
  \<^item> The IG adapters (\<open>adapters/ig\<close>).  \<open>IGClient\<close> (\<open>client.py\<close>), \<open>IGResolver\<close> (\<open>instrument_resolver.py\<close>),
    \<open>IGBroker\<close> (\<open>broker.py\<close>), \<open>IGMarketData\<close> (\<open>market_data.py\<close>).  The state of each contains that of the
    one below it: broker and market data share the client of the resolver.
  \<^item> What a run leaves, and the drivers.  \<open>RunRecord\<close> (\<open>runtime/m3_2_record.py\<close>, \<open>adapters/alert/log.py\<close>),
    \<open>CaptureRun\<close> (\<open>scripts/run_m2ib6_ib_paper.py\<close>), \<open>StubRun\<close> (\<open>scripts/run_m2ib5_paper.py\<close>),
    \<open>EodhdRefresh\<close> (\<open>scripts/refresh_eodhd_parquet.py\<close>, \<open>scripts/refresh_eodhd_signals.py\<close>),
    \<open>Flatten\<close> (\<open>scripts/flatten_ib_paper.py\<close>).
  \<^item> The probes, scripts that try the adapters against the live gateway.  \<open>OrderProbes\<close> (\<open>scripts/probe_ib_submit.py\<close>,
    \<open>probe_tqqq_us_rth.py\<close>, \<open>probe_qql3_lmt_cap.py\<close>, \<open>probe_tqqq_diag.py\<close>), \<open>ReadProbes\<close> (\<open>probe_ib_handshake.py\<close>,
    \<open>probe_ib_resolve_contract.py\<close>, \<open>probe_ib_market_data.py\<close>, \<open>probe_ib_read.py\<close>, \<open>probe_ib_reconnect.py\<close>),
    \<open>QuoteProbe\<close> (\<open>probe_qql3_unit_of_quote.py\<close>).

  \<^bold>\<open>State and operations.\<close>  A class is a record whose fields are its attributes, an enum or a tagged union a datatype, a
  validated dataclass a record with a \<open>mk_\<close> function that performs the checks in their order.  A method is a function from
  the state and its arguments to the result and the new state; where it may raise after it changed something, the state after an
  exception keeps the change.  A definition has the name of the Python function or constant, with a prefix where two modules use the
  same name.  Concurrency is that of \<open>asyncio\<close>: code between two awaits is one step.  A coroutine is split at its awaits
  (\<open>submit_check\<close>, \<open>submit_priced\<close> and \<open>submit_place\<close> of \<open>IBOrders\<close>; \<open>subscribe_begin\<close>,
  \<open>subscribe_end\<close>, \<open>unsubscribe_begin\<close> and \<open>unsubscribe_end\<close> of \<open>IGMarketData\<close>; the stages of the paper lifecycle task; the attempts of the rate limiter), the
  tasks of \<open>asyncio.create_task\<close> are a queue the event loop runs from the front, and the pushes of IB are inputs of
  \<open>ib_step\<close>.  A trade is an object IB mutates: a task reads it when it runs.  A theorem over every list of inputs, or
  over every script of what happens during each await, is one about every interleaving.

  \<^bold>\<open>Interfaces.\<close>  Five locales state what one part promises to another, each interpreted on the model: \<open>clock_port\<close>
  (the simulated clock, for the rate limiter), \<open>keyed_cache\<close> (the caches of the resolvers and the price rules),
  \<open>increment_provider\<close> (the price rules, for the IB broker), \<open>order_emitter\<close> (a broker whose every step publishes
  a run of the order machine: the paper and the IB broker), \<open>event_store\<close> (the in-memory log).

  \<^bold>\<open>What the lemmas show.\<close>

  \<^item> Orders.  The events each broker publishes for an order are a run of the order machine, for any interleaving
    (\<open>paper_events_conform\<close>, \<open>ib_events_conform\<close>, \<open>ig_submit_conforms\<close>); nothing follows a terminal event;
    executions are booked once; IG is asked to open a position at most once per submission.
  \<^item> Money.  Folding fills never raises and adds up (\<open>Positions\<close>); cash, positions, counters and curve of a run are the
    replay of its fills (\<open>PaperPipeline\<close>, \<open>IBRuns\<close>); a recorded row accounts for them (\<open>RunRecord\<close>).
  \<^item> Limits.  An order passes the gate exactly when no check objects; an accepted configuration caps the size of an order;
    the rate limiter's grants are bounded; subscriptions keep to their budget, less the slots of those cancelled while they held
    one; prices lie on the exchange's grid.
  \<^item> Equivalences: the eligibility loop, the bars built from a stream, and a dry run, each with a simpler reference.
  \<^item> Composition.  The refresh scripts write what the capture driver reads (\<open>refresh_feeds_capture\<close>), which replays
    exactly the window it announces (\<open>capture_run_previewed\<close>, \<open>capture_replays_window\<close>).  The probes over the broker
    place at most one order, and what their exit codes say is in the events published (\<open>us_rth_verdict\<close>); the
    reconnection drill reports what happened (\<open>drill_reports\<close>).
  \<^item> Round trips, termination and progress: the env file, IB contracts; an IG request always ends and recovers an expired
    session; an acquire returns.

  Some theorems state a behaviour the code's comments or documents do not promise: the ledger of the IB pipeline moves by the last
  execution of an order only (\<open>only_last_execution_booked\<close>), and not at all by a fill after the wait
  (\<open>ib_outcome_conforms\<close>); the price check leaves stop prices alone (\<open>approve_iff_gate_open\<close>); one unreadable number makes a whole read raise
  (\<open>ig_positions_read\<close>, \<open>ib_history_read\<close>).

  \<^bold>\<open>Bounds and fuel.\<close>

  \<^item> The loop of \<open>acquire\<close> takes fuel; two rounds are enough when nobody else takes tokens (\<open>acquire_returns\<close>).
    With others taking tokens the bound on the grants holds for any interleaving of attempts.
  \<^item> The loop of \<open>ig_request\<close> has a measure over its two flags, so that a request is at most five HTTP calls; the poll
    for a confirmation recurs on the configured number of attempts, so that a submission is at most twenty calls and five per attempt.
  \<^item> A wait of a pipeline is a script; its end is the timeout.  A paper drain that waits on an event that never comes is None, and
    \<open>paper_run_reconciles\<close> shows that this does not happen.
  \<^item> Python's integers are unbounded and so are the model's.  A \<open>Decimal\<close> has its 28 digits and its rounding.  A float is the
    rational it denotes; where its rounding matters (the rate limiter, the SMA comparison) the nearest double is written out
    (\<open>fl\<close>), with positive doubles of the normal range.  The rates of a record are within 0.00006 of their quotients.

  \<^bold>\<open>Parameters and conventions.\<close>  What is not in the repository is an argument: the answers of IG and IB and of the
  \<open>ib_async\<close> calls, the HTTP library, the streaming source, pandas (columns, averages, parsed cells) and parquet files, the
  backtesting package, YAML, pydantic's parsing, the importer, SHA-256, \<open>json.dumps\<close>, the file system, environment
  variables, fresh UUIDs and clock readings.  Strings are ASCII.  An exception carries the fixed part of its message.
  NaN and infinities are texts that cannot be read as numbers.  A JSON number is its text.  A \<open>datetime\<close> is in range, and
  ISO week dates are not parsed.

  \<^bold>\<open>Not modelled.\<close>

  \<^item> \<open>ports\<close>: Protocol classes, signatures without bodies.  The Protocols and the fake source of the IG streaming module,
    for the same reason.
  \<^item> \<open>adapters/clock/wall.py\<close>: it reads the system's time and sleeps.
  \<^item> \<open>scripts/probe_ib_account_ccy.py\<close>: it prints the account values grouped by tag.
  \<^item> Printing, logging, argument parsing and default paths of the scripts; they have no effect on what is proved.
\<close>

end
